(* ===== verification/Prelude.thy ===== *)
theory Prelude
  imports Main "HOL-Library.List_Lexorder" "HOL-Library.AList" "HOL-Library.Word"
begin

text \<open>
  Shared ground of the development: Python exceptions as the left side of a sum, Python strings
  as lists of Unicode code points, the JSON-shaped Python values every component exchanges, and
  the generic lemmas about them. Component proofs use four collections: \<open>result_iff\<close> turns
  "this computation returned \<open>Inr y\<close>" into the facts its checks established, \<open>json_simps\<close>
  evaluates field access and key checks on concrete objects, \<open>fails_intros\<close> bounds the exceptions
  that can leave a computation, and \<open>text_simps\<close> unfolds the
  character classes of the regular expressions.
\<close>

named_theorems result_iff
named_theorems json_simps
named_theorems text_simps
named_theorems fails_intros

section \<open>Exceptions and results\<close>

text \<open>
  \<open>Error code\<close> is a \<open>TransferContentError(code)\<close> (\<open>src/velo_transfer/errors.py\<close>),
  \<open>WireError code\<close> the wire module's own exception, \<open>PyError name\<close> an exception of the
  language such as \<open>ValueError\<close> or \<open>KeyError\<close>. The context dictionary of an \<open>Error\<close>
  only carries diagnostics and is left out.
\<close>

datatype exn = Error string | WireError string | PyError string

type_synonym 'a result = "exn + 'a"

definition rbind :: "'e + 'a \<Rightarrow> ('a \<Rightarrow> 'e + 'b) \<Rightarrow> 'e + 'b" where
  "rbind m f = (case m of Inl e \<Rightarrow> Inl e | Inr x \<Rightarrow> f x)"

definition require :: "bool \<Rightarrow> 'e \<Rightarrow> 'e + unit" where
  "require b e = (if b then Inr () else Inl e)"

text \<open>\<open>except Error: raise Error(code) from None\<close>: only the module's own error is caught.\<close>

definition catch_error :: "'a result \<Rightarrow> string \<Rightarrow> 'a result" where
  "catch_error m code = (case m of Inl (Error _) \<Rightarrow> Inl (Error code) | _ \<Rightarrow> m)"

fun for_each :: "('a \<Rightarrow> 'e + unit) \<Rightarrow> 'a list \<Rightarrow> 'e + unit" where
  "for_each f [] = Inr ()"
| "for_each f (x # xs) = rbind (f x) (\<lambda>_. for_each f xs)"

fun fold_res :: "('a \<Rightarrow> 's \<Rightarrow> 'e + 's) \<Rightarrow> 'a list \<Rightarrow> 's \<Rightarrow> 'e + 's" where
  "fold_res f [] s = Inr s"
| "fold_res f (x # xs) s = rbind (f x s) (fold_res f xs)"

definition is_ok :: "'e + 'a \<Rightarrow> bool" where
  "is_ok m = (case m of Inl _ \<Rightarrow> False | Inr _ \<Rightarrow> True)"

lemma rbind_simps [simp]: "rbind (Inl e) f = Inl e" "rbind (Inr x) f = f x"
  by (simp_all add: rbind_def)

lemma rbind_cong [fundef_cong]:
  "m = m' \<Longrightarrow> (\<And>x. m' = Inr x \<Longrightarrow> f x = g x) \<Longrightarrow> rbind m f = rbind m' g"
  by (auto simp: rbind_def split: sum.splits)

lemma rbind_Inr_iff [result_iff]: "rbind m f = Inr y \<longleftrightarrow> (\<exists>x. m = Inr x \<and> f x = Inr y)"
  by (cases m) auto

lemma rbind_Inl_iff: "rbind m f = Inl e \<longleftrightarrow> m = Inl e \<or> (\<exists>x. m = Inr x \<and> f x = Inl e)"
  by (cases m) auto

lemma require_simps [simp]: "require True e = Inr ()" "require False e = Inl e"
  by (simp_all add: require_def)

lemma require_Inr_iff [result_iff]: "require b e = Inr y \<longleftrightarrow> b"
  by (simp add: require_def)

lemma require_Inl_iff: "require b e = Inl e' \<longleftrightarrow> \<not> b \<and> e' = e"
  by (auto simp: require_def)

lemma require_bind_Inr_iff [simp]: "rbind (require b e) f = Inr y \<longleftrightarrow> b \<and> f () = Inr y"
  by (cases b) auto

lemma catch_error_Inr_iff [result_iff]: "catch_error m code = Inr y \<longleftrightarrow> m = Inr y"
  by (auto simp: catch_error_def split: sum.splits exn.splits)

lemma for_each_Inr_iff [result_iff]: "for_each f xs = Inr y \<longleftrightarrow> (\<forall>x \<in> set xs. f x = Inr ())"
  by (induction xs) (auto simp: rbind_Inr_iff)

lemma for_each_ok: "(\<And>x. x \<in> set xs \<Longrightarrow> f x = Inr ()) \<Longrightarrow> for_each f xs = Inr ()"
  by (induction xs) auto

lemma is_ok_simps [simp]: "is_ok (Inr x)" "\<not> is_ok (Inl e)"
  by (simp_all add: is_ok_def)

lemma is_ok_iff: "is_ok m \<longleftrightarrow> (\<exists>x. m = Inr x)"
  by (cases m) auto

lemma fold_res_append:
  "fold_res f (xs @ ys) s = rbind (fold_res f xs s) (fold_res f ys)"
  by (induction xs arbitrary: s) (auto simp: rbind_def split: sum.splits)

text \<open>\<open>fails_only P m\<close>: every exception that leaves \<open>m\<close> satisfies \<open>P\<close>.\<close>

definition fails_only :: "('e \<Rightarrow> bool) \<Rightarrow> 'e + 'a \<Rightarrow> bool" where
  "fails_only P m \<longleftrightarrow> (\<forall>e. m = Inl e \<longrightarrow> P e)"

lemma fails_Inr [fails_intros]: "fails_only P (Inr x)"
  by (simp add: fails_only_def)

lemma fails_Inl [fails_intros]: "P e \<Longrightarrow> fails_only P (Inl e)"
  by (simp add: fails_only_def)

lemma fails_require [fails_intros]: "P e \<Longrightarrow> fails_only P (require b e)"
  by (simp add: fails_only_def require_def)

lemma fails_rbind [fails_intros]:
  "fails_only P m \<Longrightarrow> (\<And>x. m = Inr x \<Longrightarrow> fails_only P (f x)) \<Longrightarrow> fails_only P (rbind m f)"
  by (cases m) (auto simp: fails_only_def)

lemma fails_fold_res [fails_intros]: "(\<And>x s. fails_only P (f x s)) \<Longrightarrow> fails_only P (fold_res f xs s)"
  by (induction xs arbitrary: s) (auto intro!: fails_intros)

lemma fails_for_each [fails_intros]: "(\<And>x. x \<in> set xs \<Longrightarrow> fails_only P (f x)) \<Longrightarrow> fails_only P (for_each f xs)"
  by (induction xs) (auto intro!: fails_intros)

lemma fails_if [fails_intros]: "(b \<Longrightarrow> fails_only P m) \<Longrightarrow> (\<not> b \<Longrightarrow> fails_only P n) \<Longrightarrow> fails_only P (if b then m else n)"
  by simp

lemma fails_onlyD: "fails_only P m \<Longrightarrow> m = Inl e \<Longrightarrow> P e"
  by (simp add: fails_only_def)

section \<open>Python strings\<close>

text \<open>
  A Python \<open>str\<close> is a sequence of code points. HOL characters are bytes, so strings that come
  from outside are \<open>pystr\<close>; \<open>u ''abc''\<close> is the literal \<open>"abc"\<close> of the source.
\<close>

type_synonym pystr = "nat list"

definition u :: "string \<Rightarrow> pystr" where
  "u s = map of_char s"

lemma u_eq_iff [simp]: "u s = u t \<longleftrightarrow> s = t"
  by (simp add: u_def inj_map_eq_map inj_def)

lemma length_u [simp]: "length (u s) = length s"
  by (simp add: u_def)

lemma u_eq_Nil_iff [simp]: "u s = [] \<longleftrightarrow> s = []" "[] = u s \<longleftrightarrow> s = []"
  by (auto simp: u_def)

lemma u_append: "u (s @ t) = u s @ u t"
  by (simp add: u_def)

lemma u_code_points: "c \<in> set (u s) \<Longrightarrow> c < 256"
  by (auto simp: u_def)

lemma u_code_points_all [simp]: "list_all (\<lambda>c. c < 1114112) (u s)"
  by (auto simp: list_all_iff dest: u_code_points)

definition starts_with :: "pystr \<Rightarrow> pystr \<Rightarrow> bool" where
  "starts_with p s \<longleftrightarrow> take (length p) s = p"

definition ends_with :: "pystr \<Rightarrow> pystr \<Rightarrow> bool" where
  "ends_with p s \<longleftrightarrow> length p \<le> length s \<and> drop (length s - length p) s = p"

text \<open>\<open>s.split(sep)\<close> for a one-character separator: always at least one part.\<close>

fun split_on :: "nat \<Rightarrow> pystr \<Rightarrow> pystr list" where
  "split_on c [] = [[]]"
| "split_on c (x # xs) =
     (if x = c then [] # split_on c xs
      else (case split_on c xs of [] \<Rightarrow> [[x]] | p # ps \<Rightarrow> (x # p) # ps))"

text \<open>\<open>sep.join(parts)\<close>.\<close>

fun join_on :: "nat \<Rightarrow> pystr list \<Rightarrow> pystr" where
  "join_on c [] = []"
| "join_on c [p] = p"
| "join_on c (p # q # ps) = p @ c # join_on c (q # ps)"

lemma split_on_not_Nil [simp]: "split_on c s \<noteq> []"
  by (cases s) (auto split: list.splits)

lemma join_split [simp]: "join_on c (split_on c s) = s"
proof (induction s)
  case (Cons x xs)
  then show ?case
    by (cases "split_on c xs"; cases "tl (split_on c xs)") (auto split: list.splits)
qed simp

lemma split_on_no_sep: "p \<in> set (split_on c s) \<Longrightarrow> c \<notin> set p"
proof (induction s arbitrary: p)
  case (Cons x xs)
  then show ?case by (auto split: if_splits list.splits)
qed simp

lemma split_on_single: "c \<notin> set s \<Longrightarrow> split_on c s = [s]"
  by (induction s) auto

lemma split_on_append: "c \<notin> set p \<Longrightarrow> split_on c (p @ c # s) = p # split_on c s"
  by (induction p) auto

lemma split_join: "ps \<noteq> [] \<Longrightarrow> (\<And>p. p \<in> set ps \<Longrightarrow> c \<notin> set p) \<Longrightarrow> split_on c (join_on c ps) = ps"
  by (induction c ps rule: join_on.induct) (auto simp: split_on_single split_on_append)

subsection \<open>Character classes\<close>

definition is_digit :: "nat \<Rightarrow> bool" where
  "is_digit c \<longleftrightarrow> 48 \<le> c \<and> c \<le> 57"

definition is_lower :: "nat \<Rightarrow> bool" where
  "is_lower c \<longleftrightarrow> 97 \<le> c \<and> c \<le> 122"

definition is_upper :: "nat \<Rightarrow> bool" where
  "is_upper c \<longleftrightarrow> 65 \<le> c \<and> c \<le> 90"

definition is_alnum :: "nat \<Rightarrow> bool" where
  "is_alnum c \<longleftrightarrow> is_digit c \<or> is_lower c \<or> is_upper c"

definition is_hex_digit :: "nat \<Rightarrow> bool" where
  "is_hex_digit c \<longleftrightarrow> is_digit c \<or> (97 \<le> c \<and> c \<le> 102)"

text \<open>\<open>[0-9a-f]{64}\<close>, the \<open>_HEX\<close> pattern of every module.\<close>

definition is_hex64 :: "pystr \<Rightarrow> bool" where
  "is_hex64 s \<longleftrightarrow> length s = 64 \<and> list_all is_hex_digit s"

text \<open>\<open>[A-Za-z0-9][A-Za-z0-9_.-]{0,127}\<close>, the \<open>_ID\<close> pattern.\<close>

definition is_id_char :: "nat \<Rightarrow> bool" where
  "is_id_char c \<longleftrightarrow> is_alnum c \<or> c = 95 \<or> c = 46 \<or> c = 45"

definition is_id :: "pystr \<Rightarrow> bool" where
  "is_id s \<longleftrightarrow> s \<noteq> [] \<and> is_alnum (hd s) \<and> list_all is_id_char (tl s) \<and> length s \<le> 128"

lemmas char_class_defs [text_simps] =
  is_digit_def is_lower_def is_upper_def is_alnum_def is_hex_digit_def is_id_char_def

section \<open>JSON-shaped Python values\<close>

text \<open>
  A finite Python float is represented by its shortest round-trip decimal, that is by its
  \<open>repr\<close>: \<open>FloatNum neg m e\<close> is \<open>m * 10 ^ e\<close>, negated when \<open>neg\<close>. A dictionary is an
  association list in insertion order; \<open>wf_json\<close> says that its keys are distinct and that
  strings hold code points, which is so of every value of the language. Dictionaries of this program have string keys only.
\<close>

datatype pyfloat = FloatNum bool nat int | FloatInf bool | FloatNan

datatype json = JNull | JBool bool | JInt int | JFloat pyfloat | JStr pystr
  | JList "json list" | JObj "(pystr \<times> json) list"

lemma size_snd_member [termination_simp]:
  "(k, v) \<in> set kvs \<Longrightarrow> size v < Suc (size_list (size_prod (\<lambda>_. 0) size) kvs)"
  by (induction kvs) auto

lemma json_induct [case_names Null Bool Int Float Str List Obj]:
  assumes "P JNull" "\<And>b. P (JBool b)" "\<And>i. P (JInt i)" "\<And>f. P (JFloat f)" "\<And>s. P (JStr s)"
    and "\<And>xs. (\<And>x. x \<in> set xs \<Longrightarrow> P x) \<Longrightarrow> P (JList xs)"
    and "\<And>kvs. (\<And>k v. (k, v) \<in> set kvs \<Longrightarrow> P v) \<Longrightarrow> P (JObj kvs)"
  shows "P v"
proof (induction v)
  case (JObj kvs)
  then show ?case using assms(7) by (metis snds.intros snd_conv)
qed (use assms in auto)

lemma list_all_pairs: "list_all (\<lambda>(k, v). P k v) kvs \<longleftrightarrow> (\<forall>k v. (k, v) \<in> set kvs \<longrightarrow> P k v)"
  by (auto simp: list_all_iff)

definition wf_str :: "pystr \<Rightarrow> bool" where
  "wf_str s \<longleftrightarrow> list_all (\<lambda>c. c < 1114112) s"

lemma wf_str_u [simp]: "wf_str (u s)"
  by (simp add: wf_str_def)

fun wf_json :: "json \<Rightarrow> bool" where
  "wf_json (JStr s) = wf_str s"
| "wf_json (JList xs) = list_all wf_json xs"
| "wf_json (JObj kvs) = (distinct (map fst kvs) \<and> list_all (\<lambda>(k, v). wf_str k \<and> wf_json v) kvs)"
| "wf_json v = True"

subsection \<open>Numbers and equality\<close>

text \<open>The numeric value of a \<open>bool\<close>, \<open>int\<close> or finite \<open>float\<close> as mantissa and power of ten.\<close>

fun num_val :: "json \<Rightarrow> (int \<times> int) option" where
  "num_val (JBool b) = Some (if b then 1 else 0, 0)"
| "num_val (JInt i) = Some (i, 0)"
| "num_val (JFloat (FloatNum neg m e)) = Some (if neg then - int m else int m, e)"
| "num_val v = None"

definition dec_eq :: "int \<times> int \<Rightarrow> int \<times> int \<Rightarrow> bool" where
  "dec_eq x y \<longleftrightarrow> (let e = min (snd x) (snd y)
     in fst x * 10 ^ nat (snd x - e) = fst y * 10 ^ nat (snd y - e))"

definition dec_le :: "int \<times> int \<Rightarrow> int \<times> int \<Rightarrow> bool" where
  "dec_le x y \<longleftrightarrow> (let e = min (snd x) (snd y)
     in fst x * 10 ^ nat (snd x - e) \<le> fst y * 10 ^ nat (snd y - e))"

text \<open>
  Python's \<open>==\<close> on these values: \<open>True == 1 == 1.0\<close>, dictionaries compare without regard to
  order, and NaN differs from itself.
\<close>

fun py_eq :: "json \<Rightarrow> json \<Rightarrow> bool" where
  "py_eq (JList xs) (JList ys) = list_all2 py_eq xs ys"
| "py_eq (JObj xs) (JObj ys) = (length xs = length ys \<and>
     list_all (\<lambda>(k, v). case map_of ys k of None \<Rightarrow> False | Some w \<Rightarrow> py_eq v w) xs)"
| "py_eq JNull b = (b = JNull)"
| "py_eq (JStr s) b = (b = JStr s)"
| "py_eq (JFloat (FloatInf s)) b = (b = JFloat (FloatInf s))"
| "py_eq a b = (case (num_val a, num_val b) of (Some x, Some y) \<Rightarrow> dec_eq x y | _ \<Rightarrow> False)"

fun no_nan :: "json \<Rightarrow> bool" where
  "no_nan (JFloat f) = (f \<noteq> FloatNan)"
| "no_nan (JList xs) = list_all no_nan xs"
| "no_nan (JObj kvs) = list_all (\<lambda>(k, v). no_nan v) kvs"
| "no_nan v = True"

lemma dec_eq_refl [simp]: "dec_eq x x"
  by (simp add: dec_eq_def)

lemma dec_eq_int [simp]: "dec_eq (a, 0) (b, 0) \<longleftrightarrow> a = b"
  by (simp add: dec_eq_def)

lemma dec_le_int [simp]: "dec_le (a, 0) (b, 0) \<longleftrightarrow> a \<le> b"
  by (simp add: dec_le_def)

lemma py_eq_JStr [simp]: "py_eq v (JStr s) \<longleftrightarrow> v = JStr s"
proof (cases v)
  case (JFloat f)
  then show ?thesis by (cases f) auto
qed auto

lemma py_eq_JNull [simp]: "py_eq v JNull \<longleftrightarrow> v = JNull"
proof (cases v)
  case (JFloat f)
  then show ?thesis by (cases f) auto
qed auto

lemma py_eq_refl: "wf_json v \<Longrightarrow> no_nan v \<Longrightarrow> py_eq v v"
proof (induction v rule: json_induct)
  case (Float f)
  then show ?case by (cases f) auto
next
  case (List xs)
  then show ?case by (auto simp: list_all_iff list_all2_same)
next
  case (Obj kvs)
  have "case map_of kvs k of None \<Rightarrow> False | Some w \<Rightarrow> py_eq v w" if "(k, v) \<in> set kvs" for k v
    using Obj that map_of_is_SomeI [of kvs k v] by (auto simp: list_all_pairs)
  then show ?case by (auto simp: list_all_pairs)
qed auto

subsection \<open>Dictionaries\<close>

definition same_set :: "'a list \<Rightarrow> 'a list \<Rightarrow> bool" where
  "same_set xs ys \<longleftrightarrow> list_all (\<lambda>x. x \<in> set ys) xs \<and> list_all (\<lambda>y. y \<in> set xs) ys"

lemma same_set_iff: "same_set xs ys \<longleftrightarrow> set xs = set ys"
  by (auto simp: same_set_def list_all_iff)

fun jkeys :: "json \<Rightarrow> pystr list" where
  "jkeys (JObj kvs) = map fst kvs"
| "jkeys v = []"

fun is_obj :: "json \<Rightarrow> bool" where
  "is_obj (JObj kvs) = True"
| "is_obj v = False"

fun is_int :: "json \<Rightarrow> bool" where
  "is_int (JInt i) = True"
| "is_int v = False"

fun int_of :: "json \<Rightarrow> int" where
  "int_of (JInt i) = i"
| "int_of v = 0"

text \<open>\<open>v.get(k)\<close> as an option.\<close>

fun dget :: "string \<Rightarrow> json \<Rightarrow> json option" where
  "dget k (JObj kvs) = map_of kvs (u k)"
| "dget k v = None"

text \<open>
  \<open>v[k]\<close> behind a check of the key set: the value is \<open>None\<close> where Python would raise, and
  every use stands after such a check. \<open>item\<close> is the unguarded access that raises.
\<close>

definition fld :: "string \<Rightarrow> json \<Rightarrow> json" where
  "fld k v = (case dget k v of None \<Rightarrow> JNull | Some w \<Rightarrow> w)"

definition item :: "string \<Rightarrow> json \<Rightarrow> json result" where
  "item k v = (case dget k v of
     Some w \<Rightarrow> Inr w
   | None \<Rightarrow> Inl (PyError (if is_obj v then ''KeyError'' else ''TypeError'')))"

text \<open>\<open>isinstance(v, dict) and set(v) == set(ks)\<close>.\<close>

definition has_keys :: "json \<Rightarrow> string list \<Rightarrow> bool" where
  "has_keys v ks \<longleftrightarrow> is_obj v \<and> same_set (jkeys v) (map u ks)"

definition obj :: "(string \<times> json) list \<Rightarrow> json" where
  "obj kvs = JObj (map (\<lambda>(k, v). (u k, v)) kvs)"

lemma is_obj_iff: "is_obj v \<longleftrightarrow> (\<exists>kvs. v = JObj kvs)"
  by (cases v) auto

lemma is_int_iff: "is_int v \<longleftrightarrow> (\<exists>i. v = JInt i)"
  by (cases v) auto

lemma map_of_u [simp]: "map_of (map (\<lambda>(k, v). (u k, v)) kvs) (u k) = map_of kvs k"
  by (induction kvs) auto

lemma jkeys_obj [simp]: "jkeys (obj kvs) = map u (map fst kvs)"
  by (auto simp: obj_def)

lemma is_obj_obj [simp]: "is_obj (obj kvs)"
  by (simp add: obj_def)

lemma dget_obj [simp]: "dget k (obj kvs) = map_of kvs k"
  by (simp add: obj_def)

lemma fld_obj [simp]: "fld k (obj kvs) = (case map_of kvs k of None \<Rightarrow> JNull | Some w \<Rightarrow> w)"
  by (simp add: fld_def)

lemma same_set_map_u [simp]: "same_set (map u xs) (map u ys) \<longleftrightarrow> same_set xs ys"
proof -
  have "u x \<in> u ` A \<longleftrightarrow> x \<in> A" for x A by auto
  then show ?thesis by (auto simp: same_set_def list_all_iff)
qed

lemma has_keys_obj [simp]: "has_keys (obj kvs) ks \<longleftrightarrow> same_set (map fst kvs) ks"
  by (simp add: has_keys_def del: map_map)

lemma wf_json_obj: "wf_json (obj kvs) \<longleftrightarrow> distinct (map fst kvs) \<and> list_all (\<lambda>(k, v). wf_json v) kvs"
proof -
  have "inj u" by (simp add: inj_def)
  then have "distinct (map u (map fst kvs)) \<longleftrightarrow> distinct (map fst kvs)"
    by (simp only: distinct_map) (auto simp: inj_on_def)
  moreover have "map fst (map (\<lambda>(k, v). (u k, v)) kvs) = map u (map fst kvs)" by auto
  moreover have "list_all (\<lambda>(k, v). wf_str k \<and> wf_json v) (map (\<lambda>(k, v). (u k, v)) kvs)
      \<longleftrightarrow> list_all (\<lambda>(k, v). wf_json v) kvs"
    by (induction kvs) (auto simp: wf_str_def)
  ultimately show ?thesis by (simp add: obj_def del: map_map)
qed

lemma no_nan_obj: "no_nan (obj kvs) \<longleftrightarrow> list_all (\<lambda>(k, v). no_nan v) kvs"
  by (auto simp: obj_def list_all_iff)

lemma dget_Some_in: "dget k v = Some w \<Longrightarrow> \<exists>kvs. v = JObj kvs \<and> (u k, w) \<in> set kvs"
  by (cases v) (auto dest: map_of_SomeD)

lemma wf_json_fld: "wf_json v \<Longrightarrow> wf_json (fld k v)"
  by (auto simp: fld_def list_all_iff split: option.splits dest!: dget_Some_in)

lemma no_nan_fld: "no_nan v \<Longrightarrow> no_nan (fld k v)"
  by (auto simp: fld_def list_all_iff split: option.splits dest!: dget_Some_in)

lemma has_keys_dget: "has_keys v ks \<Longrightarrow> k \<in> set ks \<Longrightarrow> dget k v = Some (fld k v)"
proof -
  assume keys: "has_keys v ks" and k: "k \<in> set ks"
  then obtain kvs where v: "v = JObj kvs" by (auto simp: has_keys_def is_obj_iff)
  with keys k have "u k \<in> fst ` set kvs" by (auto simp: has_keys_def same_set_iff)
  then have "map_of kvs (u k) \<noteq> None" by (simp add: map_of_eq_None_iff)
  then show ?thesis by (auto simp: v fld_def)
qed

text \<open>A dictionary with exactly the keys \<open>ks\<close> is determined by the fields under \<open>ks\<close>.\<close>

lemma has_keys_values:
  assumes "has_keys v ks" and "v = JObj kvs" and "(k, w) \<in> set kvs" and "wf_json v"
  shows "\<exists>k' \<in> set ks. k = u k' \<and> w = fld k' v"
proof -
  from assms have "k \<in> set (map u ks)" by (force simp: has_keys_def same_set_iff)
  then obtain k' where k': "k' \<in> set ks" "k = u k'" by auto
  moreover have "w = fld k' v"
    using assms k' by (auto simp: fld_def split: option.splits dest: map_of_is_SomeI)
  ultimately show ?thesis by blast
qed

lemma no_nan_fields:
  assumes "has_keys v ks" and "wf_json v" and "\<And>k. k \<in> set ks \<Longrightarrow> no_nan (fld k v)"
  shows "no_nan v"
proof -
  from assms(1) obtain kvs where v: "v = JObj kvs" by (auto simp: has_keys_def is_obj_iff)
  have "no_nan w" if "(k, w) \<in> set kvs" for k w
    using has_keys_values [OF assms(1) v that assms(2)] assms(3) by auto
  then show ?thesis by (auto simp: v list_all_iff)
qed

lemmas obj_simps [json_simps] =
  has_keys_def same_set_def fld_def item_def obj_def

section \<open>Facts that steps keep\<close>

locale stable_fact =
  fixes step :: "'s \<Rightarrow> 's \<Rightarrow> bool" and fact :: "'s \<Rightarrow> bool"
  assumes fact_step: "fact s \<Longrightarrow> step s s' \<Longrightarrow> fact s'"
begin

lemma fact_steps: "step\<^sup>*\<^sup>* s s' \<Longrightarrow> fact s \<Longrightarrow> fact s'"
  by (induction rule: rtranclp_induct) (auto intro: fact_step)

end

end
