(* ===== verification/Utf8.thy ===== *)
theory Utf8
  imports Prelude
begin

text \<open>
  The strict UTF-8 codec behind \<open>str.encode("utf-8")\<close> and \<open>bytes.decode("utf-8")\<close>: no
  surrogates, no overlong forms, nothing above \<open>0x10FFFF\<close>. The two inner functions work on
  byte values, the outer ones on \<open>8 word\<close>.
\<close>

type_synonym byte = "8 word"

definition is_surrogate :: "nat \<Rightarrow> bool" where
  "is_surrogate c \<longleftrightarrow> 55296 \<le> c \<and> c \<le> 57343"

definition is_scalar :: "nat \<Rightarrow> bool" where
  "is_scalar c \<longleftrightarrow> c < 1114112 \<and> \<not> is_surrogate c"

definition utf8_char :: "nat \<Rightarrow> nat list" where
  "utf8_char c =
     (if c < 128 then [c]
      else if c < 2048 then [192 + c div 64, 128 + c mod 64]
      else if c < 65536 then [224 + c div 4096, 128 + c div 64 mod 64, 128 + c mod 64]
      else [240 + c div 262144, 128 + c div 4096 mod 64, 128 + c div 64 mod 64, 128 + c mod 64])"

definition is_cont :: "nat \<Rightarrow> bool" where
  "is_cont b \<longleftrightarrow> 128 \<le> b \<and> b < 192"

text \<open>One code point and the bytes after it.\<close>

fun utf8_next :: "nat list \<Rightarrow> (nat \<times> nat list) option" where
  "utf8_next [] = None"
| "utf8_next (b # bs) =
     (if b < 128 then Some (b, bs)
      else if 194 \<le> b \<and> b < 224 then
        (case bs of b1 # r \<Rightarrow>
           if is_cont b1 then Some ((b - 192) * 64 + (b1 - 128), r) else None
         | _ \<Rightarrow> None)
      else if 224 \<le> b \<and> b < 240 then
        (case bs of b1 # b2 # r \<Rightarrow>
           let c = (b - 224) * 4096 + (b1 - 128) * 64 + (b2 - 128)
           in if is_cont b1 \<and> is_cont b2 \<and> 2048 \<le> c \<and> \<not> is_surrogate c then Some (c, r) else None
         | _ \<Rightarrow> None)
      else if 240 \<le> b \<and> b < 245 then
        (case bs of b1 # b2 # b3 # r \<Rightarrow>
           let c = (b - 240) * 262144 + (b1 - 128) * 4096 + (b2 - 128) * 64 + (b3 - 128)
           in if is_cont b1 \<and> is_cont b2 \<and> is_cont b3 \<and> 65536 \<le> c \<and> c < 1114112
              then Some (c, r) else None
         | _ \<Rightarrow> None)
      else None)"

lemma utf8_next_shorter: "utf8_next bs = Some (c, r) \<Longrightarrow> length r < length bs"
  by (cases bs) (auto simp: Let_def split: if_splits list.splits)

function utf8_chars :: "nat list \<Rightarrow> pystr option" where
  "utf8_chars bs = (if bs = [] then Some [] else
     case utf8_next bs of
       None \<Rightarrow> None
     | Some (c, r) \<Rightarrow> map_option ((#) c) (utf8_chars r))"
  by pat_completeness auto
termination
  by (relation "measure length") (auto dest: utf8_next_shorter)

declare utf8_chars.simps [simp del]

definition utf8_bytes :: "pystr \<Rightarrow> byte list" where
  "utf8_bytes s = map of_nat (concat (map utf8_char s))"

definition encode_utf8 :: "pystr \<Rightarrow> byte list result" where
  "encode_utf8 s = rbind (require (list_all is_scalar s) (PyError ''ValueError'')) (\<lambda>_. Inr (utf8_bytes s))"

definition decode_utf8 :: "byte list \<Rightarrow> pystr result" where
  "decode_utf8 bs = (case utf8_chars (map unat bs) of
     None \<Rightarrow> Inl (PyError ''ValueError'') | Some s \<Rightarrow> Inr s)"

section \<open>Round trip\<close>

lemma utf8_next_char:
  assumes "is_scalar c"
  shows "utf8_next (utf8_char c @ r) = Some (c, r)"
proof -
  consider "c < 128" | "128 \<le> c" "c < 2048" | "2048 \<le> c" "c < 65536" | "65536 \<le> c" by linarith
  then show ?thesis
  proof cases
    case 2
    then have "2 \<le> c div 64" "c div 64 < 32" by auto
    with 2 show ?thesis by (simp add: utf8_char_def is_cont_def)
  next
    case 3
    have eq: "c div 4096 * 4096 + c div 64 mod 64 * 64 + c mod 64 = c"
    proof -
      have "c div 64 div 64 = c div 4096" by (simp add: div_mult2_eq [symmetric])
      then show ?thesis using div_mult_mod_eq [of c 64] div_mult_mod_eq [of "c div 64" 64] by linarith
    qed
    have "c div 4096 < 16" using 3 by auto
    with 3 eq assms show ?thesis by (simp add: utf8_char_def is_cont_def is_scalar_def)
  next
    case 4
    have eq: "c div 262144 * 262144 + c div 4096 mod 64 * 4096 + c div 64 mod 64 * 64 + c mod 64 = c"
    proof -
      have "c div 64 div 64 = c div 4096" "c div 4096 div 64 = c div 262144"
        by (simp_all add: div_mult2_eq [symmetric])
      then show ?thesis
        using div_mult_mod_eq [of c 64] div_mult_mod_eq [of "c div 64" 64]
          div_mult_mod_eq [of "c div 4096" 64] by linarith
    qed
    have "c div 262144 < 5" using assms by (auto simp: is_scalar_def)
    with 4 eq assms show ?thesis by (simp add: utf8_char_def is_cont_def is_scalar_def)
  qed (simp add: utf8_char_def)
qed

lemma utf8_char_not_Nil: "utf8_char c \<noteq> []"
  by (simp add: utf8_char_def)

lemma utf8_chars_concat:
  "list_all is_scalar s \<Longrightarrow> utf8_chars (concat (map utf8_char s)) = Some s"
proof (induction s)
  case Nil
  then show ?case by (simp add: utf8_chars.simps)
next
  case (Cons c s)
  then show ?case
    by (subst utf8_chars.simps) (auto simp: utf8_next_char utf8_char_not_Nil)
qed

lemma utf8_char_byte: "is_scalar c \<Longrightarrow> b \<in> set (utf8_char c) \<Longrightarrow> b < 256"
  by (auto simp: utf8_char_def is_scalar_def split: if_splits)

theorem decode_encode_utf8: "encode_utf8 s = Inr bs \<Longrightarrow> decode_utf8 bs = Inr s"
proof -
  assume enc: "encode_utf8 s = Inr bs"
  then have ok: "list_all is_scalar s" and bs: "bs = utf8_bytes s"
    by (auto simp: encode_utf8_def)
  have "map unat bs = concat (map utf8_char s)"
    using ok utf8_char_byte by (fastforce simp: bs utf8_bytes_def list_all_iff unat_of_nat
        intro!: map_idI mod_less)
  with ok show ?thesis by (simp add: decode_utf8_def utf8_chars_concat)
qed

lemma utf8_bytes_inject:
  assumes "list_all is_scalar s" and "list_all is_scalar t" and eq: "utf8_bytes s = utf8_bytes t"
  shows "s = t"
proof -
  have dec: "decode_utf8 (utf8_bytes x) = Inr x" if "list_all is_scalar x" for x
    by (rule decode_encode_utf8) (simp add: encode_utf8_def that)
  have "Inr s = (Inr t :: pystr result)"
    using dec [OF assms(1)] dec [OF assms(2)] by (simp only: eq)
  then show ?thesis by simp
qed

subsection \<open>Sizes\<close>

definition utf8_width :: "nat \<Rightarrow> nat" where
  "utf8_width c = (if c < 128 then 1 else if c < 2048 then 2 else if c < 65536 then 3 else 4)"

lemma length_utf8_char: "length (utf8_char c) = utf8_width c"
  by (simp add: utf8_char_def utf8_width_def)

lemma length_utf8_bytes: "length (utf8_bytes s) = sum_list (map utf8_width s)"
  by (simp add: utf8_bytes_def length_concat o_def length_utf8_char)

lemma utf8_bytes_append: "utf8_bytes (s @ t) = utf8_bytes s @ utf8_bytes t"
  by (simp add: utf8_bytes_def)

lemma utf8_bytes_ascii: "list_all (\<lambda>c. c < 128) s \<Longrightarrow> length (utf8_bytes s) = length s"
  by (induction s) (auto simp: length_utf8_bytes utf8_width_def)

section \<open>Surrogates passed through\<close>

text \<open>
  \<open>bytes.decode("utf-8", "surrogatepass")\<close>, which \<open>json.loads\<close> applies to bytes: the three byte
  forms of surrogates are accepted as well.
\<close>

definition pass_next :: "nat list \<Rightarrow> (nat \<times> nat list) option" where
  "pass_next bs = (case utf8_next bs of Some x \<Rightarrow> Some x | None \<Rightarrow>
     (case bs of b # b1 # b2 # r \<Rightarrow>
        if b = 237 \<and> 160 \<le> b1 \<and> b1 < 192 \<and> is_cont b2
        then Some ((b - 224) * 4096 + (b1 - 128) * 64 + (b2 - 128), r) else None
      | _ \<Rightarrow> None))"

lemma pass_next_shorter: "pass_next bs = Some (c, r) \<Longrightarrow> length r < length bs"
  by (auto simp: pass_next_def split: option.splits list.splits if_splits dest: utf8_next_shorter)

function pass_chars :: "nat list \<Rightarrow> pystr option" where
  "pass_chars bs = (if bs = [] then Some [] else
     case pass_next bs of
       None \<Rightarrow> None
     | Some (c, r) \<Rightarrow> map_option ((#) c) (pass_chars r))"
  by pat_completeness auto
termination
  by (relation "measure length") (auto dest: pass_next_shorter)

declare pass_chars.simps [simp del]

definition decode_utf8_pass :: "byte list \<Rightarrow> pystr result" where
  "decode_utf8_pass bs = (case pass_chars (map unat bs) of
     None \<Rightarrow> Inl (PyError ''ValueError'') | Some s \<Rightarrow> Inr s)"

lemma pass_chars_strict: "utf8_chars bs = Some s \<Longrightarrow> pass_chars bs = Some s"
proof (induction bs arbitrary: s rule: utf8_chars.induct)
  case (1 bs)
  show ?case
  proof (cases "bs = []")
    case True
    with "1.prems" show ?thesis by (simp add: utf8_chars.simps pass_chars.simps)
  next
    case False
    with "1.prems" obtain c r t where "utf8_next bs = Some (c, r)" "utf8_chars r = Some t" "s = c # t"
      by (subst (asm) utf8_chars.simps) (auto split: option.splits)
    with False "1.IH" show ?thesis by (subst pass_chars.simps) (simp add: pass_next_def)
  qed
qed

lemma decode_utf8_pass_strict: "decode_utf8 bs = Inr s \<Longrightarrow> decode_utf8_pass bs = Inr s"
  by (auto simp: decode_utf8_def decode_utf8_pass_def pass_chars_strict split: option.splits)

end
