(* ===== verification/Json_Text.thy ===== *)
theory Json_Text
  imports Utf8
begin

text \<open>
  The JSON text layer the program relies on: \<open>json.dumps\<close> as \<open>src/velo_transfer/manifest.py\<close>
  (\<open>canonical_json\<close>) and \<open>src/velo_transfer/wire.py\<close> (\<open>encode\<close>) call it, and
  \<open>json.loads\<close> with an \<open>object_pairs_hook\<close> and a \<open>parse_constant\<close> hook. The conversion of a
  decimal literal to a double is the argument \<open>pf\<close> of the decoder. Main results: the decoder
  reads back what the encoder wrote, hence the canonical encoding determines the value up to the
  order of dictionary keys; the decoder's fuel always suffices.
\<close>

section \<open>Encoding\<close>

fun dec_digits :: "nat \<Rightarrow> pystr" where
  "dec_digits n = (if n < 10 then [48 + n] else dec_digits (n div 10) @ [48 + n mod 10])"

declare dec_digits.simps [simp del]

definition int_str :: "int \<Rightarrow> pystr" where
  "int_str i = (if i < 0 then 45 # dec_digits (nat (- i)) else dec_digits (nat i))"

text \<open>
  CPython refuses to convert integers of more than 4300 digits (\<open>sys.int_info\<close>); the limit
  applies to \<open>str\<close>, to \<open>json.dumps\<close> and to \<open>json.loads\<close>.
\<close>

definition int_max_str_digits :: nat where
  "int_max_str_digits = 4300"

definition int_printable :: "int \<Rightarrow> bool" where
  "int_printable i \<longleftrightarrow> length (dec_digits (nat \<bar>i\<bar>)) \<le> int_max_str_digits"

text \<open>The text of a number from its parts: sign, integer digits, fraction digits, exponent.\<close>

definition num_text :: "bool \<Rightarrow> pystr \<Rightarrow> pystr \<Rightarrow> (bool \<times> pystr) option \<Rightarrow> pystr" where
  "num_text neg ip fp ep = (if neg then [45] else []) @ ip @ (if fp = [] then [] else 46 # fp)
     @ (case ep of None \<Rightarrow> [] | Some (s, ds) \<Rightarrow> 101 # (if s then 45 else 43) # ds)"

text \<open>\<open>repr\<close> of a finite float: fixed notation for decimal points in \<open>-3..16\<close>, else scientific.\<close>

definition float_text :: "bool \<Rightarrow> nat \<Rightarrow> int \<Rightarrow> pystr" where
  "float_text neg m e = (let ds = dec_digits m; n = int (length ds); p = n + e in
     if -4 < p \<and> p \<le> 16 then
       if p \<le> 0 then num_text neg [48] (replicate (nat (- p)) 48 @ ds) None
       else if n \<le> p then num_text neg (ds @ replicate (nat (p - n)) 48) [48] None
       else num_text neg (take (nat p) ds) (drop (nat p) ds) None
     else let x = dec_digits (nat \<bar>p - 1\<bar>) in
       num_text neg (take 1 ds) (drop 1 ds)
         (Some (p - 1 < 0, (if length x = 1 then 48 # x else x))))"

fun float_repr :: "pyfloat \<Rightarrow> pystr" where
  "float_repr (FloatNum neg m e) = float_text neg m e"
| "float_repr (FloatInf neg) = (if neg then u ''-inf'' else u ''inf'')"
| "float_repr FloatNan = u ''nan''"

text \<open>The shortest decimal of a float has no trailing zero.\<close>

fun wf_float :: "pyfloat \<Rightarrow> bool" where
  "wf_float (FloatNum neg m e) = (if m = 0 then e = 0 else m mod 10 \<noteq> 0)"
| "wf_float f = True"

definition hex_digit_char :: "nat \<Rightarrow> nat" where
  "hex_digit_char n = (if n < 10 then 48 + n else 87 + n)"

definition esc_char :: "nat \<Rightarrow> pystr" where
  "esc_char c =
     (if c = 34 then [92, 34] else if c = 92 then [92, 92]
      else if c = 10 then [92, 110] else if c = 13 then [92, 114] else if c = 9 then [92, 116]
      else if c = 12 then [92, 102] else if c = 8 then [92, 98]
      else if c < 32 then [92, 117, 48, 48, hex_digit_char (c div 16), hex_digit_char (c mod 16)]
      else [c])"

definition json_string :: "pystr \<Rightarrow> pystr" where
  "json_string s = 34 # concat (map esc_char s) @ [34]"

fun dumps :: "json \<Rightarrow> pystr" where
  "dumps JNull = u ''null''"
| "dumps (JBool b) = (if b then u ''true'' else u ''false'')"
| "dumps (JInt i) = int_str i"
| "dumps (JFloat f) = float_repr f"
| "dumps (JStr s) = json_string s"
| "dumps (JList xs) = 91 # join_on 44 (map dumps xs) @ [93]"
| "dumps (JObj kvs) = 123 # join_on 44 (map (\<lambda>(k, v). json_string k @ 58 # dumps v) kvs) @ [125]"

text \<open>\<open>allow_nan=False\<close> and the digit limit: where \<open>json.dumps\<close> raises \<open>ValueError\<close>.\<close>

fun isfinite :: "pyfloat \<Rightarrow> bool" where
  "isfinite (FloatNum neg m e) = True"
| "isfinite (FloatInf neg) = False"
| "isfinite FloatNan = False"

lemma isfinite_iff [simp]: "isfinite f \<longleftrightarrow> (\<exists>neg m e. f = FloatNum neg m e)"
  by (cases f) auto

fun dumpable :: "json \<Rightarrow> bool" where
  "dumpable (JInt i) = int_printable i"
| "dumpable (JFloat f) = isfinite f"
| "dumpable (JList xs) = list_all dumpable xs"
| "dumpable (JObj kvs) = list_all (\<lambda>(k, v). dumpable v) kvs"
| "dumpable v = True"

definition dumps_utf8 :: "json \<Rightarrow> byte list result" where
  "dumps_utf8 v = rbind (require (dumpable v) (PyError ''ValueError'')) (\<lambda>_. encode_utf8 (dumps v))"

text \<open>\<open>sort_keys=True\<close>: every dictionary ordered by the code points of its keys.\<close>

fun sort_json :: "json \<Rightarrow> json" where
  "sort_json (JList xs) = JList (map sort_json xs)"
| "sort_json (JObj kvs) = JObj (sort_key fst (map (\<lambda>(k, v). (k, sort_json v)) kvs))"
| "sort_json v = v"

definition canonical_json :: "json \<Rightarrow> byte list result" where
  "canonical_json v = dumps_utf8 (sort_json v)"

section \<open>Decoding\<close>

definition value_error :: exn where
  "value_error = PyError ''ValueError''"

definition is_ws :: "nat \<Rightarrow> bool" where
  "is_ws c \<longleftrightarrow> c = 32 \<or> c = 9 \<or> c = 10 \<or> c = 13"

definition skip_ws :: "pystr \<Rightarrow> pystr" where
  "skip_ws s = dropWhile is_ws s"

definition hex_val :: "nat \<Rightarrow> nat option" where
  "hex_val c =
     (if is_digit c then Some (c - 48)
      else if 97 \<le> c \<and> c \<le> 102 then Some (c - 87)
      else if 65 \<le> c \<and> c \<le> 70 then Some (c - 55) else None)"

fun hex4 :: "pystr \<Rightarrow> (nat \<times> pystr) option" where
  "hex4 (a # b # c # d # r) =
     (case (hex_val a, hex_val b, hex_val c, hex_val d) of
        (Some w, Some x, Some y, Some z) \<Rightarrow> Some (4096 * w + 256 * x + 16 * y + z, r)
      | _ \<Rightarrow> None)"
| "hex4 s = None"

definition unescape :: "nat \<Rightarrow> nat option" where
  "unescape c =
     (if c = 34 \<or> c = 92 \<or> c = 47 then Some c
      else if c = 98 then Some 8 else if c = 102 then Some 12 else if c = 110 then Some 10
      else if c = 114 then Some 13 else if c = 116 then Some 9 else None)"

text \<open>One character of a string literal; a high surrogate joins a directly following low one.\<close>

fun scan_char :: "pystr \<Rightarrow> (nat \<times> pystr) option" where
  "scan_char [] = None"
| "scan_char (c # cs) =
     (if c = 92 then
        (case cs of
           [] \<Rightarrow> None
         | e # r \<Rightarrow>
             if e = 117 then
               (case hex4 r of
                  None \<Rightarrow> None
                | Some (h, r') \<Rightarrow>
                    (case r' of
                       x # y # r'' \<Rightarrow>
                         if 55296 \<le> h \<and> h \<le> 56319 \<and> x = 92 \<and> y = 117 then
                           (case hex4 r'' of
                              None \<Rightarrow> None
                            | Some (l, r3) \<Rightarrow>
                                if 56320 \<le> l \<and> l \<le> 57343
                                then Some (65536 + (h - 55296) * 1024 + (l - 56320), r3)
                                else Some (h, r'))
                         else Some (h, r')
                     | _ \<Rightarrow> Some (h, r')))
             else map_option (\<lambda>x. (x, r)) (unescape e))
      else if c < 32 then None else Some (c, cs))"

lemma hex4_shorter: "hex4 s = Some (n, r) \<Longrightarrow> length s = length r + 4"
  by (induction s rule: hex4.induct) (auto split: option.splits)

lemma scan_char_shorter: "scan_char s = Some (c, r) \<Longrightarrow> length r < length s"
  by (cases s) (auto split: if_splits option.splits list.splits dest!: hex4_shorter)

declare scan_char.simps [simp del]

text \<open>The rest of a string literal after its opening quote.\<close>

function scan_string :: "pystr \<Rightarrow> (pystr \<times> pystr) option" where
  "scan_string s = (case s of [] \<Rightarrow> None | q # r \<Rightarrow>
     if q = 34 then Some ([], r)
     else (case scan_char s of
             None \<Rightarrow> None
           | Some (c, r') \<Rightarrow> map_option (\<lambda>(t, r''). (c # t, r'')) (scan_string r')))"
  by pat_completeness auto
termination
  by (relation "measure length") (auto dest: scan_char_shorter)

declare scan_string.simps [simp del]

definition digits_val :: "pystr \<Rightarrow> nat" where
  "digits_val ds = foldl (\<lambda>n c. 10 * n + (c - 48)) 0 ds"

text \<open>The number token at the front of the input: sign, integer part, fraction, exponent, rest.\<close>

definition scan_int_part :: "pystr \<Rightarrow> (pystr \<times> pystr) option" where
  "scan_int_part s = (case s of [] \<Rightarrow> None | c # r \<Rightarrow>
     if c = 48 then Some ([48], r)
     else if is_digit c then Some (takeWhile is_digit s, dropWhile is_digit s) else None)"

definition scan_frac :: "pystr \<Rightarrow> pystr \<times> pystr" where
  "scan_frac s = (case s of c # d # r \<Rightarrow>
       if c = 46 \<and> is_digit d then (takeWhile is_digit (d # r), dropWhile is_digit (d # r)) else ([], s)
     | _ \<Rightarrow> ([], s))"

definition scan_exp :: "pystr \<Rightarrow> (bool \<times> pystr) option \<times> pystr" where
  "scan_exp s = (case s of c # r \<Rightarrow>
       if c = 101 \<or> c = 69 then
         (let (neg, r') = (case r of x # xs \<Rightarrow> if x = 45 then (True, xs) else if x = 43 then (False, xs) else (False, r)
                                   | [] \<Rightarrow> (False, r))
          in if takeWhile is_digit r' = [] then (None, s)
             else (Some (neg, takeWhile is_digit r'), dropWhile is_digit r'))
       else (None, s)
     | [] \<Rightarrow> (None, s))"

definition scan_number :: "(pystr \<Rightarrow> pyfloat) \<Rightarrow> pystr \<Rightarrow> (json \<times> pystr) result" where
  "scan_number pf s =
     (let neg = (s \<noteq> [] \<and> hd s = 45); body = (if neg then tl s else s)
      in case scan_int_part body of
           None \<Rightarrow> Inl value_error
         | Some (ip, r1) \<Rightarrow>
             (let (fp, r2) = scan_frac r1; (ep, r3) = scan_exp r2 in
              if fp = [] \<and> ep = None then
                (if length ip \<le> int_max_str_digits
                 then Inr (JInt (if neg then - int (digits_val ip) else int (digits_val ip)), r3)
                 else Inl value_error)
              else Inr (JFloat (pf (take (length s - length r3) s)), r3)))"

text \<open>
  The scanner. \<open>hook\<close> is the \<open>object_pairs_hook\<close>, applied to each finished object;
  \<open>const\<close> is the \<open>parse_constant\<close> hook, called on \<open>NaN\<close>, \<open>Infinity\<close> and
  \<open>-Infinity\<close>. The first argument is fuel: one unit per nested call, each of which consumes a
  character, so one more than the length of the input suffices (\<open>loads_fuel\<close> below).
\<close>

fun scan_value :: "(pystr \<Rightarrow> pyfloat) \<Rightarrow> ((pystr \<times> json) list \<Rightarrow> json result) \<Rightarrow> (pystr \<Rightarrow> json result) \<Rightarrow> nat \<Rightarrow> pystr \<Rightarrow>
      (json \<times> pystr) result"
  and scan_members :: "(pystr \<Rightarrow> pyfloat) \<Rightarrow> ((pystr \<times> json) list \<Rightarrow> json result) \<Rightarrow> (pystr \<Rightarrow> json result) \<Rightarrow> nat \<Rightarrow> pystr \<Rightarrow>
      (pystr \<times> json) list \<Rightarrow> (json \<times> pystr) result"
  and scan_elements :: "(pystr \<Rightarrow> pyfloat) \<Rightarrow> ((pystr \<times> json) list \<Rightarrow> json result) \<Rightarrow> (pystr \<Rightarrow> json result) \<Rightarrow> nat \<Rightarrow> pystr \<Rightarrow>
      json list \<Rightarrow> (json \<times> pystr) result" where
  "scan_value pf hook const 0 s = Inl (PyError ''fuel'')"
| "scan_value pf hook const (Suc n) s =
     (case s of [] \<Rightarrow> Inl value_error | c # cs \<Rightarrow>
        if c = 34 then
          (case scan_string cs of None \<Rightarrow> Inl value_error | Some (t, r) \<Rightarrow> Inr (JStr t, r))
        else if c = 123 then
          (case skip_ws cs of
             [] \<Rightarrow> Inl value_error
           | d # r \<Rightarrow> if d = 125 then rbind (hook []) (\<lambda>v. Inr (v, r))
                      else scan_members pf hook const n (d # r) [])
        else if c = 91 then
          (case skip_ws cs of
             [] \<Rightarrow> Inl value_error
           | d # r \<Rightarrow> if d = 93 then Inr (JList [], r) else scan_elements pf hook const n (d # r) [])
        else if starts_with (u ''null'') s then Inr (JNull, drop 4 s)
        else if starts_with (u ''true'') s then Inr (JBool True, drop 4 s)
        else if starts_with (u ''false'') s then Inr (JBool False, drop 5 s)
        else if starts_with (u ''NaN'') s then rbind (const (u ''NaN'')) (\<lambda>v. Inr (v, drop 3 s))
        else if starts_with (u ''Infinity'') s then rbind (const (u ''Infinity'')) (\<lambda>v. Inr (v, drop 8 s))
        else if starts_with (u ''-Infinity'') s then rbind (const (u ''-Infinity'')) (\<lambda>v. Inr (v, drop 9 s))
        else scan_number pf s)"
| "scan_members pf hook const 0 s acc = Inl (PyError ''fuel'')"
| "scan_members pf hook const (Suc n) s acc =
     (case s of [] \<Rightarrow> Inl value_error | q # cs \<Rightarrow>
        if q \<noteq> 34 then Inl value_error
        else (case scan_string cs of
                None \<Rightarrow> Inl value_error
              | Some (k, r1) \<Rightarrow>
                  (case skip_ws r1 of [] \<Rightarrow> Inl value_error | c # r2 \<Rightarrow>
                     if c \<noteq> 58 then Inl value_error
                     else rbind (scan_value pf hook const n (skip_ws r2)) (\<lambda>(v, r3).
                       (case skip_ws r3 of [] \<Rightarrow> Inl value_error | d # r4 \<Rightarrow>
                          if d = 44 then scan_members pf hook const n (skip_ws r4) (acc @ [(k, v)])
                          else if d = 125 then rbind (hook (acc @ [(k, v)])) (\<lambda>w. Inr (w, r4))
                          else Inl value_error)))))"
| "scan_elements pf hook const 0 s acc = Inl (PyError ''fuel'')"
| "scan_elements pf hook const (Suc n) s acc =
     rbind (scan_value pf hook const n s) (\<lambda>(v, r3).
       (case skip_ws r3 of [] \<Rightarrow> Inl value_error | d # r4 \<Rightarrow>
          if d = 44 then scan_elements pf hook const n (skip_ws r4) (acc @ [v])
          else if d = 93 then Inr (JList (acc @ [v]), r4)
          else Inl value_error))"

text \<open>\<open>json.loads(text, ...)\<close>: one value between white space and nothing after it.\<close>

definition loads :: "(pystr \<Rightarrow> pyfloat) \<Rightarrow> ((pystr \<times> json) list \<Rightarrow> json result) \<Rightarrow> (pystr \<Rightarrow> json result) \<Rightarrow> pystr \<Rightarrow> json result" where
  "loads pf hook const s =
     (if s \<noteq> [] \<and> hd s = 65279 then Inl value_error
      else rbind (scan_value pf hook const (2 * length s + 2) (skip_ws s)) (\<lambda>(v, r).
        rbind (require (skip_ws r = []) value_error) (\<lambda>_. Inr v)))"

text \<open>
  The two \<open>parse_constant\<close> behaviours of the program: raise, or the default floats.
\<close>

definition no_constant :: "exn \<Rightarrow> pystr \<Rightarrow> json result" where
  "no_constant e c = Inl e"

definition float_constant :: "pystr \<Rightarrow> json result" where
  "float_constant c = Inr (JFloat (if c = u ''NaN'' then FloatNan else FloatInf (c = u ''-Infinity'')))"

text \<open>The two hooks of the program: refuse a repeated key, or keep the last value of each key.\<close>

definition unique_pairs :: "exn \<Rightarrow> (pystr \<times> json) list \<Rightarrow> json result" where
  "unique_pairs dup kvs = rbind (require (distinct (map fst kvs)) dup) (\<lambda>_. Inr (JObj kvs))"

definition last_pairs :: "(pystr \<times> json) list \<Rightarrow> json result" where
  "last_pairs kvs = Inr (JObj (fold (\<lambda>(k, v). AList.update k v) kvs []))"

section \<open>Round trip\<close>

subsection \<open>Strings\<close>

lemma hex_val_char: "n < 16 \<Longrightarrow> hex_val (hex_digit_char n) = Some n"
  by (auto simp: hex_val_def hex_digit_char_def is_digit_def)

lemma scan_char_esc: "scan_char (esc_char c @ r) = Some (c, r)"
proof -
  have hex: "hex4 (48 # 48 # hex_digit_char (c div 16) # hex_digit_char (c mod 16) # r) = Some (c, r)"
    if "c < 32"
    using that hex_val_char [of "c div 16"] hex_val_char [of "c mod 16"]
    by (simp add: hex_val_def [of 48] is_digit_def)
  show ?thesis
    using hex by (auto simp: esc_char_def scan_char.simps unescape_def split: list.splits)
qed

lemma esc_char_hd: "\<exists>d ds. esc_char c = d # ds \<and> d \<noteq> 34"
  by (auto simp: esc_char_def)

lemma scan_string_esc: "scan_string (concat (map esc_char s) @ 34 # r) = Some (s, r)"
proof (induction s)
  case Nil
  then show ?case by (simp add: scan_string.simps)
next
  case (Cons c s)
  obtain d ds where d: "esc_char c = d # ds" "d \<noteq> 34" using esc_char_hd by blast
  with Cons scan_char_esc [of c "concat (map esc_char s) @ 34 # r"] show ?case
    by (subst scan_string.simps) simp
qed

subsection \<open>Numbers\<close>

lemma dec_digits_not_Nil [simp]: "dec_digits n \<noteq> []"
  by (subst dec_digits.simps) simp

lemma dec_digits_all: "list_all is_digit (dec_digits n)"
proof (induction n rule: dec_digits.induct)
  case (1 n)
  have "is_digit (48 + n mod 10)" "n < 10 \<Longrightarrow> is_digit (48 + n)" by (simp_all add: is_digit_def)
  with 1 show ?case by (subst dec_digits.simps) simp
qed

lemma dec_digits_hd: "0 < n \<Longrightarrow> hd (dec_digits n) \<noteq> 48"
proof (induction n rule: dec_digits.induct)
  case (1 n)
  then show ?case by (subst dec_digits.simps) (auto simp: hd_append)
qed

lemma dec_digits_0: "dec_digits 0 = [48]"
  by (subst dec_digits.simps) simp

lemma digits_val_dec: "digits_val (dec_digits n) = n"
proof (induction n rule: dec_digits.induct)
  case (1 n)
  then show ?case by (subst dec_digits.simps) (auto simp: digits_val_def)
qed

text \<open>The character after a number token must not extend it.\<close>

definition ends_number :: "pystr \<Rightarrow> bool" where
  "ends_number r \<longleftrightarrow> (case r of [] \<Rightarrow> True | c # _ \<Rightarrow> \<not> is_digit c \<and> c \<noteq> 46 \<and> c \<noteq> 101 \<and> c \<noteq> 69)"

lemma takeWhile_digits:
  "list_all is_digit ds \<Longrightarrow> (r \<noteq> [] \<Longrightarrow> \<not> is_digit (hd r)) \<Longrightarrow>
    takeWhile is_digit (ds @ r) = ds \<and> dropWhile is_digit (ds @ r) = r"
  by (induction ds) (cases r; auto)+

lemma scan_int_part_text:
  assumes "list_all is_digit ip" and "ip \<noteq> []" and "ip = [48] \<or> hd ip \<noteq> 48"
    and "r \<noteq> [] \<Longrightarrow> \<not> is_digit (hd r)"
  shows "scan_int_part (ip @ r) = Some (ip, r)"
  using assms takeWhile_digits [of ip r]
  by (cases ip) (auto simp: scan_int_part_def)

lemma scan_frac_text:
  assumes "list_all is_digit fp" and "r \<noteq> [] \<Longrightarrow> \<not> is_digit (hd r) \<and> hd r \<noteq> 46"
  shows "scan_frac ((if fp = [] then [] else 46 # fp) @ r) = (fp, r)"
proof (cases fp)
  case Nil
  with assms show ?thesis by (auto simp: scan_frac_def split: list.splits)
next
  case (Cons d ds)
  with assms takeWhile_digits [of fp r] show ?thesis by (auto simp: scan_frac_def)
qed

lemma scan_exp_text:
  assumes "case ep of None \<Rightarrow> True | Some (s, ds) \<Rightarrow> list_all is_digit ds \<and> ds \<noteq> []"
    and "ends_number r"
  shows "scan_exp ((case ep of None \<Rightarrow> [] | Some (s, ds) \<Rightarrow> 101 # (if s then 45 else 43) # ds) @ r) = (ep, r)"
proof (cases ep)
  case None
  with assms show ?thesis by (auto simp: scan_exp_def ends_number_def split: list.splits)
next
  case (Some p)
  obtain s ds where p: "p = (s, ds)" by (cases p)
  have "r \<noteq> [] \<Longrightarrow> \<not> is_digit (hd r)" using assms(2) by (cases r) (auto simp: ends_number_def)
  then have "takeWhile is_digit (ds @ r) = ds \<and> dropWhile is_digit (ds @ r) = r"
    using assms Some p by (intro takeWhile_digits) auto
  with assms Some p show ?thesis by (auto simp: scan_exp_def)
qed

lemma scan_number_text:
  assumes ip: "list_all is_digit ip" "ip \<noteq> []" "ip = [48] \<or> hd ip \<noteq> 48"
    and fp: "list_all is_digit fp"
    and ep: "case ep of None \<Rightarrow> True | Some (s, ds) \<Rightarrow> list_all is_digit ds \<and> ds \<noteq> []"
    and r: "ends_number r"
  shows "scan_number pf (num_text neg ip fp ep @ r) =
     (if fp = [] \<and> ep = None
      then (if length ip \<le> int_max_str_digits
            then Inr (JInt (if neg then - int (digits_val ip) else int (digits_val ip)), r)
            else Inl value_error)
      else Inr (JFloat (pf (num_text neg ip fp ep)), r))"
proof -
  define x where "x = (case ep of None \<Rightarrow> [] | Some (s, ds) \<Rightarrow> 101 # (if s then 45 else 43) # ds) @ r"
  define f where "f = (if fp = [] then [] else 46 # fp)"
  have xhd: "x \<noteq> [] \<Longrightarrow> \<not> is_digit (hd x) \<and> hd x \<noteq> 46"
    using r by (auto simp: x_def ends_number_def is_digit_def hd_append split: option.splits list.splits)
  have fhd: "f @ x \<noteq> [] \<Longrightarrow> \<not> is_digit (hd (f @ x))"
    using xhd by (auto simp: f_def is_digit_def)
  have i: "scan_int_part (ip @ f @ x) = Some (ip, f @ x)"
    using ip fhd by (rule scan_int_part_text)
  have fr: "scan_frac (f @ x) = (fp, x)"
    unfolding f_def using fp xhd by (rule scan_frac_text)
  have ex: "scan_exp x = (ep, r)"
    unfolding x_def using ep r by (rule scan_exp_text)
  define s where "s = num_text neg ip fp ep @ r"
  have s: "s = (if neg then [45] else []) @ ip @ f @ x"
    by (simp add: s_def num_text_def x_def f_def)
  have nohd: "hd ip \<noteq> 45" using ip by (cases ip) (auto simp: is_digit_def)
  have det: "(s \<noteq> [] \<and> hd s = 45) = neg" and body: "(if neg then tl s else s) = ip @ f @ x"
    using ip(2) nohd by (simp_all add: s)
  have tk: "take (length s - length r) s = num_text neg ip fp ep"
    by (simp add: s_def)
  show ?thesis
    unfolding scan_number_def s_def [symmetric] Let_def det body i
    by (simp add: fr ex tk)
qed

subsection \<open>Values\<close>

definition num_parts :: "pystr \<Rightarrow> pystr \<Rightarrow> (bool \<times> pystr) option \<Rightarrow> bool" where
  "num_parts ip fp ep \<longleftrightarrow> list_all is_digit ip \<and> ip \<noteq> [] \<and> (ip = [48] \<or> hd ip \<noteq> 48) \<and>
     list_all is_digit fp \<and> (case ep of None \<Rightarrow> True | Some (s, ds) \<Rightarrow> list_all is_digit ds \<and> ds \<noteq> [])"

lemma float_text_shape:
  assumes "wf_float (FloatNum neg m e)"
  shows "\<exists>ip fp ep. float_text neg m e = num_text neg ip fp ep \<and> num_parts ip fp ep \<and> (fp = [] \<longrightarrow> ep \<noteq> None)"
proof -
  let ?ds = "dec_digits m" and ?n = "int (length (dec_digits m))"
  let ?p = "?n + e"
  have ds: "list_all is_digit ?ds" "?ds \<noteq> []" by (simp_all add: dec_digits_all)
  have zeros: "list_all is_digit (replicate k 48)" for k by (simp add: list_all_iff is_digit_def)
  have tkd: "list_all is_digit (take k ?ds)" "list_all is_digit (drop k ?ds)" for k
    using ds(1) by (auto simp: list_all_iff dest: in_set_takeD in_set_dropD)
  have lead: "hd ?ds \<noteq> 48" if "m \<noteq> 0" using dec_digits_hd [of m] that by simp
  have e0: "m \<noteq> 0 \<or> (e = 0 \<and> ?ds = [48])" using assms by (cases "m = 0") (auto simp: dec_digits_0)
  consider (small) "?p \<le> 0" "-4 < ?p" | (whole) "0 < ?p" "?p \<le> 16" "?n \<le> ?p"
    | (mid) "0 < ?p" "?p \<le> 16" "?p < ?n" | (sci) "\<not> (-4 < ?p \<and> ?p \<le> 16)" by linarith
  then show ?thesis
  proof cases
    case small
    then have "float_text neg m e = num_text neg [48] (replicate (nat (- ?p)) 48 @ ?ds) None"
      by (simp add: float_text_def Let_def)
    moreover have "num_parts [48] (replicate (nat (- ?p)) 48 @ ?ds) None"
      using ds zeros by (simp add: num_parts_def is_digit_def)
    ultimately show ?thesis using ds(2) by blast
  next
    case whole
    then have "float_text neg m e = num_text neg (?ds @ replicate (nat (?p - ?n)) 48) [48] None"
      by (simp add: float_text_def Let_def)
    moreover have "num_parts (?ds @ replicate (nat (?p - ?n)) 48) [48] None"
      using e0 lead ds zeros by (auto simp: num_parts_def is_digit_def)
    ultimately show ?thesis by blast
  next
    case mid
    then have "float_text neg m e = num_text neg (take (nat ?p) ?ds) (drop (nat ?p) ?ds) None"
      by (simp add: float_text_def Let_def)
    moreover have "num_parts (take (nat ?p) ?ds) (drop (nat ?p) ?ds) None"
      using mid e0 lead tkd ds(2) by (auto simp: num_parts_def hd_take)
    moreover have "drop (nat ?p) ?ds \<noteq> []" using mid by simp
    ultimately show ?thesis by blast
  next
    case sci
    let ?x = "dec_digits (nat \<bar>?p - 1\<bar>)"
    let ?ep = "Some (?p - 1 < 0, (if length ?x = 1 then 48 # ?x else ?x))"
    have "float_text neg m e = num_text neg (take 1 ?ds) (drop 1 ?ds) ?ep"
      by (simp only: float_text_def Let_def sci if_False)
    moreover have "num_parts (take 1 ?ds) (drop 1 ?ds) ?ep"
      using sci e0 lead tkd ds(2) dec_digits_all [of "nat \<bar>?p - 1\<bar>"]
      by (auto simp: num_parts_def hd_take is_digit_def [of 48])
    ultimately show ?thesis by blast
  qed
qed

lemma float_text_scans:
  assumes "wf_float (FloatNum neg m e)" and "ends_number r"
  shows "scan_number pf (float_text neg m e @ r) = Inr (JFloat (pf (float_text neg m e)), r)"
proof -
  obtain ip fp ep where "float_text neg m e = num_text neg ip fp ep" "num_parts ip fp ep" "fp = [] \<longrightarrow> ep \<noteq> None"
    using float_text_shape [OF assms(1)] by blast
  with assms(2) show ?thesis by (auto simp: scan_number_text num_parts_def)
qed

lemma int_str_scans:
  assumes "int_printable i" and "ends_number r"
  shows "scan_number pf (int_str i @ r) = Inr (JInt i, r)"
proof -
  have eq: "int_str i = num_text (i < 0) (dec_digits (nat \<bar>i\<bar>)) [] None"
    by (simp add: int_str_def num_text_def)
  have "dec_digits (nat \<bar>i\<bar>) = [48] \<or> hd (dec_digits (nat \<bar>i\<bar>)) \<noteq> 48"
    using dec_digits_hd [of "nat \<bar>i\<bar>"] by (cases "i = 0") (auto simp: dec_digits_0)
  with assms show ?thesis
    by (simp add: eq scan_number_text dec_digits_all digits_val_dec int_printable_def)
qed


text \<open>Every float in the value is in shortest form and is read back by the decimal conversion.\<close>

fun floats_ok :: "(pystr \<Rightarrow> pyfloat) \<Rightarrow> json \<Rightarrow> bool" where
  "floats_ok pf (JFloat f) = (wf_float f \<and> pf (float_repr f) = f)"
| "floats_ok pf (JList xs) = list_all (floats_ok pf) xs"
| "floats_ok pf (JObj kvs) = list_all (\<lambda>(k, v). floats_ok pf v) kvs"
| "floats_ok pf v = True"

lemma num_text_hd:
  assumes "list_all is_digit ip" and "ip \<noteq> []"
  shows "(\<exists>c cs. num_text neg ip fp ep = c # cs \<and> is_digit c) \<or>
    (\<exists>c cs. num_text neg ip fp ep = 45 # c # cs \<and> is_digit c)"
  using assms by (cases ip) (auto simp: num_text_def)

lemma int_str_hd:
  "(\<exists>c cs. int_str i = c # cs \<and> is_digit c) \<or> (\<exists>c cs. int_str i = 45 # c # cs \<and> is_digit c)"
proof -
  have eq: "int_str i = num_text (i < 0) (dec_digits (nat \<bar>i\<bar>)) [] None"
    by (simp add: int_str_def num_text_def)
  show ?thesis unfolding eq by (rule num_text_hd) (simp_all add: dec_digits_all)
qed

lemma float_text_hd:
  assumes "wf_float (FloatNum neg m e)"
  shows "(\<exists>c cs. float_text neg m e = c # cs \<and> is_digit c) \<or>
    (\<exists>c cs. float_text neg m e = 45 # c # cs \<and> is_digit c)"
proof -
  obtain ip fp ep where eq: "float_text neg m e = num_text neg ip fp ep" and "num_parts ip fp ep"
    using float_text_shape [OF assms] by blast
  then show ?thesis unfolding eq by (intro num_text_hd) (simp_all add: num_parts_def)
qed

lemma scan_value_number:
  assumes "(\<exists>c cs. s = c # cs \<and> is_digit c) \<or> (\<exists>c cs. s = 45 # c # cs \<and> is_digit c)"
  shows "scan_value pf hook const (Suc n) (s @ r) = scan_number pf (s @ r)"
  using assms by (auto simp: starts_with_def u_def is_digit_def)

lemma dumps_hd:
  assumes "dumpable v" and "floats_ok pf v"
  shows "\<exists>c cs. dumps v = c # cs \<and> \<not> is_ws c \<and> c \<noteq> 93 \<and> c < 128"
proof (cases v)
  case (JInt i)
  then show ?thesis using int_str_hd [of i] by (auto simp: is_ws_def is_digit_def)
next
  case (JFloat f)
  with assms obtain neg m e where f: "f = FloatNum neg m e" and wf: "wf_float (FloatNum neg m e)"
    by auto
  show ?thesis using JFloat f float_text_hd [OF wf] by (auto simp: is_ws_def is_digit_def)
qed (auto simp: is_ws_def u_def json_string_def)

lemma skip_ws_dumps: "dumpable v \<Longrightarrow> floats_ok pf v \<Longrightarrow> skip_ws (dumps v @ r) = dumps v @ r"
  using dumps_hd [of v pf] by (auto simp: skip_ws_def)

lemma skip_ws_char [simp]: "\<not> is_ws c \<Longrightarrow> skip_ws (c # r) = c # r"
  by (simp add: skip_ws_def)

lemma scan_elements_dumps:
  assumes "\<And>x r n. x \<in> set (x0 # xs) \<Longrightarrow> ends_number r \<Longrightarrow> 2 * length (dumps x) < n \<Longrightarrow>
      scan_value pf hook const n (dumps x @ r) = Inr (x, r)"
    and "list_all dumpable (x0 # xs)" and "list_all (floats_ok pf) (x0 # xs)"
    and "2 * length (join_on 44 (map dumps (x0 # xs))) + 1 < n"
  shows "scan_elements pf hook const n (join_on 44 (map dumps (x0 # xs)) @ 93 # r) acc =
     Inr (JList (acc @ x0 # xs), r)"
  using assms
proof (induction xs arbitrary: x0 acc n)
  case Nil
  then obtain n' where n: "n = Suc n'" by (cases n) auto
  have "scan_value pf hook const n' (dumps x0 @ 93 # r) = Inr (x0, 93 # r)"
    using Nil n by (intro Nil.prems(1)) (auto simp: ends_number_def is_digit_def)
  then show ?case by (simp add: n is_ws_def)
next
  case (Cons x1 xs)
  then obtain n' where n: "n = Suc n'" by (cases n) auto
  let ?rest = "join_on 44 (map dumps (x1 # xs)) @ 93 # r"
  have v: "scan_value pf hook const n' (dumps x0 @ 44 # ?rest) = Inr (x0, 44 # ?rest)"
    using Cons.prems n by (intro Cons.prems(1)) (auto simp: ends_number_def is_digit_def)
  have ws: "skip_ws ?rest = ?rest"
    using Cons.prems(2,3) by (cases xs) (auto simp: skip_ws_dumps)
  have "scan_elements pf hook const n' ?rest (acc @ [x0]) = Inr (JList ((acc @ [x0]) @ x1 # xs), r)"
    using Cons.prems n by (intro Cons.IH) auto
  with v ws show ?case by (simp add: n is_ws_def)
qed


lemma scan_members_dumps:
  assumes "\<And>k v r n. (k, v) \<in> set (kv # kvs) \<Longrightarrow> ends_number r \<Longrightarrow> 2 * length (dumps v) < n \<Longrightarrow>
      scan_value pf hook const n (dumps v @ r) = Inr (v, r)"
    and "list_all (\<lambda>(k, v). dumpable v \<and> floats_ok pf v) (kv # kvs)"
    and "2 * length (join_on 44 (map (\<lambda>(k, v). json_string k @ 58 # dumps v) (kv # kvs))) < n"
  shows "scan_members pf hook const n
      (join_on 44 (map (\<lambda>(k, v). json_string k @ 58 # dumps v) (kv # kvs)) @ 125 # r) acc =
     rbind (hook (acc @ kv # kvs)) (\<lambda>w. Inr (w, r))"
  using assms
proof (induction kvs arbitrary: kv acc n)
  case Nil
  obtain k v where kv: "kv = (k, v)" by (cases kv)
  from Nil kv obtain n' where n: "n = Suc n'" by (cases n) auto
  have "scan_value pf hook const n' (dumps v @ 125 # r) = Inr (v, 125 # r)"
    using Nil n kv by (intro Nil.prems(1)) (auto simp: ends_number_def is_digit_def)
  then show ?case
    using Nil kv by (simp add: n json_string_def scan_string_esc is_ws_def skip_ws_dumps [of v pf])
next
  case (Cons kv1 kvs)
  obtain k v where kv: "kv = (k, v)" by (cases kv)
  from Cons.prems kv obtain n' where n: "n = Suc n'" by (cases n) auto
  let ?rest = "join_on 44 (map (\<lambda>(k, v). json_string k @ 58 # dumps v) (kv1 # kvs)) @ 125 # r"
  have v: "scan_value pf hook const n' (dumps v @ 44 # ?rest) = Inr (v, 44 # ?rest)"
    using Cons.prems n kv by (intro Cons.prems(1)) (auto simp: ends_number_def is_digit_def)
  have ws: "skip_ws ?rest = ?rest"
    by (cases kvs; cases kv1) (auto simp: json_string_def is_ws_def)
  have "scan_members pf hook const n' ?rest (acc @ [kv]) =
      rbind (hook ((acc @ [kv]) @ kv1 # kvs)) (\<lambda>w. Inr (w, r))"
    using Cons.prems n kv by (intro Cons.IH) auto
  with v ws show ?case
    using Cons.prems kv by (simp add: n json_string_def scan_string_esc is_ws_def skip_ws_dumps [of v pf])
qed

theorem scan_value_dumps:
  assumes "\<And>kvs. distinct (map fst kvs) \<Longrightarrow> hook kvs = Inr (JObj kvs)"
    and "wf_json v" and "dumpable v" and "floats_ok pf v" and "ends_number r" and "2 * length (dumps v) < n"
  shows "scan_value pf hook const n (dumps v @ r) = Inr (v, r)"
  using assms(2-)
proof (induction v arbitrary: r n rule: json_induct)
  case (Int i)
  then obtain n' where "n = Suc n'" by (cases n) auto
  with Int show ?case using int_str_hd [of i] by (simp only: dumps.simps dumpable.simps) (simp only: scan_value_number int_str_scans)
next
  case (Float f)
  then obtain n' where n: "n = Suc n'" by (cases n) auto
  from Float obtain neg m e where f: "f = FloatNum neg m e" by auto
  with Float have wf: "wf_float (FloatNum neg m e)" and "pf (float_text neg m e) = FloatNum neg m e" by auto
  then show ?case
    using Float f float_text_hd [OF wf] by (simp add: n scan_value_number float_text_scans del: scan_value.simps wf_float.simps)
next
  case (Str s)
  then obtain n' where "n = Suc n'" by (cases n) auto
  then show ?case by (simp add: json_string_def scan_string_esc)
next
  case (List xs)
  then obtain n' where n: "n = Suc n'" by (cases n) auto
  show ?case
  proof (cases xs)
    case Nil
    then show ?thesis by (simp add: n is_ws_def)
  next
    case (Cons x ys)
    have "scan_elements pf hook const n' (join_on 44 (map dumps (x # ys)) @ 93 # r) [] = Inr (JList ([] @ x # ys), r)"
      using List n by (intro scan_elements_dumps) (auto simp: Cons list_all_iff)
    moreover obtain c cs where "dumps x = c # cs" "\<not> is_ws c" "c \<noteq> 93"
      using List.prems Cons dumps_hd [of x pf] by auto
    ultimately show ?thesis by (cases ys) (simp_all add: n Cons)
  qed
next
  case (Obj kvs)
  then obtain n' where n: "n = Suc n'" by (cases n) auto
  have hook: "hook kvs = Inr (JObj kvs)" using Obj assms(1) by simp
  show ?case
  proof (cases kvs)
    case Nil
    with hook show ?thesis by (simp add: n is_ws_def)
  next
    case (Cons kv ys)
    have ih: "scan_value pf hook const n (dumps v @ r) = Inr (v, r)"
      if "(k, v) \<in> set (kv # ys)" "ends_number r" "2 * length (dumps v) < n" for k v r n
      using Obj.prems that by (intro Obj.IH [of k v]) (auto simp: Cons list_all_pairs)
    have "scan_members pf hook const n' (join_on 44 (map (\<lambda>(k, v). json_string k @ 58 # dumps v) (kv # ys)) @ 125 # r) []
        = rbind (hook ([] @ kv # ys)) (\<lambda>w. Inr (w, r))"
      using Obj.prems n by (intro scan_members_dumps ih) (auto simp: Cons list_all_pairs)
    with hook show ?thesis by (cases ys; cases kv) (simp_all add: n Cons json_string_def is_ws_def)
  qed
next
  case Null
  then obtain n' where "n = Suc n'" by (cases n) auto
  then show ?case by (simp add: u_def starts_with_def)
next
  case (Bool b)
  then obtain n' where "n = Suc n'" by (cases n) auto
  then show ?case by (simp add: u_def starts_with_def)
qed

theorem loads_dumps:
  assumes "\<And>kvs. distinct (map fst kvs) \<Longrightarrow> hook kvs = Inr (JObj kvs)"
    and "wf_json v" and "dumpable v" and "floats_ok pf v"
  shows "loads pf hook const (dumps v) = Inr v"
proof -
  obtain c cs where hd: "dumps v = c # cs" "\<not> is_ws c" "c < 128"
    using dumps_hd assms(3,4) by blast
  have "scan_value pf hook const (2 * length (dumps v) + 2) (dumps v @ []) = Inr (v, [])"
    using assms by (intro scan_value_dumps) (auto simp: ends_number_def)
  with hd show ?thesis by (simp add: loads_def skip_ws_def)
qed


section \<open>Fuel\<close>

lemma skip_ws_le: "length (skip_ws s) \<le> length s"
  by (simp add: skip_ws_def length_dropWhile_le)

lemma scan_string_shorter: "scan_string s = Some (t, r) \<Longrightarrow> length r < length s"
proof (induction s arbitrary: t rule: scan_string.induct)
  case (1 s)
  show ?case
  proof (cases s)
    case Nil
    with 1 show ?thesis by (simp add: scan_string.simps)
  next
    case (Cons q s')
    show ?thesis
    proof (cases "q = 34")
      case True
      with Cons 1 show ?thesis by (simp add: scan_string.simps)
    next
      case False
      with 1(2) Cons obtain c r' t' where c: "scan_char s = Some (c, r')" "scan_string r' = Some (t', r)"
        by (subst (asm) scan_string.simps) (auto split: option.splits)
      from 1(1) [OF Cons False c(1) refl c(2)] scan_char_shorter [OF c(1)] show ?thesis by simp
    qed
  qed
qed

lemma scan_number_shorter: "scan_number pf s = Inr (v, r) \<Longrightarrow> length r < length s"
proof -
  have i: "scan_int_part b = Some (ip, r1) \<Longrightarrow> length r1 < length b" for b ip r1
    by (cases b) (auto simp: scan_int_part_def split: if_splits intro: le_imp_less_Suc length_dropWhile_le)
  have f: "scan_frac b = (fp, r1) \<Longrightarrow> length r1 \<le> length b" for b fp r1
    using length_dropWhile_le [of is_digit "tl b"] by (auto simp: scan_frac_def split: list.splits if_splits)
  have e: "scan_exp b = (ep, r1) \<Longrightarrow> length r1 \<le> length b" for b ep r1
    using length_dropWhile_le [of is_digit "tl b"] length_dropWhile_le [of is_digit "tl (tl b)"]
    by (auto simp: scan_exp_def Let_def split: list.splits if_splits prod.splits)
  assume "scan_number pf s = Inr (v, r)"
  then obtain ip r1 fp r2 ep where
    "scan_int_part (if s \<noteq> [] \<and> hd s = 45 then tl s else s) = Some (ip, r1)"
    "scan_frac r1 = (fp, r2)" "scan_exp r2 = (ep, r)"
    by (auto simp: scan_number_def Let_def split: option.splits prod.splits if_splits)
  with i f e show ?thesis by (cases s) (fastforce split: if_splits)+
qed

lemma skip_ws_shorter: "skip_ws s = c # r \<Longrightarrow> length r < length s"
  using skip_ws_le [of s] by simp

lemma scan_shorter:
  "scan_value pf hook const n s = Inr (v, r) \<Longrightarrow> length r < length s"
  "scan_members pf hook const n s acc = Inr (v, r) \<Longrightarrow> length r < length s"
  "scan_elements pf hook const n s acc' = Inr (v, r) \<Longrightarrow> length r < length s"
proof (induction pf hook const n s and pf hook const n s acc and pf hook const n s acc'
    arbitrary: v r and v r and v r rule: scan_value_scan_members_scan_elements.induct)
  case (2 pf hook const n s)
  then obtain c cs where s: "s = c # cs" by (cases s) auto
  consider "c = 34" | "c = 123" | "c = 91" | "c \<notin> {34, 123, 91}" by auto
  then show ?case
  proof cases
    case 1
    with 2 s show ?thesis by (auto split: option.splits dest: scan_string_shorter)
  next
    case c: 2
    with 2 s obtain d r' where d: "skip_ws cs = d # r'" by (auto split: list.splits)
    have "length r < length (d # r')"
      if "d \<noteq> 125" "scan_members pf hook const n (d # r') [] = Inr (v, r)"
      using that c by (intro "2.IH"(1) [OF s _ c d]) auto
    then have "length r < Suc (length (d # r'))"
      using "2.prems" s c d by (auto simp: rbind_Inr_iff split: if_splits)
    with skip_ws_le [of cs] d s show ?thesis by simp
  next
    case c: 3
    with 2 s obtain d r' where d: "skip_ws cs = d # r'" by (auto split: list.splits)
    have "length r < length (d # r')"
      if "d \<noteq> 93" "scan_elements pf hook const n (d # r') [] = Inr (v, r)"
      using that c by (intro "2.IH"(2) [OF s _ _ c d]) auto
    then have "length r < Suc (length (d # r'))"
      using "2.prems" s c d by (auto simp: rbind_Inr_iff split: if_splits)
    with skip_ws_le [of cs] d s show ?thesis by simp
  next
    case 4
    with 2 s show ?thesis
      by (auto simp: rbind_Inr_iff split: if_splits dest: scan_number_shorter)
  qed
next
  case (4 pf hook const n s acc)
  from "4.prems" obtain cs k r1 r2 where
    s: "s = 34 # cs" and k: "scan_string cs = Some (k, r1)" and c: "skip_ws r1 = 58 # r2"
    by (auto split: list.splits if_splits option.splits)
  with "4.prems" obtain v' r3 where v': "scan_value pf hook const n (skip_ws r2) = Inr (v', r3)"
    by (cases "scan_value pf hook const n (skip_ws r2)") auto
  with "4.prems" s k c obtain d r4 where d: "skip_ws r3 = d # r4"
    by (cases "skip_ws r3") auto
  have r: "r = r4 \<or> scan_members pf hook const n (skip_ws r4) (acc @ [(k, v')]) = Inr (v, r) \<and> d = 44"
    using "4.prems" s k c v' d by (auto simp: rbind_Inr_iff split: if_splits)
  have "length r3 < length (skip_ws r2)" by (rule "4.IH"(1) [OF s _ k refl c _ v']) simp_all
  moreover have "length r \<le> length r4"
    using r "4.IH"(2) [OF s _ k refl c _ v' refl d] skip_ws_le [of r4] by fastforce
  ultimately show ?case
    using scan_string_shorter [OF k] skip_ws_shorter [OF c] skip_ws_shorter [OF d] skip_ws_le [of r2] s by simp
next
  case (6 pf hook const n s acc)
  from "6.prems" obtain v' r3 where v': "scan_value pf hook const n s = Inr (v', r3)"
    by (cases "scan_value pf hook const n s") auto
  with "6.prems" obtain d r4 where d: "skip_ws r3 = d # r4" by (cases "skip_ws r3") auto
  have r: "r = r4 \<or> scan_elements pf hook const n (skip_ws r4) (acc @ [v']) = Inr (v, r) \<and> d = 44"
    using "6.prems" v' d by (auto split: if_splits)
  have "length r3 < length s" by (rule "6.IH"(1) [OF v'])
  moreover have "length r \<le> length r4"
    using r "6.IH"(2) [OF v' refl d] skip_ws_le [of r4] by fastforce
  ultimately show ?case using skip_ws_shorter [OF d] by simp
qed simp_all


text \<open>The fuel \<open>loads\<close> starts with is never used up.\<close>

lemma scan_fuel:
  assumes hook: "\<And>kvs. hook kvs \<noteq> Inl (PyError ''fuel'')" and const: "\<And>c. const c \<noteq> Inl (PyError ''fuel'')"
  shows "2 * length s < n \<Longrightarrow> scan_value pf hook const n s \<noteq> Inl (PyError ''fuel'')"
    and "2 * length s < n \<Longrightarrow> scan_members pf hook const n s acc \<noteq> Inl (PyError ''fuel'')"
    and "2 * length s + 1 < n \<Longrightarrow> scan_elements pf hook const n s acc' \<noteq> Inl (PyError ''fuel'')"
proof (induction n arbitrary: s acc acc')
  case (Suc n)
  have ve: "value_error \<noteq> PyError ''fuel''" by (simp add: value_error_def)
  have num: "scan_number pf s \<noteq> Inl (PyError ''fuel'')" for s
    using ve by (auto simp: scan_number_def Let_def split: option.splits prod.splits)
  {
    case 1
    show ?case
    proof (cases s)
      case (Cons c cs)
      have short: "2 * length (d # r) + 1 < n" if "skip_ws cs = d # r" for d r
        using 1 Cons that skip_ws_le [of cs] by simp
      show ?thesis
        using Cons ve num hook const short Suc.IH(2,3) Suc_lessD
        by (auto simp: rbind_Inl_iff split: option.splits list.splits)
    qed (use ve in simp)
  next
    case 2
    show ?case
    proof
      assume "scan_members pf hook const (Suc n) s acc = Inl (PyError ''fuel'')"
      note fuel = this
      then obtain cs k r1 r2 where s: "s = 34 # cs" and k: "scan_string cs = Some (k, r1)"
        and c: "skip_ws r1 = 58 # r2"
        using ve by (auto split: list.splits if_splits option.splits)
      have e: "scan_value pf hook const n (skip_ws r2) = Inl (PyError ''fuel'') \<or>
          (\<exists>v r3 r4. scan_value pf hook const n (skip_ws r2) = Inr (v, r3) \<and> skip_ws r3 = 44 # r4 \<and>
             scan_members pf hook const n (skip_ws r4) (acc @ [(k, v)]) = Inl (PyError ''fuel''))"
      proof (cases "scan_value pf hook const n (skip_ws r2)")
        case (Inr p)
        with fuel s k c ve hook show ?thesis
          by (cases p; cases "skip_ws (snd p)") (auto simp: rbind_Inl_iff split: if_splits)
      qed (use fuel s k c in simp)
      have len: "2 * length (skip_ws r2) < n"
        using 2 s scan_string_shorter [OF k] skip_ws_shorter [OF c] skip_ws_le [of r2] by simp
      have "2 * length (skip_ws r4) < n" if "scan_value pf hook const n (skip_ws r2) = Inr (v, r3)"
        "skip_ws r3 = 44 # r4" for v r3 r4
        using len scan_shorter(1) [OF that(1)] skip_ws_shorter [OF that(2)] skip_ws_le [of r4] by simp
      with e len Suc.IH(1,2) show False by blast
    qed
  next
    case 3
    show ?case
    proof
      assume "scan_elements pf hook const (Suc n) s acc' = Inl (PyError ''fuel'')"
      note fuel = this
      have e: "scan_value pf hook const n s = Inl (PyError ''fuel'') \<or>
          (\<exists>v r3 r4. scan_value pf hook const n s = Inr (v, r3) \<and> skip_ws r3 = 44 # r4 \<and>
             scan_elements pf hook const n (skip_ws r4) (acc' @ [v]) = Inl (PyError ''fuel''))"
      proof (cases "scan_value pf hook const n s")
        case (Inr p)
        with fuel ve show ?thesis
          by (cases p; cases "skip_ws (snd p)") (auto split: if_splits)
      qed (use fuel in simp)
      have len: "2 * length s < n" using 3 by simp
      have "2 * length (skip_ws r4) + 1 < n" if "scan_value pf hook const n s = Inr (v, r3)"
        "skip_ws r3 = 44 # r4" for v r3 r4
        using len scan_shorter(1) [OF that(1)] skip_ws_shorter [OF that(2)] skip_ws_le [of r4] by simp
      with e len Suc.IH(1,3) show False by blast
    qed
  }
qed simp_all

theorem loads_fuel:
  assumes "\<And>kvs. hook kvs \<noteq> Inl (PyError ''fuel'')" and "\<And>c. const c \<noteq> Inl (PyError ''fuel'')"
  shows "loads pf hook const s \<noteq> Inl (PyError ''fuel'')"
proof -
  have "2 * length (skip_ws s) < 2 * length s + 2" using skip_ws_le [of s] by simp
  with assms scan_fuel(1) have "scan_value pf hook const (2 * length s + 2) (skip_ws s) \<noteq> Inl (PyError ''fuel'')"
    by blast
  then show ?thesis by (auto simp: loads_def rbind_Inl_iff require_Inl_iff value_error_def)
qed


section \<open>The canonical encoding determines the value\<close>

lemma sort_json_invariants:
  "wf_json v \<Longrightarrow> wf_json (sort_json v)"
  "dumpable (sort_json v) = dumpable v"
  "floats_ok pf (sort_json v) = floats_ok pf v"
proof (induction v rule: json_induct)
  case (Obj kvs)
  {
    case 1
    have "map fst (map (\<lambda>(k, v). (k, sort_json v)) kvs) = map fst kvs" by auto
    with 1 have "distinct (map fst (map (\<lambda>(k, v). (k, sort_json v)) kvs))" by (simp del: map_map)
    then have "distinct (map fst (sort_key fst (map (\<lambda>(k, v). (k, sort_json v)) kvs)))"
      by (simp only: distinct_map distinct_sort set_sort)
    moreover have "wf_str k \<and> wf_json (sort_json v)" if "(k, v) \<in> set kvs" for k v
      using 1 Obj(1) that by (auto simp: list_all_pairs)
    ultimately show ?case by (auto simp: list_all_pairs)
  next
    case 2
    show ?case using Obj(2) by (fastforce simp: list_all_pairs)
  next
    case 3
    show ?case using Obj(3) by (fastforce simp: list_all_pairs)
  }
qed (auto simp: list_all_iff)

lemma canonical_json_Inr:
  "canonical_json v = Inr bs \<longleftrightarrow>
     dumpable v \<and> list_all is_scalar (dumps (sort_json v)) \<and> bs = utf8_bytes (dumps (sort_json v))"
  by (auto simp: canonical_json_def dumps_utf8_def encode_utf8_def sort_json_invariants)

theorem canonical_json_inject:
  assumes "canonical_json v = Inr bs" and "canonical_json w = Inr bs"
    and "wf_json v" and "wf_json w" and "floats_ok pf v" and "floats_ok pf w"
  shows "sort_json v = sort_json w"
proof -
  have eq: "dumps (sort_json v) = dumps (sort_json w)"
    using assms(1,2) by (intro utf8_bytes_inject) (simp_all add: canonical_json_Inr)
  have rt: "loads pf (unique_pairs value_error) (no_constant value_error) (dumps (sort_json x)) = Inr (sort_json x)"
    if "wf_json x" "dumpable x" "floats_ok pf x" for x
    using that by (intro loads_dumps) (auto simp: unique_pairs_def sort_json_invariants)
  have "dumpable v" "dumpable w" using assms(1,2) by (simp_all add: canonical_json_Inr)
  then have "Inr (sort_json v) = (Inr (sort_json w) :: json result)"
    using rt [of v] rt [of w] assms(3-) by (simp only: eq)
  then show ?thesis by simp
qed

text \<open>Conversely, reordering the keys of a dictionary does not change its canonical bytes.\<close>

lemma canonical_json_cong: "sort_json v = sort_json w \<Longrightarrow> canonical_json v = canonical_json w"
  by (simp add: canonical_json_def)

end
