(* ===== verification/Sha256.thy ===== *)
theory Sha256
  imports Utf8
begin

text \<open>
  SHA-256 (FIPS 180-4) over byte lists, and \<open>hexdigest()\<close>: the hash every receipt, chunk and
  persisted envelope of the program is bound with. Proved: the digest is always 64 lower-case
  hexadecimal characters. No theorem of the development assumes that the function has no
  collisions; where equality of digests is used, the statement names the collision.
\<close>

unbundle bit_operations_syntax

type_synonym word32 = "32 word"

definition sha_k :: "word32 list" where
  "sha_k = [
    1116352408, 1899447441, 3049323471, 3921009573, 961987163, 1508970993, 2453635748, 2870763221,
    3624381080, 310598401, 607225278, 1426881987, 1925078388, 2162078206, 2614888103, 3248222580,
    3835390401, 4022224774, 264347078, 604807628, 770255983, 1249150122, 1555081692, 1996064986,
    2554220882, 2821834349, 2952996808, 3210313671, 3336571891, 3584528711, 113926993, 338241895,
    666307205, 773529912, 1294757372, 1396182291, 1695183700, 1986661051, 2177026350, 2456956037,
    2730485921, 2820302411, 3259730800, 3345764771, 3516065817, 3600352804, 4094571909, 275423344,
    430227734, 506948616, 659060556, 883997877, 958139571, 1322822218, 1537002063, 1747873779,
    1955562222, 2024104815, 2227730452, 2361852424, 2428436474, 2756734187, 3204031479, 3329325298]"

definition sha_init :: "word32 list" where
  "sha_init = [1779033703, 3144134277, 1013904242, 2773480762, 1359893119, 2600822924, 528734635, 1541459225]"

definition be_bytes :: "nat \<Rightarrow> nat \<Rightarrow> byte list" where
  "be_bytes k n = map (\<lambda>i. of_nat (n div 256 ^ (k - 1 - i) mod 256)) [0..<k]"

definition sha_pad :: "byte list \<Rightarrow> byte list" where
  "sha_pad m = (let l = length m in
     m @ [128] @ replicate ((119 - l mod 64) mod 64) 0 @ be_bytes 8 (8 * l))"

fun words_of :: "byte list \<Rightarrow> word32 list" where
  "words_of (a # b # c # d # r) =
     (push_bit 24 (ucast a) OR push_bit 16 (ucast b) OR push_bit 8 (ucast c) OR ucast d) # words_of r"
| "words_of r = []"

definition sha_sigma0 :: "word32 \<Rightarrow> word32" where
  "sha_sigma0 x = word_rotr 7 x XOR word_rotr 18 x XOR drop_bit 3 x"

definition sha_sigma1 :: "word32 \<Rightarrow> word32" where
  "sha_sigma1 x = word_rotr 17 x XOR word_rotr 19 x XOR drop_bit 10 x"

definition sha_sum0 :: "word32 \<Rightarrow> word32" where
  "sha_sum0 x = word_rotr 2 x XOR word_rotr 13 x XOR word_rotr 22 x"

definition sha_sum1 :: "word32 \<Rightarrow> word32" where
  "sha_sum1 x = word_rotr 6 x XOR word_rotr 11 x XOR word_rotr 25 x"

text \<open>The message schedule, latest word first.\<close>

fun sha_schedule :: "nat \<Rightarrow> word32 list \<Rightarrow> word32 list" where
  "sha_schedule 0 ws = ws"
| "sha_schedule (Suc n) ws =
     sha_schedule n ((sha_sigma1 (ws ! 1) + ws ! 6 + sha_sigma0 (ws ! 14) + ws ! 15) # ws)"

fun sha_round :: "word32 list \<Rightarrow> word32 \<times> word32 \<Rightarrow> word32 list" where
  "sha_round [a, b, c, d, e, f, g, h] (k, w) =
     (let t1 = h + sha_sum1 e + ((e AND f) XOR (NOT e AND g)) + k + w;
          t2 = sha_sum0 a + ((a AND b) XOR (a AND c) XOR (b AND c))
      in [t1 + t2, a, b, c, d + t1, e, f, g])"
| "sha_round s kw = s"

definition sha_block :: "word32 list \<Rightarrow> word32 list \<Rightarrow> word32 list" where
  "sha_block s ws = map2 (+) s (foldl sha_round s (zip sha_k (rev (sha_schedule 48 (rev ws)))))"

fun sha_blocks :: "nat \<Rightarrow> word32 list \<Rightarrow> word32 list \<Rightarrow> word32 list" where
  "sha_blocks 0 s ws = s"
| "sha_blocks (Suc n) s ws = sha_blocks n (sha_block s (take 16 ws)) (drop 16 ws)"

definition hex_char :: "word32 \<Rightarrow> nat" where
  "hex_char w = (let n = unat (w AND 15) in if n < 10 then 48 + n else 87 + n)"

definition hex_word :: "word32 \<Rightarrow> pystr" where
  "hex_word w = map (\<lambda>i. hex_char (drop_bit (28 - 4 * i) w)) [0..<8]"

text \<open>\<open>hashlib.sha256(m).hexdigest()\<close>.\<close>

definition sha256_hex :: "byte list \<Rightarrow> pystr" where
  "sha256_hex m = (let ws = words_of (sha_pad m)
     in concat (map hex_word (sha_blocks (length ws div 16) sha_init ws)))"

section \<open>Shape of the digest\<close>

lemma length_sha_round [simp]: "length (sha_round s kw) = length s"
  by (cases "(s, kw)" rule: sha_round.cases) (auto simp: Let_def)

lemma length_foldl_sha_round [simp]: "length (foldl sha_round s kws) = length s"
  by (induction kws arbitrary: s) auto

lemma length_sha_blocks [simp]: "length (sha_blocks n s ws) = length s"
  by (induction n arbitrary: s ws) (auto simp: sha_block_def)

lemma hex_char_class: "is_hex_digit (hex_char w)"
proof -
  have "w AND 15 = take_bit 4 w" by (simp add: take_bit_eq_mask mask_eq_exp_minus_1)
  then have "unat (w AND 15) < 16"
    using take_bit_nat_less_exp [of 4 "unat w"] by (simp add: unsigned_take_bit_eq)
  then show ?thesis by (auto simp: hex_char_def Let_def text_simps)
qed

lemma length_sha_init [simp]: "length sha_init = 8"
  by (simp add: sha_init_def)

theorem sha256_hex_is_hex64 [simp]: "is_hex64 (sha256_hex m)"
proof -
  have "length (concat (map hex_word ws)) = 8 * length ws" for ws
    by (induction ws) (auto simp: hex_word_def)
  moreover have "list_all is_hex_digit (concat (map hex_word ws))" for ws
    by (auto simp: list_all_iff hex_word_def hex_char_class)
  ultimately show ?thesis by (simp add: is_hex64_def sha256_hex_def Let_def)
qed

lemma length_sha256_hex [simp]: "length (sha256_hex m) = 64"
  using sha256_hex_is_hex64 [of m] by (simp add: is_hex64_def)

end
