(* ===== verification/Canonical.thy ===== *)
theory Canonical
  imports Json_Text Sha256 "HOL-Library.Multiset"
begin

text \<open>
  Digests and the size accounting of persisted JSON: \<open>digest_json\<close> of
  \<open>src/velo_transfer/manifest.py\<close> and \<open>_validate_json\<close> of \<open>src/velo_transfer/storage.py\<close>,
  which charges the bytes of the canonical encoding while walking the value and before anything
  is copied or encoded. Main result: the walk accepts a value exactly when its canonical encoding
  exists and fits the byte, node and depth limits.
\<close>

definition digest_json :: "json \<Rightarrow> pystr result" where
  "digest_json v = rbind (canonical_json v) (\<lambda>bs. Inr (sha256_hex bs))"

section \<open>Incremental accounting\<close>

type_synonym meter = "nat \<times> nat"

definition budget_exceeded :: exn where
  "budget_exceeded = Error ''state_budget_exceeded''"

fun charge :: "nat \<Rightarrow> nat \<Rightarrow> meter \<Rightarrow> meter result" where
  "charge mx amount (used, nodes) =
     (if mx < used + amount then Inl budget_exceeded else Inr (used + amount, nodes))"

definition char_cost :: "nat \<Rightarrow> nat" where
  "char_cost c =
     (if c = 34 \<or> c = 92 \<or> c = 8 \<or> c = 12 \<or> c = 10 \<or> c = 13 \<or> c = 9 then 2
      else if c < 32 then 6
      else if c < 128 then 1 else if c < 2048 then 2 else if c < 65536 then 3 else 4)"

fun charge_chars :: "nat \<Rightarrow> pystr \<Rightarrow> meter \<Rightarrow> meter result" where
  "charge_chars mx [] m = Inr m"
| "charge_chars mx (c # cs) m =
     (if is_surrogate c then Inl (Error ''invalid_state'')
      else rbind (charge mx (char_cost c) m) (charge_chars mx cs))"

definition string_size :: "nat \<Rightarrow> pystr \<Rightarrow> meter \<Rightarrow> meter result" where
  "string_size mx s m = rbind (charge mx 2 m) (charge_chars mx s)"

fun nat_bits :: "nat \<Rightarrow> nat" where
  "nat_bits n = (if n = 0 then 0 else Suc (nat_bits (n div 2)))"

declare nat_bits.simps [simp del]

text \<open>\<open>int.bit_length()\<close>.\<close>

definition bit_length :: "int \<Rightarrow> nat" where
  "bit_length i = nat_bits (nat \<bar>i\<bar>)"

text \<open>The first lines of \<open>visit\<close>: count the node, then check the node and depth limits.\<close>

fun enter_node :: "nat \<Rightarrow> nat \<Rightarrow> nat \<Rightarrow> meter \<Rightarrow> meter result" where
  "enter_node mn md depth (used, nodes) =
     (if mn < Suc nodes \<or> md < depth then Inl budget_exceeded else Inr (used, Suc nodes))"

text \<open>A container of \<open>n\<close> members: refuse what cannot fit, then charge brackets and commas.\<close>

fun enter_container :: "nat \<Rightarrow> nat \<Rightarrow> nat \<Rightarrow> meter \<Rightarrow> meter result" where
  "enter_container mx mn n (used, nodes) =
     (if mn - nodes < n then Inl budget_exceeded else charge mx (2 + (n - 1)) (used, nodes))"

fun visit_scalar :: "nat \<Rightarrow> json \<Rightarrow> meter \<Rightarrow> meter result" where
  "visit_scalar mx (JStr s) m = string_size mx s m"
| "visit_scalar mx JNull m = charge mx 4 m"
| "visit_scalar mx (JBool b) m = charge mx (if b then 4 else 5) m"
| "visit_scalar mx (JInt i) m =
     (if mx * 4 < bit_length i then Inl budget_exceeded
      else if \<not> int_printable i then Inl budget_exceeded
      else charge mx (length (int_str i)) m)"
| "visit_scalar mx (JFloat (FloatNum neg ma ex)) m =
     charge mx (length (float_repr (FloatNum neg ma ex))) m"
| "visit_scalar mx v m = Inl (Error ''invalid_state'')"

primrec visit :: "nat \<Rightarrow> nat \<Rightarrow> nat \<Rightarrow> json \<Rightarrow> nat \<Rightarrow> meter \<Rightarrow> meter result"
  and visit_items :: "nat \<Rightarrow> nat \<Rightarrow> nat \<Rightarrow> (pystr \<times> json) list \<Rightarrow> nat \<Rightarrow> meter \<Rightarrow> meter result"
  and visit_item :: "nat \<Rightarrow> nat \<Rightarrow> nat \<Rightarrow> pystr \<times> json \<Rightarrow> nat \<Rightarrow> meter \<Rightarrow> meter result"
  and visit_list :: "nat \<Rightarrow> nat \<Rightarrow> nat \<Rightarrow> json list \<Rightarrow> nat \<Rightarrow> meter \<Rightarrow> meter result" where
  "visit mx mn md (JObj kvs) depth m =
     rbind (enter_node mn md depth m) (\<lambda>m1. rbind (enter_container mx mn (length kvs) m1)
       (visit_items mx mn md kvs (Suc depth)))"
| "visit mx mn md (JList xs) depth m =
     rbind (enter_node mn md depth m) (\<lambda>m1. rbind (enter_container mx mn (length xs) m1)
       (visit_list mx mn md xs (Suc depth)))"
| "visit mx mn md (JStr s) depth m = rbind (enter_node mn md depth m) (visit_scalar mx (JStr s))"
| "visit mx mn md JNull depth m = rbind (enter_node mn md depth m) (visit_scalar mx JNull)"
| "visit mx mn md (JBool b) depth m = rbind (enter_node mn md depth m) (visit_scalar mx (JBool b))"
| "visit mx mn md (JInt i) depth m = rbind (enter_node mn md depth m) (visit_scalar mx (JInt i))"
| "visit mx mn md (JFloat f) depth m = rbind (enter_node mn md depth m) (visit_scalar mx (JFloat f))"
| "visit_items mx mn md [] depth m = Inr m"
| "visit_items mx mn md (p # ps) depth m =
     rbind (visit_item mx mn md p depth m) (visit_items mx mn md ps depth)"
| "visit_item mx mn md (k, v) depth m =
     rbind (string_size mx k m) (\<lambda>m1. rbind (charge mx 1 m1) (visit mx mn md v depth))"
| "visit_list mx mn md [] depth m = Inr m"
| "visit_list mx mn md (x # xs) depth m =
     rbind (visit mx mn md x depth m) (visit_list mx mn md xs depth)"

definition validate_json :: "nat \<Rightarrow> json \<Rightarrow> unit result" where
  "validate_json mx v = rbind (visit mx 10000 32 v 0 (0, 0)) (\<lambda>_. Inr ())"

section \<open>What the walk computes\<close>

definition cost :: "json \<Rightarrow> nat" where
  "cost v = length (utf8_bytes (dumps v))"

definition text_cost :: "pystr \<Rightarrow> nat" where
  "text_cost s = length (utf8_bytes (json_string s))"

fun node_count :: "json \<Rightarrow> nat" where
  "node_count (JList xs) = Suc (sum_list (map node_count xs))"
| "node_count (JObj kvs) = Suc (sum_list (map (\<lambda>(k, v). node_count v) kvs))"
| "node_count v = 1"

fun depth_ok :: "nat \<Rightarrow> json \<Rightarrow> nat \<Rightarrow> bool" where
  "depth_ok md (JList xs) d = (d \<le> md \<and> list_all (\<lambda>x. depth_ok md x (Suc d)) xs)"
| "depth_ok md (JObj kvs) d = (d \<le> md \<and> list_all (\<lambda>(k, v). depth_ok md v (Suc d)) kvs)"
| "depth_ok md v d = (d \<le> md)"

definition no_surrogate :: "pystr \<Rightarrow> bool" where
  "no_surrogate s \<longleftrightarrow> list_all (\<lambda>c. \<not> is_surrogate c) s"

fun text_ok :: "json \<Rightarrow> bool" where
  "text_ok (JStr s) = no_surrogate s"
| "text_ok (JList xs) = list_all text_ok xs"
| "text_ok (JObj kvs) = list_all (\<lambda>(k, v). no_surrogate k \<and> text_ok v) kvs"
| "text_ok v = True"

lemma length_utf8_join:
  "xs \<noteq> [] \<Longrightarrow> length (utf8_bytes (join_on 44 xs)) = sum_list (map (\<lambda>s. length (utf8_bytes s)) xs) + (length xs - 1)"
proof (induction xs)
  case (Cons x xs)
  then show ?case by (cases xs) (auto simp: length_utf8_bytes utf8_width_def)
qed simp

lemma utf8_join_44:
  "length (utf8_bytes (join_on 44 xs)) = sum_list (map (\<lambda>s. length (utf8_bytes s)) xs) + (length xs - 1)"
  using length_utf8_join [of xs] by (cases xs) (auto simp: utf8_bytes_def)

lemma char_cost_esc: "length (utf8_bytes (esc_char c)) = char_cost c"
proof -
  have "hex_digit_char n < 128" if "n < 16" for n using that by (simp add: hex_digit_char_def)
  then have "utf8_width (hex_digit_char n) = 1" if "n < 16" for n using that by (simp add: utf8_width_def)
  then show ?thesis
    by (auto simp: length_utf8_bytes esc_char_def char_cost_def utf8_width_def)
qed

lemma text_cost_eq: "text_cost s = 2 + sum_list (map char_cost s)"
proof -
  have "length (utf8_bytes (concat (map esc_char s))) = sum_list (map char_cost s)"
    by (induction s) (auto simp: utf8_bytes_append char_cost_esc [symmetric] utf8_bytes_def)
  then show ?thesis
    by (simp add: text_cost_def json_string_def utf8_bytes_append length_utf8_bytes utf8_width_def)
qed

lemma cost_simps:
  "cost (JStr s) = text_cost s"
  "cost JNull = 4"
  "cost (JBool b) = (if b then 4 else 5)"
  "cost (JList xs) = 2 + (length xs - 1) + sum_list (map cost xs)"
  "cost (JObj kvs) = 2 + (length kvs - 1) + sum_list (map (\<lambda>(k, v). text_cost k + 1 + cost v) kvs)"
proof -
  show "cost (JList xs) = 2 + (length xs - 1) + sum_list (map cost xs)"
    using utf8_join_44 [of "map dumps xs"]
    by (simp add: cost_def [abs_def] utf8_bytes_append length_utf8_bytes [of "_ # _"] o_def length_utf8_bytes utf8_width_def)
  have "(\<lambda>p. length (utf8_bytes (case p of (k, v) \<Rightarrow> json_string k @ 58 # dumps v)))
      = (\<lambda>(k, v). text_cost k + 1 + cost v)"
    by (auto simp: fun_eq_iff text_cost_def cost_def length_utf8_bytes utf8_width_def)
  then show "cost (JObj kvs) = 2 + (length kvs - 1) + sum_list (map (\<lambda>(k, v). text_cost k + 1 + cost v) kvs)"
    using utf8_join_44 [of "map (\<lambda>(k, v). json_string k @ 58 # dumps v) kvs"]
    by (simp add: cost_def [of "JObj kvs"] o_def length_utf8_bytes utf8_width_def)
qed (simp_all add: cost_def text_cost_def u_def length_utf8_bytes utf8_width_def)

lemma digits_ascii: "list_all is_digit ds \<Longrightarrow> list_all (\<lambda>c. c < 128) ds"
  by (auto simp: list_all_iff is_digit_def)

lemma cost_int: "cost (JInt i) = length (int_str i)"
proof -
  have "list_all (\<lambda>c. c < 128) (int_str i)"
    using digits_ascii [OF dec_digits_all] by (simp add: int_str_def)
  then show ?thesis by (simp add: cost_def utf8_bytes_ascii)
qed

lemma num_text_ascii:
  assumes "list_all is_digit ip" "list_all is_digit fp" "case ep of None \<Rightarrow> True | Some (s, ds) \<Rightarrow> list_all is_digit ds"
  shows "list_all (\<lambda>c. c < 128) (num_text neg ip fp ep)"
  using assms by (auto simp: num_text_def list_all_iff is_digit_def split: option.splits)

lemma float_text_ascii: "list_all (\<lambda>c. c < 128) (float_text neg m e)"
proof -
  have "list_all is_digit (dec_digits m)" by (rule dec_digits_all)
  then have "list_all is_digit (replicate k 48 @ dec_digits m)" "list_all is_digit (dec_digits m @ replicate k 48)"
    "list_all is_digit (take k (dec_digits m))" "list_all is_digit (drop k (dec_digits m))" for k
    by (auto simp: list_all_iff is_digit_def dest: in_set_takeD in_set_dropD)
  then show ?thesis
    unfolding float_text_def Let_def
    by (auto intro!: num_text_ascii simp: dec_digits_all is_digit_def [of 48])
qed

lemma cost_float: "cost (JFloat (FloatNum neg m e)) = length (float_repr (FloatNum neg m e))"
  by (simp add: cost_def utf8_bytes_ascii float_text_ascii)


lemma charge_iff: "charge mx a (used, nodes) = Inr m \<longleftrightarrow> used + a \<le> mx \<and> m = (used + a, nodes)"
  by auto

lemma charge_chars_iff:
  "used \<le> mx \<Longrightarrow> charge_chars mx s (used, nodes) = Inr m \<longleftrightarrow>
     no_surrogate s \<and> used + sum_list (map char_cost s) \<le> mx \<and> m = (used + sum_list (map char_cost s), nodes)"
  by (induction s arbitrary: used) (auto simp: no_surrogate_def rbind_Inr_iff add.assoc)

lemma string_size_iff:
  "string_size mx s (used, nodes) = Inr m \<longleftrightarrow>
     no_surrogate s \<and> used + text_cost s \<le> mx \<and> m = (used + text_cost s, nodes)"
  by (cases "used + 2 \<le> mx") (auto simp: string_size_def text_cost_eq charge_chars_iff)

lemma nat_bits_le: "n < 2 ^ k \<Longrightarrow> nat_bits n \<le> k"
proof (induction k arbitrary: n)
  case (Suc k)
  then have "n div 2 < 2 ^ k" by auto
  with Suc.IH show ?case by (subst nat_bits.simps) auto
qed (simp add: nat_bits.simps)

lemma dec_digits_bound: "n < 10 ^ length (dec_digits n)"
proof (induction n rule: dec_digits.induct)
  case (1 n)
  show ?case
  proof (cases "n < 10")
    case True
    then show ?thesis by (subst dec_digits.simps) simp
  next
    case False
    with 1 have "n div 10 < 10 ^ length (dec_digits (n div 10))" by blast
    then have "n < 10 * 10 ^ length (dec_digits (n div 10))" by linarith
    with False show ?thesis by (subst dec_digits.simps) simp
  qed
qed

lemma bit_length_str: "bit_length i \<le> 4 * length (int_str i)"
proof -
  let ?ds = "dec_digits (nat \<bar>i\<bar>)"
  have "nat \<bar>i\<bar> < 10 ^ length ?ds" by (rule dec_digits_bound)
  also have "\<dots> \<le> 16 ^ length ?ds" by (rule power_mono) auto
  also have "\<dots> = 2 ^ (4 * length ?ds)" by (simp add: power_mult)
  finally have "bit_length i \<le> 4 * length ?ds" unfolding bit_length_def by (rule nat_bits_le)
  moreover have "length ?ds \<le> length (int_str i)" by (simp add: int_str_def)
  ultimately show ?thesis by linarith
qed

definition fits :: "nat \<Rightarrow> json \<Rightarrow> nat \<Rightarrow> bool" where
  "fits md v d \<longleftrightarrow> dumpable v \<and> text_ok v \<and> depth_ok md v d"

text \<open>
  A step of the walk meters a value: from a state within both limits it succeeds exactly when the
  value is acceptable and its bytes and nodes still fit, and it adds exactly those.
\<close>

definition metered :: "nat \<Rightarrow> nat \<Rightarrow> (meter \<Rightarrow> meter result) \<Rightarrow> bool \<Rightarrow> nat \<Rightarrow> nat \<Rightarrow> bool" where
  "metered mx mn f ok c n \<longleftrightarrow> (\<forall>used nodes m. used \<le> mx \<longrightarrow> nodes \<le> mn \<longrightarrow>
     (f (used, nodes) = Inr m \<longleftrightarrow> ok \<and> used + c \<le> mx \<and> nodes + n \<le> mn \<and> m = (used + c, nodes + n)))"

lemma meteredI:
  assumes "\<And>used nodes m. used \<le> mx \<Longrightarrow> nodes \<le> mn \<Longrightarrow>
    f (used, nodes) = Inr m \<longleftrightarrow> ok \<and> used + c \<le> mx \<and> nodes + n \<le> mn \<and> m = (used + c, nodes + n)"
  shows "metered mx mn f ok c n"
  unfolding metered_def using assms by blast

lemma meteredD:
  "metered mx mn f ok c n \<Longrightarrow> used \<le> mx \<Longrightarrow> nodes \<le> mn \<Longrightarrow>
    f (used, nodes) = Inr m \<longleftrightarrow> ok \<and> used + c \<le> mx \<and> nodes + n \<le> mn \<and> m = (used + c, nodes + n)"
  by (simp only: metered_def simp_thms)

lemma metered_cong:
  assumes "metered mx mn f ok c n" and "\<And>m. f m = g m" and "ok = ok'" and "c = c'" and "n = n'"
  shows "metered mx mn g ok' c' n'"
  using assms by (simp add: metered_def)

lemma metered_bind:
  assumes f: "metered mx mn f ok c n" and g: "metered mx mn g ok' c' n'"
  shows "metered mx mn (\<lambda>m. rbind (f m) g) (ok \<and> ok') (c + c') (n + n')"
proof (rule meteredI)
  fix used nodes m
  assume le: "used \<le> mx" "nodes \<le> mn"
  show "rbind (f (used, nodes)) g = Inr m \<longleftrightarrow> (ok \<and> ok') \<and> used + (c + c') \<le> mx \<and>
      nodes + (n + n') \<le> mn \<and> m = (used + (c + c'), nodes + (n + n'))"
  proof (cases "used + c \<le> mx \<and> nodes + n \<le> mn")
    case True
    then have "g (used + c, nodes + n) = Inr m \<longleftrightarrow> ok' \<and> used + (c + c') \<le> mx \<and>
        nodes + (n + n') \<le> mn \<and> m = (used + (c + c'), nodes + (n + n'))"
      using meteredD [OF g, of "used + c" "nodes + n" m] by (simp add: add.assoc)
    with True show ?thesis by (auto simp: rbind_Inr_iff meteredD [OF f le])
  next
    case False
    then show ?thesis by (auto simp: rbind_Inr_iff meteredD [OF f le])
  qed
qed

lemma metered_skip: "metered mx mn Inr True 0 0"
  by (rule meteredI) auto

lemma metered_charge: "metered mx mn (charge mx c) True c 0"
  by (rule meteredI) auto

lemma metered_string: "metered mx mn (string_size mx s) (no_surrogate s) (text_cost s) 0"
  by (rule meteredI) (auto simp: string_size_iff)

lemma metered_scalar:
  assumes "\<forall>xs. v \<noteq> JList xs" "\<forall>kvs. v \<noteq> JObj kvs"
  shows "metered mx mn (visit_scalar mx v) (dumpable v \<and> text_ok v) (cost v) 0"
proof (rule meteredI)
  fix used nodes :: nat and m
  assume "nodes \<le> mn"
  then show "visit_scalar mx v (used, nodes) = Inr m \<longleftrightarrow> (dumpable v \<and> text_ok v) \<and> used + cost v \<le> mx \<and>
      nodes + 0 \<le> mn \<and> m = (used + cost v, nodes + 0)"
  proof (cases v)
    case (JInt i)
    then show ?thesis using \<open>nodes \<le> mn\<close> bit_length_str [of i] by (auto simp: cost_int)
  next
    case (JFloat f)
    then show ?thesis using \<open>nodes \<le> mn\<close> by (cases f) (auto simp: cost_float)
  qed (use assms in \<open>auto simp: cost_simps string_size_iff\<close>)
qed

lemma metered_enter: "metered mx mn (enter_node mn md d) (d \<le> md) 0 1"
  by (rule meteredI) auto

lemma node_count_pos: "1 \<le> node_count v"
  by (cases v) auto

lemma sum_nodes_ge: "(\<And>x. x \<in> set xs \<Longrightarrow> 1 \<le> f x) \<Longrightarrow> length xs \<le> sum_list (map f xs)"
proof (induction xs)
  case (Cons x xs)
  then have "1 \<le> f x" "length xs \<le> sum_list (map f xs)" by simp_all
  then show ?case by simp
qed simp

lemma metered_container:
  assumes g: "metered mx mn g ok c n" and "k \<le> n"
  shows "metered mx mn (\<lambda>m. rbind (enter_container mx mn k m) g) ok (2 + (k - 1) + c) n"
proof (rule meteredI)
  fix used nodes m
  assume le: "used \<le> mx" "nodes \<le> mn"
  show "rbind (enter_container mx mn k (used, nodes)) g = Inr m \<longleftrightarrow> ok \<and> used + (2 + (k - 1) + c) \<le> mx \<and>
      nodes + n \<le> mn \<and> m = (used + (2 + (k - 1) + c), nodes + n)"
    using metered_bind [OF metered_charge g, of "2 + (k - 1)", THEN meteredD, OF le, of m] le \<open>k \<le> n\<close>
    by (auto simp del: charge.simps)
qed

lemma metered_list:
  assumes "\<And>x. x \<in> set xs \<Longrightarrow> metered mx mn (visit mx mn md x d) (fits md x d) (cost x) (node_count x)"
  shows "metered mx mn (visit_list mx mn md xs d) (list_all (\<lambda>x. fits md x d) xs)
    (sum_list (map cost xs)) (sum_list (map node_count xs))"
  using assms
proof (induction xs)
  case (Cons x xs)
  then have "metered mx mn (visit mx mn md x d) (fits md x d) (cost x) (node_count x)"
    and "metered mx mn (visit_list mx mn md xs d) (list_all (\<lambda>x. fits md x d) xs)
      (sum_list (map cost xs)) (sum_list (map node_count xs))" by auto
  from metered_bind [OF this] show ?case by (rule metered_cong) auto
qed (auto intro!: meteredI)

lemma metered_item:
  assumes "metered mx mn (visit mx mn md v d) (fits md v d) (cost v) (node_count v)"
  shows "metered mx mn (visit_item mx mn md (k, v) d) (no_surrogate k \<and> fits md v d)
    (text_cost k + 1 + cost v) (node_count v)"
  using metered_bind [OF metered_string metered_bind [OF metered_charge assms, of 1], of k]
  by (simp add: metered_def)

lemma metered_items:
  assumes "\<And>k v. (k, v) \<in> set kvs \<Longrightarrow> metered mx mn (visit mx mn md v d) (fits md v d) (cost v) (node_count v)"
  shows "metered mx mn (visit_items mx mn md kvs d) (list_all (\<lambda>(k, v). no_surrogate k \<and> fits md v d) kvs)
    (sum_list (map (\<lambda>(k, v). text_cost k + 1 + cost v) kvs)) (sum_list (map (\<lambda>(k, v). node_count v) kvs))"
  using assms
proof (induction kvs)
  case (Cons kv kvs)
  obtain k v where kv: "kv = (k, v)" by (cases kv)
  with Cons.prems have "metered mx mn (visit_item mx mn md (k, v) d) (no_surrogate k \<and> fits md v d)
    (text_cost k + 1 + cost v) (node_count v)" by (intro metered_item) auto
  moreover have "metered mx mn (visit_items mx mn md kvs d) (list_all (\<lambda>(k, v). no_surrogate k \<and> fits md v d) kvs)
    (sum_list (map (\<lambda>(k, v). text_cost k + 1 + cost v) kvs)) (sum_list (map (\<lambda>(k, v). node_count v) kvs))"
    using Cons by auto
  ultimately show ?case by (rule metered_cong [OF metered_bind]) (auto simp: kv)
qed (auto intro!: meteredI)

lemma metered_leaf:
  assumes "\<forall>xs. v \<noteq> JList xs" "\<forall>kvs. v \<noteq> JObj kvs"
  shows "metered mx mn (visit mx mn md v d) (fits md v d) (cost v) (node_count v)"
proof (rule metered_cong [OF metered_bind [OF metered_enter metered_scalar [OF assms]]])
  show "rbind (enter_node mn md d m) (visit_scalar mx v) = visit mx mn md v d m" for m
    using assms by (cases v) auto
  show "(d \<le> md \<and> dumpable v \<and> text_ok v) = fits md v d" using assms by (cases v) (auto simp: fits_def)
  show "1 + 0 = node_count v" using assms by (cases v) auto
qed simp

lemma metered_visit:
  "metered mx mn (visit mx mn md v d) (fits md v d) (cost v) (node_count v)"
proof (induction v arbitrary: d rule: json_induct)
  case (List xs)
  let ?n = "sum_list (map node_count xs)"
  have "length xs \<le> ?n" by (rule sum_nodes_ge) (rule node_count_pos)
  from metered_bind [OF metered_enter metered_container [OF metered_list [OF List] this]]
  show ?case by (rule metered_cong) (auto simp: fits_def list_all_iff cost_simps)
next
  case (Obj kvs)
  let ?n = "sum_list (map (\<lambda>(k, v). node_count v) kvs)"
  have "length kvs \<le> ?n" using node_count_pos by (intro sum_nodes_ge) auto
  from metered_bind [OF metered_enter metered_container [OF metered_items [OF Obj] this]]
  show ?case by (rule metered_cong) (auto simp: fits_def list_all_iff cost_simps)
qed (rule metered_leaf; simp)+

lemma validate_json_accepts:
  "validate_json mx v = Inr () \<longleftrightarrow>
     dumpable v \<and> text_ok v \<and> cost v \<le> mx \<and> node_count v \<le> 10000 \<and> depth_ok 32 v 0"
  by (auto simp: validate_json_def rbind_Inr_iff meteredD [OF metered_visit] fits_def)

lemma list_all_join:
  "P c \<Longrightarrow> list_all P (join_on c xs) = list_all (list_all P) xs"
proof (induction xs)
  case (Cons x xs)
  then show ?case by (cases xs) auto
qed simp

lemma scalar_string:
  assumes "wf_str s"
  shows "list_all is_scalar (json_string s) = no_surrogate s"
proof -
  have "list_all is_scalar (esc_char c) = (\<not> is_surrogate c)" if "c < 1114112" for c
    using that by (auto simp: esc_char_def is_scalar_def is_surrogate_def hex_digit_char_def)
  with assms show ?thesis
    by (auto simp: json_string_def list_all_iff no_surrogate_def wf_str_def is_scalar_def is_surrogate_def)
qed

lemma scalar_ascii: "list_all (\<lambda>c. c < 128) s \<Longrightarrow> list_all is_scalar s"
  by (auto simp: list_all_iff is_scalar_def is_surrogate_def)

lemma scalar_dumps: "wf_json v \<Longrightarrow> dumpable v \<Longrightarrow> list_all is_scalar (dumps v) = text_ok v"
proof (induction v rule: json_induct)
  case (Int i)
  have "list_all (\<lambda>c. c < 128) (int_str i)"
    using digits_ascii [OF dec_digits_all] by (simp add: int_str_def)
  then show ?case by (simp add: scalar_ascii)
next
  case (Float f)
  then show ?case by (cases f) (simp_all add: scalar_ascii float_text_ascii)
next
  case (Obj kvs)
  have "list_all is_scalar (json_string k @ 58 # dumps v) = (no_surrogate k \<and> text_ok v)"
    if "(k, v) \<in> set kvs" for k v
    using that Obj by (auto simp: scalar_string list_all_pairs is_scalar_def [of 58] is_surrogate_def [of 58])
  then have "list_all (\<lambda>p. list_all is_scalar (case p of (k, v) \<Rightarrow> json_string k @ 58 # dumps v)) kvs =
      list_all (\<lambda>(k, v). no_surrogate k \<and> text_ok v) kvs"
    by (intro list_all_cong) auto
  then show ?case
    by (simp add: list_all_join list.pred_map o_def scalar_ascii [of "[c]" for c, simplified])
next
  case (List xs)
  then have "list_all (\<lambda>x. list_all is_scalar (dumps x)) xs = list_all text_ok xs"
    by (intro list_all_cong) (auto simp: list_all_iff)
  then show ?case
    by (simp add: list_all_join list.pred_map o_def scalar_ascii [of "[c]" for c, simplified])
qed (auto simp: scalar_string u_def is_scalar_def is_surrogate_def)

lemma sum_list_sort_key: "sum_list (map f (sort_key g xs)) = sum_list (map (f :: 'a \<Rightarrow> nat) xs)"
  by (metis mset_map mset_sort sum_mset_sum_list)

lemma sort_json_measures:
  "cost (sort_json v) = cost v" "text_ok (sort_json v) = text_ok v"
proof (induction v rule: json_induct)
  case (List xs)
  {
    case 1
    then show ?case using List(1) by (simp add: cost_simps o_def cong: map_cong)
  next
    case 2
    then show ?case using List(2) by (simp add: list_all_iff)
  }
next
  case (Obj kvs)
  {
    case 1
    have "map (\<lambda>(k, v). text_cost k + 1 + cost v) (map (\<lambda>(k, v). (k, sort_json v)) kvs)
        = map (\<lambda>(k, v). text_cost k + 1 + cost v) kvs"
      using Obj(1) by auto
    then show ?case by (simp only: sort_json.simps cost_simps sum_list_sort_key length_sort length_map)
  next
    case 2
    then show ?case using Obj(2) by (fastforce simp: list_all_iff)
  }
qed simp_all

lemma canonical_json_length:
  assumes "canonical_json v = Inr bs"
  shows "length bs = cost v"
  using assms sort_json_measures(1) [of v] by (auto simp: canonical_json_Inr cost_def)

lemma validate_json_fits:
  assumes "wf_json v"
  shows "validate_json mx v = Inr () \<longleftrightarrow>
     (\<exists>bs. canonical_json v = Inr bs \<and> length bs \<le> mx) \<and> node_count v \<le> 10000 \<and> depth_ok 32 v 0"
proof -
  have "list_all is_scalar (dumps (sort_json v)) = text_ok v" if "dumpable v"
    using assms that scalar_dumps [of "sort_json v"] by (simp add: sort_json_invariants sort_json_measures)
  then show ?thesis
    using canonical_json_length [of v]
    by (auto simp: validate_json_accepts canonical_json_Inr)
qed

section \<open>Canonical bytes\<close>

text \<open>Strict decoding of the canonical bytes gives the value with its keys sorted.\<close>

lemma canonical_json_reads_back:
  assumes "canonical_json v = Inr bs" and "wf_json v" and "floats_ok pf v"
  shows "rbind (decode_utf8 bs) (loads pf (unique_pairs dup) const) = Inr (sort_json v)"
proof -
  have "decode_utf8 bs = Inr (dumps (sort_json v))"
    using assms(1) by (intro decode_encode_utf8) (auto simp: canonical_json_Inr encode_utf8_def)
  moreover have "loads pf (unique_pairs dup) const (dumps (sort_json v)) = Inr (sort_json v)"
    using assms by (intro loads_dumps) (auto simp: unique_pairs_def sort_json_invariants canonical_json_Inr)
  ultimately show ?thesis by simp
qed

text \<open>
  The contract of a content digest that the receipts, journals and stores rely on: it is a 64
  digit hexadecimal text, it does not depend on the order of keys, and it exists for every value
  the canonical encoder accepts.
\<close>

locale content_digest =
  fixes dig :: "json \<Rightarrow> pystr result"
  assumes dig_hex: "dig v = Inr h \<Longrightarrow> is_hex64 h"
    and dig_order: "sort_json v = sort_json w \<Longrightarrow> dig v = dig w"
    and dig_total: "canonical_json v = Inr bs \<Longrightarrow> \<exists>h. dig v = Inr h"
    and dig_defined: "dig v = Inr h \<Longrightarrow> \<exists>bs. canonical_json v = Inr bs"
begin

lemma dig_is_ok_iff: "is_ok (dig v) \<longleftrightarrow> is_ok (canonical_json v)"
  using dig_total dig_defined by (fastforce simp: is_ok_iff)

lemma dig_not_empty: "dig v = Inr h \<Longrightarrow> h \<noteq> []"
  using dig_hex by (fastforce simp: is_hex64_def)

end

interpretation sha: content_digest digest_json
  by unfold_locales (auto simp: digest_json_def rbind_Inr_iff dest: canonical_json_cong)

lemmas witness_simps = canonical_json_Inr wf_str_def int_printable_def int_max_str_digits_def
  int_str_def dec_digits.simps json_string_def esc_char_def is_scalar_def is_surrogate_def
  utf8_bytes_def utf8_char_def

section \<open>Serialisable values\<close>

definition serial :: "json \<Rightarrow> bool" where
  "serial v \<longleftrightarrow> wf_json v \<and> dumpable v \<and> text_ok v"

lemma serial_canonical: "serial v \<Longrightarrow> canonical_json v = Inr (utf8_bytes (dumps (sort_json v)))"
  using scalar_dumps [of "sort_json v"]
  by (simp add: serial_def canonical_json_Inr sort_json_invariants sort_json_measures)

lemma serial_digest: "serial v \<Longrightarrow> digest_json v = Inr (sha256_hex (utf8_bytes (dumps (sort_json v))))"
  by (simp add: digest_json_def serial_canonical)

lemma serial_obj: "serial (obj kvs) \<longleftrightarrow> distinct (map fst kvs) \<and> list_all (\<lambda>(k, v). serial v) kvs"
proof -
  have "no_surrogate (u k)" for k
    by (auto simp: no_surrogate_def list_all_iff is_surrogate_def dest: u_code_points)
  then have t: "text_ok (obj kvs) \<longleftrightarrow> list_all (\<lambda>(k, v). text_ok v) kvs"
    by (simp add: obj_def list.pred_map o_def split_def)
  have d: "dumpable (obj kvs) \<longleftrightarrow> list_all (\<lambda>(k, v). dumpable v) kvs"
    by (simp add: obj_def list.pred_map o_def split_def)
  show ?thesis unfolding serial_def wf_json_obj t d by (auto simp: list_all_pairs)
qed

lemma serial_text [simp]: "serial (JStr (u s))" "c < 55296 \<Longrightarrow> serial (JStr (replicate n c))" "serial (JBool x)" "serial JNull"
  by (auto simp: serial_def no_surrogate_def list_all_iff is_surrogate_def wf_str_def dest: u_code_points)

lemma serial_hex: "is_hex64 h \<Longrightarrow> serial (JStr h)"
  by (auto simp: serial_def is_hex64_def no_surrogate_def list_all_iff is_surrogate_def wf_str_def text_simps)

lemma serial_small [simp]: "serial (JInt 1)" "serial (JInt 5)" "serial (JInt 7)"
  by (simp_all add: serial_def int_printable_def int_max_str_digits_def dec_digits.simps)

section \<open>Properties\<close>

text \<open>
  C1: two JSON values have the same canonical bytes exactly when they are equal up to the order
  of the keys of their dictionaries, so a digest of the canonical bytes identifies content and
  not presentation. \<open>pf\<close> is the conversion of a decimal literal to a double; it has to read back
  the floats that occur in the values.
\<close>

theorem canonical_json_faithful:
  assumes "wf_json v" and "wf_json w" and "floats_ok pf v" and "floats_ok pf w"
    and "canonical_json v = Inr bs" and "canonical_json w = Inr cs"
  shows "bs = cs \<longleftrightarrow> sort_json v = sort_json w"
  using assms canonical_json_inject [of v bs w pf] canonical_json_cong [of v w] by auto

theorem canonical_json_faithful_witness:
  "([123, 34, 97, 34, 58, 49, 44, 34, 98, 34, 58, 91, 93, 125] :: byte list) =
     [123, 34, 97, 34, 58, 49, 44, 34, 98, 34, 58, 91, 93, 125] \<longleftrightarrow>
     sort_json (JObj [([98], JList []), ([97], JInt 1)]) =
     sort_json (JObj [([97], JInt 1), ([98], JList [])])"
  by (rule canonical_json_faithful [where pf = "\<lambda>_. FloatNan"]) (simp_all add: witness_simps)

text \<open>
  C2: the strict decoder (UTF-8, then \<open>json.loads\<close> with a duplicate-key hook) reads canonical
  bytes back as the same value with sorted keys: what a store writes is what it loads.
\<close>

theorem canonical_json_roundtrip:
  assumes "canonical_json v = Inr bs" and "wf_json v" and "floats_ok pf v"
  shows "rbind (decode_utf8 bs) (loads pf (unique_pairs dup) const) = Inr (sort_json v)"
  using assms by (rule canonical_json_reads_back)

theorem canonical_json_roundtrip_witness:
  "rbind (decode_utf8 [123, 34, 97, 34, 58, 49, 44, 34, 98, 34, 58, 91, 93, 125])
      (loads (\<lambda>_. FloatNan) (unique_pairs value_error) (no_constant value_error)) =
    Inr (sort_json (JObj [([98], JList []), ([97], JInt 1)]))"
  by (rule canonical_json_roundtrip) (simp_all add: witness_simps)

text \<open>
  C3: the incremental accounting of the store accepts a value exactly when its canonical encoding
  exists and has at most \<open>mx\<close> bytes, the value has at most 10000 nodes and nests at most 32 deep:
  the byte count charged during the walk is the length of the encoding, neither more nor less.
\<close>

theorem validate_json_exact:
  assumes "wf_json v"
  shows "validate_json mx v = Inr () \<longleftrightarrow>
     (\<exists>bs. canonical_json v = Inr bs \<and> length bs \<le> mx) \<and> node_count v \<le> 10000 \<and> depth_ok 32 v 0"
  using assms by (rule validate_json_fits)

theorem validate_json_exact_witness:
  "validate_json 12 (JObj [([107], JList [JNull])]) = Inr () \<longleftrightarrow>
     (\<exists>bs. canonical_json (JObj [([107], JList [JNull])]) = Inr bs \<and> length bs \<le> 12) \<and>
     node_count (JObj [([107], JList [JNull])]) \<le> 10000 \<and> depth_ok 32 (JObj [([107], JList [JNull])]) 0"
  by (rule validate_json_exact) (simp add: witness_simps)

end
