(* ===== verification/Protocol.thy ===== *)
theory Protocol
  imports Canonical
begin

text \<open>
  Receipts of the terminal protocol: \<open>src/velo_transfer/protocol.py\<close> up to the guest state
  machine. A receipt is a dictionary; every constructor validates what it is given and what it
  returns. The fresh identifiers of \<open>uuid.uuid4().hex\<close> are arguments. Proved: each constructor
  returns only receipts its validator accepts, a validator accepts exactly the receipts with the
  documented fields, and recovery after a crash returns the publication of the intent exactly
  when the directory found on disk is the staged one.
\<close>

section \<open>Field checks\<close>

definition check_object :: "json \<Rightarrow> string list \<Rightarrow> string \<Rightarrow> unit result" where
  "check_object v keys code = require (has_keys v keys) (Error code)"

fun is_text :: "nat \<Rightarrow> json \<Rightarrow> bool" where
  "is_text limit (JStr s) = (s \<noteq> [] \<and> length s \<le> limit \<and> 0 \<notin> set s)"
| "is_text limit v = False"

definition check_text :: "nat \<Rightarrow> json \<Rightarrow> unit result" where
  "check_text limit v = require (is_text limit v) (Error ''invalid_protocol_value'')"

fun is_digest :: "json \<Rightarrow> bool" where
  "is_digest (JStr s) = is_hex64 s"
| "is_digest v = False"

definition check_digest :: "json \<Rightarrow> unit result" where
  "check_digest v = require (is_digest v) (Error ''invalid_digest'')"

fun is_identifier :: "json \<Rightarrow> bool" where
  "is_identifier (JStr s) = is_id s"
| "is_identifier v = False"

definition check_identifier :: "json \<Rightarrow> unit result" where
  "check_identifier v = require (is_identifier v) (Error ''invalid_receipt_id'')"

definition is_count :: "json \<Rightarrow> bool" where
  "is_count v \<longleftrightarrow> is_int v \<and> 0 \<le> int_of v"

definition directory_identity :: "json \<Rightarrow> unit result" where
  "directory_identity v =
     rbind (check_object v [''device'', ''inode''] ''invalid_directory_identity'') (\<lambda>_.
     require (is_count (fld ''device'' v) \<and> is_count (fld ''inode'' v)) (Error ''invalid_directory_identity''))"

section \<open>Bindings, destinations and prefix proofs\<close>

definition binding_fields :: "string list" where
  "binding_fields = [''protocol_version'', ''transfer_id'', ''request_digest'', ''direction'', ''vm_uuid'',
     ''boot_identity'', ''vm_epoch'', ''policy_id'', ''package_size'', ''package_sha256'', ''manifest_sha256'']"

definition protocol_version :: json where
  "protocol_version = JStr (u ''velo.transfer.v1'')"

definition validate_binding :: "json \<Rightarrow> json result" where
  "validate_binding b =
     rbind (check_object b binding_fields ''invalid_binding'') (\<lambda>_.
     rbind (require (fld ''protocol_version'' b = protocol_version \<and>
       fld ''direction'' b \<in> set [JStr (u ''push''), JStr (u ''pull'')]) (Error ''invalid_binding'')) (\<lambda>_.
     rbind (require (is_identifier (fld ''transfer_id'' b)) (Error ''invalid_binding'')) (\<lambda>_.
     rbind (for_each (\<lambda>k. check_text 256 (fld k b)) [''vm_uuid'', ''boot_identity'', ''vm_epoch'', ''policy_id'']) (\<lambda>_.
     rbind (require (is_count (fld ''package_size'' b)) (Error ''invalid_binding'')) (\<lambda>_.
     rbind (for_each (\<lambda>k. check_digest (fld k b)) [''request_digest'', ''package_sha256'', ''manifest_sha256'']) (\<lambda>_.
     Inr b))))))"

definition prefix_fields :: "string list" where
  "prefix_fields = [''schema'', ''request_digest'', ''worker_nonce'', ''verified_offset'', ''chunk_count'',
     ''ledger_sha256'', ''completed'']"

fun is_nonempty_str :: "json \<Rightarrow> bool" where
  "is_nonempty_str (JStr s) = (s \<noteq> [])"
| "is_nonempty_str v = False"

definition validate_prefix_verification :: "json \<Rightarrow> json \<Rightarrow> json \<Rightarrow> json \<Rightarrow> json \<Rightarrow> unit result" where
  "validate_prefix_verification proof digest offset worker chunk_count =
     (if proof = JNull then Inr ()
      else rbind (check_object proof prefix_fields ''invalid_state'') (\<lambda>_.
        rbind (check_digest (fld ''request_digest'' proof)) (\<lambda>_.
        rbind (check_digest (fld ''ledger_sha256'' proof)) (\<lambda>_.
        require (fld ''schema'' proof = JStr (u ''velo.transfer.prefix-verification.v1'') \<and>
          fld ''completed'' proof = JBool True \<and> py_eq (fld ''request_digest'' proof) digest \<and>
          is_int (fld ''verified_offset'' proof) \<and> py_eq (fld ''verified_offset'' proof) offset \<and>
          is_count (fld ''chunk_count'' proof) \<and>
          (chunk_count \<noteq> JNull \<longrightarrow> py_eq (fld ''chunk_count'' proof) chunk_count) \<and>
          is_obj worker \<and> fld ''job'' worker = JStr (u ''verify_partial'') \<and>
          is_nonempty_str (fld ''worker_nonce'' proof) \<and>
          py_eq (fld ''worker_nonce'' proof) (fld ''nonce'' worker)) (Error ''invalid_state'')))))"

fun items :: "json \<Rightarrow> (pystr \<times> json) list" where
  "items (JObj kvs) = kvs"
| "items v = []"

definition validate_destination :: "json \<Rightarrow> json \<Rightarrow> json result" where
  "validate_destination d direction =
     rbind (check_object d [''endpoint'', ''identity'', ''canonical_path''] ''invalid_destination'') (\<lambda>_.
     rbind (require (fld ''endpoint'' d = JStr (u (if direction = JStr (u ''pull'') then ''host'' else ''guest'')))
       (Error ''invalid_destination'')) (\<lambda>_.
     rbind (check_text 32767 (fld ''canonical_path'' d)) (\<lambda>_.
     let identity = fld ''identity'' d in
     rbind (require (is_obj identity \<and> items identity \<noteq> [] \<and> length (items identity) \<le> 16)
       (Error ''invalid_destination'')) (\<lambda>_.
     rbind (for_each (\<lambda>(k, v). rbind (check_text 128 (JStr k)) (\<lambda>_. check_text 256 v)) (items identity)) (\<lambda>_.
     Inr d)))))"

section \<open>Receipts\<close>

definition receipt_digest :: "json \<Rightarrow> pystr result" where
  "receipt_digest receipt = digest_json receipt"

definition mismatch :: exn where
  "mismatch = Error ''receipt_binding_mismatch''"

definition validate_prepare :: "json \<Rightarrow> json \<Rightarrow> unit result" where
  "validate_prepare receipt b =
     rbind (validate_binding b) (\<lambda>_.
     rbind (check_object receipt [''type'', ''binding'', ''prepare_id'', ''identity_digest'', ''prepared'']
       ''invalid_receipt'') (\<lambda>_.
     rbind (validate_binding (fld ''binding'' receipt)) (\<lambda>_.
     rbind (require (fld ''type'' receipt = JStr (u ''prepare'') \<and> py_eq (fld ''binding'' receipt) b \<and>
       fld ''prepared'' receipt = JBool True) mismatch) (\<lambda>_.
     rbind (check_identifier (fld ''prepare_id'' receipt)) (\<lambda>_.
     check_digest (fld ''identity_digest'' receipt))))))"

text \<open>\<open>given\<close> is the optional identifier argument, \<open>fresh\<close> the value of \<open>uuid.uuid4().hex\<close>.\<close>

definition chosen_id :: "json \<Rightarrow> pystr \<Rightarrow> json" where
  "chosen_id given fresh = (if given = JNull then JStr fresh else given)"

definition prepare_receipt :: "pystr \<Rightarrow> json \<Rightarrow> json \<Rightarrow> json \<Rightarrow> json result" where
  "prepare_receipt fresh b identity_digest prepare_id =
     rbind (validate_binding b) (\<lambda>_.
     rbind (check_digest identity_digest) (\<lambda>_.
     let receipt = obj [(''type'', JStr (u ''prepare'')), (''binding'', b),
       (''prepare_id'', chosen_id prepare_id fresh), (''identity_digest'', identity_digest),
       (''prepared'', JBool True)] in
     rbind (validate_prepare receipt b) (\<lambda>_. Inr receipt)))"

definition source_validation_receipt :: "json \<Rightarrow> json \<Rightarrow> json \<Rightarrow> json result" where
  "source_validation_receipt b prepare identity_digest =
     rbind (validate_prepare prepare b) (\<lambda>_.
     rbind (require (fld ''direction'' b = JStr (u ''push'')) (Error ''action_not_allowed'')) (\<lambda>_.
     rbind (check_digest identity_digest) (\<lambda>_.
     rbind (receipt_digest prepare) (\<lambda>h.
     Inr (obj [(''type'', JStr (u ''source_validation'')), (''binding'', b),
       (''prepare_receipt_sha256'', JStr h), (''identity_digest'', identity_digest)])))))"

definition validate_source_validation :: "json \<Rightarrow> json \<Rightarrow> json \<Rightarrow> unit result" where
  "validate_source_validation receipt b prepare =
     rbind (validate_prepare prepare b) (\<lambda>_.
     rbind (check_object receipt [''type'', ''binding'', ''prepare_receipt_sha256'', ''identity_digest'']
       ''invalid_receipt'') (\<lambda>_.
     rbind (validate_binding (fld ''binding'' receipt)) (\<lambda>_.
     rbind (require (fld ''direction'' b = JStr (u ''push'') \<and> fld ''type'' receipt = JStr (u ''source_validation'') \<and>
       py_eq (fld ''binding'' receipt) b) mismatch) (\<lambda>_.
     rbind (receipt_digest prepare) (\<lambda>h.
     rbind (require (fld ''prepare_receipt_sha256'' receipt = JStr h) mismatch) (\<lambda>_.
     check_digest (fld ''identity_digest'' receipt)))))))"

definition publication_fields :: "string list" where
  "publication_fields = [''type'', ''binding'', ''prepare_receipt_sha256'', ''destination'',
     ''manifest_sha256'', ''directory_identity'', ''publication_id'']"

definition validate_publication :: "json \<Rightarrow> json \<Rightarrow> json \<Rightarrow> json \<Rightarrow> unit result" where
  "validate_publication receipt b prepare destination =
     rbind (validate_prepare prepare b) (\<lambda>_.
     rbind (validate_destination destination (fld ''direction'' b)) (\<lambda>_.
     rbind (check_object receipt publication_fields ''invalid_receipt'') (\<lambda>_.
     rbind (validate_binding (fld ''binding'' receipt)) (\<lambda>_.
     rbind (validate_destination (fld ''destination'' receipt) (fld ''direction'' b)) (\<lambda>_.
     rbind (require (fld ''type'' receipt = JStr (u ''publication'') \<and> py_eq (fld ''binding'' receipt) b) mismatch) (\<lambda>_.
     rbind (receipt_digest prepare) (\<lambda>h.
     rbind (require (fld ''prepare_receipt_sha256'' receipt = JStr h \<and>
       py_eq (fld ''destination'' receipt) destination \<and>
       py_eq (fld ''manifest_sha256'' receipt) (fld ''manifest_sha256'' b)) mismatch) (\<lambda>_.
     rbind (directory_identity (fld ''directory_identity'' receipt)) (\<lambda>_.
     check_identifier (fld ''publication_id'' receipt))))))))))"

definition publication_receipt :: "pystr \<Rightarrow> json \<Rightarrow> json \<Rightarrow> json \<Rightarrow> json \<Rightarrow> json \<Rightarrow> json result" where
  "publication_receipt fresh b prepare destination identity publication_id =
     rbind (validate_prepare prepare b) (\<lambda>_.
     rbind (validate_destination destination (fld ''direction'' b)) (\<lambda>_.
     rbind (directory_identity identity) (\<lambda>_.
     rbind (receipt_digest prepare) (\<lambda>h.
     let receipt = obj [(''type'', JStr (u ''publication'')), (''binding'', b),
       (''prepare_receipt_sha256'', JStr h), (''destination'', destination),
       (''manifest_sha256'', fld ''manifest_sha256'' b), (''directory_identity'', identity),
       (''publication_id'', chosen_id publication_id fresh)] in
     rbind (validate_publication receipt b prepare destination) (\<lambda>_. Inr receipt)))))"

definition publish_intent :: "pystr \<Rightarrow> json \<Rightarrow> json \<Rightarrow> json \<Rightarrow> json \<Rightarrow> json \<Rightarrow> json \<Rightarrow> json result" where
  "publish_intent fresh b prepare destination staging_identity parent_identity publication_id =
     rbind (publication_receipt fresh b prepare destination staging_identity publication_id) (\<lambda>publication.
     rbind (directory_identity parent_identity) (\<lambda>_.
     Inr (obj [(''type'', JStr (u ''publish_intent'')), (''publication'', publication),
       (''parent_identity'', parent_identity)])))"

definition recover_publication :: "json \<Rightarrow> json \<Rightarrow> json \<Rightarrow> json \<Rightarrow> json \<Rightarrow> json \<Rightarrow> json \<Rightarrow> json result" where
  "recover_publication intent b prepare destination verified_identity verified_parent_identity verified_manifest =
     rbind (check_object intent [''type'', ''publication'', ''parent_identity''] ''invalid_publish_intent'') (\<lambda>_.
     rbind (validate_publication (fld ''publication'' intent) b prepare destination) (\<lambda>_.
     rbind (directory_identity (fld ''parent_identity'' intent)) (\<lambda>_.
     rbind (directory_identity verified_identity) (\<lambda>_.
     rbind (directory_identity verified_parent_identity) (\<lambda>_.
     rbind (require (fld ''type'' intent = JStr (u ''publish_intent'') \<and>
         py_eq (fld ''directory_identity'' (fld ''publication'' intent)) verified_identity \<and>
         py_eq (fld ''parent_identity'' intent) verified_parent_identity \<and>
         py_eq (fld ''manifest_sha256'' b) verified_manifest)
       (Error ''publication_recovery_conflict'')) (\<lambda>_.
     Inr (fld ''publication'' intent)))))))"

section \<open>What the checks establish\<close>

lemmas check_defs = check_object_def check_text_def check_digest_def check_identifier_def

definition binding_ok :: "json \<Rightarrow> bool" where
  "binding_ok b \<longleftrightarrow> has_keys b binding_fields \<and> fld ''protocol_version'' b = protocol_version \<and>
     fld ''direction'' b \<in> set [JStr (u ''push''), JStr (u ''pull'')] \<and> is_identifier (fld ''transfer_id'' b) \<and>
     list_all (\<lambda>k. is_text 256 (fld k b)) [''vm_uuid'', ''boot_identity'', ''vm_epoch'', ''policy_id''] \<and>
     is_count (fld ''package_size'' b) \<and>
     list_all (\<lambda>k. is_digest (fld k b)) [''request_digest'', ''package_sha256'', ''manifest_sha256'']"

lemma validate_binding_iff [result_iff]: "validate_binding b = Inr b' \<longleftrightarrow> b' = b \<and> binding_ok b"
  unfolding validate_binding_def binding_ok_def check_defs
  by (auto simp: rbind_Inr_iff for_each_Inr_iff require_Inr_iff)

definition dest_ok :: "json \<Rightarrow> json \<Rightarrow> bool" where
  "dest_ok direction d \<longleftrightarrow> has_keys d [''endpoint'', ''identity'', ''canonical_path''] \<and>
     fld ''endpoint'' d = JStr (u (if direction = JStr (u ''pull'') then ''host'' else ''guest'')) \<and>
     is_text 32767 (fld ''canonical_path'' d) \<and> is_obj (fld ''identity'' d) \<and>
     items (fld ''identity'' d) \<noteq> [] \<and> length (items (fld ''identity'' d)) \<le> 16 \<and>
     list_all (\<lambda>(k, v). is_text 128 (JStr k) \<and> is_text 256 v) (items (fld ''identity'' d))"

lemma validate_destination_iff [result_iff]:
  "validate_destination d direction = Inr d' \<longleftrightarrow> d' = d \<and> dest_ok direction d"
  unfolding validate_destination_def dest_ok_def check_defs Let_def
  by (auto simp: rbind_Inr_iff for_each_Inr_iff require_Inr_iff list_all_iff)

definition dir_ok :: "json \<Rightarrow> bool" where
  "dir_ok v \<longleftrightarrow> has_keys v [''device'', ''inode''] \<and> is_count (fld ''device'' v) \<and> is_count (fld ''inode'' v)"

lemma directory_identity_iff [result_iff]: "directory_identity v = Inr x \<longleftrightarrow> dir_ok v"
  by (auto simp: directory_identity_def dir_ok_def check_defs require_Inr_iff)

definition prepare_ok :: "json \<Rightarrow> json \<Rightarrow> bool" where
  "prepare_ok b r \<longleftrightarrow> binding_ok b \<and>
     has_keys r [''type'', ''binding'', ''prepare_id'', ''identity_digest'', ''prepared''] \<and>
     binding_ok (fld ''binding'' r) \<and> fld ''type'' r = JStr (u ''prepare'') \<and> py_eq (fld ''binding'' r) b \<and>
     fld ''prepared'' r = JBool True \<and> is_identifier (fld ''prepare_id'' r) \<and> is_digest (fld ''identity_digest'' r)"

lemma validate_prepare_iff [result_iff]: "validate_prepare r b = Inr x \<longleftrightarrow> prepare_ok b r"
  by (auto simp: validate_prepare_def prepare_ok_def check_defs rbind_Inr_iff validate_binding_iff require_Inr_iff)

definition source_validation_ok :: "json \<Rightarrow> json \<Rightarrow> json \<Rightarrow> bool" where
  "source_validation_ok b p r \<longleftrightarrow> prepare_ok b p \<and>
     has_keys r [''type'', ''binding'', ''prepare_receipt_sha256'', ''identity_digest''] \<and>
     binding_ok (fld ''binding'' r) \<and> fld ''direction'' b = JStr (u ''push'') \<and>
     fld ''type'' r = JStr (u ''source_validation'') \<and> py_eq (fld ''binding'' r) b \<and>
     (\<exists>h. receipt_digest p = Inr h \<and> fld ''prepare_receipt_sha256'' r = JStr h) \<and>
     is_digest (fld ''identity_digest'' r)"

lemma validate_source_validation_iff [result_iff]:
  "validate_source_validation r b p = Inr x \<longleftrightarrow> source_validation_ok b p r"
  by (auto simp: validate_source_validation_def source_validation_ok_def check_defs rbind_Inr_iff
      validate_prepare_iff validate_binding_iff require_Inr_iff)

definition publication_ok :: "json \<Rightarrow> json \<Rightarrow> json \<Rightarrow> json \<Rightarrow> bool" where
  "publication_ok b p d r \<longleftrightarrow> prepare_ok b p \<and> dest_ok (fld ''direction'' b) d \<and>
     has_keys r publication_fields \<and> binding_ok (fld ''binding'' r) \<and>
     dest_ok (fld ''direction'' b) (fld ''destination'' r) \<and> fld ''type'' r = JStr (u ''publication'') \<and>
     py_eq (fld ''binding'' r) b \<and>
     (\<exists>h. receipt_digest p = Inr h \<and> fld ''prepare_receipt_sha256'' r = JStr h) \<and>
     py_eq (fld ''destination'' r) d \<and> py_eq (fld ''manifest_sha256'' r) (fld ''manifest_sha256'' b) \<and>
     dir_ok (fld ''directory_identity'' r) \<and> is_identifier (fld ''publication_id'' r)"

lemma validate_publication_iff [result_iff]:
  "validate_publication r b p d = Inr x \<longleftrightarrow> publication_ok b p d r"
  by (auto simp: validate_publication_def publication_ok_def check_defs rbind_Inr_iff validate_prepare_iff
      validate_binding_iff validate_destination_iff directory_identity_iff require_Inr_iff)

section \<open>Plain values\<close>

text \<open>
  Bindings, destinations and directory identities hold only texts and integers. On such values
  Python's \<open>==\<close> is equality up to the order of keys, so equal values have equal digests.
\<close>

fun plain :: "json \<Rightarrow> bool" where
  "plain (JBool b) = False"
| "plain (JFloat f) = False"
| "plain (JList xs) = list_all plain xs"
| "plain (JObj kvs) = list_all (\<lambda>(k, v). plain v) kvs"
| "plain v = True"

lemma plain_no_nan: "plain v \<Longrightarrow> no_nan v"
  by (induction v rule: json_induct) (auto simp: list_all_iff)

lemma py_eq_plain_sort:
  "py_eq v w \<Longrightarrow> plain v \<Longrightarrow> plain w \<Longrightarrow> wf_json v \<Longrightarrow> wf_json w \<Longrightarrow> sort_json v = sort_json w"
proof (induction v arbitrary: w rule: json_induct)
  case (Int i)
  then show ?case by (cases w) auto
next
  case (List xs)
  then obtain ys where w: "w = JList ys" by (cases w) auto
  with List.prems have "list_all2 py_eq xs ys" by simp
  then have "map sort_json xs = map sort_json ys"
    using List w by (auto simp: list_all2_conv_all_nth list_all_length intro!: nth_equalityI)
  with w show ?case by simp
next
  case (Obj xs)
  then obtain ys where w: "w = JObj ys" by (cases w) auto
  let ?f = "\<lambda>(k, v). (k, sort_json v)"
  have dist: "distinct (map fst xs)" "distinct (map fst ys)" and len: "length xs = length ys"
    using Obj.prems w by auto
  have sub: "(k, sort_json v) \<in> ?f ` set ys" if "(k, v) \<in> set xs" for k v
  proof -
    from Obj.prems w that obtain v' where "map_of ys k = Some v'" "py_eq v v'"
      by (fastforce simp: list_all_pairs split: option.splits)
    moreover from this have "(k, v') \<in> set ys" by (simp add: map_of_SomeD)
    moreover from this calculation have "sort_json v = sort_json v'"
      using Obj.IH [OF that, of v'] Obj.prems w that by (auto simp: list_all_pairs)
    ultimately show ?thesis by force
  qed
  have fst_map: "map fst (map ?f zs) = map fst zs" for zs :: "(pystr \<times> json) list" by auto
  have dist': "distinct (map fst (map ?f xs))" "distinct (map fst (map ?f ys))"
    unfolding fst_map by (rule dist)+
  have "card (set (map ?f xs)) = card (set (map ?f ys))"
    using dist' len by (simp only: distinct_map distinct_card length_map)
  moreover have "set (map ?f xs) \<subseteq> set (map ?f ys)" using sub by auto
  ultimately have eq: "set (map ?f xs) = set (map ?f ys)" by (simp add: card_subset_eq)
  have "sort_key fst (map ?f xs) = sort_key fst (map ?f ys)"
  proof (rule map_sorted_distinct_set_unique)
    show "inj_on fst (set (sort_key fst (map ?f xs)) \<union> set (sort_key fst (map ?f ys)))"
      using dist' eq by (simp only: set_sort Un_absorb distinct_map)
    show "distinct (map fst (sort_key fst (map ?f xs)))" "distinct (map fst (sort_key fst (map ?f ys)))"
      using dist' by (simp_all only: distinct_map distinct_sort set_sort)
  qed (use eq in \<open>simp_all only: set_sort sorted_sort_key\<close>)
  with w show ?case by simp
qed (use py_eq.simps in auto)

lemma plain_fields:
  assumes "has_keys v ks" and "wf_json v" and "\<And>k. k \<in> set ks \<Longrightarrow> plain (fld k v)"
  shows "plain v"
proof -
  from assms(1) obtain kvs where v: "v = JObj kvs" by (auto simp: has_keys_def is_obj_iff)
  have "plain w" if "(k, w) \<in> set kvs" for k w
    using has_keys_values [OF assms(1) v that assms(2)] assms(3) by auto
  then show ?thesis by (auto simp: v list_all_iff)
qed

lemma plain_checks: "is_text n v \<Longrightarrow> plain v" "is_digest v \<Longrightarrow> plain v" "is_identifier v \<Longrightarrow> plain v" "is_count v \<Longrightarrow> plain v"
  by (cases v; simp add: is_count_def)+

lemma binding_plain:
  assumes "binding_ok b" and "wf_json b"
  shows "plain b"
proof (rule plain_fields)
  show "has_keys b binding_fields" using assms(1) by (simp add: binding_ok_def)
  have "plain (fld ''direction'' b)" "plain (fld ''protocol_version'' b)"
    using assms(1) by (auto simp: binding_ok_def protocol_version_def)
  moreover have "plain (fld k b)"
    if "k \<in> set [''vm_uuid'', ''boot_identity'', ''vm_epoch'', ''policy_id'']" for k
    using assms(1) that by (intro plain_checks(1) [of 256]) (simp only: binding_ok_def list_all_iff)
  moreover have "plain (fld k b)"
    if "k \<in> set [''request_digest'', ''package_sha256'', ''manifest_sha256'']" for k
    using assms(1) that by (intro plain_checks(2)) (simp only: binding_ok_def list_all_iff)
  moreover have "plain (fld ''transfer_id'' b)" "plain (fld ''package_size'' b)"
    using assms(1) plain_checks(3) [of "fld ''transfer_id'' b"] plain_checks(4) [of "fld ''package_size'' b"]
    by (simp_all add: binding_ok_def)
  ultimately show "plain (fld k b)" if "k \<in> set binding_fields" for k
    using that unfolding binding_fields_def by (simp; elim disjE; simp)
qed (rule assms)

lemma dest_plain:
  assumes "dest_ok dir d" and "wf_json d"
  shows "plain d"
proof (rule plain_fields)
  show "has_keys d [''endpoint'', ''identity'', ''canonical_path'']" using assms(1) by (simp add: dest_ok_def)
  obtain kvs where kvs: "fld ''identity'' d = JObj kvs" using assms(1) by (auto simp: dest_ok_def is_obj_iff)
  with assms(1) have "plain v" if "(k, v) \<in> set kvs" for k v
    using that by (intro plain_checks(1) [of 256]) (auto simp: dest_ok_def list_all_iff)
  with kvs have "plain (fld ''identity'' d)" by (auto simp: list_all_iff)
  moreover have "plain (fld ''canonical_path'' d)" "plain (fld ''endpoint'' d)"
    using assms(1) plain_checks(1) [of 32767 "fld ''canonical_path'' d"] by (auto simp: dest_ok_def)
  ultimately show "plain (fld k d)" if "k \<in> set [''endpoint'', ''identity'', ''canonical_path'']" for k
    using that by (simp; elim disjE; simp)
qed (rule assms)

lemma dir_plain: "dir_ok v \<Longrightarrow> wf_json v \<Longrightarrow> plain v"
  using plain_checks(4) [of "fld k v" for k]
  by (intro plain_fields [of v "[''device'', ''inode'']"]) (simp_all add: dir_ok_def, elim disjE, simp_all)

lemma plain_refl: "plain v \<Longrightarrow> wf_json v \<Longrightarrow> py_eq v v"
  by (simp add: plain_no_nan py_eq_refl)

lemma is_digest_refl: "is_digest v \<Longrightarrow> py_eq v v"
  by (cases v) auto

lemma receipt_digest_hex: "receipt_digest r = Inr h \<Longrightarrow> is_hex64 h"
  by (auto simp: receipt_digest_def dest: sha.dig_hex)

section \<open>Constructors return what validators accept\<close>

lemma same_keys [simp]:
  "same_set [''type'', ''binding'', ''prepare_id'', ''identity_digest'', ''prepared'']
    [''type'', ''binding'', ''prepare_id'', ''identity_digest'', ''prepared'']"
  "same_set publication_fields publication_fields"
  by (simp_all add: same_set_def publication_fields_def)

definition the_prepare :: "json \<Rightarrow> json \<Rightarrow> json \<Rightarrow> json" where
  "the_prepare b idg pid = obj [(''type'', JStr (u ''prepare'')), (''binding'', b), (''prepare_id'', pid),
     (''identity_digest'', idg), (''prepared'', JBool True)]"

lemma prepare_receipt_iff:
  assumes "wf_json b"
  shows "prepare_receipt fresh b idg pid = Inr r \<longleftrightarrow>
    binding_ok b \<and> is_digest idg \<and> is_identifier (chosen_id pid fresh) \<and> r = the_prepare b idg (chosen_id pid fresh)"
  using plain_refl [OF binding_plain assms] assms
  by (auto simp: prepare_receipt_def the_prepare_def Let_def check_digest_def validate_binding_iff validate_prepare_iff
      prepare_ok_def rbind_Inr_iff require_Inr_iff)

definition the_publication :: "json \<Rightarrow> pystr \<Rightarrow> json \<Rightarrow> json \<Rightarrow> json \<Rightarrow> json" where
  "the_publication b h d identity pid = obj [(''type'', JStr (u ''publication'')), (''binding'', b),
     (''prepare_receipt_sha256'', JStr h), (''destination'', d), (''manifest_sha256'', fld ''manifest_sha256'' b),
     (''directory_identity'', identity), (''publication_id'', pid)]"

lemma fld_the_publication [simp]:
  "fld ''binding'' (the_publication b h d i q) = b" "fld ''type'' (the_publication b h d i q) = JStr (u ''publication'')"
  "fld ''prepare_receipt_sha256'' (the_publication b h d i q) = JStr h"
  "fld ''destination'' (the_publication b h d i q) = d"
  "fld ''manifest_sha256'' (the_publication b h d i q) = fld ''manifest_sha256'' b"
  "fld ''directory_identity'' (the_publication b h d i q) = i"
  "fld ''publication_id'' (the_publication b h d i q) = q"
  "has_keys (the_publication b h d i q) publication_fields"
  by (simp_all add: the_publication_def) (simp add: publication_fields_def same_set_def)

lemma publication_receipt_iff:
  assumes "wf_json b" and "wf_json d"
  shows "publication_receipt fresh b p d identity pid = Inr r \<longleftrightarrow>
    prepare_ok b p \<and> dest_ok (fld ''direction'' b) d \<and> dir_ok identity \<and> is_identifier (chosen_id pid fresh) \<and>
    (\<exists>h. receipt_digest p = Inr h \<and> r = the_publication b h d identity (chosen_id pid fresh))"
proof -
  have pub: "publication_ok b p d (the_publication b h d identity q) \<longleftrightarrow> dir_ok identity \<and> is_identifier q"
    if "prepare_ok b p" "dest_ok (fld ''direction'' b) d" "receipt_digest p = Inr h" for h q
  proof -
    have b: "binding_ok b" using that by (simp add: prepare_ok_def)
    then have "is_digest (fld ''manifest_sha256'' b)" by (simp add: binding_ok_def)
    with that b show ?thesis
      using plain_refl [OF binding_plain assms(1)] plain_refl [OF dest_plain assms(2)] assms is_digest_refl
      by (auto simp: publication_ok_def)
  qed
  show ?thesis
    by (auto simp: publication_receipt_def Let_def validate_prepare_iff validate_destination_iff
        directory_identity_iff rbind_Inr_iff validate_publication_iff the_publication_def [symmetric] pub)
qed

lemma publication_receipt_ok:
  assumes "wf_json b" and "wf_json d" and "publication_receipt fresh b p d identity pid = Inr r"
  shows "publication_ok b p d r"
proof -
  from assms(3) have "validate_publication r b p d = Inr ()"
    by (auto simp: publication_receipt_def Let_def rbind_Inr_iff)
  then show ?thesis by (simp add: validate_publication_iff)
qed

lemma source_validation_receipt_ok:
  assumes "wf_json b" and "source_validation_receipt b p idg = Inr r"
  shows "source_validation_ok b p r"
proof -
  from assms(2) obtain h where "prepare_ok b p" "fld ''direction'' b = JStr (u ''push'')" "is_digest idg"
    "receipt_digest p = Inr h" and r: "r = obj [(''type'', JStr (u ''source_validation'')), (''binding'', b),
       (''prepare_receipt_sha256'', JStr h), (''identity_digest'', idg)]"
    by (auto simp: source_validation_receipt_def check_digest_def result_iff)
  moreover from this have "binding_ok b" by (simp add: prepare_ok_def)
  ultimately show ?thesis
    using plain_refl [OF binding_plain assms(1)] assms(1)
    by (simp add: source_validation_ok_def r same_set_def)
qed

section \<open>Crash recovery of a publication\<close>

lemma recover_publication_iff:
  "recover_publication intent b p d vi vp vm = Inr r \<longleftrightarrow>
     has_keys intent [''type'', ''publication'', ''parent_identity''] \<and> r = fld ''publication'' intent \<and>
     publication_ok b p d r \<and> dir_ok (fld ''parent_identity'' intent) \<and> dir_ok vi \<and> dir_ok vp \<and>
     fld ''type'' intent = JStr (u ''publish_intent'') \<and> py_eq (fld ''directory_identity'' r) vi \<and>
     py_eq (fld ''parent_identity'' intent) vp \<and> py_eq (fld ''manifest_sha256'' b) vm"
  by (auto simp: recover_publication_def check_object_def result_iff)

lemma publish_intent_iff:
  "publish_intent fresh b p d si pi pid = Inr intent \<longleftrightarrow>
    (\<exists>r. publication_receipt fresh b p d si pid = Inr r \<and> dir_ok pi \<and>
      intent = obj [(''type'', JStr (u ''publish_intent'')), (''publication'', r), (''parent_identity'', pi)])"
  by (auto simp: publish_intent_def rbind_Inr_iff directory_identity_iff)

lemma intent_recovers:
  assumes "wf_json b" and "wf_json d" and "publish_intent fresh b p d si pi pid = Inr intent"
  shows "recover_publication intent b p d vi vp vm = Inr r \<longleftrightarrow>
    publication_receipt fresh b p d si pid = Inr r \<and> dir_ok vi \<and> dir_ok vp \<and> py_eq si vi \<and> py_eq pi vp \<and>
    py_eq (fld ''manifest_sha256'' b) vm"
proof -
  from assms(3) obtain q where q: "publication_receipt fresh b p d si pid = Inr q" "dir_ok pi" and
    intent: "intent = obj [(''type'', JStr (u ''publish_intent'')), (''publication'', q), (''parent_identity'', pi)]"
    by (auto simp: publish_intent_iff)
  from publication_receipt_iff [OF assms(1,2)] q have "fld ''directory_identity'' q = si" by auto
  moreover have "publication_ok b p d q" using assms q publication_receipt_ok by blast
  ultimately show ?thesis
    using q by (auto simp: recover_publication_iff intent same_set_def)
qed

text \<open>Two dictionaries with the same documented keys are equal when the fields are.\<close>

lemma py_eq_has_keys:
  assumes "has_keys v ks" "has_keys w ks" "wf_json v" "wf_json w"
  shows "py_eq v w \<longleftrightarrow> (\<forall>k \<in> set ks. py_eq (fld k v) (fld k w))"
proof -
  obtain xs ys where v: "v = JObj xs" and w: "w = JObj ys"
    using assms by (auto simp: has_keys_def is_obj_iff)
  have len: "length zs = card (u ` set ks)" if "has_keys (JObj zs) ks" "wf_json (JObj zs)" for zs
    using that distinct_card [of "map fst zs"] by (simp add: has_keys_def same_set_iff)
  have at: "map_of ys (u k) = Some (fld k w)" "(u k, fld k v) \<in> set xs" if "k \<in> set ks" for k
    using that has_keys_dget [of w ks k] has_keys_dget [of v ks k] assms by (auto simp: v w dest: map_of_SomeD)
  have "py_eq v w \<longleftrightarrow> (\<forall>(k, x) \<in> set xs. case map_of ys k of None \<Rightarrow> False | Some y \<Rightarrow> py_eq x y)"
    using assms len [of xs] len [of ys] by (simp add: v w list_all_iff)
  also have "\<dots> \<longleftrightarrow> (\<forall>k \<in> set ks. py_eq (fld k v) (fld k w))" (is "?l = ?r")
  proof
    assume ?l
    then show ?r using at by fastforce
  next
    assume r: ?r
    have "case map_of ys k of None \<Rightarrow> False | Some y \<Rightarrow> py_eq x y" if "(k, x) \<in> set xs" for k x
      using has_keys_values [OF assms(1) v that assms(3)] r at by auto
    then show ?l by blast
  qed
  finally show ?thesis .
qed

lemma is_count_eq: "is_count x \<Longrightarrow> is_count y \<Longrightarrow> py_eq x y \<longleftrightarrow> x = y"
  by (cases x; cases y) (auto simp: is_count_def)

lemma dir_eq_iff:
  assumes "dir_ok v" "dir_ok w" "wf_json v" "wf_json w"
  shows "py_eq v w \<longleftrightarrow> fld ''device'' v = fld ''device'' w \<and> fld ''inode'' v = fld ''inode'' w"
  using assms by (simp add: py_eq_has_keys [of _ "[''device'', ''inode'']"] dir_ok_def is_count_eq)

section \<open>What a receipt binds\<close>

lemma plain_floats: "plain v \<Longrightarrow> floats_ok pf v"
  by (induction v rule: json_induct) (auto simp: list_all_iff)

lemma floats_ok_fields:
  assumes "has_keys v ks" and "wf_json v" and "\<And>k. k \<in> set ks \<Longrightarrow> floats_ok pf (fld k v)"
  shows "floats_ok pf v"
proof -
  from assms(1) obtain kvs where v: "v = JObj kvs" by (auto simp: has_keys_def is_obj_iff)
  have "floats_ok pf w" if "(k, w) \<in> set kvs" for k w
    using has_keys_values [OF assms(1) v that assms(2)] assms(3) by auto
  then show ?thesis by (auto simp: v list_all_iff)
qed

lemma prepare_floats:
  assumes "prepare_ok b p" and "wf_json p"
  shows "floats_ok pf p"
proof (rule floats_ok_fields)
  show "has_keys p [''type'', ''binding'', ''prepare_id'', ''identity_digest'', ''prepared'']"
    using assms(1) by (simp add: prepare_ok_def)
  have "plain (fld ''binding'' p)" "plain (fld ''prepare_id'' p)" "plain (fld ''identity_digest'' p)" "plain (fld ''type'' p)"
    using assms binding_plain [of "fld ''binding'' p"] plain_checks(2,3) by (auto simp: prepare_ok_def wf_json_fld)
  moreover have "fld ''prepared'' p = JBool True" using assms(1) by (simp add: prepare_ok_def)
  ultimately show "floats_ok pf (fld k p)"
    if "k \<in> set [''type'', ''binding'', ''prepare_id'', ''identity_digest'', ''prepared'']" for k
    using that by (simp; elim disjE; simp add: plain_floats)
qed (rule assms)

lemma digest_json_same:
  assumes "digest_json v = Inr h" and "digest_json w = Inr h" and "wf_json v" and "wf_json w"
    and "floats_ok pf v" and "floats_ok pf w"
  shows "sort_json v = sort_json w \<or> (\<exists>bs cs. bs \<noteq> cs \<and> sha256_hex bs = sha256_hex cs)"
proof -
  obtain bs cs where "canonical_json v = Inr bs" "canonical_json w = Inr cs" "sha256_hex bs = sha256_hex cs"
    using assms by (auto simp: digest_json_def rbind_Inr_iff)
  then show ?thesis using assms canonical_json_inject by (cases "bs = cs") blast+
qed

lemma py_eq_plain_trans:
  assumes "py_eq x v" and "py_eq x w" and "plain x" and "plain v" and "plain w"
    and "wf_json x" and "wf_json v" and "wf_json w"
  shows "sort_json v = sort_json w"
  using assms py_eq_plain_sort [of x v] py_eq_plain_sort [of x w] by simp

lemma publication_ok_binds:
  assumes "publication_ok b p d r" and "publication_ok b' p' d' r"
    and wf: "wf_json r" "wf_json b" "wf_json b'" "wf_json d" "wf_json d'" "wf_json p" "wf_json p'"
  shows "sort_json b = sort_json b' \<and> sort_json d = sort_json d' \<and>
    (sort_json p = sort_json p' \<or> (\<exists>bs cs. bs \<noteq> cs \<and> sha256_hex bs = sha256_hex cs))"
proof -
  let ?rb = "fld ''binding'' r" and ?rd = "fld ''destination'' r"
  have ok: "prepare_ok b p" "prepare_ok b' p'" "binding_ok b" "binding_ok b'" "binding_ok ?rb"
    "dest_ok (fld ''direction'' b) d" "dest_ok (fld ''direction'' b') d'" "dest_ok (fld ''direction'' b) ?rd"
    "py_eq ?rb b" "py_eq ?rb b'" "py_eq ?rd d" "py_eq ?rd d'"
    using assms(1,2) by (simp_all add: publication_ok_def prepare_ok_def)
  have "sort_json b = sort_json b'"
    using ok wf by (intro py_eq_plain_trans [of ?rb]) (simp_all add: binding_plain wf_json_fld)
  moreover have "sort_json d = sort_json d'"
    using ok wf by (intro py_eq_plain_trans [of ?rd]) (auto simp: dest_plain wf_json_fld)
  moreover obtain h where "digest_json p = Inr h" "digest_json p' = Inr h"
    using assms(1,2) by (auto simp: publication_ok_def receipt_digest_def)
  ultimately show ?thesis
    using digest_json_same [of p h p' "\<lambda>_. FloatNan"] ok wf by (simp add: prepare_floats)
qed

section \<open>Properties\<close>

definition sample_binding :: "string \<Rightarrow> json" where
  "sample_binding dir = obj [(''protocol_version'', protocol_version), (''transfer_id'', JStr (u ''t1'')),
     (''request_digest'', JStr (replicate 64 48)), (''direction'', JStr (u dir)), (''vm_uuid'', JStr (u ''vm'')),
     (''boot_identity'', JStr (u ''boot'')), (''vm_epoch'', JStr (u ''e'')), (''policy_id'', JStr (u ''p'')),
     (''package_size'', JInt 5), (''package_sha256'', JStr (replicate 64 49)), (''manifest_sha256'', JStr (replicate 64 50))]"

definition sample_destination :: "string \<Rightarrow> json" where
  "sample_destination dir = obj [(''endpoint'', JStr (u (if dir = ''pull'' then ''host'' else ''guest''))),
     (''identity'', obj [(''root'', JStr (u ''downloads''))]), (''canonical_path'', JStr (u ''C:/out''))]"

definition sample_dir :: "int \<Rightarrow> json" where
  "sample_dir n = obj [(''device'', JInt 1), (''inode'', JInt n)]"

lemma hex64_sample [simp]: "48 \<le> c \<Longrightarrow> c \<le> 57 \<Longrightarrow> is_hex64 (replicate 64 c)"
  by (simp add: is_hex64_def list_all_iff is_hex_digit_def is_digit_def)

lemma wf_sample [simp]: "wf_json (sample_binding dir)" "wf_json (sample_destination dir)" "wf_json (sample_dir n)"
  by (simp_all add: sample_binding_def sample_destination_def sample_dir_def wf_json_obj protocol_version_def)
     (simp_all add: wf_str_def list_all_iff)

lemma sample_binding_ok: "dir = ''push'' \<or> dir = ''pull'' \<Longrightarrow> binding_ok (sample_binding dir)"
  by (auto simp: binding_ok_def sample_binding_def binding_fields_def same_set_def is_count_def u_def is_id_def text_simps)

lemma sample_dest_ok: "dest_ok (JStr (u ''pull'')) (sample_destination ''pull'')"
  by (simp add: dest_ok_def sample_destination_def same_set_def) (simp add: obj_def u_def)

lemma sample_dir_ok: "0 \<le> n \<Longrightarrow> dir_ok (sample_dir n)"
  by (simp add: dir_ok_def sample_dir_def same_set_def is_count_def)

definition sample_prepare :: "string \<Rightarrow> json" where
  "sample_prepare dir = the_prepare (sample_binding dir) (JStr (replicate 64 51)) (JStr (u ''prep1''))"

lemma sample_prepare_ok: "dir = ''push'' \<or> dir = ''pull'' \<Longrightarrow> prepare_ok (sample_binding dir) (sample_prepare dir)"
  using sample_binding_ok [of dir]
  by (simp add: prepare_ok_def sample_prepare_def the_prepare_def plain_refl binding_plain)
     (simp add: is_id_def u_def text_simps)

lemma wf_sample_prepare [simp]: "wf_json (sample_prepare dir)"
  by (simp add: sample_prepare_def the_prepare_def wf_json_obj) (simp add: wf_str_def list_all_iff)

lemma sample_prepare_digest: "\<exists>h. receipt_digest (sample_prepare ''pull'') = Inr h"
proof -
  have ser: "dumpable (sample_prepare ''pull'')" "text_ok (sample_prepare ''pull'')"
    by (simp_all add: sample_prepare_def the_prepare_def sample_binding_def obj_def protocol_version_def
        no_surrogate_def is_surrogate_def u_def int_printable_def int_max_str_digits_def dec_digits.simps list_all_iff)
  then have "list_all is_scalar (dumps (sort_json (sample_prepare ''pull'')))"
    by (subst scalar_dumps) (simp_all add: sort_json_invariants sort_json_measures)
  with ser show ?thesis
    by (simp add: receipt_digest_def digest_json_def result_iff canonical_json_Inr)
qed

definition sample_prepare_hash :: pystr where
  "sample_prepare_hash = (case receipt_digest (sample_prepare ''pull'') of Inr h \<Rightarrow> h | Inl _ \<Rightarrow> [])"

definition sample_publication :: json where
  "sample_publication = the_publication (sample_binding ''pull'') sample_prepare_hash (sample_destination ''pull'')
     (sample_dir 7) (JStr (u ''pub1''))"

lemma sample_publication_receipt:
  "publication_receipt (u ''f'') (sample_binding ''pull'') (sample_prepare ''pull'') (sample_destination ''pull'')
     (sample_dir 7) (JStr (u ''pub1'')) = Inr sample_publication"
proof -
  obtain h where "receipt_digest (sample_prepare ''pull'') = Inr h" using sample_prepare_digest by blast
  moreover have "fld ''direction'' (sample_binding ''pull'') = JStr (u ''pull'')" by (simp add: sample_binding_def)
  ultimately show ?thesis
    by (simp add: publication_receipt_iff sample_prepare_ok sample_dest_ok sample_dir_ok chosen_id_def
        sample_publication_def sample_prepare_hash_def) (simp add: is_id_def u_def text_simps)
qed

text \<open>
  C10: after a crash between the durable publish intent and its completion, recovery hands back
  the publication receipt of the intent exactly when the directory found under the destination
  has the device and inode of the staged directory, its parent those of the recorded parent, and
  the verified manifest digest is the one of the binding; any other directory is refused.
\<close>

theorem publish_intent_recovery:
  assumes "wf_json b" and "wf_json d" and "wf_json si" and "wf_json pi" and "wf_json vi" and "wf_json vp"
    and "publish_intent fresh b p d si pi pid = Inr intent" and "dir_ok vi" and "dir_ok vp"
  shows "recover_publication intent b p d vi vp vm = Inr r \<longleftrightarrow>
    r = fld ''publication'' intent \<and>
    fld ''device'' vi = fld ''device'' si \<and> fld ''inode'' vi = fld ''inode'' si \<and>
    fld ''device'' vp = fld ''device'' pi \<and> fld ''inode'' vp = fld ''inode'' pi \<and>
    vm = fld ''manifest_sha256'' b"
proof -
  obtain q where q: "publication_receipt fresh b p d si pid = Inr q" "dir_ok pi" "fld ''publication'' intent = q"
    using assms(7) by (auto simp: publish_intent_iff)
  then have "dir_ok si" "binding_ok b"
    by (auto simp: publication_receipt_iff [OF assms(1,2)] prepare_ok_def)
  moreover from this(2) have "is_digest (fld ''manifest_sha256'' b)" by (simp add: binding_ok_def)
  then have "py_eq (fld ''manifest_sha256'' b) vm \<longleftrightarrow> vm = fld ''manifest_sha256'' b"
    by (cases "fld ''manifest_sha256'' b") auto
  ultimately show ?thesis
    using q assms by (auto simp: intent_recovers [OF assms(1,2,7)] dir_eq_iff)
qed

theorem publish_intent_recovery_witness:
  "recover_publication (obj [(''type'', JStr (u ''publish_intent'')), (''publication'', sample_publication),
       (''parent_identity'', sample_dir 2)])
     (sample_binding ''pull'') (sample_prepare ''pull'') (sample_destination ''pull'') (sample_dir 7) (sample_dir 2)
     (JStr (replicate 64 50)) = Inr sample_publication"
proof (subst publish_intent_recovery [where si = "sample_dir 7" and pi = "sample_dir 2" and fresh = "u ''f''"
      and pid = "JStr (u ''pub1'')"])
  show "publish_intent (u ''f'') (sample_binding ''pull'') (sample_prepare ''pull'') (sample_destination ''pull'')
      (sample_dir 7) (sample_dir 2) (JStr (u ''pub1'')) =
    Inr (obj [(''type'', JStr (u ''publish_intent'')), (''publication'', sample_publication),
       (''parent_identity'', sample_dir 2)])"
    by (simp add: publish_intent_iff sample_publication_receipt sample_dir_ok)
qed (simp_all add: sample_dir_ok, simp add: sample_binding_def)


lemma sample_publication_valid:
  "validate_publication sample_publication (sample_binding ''pull'') (sample_prepare ''pull'')
     (sample_destination ''pull'') = Inr ()"
  using publication_receipt_ok [OF _ _ sample_publication_receipt] by (simp add: validate_publication_iff)

lemma wf_sample_publication [simp]: "wf_json sample_publication"
proof -
  have "is_hex64 sample_prepare_hash"
    using sample_prepare_digest receipt_digest_hex by (auto simp: sample_prepare_hash_def)
  then have "wf_str sample_prepare_hash" by (auto simp: is_hex64_def wf_str_def list_all_iff text_simps)
  then show ?thesis by (simp add: sample_publication_def the_publication_def wf_json_obj wf_json_fld)
qed


text \<open>
  The receipt constructors never issue a receipt that their validator would refuse, and they
  fail only on bad input: \<open>publication_receipt\<close> succeeds exactly for a valid prepare receipt with
  a digest, a valid destination, a valid directory identity and a well-formed identifier, and
  returns the dictionary with exactly these facts.
\<close>

theorem publication_receipt_total:
  assumes "wf_json b" and "wf_json d"
  shows "publication_receipt fresh b p d identity pid = Inr r \<longleftrightarrow>
    validate_prepare p b = Inr () \<and> validate_destination d (fld ''direction'' b) = Inr d \<and>
    directory_identity identity = Inr () \<and> is_identifier (chosen_id pid fresh) \<and>
    validate_publication r b p d = Inr () \<and>
    (\<exists>h. receipt_digest p = Inr h \<and> r = the_publication b h d identity (chosen_id pid fresh))"
  using publication_receipt_iff [OF assms, of fresh p identity pid r] publication_receipt_ok [OF assms, of fresh p identity pid r]
  by (auto simp: validate_prepare_iff validate_destination_iff directory_identity_iff validate_publication_iff)

theorem publication_receipt_total_witness:
  "publication_receipt (u ''f'') (sample_binding ''pull'') (sample_prepare ''pull'') (sample_destination ''pull'')
     (sample_dir 7) (JStr (u ''pub1'')) = Inr sample_publication \<and>
   validate_publication sample_publication (sample_binding ''pull'') (sample_prepare ''pull'')
     (sample_destination ''pull'') = Inr ()"
  using publication_receipt_total [of "sample_binding ''pull''" "sample_destination ''pull''" "u ''f''"
      "sample_prepare ''pull''" "sample_dir 7" "JStr (u ''pub1'')" sample_publication] sample_publication_receipt
  by simp

end
