(* ===== verification/Terminal.thy ===== *)
theory Terminal
  imports Protocol
begin

text \<open>
  The guest side terminal state machine: class \<open>GuestTerminal\<close> of
  \<open>src/velo_transfer/protocol.py\<close>, one definition per method with the state passed explicitly.
  Proved: the invariant of every reachable state, irreversibility of an authorised release, the
  replay discipline of actions, and that \<open>restore\<close> accepts a snapshot of every reachable state
  and nothing that the machine could not have produced.
\<close>

section \<open>State\<close>

datatype op_status = IN_PROGRESS | DONE | FAILED

record operation =
  operation_id :: pystr
  input_digest :: pystr
  status :: op_status
  inputs :: json
  result_of :: json

record terminal =
  binding :: json
  destination :: json
  prefix :: string
  local_phase :: string
  prepare :: json
  publication :: json
  release_authorization :: "(pystr \<times> pystr) option"
  operations :: "(string \<times> operation) list"

fun status_text :: "op_status \<Rightarrow> string" where
  "status_text IN_PROGRESS = ''IN_PROGRESS''"
| "status_text DONE = ''DONE''"
| "status_text FAILED = ''FAILED''"

definition op_json :: "operation \<Rightarrow> json" where
  "op_json op = obj [(''operation_id'', JStr (operation_id op)), (''input_digest'', JStr (input_digest op)),
     (''status'', JStr (u (status_text (status op)))), (''inputs'', inputs op), (''result'', result_of op)]"

definition auth_json :: "(pystr \<times> pystr) option \<Rightarrow> json" where
  "auth_json a = (case a of None \<Rightarrow> JNull
     | Some (i, h) \<Rightarrow> obj [(''operation_id'', JStr i), (''publication_receipt_sha256'', JStr h)])"

definition snapshot :: "terminal \<Rightarrow> json" where
  "snapshot s = obj [(''schema'', JStr (u ''velo.transfer.guest_terminal.v1'')), (''binding'', binding s),
     (''destination'', destination s), (''local_phase'', JStr (u (local_phase s))),
     (''prepare_receipt'', prepare s), (''publication_receipt'', publication s),
     (''release_authorization'', auth_json (release_authorization s)),
     (''operations'', obj (map (\<lambda>(a, op). (a, op_json op)) (operations s)))]"

section \<open>Operations\<close>

definition guest_terminal :: "json \<Rightarrow> json \<Rightarrow> terminal result" where
  "guest_terminal b d =
     rbind (validate_binding b) (\<lambda>b'.
     rbind (validate_destination d (fld ''direction'' b)) (\<lambda>d'.
     let pre = (if fld ''direction'' b = JStr (u ''pull'') then ''SOURCE'' else ''DEST'') in
     Inr \<lparr>binding = b', destination = d', prefix = pre,
       local_phase = (if pre = ''SOURCE'' then ''SOURCE_READY'' else ''DEST_RECEIVED''),
       prepare = JNull, publication = JNull, release_authorization = None, operations = []\<rparr>))"

definition is_push :: "terminal \<Rightarrow> bool" where
  "is_push s \<longleftrightarrow> fld ''direction'' (binding s) = JStr (u ''push'')"

definition check_inputs :: "terminal \<Rightarrow> string \<Rightarrow> json \<Rightarrow> unit result" where
  "check_inputs s action ins =
     (if action = ''prepare'' then check_object ins [] ''invalid_action_input''
      else if action = ''commit'' then
        rbind (require (is_push s) (Error ''action_not_allowed'')) (\<lambda>_.
        rbind (check_object ins [''prepare_receipt'', ''source_validation_receipt''] ''invalid_action_input'') (\<lambda>_.
        rbind (validate_prepare (fld ''prepare_receipt'' ins) (binding s)) (\<lambda>_.
        rbind (require (py_eq (fld ''prepare_receipt'' ins) (prepare s)) mismatch) (\<lambda>_.
        validate_source_validation (fld ''source_validation_receipt'' ins) (binding s) (prepare s)))))
      else if action = ''release'' then
        rbind (check_object ins [''prepare_receipt'', ''publication_receipt''] ''invalid_action_input'') (\<lambda>_.
        rbind (validate_prepare (fld ''prepare_receipt'' ins) (binding s)) (\<lambda>_.
        rbind (require (py_eq (fld ''prepare_receipt'' ins) (prepare s)) mismatch) (\<lambda>_.
        rbind (validate_publication (fld ''publication_receipt'' ins) (binding s) (prepare s) (destination s)) (\<lambda>_.
        require (is_push s \<longrightarrow> py_eq (fld ''publication_receipt'' ins) (publication s)) mismatch))))
      else Inl (Error ''action_not_allowed''))"

definition expected_phase :: "terminal \<Rightarrow> string \<Rightarrow> string" where
  "expected_phase s action =
     (if action = ''prepare'' then (if prefix s = ''SOURCE'' then ''SOURCE_READY'' else ''DEST_RECEIVED'')
      else if action = ''commit'' then ''DEST_PREPARED''
      else prefix s @ (if prefix s = ''SOURCE'' then ''_PREPARED'' else ''_PUBLISHED''))"

definition action_key :: "terminal \<Rightarrow> string \<Rightarrow> json \<Rightarrow> pystr result" where
  "action_key s action ins =
     digest_json (obj [(''binding'', binding s), (''action'', JStr (u action)), (''inputs'', ins)])"

definition any_in_progress :: "terminal \<Rightarrow> bool" where
  "any_in_progress s \<longleftrightarrow> list_ex (\<lambda>(a, op). status op = IN_PROGRESS) (operations s)"

definition begin_action :: "pystr \<Rightarrow> terminal \<Rightarrow> string \<Rightarrow> json \<Rightarrow> (operation \<times> terminal) result" where
  "begin_action fresh s action ins =
     rbind (check_inputs s action ins) (\<lambda>_.
     rbind (action_key s action ins) (\<lambda>key.
     case map_of (operations s) action of
       Some previous \<Rightarrow>
         if input_digest previous \<noteq> key then Inl (Error ''action_conflict'') else Inr (previous, s)
     | None \<Rightarrow>
         if local_phase s \<noteq> expected_phase s action \<or> any_in_progress s
         then Inl (Error ''action_precondition_failed'')
         else let op = \<lparr>operation_id = fresh, input_digest = key, status = IN_PROGRESS, inputs = ins, result_of = JNull\<rparr>
              in Inr (op, s\<lparr>operations := AList.update action op (operations s)\<rparr>)))"

definition pending :: "terminal \<Rightarrow> string \<Rightarrow> pystr \<Rightarrow> operation result" where
  "pending s action oid = (case map_of (operations s) action of
     None \<Rightarrow> Inl (Error ''operation_mismatch'')
   | Some op \<Rightarrow> if operation_id op \<noteq> oid \<or> status op \<noteq> IN_PROGRESS
                then Inl (Error ''operation_mismatch'') else Inr op)"

definition complete :: "terminal \<Rightarrow> string \<Rightarrow> pystr \<Rightarrow> json \<Rightarrow> terminal result" where
  "complete s action oid res = rbind (pending s action oid) (\<lambda>op.
     Inr (s\<lparr>operations := AList.update action (op\<lparr>result_of := res, status := DONE\<rparr>) (operations s)\<rparr>))"

definition complete_prepare :: "terminal \<Rightarrow> pystr \<Rightarrow> json \<Rightarrow> terminal result" where
  "complete_prepare s oid receipt =
     rbind (pending s ''prepare'' oid) (\<lambda>_.
     rbind (validate_prepare receipt (binding s)) (\<lambda>_.
     complete (s\<lparr>prepare := receipt, local_phase := prefix s @ ''_PREPARED''\<rparr>) ''prepare'' oid
       (obj [(''prepare_receipt'', receipt)])))"

definition complete_commit :: "terminal \<Rightarrow> pystr \<Rightarrow> json \<Rightarrow> terminal result" where
  "complete_commit s oid receipt =
     rbind (pending s ''commit'' oid) (\<lambda>_.
     rbind (require (is_push s) (Error ''action_not_allowed'')) (\<lambda>_.
     rbind (validate_publication receipt (binding s) (prepare s) (destination s)) (\<lambda>_.
     complete (s\<lparr>publication := receipt, local_phase := ''DEST_PUBLISHED''\<rparr>) ''commit'' oid
       (obj [(''publication_receipt'', receipt)]))))"

definition authorize_release :: "terminal \<Rightarrow> pystr \<Rightarrow> ((pystr \<times> pystr) \<times> terminal) result" where
  "authorize_release s oid =
     rbind (pending s ''release'' oid) (\<lambda>op.
     case release_authorization s of
       Some a \<Rightarrow> Inr (a, s)
     | None \<Rightarrow>
         rbind (item ''publication_receipt'' (inputs op)) (\<lambda>receipt.
         rbind (receipt_digest receipt) (\<lambda>h.
         Inr ((oid, h), s\<lparr>publication := receipt, release_authorization := Some (oid, h),
           local_phase := prefix s @ ''_RELEASING''\<rparr>))))"

definition complete_release :: "terminal \<Rightarrow> pystr \<Rightarrow> json \<Rightarrow> terminal result" where
  "complete_release s oid cleanup =
     rbind (pending s ''release'' oid) (\<lambda>_.
     rbind (require (map_option fst (release_authorization s) = Some oid) (Error ''release_not_authorized'')) (\<lambda>_.
     rbind (check_object cleanup [''temporary_files_removed'', ''workers_stopped''] ''invalid_cleanup'') (\<lambda>_.
     rbind (require (fld ''temporary_files_removed'' cleanup = JBool True \<and> fld ''workers_stopped'' cleanup = JBool True)
       (Error ''cleanup_incomplete'')) (\<lambda>_.
     complete (s\<lparr>local_phase := prefix s @ ''_RELEASED''\<rparr>) ''release'' oid
       (obj [(''publication_receipt'', publication s), (''cleanup'', cleanup)])))))"

definition fail_action :: "terminal \<Rightarrow> string \<Rightarrow> pystr \<Rightarrow> json \<Rightarrow> terminal result" where
  "fail_action s action oid code =
     rbind (pending s action oid) (\<lambda>op.
     rbind (check_identifier code) (\<lambda>_.
     rbind (require (release_authorization s = None) (Error ''release_already_authorized'')) (\<lambda>_.
     Inr (s\<lparr>operations := AList.update action (op\<lparr>status := FAILED, result_of := obj [(''error'', code)]\<rparr>) (operations s),
       local_phase := (if prefix s = ''SOURCE'' \<and> code = JStr (u ''source_changed'') then ''SOURCE_CHANGED''
         else prefix s @ ''_FAILED'')\<rparr>))))"

definition status_of :: "terminal \<Rightarrow> json" where
  "status_of s = JObj (items (snapshot s) @ items (obj
     [(''state_scope'', JStr (u (if prefix s = ''SOURCE'' then ''guest_source'' else ''guest_destination''))),
      (''publication_evidence'', if publication s \<noteq> JNull
         then JStr (u (if prefix s = ''SOURCE'' then ''host_reported_publication'' else ''guest_verified_destination''))
         else JNull)]))"

section \<open>Restoring a snapshot\<close>

definition bad_snapshot :: exn where
  "bad_snapshot = Error ''invalid_terminal_snapshot''"

definition snapshot_fields :: "string list" where
  "snapshot_fields = [''schema'', ''binding'', ''destination'', ''local_phase'', ''prepare_receipt'',
     ''publication_receipt'', ''release_authorization'', ''operations'']"

text \<open>\<open>begin_action(action, **saved)\<close>: a keyword that collides with a parameter is a \<open>TypeError\<close>.\<close>

definition begin_with_keywords :: "pystr \<Rightarrow> terminal \<Rightarrow> string \<Rightarrow> json \<Rightarrow> (operation \<times> terminal) result" where
  "begin_with_keywords fresh s action ins =
     rbind (require (u ''self'' \<notin> set (jkeys ins) \<and> u ''action'' \<notin> set (jkeys ins)) (PyError ''TypeError'')) (\<lambda>_.
     begin_action fresh s action ins)"

fun str_of :: "json \<Rightarrow> pystr" where
  "str_of (JStr s) = s"
| "str_of v = []"

definition set_operation_id :: "terminal \<Rightarrow> string \<Rightarrow> pystr \<Rightarrow> terminal" where
  "set_operation_id s action oid = s\<lparr>operations :=
     map (\<lambda>(a, op). if a = action then (a, op\<lparr>operation_id := oid\<rparr>) else (a, op)) (operations s)\<rparr>"

definition replay_outcome :: "json \<Rightarrow> terminal \<Rightarrow> string \<Rightarrow> json \<Rightarrow> terminal result" where
  "replay_outcome auth s action saved =
     (let oid = str_of (fld ''operation_id'' saved); res = fld ''result'' saved in
      if fld ''status'' saved = JStr (u ''FAILED'') then
        rbind (check_object res [''error''] ''invalid_terminal_snapshot'') (\<lambda>_.
        fail_action s action oid (fld ''error'' res))
      else if fld ''status'' saved = JStr (u ''DONE'') then
        (if action = ''prepare'' then
           rbind (check_object res [''prepare_receipt''] ''invalid_terminal_snapshot'') (\<lambda>_.
           complete_prepare s oid (fld ''prepare_receipt'' res))
         else if action = ''commit'' then
           rbind (check_object res [''publication_receipt''] ''invalid_terminal_snapshot'') (\<lambda>_.
           complete_commit s oid (fld ''publication_receipt'' res))
         else
           rbind (check_object res [''publication_receipt'', ''cleanup''] ''invalid_terminal_snapshot'') (\<lambda>_.
           rbind (authorize_release s oid) (\<lambda>(_, s').
           complete_release s' oid (fld ''cleanup'' res))))
      else if fld ''status'' saved = JStr (u ''IN_PROGRESS'') then
        (if action = ''release'' \<and> auth \<noteq> JNull
         then rbind (authorize_release s oid) (\<lambda>(_, s'). Inr s') else Inr s)
      else Inl bad_snapshot)"

definition replay_action :: "pystr \<Rightarrow> json \<Rightarrow> json \<Rightarrow> string \<Rightarrow> terminal \<Rightarrow> terminal result" where
  "replay_action fresh ops auth action s =
     (case dget action ops of
        None \<Rightarrow> Inr s
      | Some saved \<Rightarrow>
          rbind (check_object saved [''operation_id'', ''input_digest'', ''status'', ''inputs'', ''result'']
            ''invalid_terminal_snapshot'') (\<lambda>_.
          rbind (check_identifier (fld ''operation_id'' saved)) (\<lambda>_.
          rbind (require (is_obj (fld ''inputs'' saved)) bad_snapshot) (\<lambda>_.
          rbind (begin_with_keywords fresh s action (fld ''inputs'' saved)) (\<lambda>(started, s1).
          rbind (require (fld ''input_digest'' saved = JStr (input_digest started)) bad_snapshot) (\<lambda>_.
          replay_outcome auth (set_operation_id s1 action (str_of (fld ''operation_id'' saved))) action saved))))))"

definition restore :: "pystr \<Rightarrow> json \<Rightarrow> json \<Rightarrow> json \<Rightarrow> terminal result" where
  "restore fresh snap b d =
     rbind (check_object snap snapshot_fields ''invalid_terminal_snapshot'') (\<lambda>_.
     rbind (guest_terminal b d) (\<lambda>s0.
     rbind (require (fld ''schema'' snap = JStr (u ''velo.transfer.guest_terminal.v1'') \<and>
         py_eq (fld ''binding'' snap) b \<and> py_eq (fld ''destination'' snap) d \<and> is_obj (fld ''operations'' snap) \<and>
         list_all (\<lambda>k. k \<in> set (map u [''prepare'', ''commit'', ''release''])) (jkeys (fld ''operations'' snap)))
       bad_snapshot) (\<lambda>_.
     rbind (fold_res (replay_action fresh (fld ''operations'' snap) (fld ''release_authorization'' snap))
       [''prepare'', ''commit'', ''release''] s0) (\<lambda>s.
     rbind (canonical_json (snapshot s)) (\<lambda>mine.
     rbind (canonical_json snap) (\<lambda>theirs.
     rbind (require (mine = theirs) bad_snapshot) (\<lambda>_. Inr s)))))))"

section \<open>Steps and histories\<close>

inductive terminal_step :: "terminal \<Rightarrow> terminal \<Rightarrow> bool" where
  action_begun: "is_id fresh \<Longrightarrow> begin_action fresh s action ins = Inr (op, s') \<Longrightarrow> terminal_step s s'"
| prepare: "complete_prepare s oid receipt = Inr s' \<Longrightarrow> terminal_step s s'"
| commit: "complete_commit s oid receipt = Inr s' \<Longrightarrow> terminal_step s s'"
| authorize: "authorize_release s oid = Inr (a, s') \<Longrightarrow> terminal_step s s'"
| release: "complete_release s oid cleanup = Inr s' \<Longrightarrow> terminal_step s s'"
| failed: "fail_action s action oid code = Inr s' \<Longrightarrow> terminal_step s s'"

inductive reachable :: "json \<Rightarrow> json \<Rightarrow> terminal \<Rightarrow> bool" for b d where
  start: "guest_terminal b d = Inr s \<Longrightarrow> reachable b d s"
| step: "reachable b d s \<Longrightarrow> terminal_step s s' \<Longrightarrow> reachable b d s'"

text \<open>
  \<open>begun s0 s1 f a\<close>: action \<open>a\<close> is newly begun in \<open>s0\<close> with identifier \<open>f\<close>. A settled state has
  finished every action it began.
\<close>

definition begun :: "terminal \<Rightarrow> terminal \<Rightarrow> pystr \<Rightarrow> string \<Rightarrow> bool" where
  "begun s0 s1 f a \<longleftrightarrow> is_id f \<and> map_of (operations s0) a = None \<and>
     (\<exists>ins op. begin_action f s0 a ins = Inr (op, s1))"

inductive settled :: "json \<Rightarrow> json \<Rightarrow> terminal \<Rightarrow> bool" for b d where
  start: "guest_terminal b d = Inr s \<Longrightarrow> settled b d s"
| prepare: "settled b d s0 \<Longrightarrow> begun s0 s1 f ''prepare'' \<Longrightarrow> complete_prepare s1 f r = Inr s \<Longrightarrow> settled b d s"
| commit: "settled b d s0 \<Longrightarrow> begun s0 s1 f ''commit'' \<Longrightarrow> complete_commit s1 f r = Inr s \<Longrightarrow> settled b d s"
| release: "settled b d s0 \<Longrightarrow> begun s0 s1 f ''release'' \<Longrightarrow> authorize_release s1 f = Inr (x, s2) \<Longrightarrow>
    complete_release s2 f c = Inr s \<Longrightarrow> settled b d s"

lemma update_new: "map_of xs k = None \<Longrightarrow> AList.update k v xs = xs @ [(k, v)]"
  by (induction xs) (auto split: if_splits)

lemma update_last: "map_of xs k = None \<Longrightarrow> AList.update k w (xs @ [(k, v)]) = xs @ [(k, w)]"
  by (induction xs) (auto split: if_splits)

lemma map_of_last: "map_of xs k = None \<Longrightarrow> map_of (xs @ [(k, v)]) k = Some v"
  by (simp add: map_add_def)

definition op_rec :: "pystr \<Rightarrow> pystr \<Rightarrow> json \<Rightarrow> op_status \<Rightarrow> json \<Rightarrow> operation" where
  "op_rec f key ins st res = \<lparr>operation_id = f, input_digest = key, status = st, inputs = ins, result_of = res\<rparr>"

definition add_op :: "string \<Rightarrow> operation \<Rightarrow> terminal \<Rightarrow> terminal" where
  "add_op a op s = s\<lparr>operations := operations s @ [(a, op)]\<rparr>"

lemma op_rec_sel [simp]:
  "operation_id (op_rec f key ins st res) = f" "input_digest (op_rec f key ins st res) = key"
  "status (op_rec f key ins st res) = st" "inputs (op_rec f key ins st res) = ins" "result_of (op_rec f key ins st res) = res"
  by (simp_all add: op_rec_def)

lemma add_op_sel [simp]:
  "binding (add_op a op s) = binding s" "destination (add_op a op s) = destination s" "prefix (add_op a op s) = prefix s"
  "local_phase (add_op a op s) = local_phase s" "prepare (add_op a op s) = prepare s"
  "publication (add_op a op s) = publication s" "release_authorization (add_op a op s) = release_authorization s"
  "operations (add_op a op s) = operations s @ [(a, op)]" "is_push (add_op a op s) = is_push s"
  by (simp_all add: add_op_def is_push_def)

lemma op_rec_upd [simp]:
  "op_rec f key ins st res\<lparr>result_of := r, status := st'\<rparr> = op_rec f key ins st' r"
  "op_rec f key ins st res\<lparr>status := st', result_of := r\<rparr> = op_rec f key ins st' r"
  by (simp_all add: op_rec_def)

text \<open>Updates of the receipt fields commute with the operations.\<close>

lemma add_op_update:
  "add_op a op s\<lparr>prepare := x\<rparr> = add_op a op (s\<lparr>prepare := x\<rparr>)"
  "add_op a op s\<lparr>publication := x\<rparr> = add_op a op (s\<lparr>publication := x\<rparr>)"
  "add_op a op s\<lparr>local_phase := y\<rparr> = add_op a op (s\<lparr>local_phase := y\<rparr>)"
  "add_op a op s\<lparr>release_authorization := z\<rparr> = add_op a op (s\<lparr>release_authorization := z\<rparr>)"
  "add_op a op s\<lparr>operations := operations s @ [(a, op')]\<rparr> = add_op a op' s"
  "s\<lparr>operations := operations s @ [(a, op')], local_phase := y\<rparr> = add_op a op' (s\<lparr>local_phase := y\<rparr>)"
  by (simp_all add: add_op_def)

lemma begun_iff:
  "begun s0 s1 f a \<longleftrightarrow> is_id f \<and> map_of (operations s0) a = None \<and> local_phase s0 = expected_phase s0 a \<and>
     \<not> any_in_progress s0 \<and> (\<exists>ins key. check_inputs s0 a ins = Inr () \<and> action_key s0 a ins = Inr key \<and>
     s1 = add_op a (op_rec f key ins IN_PROGRESS JNull) s0)"
  by (auto simp: begun_def begin_action_def rbind_Inr_iff update_new Let_def op_rec_def add_op_def split: option.splits if_splits)

lemma check_inputs_action: "check_inputs s a ins = Inr x \<Longrightarrow> a = ''prepare'' \<or> a = ''commit'' \<or> a = ''release''"
  by (auto simp: check_inputs_def split: if_splits)

lemma pending_iff:
  "pending s a oid = Inr op \<longleftrightarrow> map_of (operations s) a = Some op \<and> operation_id op = oid \<and> status op = IN_PROGRESS"
  by (auto simp: pending_def split: option.splits)

lemma complete_iff:
  "complete s a oid res = Inr s' \<longleftrightarrow> (\<exists>op. pending s a oid = Inr op \<and>
     s' = s\<lparr>operations := AList.update a (op\<lparr>result_of := res, status := DONE\<rparr>) (operations s)\<rparr>)"
  by (auto simp: complete_def rbind_Inr_iff)

lemma pending_update [simp]:
  "pending (s\<lparr>prepare := x\<rparr>) = pending s" "pending (s\<lparr>publication := x\<rparr>) = pending s"
  "pending (s\<lparr>local_phase := y\<rparr>) = pending s" "pending (s\<lparr>release_authorization := z\<rparr>) = pending s"
  by (simp_all add: fun_eq_iff pending_def)

lemmas outcome_defs = complete_prepare_def complete_commit_def authorize_release_def complete_release_def fail_action_def

definition direction_prefix :: "json \<Rightarrow> string" where
  "direction_prefix b = (if fld ''direction'' b = JStr (u ''pull'') then ''SOURCE'' else ''DEST'')"

definition all_done :: "terminal \<Rightarrow> bool" where
  "all_done s \<longleftrightarrow> list_all (\<lambda>(a, op). status op = DONE) (operations s)"

definition keys_of :: "terminal \<Rightarrow> string list" where
  "keys_of s = map fst (operations s)"

text \<open>The context of a state never changes; what has been done determines phase and receipts.\<close>

definition frame :: "json \<Rightarrow> json \<Rightarrow> terminal \<Rightarrow> bool" where
  "frame b d s \<longleftrightarrow> binding s = b \<and> destination s = d \<and> prefix s = direction_prefix b \<and> binding_ok b \<and>
     dest_ok (fld ''direction'' b) d"

definition fresh_shape :: "terminal \<Rightarrow> bool" where
  "fresh_shape s \<longleftrightarrow> keys_of s = [] \<and>
     local_phase s = (if prefix s = ''SOURCE'' then ''SOURCE_READY'' else ''DEST_RECEIVED'') \<and>
     prepare s = JNull \<and> publication s = JNull \<and> release_authorization s = None"

definition prepared_shape :: "terminal \<Rightarrow> bool" where
  "prepared_shape s \<longleftrightarrow> keys_of s = [''prepare''] \<and> local_phase s = prefix s @ ''_PREPARED'' \<and>
     prepare_ok (binding s) (prepare s) \<and> publication s = JNull \<and> release_authorization s = None"

definition published_shape :: "terminal \<Rightarrow> bool" where
  "published_shape s \<longleftrightarrow> keys_of s = [''prepare'', ''commit''] \<and> is_push s \<and> local_phase s = ''DEST_PUBLISHED'' \<and>
     publication_ok (binding s) (prepare s) (destination s) (publication s) \<and> release_authorization s = None"

definition release_bound :: "terminal \<Rightarrow> bool" where
  "release_bound s \<longleftrightarrow> keys_of s = ''prepare'' # (if is_push s then [''commit''] else []) @ [''release''] \<and>
     publication_ok (binding s) (prepare s) (destination s) (publication s) \<and>
     (\<exists>op h. map_of (operations s) ''release'' = Some op \<and> release_authorization s = Some (operation_id op, h) \<and>
       receipt_digest (publication s) = Inr h)"

definition released_shape :: "terminal \<Rightarrow> bool" where
  "released_shape s \<longleftrightarrow> release_bound s \<and> local_phase s = prefix s @ ''_RELEASED''"

definition settled_shape :: "terminal \<Rightarrow> bool" where
  "settled_shape s \<longleftrightarrow> fresh_shape s \<or> prepared_shape s \<or> published_shape s \<or> released_shape s"

lemmas shape_defs = fresh_shape_def prepared_shape_def published_shape_def released_shape_def release_bound_def keys_of_def

lemma guest_terminal_iff:
  "guest_terminal b d = Inr s \<longleftrightarrow> binding_ok b \<and> dest_ok (fld ''direction'' b) d \<and>
     s = \<lparr>binding = b, destination = d, prefix = direction_prefix b,
       local_phase = (if direction_prefix b = ''SOURCE'' then ''SOURCE_READY'' else ''DEST_RECEIVED''),
       prepare = JNull, publication = JNull, release_authorization = None, operations = []\<rparr>"
  by (auto simp: guest_terminal_def result_iff direction_prefix_def Let_def)

lemma not_progress: "all_done s \<Longrightarrow> \<not> any_in_progress s"
  by (auto simp: all_done_def any_in_progress_def list_all_iff list_ex_iff)

lemma frame_push: "frame b d s \<Longrightarrow> is_push s \<longleftrightarrow> prefix s = ''DEST''"
  by (auto simp: frame_def is_push_def direction_prefix_def binding_ok_def)

lemma frame_prefix: "frame b d s \<Longrightarrow> prefix s = ''SOURCE'' \<or> prefix s = ''DEST''"
  by (auto simp: frame_def direction_prefix_def)

lemma frame_update [simp]:
  "frame b d (s\<lparr>operations := x\<rparr>) = frame b d s" "frame b d (s\<lparr>prepare := y\<rparr>) = frame b d s"
  "frame b d (s\<lparr>publication := y\<rparr>) = frame b d s" "frame b d (s\<lparr>local_phase := z\<rparr>) = frame b d s"
  "frame b d (s\<lparr>release_authorization := w\<rparr>) = frame b d s"
  by (simp_all add: frame_def)

lemma settled_phase_action:
  assumes "frame b d s" and "settled_shape s" and "local_phase s = expected_phase s a"
    and "a = ''prepare'' \<or> a = ''commit'' \<or> a = ''release''" and "a = ''commit'' \<longrightarrow> is_push s"
  shows "a = ''prepare'' \<and> fresh_shape s \<or> a = ''commit'' \<and> prepared_shape s \<and> is_push s \<or>
    a = ''release'' \<and> (prepared_shape s \<and> \<not> is_push s \<or> published_shape s)"
  using frame_prefix [OF assms(1)] frame_push [OF assms(1)] assms(2-)
  unfolding settled_shape_def
  by (elim disjE) (simp_all add: shape_defs expected_phase_def)

lemma begun_cases:
  assumes "frame b d s0" and "settled_shape s0" and "begun s0 s1 f a"
  shows "a = ''prepare'' \<and> fresh_shape s0 \<or> a = ''commit'' \<and> prepared_shape s0 \<and> is_push s0 \<or>
    a = ''release'' \<and> (prepared_shape s0 \<and> \<not> is_push s0 \<or> published_shape s0)"
proof -
  from assms(3) obtain ins where ins: "check_inputs s0 a ins = Inr ()" and ph: "local_phase s0 = expected_phase s0 a"
    by (auto simp: begun_iff)
  from ins have "a = ''commit'' \<longrightarrow> is_push s0" by (auto simp: check_inputs_def)
  with settled_phase_action [OF assms(1,2) ph check_inputs_action [OF ins]] show ?thesis by simp
qed

text \<open>What a finishing operation does when the pending operation is the one just begun.\<close>

lemma pending_added:
  "map_of (operations s) a = None \<Longrightarrow> pending (add_op a op s) a f = Inr op' \<longleftrightarrow>
     op' = op \<and> operation_id op = f \<and> status op = IN_PROGRESS"
  by (auto simp: pending_iff map_add_def)

lemma finish_prepare:
  assumes "map_of (operations s) ''prepare'' = None"
  shows "complete_prepare (add_op ''prepare'' (op_rec f key ins IN_PROGRESS JNull) s) f r = Inr s' \<longleftrightarrow>
    prepare_ok (binding s) r \<and> s' = add_op ''prepare'' (op_rec f key ins DONE (obj [(''prepare_receipt'', r)]))
      (s\<lparr>prepare := r, local_phase := prefix s @ ''_PREPARED''\<rparr>)"
  using assms by (auto simp: complete_prepare_def result_iff complete_iff pending_added update_last add_op_update)

lemma finish_commit:
  assumes "map_of (operations s) ''commit'' = None"
  shows "complete_commit (add_op ''commit'' (op_rec f key ins IN_PROGRESS JNull) s) f r = Inr s' \<longleftrightarrow>
    is_push s \<and> publication_ok (binding s) (prepare s) (destination s) r \<and>
    s' = add_op ''commit'' (op_rec f key ins DONE (obj [(''publication_receipt'', r)]))
      (s\<lparr>publication := r, local_phase := ''DEST_PUBLISHED''\<rparr>)"
  using assms by (auto simp: complete_commit_def result_iff complete_iff pending_added update_last add_op_update)

lemma finish_authorize:
  assumes "map_of (operations s) ''release'' = None" and "release_authorization s = None"
  shows "authorize_release (add_op ''release'' (op_rec f key ins IN_PROGRESS JNull) s) f = Inr (x, s') \<longleftrightarrow>
    (\<exists>r h. item ''publication_receipt'' ins = Inr r \<and> receipt_digest r = Inr h \<and> x = (f, h) \<and>
      s' = add_op ''release'' (op_rec f key ins IN_PROGRESS JNull) (s\<lparr>publication := r,
        release_authorization := Some (f, h), local_phase := prefix s @ ''_RELEASING''\<rparr>))"
  using assms by (auto simp: authorize_release_def result_iff pending_added add_op_update)

lemma finish_release:
  assumes "map_of (operations s) ''release'' = None" and "release_authorization s = Some (f, h)"
  shows "complete_release (add_op ''release'' (op_rec f key ins IN_PROGRESS JNull) s) f c = Inr s' \<longleftrightarrow>
    has_keys c [''temporary_files_removed'', ''workers_stopped''] \<and> fld ''temporary_files_removed'' c = JBool True \<and>
    fld ''workers_stopped'' c = JBool True \<and>
    s' = add_op ''release'' (op_rec f key ins DONE (obj [(''publication_receipt'', publication s), (''cleanup'', c)]))
      (s\<lparr>local_phase := prefix s @ ''_RELEASED''\<rparr>)"
  using assms by (auto simp: complete_release_def result_iff complete_iff pending_added update_last check_object_def add_op_update)

lemma finish_fail:
  assumes "map_of (operations s) a = None"
  shows "fail_action (add_op a (op_rec f key ins IN_PROGRESS JNull) s) a f code = Inr s' \<longleftrightarrow>
    is_identifier code \<and> release_authorization s = None \<and>
    s' = add_op a (op_rec f key ins FAILED (obj [(''error'', code)])) (s\<lparr>local_phase :=
      (if prefix s = ''SOURCE'' \<and> code = JStr (u ''source_changed'') then ''SOURCE_CHANGED'' else prefix s @ ''_FAILED'')\<rparr>)"
  using assms by (auto simp: fail_action_def result_iff pending_added update_last check_identifier_def add_op_update)

lemma release_inputs:
  assumes "check_inputs s ''release'' ins = Inr x"
  shows "\<exists>r. item ''publication_receipt'' ins = Inr r \<and> r = fld ''publication_receipt'' ins \<and>
    publication_ok (binding s) (prepare s) (destination s) r"
proof -
  from assms have "has_keys ins [''prepare_receipt'', ''publication_receipt'']"
    and ok: "publication_ok (binding s) (prepare s) (destination s) (fld ''publication_receipt'' ins)"
    by (auto simp: check_inputs_def check_object_def result_iff)
  then have "dget ''publication_receipt'' ins = Some (fld ''publication_receipt'' ins)"
    by (simp add: has_keys_dget)
  with ok show ?thesis by (simp add: item_def)
qed

lemma frame_add_op [simp]: "frame b d (add_op a op s) = frame b d s"
  by (simp add: add_op_def)

lemma settled_step_prepare:
  assumes "frame b d s0" "all_done s0" "settled_shape s0" "begun s0 s1 f ''prepare''" "complete_prepare s1 f r = Inr s"
  shows "frame b d s \<and> all_done s \<and> prepared_shape s"
proof -
  from begun_cases [OF assms(1,3,4)] have fs: "fresh_shape s0" by auto
  from assms(4) obtain ins key where new: "map_of (operations s0) ''prepare'' = None"
    and s1: "s1 = add_op ''prepare'' (op_rec f key ins IN_PROGRESS JNull) s0" by (auto simp: begun_iff)
  from finish_prepare [OF new] assms(5) s1 show ?thesis
    using assms(1,2) fs by (auto simp: shape_defs all_done_def)
qed

lemma settled_step_commit:
  assumes "frame b d s0" "all_done s0" "settled_shape s0" "begun s0 s1 f ''commit''" "complete_commit s1 f r = Inr s"
  shows "frame b d s \<and> all_done s \<and> published_shape s"
proof -
  from begun_cases [OF assms(1,3,4)] have fs: "prepared_shape s0" "is_push s0" by auto
  from assms(4) obtain ins key where new: "map_of (operations s0) ''commit'' = None"
    and s1: "s1 = add_op ''commit'' (op_rec f key ins IN_PROGRESS JNull) s0" by (auto simp: begun_iff)
  from finish_commit [OF new] assms(5) s1 show ?thesis
    using assms(1,2) fs by (auto simp: shape_defs all_done_def is_push_def)
qed

lemma authorized_release_bound:
  assumes "frame b d s0" "settled_shape s0" "begun s0 s1 f ''release''" "authorize_release s1 f = Inr (x, s2)"
  shows "frame b d s2 \<and> release_bound s2 \<and> local_phase s2 = prefix s2 @ ''_RELEASING'' \<and>
    (\<exists>h ins key t. s2 = add_op ''release'' (op_rec f key ins IN_PROGRESS JNull) t \<and> x = (f, h) \<and>
      operations t = operations s0 \<and> map_of (operations t) ''release'' = None \<and> release_authorization t = Some (f, h))"
proof -
  from begun_cases [OF assms(1-3)] have fs: "prepared_shape s0 \<and> \<not> is_push s0 \<or> published_shape s0" by auto
  from assms(3) obtain ins key where new: "map_of (operations s0) ''release'' = None"
    and ins: "check_inputs s0 ''release'' ins = Inr ()"
    and s1: "s1 = add_op ''release'' (op_rec f key ins IN_PROGRESS JNull) s0" by (auto simp: begun_iff)
  have none: "release_authorization s0 = None" using fs by (auto simp: shape_defs)
  from release_inputs [OF ins] finish_authorize [OF new none] assms(4) s1 obtain r h where
    r: "publication_ok (binding s0) (prepare s0) (destination s0) r" "receipt_digest r = Inr h" and
    s2: "x = (f, h)" "s2 = add_op ''release'' (op_rec f key ins IN_PROGRESS JNull) (s0\<lparr>publication := r,
        release_authorization := Some (f, h), local_phase := prefix s0 @ ''_RELEASING''\<rparr>)"
    by auto
  have "release_bound s2" using r fs new by (auto simp: s2 shape_defs is_push_def map_add_def)
  moreover have "\<exists>h ins key t. s2 = add_op ''release'' (op_rec f key ins IN_PROGRESS JNull) t \<and> x = (f, h) \<and>
      operations t = operations s0 \<and> map_of (operations t) ''release'' = None \<and> release_authorization t = Some (f, h)"
    by (rule exI [of _ h], rule exI [of _ ins], rule exI [of _ key], rule exI, rule conjI [OF s2(2)])
       (simp add: s2(1) new)
  ultimately show ?thesis using s2(2) assms(1) by simp
qed

lemma settled_step_release:
  assumes "frame b d s0" "all_done s0" "settled_shape s0" "begun s0 s1 f ''release''"
    "authorize_release s1 f = Inr (x, s2)" "complete_release s2 f c = Inr s"
  shows "frame b d s \<and> all_done s \<and> released_shape s"
proof -
  from authorized_release_bound [OF assms(1,3-5)] obtain h ins key t where
    fr: "frame b d s2" and rb: "release_bound s2" and
    s2: "s2 = add_op ''release'' (op_rec f key ins IN_PROGRESS JNull) t" and
    t: "operations t = operations s0" "map_of (operations t) ''release'' = None" "release_authorization t = Some (f, h)"
    by blast
  from finish_release [OF t(2,3)] assms(6) s2 have
    s: "s = add_op ''release'' (op_rec f key ins DONE (obj [(''publication_receipt'', publication t), (''cleanup'', c)]))
      (t\<lparr>local_phase := prefix t @ ''_RELEASED''\<rparr>)" by auto
  from rb fr t assms(2) show ?thesis
    by (auto simp: s s2 shape_defs is_push_def map_add_def all_done_def)
qed

lemma settled_inv: "settled b d s \<Longrightarrow> frame b d s \<and> all_done s \<and> settled_shape s"
proof (induction rule: settled.induct)
  case (start s)
  then show ?case by (auto simp: guest_terminal_iff frame_def all_done_def settled_shape_def shape_defs)
next
  case (prepare s0 s1 f r s)
  then show ?case using settled_step_prepare [of b d s0 s1 f r s] by (auto simp: settled_shape_def)
next
  case (commit s0 s1 f r s)
  then show ?case using settled_step_commit [of b d s0 s1 f r s] by (auto simp: settled_shape_def)
next
  case (release s0 s1 f x s2 c s)
  then show ?case using settled_step_release [of b d s0 s1 f x s2 c s] by (auto simp: settled_shape_def)
qed

text \<open>A reachable state is settled, or one action away from a settled state.\<close>

definition reach_form :: "json \<Rightarrow> json \<Rightarrow> terminal \<Rightarrow> bool" where
  "reach_form b d s \<longleftrightarrow> settled b d s \<or>
     (\<exists>s0 f a s1. settled b d s0 \<and> begun s0 s1 f a \<and>
       (s = s1 \<or> a = ''release'' \<and> (\<exists>x. authorize_release s1 f = Inr (x, s)) \<or> (\<exists>code. fail_action s1 a f code = Inr s)))"

lemma pending_progress: "pending s a oid = Inr op \<Longrightarrow> any_in_progress s"
  by (auto simp: pending_iff any_in_progress_def list_ex_iff dest!: map_of_SomeD)

lemma begin_action_cases:
  "begin_action f s a ins = Inr (op, s') \<Longrightarrow> is_id f \<Longrightarrow> s' = s \<or> begun s s' f a"
  by (cases "map_of (operations s) a") (auto simp: begun_def begin_action_def rbind_Inr_iff split: if_splits)

lemma idle_step:
  assumes "terminal_step s s'" and "\<not> any_in_progress s"
  shows "s' = s \<or> (\<exists>f a. begun s s' f a)"
  using assms(1)
proof cases
  case (action_begun fresh action ins op)
  then show ?thesis using begin_action_cases by blast
qed (use assms(2) in \<open>auto simp: outcome_defs rbind_Inr_iff dest: pending_progress\<close>)

lemma busy_begin:
  assumes "begin_action f s a ins = Inr (op, s')" and "is_id f" and "any_in_progress s"
  shows "s' = s"
  using begin_action_cases [OF assms(1,2)] assms(3) by (auto simp: begun_iff)

lemma pending_only_last:
  assumes "all_done s" and "pending s' x oid = Inr op'" and "operations s' = operations s @ [(a, op)]"
    and "map_of (operations s) a = None"
  shows "x = a \<and> oid = operation_id op \<and> op' = op"
proof -
  from assms(2,3) have "map_of (operations s @ [(a, op)]) x = Some op'" "operation_id op' = oid" "status op' = IN_PROGRESS"
    by (auto simp: pending_iff)
  moreover have "map_of (operations s) x \<noteq> Some op'"
    using assms(1) \<open>status op' = IN_PROGRESS\<close> by (auto simp: all_done_def list_all_iff dest!: map_of_SomeD)
  ultimately show ?thesis by (auto simp: map_add_def split: option.splits if_splits)
qed

lemma busy_added: "status op = IN_PROGRESS \<Longrightarrow> any_in_progress (add_op a op s)"
  by (simp add: any_in_progress_def)

lemma settled_auth_none:
  "settled b d s0 \<Longrightarrow> begun s0 s1 f a \<Longrightarrow> release_authorization s0 = None"
  using settled_inv [of b d s0] begun_cases [of b d s0 s1 f a] by (auto simp: shape_defs)

lemma begun_form:
  assumes st: "settled b d s0" and bg: "begun s0 s1 f a" and step: "terminal_step s1 s'"
  shows "reach_form b d s'"
proof -
  have fin: "all_done s0" and none: "release_authorization s0 = None"
    using settled_inv [OF st] settled_auth_none [OF st bg] by auto
  from bg obtain ins key where new: "map_of (operations s0) a = None"
    and s1: "s1 = add_op a (op_rec f key ins IN_PROGRESS JNull) s0" by (auto simp: begun_iff)
  have only: "x = a \<and> oid = f" if "pending s1 x oid = Inr op'" for x oid op'
    using pending_only_last [OF fin that _ new] s1 by simp
  have busy: "any_in_progress s1" by (simp add: s1 busy_added)
  from step show ?thesis
  proof cases
    case (action_begun fresh action ins op)
    then have "s' = s1" using busy_begin busy by blast
    then show ?thesis unfolding reach_form_def using st bg by blast
  next
    case (prepare oid r)
    then have "a = ''prepare''" "oid = f" using only by (auto simp: complete_prepare_def rbind_Inr_iff)
    then show ?thesis using settled.prepare [OF st] bg prepare by (auto simp: reach_form_def)
  next
    case (commit oid r)
    then have "a = ''commit''" "oid = f" using only by (auto simp: complete_commit_def rbind_Inr_iff)
    then show ?thesis using settled.commit [OF st] bg commit by (auto simp: reach_form_def)
  next
    case (authorize oid x)
    then have "a = ''release''" "oid = f" using only by (auto simp: authorize_release_def rbind_Inr_iff)
    then show ?thesis unfolding reach_form_def using st bg authorize by blast
  next
    case (release oid c)
    then have "release_authorization s1 \<noteq> None" by (auto simp: complete_release_def result_iff)
    with none s1 show ?thesis by simp
  next
    case (failed action oid code)
    then have "action = a" "oid = f" using only by (auto simp: fail_action_def rbind_Inr_iff)
    then show ?thesis unfolding reach_form_def using st bg failed by blast
  qed
qed

lemma authorized_next:
  assumes st: "settled b d s0" and bg: "begun s0 s1 f ''release''" and au: "authorize_release s1 f = Inr (x, s2)"
    and step: "terminal_step s2 s'"
  shows "s' = s2 \<or> (\<exists>c. complete_release s2 f c = Inr s')"
proof -
  have inv: "frame b d s0" "all_done s0" "settled_shape s0" using settled_inv [OF st] by auto
  from authorized_release_bound [OF inv(1,3) bg au] obtain h ins key t where
    s2: "s2 = add_op ''release'' (op_rec f key ins IN_PROGRESS JNull) t" and
    t: "operations t = operations s0" "map_of (operations t) ''release'' = None" "release_authorization t = Some (f, h)"
    by blast
  have only: "y = ''release'' \<and> oid = f" if "pending s2 y oid = Inr op'" for y oid op'
    using pending_only_last [OF inv(2) that, of "''release''"] s2 t by simp
  have busy: "any_in_progress s2" by (simp add: s2 busy_added)
  from step show ?thesis
  proof cases
    case (action_begun fresh action ins op)
    then show ?thesis using busy_begin busy by blast
  next
    case (authorize oid y)
    then show ?thesis using s2 t by (auto simp: authorize_release_def rbind_Inr_iff)
  next
    case (release oid c)
    then have "oid = f" using only by (auto simp: complete_release_def rbind_Inr_iff)
    then show ?thesis using release by blast
  next
    case (failed action oid code)
    then show ?thesis using s2 t by (auto simp: fail_action_def rbind_Inr_iff)
  qed (use only in \<open>auto simp: complete_prepare_def complete_commit_def rbind_Inr_iff\<close>)
qed

lemma authorized_form:
  assumes "settled b d s0" and "begun s0 s1 f ''release''" and "authorize_release s1 f = Inr (x, s2)"
    and "terminal_step s2 s'"
  shows "reach_form b d s'"
proof -
  from authorized_next [OF assms] consider "s' = s2" | c where "complete_release s2 f c = Inr s'" by blast
  then show ?thesis
  proof cases
    case 1
    then show ?thesis unfolding reach_form_def using assms by blast
  next
    case 2
    then show ?thesis unfolding reach_form_def using settled.release [OF assms(1-3)] by blast
  qed
qed

lemma failed_form:
  assumes st: "settled b d s0" and bg: "begun s0 s1 f a" and fl: "fail_action s1 a f code = Inr s2"
    and step: "terminal_step s2 s'"
  shows "s' = s2"
proof -
  have inv: "frame b d s0" "all_done s0" using settled_inv [OF st] by auto
  from bg obtain ins key where new: "map_of (operations s0) a = None"
    and s1: "s1 = add_op a (op_rec f key ins IN_PROGRESS JNull) s0" by (auto simp: begun_iff)
  from finish_fail [OF new] fl s1 have s2: "s2 = add_op a (op_rec f key ins FAILED (obj [(''error'', code)])) (s0\<lparr>local_phase :=
      (if prefix s0 = ''SOURCE'' \<and> code = JStr (u ''source_changed'') then ''SOURCE_CHANGED'' else prefix s0 @ ''_FAILED'')\<rparr>)"
    by auto
  have idle: "\<not> any_in_progress s2"
    using not_progress [OF inv(2)] by (simp add: s2 any_in_progress_def)
  have phase: "\<not> begun s2 s' f' a'" for f' a'
    using frame_prefix [OF inv(1)] by (auto simp: begun_iff s2 expected_phase_def)
  from idle_step [OF step idle] phase show ?thesis by auto
qed

lemma reachable_form: "reachable b d s \<Longrightarrow> reach_form b d s"
proof (induction rule: reachable.induct)
  case (start s)
  then show ?case by (auto simp: reach_form_def settled.start)
next
  case (step s s')
  from step.IH consider (settled) "settled b d s"
    | (begun) s0 f a where "settled b d s0" "begun s0 s f a"
    | (auth) s0 f s1 x where "settled b d s0" "begun s0 s1 f ''release''" "authorize_release s1 f = Inr (x, s)"
    | (failed) s0 f a s1 code where "settled b d s0" "begun s0 s1 f a" "fail_action s1 a f code = Inr s"
    by (auto simp: reach_form_def)
  then show ?case
  proof cases
    case settled
    then have "\<not> any_in_progress s" using settled_inv not_progress by blast
    with idle_step [OF step.hyps(2)] settled show ?thesis by (auto simp: reach_form_def)
  next
    case begun
    then show ?thesis using begun_form step.hyps(2) by blast
  next
    case auth
    then show ?thesis using authorized_form step.hyps(2) by blast
  next
    case failed
    then show ?thesis using failed_form step by blast
  qed
qed

section \<open>Restore accepts every reachable snapshot\<close>

definition ops_json :: "(string \<times> operation) list \<Rightarrow> json" where
  "ops_json ops = obj (map (\<lambda>(a, op). (a, op_json op)) ops)"

lemma dget_ops_json [simp]: "dget a (ops_json ops) = map_option op_json (map_of ops a)"
  by (simp add: ops_json_def map_of_map)

lemma op_json_sel [simp]:
  "has_keys (op_json op) [''operation_id'', ''input_digest'', ''status'', ''inputs'', ''result'']"
  "fld ''operation_id'' (op_json op) = JStr (operation_id op)" "fld ''input_digest'' (op_json op) = JStr (input_digest op)"
  "fld ''status'' (op_json op) = JStr (u (status_text (status op)))" "fld ''inputs'' (op_json op) = inputs op"
  "fld ''result'' (op_json op) = result_of op"
  by (simp_all add: op_json_def same_set_def)

lemma check_inputs_shape:
  assumes "check_inputs s a ins = Inr x"
  shows "is_obj ins \<and> u ''self'' \<notin> set (jkeys ins) \<and> u ''action'' \<notin> set (jkeys ins)"
proof -
  from assms have "has_keys ins [] \<or> has_keys ins [''prepare_receipt'', ''source_validation_receipt''] \<or>
      has_keys ins [''prepare_receipt'', ''publication_receipt'']"
    by (auto simp: check_inputs_def check_object_def result_iff split: if_splits)
  then show ?thesis by (auto simp: has_keys_def same_set_iff)
qed

lemma set_operation_id_added:
  "map_of (operations s) a = None \<Longrightarrow>
    set_operation_id (add_op a (op_rec f key ins st res) s) a g = add_op a (op_rec g key ins st res) s"
proof -
  assume "map_of (operations s) a = None"
  then have "map (\<lambda>(x, op). if x = a then (x, op\<lparr>operation_id := g\<rparr>) else (x, op)) (operations s) = operations s"
    by (intro map_idI) (force simp: map_of_eq_None_iff)
  then show ?thesis by (simp add: set_operation_id_def add_op_def op_rec_def)
qed

lemma begin_action_new:
  assumes "map_of (operations s) a = None" and "check_inputs s a ins = Inr ()" and "action_key s a ins = Inr key"
    and "local_phase s = expected_phase s a" and "\<not> any_in_progress s"
  shows "begin_action f s a ins = Inr (op_rec f key ins IN_PROGRESS JNull, add_op a (op_rec f key ins IN_PROGRESS JNull) s)"
  using assms by (simp add: begin_action_def Let_def update_new add_op_def op_rec_def)

lemma replay_begun:
  assumes "map_of (operations s) a = None" and "check_inputs s a ins = Inr ()" and "action_key s a ins = Inr key"
    and "local_phase s = expected_phase s a" and "\<not> any_in_progress s" and "is_id f"
    and "map_of ops a = Some (op_rec f key ins st res)"
  shows "replay_action fresh (ops_json ops) auth a s =
    replay_outcome auth (add_op a (op_rec f key ins IN_PROGRESS JNull) s) a (op_json (op_rec f key ins st res))"
  using assms check_inputs_shape [OF assms(2)]
  by (simp add: replay_action_def check_object_def check_identifier_def begin_with_keywords_def begin_action_new
      set_operation_id_added)

text \<open>Replaying the history of a state from the initial state.\<close>

definition replay :: "pystr \<Rightarrow> json \<Rightarrow> json \<Rightarrow> terminal \<Rightarrow> terminal result" where
  "replay fresh ops auth s = fold_res (replay_action fresh ops auth) [''prepare'', ''commit'', ''release''] s"

lemma replay_absent: "map_of ops a = None \<Longrightarrow> replay_action fresh (ops_json ops) auth a s = Inr s"
  by (simp add: replay_action_def)

lemma replay_action_same:
  "map_of ops a = map_of ops' a \<Longrightarrow> replay_action fresh (ops_json ops) auth a = replay_action fresh (ops_json ops') auth a"
  by (simp add: replay_action_def fun_eq_iff)

lemma replay_extend:
  assumes "replay fresh (ops_json ops) auth s0 = Inr s"
    and "a = ''prepare'' \<and> map fst ops = [] \<or> a = ''commit'' \<and> map fst ops = [''prepare''] \<or>
      a = ''release'' \<and> map_of ops a = None"
    and "replay_action fresh (ops_json (ops @ [(a, op)])) auth a s = Inr s'"
  shows "replay fresh (ops_json (ops @ [(a, op)])) auth s0 = Inr s'"
proof -
  have same: "replay_action fresh (ops_json (ops @ [(a, op)])) auth x = replay_action fresh (ops_json ops) auth x" if "x \<noteq> a" for x
    using that by (intro replay_action_same) (auto simp: map_add_def split: option.splits)
  have "map_of ops a = None" using assms(2) by (auto simp: map_of_eq_None_iff simp flip: set_map)
  then have skip: "replay_action fresh (ops_json ops) auth a x = Inr x" for x by (simp add: replay_absent)
  have later: "a = ''prepare'' \<Longrightarrow> replay_action fresh (ops_json ops) auth ''commit'' x = Inr x"
    "a \<noteq> ''release'' \<Longrightarrow> replay_action fresh (ops_json ops) auth ''release'' x = Inr x" for x
    using assms(2) by (auto intro!: replay_absent simp: map_of_eq_None_iff simp flip: set_map)
  from assms(2) show ?thesis
    using assms(1,3) skip later same by (elim disjE conjE) (auto simp: replay_def rbind_Inr_iff)
qed

lemma outcome_simps:
  "replay_outcome auth s ''prepare'' (op_json (op_rec f key ins DONE (obj [(''prepare_receipt'', r)]))) = complete_prepare s f r"
  "replay_outcome auth s ''commit'' (op_json (op_rec f key ins DONE (obj [(''publication_receipt'', r)]))) = complete_commit s f r"
  "replay_outcome auth s ''release'' (op_json (op_rec f key ins DONE (obj [(''publication_receipt'', r), (''cleanup'', c)]))) =
     rbind (authorize_release s f) (\<lambda>(_, s'). complete_release s' f c)"
  "replay_outcome auth s a (op_json (op_rec f key ins FAILED (obj [(''error'', code)]))) = fail_action s a f code"
  "replay_outcome auth s a (op_json (op_rec f key ins IN_PROGRESS res)) =
     (if a = ''release'' \<and> auth \<noteq> JNull then rbind (authorize_release s f) (\<lambda>(_, s'). Inr s') else Inr s)"
  by (simp_all add: replay_outcome_def check_object_def same_set_def)

text \<open>One more action on top of a settled state replays as it ran.\<close>

lemma replay_one_more:
  assumes st: "settled b d s0" and bg: "begun s0 s1 f a"
    and rp: "replay fresh (ops_json (operations s0)) auth t = Inr s0"
  obtains ins key where "s1 = add_op a (op_rec f key ins IN_PROGRESS JNull) s0"
    and "map_of (operations s0) a = None"
    and "\<And>res stat s. replay_outcome auth s1 a (op_json (op_rec f key ins stat res)) = Inr s \<Longrightarrow>
      replay fresh (ops_json (operations s0 @ [(a, op_rec f key ins stat res)])) auth t = Inr s"
proof -
  from bg obtain ins key where new: "map_of (operations s0) a = None" and id: "is_id f"
    and ins: "check_inputs s0 a ins = Inr ()" and key: "action_key s0 a ins = Inr key"
    and ph: "local_phase s0 = expected_phase s0 a" "\<not> any_in_progress s0"
    and s1: "s1 = add_op a (op_rec f key ins IN_PROGRESS JNull) s0" by (auto simp: begun_iff)
  have pos: "a = ''prepare'' \<and> map fst (operations s0) = [] \<or> a = ''commit'' \<and> map fst (operations s0) = [''prepare''] \<or>
      a = ''release'' \<and> map_of (operations s0) a = None"
    using begun_cases [OF _ _ bg] settled_inv [OF st] new by (auto simp: shape_defs)
  have "replay fresh (ops_json (operations s0 @ [(a, op_rec f key ins stat res)])) auth t = Inr s"
    if "replay_outcome auth s1 a (op_json (op_rec f key ins stat res)) = Inr s" for res stat s
    using that replay_begun [OF new ins key ph id, of "operations s0 @ [(a, op_rec f key ins stat res)]" stat res] new s1
    by (intro replay_extend [OF rp pos]) (simp add: map_add_def)
  with that [OF s1 new] show ?thesis by blast
qed

lemma settled_replay:
  assumes "guest_terminal b d = Inr t" and "settled b d s"
  shows "replay fresh (ops_json (operations s)) auth t = Inr s"
  using assms(2)
proof (induction rule: settled.induct)
  case (start s)
  then show ?case using assms(1) by (auto simp: guest_terminal_iff replay_def replay_absent)
next
  case (prepare s0 s1 f r s)
  obtain ins key where
    s1: "s1 = add_op ''prepare'' (op_rec f key ins IN_PROGRESS JNull) s0" and new: "map_of (operations s0) ''prepare'' = None"
    and go: "\<And>res stat s. replay_outcome auth s1 ''prepare'' (op_json (op_rec f key ins stat res)) = Inr s \<Longrightarrow>
      replay fresh (ops_json (operations s0 @ [(''prepare'', op_rec f key ins stat res)])) auth t = Inr s"
    by (rule replay_one_more [OF prepare.hyps(1,2) prepare.IH]) blast
  from finish_prepare [OF new] prepare.hyps(3) s1 have
    "operations s = operations s0 @ [(''prepare'', op_rec f key ins DONE (obj [(''prepare_receipt'', r)]))]" by auto
  with go [of DONE "obj [(''prepare_receipt'', r)]"] prepare.hyps(3) show ?case by (simp add: outcome_simps)
next
  case (commit s0 s1 f r s)
  obtain ins key where
    s1: "s1 = add_op ''commit'' (op_rec f key ins IN_PROGRESS JNull) s0" and new: "map_of (operations s0) ''commit'' = None"
    and go: "\<And>res stat s. replay_outcome auth s1 ''commit'' (op_json (op_rec f key ins stat res)) = Inr s \<Longrightarrow>
      replay fresh (ops_json (operations s0 @ [(''commit'', op_rec f key ins stat res)])) auth t = Inr s"
    by (rule replay_one_more [OF commit.hyps(1,2) commit.IH]) blast
  from finish_commit [OF new] commit.hyps(3) s1 have
    "operations s = operations s0 @ [(''commit'', op_rec f key ins DONE (obj [(''publication_receipt'', r)]))]" by auto
  with go [of DONE "obj [(''publication_receipt'', r)]"] commit.hyps(3) show ?case by (simp add: outcome_simps)
next
  case (release s0 s1 f x s2 c s)
  obtain ins key where
    s1: "s1 = add_op ''release'' (op_rec f key ins IN_PROGRESS JNull) s0" and new: "map_of (operations s0) ''release'' = None"
    and go: "\<And>res stat s. replay_outcome auth s1 ''release'' (op_json (op_rec f key ins stat res)) = Inr s \<Longrightarrow>
      replay fresh (ops_json (operations s0 @ [(''release'', op_rec f key ins stat res)])) auth t = Inr s"
    by (rule replay_one_more [OF release.hyps(1,2) release.IH]) blast
  have none: "release_authorization s0 = None" using settled_auth_none [OF release.hyps(1,2)] .
  from finish_authorize [OF new none] release.hyps(3) s1 obtain p h where
    s2: "s2 = add_op ''release'' (op_rec f key ins IN_PROGRESS JNull) (s0\<lparr>publication := p,
        release_authorization := Some (f, h), local_phase := prefix s0 @ ''_RELEASING''\<rparr>)" by auto
  have "operations s = operations s0 @ [(''release'', op_rec f key ins DONE (obj [(''publication_receipt'', p), (''cleanup'', c)]))]"
    using release.hyps(4) new by (auto simp: s2 finish_release)
  with go [of DONE "obj [(''publication_receipt'', p), (''cleanup'', c)]"] release.hyps(3,4)
  show ?case by (simp add: outcome_simps)
qed

lemma reach_replay:
  assumes "guest_terminal b d = Inr t" and "reach_form b d s"
  shows "replay fresh (ops_json (operations s)) (auth_json (release_authorization s)) t = Inr s"
proof -
  from assms(2) consider (settled) "settled b d s"
    | (busy) s0 f a s1 where "settled b d s0" "begun s0 s1 f a" "s = s1 \<or> a = ''release'' \<and> (\<exists>x. authorize_release s1 f = Inr (x, s)) \<or>
        (\<exists>code. fail_action s1 a f code = Inr s)" unfolding reach_form_def by blast
  then show ?thesis
  proof cases
    case settled
    then show ?thesis using assms(1) settled_replay by blast
  next
    case busy
    let ?auth = "auth_json (release_authorization s)"
    obtain ins key where
      s1: "s1 = add_op a (op_rec f key ins IN_PROGRESS JNull) s0" and new: "map_of (operations s0) a = None"
      and go: "\<And>res stat s. replay_outcome ?auth s1 a (op_json (op_rec f key ins stat res)) = Inr s \<Longrightarrow>
        replay fresh (ops_json (operations s0 @ [(a, op_rec f key ins stat res)])) ?auth t = Inr s"
      by (rule replay_one_more [OF busy(1,2) settled_replay [OF assms(1) busy(1)]]) blast
    have none: "release_authorization s0 = None" using settled_auth_none [OF busy(1,2)] .
    from busy(3) consider (begun) "s = s1" | (auth) x where "a = ''release''" "authorize_release s1 f = Inr (x, s)"
      | (failed) code where "fail_action s1 a f code = Inr s" by auto
    then show ?thesis
    proof cases
      case begun
      then show ?thesis using go [of IN_PROGRESS JNull s] none s1 by (simp add: outcome_simps auth_json_def)
    next
      case auth
      from auth(2) finish_authorize [of s0 f key ins x s] new none s1 auth(1) obtain p h where
        s: "s = add_op ''release'' (op_rec f key ins IN_PROGRESS JNull) (s0\<lparr>publication := p,
          release_authorization := Some (f, h), local_phase := prefix s0 @ ''_RELEASING''\<rparr>)" by auto
      then show ?thesis using go [of IN_PROGRESS JNull s] auth by (simp add: outcome_simps auth_json_def obj_def)
    next
      case failed
      with finish_fail [OF new, of f key ins code s] s1 have
        "operations s = operations s0 @ [(a, op_rec f key ins FAILED (obj [(''error'', code)]))]" by auto
      then show ?thesis using go [of FAILED "obj [(''error'', code)]" s] failed by (simp add: outcome_simps)
    qed
  qed
qed

lemma reachable_frame: "reachable b d s \<Longrightarrow> binding_ok b \<and> dest_ok (fld ''direction'' b) d \<and> binding s = b \<and> destination s = d"
proof (induction rule: reachable.induct)
  case (start s)
  then show ?case by (auto simp: guest_terminal_iff)
next
  case (step s s')
  from step.hyps(2) have "binding s' = binding s \<and> destination s' = destination s"
    by cases (auto simp: outcome_defs begin_action_def result_iff complete_iff Let_def split: option.splits if_splits)
  with step.IH show ?case by simp
qed

definition in_keys :: "terminal \<Rightarrow> string set" where
  "in_keys s = fst ` set (operations s)"

lemma in_keys_simps [simp]:
  "in_keys (s\<lparr>operations := AList.update k v (operations t)\<rparr>) = insert k (in_keys t)"
  "in_keys (s\<lparr>prepare := x\<rparr>) = in_keys s" "in_keys (s\<lparr>publication := x\<rparr>) = in_keys s"
  "in_keys (s\<lparr>local_phase := y\<rparr>) = in_keys s" "in_keys (s\<lparr>release_authorization := z\<rparr>) = in_keys s"
  "in_keys (set_operation_id s a g) = in_keys s"
proof -
  show "in_keys (set_operation_id s a g) = in_keys s"
    by (force simp: in_keys_def set_operation_id_def image_iff)
qed (simp_all add: in_keys_def dom_update)

lemma begin_action_keys:
  assumes "begin_action f s a ins = Inr (op, s')"
  shows "in_keys s' = insert a (in_keys s)" and "a = ''prepare'' \<or> a = ''commit'' \<or> a = ''release''"
proof -
  show "a = ''prepare'' \<or> a = ''commit'' \<or> a = ''release''"
    using assms by (auto simp: begin_action_def rbind_Inr_iff dest: check_inputs_action)
  show "in_keys s' = insert a (in_keys s)"
  proof (cases "map_of (operations s) a")
    case None
    with assms show ?thesis by (auto simp: begin_action_def rbind_Inr_iff Let_def split: if_splits)
  next
    case (Some p)
    then have "a \<in> in_keys s" by (force simp: in_keys_def dest: map_of_SomeD)
    with Some assms show ?thesis by (auto simp: begin_action_def rbind_Inr_iff split: if_splits)
  qed
qed

lemma pending_keys: "pending s a oid = Inr op \<Longrightarrow> a \<in> in_keys s"
  by (force simp: in_keys_def pending_iff dest: map_of_SomeD)

lemma complete_keys: "complete s a oid res = Inr s' \<Longrightarrow> in_keys s' = in_keys s"
  by (auto simp: complete_iff dest: pending_keys)

lemma prepare_keys:
  assumes "complete_prepare s oid r = Inr s'"
  shows "in_keys s' = in_keys s"
proof -
  from assms obtain a res where "complete (s\<lparr>prepare := r, local_phase := prefix s @ ''_PREPARED''\<rparr>) a oid res = Inr s'"
    unfolding complete_prepare_def by (auto simp only: rbind_Inr_iff)
  from complete_keys [OF this] show ?thesis by simp
qed

lemma commit_keys:
  assumes "complete_commit s oid r = Inr s'"
  shows "in_keys s' = in_keys s"
proof -
  from assms obtain a res where "complete (s\<lparr>publication := r, local_phase := ''DEST_PUBLISHED''\<rparr>) a oid res = Inr s'"
    unfolding complete_commit_def by (auto simp only: rbind_Inr_iff)
  from complete_keys [OF this] show ?thesis by simp
qed

lemma release_keys:
  assumes "complete_release s oid c = Inr s'"
  shows "in_keys s' = in_keys s"
proof -
  from assms obtain a res where "complete (s\<lparr>local_phase := prefix s @ ''_RELEASED''\<rparr>) a oid res = Inr s'"
    unfolding complete_release_def by (auto simp only: rbind_Inr_iff)
  from complete_keys [OF this] show ?thesis by simp
qed

lemma authorize_keys: "authorize_release s oid = Inr (x, s') \<Longrightarrow> in_keys s' = in_keys s"
  by (auto simp: authorize_release_def rbind_Inr_iff split: option.splits)

lemma fail_keys: "fail_action s a oid code = Inr s' \<Longrightarrow> in_keys s' = in_keys s"
  by (auto simp: fail_action_def result_iff in_keys_simps(1) [of _ _ _ s] dest: pending_keys)

lemmas outcome_keys = prepare_keys commit_keys authorize_keys release_keys fail_keys

lemma reachable_keys: "reachable b d s \<Longrightarrow> in_keys s \<subseteq> {''prepare'', ''commit'', ''release''}"
proof (induction rule: reachable.induct)
  case (start s)
  then show ?case by (auto simp: guest_terminal_iff in_keys_def)
next
  case (step s s')
  from step.hyps(2) step.IH show ?case
    by cases (auto dest!: outcome_keys dest: begin_action_keys)
qed

lemma snapshot_sel [simp]:
  "has_keys (snapshot s) snapshot_fields" "fld ''schema'' (snapshot s) = JStr (u ''velo.transfer.guest_terminal.v1'')"
  "fld ''binding'' (snapshot s) = binding s" "fld ''destination'' (snapshot s) = destination s"
  "fld ''release_authorization'' (snapshot s) = auth_json (release_authorization s)"
  "fld ''operations'' (snapshot s) = ops_json (operations s)"
  by (simp_all add: snapshot_def snapshot_fields_def same_set_def ops_json_def)

lemma jkeys_ops_json [simp]: "jkeys (ops_json ops) = map u (map fst ops)" "is_obj (ops_json ops)"
  by (simp_all add: ops_json_def o_def case_prod_beta)

lemma restore_snapshot:
  assumes "reachable b d s" and "wf_json b" and "wf_json d" and "canonical_json (snapshot s) = Inr bs"
  shows "restore fresh (snapshot s) b d = Inr s"
proof -
  have ok: "binding_ok b" "dest_ok (fld ''direction'' b) d" "binding s = b" "destination s = d"
    using reachable_frame [OF assms(1)] by auto
  obtain t where t: "guest_terminal b d = Inr t" using ok by (simp add: guest_terminal_iff)
  have "py_eq b b" "py_eq d d" using ok assms by (auto intro: plain_refl binding_plain dest_plain)
  moreover have "list_all (\<lambda>k. k \<in> set (map u [''prepare'', ''commit'', ''release''])) (jkeys (ops_json (operations s)))"
    using reachable_keys [OF assms(1)] by (auto simp: list_all_iff in_keys_def)
  moreover note reach_replay [OF t reachable_form [OF assms(1)], of fresh]
  ultimately show ?thesis using assms(4) t ok(3,4)
    by (simp add: restore_def check_object_def replay_def [symmetric] del: fold_res.simps)
qed

section \<open>Restore accepts only reachable states\<close>

lemma set_id_begin:
  assumes "begin_action fresh s a ins = Inr (op, s1)" and "map_of (operations s) a = None"
  shows "\<exists>op'. begin_action g s a ins = Inr (op', set_operation_id s1 a g)"
proof -
  from assms obtain key where "check_inputs s a ins = Inr ()" "action_key s a ins = Inr key"
    "local_phase s = expected_phase s a" "\<not> any_in_progress s"
    by (auto simp: begin_action_def rbind_Inr_iff split: if_splits)
  with assms begin_action_new [of s a ins key] show ?thesis by (auto simp: set_operation_id_added)
qed

lemma replay_outcome_reachable:
  assumes "reachable b d s" and "replay_outcome auth s a saved = Inr s'"
  shows "reachable b d s' \<and> in_keys s' = in_keys s"
  using assms unfolding replay_outcome_def Let_def
  by (auto simp: rbind_Inr_iff outcome_keys split: if_splits
      intro: reachable.step [OF assms(1)] reachable.step [OF reachable.step [OF assms(1)]] terminal_step.intros)

lemma replay_action_reachable:
  assumes "reachable b d s" and "a \<notin> in_keys s" and "replay_action fresh ops auth a s = Inr s'"
  shows "reachable b d s' \<and> in_keys s' \<subseteq> insert a (in_keys s)"
proof (cases "dget a ops")
  case None
  with assms show ?thesis by (auto simp: replay_action_def)
next
  case (Some saved)
  with assms(3) obtain op s1 where id: "is_identifier (fld ''operation_id'' saved)"
    and bg: "begin_action fresh s a (fld ''inputs'' saved) = Inr (op, s1)"
    and oc: "replay_outcome auth (set_operation_id s1 a (str_of (fld ''operation_id'' saved))) a saved = Inr s'"
    by (auto simp: replay_action_def check_identifier_def begin_with_keywords_def result_iff)
  let ?g = "str_of (fld ''operation_id'' saved)"
  from assms(2) have "map_of (operations s) a = None" by (auto simp: in_keys_def map_of_eq_None_iff)
  from set_id_begin [OF bg this, of ?g] obtain op' where "begin_action ?g s a (fld ''inputs'' saved) = Inr (op', set_operation_id s1 a ?g)"
    by blast
  moreover from id have "is_id ?g" by (cases "fld ''operation_id'' saved") auto
  ultimately have "reachable b d (set_operation_id s1 a ?g)"
    using assms(1) by (blast intro: reachable.step terminal_step.action_begun)
  from replay_outcome_reachable [OF this oc] begin_action_keys [OF bg] show ?thesis by auto
qed

lemma replay_reachable:
  assumes "guest_terminal b d = Inr t" and "replay fresh ops auth t = Inr s"
  shows "reachable b d s"
proof -
  from assms(2) obtain s1 s2 where r: "replay_action fresh ops auth ''prepare'' t = Inr s1"
    "replay_action fresh ops auth ''commit'' s1 = Inr s2" "replay_action fresh ops auth ''release'' s2 = Inr s"
    by (auto simp: replay_def rbind_Inr_iff)
  have t: "reachable b d t" "in_keys t = {}" using assms(1) by (auto intro: reachable.start simp: guest_terminal_iff in_keys_def)
  from replay_action_reachable [OF t(1) _ r(1)] t have 1: "reachable b d s1" "in_keys s1 \<subseteq> {''prepare''}" by auto
  from replay_action_reachable [OF 1(1) _ r(2)] 1 have 2: "reachable b d s2" "in_keys s2 \<subseteq> {''prepare'', ''commit''}" by auto
  from replay_action_reachable [OF 2(1) _ r(3)] 2 show ?thesis by auto
qed

lemma restore_reachable:
  assumes "restore fresh snap b d = Inr s"
  shows "reachable b d s" and "\<exists>bs. canonical_json snap = Inr bs \<and> canonical_json (snapshot s) = Inr bs"
proof -
  from assms obtain t where t: "guest_terminal b d = Inr t"
    "replay fresh (fld ''operations'' snap) (fld ''release_authorization'' snap) t = Inr s"
    by (auto simp: restore_def replay_def rbind_Inr_iff simp del: fold_res.simps)
  then show "reachable b d s" by (rule replay_reachable)
  show "\<exists>bs. canonical_json snap = Inr bs \<and> canonical_json (snapshot s) = Inr bs"
    using assms by (auto simp: restore_def result_iff simp del: fold_res.simps)
qed

section \<open>Invariants of reachable states\<close>

lemma reachable_cases:
  assumes "reachable b d s"
  obtains (settled) "settled b d s"
    | (begun) s0 f a ins key where "settled b d s0" "begun s0 s f a" "s = add_op a (op_rec f key ins IN_PROGRESS JNull) s0"
    | (authorized) s0 f s1 x where "settled b d s0" "begun s0 s1 f ''release''" "authorize_release s1 f = Inr (x, s)"
    | (failed) s0 f a ins key code ph where "settled b d s0" "begun s0 (add_op a (op_rec f key ins IN_PROGRESS JNull) s0) f a"
        "s = add_op a (op_rec f key ins FAILED (obj [(''error'', code)])) (s0\<lparr>local_phase := ph\<rparr>)"
        "ph = ''SOURCE_CHANGED'' \<or> ph = prefix s0 @ ''_FAILED''" "is_identifier code"
proof -
  from reachable_form [OF assms] consider "settled b d s" | s0 f a where "settled b d s0" "begun s0 s f a"
    | s0 f s1 x where "settled b d s0" "begun s0 s1 f ''release''" "authorize_release s1 f = Inr (x, s)"
    | s0 f a s1 code where "settled b d s0" "begun s0 s1 f a" "fail_action s1 a f code = Inr s"
    unfolding reach_form_def by blast
  then show ?thesis
  proof cases
    case 1
    then show ?thesis by (rule settled)
  next
    case 2
    then obtain ins key where "s = add_op a (op_rec f key ins IN_PROGRESS JNull) s0" by (auto simp: begun_iff)
    with 2 show ?thesis by (rule begun)
  next
    case 3
    then show ?thesis by (rule authorized)
  next
    case 4
    from 4(2) obtain ins key where new: "map_of (operations s0) a = None"
      and s1: "s1 = add_op a (op_rec f key ins IN_PROGRESS JNull) s0" by (auto simp: begun_iff)
    from finish_fail [OF new, of f key ins code s] 4(3) s1 have ok: "is_identifier code" and
      s: "s = add_op a (op_rec f key ins FAILED (obj [(''error'', code)])) (s0\<lparr>local_phase :=
      (if prefix s0 = ''SOURCE'' \<and> code = JStr (u ''source_changed'') then ''SOURCE_CHANGED'' else prefix s0 @ ''_FAILED'')\<rparr>)"
      by auto
    show ?thesis using failed [OF 4(1) _ s _ ok] 4(2) s1 by (simp split: if_splits)
  qed
qed

definition busy_count :: "terminal \<Rightarrow> nat" where
  "busy_count s = length (filter (\<lambda>(a, op). status op = IN_PROGRESS) (operations s))"

lemma busy_count_done: "all_done s \<Longrightarrow> busy_count s = 0"
  by (auto simp: busy_count_def all_done_def list_all_iff filter_empty_conv)

lemma busy_count_added: "all_done s \<Longrightarrow> busy_count (add_op a op (s\<lparr>local_phase := ph\<rparr>)) \<le> 1 \<and> busy_count (add_op a op s) \<le> 1"
  using busy_count_done [of s] by (simp add: busy_count_def)

definition receipts_ok :: "terminal \<Rightarrow> bool" where
  "receipts_ok s \<longleftrightarrow>
     (prepare s \<noteq> JNull \<longrightarrow> prepare_ok (binding s) (prepare s)) \<and>
     (publication s \<noteq> JNull \<longrightarrow> publication_ok (binding s) (prepare s) (destination s) (publication s)) \<and>
     (release_authorization s \<noteq> None \<longrightarrow> release_bound s) \<and>
     (release_authorization s \<noteq> None \<longleftrightarrow>
       local_phase s = prefix s @ ''_RELEASING'' \<or> local_phase s = prefix s @ ''_RELEASED'')"

lemma publication_prepare: "publication_ok b p d r \<Longrightarrow> prepare_ok b p"
  by (simp add: publication_ok_def)

lemma settled_receipts:
  assumes "settled b d s"
  shows "receipts_ok s"
proof -
  note inv = settled_inv [OF assms]
  from inv frame_prefix [of b d s] frame_push [of b d s] consider "fresh_shape s" | "prepared_shape s" | "published_shape s" | "released_shape s"
    by (auto simp: settled_shape_def)
  then show ?thesis
    using inv frame_prefix [of b d s] frame_push [of b d s]
    by cases (auto simp: receipts_ok_def shape_defs dest: publication_prepare)
qed

lemma receipts_add_op: "receipts_ok s \<Longrightarrow> release_authorization s = None \<Longrightarrow> receipts_ok (add_op a op s)"
  by (auto simp: receipts_ok_def)

lemma reachable_receipts:
  assumes "reachable b d s"
  shows "receipts_ok s \<and> busy_count s \<le> 1"
  using assms
proof (cases rule: reachable_cases)
  case settled
  then show ?thesis using settled_receipts settled_inv busy_count_done by fastforce
next
  case (begun s0 f a ins key)
  then show ?thesis using settled_receipts [OF begun(1)] settled_auth_none [OF begun(1,2)] settled_inv [OF begun(1)]
    by (auto simp: receipts_add_op busy_count_added simp del: One_nat_def)
next
  case (authorized s0 f s1 x)
  have inv: "frame b d s0" "all_done s0" "settled_shape s0" using settled_inv [OF authorized(1)] by auto
  from authorized_release_bound [OF inv(1,3) authorized(2,3)] obtain ins key t where
    r: "frame b d s" "release_bound s" "local_phase s = prefix s @ ''_RELEASING''" and
    s: "s = add_op ''release'' (op_rec f key ins IN_PROGRESS JNull) t" "operations t = operations s0" by blast
  have "busy_count s \<le> 1" using busy_count_done [OF inv(2)] s by (simp add: busy_count_def)
  with r show ?thesis by (auto simp: receipts_ok_def release_bound_def dest: publication_prepare)
next
  case (failed s0 f a ins key code ph)
  have none: "release_authorization s0 = None" using settled_auth_none [OF failed(1,2)] .
  have fr: "frame b d s0" using settled_inv [OF failed(1)] by auto
  have "receipts_ok (s0\<lparr>local_phase := ph\<rparr>)"
    using settled_receipts [OF failed(1)] none failed(4) frame_prefix [OF fr] by (auto simp: receipts_ok_def)
  with none failed(3) settled_inv [OF failed(1)] show ?thesis by (auto simp: receipts_add_op busy_count_added simp del: One_nat_def)
qed

definition authorized_with :: "json \<Rightarrow> json \<Rightarrow> pystr \<times> pystr \<Rightarrow> json \<Rightarrow> json \<Rightarrow> terminal \<Rightarrow> bool" where
  "authorized_with b d a p q s \<longleftrightarrow> reachable b d s \<and> release_authorization s = Some a \<and> prepare s = p \<and> publication s = q"

lemma authorized_step:
  assumes "authorized_with b d a p q s" and step: "terminal_step s s'"
  shows "authorized_with b d a p q s'"
proof -
  have r: "reachable b d s" "release_authorization s = Some a" "prepare s = p" "publication s = q"
    using assms(1) by (auto simp: authorized_with_def)
  have r': "reachable b d s'" using r(1) step by (rule reachable.step)
  from r(1) have "release_authorization s' = Some a \<and> prepare s' = p \<and> publication s' = q"
  proof (cases rule: reachable_cases)
    case settled
    then have "\<not> any_in_progress s" using settled_inv not_progress by blast
    then have "s' = s" using idle_step [OF step] settled_auth_none [OF settled] r(2) by auto
    with r show ?thesis by simp
  next
    case (begun s0 f a ins key)
    then show ?thesis using settled_auth_none [OF begun(1,2)] r(2) by simp
  next
    case (authorized s0 f s1 x)
    from authorized_next [OF authorized step] consider "s' = s" | c where "complete_release s f c = Inr s'" by blast
    then show ?thesis by cases (use r in \<open>auto simp: complete_release_def complete_iff result_iff\<close>)
  next
    case (failed s0 f a ins key code ph)
    then show ?thesis using settled_auth_none [OF failed(1,2)] r(2) by simp
  qed
  with r' show ?thesis by (simp add: authorized_with_def)
qed

interpretation authorized: stable_fact terminal_step "authorized_with b d a p q" for b d a p q
  by unfold_locales (rule authorized_step)

lemma check_inputs_operations: "check_inputs (s\<lparr>operations := x\<rparr>) a ins = check_inputs s a ins"
  by (simp add: check_inputs_def is_push_def)

lemma action_key_operations: "action_key (s\<lparr>operations := x\<rparr>) a ins = action_key s a ins"
  by (simp add: action_key_def)

lemma begin_again:
  assumes "begin_action f s a ins = Inr (op, s')"
  shows "map_of (operations s') a = Some op \<and> check_inputs s' a ins = Inr () \<and> action_key s' a ins = Inr (input_digest op) \<and>
    (\<forall>x. check_inputs s' a x = check_inputs s a x)"
proof (cases "map_of (operations s) a")
  case None
  with assms show ?thesis
    by (auto simp: begin_action_def rbind_Inr_iff Let_def check_inputs_operations action_key_operations update_conv split: if_splits)
next
  case (Some p)
  with assms show ?thesis by (auto simp: begin_action_def rbind_Inr_iff split: if_splits)
qed

lemma failed_is_final:
  assumes "reachable b d s" and "(a, op) \<in> set (operations s)" and "status op = FAILED" and step: "terminal_step s s'"
  shows "s' = s"
  using assms(1)
proof (cases rule: reachable_cases)
  case settled
  then show ?thesis using settled_inv [OF settled] assms(2,3) by (auto simp: all_done_def list_all_iff)
next
  case (begun s0 f a' ins key)
  then show ?thesis using settled_inv [OF begun(1)] assms(2,3) by (auto simp: all_done_def list_all_iff)
next
  case (authorized s0 f s1 x)
  have inv: "frame b d s0" "all_done s0" "settled_shape s0" using settled_inv [OF authorized(1)] by auto
  from authorized_release_bound [OF inv(1,3) authorized(2,3)] obtain ins key t where
    "s = add_op ''release'' (op_rec f key ins IN_PROGRESS JNull) t" "operations t = operations s0" by blast
  then show ?thesis using inv(2) assms(2,3) by (auto simp: all_done_def list_all_iff)
next
  case (failed s0 f a' ins key code ph)
  have inv: "frame b d s0" "all_done s0" using settled_inv [OF failed(1)] by auto
  have "\<not> any_in_progress s" using not_progress [OF inv(2)] by (simp add: failed(3) any_in_progress_def)
  moreover have "local_phase s \<noteq> expected_phase s x" for x
    using failed(4) frame_prefix [OF inv(1)] unfolding failed(3) expected_phase_def by (elim disjE) simp_all
  then have "\<not> begun s s' f' x" for f' x by (simp add: begun_iff)
  ultimately show ?thesis using idle_step [OF step] by blast
qed

section \<open>A sample run\<close>

lemma serial_samples [simp]: "serial (sample_binding dir)" "serial (sample_destination dir)" "serial (sample_prepare dir)"
  "serial (sample_dir 7)" "serial sample_publication"
proof -
  show *: "serial (sample_binding dir)" "serial (sample_destination dir)" "serial (sample_dir 7)" for dir
    by (simp_all add: sample_binding_def sample_destination_def sample_dir_def serial_obj protocol_version_def)
  then show "serial (sample_prepare dir)" by (simp add: sample_prepare_def the_prepare_def serial_obj)
  have "is_hex64 sample_prepare_hash"
    using sample_prepare_digest receipt_digest_hex by (auto simp: sample_prepare_hash_def)
  then show "serial sample_publication"
    by (simp add: sample_publication_def the_publication_def serial_obj * serial_hex) (simp add: sample_binding_def)
qed

definition sample_inputs :: json where
  "sample_inputs = obj [(''prepare_receipt'', sample_prepare ''pull''), (''publication_receipt'', sample_publication)]"

definition sample_run :: "terminal result" where
  "sample_run = rbind (guest_terminal (sample_binding ''pull'') (sample_destination ''pull'')) (\<lambda>s.
     rbind (begin_action (u ''op1'') s ''prepare'' (obj [])) (\<lambda>(_, s).
     rbind (complete_prepare s (u ''op1'') (sample_prepare ''pull'')) (\<lambda>s.
     rbind (begin_action (u ''op2'') s ''release'' sample_inputs) (\<lambda>(_, s).
     rbind (authorize_release s (u ''op2'')) (\<lambda>(_, s). Inr s)))))"

lemma sample_run_ok:
  "\<exists>s x. sample_run = Inr s \<and> reachable (sample_binding ''pull'') (sample_destination ''pull'') s \<and>
     release_authorization s = Some (u ''op2'', x) \<and> publication s = sample_publication"
proof -
  let ?b = "sample_binding ''pull''" and ?d = "sample_destination ''pull''" and ?p = "sample_prepare ''pull''"
  have dir: "fld ''direction'' ?b = JStr (u ''pull'')" by (simp add: sample_binding_def)
  have ok: "binding_ok ?b" "dest_ok (fld ''direction'' ?b) ?d" "prepare_ok ?b ?p" "publication_ok ?b ?p ?d sample_publication"
    using sample_binding_ok [of "''pull''"] sample_dest_ok sample_prepare_ok [of "''pull''"] sample_publication_valid
    by (simp_all add: dir validate_publication_iff)
  have refl: "py_eq ?p ?p"
    by (rule py_eq_refl, simp) (simp add: sample_prepare_def the_prepare_def no_nan_obj plain_no_nan binding_plain ok)
  have ids: "is_id (u ''op1'')" "is_id (u ''op2'')" by (simp_all add: is_id_def u_def text_simps)
  define s0 where "s0 = \<lparr>binding = ?b, destination = ?d, prefix = ''SOURCE'', local_phase = ''SOURCE_READY'',
       prepare = JNull, publication = JNull, release_authorization = None, operations = []\<rparr>"
  have g: "guest_terminal ?b ?d = Inr s0" by (simp add: guest_terminal_iff ok(1) ok(2) [unfolded dir] dir direction_prefix_def s0_def)
  have key: "\<exists>k. action_key s a ins = Inr k" if "binding s = ?b" "serial ins" for s a ins
    using that by (simp add: action_key_def serial_digest serial_obj)
  obtain k1 where k1: "action_key s0 ''prepare'' (obj []) = Inr k1" using key [of s0 "obj []" "''prepare''"] by (auto simp: serial_obj s0_def [THEN arg_cong [of _ _ binding]])
  define s1 where "s1 = add_op ''prepare'' (op_rec (u ''op1'') k1 (obj []) IN_PROGRESS JNull) s0"
  have b1: "begin_action (u ''op1'') s0 ''prepare'' (obj []) = Inr (op_rec (u ''op1'') k1 (obj []) IN_PROGRESS JNull, s1)"
    unfolding s1_def by (rule begin_action_new)
      (simp_all add: k1, simp_all add: s0_def check_inputs_def check_object_def same_set_def expected_phase_def any_in_progress_def)
  define s2 where "s2 = add_op ''prepare'' (op_rec (u ''op1'') k1 (obj []) DONE (obj [(''prepare_receipt'', ?p)]))
      (s0\<lparr>prepare := ?p, local_phase := prefix s0 @ ''_PREPARED''\<rparr>)"
  have c1: "complete_prepare s1 (u ''op1'') ?p = Inr s2"
    unfolding s1_def s2_def by (subst finish_prepare) (simp_all add: s0_def ok)
  have sel: "binding s2 = ?b" "prepare s2 = ?p" "destination s2 = ?d" "release_authorization s2 = None" "\<not> is_push s2"
    by (simp_all add: s2_def s0_def is_push_def dir)
  obtain k2 where k2: "action_key s2 ''release'' sample_inputs = Inr k2"
    using key [of s2 sample_inputs] sel by (auto simp: sample_inputs_def serial_obj)
  define s3 where "s3 = add_op ''release'' (op_rec (u ''op2'') k2 sample_inputs IN_PROGRESS JNull) s2"
  have ins: "check_inputs s2 ''release'' sample_inputs = Inr ()"
    by (simp add: check_inputs_def check_object_def sample_inputs_def same_set_def result_iff sel ok refl)
  have new: "map_of (operations s2) ''release'' = None" by (simp add: s2_def s0_def)
  have b2: "begin_action (u ''op2'') s2 ''release'' sample_inputs = Inr (op_rec (u ''op2'') k2 sample_inputs IN_PROGRESS JNull, s3)"
    unfolding s3_def by (rule begin_action_new [OF new ins k2])
      (simp_all add: s2_def s0_def expected_phase_def any_in_progress_def)
  obtain h where "receipt_digest sample_publication = Inr h" by (simp add: receipt_digest_def serial_digest)
  then obtain x s4 where a: "authorize_release s3 (u ''op2'') = Inr (x, s4)" and
    s4: "release_authorization s4 = Some (u ''op2'', h)" "publication s4 = sample_publication"
    using finish_authorize [OF new sel(4), of "u ''op2''" k2 sample_inputs] unfolding s3_def [symmetric]
    by (auto simp: sample_inputs_def item_def)
  have run: "sample_run = Inr s4" by (simp add: sample_run_def g b1 c1 b2 a)
  have "reachable ?b ?d s4"
    using reachable.start [OF g] b1 c1 b2 a ids by (meson reachable.step terminal_step.intros)
  with run s4 show ?thesis by blast
qed

section \<open>Properties\<close>

text \<open>
  C4: a snapshot that the owner could persist restores to exactly the state it was taken from, for
  every state the machine can reach: no acknowledged action, receipt or authorisation is lost by a
  crash and a restart.
\<close>

theorem restore_snapshot_exact:
  assumes "reachable b d s" and "wf_json b" and "wf_json d" and "canonical_json (snapshot s) = Inr bs"
  shows "restore fresh (snapshot s) b d = Inr s"
  using assms by (rule restore_snapshot)

theorem restore_snapshot_exact_witness:
  "\<exists>s. guest_terminal (sample_binding ''push'') (sample_destination ''push'') = Inr s \<and>
     restore (u ''x'') (snapshot s) (sample_binding ''push'') (sample_destination ''push'') = Inr s"
proof -
  have "dest_ok (fld ''direction'' (sample_binding ''push'')) (sample_destination ''push'')"
    by (simp add: dest_ok_def sample_destination_def sample_binding_def same_set_def) (simp add: obj_def u_def)
  then obtain s where s: "guest_terminal (sample_binding ''push'') (sample_destination ''push'') = Inr s"
    and snap: "binding s = sample_binding ''push''" "destination s = sample_destination ''push''" "prepare s = JNull"
      "publication s = JNull" "release_authorization s = None" "operations s = []"
    by (simp add: guest_terminal_iff sample_binding_ok)
  have "serial (snapshot s)" by (simp add: snapshot_def serial_obj snap auth_json_def)
  from restore_snapshot_exact [OF reachable.start [OF s] _ _ serial_canonical [OF this], of "u ''x''"] s
  show ?thesis by auto
qed

text \<open>
  C5: \<open>restore\<close> accepts nothing the machine could not have produced: an accepted snapshot is, byte
  for byte in canonical form, the snapshot of a reachable state for the given binding and
  destination.
\<close>

theorem restore_only_reachable:
  assumes "restore fresh snap b d = Inr s"
  shows "reachable b d s \<and> (\<exists>bs. canonical_json snap = Inr bs \<and> canonical_json (snapshot s) = Inr bs)"
  using restore_reachable [OF assms] by blast

theorem restore_only_reachable_witness:
  "\<exists>s. restore (u ''x'') (snapshot s) (sample_binding ''pull'') (sample_destination ''pull'') = Inr s \<and>
     reachable (sample_binding ''pull'') (sample_destination ''pull'') s"
proof -
  obtain s where s: "guest_terminal (sample_binding ''pull'') (sample_destination ''pull'') = Inr s"
    and snap: "binding s = sample_binding ''pull''" "destination s = sample_destination ''pull''" "prepare s = JNull"
      "publication s = JNull" "release_authorization s = None" "operations s = []"
    using sample_dest_ok sample_binding_ok [of "''pull''"] by (simp add: guest_terminal_iff sample_binding_def)
  have "serial (snapshot s)" by (simp add: snapshot_def serial_obj snap auth_json_def)
  from restore_snapshot [OF reachable.start [OF s] _ _ serial_canonical [OF this], of "u ''x''"]
  have "restore (u ''x'') (snapshot s) (sample_binding ''pull'') (sample_destination ''pull'') = Inr s" by simp
  with restore_only_reachable [OF this] show ?thesis by blast
qed

text \<open>
  C6: in every reachable state at most one action is in progress; a prepare receipt or publication
  receipt that is present validates against the binding, the prepare receipt and the destination;
  and a release authorisation exists exactly in the phases RELEASING and RELEASED, where it names
  the identifier of the release operation and the digest of the publication receipt held.
\<close>

theorem terminal_receipts_valid:
  assumes "reachable b d s"
  shows "busy_count s \<le> 1 \<and>
    (prepare s \<noteq> JNull \<longrightarrow> validate_prepare (prepare s) b = Inr ()) \<and>
    (publication s \<noteq> JNull \<longrightarrow> validate_publication (publication s) b (prepare s) d = Inr ()) \<and>
    (release_authorization s \<noteq> None \<longleftrightarrow> local_phase s = prefix s @ ''_RELEASING'' \<or> local_phase s = prefix s @ ''_RELEASED'') \<and>
    (\<forall>oid h. release_authorization s = Some (oid, h) \<longrightarrow> receipt_digest (publication s) = Inr h \<and>
       (\<exists>op. map_of (operations s) ''release'' = Some op \<and> operation_id op = oid))"
  using reachable_receipts [OF assms] reachable_frame [OF assms]
  by (auto simp: receipts_ok_def release_bound_def validate_prepare_iff validate_publication_iff)

theorem terminal_receipts_valid_witness:
  "\<exists>s. sample_run = Inr s \<and> busy_count s \<le> 1 \<and>
     validate_publication (publication s) (sample_binding ''pull'') (prepare s) (sample_destination ''pull'') = Inr ()"
proof -
  obtain s where s: "sample_run = Inr s" "reachable (sample_binding ''pull'') (sample_destination ''pull'') s"
    "publication s = sample_publication" using sample_run_ok by blast
  from terminal_receipts_valid [OF s(2)] s show ?thesis
    by (auto simp: sample_publication_def the_publication_def obj_def)
qed

text \<open>
  C7: an authorised release is irreversible. Whatever steps follow, the authorisation, the prepare
  receipt and the publication receipt stay as they are, and no action can be failed any more.
\<close>

theorem release_irreversible:
  assumes "reachable b d s" and "release_authorization s = Some a" and "terminal_step\<^sup>*\<^sup>* s s'"
  shows "release_authorization s' = Some a \<and> prepare s' = prepare s \<and> publication s' = publication s \<and>
    (\<forall>action oid code t. fail_action s' action oid code \<noteq> Inr t)"
proof -
  have "authorized_with b d a (prepare s) (publication s) s'"
    using assms by (intro authorized.fact_steps [OF assms(3)]) (simp add: authorized_with_def)
  then show ?thesis by (auto simp: authorized_with_def fail_action_def result_iff)
qed

theorem release_irreversible_witness:
  "\<exists>s. sample_run = Inr s \<and> release_authorization s \<noteq> None \<and> publication s = sample_publication \<and>
     (\<forall>action oid code t. fail_action s action oid code \<noteq> Inr t)"
proof -
  obtain s x where s: "sample_run = Inr s" "reachable (sample_binding ''pull'') (sample_destination ''pull'') s"
    "release_authorization s = Some (u ''op2'', x)" "publication s = sample_publication" using sample_run_ok by blast
  from release_irreversible [OF s(2,3) rtranclp.rtrancl_refl] s show ?thesis by auto
qed

text \<open>
  C8: beginning an action is idempotent. Repeating the request returns the recorded operation and
  changes nothing, whatever identifier the retry would have drawn; a request for the same action
  with valid but different input (a different digest) is refused as a conflict.
\<close>

theorem begin_action_idempotent:
  assumes "begin_action f s a ins = Inr (op, s')"
  shows "begin_action g s' a ins = Inr (op, s') \<and>
    (\<forall>ins' key. check_inputs s a ins' = Inr () \<longrightarrow> action_key s' a ins' = Inr key \<longrightarrow> key \<noteq> input_digest op \<longrightarrow>
       begin_action g s' a ins' = Inl (Error ''action_conflict''))"
  using begin_again [OF assms] by (auto simp: begin_action_def)

theorem begin_action_idempotent_witness:
  "\<exists>s op s'. guest_terminal (sample_binding ''pull'') (sample_destination ''pull'') = Inr s \<and>
     begin_action (u ''a'') s ''prepare'' (obj []) = Inr (op, s') \<and> operations s' \<noteq> [] \<and>
     begin_action (u ''b'') s' ''prepare'' (obj []) = Inr (op, s')"
proof -
  obtain s where "rbind (guest_terminal (sample_binding ''pull'') (sample_destination ''pull''))
      (\<lambda>s. begin_action (u ''op1'') s ''prepare'' (obj [])) = Inr s"
    using sample_run_ok by (fastforce simp: sample_run_def rbind_Inr_iff)
  then obtain t op s1 where g: "guest_terminal (sample_binding ''pull'') (sample_destination ''pull'') = Inr t"
    and b: "begin_action (u ''op1'') t ''prepare'' (obj []) = Inr (op, s1)"
    by (cases s) (auto simp: rbind_Inr_iff)
  from b g obtain op' s' where b': "begin_action (u ''a'') t ''prepare'' (obj []) = Inr (op', s')"
    by (auto simp: begin_action_def rbind_Inr_iff Let_def guest_terminal_iff split: if_splits)
  from begin_again [OF b'] have "operations s' \<noteq> []" by auto
  with begin_action_idempotent [OF b', of "u ''b''"] g b' show ?thesis by blast
qed

text \<open>
  C9: a failed action is final: once an action of a reachable state has failed, no step changes
  the state any more, so the failure can be neither completed, nor retried, nor released.
\<close>

theorem failed_action_final:
  assumes "reachable b d s" and "(a, op) \<in> set (operations s)" and "status op = FAILED" and "terminal_step\<^sup>*\<^sup>* s s'"
  shows "s' = s"
  using assms(4,1-3)
proof (induction rule: rtranclp_induct)
  case (step y z)
  then show ?case using failed_is_final by blast
qed simp

theorem failed_action_final_witness:
  "\<exists>s op s'. reachable (sample_binding ''pull'') (sample_destination ''pull'') s \<and> (''prepare'', op) \<in> set (operations s) \<and>
     status op = FAILED \<and> begin_action (u ''b'') s ''prepare'' (obj []) = Inr (op, s') \<and> s' = s"
proof -
  obtain s where "rbind (guest_terminal (sample_binding ''pull'') (sample_destination ''pull''))
      (\<lambda>s. begin_action (u ''op1'') s ''prepare'' (obj [])) = Inr s"
    using sample_run_ok by (fastforce simp: sample_run_def rbind_Inr_iff)
  then obtain t op s1 where g: "guest_terminal (sample_binding ''pull'') (sample_destination ''pull'') = Inr t"
    and b: "begin_action (u ''op1'') t ''prepare'' (obj []) = Inr (op, s1)"
    by (cases s) (auto simp: rbind_Inr_iff)
  have ids: "is_id (u ''op1'')" "is_id (u ''source_changed'')" by (simp_all add: is_id_def u_def text_simps)
  have t: "operations t = []" using g by (auto simp: guest_terminal_iff)
  with b have bg: "begun t s1 (u ''op1'') ''prepare''" unfolding begun_def using ids by simp blast
  then obtain ins key where new: "map_of (operations t) ''prepare'' = None"
    and s1: "s1 = add_op ''prepare'' (op_rec (u ''op1'') key ins IN_PROGRESS JNull) t" by (auto simp: begun_iff)
  obtain s2 where f: "fail_action s1 ''prepare'' (u ''op1'') (JStr (u ''source_changed'')) = Inr s2"
    and ops: "operations s2 = [(''prepare'', op_rec (u ''op1'') key ins FAILED (obj [(''error'', JStr (u ''source_changed''))]))]"
    using finish_fail [OF new, of "u ''op1''" key ins "JStr (u ''source_changed'')"] s1 g ids t by (auto simp: guest_terminal_iff)
  have r: "reachable (sample_binding ''pull'') (sample_destination ''pull'') s2"
    using reachable.start [OF g] b f ids by (meson reachable.step terminal_step.intros)
  have upd: "binding s2 = binding s1" "check_inputs s2 ''prepare'' x = check_inputs s1 ''prepare'' x" for x
    using f by (auto simp: fail_action_def result_iff check_inputs_def)
  have "map_of (operations s1) ''prepare'' = Some (op_rec (u ''op1'') key ins IN_PROGRESS JNull)" by (simp add: s1 t)
  with begin_again [OF b] have k: "action_key s1 ''prepare'' (obj []) = Inr key" "check_inputs s1 ''prepare'' (obj []) = Inr ()" by auto
  have "begin_action (u ''b'') s2 ''prepare'' (obj []) = Inr (op_rec (u ''op1'') key ins FAILED (obj [(''error'', JStr (u ''source_changed''))]), s2)"
    using ops upd k by (simp add: begin_action_def action_key_def)
  moreover have "s2 = s2" using failed_action_final [OF r, of "''prepare''"] ops by simp
  ultimately show ?thesis using r ops by fastforce
qed

end
