(* ===== verification/Wire.thy ===== *)
theory Wire
  imports Protocol
begin

text \<open>
  The binary chunk frame: \<open>src/velo_transfer/wire.py\<close>. A frame is a magic word, the length of a
  JSON header in four little-endian bytes, the header and the payload. The set of error codes,
  which the module reads from its schema file, is the argument \<open>codes\<close>; the conversion of float
  literals is the argument \<open>pf\<close> of the decoder. Proved: decoding an encoded frame gives the
  header and payload back, an accepted frame splits into exactly the announced chunks, and
  accepted request headers are within the limits.
\<close>

section \<open>Limits and field checks\<close>

definition bad_frame :: exn where
  "bad_frame = WireError ''invalid_frame''"

definition magic :: "byte list" where
  "magic = [86, 66, 84, 49]"

definition header_limit :: nat where
  "header_limit = 2 ^ 20"

definition chunk_limit :: nat where
  "chunk_limit = 2 ^ 20"

definition batch_limit :: nat where
  "batch_limit = 64 * 2 ^ 20"

definition body_limit :: nat where
  "body_limit = 100 * 2 ^ 20"

definition wire_object :: "json \<Rightarrow> string list \<Rightarrow> unit result" where
  "wire_object v keys = require (has_keys v keys) bad_frame"

definition integer_in :: "int \<Rightarrow> int option \<Rightarrow> json \<Rightarrow> bool" where
  "integer_in mn mx v \<longleftrightarrow> is_int v \<and> mn \<le> int_of v \<and> (case mx of None \<Rightarrow> True | Some m \<Rightarrow> int_of v \<le> m)"

definition wire_integer :: "int \<Rightarrow> int option \<Rightarrow> json \<Rightarrow> unit result" where
  "wire_integer mn mx v = require (integer_in mn mx v) bad_frame"

definition wire_digest :: "json \<Rightarrow> unit result" where
  "wire_digest v = require (is_digest v) bad_frame"

section \<open>Frame validation\<close>

definition byte_slice :: "nat \<Rightarrow> nat \<Rightarrow> 'a list \<Rightarrow> 'a list" where
  "byte_slice i j xs = take (j - i) (drop i xs)"

text \<open>One iteration of the chunk loop: the state is the cursor and the end of the previous chunk.\<close>

definition validate_item :: "bool \<Rightarrow> byte list \<Rightarrow> json \<Rightarrow> nat \<times> int option \<Rightarrow> (nat \<times> int option) result" where
  "validate_item pull payload it st = (case st of (cursor, previous_end) \<Rightarrow>
     rbind (wire_object it (if pull then [''offset'', ''count'', ''chunk_sha256''] else [''count'', ''chunk_sha256''])) (\<lambda>_.
     rbind (wire_integer 1 (Some (int chunk_limit)) (fld ''count'' it)) (\<lambda>_.
     rbind (wire_digest (fld ''chunk_sha256'' it)) (\<lambda>_.
     let count = int_of (fld ''count'' it) in
     rbind (if pull
            then rbind (wire_integer 0 None (fld ''offset'' it)) (\<lambda>_.
              let offset = int_of (fld ''offset'' it) in
              rbind (require (case previous_end of None \<Rightarrow> True | Some e \<Rightarrow> offset = e) bad_frame) (\<lambda>_.
              Inr (Some (offset + count))))
            else Inr previous_end) (\<lambda>prev.
     let end = cursor + nat count in
     rbind (require (end \<le> length payload \<and>
         JStr (sha256_hex (byte_slice cursor end payload)) = fld ''chunk_sha256'' it) bad_frame) (\<lambda>_.
     Inr (end, prev)))))))"

fun is_list :: "json \<Rightarrow> bool" where
  "is_list (JList xs) = True"
| "is_list v = False"

fun elems :: "json \<Rightarrow> json list" where
  "elems (JList xs) = xs"
| "elems v = []"

definition validate_chunks :: "bool \<Rightarrow> nat \<Rightarrow> json \<Rightarrow> byte list \<Rightarrow> unit result" where
  "validate_chunks pull minimum its payload =
     rbind (require (is_list its \<and> minimum \<le> length (elems its) \<and> length (elems its) \<le> 64 \<and>
       length payload \<le> batch_limit) bad_frame) (\<lambda>_.
     rbind (fold_res (validate_item pull payload) (elems its) (0, None)) (\<lambda>(cursor, _).
     require (cursor = length payload) bad_frame))"

definition validate :: "pystr list \<Rightarrow> json \<Rightarrow> byte list \<Rightarrow> string \<Rightarrow> unit result" where
  "validate codes header payload component =
     (if component = ''pull_request'' then
        rbind (wire_object header []) (\<lambda>_. require (payload = []) bad_frame)
      else if component = ''error_response'' then
        rbind (wire_object header [''status'', ''error'']) (\<lambda>_.
        rbind (wire_object (fld ''error'' header) [''code'']) (\<lambda>_.
        require (fld ''status'' header = JStr (u ''error'') \<and>
          (case fld ''code'' (fld ''error'' header) of JStr c \<Rightarrow> c \<in> set codes | _ \<Rightarrow> False) \<and> payload = []) bad_frame))
      else if component = ''push_response'' then
        rbind (wire_object header [''status'', ''result'']) (\<lambda>_.
        rbind (wire_object (fld ''result'' header) [''verified_offset'', ''accepted'']) (\<lambda>_.
        rbind (require (fld ''status'' header = JStr (u ''success'') \<and> payload = []) bad_frame) (\<lambda>_.
        rbind (wire_integer 0 None (fld ''verified_offset'' (fld ''result'' header))) (\<lambda>_.
        wire_integer 1 (Some 64) (fld ''accepted'' (fld ''result'' header))))))
      else if component = ''push_request'' then
        rbind (wire_object header [''chunks'']) (\<lambda>_. validate_chunks False 1 (fld ''chunks'' header) payload)
      else if component = ''pull_response'' then
        rbind (wire_object header [''status'', ''result'']) (\<lambda>_.
        rbind (wire_object (fld ''result'' header) [''verified_offset'', ''chunks'']) (\<lambda>_.
        rbind (require (fld ''status'' header = JStr (u ''success'')) bad_frame) (\<lambda>_.
        rbind (wire_integer 0 None (fld ''verified_offset'' (fld ''result'' header))) (\<lambda>_.
        validate_chunks True 0 (fld ''chunks'' (fld ''result'' header)) payload))))
      else Inl bad_frame)"

section \<open>Encoding and decoding\<close>

fun le_bytes :: "nat \<Rightarrow> nat \<Rightarrow> byte list" where
  "le_bytes 0 n = []"
| "le_bytes (Suc k) n = of_nat (n mod 256) # le_bytes k (n div 256)"

fun le_nat :: "byte list \<Rightarrow> nat" where
  "le_nat [] = 0"
| "le_nat (b # bs) = unat b + 256 * le_nat bs"

text \<open>Every \<open>ValueError\<close> (\<open>WireError\<close> among them), also of the UTF-8 decoder, becomes \<open>invalid_frame\<close>.\<close>

definition strict_json :: "(pystr \<Rightarrow> pyfloat) \<Rightarrow> byte list \<Rightarrow> json result" where
  "strict_json pf raw = (case rbind (decode_utf8 raw) (loads pf (unique_pairs bad_frame) (no_constant bad_frame)) of
     Inl _ \<Rightarrow> Inl bad_frame | Inr v \<Rightarrow> Inr v)"

definition parse :: "(pystr \<Rightarrow> pyfloat) \<Rightarrow> byte list \<Rightarrow> (json \<times> byte list) result" where
  "parse pf body =
     rbind (require (length body \<le> body_limit \<and> 8 \<le> length body \<and> take 4 body = magic) bad_frame) (\<lambda>_.
     let size = le_nat (byte_slice 4 8 body) in
     rbind (require (size \<le> header_limit \<and> 8 + size \<le> length body) bad_frame) (\<lambda>_.
     rbind (strict_json pf (byte_slice 8 (8 + size) body)) (\<lambda>header.
     rbind (require (is_obj header) bad_frame) (\<lambda>_.
     Inr (header, drop (8 + size) body)))))"

definition decode :: "pystr list \<Rightarrow> (pystr \<Rightarrow> pyfloat) \<Rightarrow> byte list \<Rightarrow> string \<Rightarrow> (json \<times> byte list) result" where
  "decode codes pf body component =
     rbind (parse pf body) (\<lambda>(header, payload).
     rbind (validate codes header payload component) (\<lambda>_. Inr (header, payload)))"

definition encode :: "pystr list \<Rightarrow> json \<Rightarrow> byte list \<Rightarrow> string \<Rightarrow> byte list result" where
  "encode codes header payload component =
     rbind (validate codes header payload component) (\<lambda>_.
     rbind (dumps_utf8 header) (\<lambda>raw.
     rbind (require (length raw \<le> header_limit \<and> 8 + length raw + length payload \<le> body_limit) bad_frame) (\<lambda>_.
     Inr (magic @ le_bytes 4 (length raw) @ raw @ payload))))"

section \<open>Request headers\<close>

definition lower_byte :: "byte \<Rightarrow> byte" where
  "lower_byte b = (if 65 \<le> b \<and> b \<le> 90 then b + 32 else b)"

definition is_space :: "nat \<Rightarrow> bool" where
  "is_space c \<longleftrightarrow> c = 32 \<or> (9 \<le> c \<and> c \<le> 13) \<or> (28 \<le> c \<and> c \<le> 31)"

definition ascii_bytes :: "string \<Rightarrow> byte list" where
  "ascii_bytes s = map of_nat (u s)"

text \<open>\<open>None\<close> is the absent header; the stripped text equals the text when neither end is a space.\<close>

definition one_header :: "(byte list \<times> byte list) list \<Rightarrow> string \<Rightarrow> bool \<Rightarrow> pystr option result" where
  "one_header headers name required =
     (let values = map snd (filter (\<lambda>(k, v). map lower_byte k = ascii_bytes name) headers) in
      if values = [] \<and> \<not> required then Inr None
      else rbind (require (length values = 1) bad_frame) (\<lambda>_.
        let value = map unat (hd values) in
        rbind (require (list_all (\<lambda>c. c < 128) value) bad_frame) (\<lambda>_.
        rbind (require (value \<noteq> [] \<and> \<not> is_space (hd value) \<and> \<not> is_space (last value) \<and> 44 \<notin> set value) bad_frame) (\<lambda>_.
        Inr (Some value)))))"

definition required_header :: "(byte list \<times> byte list) list \<Rightarrow> string \<Rightarrow> pystr result" where
  "required_header headers name = rbind (one_header headers name True) (\<lambda>v. Inr (case v of None \<Rightarrow> [] | Some s \<Rightarrow> s))"

definition is_decimal :: "pystr \<Rightarrow> bool" where
  "is_decimal s \<longleftrightarrow> s = [48] \<or> s \<noteq> [] \<and> hd s \<noteq> 48 \<and> list_all is_digit s"

definition number_headers :: "(string \<times> string \<times> int \<times> int option) list" where
  "number_headers = [(''x-velo-offset'', ''offset'', 0, None),
     (''x-velo-count-per-chunk'', ''count_per_chunk'', 1, Some (int chunk_limit)),
     (''x-velo-chunk-count'', ''chunk_count'', 1, Some 64)]"

definition number_header :: "(byte list \<times> byte list) list \<Rightarrow> pystr \<Rightarrow> string \<times> string \<times> int \<times> int option \<Rightarrow>
    (string \<times> json) list \<Rightarrow> (string \<times> json) list result" where
  "number_header headers direction spec value = (case spec of (name, key, mn, mx) \<Rightarrow>
     rbind (one_header headers name (key = ''offset'' \<or> direction = u ''pull'')) (\<lambda>raw.
     if direction = u ''push'' \<and> key \<noteq> ''offset'' then
       rbind (require (raw = None) bad_frame) (\<lambda>_. Inr value)
     else (case raw of None \<Rightarrow> Inl (PyError ''TypeError'') | Some s \<Rightarrow>
       rbind (require (length s \<le> 128 \<and> is_decimal s) bad_frame) (\<lambda>_.
       let n = JInt (int (digits_val s)) in
       rbind (wire_integer mn mx n) (\<lambda>_. Inr (value @ [(key, n)]))))))"

definition request_headers :: "(byte list \<times> byte list) list \<Rightarrow> (pystr \<times> (string \<times> json) list) result" where
  "request_headers headers =
     rbind (required_header headers ''x-velo-direction'') (\<lambda>direction.
     rbind (require (direction \<in> set [u ''push'', u ''pull'']) bad_frame) (\<lambda>_.
     rbind (required_header headers ''x-velo-transfer-id'') (\<lambda>tid.
     rbind (required_header headers ''x-velo-request-digest'') (\<lambda>dig.
     rbind (require (1 \<le> length tid \<and> length tid \<le> 128) bad_frame) (\<lambda>_.
     rbind (wire_digest (JStr dig)) (\<lambda>_.
     rbind (fold_res (number_header headers direction) number_headers
       [(''transfer_id'', JStr tid), (''request_digest'', JStr dig)]) (\<lambda>value.
     Inr (direction, value))))))))"

section \<open>What an accepted frame is\<close>

definition item_ok :: "bool \<Rightarrow> json \<Rightarrow> byte list \<Rightarrow> bool" where
  "item_ok pull it ch \<longleftrightarrow>
     has_keys it (if pull then [''offset'', ''count'', ''chunk_sha256''] else [''count'', ''chunk_sha256'']) \<and>
     fld ''count'' it = JInt (int (length ch)) \<and> 1 \<le> length ch \<and> length ch \<le> chunk_limit \<and>
     fld ''chunk_sha256'' it = JStr (sha256_hex ch) \<and> (pull \<longrightarrow> is_count (fld ''offset'' it))"

text \<open>The chunks of a pull response continue each other.\<close>

fun contiguous :: "int option \<Rightarrow> json list \<Rightarrow> bool" where
  "contiguous prev [] = True"
| "contiguous prev (it # its) = ((case prev of None \<Rightarrow> True | Some e \<Rightarrow> int_of (fld ''offset'' it) = e) \<and>
     contiguous (Some (int_of (fld ''offset'' it) + int_of (fld ''count'' it))) its)"

lemma length_slice: "i \<le> j \<Longrightarrow> j \<le> length xs \<Longrightarrow> length (byte_slice i j xs) = j - i"
  by (simp add: byte_slice_def)

lemma slice_append: "i \<le> j \<Longrightarrow> j \<le> k \<Longrightarrow> k \<le> length xs \<Longrightarrow> byte_slice i k xs = byte_slice i j xs @ byte_slice j k xs"
proof -
  assume "i \<le> j" "j \<le> k" "k \<le> length xs"
  then have "take (k - i) (drop i xs) = take ((j - i) + (k - j)) (drop i xs)" by simp
  also have "\<dots> = take (j - i) (drop i xs) @ take (k - j) (drop (j - i) (drop i xs))" by (rule take_add)
  also have "drop (j - i) (drop i xs) = drop j xs" using \<open>i \<le> j\<close> by simp
  finally show ?thesis by (simp add: byte_slice_def)
qed

definition item_ends :: "bool \<Rightarrow> json \<Rightarrow> int option \<Rightarrow> int option" where
  "item_ends pull it prev = (if pull then Some (int_of (fld ''offset'' it) + int_of (fld ''count'' it)) else prev)"

lemma is_digest_sha: "is_digest (JStr (sha256_hex bs))"
  by simp

lemma validate_item_iff:
  assumes "cur \<le> length payload"
  shows "validate_item pull payload it (cur, prev) = Inr (c, prev') \<longleftrightarrow>
    (\<exists>ch. item_ok pull it ch \<and> c = cur + length ch \<and> c \<le> length payload \<and> byte_slice cur c payload = ch \<and>
      (pull \<longrightarrow> (case prev of None \<Rightarrow> True | Some e \<Rightarrow> int_of (fld ''offset'' it) = e)) \<and> prev' = item_ends pull it prev)"
    (is "?l \<longleftrightarrow> ?r")
proof
  assume ?l
  then have ok: "has_keys it (if pull then [''offset'', ''count'', ''chunk_sha256''] else [''count'', ''chunk_sha256''])"
      "integer_in 1 (Some (int chunk_limit)) (fld ''count'' it)"
      "pull \<longrightarrow> integer_in 0 None (fld ''offset'' it)" "c = cur + nat (int_of (fld ''count'' it))" "c \<le> length payload"
      "JStr (sha256_hex (byte_slice cur c payload)) = fld ''chunk_sha256'' it"
      "pull \<longrightarrow> (case prev of None \<Rightarrow> True | Some e \<Rightarrow> int_of (fld ''offset'' it) = e)" "prev' = item_ends pull it prev"
    by (auto simp: validate_item_def wire_object_def wire_integer_def wire_digest_def Let_def result_iff item_ends_def split: if_splits)
  moreover obtain n where n: "fld ''count'' it = JInt n" "1 \<le> n" "n \<le> int chunk_limit"
    using ok(2) by (auto simp: integer_in_def is_int_iff)
  moreover from n ok have "length (byte_slice cur c payload) = nat n" by (simp add: length_slice)
  ultimately have "item_ok pull it (byte_slice cur c payload)"
    by (auto simp: item_ok_def integer_in_def is_count_def)
  with ok n \<open>length (byte_slice cur c payload) = nat n\<close> show ?r by (intro exI [of _ "byte_slice cur c payload"]) simp
next
  assume ?r
  then obtain ch where ch: "item_ok pull it ch" "c = cur + length ch" "c \<le> length payload" "byte_slice cur c payload = ch"
      "pull \<longrightarrow> (case prev of None \<Rightarrow> True | Some e \<Rightarrow> int_of (fld ''offset'' it) = e)" "prev' = item_ends pull it prev" by blast
  then show ?l
    by (auto simp: validate_item_def wire_object_def wire_integer_def wire_digest_def Let_def result_iff item_ends_def
        item_ok_def integer_in_def is_count_def)
qed

lemma fold_items_iff:
  "cur \<le> length payload \<Longrightarrow> (\<exists>prev'. fold_res (validate_item pull payload) its (cur, prev) = Inr (c, prev')) \<longleftrightarrow>
    (\<exists>chunks. list_all2 (item_ok pull) its chunks \<and> c = cur + length (concat chunks) \<and> c \<le> length payload \<and>
      byte_slice cur c payload = concat chunks \<and> (pull \<longrightarrow> contiguous prev its))"
proof (induction its arbitrary: cur prev)
  case Nil
  then show ?case by (auto simp: byte_slice_def)
next
  case (Cons it its)
  let ?ok = "\<lambda>ch. item_ok pull it ch \<and> cur + length ch \<le> length payload \<and> byte_slice cur (cur + length ch) payload = ch \<and>
      (pull \<longrightarrow> (case prev of None \<Rightarrow> True | Some e \<Rightarrow> int_of (fld ''offset'' it) = e))"
  have "(\<exists>prev'. fold_res (validate_item pull payload) (it # its) (cur, prev) = Inr (c, prev')) \<longleftrightarrow>
      (\<exists>ch. ?ok ch \<and> (\<exists>prev'. fold_res (validate_item pull payload) its (cur + length ch, item_ends pull it prev) = Inr (c, prev')))"
    by (simp only: fold_res.simps rbind_Inr_iff split_paired_Ex validate_item_iff [OF Cons.prems]) blast
  also have "\<dots> \<longleftrightarrow> (\<exists>ch chunks. ?ok ch \<and> list_all2 (item_ok pull) its chunks \<and> c = cur + length ch + length (concat chunks) \<and>
      c \<le> length payload \<and> byte_slice (cur + length ch) c payload = concat chunks \<and> (pull \<longrightarrow> contiguous (item_ends pull it prev) its))"
  proof (intro iff_exI)
    fix ch :: "byte list"
    show "(?ok ch \<and> (\<exists>prev'. fold_res (validate_item pull payload) its (cur + length ch, item_ends pull it prev) = Inr (c, prev'))) \<longleftrightarrow>
      (\<exists>chunks. ?ok ch \<and> list_all2 (item_ok pull) its chunks \<and> c = cur + length ch + length (concat chunks) \<and>
      c \<le> length payload \<and> byte_slice (cur + length ch) c payload = concat chunks \<and> (pull \<longrightarrow> contiguous (item_ends pull it prev) its))"
      using Cons.IH [of "cur + length ch" "item_ends pull it prev"]
      by (cases "cur + length ch \<le> length payload") (simp_all only: simp_thms ex_simps)
  qed
  also have "\<dots> \<longleftrightarrow> (\<exists>ch chunks. item_ok pull it ch \<and> list_all2 (item_ok pull) its chunks \<and>
      c = cur + length (concat (ch # chunks)) \<and> c \<le> length payload \<and> byte_slice cur c payload = concat (ch # chunks) \<and>
      (pull \<longrightarrow> contiguous prev (it # its)))"
  proof (intro iff_exI)
    fix ch :: "byte list" and chunks :: "byte list list"
    have "byte_slice cur c payload = byte_slice cur (cur + length ch) payload @ byte_slice (cur + length ch) c payload"
      if "c = cur + length ch + length (concat chunks)" "c \<le> length payload"
      using that by (intro slice_append) auto
    moreover have "length (byte_slice cur (cur + length ch) payload) = length ch" if "cur + length ch \<le> length payload"
      using that by (simp add: length_slice)
    ultimately show "(?ok ch \<and> list_all2 (item_ok pull) its chunks \<and> c = cur + length ch + length (concat chunks) \<and>
        c \<le> length payload \<and> byte_slice (cur + length ch) c payload = concat chunks \<and> (pull \<longrightarrow> contiguous (item_ends pull it prev) its)) \<longleftrightarrow>
      (item_ok pull it ch \<and> list_all2 (item_ok pull) its chunks \<and>
        c = cur + length (concat (ch # chunks)) \<and> c \<le> length payload \<and> byte_slice cur c payload = concat (ch # chunks) \<and>
        (pull \<longrightarrow> contiguous prev (it # its)))"
      by (auto simp: item_ends_def add.assoc)
  qed
  also have "\<dots> \<longleftrightarrow> (\<exists>chunks. list_all2 (item_ok pull) (it # its) chunks \<and> c = cur + length (concat chunks) \<and> c \<le> length payload \<and>
      byte_slice cur c payload = concat chunks \<and> (pull \<longrightarrow> contiguous prev (it # its)))"
    by (simp only: list_all2_Cons1) blast
  finally show ?case .
qed

lemma validate_chunks_iff:
  "validate_chunks pull minimum its payload = Inr x \<longleftrightarrow> is_list its \<and> minimum \<le> length (elems its) \<and>
     length (elems its) \<le> 64 \<and> length payload \<le> batch_limit \<and>
     (\<exists>chunks. list_all2 (item_ok pull) (elems its) chunks \<and> payload = concat chunks) \<and>
     (pull \<longrightarrow> contiguous None (elems its))"
proof -
  have "(\<exists>prev'. fold_res (validate_item pull payload) (elems its) (0, None) = Inr (length payload, prev')) \<longleftrightarrow>
    (\<exists>chunks. list_all2 (item_ok pull) (elems its) chunks \<and> payload = concat chunks) \<and> (pull \<longrightarrow> contiguous None (elems its))"
    by (subst fold_items_iff) (auto simp: byte_slice_def)
  then show ?thesis
    by (auto simp: validate_chunks_def result_iff)
qed

section \<open>Round trip\<close>

lemma le_nat_bytes: "n < 256 ^ k \<Longrightarrow> le_nat (le_bytes k n) = n"
proof (induction k arbitrary: n)
  case (Suc k)
  have "unat (of_nat (n mod 256) :: byte) = n mod 256" by (simp add: unat_of_nat)
  moreover have "n div 256 < 256 ^ k"
    using Suc.prems by (intro less_mult_imp_div_less) (simp add: mult.commute)
  then have "le_nat (le_bytes k (n div 256)) = n div 256" by (rule Suc.IH)
  ultimately have "le_nat (le_bytes (Suc k) n) = n mod 256 + 256 * (n div 256)"
    by (simp only: le_bytes.simps le_nat.simps)
  then show ?case by simp
qed simp

lemma length_le_bytes [simp]: "length (le_bytes k n) = k"
  by (induction k arbitrary: n) auto

lemma length_magic [simp]: "length magic = 4"
  by (simp add: magic_def)

lemma has_keys_plain:
  assumes "has_keys v ks" and "wf_json v" and "list_all (\<lambda>k. plain (fld k v)) ks"
  shows "plain v"
  using assms(3) by (intro plain_fields [OF assms(1,2)]) (simp add: list_all_iff)

lemma integer_in_plain: "integer_in mn mx v \<Longrightarrow> plain v"
  by (cases v) (auto simp: integer_in_def)

lemma item_plain:
  assumes "item_ok pull it ch" and "wf_json it"
  shows "plain it"
proof -
  have "plain (fld ''offset'' it)" if pull using that assms(1) plain_checks(4) by (auto simp: item_ok_def)
  then show ?thesis
    using assms by (intro has_keys_plain [of it "if pull then [''offset'', ''count'', ''chunk_sha256''] else [''count'', ''chunk_sha256'']"])
      (auto simp: item_ok_def)
qed

lemma chunks_plain:
  assumes "validate_chunks pull minimum its payload = Inr x" and "wf_json its"
  shows "plain its"
proof -
  obtain xs where xs: "its = JList xs" using assms(1) by (cases its) (auto simp: validate_chunks_iff)
  then obtain chunks where ok: "list_all2 (item_ok pull) xs chunks" using assms(1) by (auto simp: validate_chunks_iff)
  have "plain it" if "it \<in> set xs" for it
  proof -
    from ok that obtain ch where "item_ok pull it ch" by (auto simp: list_all2_conv_all_nth in_set_conv_nth)
    then show ?thesis using assms(2) that by (intro item_plain) (auto simp: xs list_all_iff)
  qed
  then show ?thesis by (simp add: xs list_all_iff)
qed

lemmas wire_checks = wire_object_def wire_integer_def wire_digest_def

lemma validate_plain:
  assumes "validate codes h p c = Inr x" and "wf_json h"
  shows "plain h"
proof -
  note wf = wf_json_fld [OF assms(2)] wf_json_fld [OF wf_json_fld [OF assms(2)]]
  consider "c = ''pull_request''" | "c = ''error_response''" | "c = ''push_response''" | "c = ''push_request''" | "c = ''pull_response''"
    using assms(1) by (auto simp: validate_def split: if_splits)
  then show ?thesis
  proof cases
    case 1
    with assms show ?thesis by (intro has_keys_plain [of h "[]"]) (auto simp: validate_def wire_checks result_iff)
  next
    case 2
    with assms(1) have k: "has_keys h [''status'', ''error'']" "has_keys (fld ''error'' h) [''code'']"
      "fld ''status'' h = JStr (u ''error'')" "plain (fld ''code'' (fld ''error'' h))"
      by (auto simp: validate_def wire_checks result_iff split: json.splits)
    then have "plain (fld ''error'' h)" by (intro has_keys_plain [OF k(2)]) (simp_all add: wf)
    with k assms(2) show ?thesis by (intro has_keys_plain [OF k(1)]) simp_all
  next
    case 3
    with assms(1) have k: "has_keys h [''status'', ''result'']" "has_keys (fld ''result'' h) [''verified_offset'', ''accepted'']"
      "fld ''status'' h = JStr (u ''success'')" "plain (fld ''verified_offset'' (fld ''result'' h))"
      "plain (fld ''accepted'' (fld ''result'' h))"
      using integer_in_plain by (auto simp: validate_def wire_checks result_iff)
    then have "plain (fld ''result'' h)" by (intro has_keys_plain [OF k(2)]) (simp_all add: wf)
    with k assms(2) show ?thesis by (intro has_keys_plain [OF k(1)]) simp_all
  next
    case 4
    with assms(1) have k: "has_keys h [''chunks'']" "validate_chunks False 1 (fld ''chunks'' h) p = Inr x"
      by (auto simp: validate_def wire_checks result_iff)
    then have "plain (fld ''chunks'' h)" using chunks_plain wf by blast
    with k assms(2) show ?thesis by (intro has_keys_plain [OF k(1)]) simp_all
  next
    case 5
    with assms(1) have k: "has_keys h [''status'', ''result'']" "has_keys (fld ''result'' h) [''verified_offset'', ''chunks'']"
      "fld ''status'' h = JStr (u ''success'')" "plain (fld ''verified_offset'' (fld ''result'' h))"
      "validate_chunks True 0 (fld ''chunks'' (fld ''result'' h)) p = Inr x"
      using integer_in_plain by (auto simp: validate_def wire_checks result_iff)
    have "plain (fld ''chunks'' (fld ''result'' h))" using chunks_plain [OF k(5)] wf by blast
    with k have "plain (fld ''result'' h)" by (intro has_keys_plain [OF k(2)]) (simp_all add: wf)
    with k assms(2) show ?thesis by (intro has_keys_plain [OF k(1)]) simp_all
  qed
qed

lemma validate_obj: "validate codes h p c = Inr x \<Longrightarrow> is_obj h"
  by (auto simp: validate_def wire_checks result_iff has_keys_def split: if_splits)

lemma encode_iff:
  "encode codes h p c = Inr body \<longleftrightarrow> (\<exists>raw. validate codes h p c = Inr () \<and> dumps_utf8 h = Inr raw \<and>
     length raw \<le> header_limit \<and> 8 + length raw + length p \<le> body_limit \<and>
     body = magic @ le_bytes 4 (length raw) @ raw @ p)"
  by (auto simp: encode_def result_iff)

lemma strict_json_dumps:
  assumes "dumps_utf8 h = Inr raw" and "wf_json h" and "plain h"
  shows "strict_json pf raw = Inr h"
proof -
  have "dumpable h" "encode_utf8 (dumps h) = Inr raw" using assms(1) by (auto simp: dumps_utf8_def)
  moreover from this(2) have "decode_utf8 raw = Inr (dumps h)" by (rule decode_encode_utf8)
  moreover have "loads pf (unique_pairs bad_frame) (no_constant bad_frame) (dumps h) = Inr h"
    using assms \<open>dumpable h\<close> by (intro loads_dumps) (auto simp: unique_pairs_def plain_floats)
  ultimately show ?thesis by (simp add: strict_json_def)
qed

lemma decode_encode:
  assumes "encode codes h p c = Inr body" and "wf_json h"
  shows "decode codes pf body c = Inr (h, p)"
proof -
  from assms(1) obtain raw where v: "validate codes h p c = Inr ()" and raw: "dumps_utf8 h = Inr raw"
    and lim: "length raw \<le> header_limit" "8 + length raw + length p \<le> body_limit"
    and body: "body = magic @ le_bytes 4 (length raw) @ raw @ p" by (auto simp: encode_iff)
  have size: "le_nat (byte_slice 4 8 body) = length raw"
    using lim by (simp add: body byte_slice_def le_nat_bytes header_limit_def)
  have hdr: "byte_slice 8 (8 + length raw) body = raw" "drop (8 + length raw) body = p"
    by (simp_all add: body byte_slice_def)
  have "parse pf body = Inr (h, p)"
    using lim strict_json_dumps [OF raw assms(2) validate_plain [OF v assms(2)], of pf] validate_obj [OF v]
    by (simp add: parse_def size hdr Let_def) (simp add: body)
  with v show ?thesis by (simp add: decode_def)
qed

section \<open>Errors\<close>

abbreviation frame_errors :: "'a result \<Rightarrow> bool" where
  "frame_errors \<equiv> fails_only (\<lambda>e. e = bad_frame)"

lemma frame_checks [fails_intros]:
  "frame_errors (wire_object v ks)" "frame_errors (wire_integer mn mx v)" "frame_errors (wire_digest v)"
  by (auto simp: wire_checks intro!: fails_intros)

lemma frame_validate_item [fails_intros]: "frame_errors (validate_item pull payload it st)"
  unfolding validate_item_def Let_def by (cases st) (auto intro!: fails_intros)

lemma frame_validate_chunks [fails_intros]: "frame_errors (validate_chunks pull minimum its payload)"
  unfolding validate_chunks_def by (auto intro!: fails_intros)

lemma frame_validate [fails_intros]: "frame_errors (validate codes h p c)"
  unfolding validate_def by (intro fails_intros refl)

lemma frame_strict_json [fails_intros]: "frame_errors (strict_json pf raw)"
  by (auto simp: strict_json_def fails_only_def split: sum.splits)

lemma frame_parse [fails_intros]: "frame_errors (parse pf body)"
  unfolding parse_def Let_def by (intro fails_intros refl)

lemma frame_decode: "frame_errors (decode codes pf body c)"
  unfolding decode_def by (auto intro!: fails_intros)

lemma frame_one_header [fails_intros]: "frame_errors (one_header hs name req)"
  unfolding one_header_def Let_def by (intro fails_intros refl)

lemma one_header_required: "one_header hs name True \<noteq> Inr None"
  by (simp add: one_header_def Let_def)

lemma frame_number_header [fails_intros]:
  assumes "direction = u ''push'' \<or> direction = u ''pull''"
  shows "frame_errors (number_header hs direction spec value)"
proof -
  obtain name key mn mx where spec: "spec = (name, key, mn, mx)" by (cases spec)
  have "frame_errors (case raw of None \<Rightarrow> Inl (PyError ''TypeError'') | Some s \<Rightarrow>
       rbind (require (length s \<le> 128 \<and> is_decimal s) bad_frame) (\<lambda>_.
       let n = JInt (int (digits_val s)) in
       rbind (wire_integer mn mx n) (\<lambda>_. Inr (value @ [(key, n)]))))"
    if "one_header hs name (key = ''offset'' \<or> direction = u ''pull'') = Inr raw" "\<not> (direction = u ''push'' \<and> key \<noteq> ''offset'')" for raw
    using that assms one_header_required [of hs name]
    by (cases raw) (auto simp: Let_def intro!: fails_intros)
  then show ?thesis by (auto simp: number_header_def spec intro!: fails_intros)
qed

lemma frame_request_headers: "frame_errors (request_headers hs)"
  unfolding request_headers_def required_header_def by (auto simp: require_Inr_iff intro!: fails_intros)

section \<open>Accepted request headers\<close>

lemma number_header_push:
  assumes "number_header hs (u ''push'') (name, key, mn, mx) value = Inr value'"
  shows "if key = ''offset'' then \<exists>n. value' = value @ [(key, JInt (int n))] \<and> integer_in mn mx (JInt (int n)) else value' = value"
  using assms by (auto simp: number_header_def result_iff wire_integer_def Let_def split: if_splits option.splits)

lemma number_header_pull:
  assumes "number_header hs (u ''pull'') (name, key, mn, mx) value = Inr value'"
  shows "\<exists>n. value' = value @ [(key, JInt (int n))] \<and> integer_in mn mx (JInt (int n))"
  using assms by (auto simp: number_header_def result_iff wire_integer_def Let_def split: option.splits)

lemma request_headers_shape:
  assumes "request_headers hs = Inr (direction, value)"
  shows "\<exists>tid dig n. 1 \<le> length tid \<and> length tid \<le> 128 \<and> is_hex64 dig \<and>
    (direction = u ''push'' \<and> value = [(''transfer_id'', JStr tid), (''request_digest'', JStr dig), (''offset'', JInt (int n))] \<or>
     direction = u ''pull'' \<and> (\<exists>c k. 1 \<le> c \<and> c \<le> chunk_limit \<and> 1 \<le> k \<and> k \<le> 64 \<and>
       value = [(''transfer_id'', JStr tid), (''request_digest'', JStr dig), (''offset'', JInt (int n)),
         (''count_per_chunk'', JInt (int c)), (''chunk_count'', JInt (int k))]))"
proof -
  from assms obtain tid dig where base: "direction = u ''push'' \<or> direction = u ''pull''" "1 \<le> length tid" "length tid \<le> 128" "is_hex64 dig"
    and fold: "fold_res (number_header hs direction) number_headers [(''transfer_id'', JStr tid), (''request_digest'', JStr dig)] = Inr value"
    by (auto simp: request_headers_def result_iff wire_digest_def)
  from fold obtain v1 v2 where
    v1: "number_header hs direction (''x-velo-offset'', ''offset'', 0, None) [(''transfer_id'', JStr tid), (''request_digest'', JStr dig)] = Inr v1" and
    v2: "number_header hs direction (''x-velo-count-per-chunk'', ''count_per_chunk'', 1, Some (int chunk_limit)) v1 = Inr v2" and
    v3: "number_header hs direction (''x-velo-chunk-count'', ''chunk_count'', 1, Some 64) v2 = Inr value"
    by (auto simp: number_headers_def rbind_Inr_iff)
  from base(1) show ?thesis
  proof
    assume dir: "direction = u ''push''"
    from number_header_push [OF v1 [unfolded dir]] number_header_push [OF v2 [unfolded dir]] number_header_push [OF v3 [unfolded dir]]
    show ?thesis using base dir by auto
  next
    assume dir: "direction = u ''pull''"
    from number_header_pull [OF v1 [unfolded dir]] number_header_pull [OF v2 [unfolded dir]] number_header_pull [OF v3 [unfolded dir]]
    obtain n c k where "value = [(''transfer_id'', JStr tid), (''request_digest'', JStr dig), (''offset'', JInt (int n)),
         (''count_per_chunk'', JInt (int c)), (''chunk_count'', JInt (int k))]" "1 \<le> c" "c \<le> chunk_limit" "1 \<le> k" "k \<le> 64"
      by (auto simp: integer_in_def)
    then show ?thesis using base dir by blast
  qed
qed

section \<open>Properties\<close>

definition sample_push_response :: json where
  "sample_push_response = obj [(''status'', JStr (u ''success'')),
     (''result'', obj [(''verified_offset'', JInt 5), (''accepted'', JInt 1)])]"

lemma sample_push_response_valid: "validate codes sample_push_response [] ''push_response'' = Inr ()"
  by (simp add: validate_def sample_push_response_def wire_checks same_set_def integer_in_def)

lemma sample_push_response_encodes:
  "\<exists>body. encode codes sample_push_response [] ''push_response'' = Inr body"
proof -
  have ser: "serial sample_push_response" by (simp add: sample_push_response_def serial_obj)
  then have raw: "dumps_utf8 sample_push_response = Inr (utf8_bytes (dumps sample_push_response))"
    by (simp add: serial_def dumps_utf8_def encode_utf8_def scalar_dumps)
  have "length (utf8_bytes (dumps sample_push_response)) = cost sample_push_response" by (simp add: cost_def)
  also have "\<dots> \<le> 200"
    by (simp add: sample_push_response_def obj_def cost_simps text_cost_eq cost_int int_str_def dec_digits.simps u_def char_cost_def)
  finally show ?thesis
    by (simp add: encode_iff sample_push_response_valid raw header_limit_def body_limit_def)
qed

text \<open>
  C12: decoding an encoded frame returns the same header and the same payload, for every component
  and whatever the float conversion does: the accepted headers hold no floats.
\<close>

theorem wire_roundtrip:
  assumes "encode codes h p c = Inr body" and "wf_json h"
  shows "decode codes pf body c = Inr (h, p)"
  using assms by (rule decode_encode)

theorem wire_roundtrip_witness:
  "\<exists>body. encode [] sample_push_response [] ''push_response'' = Inr body \<and>
     decode [] (\<lambda>_. FloatNan) body ''push_response'' = Inr (sample_push_response, [])"
proof -
  obtain body where b: "encode [] sample_push_response [] ''push_response'' = Inr body"
    using sample_push_response_encodes by blast
  have "wf_json sample_push_response" by (simp add: sample_push_response_def wf_json_obj)
  from wire_roundtrip [OF b this] b show ?thesis by blast
qed


text \<open>
  C14: an accepted pull response announces chunks that continue each other without gap or overlap,
  and its payload is their concatenation.
\<close>

theorem pull_batch_contiguous:
  assumes "decode codes pf body ''pull_response'' = Inr (h, p)"
  shows "contiguous None (elems (fld ''chunks'' (fld ''result'' h))) \<and> length p \<le> batch_limit \<and>
    (\<exists>chunks. p = concat chunks \<and> list_all2 (item_ok True) (elems (fld ''chunks'' (fld ''result'' h))) chunks)"
proof -
  have "validate codes h p ''pull_response'' = Inr ()"
    using assms by (auto simp: decode_def result_iff)
  then show ?thesis by (auto simp: validate_def validate_chunks_iff result_iff)
qed

definition sample_pull_response :: json where
  "sample_pull_response = obj [(''status'', JStr (u ''success'')),
     (''result'', obj [(''verified_offset'', JInt 5), (''chunks'', JList [])])]"

theorem pull_batch_contiguous_witness:
  "\<exists>body. decode [] (\<lambda>_. FloatNan) body ''pull_response'' = Inr (sample_pull_response, []) \<and>
     contiguous None (elems (fld ''chunks'' (fld ''result'' sample_pull_response)))"
proof -
  have ser: "serial sample_pull_response" by (simp add: sample_pull_response_def serial_obj) (simp add: serial_def)
  then have raw: "dumps_utf8 sample_pull_response = Inr (utf8_bytes (dumps sample_pull_response))"
    by (simp add: serial_def dumps_utf8_def encode_utf8_def scalar_dumps)
  have "length (utf8_bytes (dumps sample_pull_response)) = cost sample_pull_response" by (simp add: cost_def)
  also have "\<dots> \<le> 200"
    by (simp add: sample_pull_response_def obj_def cost_simps text_cost_eq cost_int int_str_def dec_digits.simps u_def char_cost_def)
  finally have len: "length (utf8_bytes (dumps sample_pull_response)) \<le> 200" .
  have "validate [] sample_pull_response [] ''pull_response'' = Inr ()"
    by (simp add: validate_def sample_pull_response_def wire_checks same_set_def integer_in_def validate_chunks_def)
  with raw len obtain body where b: "encode [] sample_pull_response [] ''pull_response'' = Inr body"
    by (simp add: encode_iff header_limit_def body_limit_def)
  from decode_encode [OF b, of "\<lambda>_. FloatNan"] ser have d: "decode [] (\<lambda>_. FloatNan) body ''pull_response'' = Inr (sample_pull_response, [])"
    by (simp add: serial_def)
  from pull_batch_contiguous [OF d] d show ?thesis by blast
qed



text \<open>
  Accepted request headers are within the protocol's limits: a transfer id of 1 to 128
  characters, a lower-case hexadecimal digest and a non-negative offset; a pull also has a count
  per chunk of 1 byte to 1 MiB and 1 to 64 chunks, and a push carries neither field.
\<close>

theorem request_headers_bounded:
  assumes "request_headers hs = Inr (direction, value)"
  shows "\<exists>tid dig n. 1 \<le> length tid \<and> length tid \<le> 128 \<and> is_hex64 dig \<and>
    (direction = u ''push'' \<and> value = [(''transfer_id'', JStr tid), (''request_digest'', JStr dig), (''offset'', JInt (int n))] \<or>
     direction = u ''pull'' \<and> (\<exists>c k. 1 \<le> c \<and> c \<le> 1048576 \<and> 1 \<le> k \<and> k \<le> 64 \<and>
       value = [(''transfer_id'', JStr tid), (''request_digest'', JStr dig), (''offset'', JInt (int n)),
         (''count_per_chunk'', JInt (int c)), (''chunk_count'', JInt (int k))]))"
  using request_headers_shape [OF assms] by (simp add: chunk_limit_def)

definition sample_headers :: "(byte list \<times> byte list) list" where
  "sample_headers = [(ascii_bytes ''X-Velo-Direction'', ascii_bytes ''push''), (ascii_bytes ''x-velo-transfer-id'', ascii_bytes ''t1''),
     (ascii_bytes ''x-velo-request-digest'', replicate 64 48), (ascii_bytes ''x-velo-offset'', ascii_bytes ''10'')]"

theorem request_headers_bounded_witness:
  "request_headers sample_headers = Inr (u ''push'', [(''transfer_id'', JStr (u ''t1'')),
     (''request_digest'', JStr (replicate 64 48)), (''offset'', JInt 10)]) \<and>
   (\<exists>tid dig n. 1 \<le> length tid \<and> length tid \<le> 128 \<and> is_hex64 dig \<and>
     [(''transfer_id'', JStr (u ''t1'')), (''request_digest'', JStr (replicate 64 48)), (''offset'', JInt 10)] =
     [(''transfer_id'', JStr tid), (''request_digest'', JStr dig), (''offset'', JInt (int n))])"
proof -
  have hdr: "request_headers sample_headers = Inr (u ''push'', [(''transfer_id'', JStr (u ''t1'')),
     (''request_digest'', JStr (replicate 64 48)), (''offset'', JInt 10)])"
    by (simp add: request_headers_def required_header_def one_header_def sample_headers_def ascii_bytes_def u_def lower_byte_def
        number_headers_def number_header_def wire_checks integer_in_def is_space_def is_decimal_def is_digit_def digits_val_def
        list_all_iff)
  from request_headers_bounded [OF hdr] have "\<exists>tid dig n. 1 \<le> length tid \<and> length tid \<le> 128 \<and> is_hex64 dig \<and>
     [(''transfer_id'', JStr (u ''t1'')), (''request_digest'', JStr (replicate 64 48)), (''offset'', JInt 10)] =
     [(''transfer_id'', JStr tid), (''request_digest'', JStr dig), (''offset'', JInt (int n))]" by auto
  with hdr show ?thesis by blast
qed

end
