(* ===== verification/Paths.thy ===== *)
theory Paths
  imports Terminal Wire
begin

text \<open>
  Relative names and the source tree: \<open>check_relative\<close>, \<open>_check_collisions\<close>, \<open>safe_chain\<close> and the
  stat helpers of \<open>src/velo_transfer/manifest.py\<close>. The Unicode database (\<open>unicodedata.normalize\<close>
  and \<open>str.casefold\<close>) is the argument \<open>ucd\<close>. The file system is a tree of nodes seen at one
  instant; a symbolic link carries the node it resolves to. Paths are POSIX paths, lists of parts.
\<close>

section \<open>Relative names\<close>

record unicode_db =
  nfc :: "pystr \<Rightarrow> pystr"
  casefold :: "pystr \<Rightarrow> pystr"

definition bad_relative :: exn where
  "bad_relative = Error ''invalid_relative_path''"

text \<open>
  Case-insensitive comparison of a pattern letter as \<open>re.IGNORECASE\<close> does it: the simple lower
  case of the character, with the dotless i as a variant of i.
\<close>

definition lower1 :: "nat \<Rightarrow> nat" where
  "lower1 c = (if 65 \<le> c \<and> c \<le> 90 then c + 32 else if c = 304 then 105 else if c = 8490 then 107 else c)"

definition ci_char :: "nat \<Rightarrow> nat \<Rightarrow> bool" where
  "ci_char p c \<longleftrightarrow> lower1 c = p \<or> (p = 105 \<and> c = 305)"

definition ci_prefix :: "pystr \<Rightarrow> pystr \<Rightarrow> bool" where
  "ci_prefix p s \<longleftrightarrow> length p \<le> length s \<and> list_all2 ci_char p (take (length p) s)"

text \<open>\<open>(?:\.|$)\<close> at the head of what is left.\<close>

definition dot_or_end :: "pystr \<Rightarrow> bool" where
  "dot_or_end s \<longleftrightarrow> s = [] \<or> hd s = 46 \<or> s = [10]"

definition reserved_words :: "string list" where
  "reserved_words = [''con'', ''prn'', ''aux'', ''nul'', ''conin$'', ''conout$'', ''clock$'']"

definition is_reserved :: "pystr \<Rightarrow> bool" where
  "is_reserved part \<longleftrightarrow>
     list_ex (\<lambda>w. ci_prefix (u w) part \<and> dot_or_end (drop (length w) part)) reserved_words \<or>
     list_ex (\<lambda>w. ci_prefix (u w) part \<and> (case drop 3 part of [] \<Rightarrow> False | c # r \<Rightarrow> is_digit c \<and> dot_or_end r)) [''com'', ''lpt'']"

definition is_short_alias :: "pystr \<Rightarrow> bool" where
  "is_short_alias part \<longleftrightarrow> list_ex (\<lambda>k. list_all (\<lambda>c. c \<noteq> 46 \<and> c \<noteq> 47) (take k part) \<and>
     (case drop k part of t # c # r \<Rightarrow> t = 126 \<and> is_digit c \<and> dot_or_end r | _ \<Rightarrow> False)) [1, 2, 3, 4, 5, 6]"

definition bad_part :: "unicode_db \<Rightarrow> pystr \<Rightarrow> bool" where
  "bad_part ucd part \<longleftrightarrow> part \<in> set [[], u ''.'', u ''..''] \<or> nfc ucd part \<noteq> part \<or> 58 \<in> set part \<or>
     ends_with (u '' '') part \<or> ends_with (u ''.'') part \<or> is_reserved part \<or> is_short_alias part \<or>
     list_ex (\<lambda>c. c \<in> set (u ''<>\"|?*'')) part \<or> list_ex (\<lambda>c. c < 32) part"

definition has_drive :: "pystr \<Rightarrow> bool" where
  "has_drive s \<longleftrightarrow> (case s of c # d # _ \<Rightarrow> (is_lower c \<or> is_upper c) \<and> d = 58 | _ \<Rightarrow> False)"

definition check_relative :: "unicode_db \<Rightarrow> json \<Rightarrow> pystr result" where
  "check_relative ucd value = (case value of
     JStr s \<Rightarrow>
       rbind (require (s \<noteq> [] \<and> 0 \<notin> set s \<and> 92 \<notin> set s) bad_relative) (\<lambda>_.
       rbind (require (\<not> starts_with (u ''/'') s \<and> \<not> has_drive s) bad_relative) (\<lambda>_.
       rbind (for_each (\<lambda>part. require (\<not> bad_part ucd part) bad_relative) (split_on 47 s)) (\<lambda>_. Inr s)))
   | _ \<Rightarrow> Inl bad_relative)"

definition safe_name :: "unicode_db \<Rightarrow> pystr \<Rightarrow> bool" where
  "safe_name ucd s \<longleftrightarrow> s \<noteq> [] \<and> 0 \<notin> set s \<and> 92 \<notin> set s \<and> \<not> starts_with (u ''/'') s \<and> \<not> has_drive s \<and>
     list_all (\<lambda>part. \<not> bad_part ucd part) (split_on 47 s)"

lemma check_relative_iff [result_iff]: "check_relative ucd v = Inr s \<longleftrightarrow> v = JStr s \<and> safe_name ucd s"
  by (cases v) (auto simp: check_relative_def safe_name_def result_iff list_all_iff)

lemma check_relative_fails [fails_intros]: "P bad_relative \<Longrightarrow> fails_only P (check_relative ucd v)"
  unfolding check_relative_def by (cases v) (auto intro!: fails_intros)

section \<open>Collisions\<close>

definition collision :: exn where
  "collision = Error ''path_collision''"

definition fold_step :: "unicode_db \<Rightarrow> pystr \<Rightarrow> pystr list \<Rightarrow> pystr list result" where
  "fold_step ucd name seen =
     rbind (check_relative ucd (JStr name)) (\<lambda>_.
     rbind (require (casefold ucd name \<notin> set seen) collision) (\<lambda>_.
     Inr (seen @ [casefold ucd name])))"

text \<open>The proper ancestors of a name: \<open>"/".join(parts[:index])\<close> for \<open>1 <= index < len(parts)\<close>.\<close>

definition ancestors :: "pystr \<Rightarrow> pystr list" where
  "ancestors s = (let parts = split_on 47 s in map (\<lambda>i. join_on 47 (take i parts)) [1..<length parts])"

definition check_collisions :: "unicode_db \<Rightarrow> pystr list \<Rightarrow> pystr list \<Rightarrow> unit result" where
  "check_collisions ucd names directories =
     rbind (fold_res (fold_step ucd) names []) (\<lambda>seen.
     let directory_folded = map (casefold ucd) directories;
         file_folded = filter (\<lambda>n. n \<notin> set directory_folded) seen
     in for_each (\<lambda>name. require (\<not> list_ex (\<lambda>a. a \<in> set file_folded) (ancestors (casefold ucd name))) collision) names)"

lemma fold_step_iff:
  "fold_res (fold_step ucd) names seen = Inr out \<longleftrightarrow> list_all (safe_name ucd) names \<and>
     out = seen @ map (casefold ucd) names \<and> distinct (map (casefold ucd) names) \<and>
     set (map (casefold ucd) names) \<inter> set seen = {}"
proof (induction names arbitrary: seen)
  case (Cons n ns)
  then show ?case by (auto simp: rbind_Inr_iff fold_step_def result_iff)
qed auto

lemma check_collisions_iff:
  "check_collisions ucd names dirs = Inr x \<longleftrightarrow> list_all (safe_name ucd) names \<and> distinct (map (casefold ucd) names) \<and>
     (\<forall>n \<in> set names. \<forall>a \<in> set (ancestors (casefold ucd n)).
        a \<in> casefold ucd ` set names \<longrightarrow> a \<in> casefold ucd ` set dirs)"
  unfolding check_collisions_def
  by (auto simp: rbind_Inr_iff fold_step_iff Let_def for_each_Inr_iff require_Inr_iff list_ex_iff)

section \<open>The file system\<close>

record stat =
  st_dev :: int
  st_ino :: int
  st_size :: int
  st_mtime_ns :: int
  st_ctime_ns :: int
  st_mode :: nat
  st_uid :: int
  st_nlink :: int

text \<open>\<open>st_mode\<close> is the twelve permission bits; the file type is the kind of node.\<close>

datatype node = FileN stat "byte list" | DirN stat "(pystr \<times> node) list" | LinkN "node option" | OtherN stat

type_synonym path = "pystr list"

text \<open>\<open>os.lstat\<close>: links are followed on the way, not at the end.\<close>

lemma size_member_node [termination_simp]: "map_of kids p = Some n \<Longrightarrow> size n < Suc (size_list (size_prod (\<lambda>_. 0) size) kids)"
  by (induction kids) (auto split: if_splits)

fun lookup :: "node \<Rightarrow> path \<Rightarrow> node option" where
  "lookup n [] = Some n"
| "lookup (DirN st kids) (p # ps) = (case map_of kids p of None \<Rightarrow> None | Some n \<Rightarrow> lookup n ps)"
| "lookup (LinkN (Some t)) (p # ps) = lookup t (p # ps)"
| "lookup n (p # ps) = None"

fun node_stat :: "node \<Rightarrow> stat option" where
  "node_stat (FileN st bs) = Some st"
| "node_stat (DirN st kids) = Some st"
| "node_stat (OtherN st) = Some st"
| "node_stat (LinkN t) = None"

definition source_unavailable :: exn where
  "source_unavailable = Error ''source_unavailable''"

text \<open>\<open>_no_link\<close>: the stat of a path that is not a link.\<close>

definition no_link :: "node \<Rightarrow> path \<Rightarrow> node result" where
  "no_link fs p = (case lookup fs p of
     None \<Rightarrow> Inl source_unavailable
   | Some (LinkN t) \<Rightarrow> Inl (Error ''link_or_reparse'')
   | Some n \<Rightarrow> Inr n)"

definition is_prefix :: "path \<Rightarrow> path \<Rightarrow> bool" where
  "is_prefix r p \<longleftrightarrow> take (length r) p = r"

fun chain_parts :: "unicode_db \<Rightarrow> node \<Rightarrow> bool \<Rightarrow> path \<Rightarrow> path \<Rightarrow> unit result" where
  "chain_parts ucd fs allow current [] = Inr ()"
| "chain_parts ucd fs allow current (part # rest) =
     rbind (check_relative ucd (JStr part)) (\<lambda>_.
     let current' = current @ [part] in
     if allow \<and> rest = [] \<and> lookup fs current' = None then Inr ()
     else rbind (no_link fs current') (\<lambda>_. chain_parts ucd fs allow current' rest))"

definition safe_chain :: "unicode_db \<Rightarrow> node \<Rightarrow> path \<Rightarrow> path \<Rightarrow> bool \<Rightarrow> unit result" where
  "safe_chain ucd fs p root allow =
     rbind (require (is_prefix root p) (Error ''path_outside_root'')) (\<lambda>_.
     rbind (for_each (\<lambda>i. rbind (no_link fs (take i root)) (\<lambda>_. Inr ())) [0..<Suc (length root)]) (\<lambda>_.
     chain_parts ucd fs allow root (drop (length root) p)))"

definition file_identity :: "stat \<Rightarrow> json" where
  "file_identity st = obj [(''device'', JInt (st_dev st)), (''inode'', JInt (st_ino st)),
     (''size'', JInt (st_size st)), (''mtime_ns'', JInt (st_mtime_ns st))]"

definition dir_identity :: "node \<Rightarrow> path \<Rightarrow> json result" where
  "dir_identity fs p = rbind (no_link fs p) (\<lambda>n. case n of
     DirN st kids \<Rightarrow> Inr (obj [(''device'', JInt (st_dev st)), (''inode'', JInt (st_ino st))])
   | _ \<Rightarrow> Inl (Error ''not_directory''))"

section \<open>Chains without links\<close>

text \<open>No node on the way from the root of the file system to the path is a link.\<close>

fun linkless :: "node \<Rightarrow> path \<Rightarrow> bool" where
  "linkless (LinkN t) ps = False"
| "linkless n [] = True"
| "linkless (DirN st kids) (p # ps) = (case map_of kids p of None \<Rightarrow> False | Some n \<Rightarrow> linkless n ps)"
| "linkless n (p # ps) = False"

lemma no_link_iff: "no_link fs p = Inr n \<longleftrightarrow> lookup fs p = Some n \<and> (\<forall>t. n \<noteq> LinkN t)"
  by (auto simp: no_link_def split: option.splits node.splits)

lemma linkless_lookup: "linkless n p \<Longrightarrow> \<exists>m. lookup n p = Some m \<and> (\<forall>t. m \<noteq> LinkN t)"
  by (induction n p rule: linkless.induct) (auto split: option.splits)

lemma linkless_Nil [simp]: "linkless n [] \<longleftrightarrow> (\<forall>t. n \<noteq> LinkN t)"
  by (cases n) auto

lemma linkless_snoc:
  "linkless n (p @ [x]) \<longleftrightarrow> linkless n p \<and> (\<exists>m. lookup n (p @ [x]) = Some m \<and> (\<forall>t. m \<noteq> LinkN t))"
  by (induction n p rule: linkless.induct) (auto split: option.splits dest: linkless_lookup)

lemma linkless_prefix: "linkless fs (p @ q) \<Longrightarrow> linkless fs p"
  by (induction q rule: rev_induct) (auto simp: linkless_snoc simp flip: append_assoc)

lemma linkless_prefixes:
  "linkless fs p \<longleftrightarrow> (\<forall>i \<le> length p. \<exists>m. no_link fs (take i p) = Inr m)"
proof (induction p rule: rev_induct)
  case Nil
  then show ?case by (simp add: no_link_iff)
next
  case (snoc x p)
  have "(\<forall>i \<le> length (p @ [x]). \<exists>m. no_link fs (take i (p @ [x])) = Inr m) \<longleftrightarrow>
      (\<forall>i \<le> length p. \<exists>m. no_link fs (take i p) = Inr m) \<and> (\<exists>m. no_link fs (p @ [x]) = Inr m)"
    by (auto simp: le_Suc_eq all_conj_distrib)
  with snoc show ?case by (simp add: linkless_snoc no_link_iff)
qed

lemma chain_parts_iff:
  "linkless fs current \<Longrightarrow> chain_parts ucd fs False current rest = Inr x \<longleftrightarrow>
     list_all (safe_name ucd) rest \<and> linkless fs (current @ rest)"
proof (induction rest arbitrary: current)
  case (Cons part rest)
  have "linkless fs (current @ part # rest) \<Longrightarrow> linkless fs (current @ [part])"
    using linkless_prefix [of fs "current @ [part]" rest] by simp
  then show ?case
    using Cons.IH [of "current @ [part]"] Cons.prems
    by (auto simp: result_iff Let_def linkless_snoc no_link_iff)
qed simp

lemma safe_chain_iff:
  "safe_chain ucd fs p root False = Inr x \<longleftrightarrow> is_prefix root p \<and> linkless fs p \<and> list_all (safe_name ucd) (drop (length root) p)"
proof (cases "is_prefix root p")
  case True
  then have p: "root @ drop (length root) p = p" by (metis append_take_drop_id is_prefix_def)
  have "for_each (\<lambda>i. rbind (no_link fs (take i root)) (\<lambda>_. Inr ())) [0..<Suc (length root)] = Inr () \<longleftrightarrow> linkless fs root"
    by (auto simp: for_each_Inr_iff rbind_Inr_iff linkless_prefixes less_Suc_eq_le simp del: upt_Suc)
  moreover have "linkless fs p \<Longrightarrow> linkless fs root" using linkless_prefix [of fs root "drop (length root) p"] p by simp
  ultimately show ?thesis
    using True chain_parts_iff [of fs root ucd "drop (length root) p"] p
    by (auto simp: safe_chain_def rbind_Inr_iff simp del: upt_Suc)
qed (simp add: safe_chain_def)

section \<open>Properties\<close>

text \<open>
  C16: \<open>safe_chain\<close> accepts a path exactly when it lies under the root, every part below the root is
  a safe name (never empty, a dot, a double dot, a drive, a reserved or a short alias name), and
  no node from the root of the file system down to the path is a symbolic link.
\<close>

theorem safe_chain_exact:
  "is_ok (safe_chain ucd fs p root False) \<longleftrightarrow> (\<exists>q. p = root @ q \<and> list_all (safe_name ucd) q) \<and> linkless fs p"
proof -
  have "is_prefix root p \<and> list_all (safe_name ucd) (drop (length root) p) \<longleftrightarrow> (\<exists>q. p = root @ q \<and> list_all (safe_name ucd) q)"
    by (metis append_eq_conv_conj append_take_drop_id is_prefix_def)
  then show ?thesis by (auto simp: is_ok_iff safe_chain_iff)
qed


lemmas name_defs = safe_name_def bad_part_def is_reserved_def is_short_alias_def reserved_words_def ci_prefix_def ci_char_def
  lower1_def dot_or_end_def has_drive_def starts_with_def ends_with_def u_def text_simps


end
