(* ===== verification/Manifest.thy ===== *)
theory Manifest
  imports Paths
begin

text \<open>
  The source inventory: \<open>Budget\<close>, \<open>_hash_file\<close>, \<open>source_root_for\<close>, \<open>_scan\<close>, \<open>capture_sources\<close> and
  \<open>validate_sources\<close> of \<open>src/velo_transfer/manifest.py\<close>. The clock reading is the argument \<open>now\<close>
  and is constant during one scan; \<open>check_cancel\<close> is the exception the caller's callback raises,
  if any.
\<close>

section \<open>Budgets\<close>

record budget =
  max_files :: int
  max_metadata_bytes :: int
  max_logical_bytes :: int
  max_package_bytes :: int
  min_free_bytes :: int
  deadline_monotonic :: int
  max_expansion_ratio :: int
  check_cancel :: "exn option"

definition budget_check :: "budget \<Rightarrow> int \<Rightarrow> unit result" where
  "budget_check b now =
     rbind (require (0 < min (min (max_files b) (max_metadata_bytes b)) (min (max_package_bytes b) (max_expansion_ratio b)) \<and>
       0 \<le> max_logical_bytes b \<and> 0 \<le> min_free_bytes b) (Error ''invalid_budget'')) (\<lambda>_.
     rbind (require (now < deadline_monotonic b) (Error ''deadline_exceeded'')) (\<lambda>_.
     case check_cancel b of None \<Rightarrow> Inr () | Some e \<Rightarrow> Inl e))"

text \<open>\<open>free\<close> is the free space reported by the system, \<open>None\<close> when the probe fails.\<close>

definition budget_space :: "budget \<Rightarrow> int \<Rightarrow> int option \<Rightarrow> int \<Rightarrow> unit result" where
  "budget_space b now free required =
     rbind (budget_check b now) (\<lambda>_.
     case free of None \<Rightarrow> Inl (Error ''disk_probe_failed'')
     | Some f \<Rightarrow> require (required + min_free_bytes b \<le> f) (Error ''disk_budget_exceeded''))"

section \<open>Hashing a file\<close>

definition block_size :: nat where
  "block_size = 1048576"

text \<open>The read loop: one budget check per block, the byte seen against the budget after each.\<close>

function read_loop :: "budget \<Rightarrow> int \<Rightarrow> int \<Rightarrow> exn \<Rightarrow> byte list \<Rightarrow> int \<Rightarrow> int result" where
  "read_loop b now limit over bs seen =
     rbind (budget_check b now) (\<lambda>_.
     if bs = [] then Inr seen
     else let chunk = take block_size bs; seen' = seen + int (length chunk) in
       rbind (require (seen' \<le> limit) over) (\<lambda>_. read_loop b now limit over (drop block_size bs) seen'))"
  by pat_completeness auto
termination
  by (relation "measure (\<lambda>(b, now, limit, over, bs, seen). length bs)") (auto simp: block_size_def)

declare read_loop.simps [simp del]

definition hash_file :: "unicode_db \<Rightarrow> node \<Rightarrow> path \<Rightarrow> path \<Rightarrow> budget \<Rightarrow> int \<Rightarrow> (json \<times> pystr) result" where
  "hash_file ucd fs p root b now =
     rbind (safe_chain ucd fs p root False) (\<lambda>_.
     rbind (no_link fs p) (\<lambda>n. case n of
       FileN st bs \<Rightarrow>
         rbind (read_loop b now (max_logical_bytes b) (Error ''logical_budget_exceeded'') bs 0) (\<lambda>seen.
         rbind (require (seen = st_size st) (Error ''source_changed'')) (\<lambda>_.
         Inr (file_identity st, sha256_hex bs)))
     | _ \<Rightarrow> Inl (Error ''unsupported_source_type'')))"

section \<open>Choosing a root\<close>

fun is_dir :: "node \<Rightarrow> bool" where
  "is_dir (DirN st kids) = True"
| "is_dir (LinkN (Some t)) = is_dir t"
| "is_dir n = False"

definition path_is_dir :: "node \<Rightarrow> path \<Rightarrow> bool" where
  "path_is_dir fs p = (case lookup fs p of None \<Rightarrow> False | Some n \<Rightarrow> is_dir n)"

text \<open>The first longest of the matching roots, as \<open>max\<close> with a key picks it.\<close>

fun longest :: "path list \<Rightarrow> path \<Rightarrow> path" where
  "longest [] best = best"
| "longest (r # rs) best = longest rs (if length best < length r then r else best)"

definition source_root_for :: "unicode_db \<Rightarrow> node \<Rightarrow> path \<Rightarrow> path list \<Rightarrow> path result" where
  "source_root_for ucd fs p roots =
     rbind (require (roots \<noteq> [] \<and> list_all (path_is_dir fs) roots) (Error ''invalid_source_root'')) (\<lambda>_.
     case filter (\<lambda>r. is_prefix r p) roots of
       [] \<Rightarrow> Inl (Error ''path_outside_root'')
     | m # ms \<Rightarrow> let root = longest ms m in rbind (safe_chain ucd fs p root False) (\<lambda>_. Inr root))"

section \<open>Scanning\<close>

record scan =
  entries :: "json list"
  names :: "pystr list"
  logical :: int
  metadata :: int

definition manifest_schema :: json where
  "manifest_schema = JStr (u ''velo.transfer.manifest.v1'')"

definition directory_entry :: "pystr \<Rightarrow> json \<Rightarrow> json" where
  "directory_entry name identity = obj [(''path'', JStr name), (''type'', JStr (u ''directory'')), (''identity'', identity)]"

definition file_entry :: "pystr \<Rightarrow> json \<Rightarrow> json \<Rightarrow> json \<Rightarrow> json" where
  "file_entry name sz digest identity = obj [(''path'', JStr name), (''type'', JStr (u ''file'')), (''size'', sz),
     (''sha256'', digest), (''identity'', identity)]"

text \<open>The bytes an entry is charged for: \<open>len(canonical_json(entry)) + 128 + len(name.encode("utf-8"))\<close>.\<close>

definition entry_charge :: "json \<Rightarrow> pystr \<Rightarrow> int result" where
  "entry_charge entry name =
     rbind (canonical_json entry) (\<lambda>bs.
     rbind (encode_utf8 name) (\<lambda>nb. Inr (int (length bs) + 128 + int (length nb))))"

definition push_entry :: "budget \<Rightarrow> json \<Rightarrow> pystr \<Rightarrow> scan \<Rightarrow> scan result" where
  "push_entry b entry name s =
     rbind (entry_charge entry name) (\<lambda>c.
     let m = metadata s + c in
     rbind (require (m \<le> max_metadata_bytes b) (Error ''metadata_budget_exceeded'')) (\<lambda>_.
     Inr (s\<lparr>entries := entries s @ [entry], names := names s @ [name], metadata := m\<rparr>)))"

definition add_enter :: "unicode_db \<Rightarrow> node \<Rightarrow> budget \<Rightarrow> int \<Rightarrow> path \<Rightarrow> path \<Rightarrow> pystr \<Rightarrow> scan \<Rightarrow> node result" where
  "add_enter ucd fs b now root p name s =
     rbind (budget_check b now) (\<lambda>_.
     rbind (require (int (length (entries s)) + 1 \<le> max_files b) (Error ''file_count_exceeded'')) (\<lambda>_.
     rbind (check_relative ucd (JStr name)) (\<lambda>_.
     rbind (safe_chain ucd fs p root False) (\<lambda>_. no_link fs p))))"

definition add_file :: "unicode_db \<Rightarrow> node \<Rightarrow> budget \<Rightarrow> int \<Rightarrow> path \<Rightarrow> stat \<Rightarrow> path \<Rightarrow> pystr \<Rightarrow> scan \<Rightarrow> scan result" where
  "add_file ucd fs b now root st p name s =
     rbind (require (logical s + st_size st \<le> max_logical_bytes b) (Error ''logical_budget_exceeded'')) (\<lambda>_.
     rbind (hash_file ucd fs p root b now) (\<lambda>(identity, digest).
     push_entry b (file_entry name (fld ''size'' identity) (JStr digest) identity) name
       (s\<lparr>logical := logical s + int_of (fld ''size'' identity)\<rparr>)))"

text \<open>
  \<open>add\<close> and its loop over \<open>os.scandir\<close>; the recursion follows the tree. After the children the
  directory is stated again and has to be unchanged.
\<close>

definition recheck :: "node \<Rightarrow> path \<Rightarrow> stat \<Rightarrow> scan \<Rightarrow> scan result" where
  "recheck fs p st s = rbind (no_link fs p) (\<lambda>n.
     rbind (require (map_option file_identity (node_stat n) = Some (file_identity st)) (Error ''source_changed'')) (\<lambda>_. Inr s))"

primrec add_node :: "unicode_db \<Rightarrow> node \<Rightarrow> budget \<Rightarrow> int \<Rightarrow> path \<Rightarrow> node \<Rightarrow> path \<Rightarrow> pystr \<Rightarrow> scan \<Rightarrow> scan result"
  and add_kids :: "unicode_db \<Rightarrow> node \<Rightarrow> budget \<Rightarrow> int \<Rightarrow> path \<Rightarrow> (pystr \<times> node) list \<Rightarrow> path \<Rightarrow> pystr \<Rightarrow> scan \<Rightarrow> scan result"
  and add_kid :: "unicode_db \<Rightarrow> node \<Rightarrow> budget \<Rightarrow> int \<Rightarrow> path \<Rightarrow> pystr \<times> node \<Rightarrow> path \<Rightarrow> pystr \<Rightarrow> scan \<Rightarrow> scan result" where
  "add_node ucd fs b now root (FileN st bs) p name s =
     rbind (add_enter ucd fs b now root p name s) (\<lambda>_. add_file ucd fs b now root st p name s)"
| "add_node ucd fs b now root (DirN st kids) p name s =
     rbind (add_enter ucd fs b now root p name s) (\<lambda>_.
     rbind (push_entry b (directory_entry name (file_identity st)) name s) (\<lambda>s1.
     rbind (add_kids ucd fs b now root kids p name s1) (\<lambda>s2.
     rbind (budget_check b now) (\<lambda>_. recheck fs p st s2))))"
| "add_node ucd fs b now root (LinkN t) p name s =
     rbind (add_enter ucd fs b now root p name s) (\<lambda>_. Inl (Error ''unsupported_source_type''))"
| "add_node ucd fs b now root (OtherN st) p name s =
     rbind (add_enter ucd fs b now root p name s) (\<lambda>_. Inl (Error ''unsupported_source_type''))"
| "add_kids ucd fs b now root [] p name s = Inr s"
| "add_kids ucd fs b now root (k # ks) p name s =
     rbind (budget_check b now) (\<lambda>_.
     rbind (add_kid ucd fs b now root k p name s) (\<lambda>s1. add_kids ucd fs b now root ks p name s1))"
| "add_kid ucd fs b now root (n, node) p name s = add_node ucd fs b now root node (p @ [n]) (name @ 47 # n) s"

text \<open>\<open>Path(text)\<close> on POSIX: \<open>None\<close> when not absolute; empty and dot parts vanish.\<close>

definition absolute_path :: "pystr \<Rightarrow> path option" where
  "absolute_path s = (if starts_with (u ''/'') s
     then Some (filter (\<lambda>part. part \<noteq> [] \<and> part \<noteq> u ''.'') (split_on 47 s)) else None)"

fun is_str :: "json \<Rightarrow> bool" where
  "is_str (JStr s) = True"
| "is_str v = False"

definition scan_source :: "unicode_db \<Rightarrow> node \<Rightarrow> budget \<Rightarrow> int \<Rightarrow> path list \<Rightarrow> json \<Rightarrow> scan \<Rightarrow> scan result" where
  "scan_source ucd fs b now roots spec s =
     rbind (require (has_keys spec [''absolute_path'', ''relative_path'']) (Error ''invalid_source_spec'')) (\<lambda>_.
     rbind (require (is_str (fld ''absolute_path'' spec) \<and> is_str (fld ''relative_path'' spec)) (Error ''invalid_source_spec'')) (\<lambda>_.
     rbind (check_relative ucd (fld ''relative_path'' spec)) (\<lambda>relative.
     case absolute_path (str_of (fld ''absolute_path'' spec)) of
       None \<Rightarrow> Inl (Error ''invalid_source_path'')
     | Some p \<Rightarrow>
         rbind (source_root_for ucd fs p roots) (\<lambda>root.
         case lookup fs p of None \<Rightarrow> Inl source_unavailable
         | Some n \<Rightarrow> add_node ucd fs b now root n p relative s))))"

definition add_virtual :: "budget \<Rightarrow> pystr \<Rightarrow> scan \<Rightarrow> scan result" where
  "add_virtual b parent s =
     (if parent \<in> set (names s) then Inr s
      else let virtual = directory_entry parent (obj []) in
        rbind (entry_charge virtual parent) (\<lambda>c.
        let m = metadata s + c in
        rbind (require (int (length (entries s)) + 1 \<le> max_files b) (Error ''file_count_exceeded'')) (\<lambda>_.
        rbind (require (m \<le> max_metadata_bytes b) (Error ''metadata_budget_exceeded'')) (\<lambda>_.
        Inr (s\<lparr>entries := entries s @ [virtual], names := names s @ [parent], metadata := m\<rparr>)))))"

definition entry_path :: "json \<Rightarrow> pystr" where
  "entry_path e = str_of (fld ''path'' e)"

definition evidence_step :: "budget \<Rightarrow> json \<Rightarrow> int \<Rightarrow> int result" where
  "evidence_step b r sz =
     rbind (encode_utf8 (str_of r)) (\<lambda>bs.
     let sz' = sz + int (length bs) + 3 in
     rbind (require (sz' \<le> max_metadata_bytes b) (Error ''metadata_budget_exceeded'')) (\<lambda>_. Inr sz'))"

definition scan_sources :: "unicode_db \<Rightarrow> node \<Rightarrow> path list \<Rightarrow> json \<Rightarrow> budget \<Rightarrow> int \<Rightarrow> json \<Rightarrow> json result" where
  "scan_sources ucd fs roots sources b now refs =
     rbind (require (roots \<noteq> [] \<and> list_all (path_is_dir fs) roots) (Error ''invalid_source_root'')) (\<lambda>_.
     rbind (for_each (\<lambda>r. rbind (no_link fs r) (\<lambda>_. Inr ())) roots) (\<lambda>_.
     rbind (require (is_list sources \<and> elems sources \<noteq> []) (Error ''sources_required'')) (\<lambda>_.
     rbind (require (int (length (elems sources)) \<le> max_files b) (Error ''file_count_exceeded'')) (\<lambda>_.
     rbind (require (is_list refs \<and> list_all is_str (elems refs)) (Error ''invalid_evidence_refs'')) (\<lambda>_.
     rbind (fold_res (evidence_step b) (elems refs) 32) (\<lambda>_.
     rbind (canonical_json (obj [(''schema'', manifest_schema), (''evidence_refs'', refs)])) (\<lambda>head.
     rbind (fold_res (scan_source ucd fs b now roots) (elems sources)
       \<lparr>entries = [], names = [], logical = 0, metadata = int (length head)\<rparr>) (\<lambda>s1.
     rbind (fold_res (add_virtual b) (concat (map ancestors (names s1))) s1) (\<lambda>s2.
     rbind (check_collisions ucd (names s2)
       (map entry_path (filter (\<lambda>e. fld ''type'' e = JStr (u ''directory'')) (entries s2)))) (\<lambda>_.
     let manifest = obj [(''schema'', manifest_schema), (''evidence_refs'', refs),
       (''entries'', JList (sort_key entry_path (entries s2)))] in
     rbind (canonical_json manifest) (\<lambda>raw.
     rbind (require (int (length raw) \<le> max_metadata_bytes b) (Error ''metadata_budget_exceeded'')) (\<lambda>_.
     Inr manifest))))))))))))"

text \<open>\<open>bool(v)\<close>.\<close>

fun truthy :: "json \<Rightarrow> bool" where
  "truthy JNull = False"
| "truthy (JBool b) = b"
| "truthy (JInt i) = (i \<noteq> 0)"
| "truthy (JFloat (FloatNum neg m e)) = (m \<noteq> 0)"
| "truthy (JFloat f) = True"
| "truthy (JStr s) = (s \<noteq> [])"
| "truthy (JList xs) = (xs \<noteq> [])"
| "truthy (JObj kvs) = (kvs \<noteq> [])"

definition capture_sources :: "unicode_db \<Rightarrow> node \<Rightarrow> path list \<Rightarrow> json \<Rightarrow> budget \<Rightarrow> int \<Rightarrow> json \<Rightarrow> json result" where
  "capture_sources ucd fs roots sources b now refs =
     scan_sources ucd fs roots sources b now (if truthy refs then refs else JList [])"

definition validate_sources :: "unicode_db \<Rightarrow> node \<Rightarrow> path list \<Rightarrow> json \<Rightarrow> json \<Rightarrow> budget \<Rightarrow> int \<Rightarrow> pystr result" where
  "validate_sources ucd fs roots sources manifest b now =
     rbind (item ''evidence_refs'' manifest) (\<lambda>refs.
     rbind (scan_sources ucd fs roots sources b now refs) (\<lambda>current.
     rbind (require (py_eq current manifest) (Error ''source_changed'')) (\<lambda>_. digest_json current)))"

section \<open>What the hashing loops compute\<close>

lemma read_loop_iff:
  "read_loop b now limit over bs seen = Inr n \<longleftrightarrow>
     budget_check b now = Inr () \<and> n = seen + int (length bs) \<and> (bs \<noteq> [] \<longrightarrow> n \<le> limit)"
proof (induction b now limit over bs seen arbitrary: n rule: read_loop.induct)
  case (1 b now limit over bs seen)
  show ?case
  proof (cases "bs = [] \<or> budget_check b now \<noteq> Inr ()")
    case True
    then show ?thesis by (subst read_loop.simps) (auto simp: result_iff)
  next
    case False
    let ?c = "take block_size bs" and ?r = "drop block_size bs"
    have len: "int (length ?c) + int (length ?r) = int (length bs)" by (simp add: min_def)
    have "read_loop b now limit over bs seen = Inr n \<longleftrightarrow>
        seen + int (length ?c) \<le> limit \<and> read_loop b now limit over ?r (seen + int (length ?c)) = Inr n"
      using False by (subst read_loop.simps) (auto simp: Let_def)
    also have "\<dots> \<longleftrightarrow> seen + int (length ?c) \<le> limit \<and>
        n = seen + int (length ?c) + int (length ?r) \<and> (?r \<noteq> [] \<longrightarrow> n \<le> limit)"
      using 1 False by (cases "seen + int (length ?c) \<le> limit") (auto simp: result_iff Let_def)
    finally show ?thesis using False len by (auto simp: min_def)
  qed
qed

lemma hash_file_iff [result_iff]:
  "hash_file ucd fs p root b now = Inr r \<longleftrightarrow> (\<exists>st bs. lookup fs p = Some (FileN st bs) \<and>
     safe_chain ucd fs p root False = Inr () \<and> budget_check b now = Inr () \<and>
     (bs \<noteq> [] \<longrightarrow> int (length bs) \<le> max_logical_bytes b) \<and> st_size st = int (length bs) \<and>
     r = (file_identity st, sha256_hex bs))"
  unfolding hash_file_def rbind_Inr_iff no_link_iff
  by (cases "the (lookup fs p)") (auto simp: result_iff read_loop_iff)

end
