(* ===== verification/Bundle.thy ===== *)
theory Bundle
  imports Manifest
begin

text \<open>
  The receiving side of a package: \<open>_zip_directory_precheck\<close>, \<open>_validated_manifest\<close>, \<open>_members\<close>,
  \<open>_source_path\<close> and \<open>verify_tree\<close> of \<open>src/velo_transfer/bundle.py\<close>. The decompressor is not
  modelled: \<open>_members\<close> is given the member list that \<open>zipfile\<close> reports.
\<close>

section \<open>The manifest member\<close>

definition bad_manifest :: exn where
  "bad_manifest = Error ''invalid_manifest''"

text \<open>
  \<open>json.loads(raw)\<close> on bytes: UTF-8 unless the first bytes show a byte order mark or UTF-16/32.
  The conversion of those other encodings is the argument \<open>wide\<close>.
\<close>

definition plain_utf8 :: "byte list \<Rightarrow> bool" where
  "plain_utf8 raw \<longleftrightarrow> \<not> (take 3 raw = [239, 187, 191] \<or> take 2 raw = [254, 255] \<or> take 2 raw = [255, 254] \<or>
     take 4 raw = [0, 0, 254, 255] \<or>
     (4 \<le> length raw \<and> (raw ! 0 = 0 \<or> raw ! 1 = 0)) \<or>
     (length raw = 2 \<and> (raw ! 0 = 0 \<or> raw ! 1 = 0)))"

definition loads_bytes :: "(byte list \<Rightarrow> pystr result) \<Rightarrow> (pystr \<Rightarrow> pyfloat) \<Rightarrow> byte list \<Rightarrow> json result" where
  "loads_bytes wide pf raw =
     rbind (if plain_utf8 raw then decode_utf8_pass raw else wide raw) (loads pf last_pairs float_constant)"

definition identity_keys :: "string list" where
  "identity_keys = [''device'', ''inode'', ''size'', ''mtime_ns'']"

definition entry_identity_ok :: "json \<Rightarrow> bool" where
  "entry_identity_ok identity \<longleftrightarrow> is_obj identity \<and> (items identity \<noteq> [] \<longrightarrow>
     has_keys identity identity_keys \<and> list_all (\<lambda>(k, v). is_int v) (items identity) \<and>
     list_all (\<lambda>k. 0 \<le> int_of (fld k identity)) [''device'', ''inode'', ''size''])"

record manifest_scan =
  m_logical :: int
  m_names :: "pystr list"
  m_dirs :: "pystr list"

definition validate_entry :: "unicode_db \<Rightarrow> budget \<Rightarrow> json \<Rightarrow> manifest_scan \<Rightarrow> manifest_scan result" where
  "validate_entry ucd b entry s =
     rbind (require (is_obj entry \<and> fld ''type'' entry \<in> set [JStr (u ''file''), JStr (u ''directory'')]) bad_manifest) (\<lambda>_.
     rbind (check_relative ucd (fld ''path'' entry)) (\<lambda>name.
     let s1 = s\<lparr>m_names := m_names s @ [name]\<rparr>; identity = fld ''identity'' entry in
     rbind (require (entry_identity_ok identity) bad_manifest) (\<lambda>_.
     if fld ''type'' entry = JStr (u ''file'') then
       rbind (require (has_keys entry [''path'', ''type'', ''size'', ''sha256'', ''identity''] \<and>
         is_count (fld ''size'' entry) \<and> is_digest (fld ''sha256'' entry)) bad_manifest) (\<lambda>_.
       rbind (require (items identity \<noteq> [] \<and> py_eq (fld ''size'' identity) (fld ''size'' entry)) bad_manifest) (\<lambda>_.
       let logical' = m_logical s1 + int_of (fld ''size'' entry) in
       rbind (require (logical' \<le> max_logical_bytes b) (Error ''logical_budget_exceeded'')) (\<lambda>_.
       Inr (s1\<lparr>m_logical := logical'\<rparr>))))
     else
       rbind (require (has_keys entry [''path'', ''type'', ''identity'']) bad_manifest) (\<lambda>_.
       Inr (s1\<lparr>m_dirs := m_dirs s1 @ [name]\<rparr>)))))"

definition validated_manifest :: "unicode_db \<Rightarrow> (byte list \<Rightarrow> pystr result) \<Rightarrow> (pystr \<Rightarrow> pyfloat) \<Rightarrow> byte list \<Rightarrow> budget \<Rightarrow> json result" where
  "validated_manifest ucd wide pf raw b =
     rbind (require (int (length raw) \<le> max_metadata_bytes b) (Error ''metadata_budget_exceeded'')) (\<lambda>_.
     rbind (case loads_bytes wide pf raw of Inl _ \<Rightarrow> Inl bad_manifest | Inr v \<Rightarrow> Inr v) (\<lambda>manifest.
     rbind (require (has_keys manifest [''schema'', ''evidence_refs'', ''entries''] \<and>
       fld ''schema'' manifest = manifest_schema \<and> is_list (fld ''entries'' manifest) \<and>
       is_list (fld ''evidence_refs'' manifest) \<and> list_all is_str (elems (fld ''evidence_refs'' manifest))) bad_manifest) (\<lambda>_.
     rbind (canonical_json manifest) (\<lambda>canonical.
     rbind (require (canonical = raw) bad_manifest) (\<lambda>_.
     let es = elems (fld ''entries'' manifest) in
     rbind (require (int (length es) \<le> max_files b) (Error ''file_count_exceeded'')) (\<lambda>_.
     rbind (fold_res (validate_entry ucd b) es \<lparr>m_logical = 0, m_names = [], m_dirs = []\<rparr>) (\<lambda>s.
     rbind (for_each (\<lambda>name. require (list_all (\<lambda>a. a \<in> set (m_dirs s)) (ancestors name)) bad_manifest) (m_names s)) (\<lambda>_.
     rbind (check_collisions ucd (m_names s) (m_dirs s)) (\<lambda>_.
     rbind (require (py_eq (JList es) (JList (sort_key entry_path es))) bad_manifest) (\<lambda>_.
     Inr manifest))))))))))"

section \<open>Members of the archive\<close>

record zip_info =
  filename :: pystr
  extra :: "byte list"
  zcomment :: "byte list"
  flag_bits :: nat
  compress_type :: nat
  external_attr :: nat
  file_size :: int
  compress_size :: int

definition manifest_member :: pystr where
  "manifest_member = u ''manifest.json''"

definition member_name :: "json \<Rightarrow> pystr" where
  "member_name e = u ''payload/'' @ entry_path e @ (if fld ''type'' e = JStr (u ''directory'') then u ''/'' else [])"

definition member_mode :: "zip_info \<Rightarrow> nat" where
  "member_mode info = (external_attr info div 2 ^ 16) mod 2 ^ 16 div 2 ^ 12"

record member_scan =
  z_actual :: "(pystr \<times> zip_info) list"
  z_folded :: "pystr list"
  z_metadata :: int

definition member_step :: "unicode_db \<Rightarrow> budget \<Rightarrow> int \<Rightarrow> pystr list \<Rightarrow> zip_info \<Rightarrow> member_scan \<Rightarrow> member_scan result" where
  "member_step ucd b now expected info s =
     rbind (budget_check b now) (\<lambda>_.
     let name = filename info in
     rbind (encode_utf8 name) (\<lambda>nb.
     let m = z_metadata s + int (length nb) + int (length (extra info)) + int (length (zcomment info)) + 128 in
     rbind (require (m \<le> max_metadata_bytes b) (Error ''metadata_budget_exceeded'')) (\<lambda>_.
     rbind (require (name \<notin> set (map fst (z_actual s)) \<and> casefold ucd name \<notin> set (z_folded s)) (Error ''zip_member_collision'')) (\<lambda>_.
     rbind (require (name \<in> set expected) (Error ''unexpected_zip_member'')) (\<lambda>_.
     rbind (require (even (flag_bits info) \<and> compress_type info \<in> set [8, 0]) (Error ''unsupported_zip_member'')) (\<lambda>_.
     rbind (require (member_mode info \<in> set [0, 8, 4]) (Error ''unsupported_zip_member'')) (\<lambda>_.
     Inr \<lparr>z_actual = z_actual s @ [(name, info)], z_folded = z_folded s @ [casefold ucd name], z_metadata = m\<rparr>)))))))"

definition member_check :: "budget \<Rightarrow> (pystr \<times> zip_info) list \<Rightarrow> json \<Rightarrow> unit result" where
  "member_check b actual e = (case map_of actual (member_name e) of
     None \<Rightarrow> Inl (PyError ''KeyError'')
   | Some info \<Rightarrow>
       let is_directory = (fld ''type'' e = JStr (u ''directory''));
           sz = (if is_directory then 0 else int_of (fld ''size'' e)) in
       rbind (require (file_size info = sz \<and> ends_with (u ''/'') (filename info) = is_directory) (Error ''zip_size_mismatch'')) (\<lambda>_.
       rbind (require (member_mode info = 0 \<or> member_mode info = (if is_directory then 4 else 8)) (Error ''unsupported_zip_member'')) (\<lambda>_.
       require (file_size info \<noteq> 0 \<longrightarrow> compress_size info \<noteq> 0 \<and>
         file_size info \<le> compress_size info * max_expansion_ratio b) (Error ''expansion_budget_exceeded''))))"

definition members :: "unicode_db \<Rightarrow> zip_info list \<Rightarrow> json \<Rightarrow> budget \<Rightarrow> int \<Rightarrow> (pystr \<times> zip_info) list result" where
  "members ucd infos manifest b now =
     (let es = elems (fld ''entries'' manifest); expected = manifest_member # map member_name es in
      rbind (fold_res (member_step ucd b now expected) infos \<lparr>z_actual = [], z_folded = [], z_metadata = 0\<rparr>) (\<lambda>s.
      rbind (require (same_set (map fst (z_actual s)) expected) (Error ''missing_zip_member'')) (\<lambda>_.
      rbind (for_each (member_check b (z_actual s)) es) (\<lambda>_. Inr (z_actual s)))))"

text \<open>\<open>_source_path\<close>: the source whose relative path is the entry's or an ancestor of it.\<close>

definition source_path :: "json \<Rightarrow> json list \<Rightarrow> path option result" where
  "source_path entry sources =
     (let name = entry_path entry; rel = (\<lambda>spec. str_of (fld ''relative_path'' spec));
          matches = filter (\<lambda>spec. name = rel spec \<or> starts_with (rel spec @ u ''/'') name) sources in
      rbind (require (length matches = 1) (Error ''source_mapping_ambiguous'')) (\<lambda>_.
      let spec = hd matches; suffix = dropWhile (\<lambda>c. c = 47) (drop (length (rel spec)) name) in
      Inr (map_option (\<lambda>p. p @ filter (\<lambda>part. part \<noteq> [] \<and> part \<noteq> u ''.'') (split_on 47 suffix))
        (absolute_path (str_of (fld ''absolute_path'' spec))))))"

section \<open>The central directory\<close>

definition bad_package :: exn where
  "bad_package = Error ''invalid_package''"

definition le_at :: "byte list \<Rightarrow> nat \<Rightarrow> nat \<Rightarrow> nat" where
  "le_at bs pos k = le_nat (take k (drop pos bs))"

text \<open>\<open>tail.rfind(pattern)\<close>.\<close>

definition rfind :: "byte list \<Rightarrow> byte list \<Rightarrow> nat option" where
  "rfind pat bs = (case filter (\<lambda>i. take (length pat) (drop i bs) = pat) (rev [0..<Suc (length bs)]) of
     [] \<Rightarrow> None | i # _ \<Rightarrow> Some i)"

text \<open>The walk over the fixed-size central headers: position and count.\<close>

function walk_central :: "budget \<Rightarrow> int \<Rightarrow> byte list \<Rightarrow> nat \<Rightarrow> nat \<Rightarrow> nat \<Rightarrow> nat result" where
  "walk_central b now bs central_end position seen =
     (if central_end \<le> position then Inr seen
      else rbind (budget_check b now) (\<lambda>_.
        rbind (require (46 \<le> central_end - position) bad_package) (\<lambda>_.
        let header = take 46 (drop position bs) in
        rbind (require (length header = 46 \<and> take 4 header = [80, 75, 1, 2]) bad_package) (\<lambda>_.
        rbind (require (le_at header 34 2 \<in> set [0, 65535]) bad_package) (\<lambda>_.
        let position' = position + 46 + le_at header 28 2 + le_at header 30 2 + le_at header 32 2 in
        rbind (require (int (Suc seen) \<le> max_files b + 1) (Error ''file_count_exceeded'')) (\<lambda>_.
        rbind (require (position' \<le> central_end) bad_package) (\<lambda>_.
        walk_central b now bs central_end position' (Suc seen))))))))"
  by pat_completeness auto
termination
  by (relation "measure (\<lambda>(b, now, bs, central_end, position, seen). central_end - position)") auto

declare walk_central.simps [simp del]

text \<open>The central directory as announced: entries, size, offset and end, from ZIP64 records where present.\<close>

definition zip64_record :: "byte list \<Rightarrow> nat \<Rightarrow> nat \<Rightarrow> nat \<Rightarrow> nat \<Rightarrow> byte list \<Rightarrow> (nat \<times> nat \<times> nat \<times> nat) result" where
  "zip64_record bs n_entries central_size central_offset locator_offset locator =
     rbind (require (length locator = 20) bad_package) (\<lambda>_.
     let record_offset = le_at locator 8 8 in
     rbind (require (le_at locator 4 4 = 0 \<and> le_at locator 16 4 = 1 \<and> record_offset + 56 = locator_offset) bad_package) (\<lambda>_.
     let r = take 56 (drop record_offset bs) in
     rbind (require (length r = 56 \<and> take 4 r = [80, 75, 6, 6]) bad_package) (\<lambda>_.
     let r_entries = le_at r 32 8; r_size = le_at r 40 8; r_offset = le_at r 48 8 in
     rbind (require (le_at r 4 8 = 44 \<and> 45 \<le> le_at r 14 2 \<and> le_at r 16 4 = 0 \<and> le_at r 20 4 = 0 \<and>
       le_at r 24 8 = r_entries) bad_package) (\<lambda>_.
     rbind (require ((n_entries = 65535 \<or> n_entries = r_entries) \<and> (central_size = 4294967295 \<or> central_size = r_size) \<and>
       (central_offset = 4294967295 \<or> central_offset = r_offset)) bad_package) (\<lambda>_.
     Inr (r_entries, r_size, r_offset, record_offset))))))"

definition central_record :: "byte list \<Rightarrow> (nat \<times> nat \<times> nat \<times> nat) result" where
  "central_record bs =
     (let tail_size = min (length bs) 65557; tail = drop (length bs - tail_size) bs in
      case rfind [80, 75, 5, 6] tail of
        None \<Rightarrow> Inl bad_package
      | Some index \<Rightarrow>
          rbind (require (index + 22 \<le> length tail) bad_package) (\<lambda>_.
          let end_offset = length bs - tail_size + index; r = drop index tail;
              n_entries = le_at r 10 2; central_size = le_at r 12 4; central_offset = le_at r 16 4 in
          rbind (require (index + 22 + le_at r 20 2 = length tail \<and> le_at r 4 2 = 0 \<and> le_at r 6 2 = 0 \<and>
            le_at r 8 2 = n_entries) bad_package) (\<lambda>_.
          let locator = (if 20 \<le> end_offset then take 20 (drop (end_offset - 20) bs) else []) in
          if take 4 locator = [80, 75, 6, 7]
          then zip64_record bs n_entries central_size central_offset (end_offset - 20) locator
          else rbind (require (n_entries \<noteq> 65535 \<and> central_size \<noteq> 4294967295 \<and> central_offset \<noteq> 4294967295) bad_package) (\<lambda>_.
            Inr (n_entries, central_size, central_offset, end_offset)))))"

definition zip_directory_precheck :: "byte list \<Rightarrow> budget \<Rightarrow> int \<Rightarrow> unit result" where
  "zip_directory_precheck bs b now =
     rbind (central_record bs) (\<lambda>(n_entries, central_size, central_offset, central_end).
     rbind (require (central_offset + central_size = central_end) bad_package) (\<lambda>_.
     rbind (require (int n_entries \<le> max_files b + 1) (Error ''file_count_exceeded'')) (\<lambda>_.
     rbind (require (int central_size \<le> max_metadata_bytes b) (Error ''metadata_budget_exceeded'')) (\<lambda>_.
     rbind (walk_central b now bs central_end central_offset 0) (\<lambda>seen.
     require (seen = n_entries) bad_package)))))"

section \<open>Verifying an extracted tree\<close>

record tree_scan =
  t_actual :: "pystr list"
  t_pending :: "(path \<times> node) list"

definition verify_child :: "unicode_db \<Rightarrow> node \<Rightarrow> path \<Rightarrow> (pystr \<times> json) list \<Rightarrow> budget \<Rightarrow> int \<Rightarrow> path \<Rightarrow> pystr \<times> node \<Rightarrow> tree_scan \<Rightarrow> tree_scan result" where
  "verify_child ucd fs root expected b now current kid s =
     rbind (budget_check b now) (\<lambda>_.
     let p = current @ [fst kid]; relative = join_on 47 (drop (length root) p) in
     rbind (check_relative ucd (JStr relative)) (\<lambda>_.
     rbind (safe_chain ucd fs p root False) (\<lambda>_.
     rbind (require (int (length (t_actual s)) + 1 \<le> max_files b) (Error ''file_count_exceeded'')) (\<lambda>_.
     let s1 = s\<lparr>t_actual := List.insert relative (t_actual s)\<rparr> in
     case map_of expected relative of
       None \<Rightarrow> Inl (Error ''unexpected_tree_member'')
     | Some entry \<Rightarrow>
         if fld ''type'' entry = JStr (u ''directory'') then
           rbind (no_link fs p) (\<lambda>_. case snd kid of
             DirN st kids \<Rightarrow> Inr (s1\<lparr>t_pending := t_pending s1 @ [(p, snd kid)]\<rparr>)
           | _ \<Rightarrow> Inl (Error ''tree_type_mismatch''))
         else
           rbind (hash_file ucd fs p root b now) (\<lambda>(identity, digest).
           rbind (require (py_eq (fld ''size'' identity) (fld ''size'' entry) \<and> fld ''sha256'' entry = JStr digest)
             (Error ''tree_content_mismatch'')) (\<lambda>_. Inr s1))))))"

fun kids_of :: "node \<Rightarrow> (pystr \<times> node) list" where
  "kids_of (DirN st kids) = kids"
| "kids_of n = []"

fun weight :: "node \<Rightarrow> nat" where
  "weight (DirN st kids) = Suc (sum_list (map (\<lambda>(k, n). weight n) kids))"
| "weight n = 1"

definition load :: "(path \<times> node) list \<Rightarrow> nat" where
  "load ps = sum_list (map (\<lambda>(p, n). weight n) ps)"

lemma load_append [simp]: "load (xs @ ys) = load xs + load ys" "load [(p, n)] = weight n" "load [] = 0"
  by (simp_all add: load_def)

lemma weight_kids: "sum_list (map (\<lambda>(k, n). weight n) (kids_of n)) < weight n"
  by (cases n) auto

lemma verify_child_load:
  assumes "verify_child ucd fs root expected b now current kid s = Inr s'"
  shows "load (t_pending s') \<le> load (t_pending s) + weight (snd kid)"
  using assms by (auto simp: verify_child_def Let_def result_iff split: option.splits if_splits node.splits)

lemma verify_children_load:
  "fold_res (verify_child ucd fs root expected b now current) kids s = Inr s' \<Longrightarrow>
    load (t_pending s') \<le> load (t_pending s) + sum_list (map (\<lambda>(k, n). weight n) kids)"
proof (induction kids arbitrary: s)
  case (Cons k ks)
  then obtain s1 where "verify_child ucd fs root expected b now current k s = Inr s1"
    and "fold_res (verify_child ucd fs root expected b now current) ks s1 = Inr s'" by (auto simp: rbind_Inr_iff)
  from verify_child_load [OF this(1)] Cons.IH [OF this(2)] show ?case by (cases k) simp
qed simp

text \<open>
  The loop over the stack of directories, the last one first. A popped directory has to be
  unchanged after its children were visited.
\<close>

function verify_loop :: "unicode_db \<Rightarrow> node \<Rightarrow> path \<Rightarrow> (pystr \<times> json) list \<Rightarrow> budget \<Rightarrow> int \<Rightarrow> tree_scan \<Rightarrow> pystr list result" where
  "verify_loop ucd fs root expected b now s =
     (case rev (t_pending s) of
        [] \<Rightarrow> Inr (t_actual s)
      | (current, n) # rest \<Rightarrow>
          rbind (budget_check b now) (\<lambda>_.
          rbind (no_link fs current) (\<lambda>before.
          rbind (fold_res (verify_child ucd fs root expected b now current) (kids_of n) (s\<lparr>t_pending := rev rest\<rparr>)) (\<lambda>s1.
          rbind (no_link fs current) (\<lambda>after.
          rbind (require (map_option file_identity (node_stat after) = map_option file_identity (node_stat before))
            (Error ''destination_changed'')) (\<lambda>_.
          verify_loop ucd fs root expected b now s1))))))"
  by pat_completeness auto
termination
proof (relation "measure (\<lambda>(ucd, fs, root, expected, b, now, s). load (t_pending s))", goal_cases)
  case 1
  then show ?case by simp
next
  case (2 ucd fs root expected b now s kid rest current n x before s1)
  from "2"(1,2) have "rev (rev (t_pending s)) = rev rest @ [(current, n)]" by simp
  then have "t_pending s = rev rest @ [(current, n)]" by simp
  with verify_children_load [OF "2"(5)] weight_kids [of n] show ?case by simp
qed

declare verify_loop.simps [simp del]

definition destination_changed :: exn where
  "destination_changed = Error ''destination_changed''"

definition verify_tree :: "unicode_db \<Rightarrow> node \<Rightarrow> path \<Rightarrow> json \<Rightarrow> budget \<Rightarrow> int \<Rightarrow> json option \<Rightarrow> json result" where
  "verify_tree ucd fs root manifest b now expected_identity =
     rbind (safe_chain ucd fs root root False) (\<lambda>_.
     rbind (dir_identity fs root) (\<lambda>before.
     rbind (no_link fs root) (\<lambda>before_node.
     rbind (require (case expected_identity of None \<Rightarrow> True | Some i \<Rightarrow> py_eq before i) destination_changed) (\<lambda>_.
     let es = elems (fld ''entries'' manifest); expected = rev (map (\<lambda>e. (entry_path e, e)) es) in
     rbind (verify_loop ucd fs root expected b now \<lparr>t_actual = [], t_pending = [(root, before_node)]\<rparr>) (\<lambda>actual.
     rbind (require (same_set actual (map entry_path es)) (Error ''missing_tree_member'')) (\<lambda>_.
     rbind (dir_identity fs root) (\<lambda>after.
     rbind (no_link fs root) (\<lambda>after_node.
     rbind (require (py_eq after before \<and>
       map_option file_identity (node_stat after_node) = map_option file_identity (node_stat before_node)) destination_changed) (\<lambda>_.
     rbind (digest_json manifest) (\<lambda>digest.
     Inr (obj [(''identity'', after), (''manifest_sha256'', JStr digest),
       (''files'', JInt (int (length (filter (\<lambda>e. fld ''type'' e = JStr (u ''file'')) es))))])))))))))))"

section \<open>Staging and extraction\<close>

text \<open>
  The file system with new nodes: \<open>os.mkdir\<close> and \<open>open(..., "xb")\<close> add a child to an existing
  directory and fail when the name is taken. \<open>world\<close> supplies what the operating system chooses:
  the stat of a new directory or file, how a directory's stat changes when it gets a child, and the
  free space.
\<close>

record world =
  dir_stat :: "path \<Rightarrow> stat"
  file_stat :: "path \<Rightarrow> byte list \<Rightarrow> stat"
  touched :: "stat \<Rightarrow> stat"
  free_space :: "int option"

definition put_kid :: "world \<Rightarrow> pystr \<Rightarrow> node \<Rightarrow> node \<Rightarrow> node option" where
  "put_kid w name child n = (case n of
     DirN st kids \<Rightarrow> if name \<in> set (map fst kids) then None else Some (DirN (touched w st) (kids @ [(name, child)]))
   | _ \<Rightarrow> None)"

fun update_at :: "(node \<Rightarrow> node option) \<Rightarrow> path \<Rightarrow> node \<Rightarrow> node option" where
  "update_at f [] n = f n"
| "update_at f (p # ps) (DirN st kids) = (case map_of kids p of
     None \<Rightarrow> None
   | Some m \<Rightarrow> map_option (\<lambda>m'. DirN st (AList.update p m' kids)) (update_at f ps m))"
| "update_at f (p # ps) n = None"

definition put_node :: "world \<Rightarrow> path \<Rightarrow> node \<Rightarrow> node \<Rightarrow> node option" where
  "put_node w p child fs = update_at (put_kid w (last p) child) (butlast p) fs"

definition new_dir :: "world \<Rightarrow> path \<Rightarrow> node" where
  "new_dir w p = DirN (dir_stat w p) []"

definition is_private :: "node \<Rightarrow> bool" where
  "is_private n = (case node_stat n of None \<Rightarrow> False | Some st \<Rightarrow> st_mode st mod 64 = 0)"

text \<open>The POSIX path text of \<open>str(path)\<close>.\<close>

definition path_str :: "path \<Rightarrow> pystr" where
  "path_str p = 47 # join_on 47 p"

text \<open>
  \<open>prepare_staging\<close> on POSIX. \<open>register\<close> is the caller's \<open>register_stage\<close>: \<open>Inr True\<close> when it
  returned \<open>True\<close>; any exception of its own becomes \<open>stage_registration_failed\<close>.
\<close>

definition prepare_staging :: "unicode_db \<Rightarrow> world \<Rightarrow> node \<Rightarrow> path \<Rightarrow> path \<Rightarrow> budget \<Rightarrow> int \<Rightarrow> json \<Rightarrow>
    (pystr \<Rightarrow> json \<Rightarrow> json \<Rightarrow> bool result) \<Rightarrow> (json \<times> node) result" where
  "prepare_staging ucd w fs dest allowed b now stage_name register =
     (let parent = butlast dest in
     rbind (safe_chain ucd fs parent allowed False) (\<lambda>_.
     rbind (safe_chain ucd fs dest allowed True) (\<lambda>_.
     rbind (require (lookup fs dest = None) (Error ''destination_exists'')) (\<lambda>_.
     rbind (require (is_str stage_name \<and> starts_with (u ''.velo-stage-'') (str_of stage_name) \<and>
       length (str_of stage_name) \<le> 80 \<and> 47 \<notin> set (str_of stage_name)) (Error ''invalid_stage_name'')) (\<lambda>_.
     rbind (check_relative ucd stage_name) (\<lambda>name.
     let stage = parent @ [name] in
     rbind (safe_chain ucd fs stage allowed True) (\<lambda>_.
     rbind (dir_identity fs parent) (\<lambda>parent_identity.
     rbind (budget_space b now (free_space w) 0) (\<lambda>_.
     rbind (require (lookup fs stage = None) (Error ''stage_exists'')) (\<lambda>_.
     case put_node w stage (new_dir w stage) fs of
       None \<Rightarrow> Inl (Error ''stage_creation_failed'')
     | Some fs1 \<Rightarrow>
         rbind (dir_identity fs1 stage) (\<lambda>identity.
         rbind (no_link fs1 stage) (\<lambda>n.
         rbind (require (is_private n) (Error ''staging_not_private'')) (\<lambda>_.
         rbind (dir_identity fs1 parent) (\<lambda>parent_now.
         rbind (require (py_eq parent_now parent_identity) (Error ''destination_parent_changed'')) (\<lambda>_.
         rbind (case register (path_str stage) identity parent_identity of
             Inl (Error c) \<Rightarrow> Inl (Error c) | Inl _ \<Rightarrow> Inl (Error ''stage_registration_failed'')
           | Inr ok \<Rightarrow> require ok (Error ''stage_registration_failed'')) (\<lambda>_.
         Inr (obj [(''staging_directory'', JStr (path_str stage)), (''staging_identity'', identity),
           (''parent_identity'', parent_identity), (''destination_directory'', JStr (path_str dest))], fs1)))))))))))))))))"

definition hash_path :: "node \<Rightarrow> path \<Rightarrow> budget \<Rightarrow> int \<Rightarrow> (int \<times> pystr) result" where
  "hash_path fs p b now = (case lookup fs p of
     Some (FileN st bs) \<Rightarrow>
       rbind (read_loop b now (max_package_bytes b) (Error ''package_budget_exceeded'') bs 0) (\<lambda>n. Inr (n, sha256_hex bs))
   | _ \<Rightarrow> Inl (PyError ''OSError''))"

text \<open>The copy loop of one member: every block against the entry's size, the budget and the free space.\<close>

function copy_loop :: "budget \<Rightarrow> int \<Rightarrow> int option \<Rightarrow> int \<Rightarrow> byte list \<Rightarrow> int \<Rightarrow> int result" where
  "copy_loop b now free sz bs seen =
     rbind (budget_check b now) (\<lambda>_.
     if bs = [] then Inr seen
     else let chunk = take block_size bs; seen' = seen + int (length chunk) in
       rbind (require (seen' \<le> sz \<and> seen' \<le> max_logical_bytes b) (Error ''logical_budget_exceeded'')) (\<lambda>_.
       rbind (budget_space b now free (int (length chunk))) (\<lambda>_.
       copy_loop b now free sz (drop block_size bs) seen')))"
  by pat_completeness auto
termination
  by (relation "measure (\<lambda>(b, now, free, sz, bs, seen). length bs)") (auto simp: block_size_def)

declare copy_loop.simps [simp del]

definition extract_entry :: "unicode_db \<Rightarrow> world \<Rightarrow> path \<Rightarrow> budget \<Rightarrow> int \<Rightarrow> (pystr \<Rightarrow> byte list result) \<Rightarrow> json \<Rightarrow> node \<Rightarrow> node result" where
  "extract_entry ucd w stage b now read_member entry fs =
     rbind (budget_check b now) (\<lambda>_.
     let target = stage @ split_on 47 (entry_path entry) in
     rbind (safe_chain ucd fs (butlast target) stage False) (\<lambda>_.
     if fld ''type'' entry = JStr (u ''directory'') then
       (case put_node w target (new_dir w target) fs of None \<Rightarrow> Inl (PyError ''OSError'') | Some fs1 \<Rightarrow> Inr fs1)
     else
       rbind (read_member (u ''payload/'' @ entry_path entry)) (\<lambda>bs.
       rbind (require (lookup fs target = None) (PyError ''OSError'')) (\<lambda>_.
       rbind (copy_loop b now (free_space w) (int_of (fld ''size'' entry)) bs 0) (\<lambda>n.
       rbind (require (n = int_of (fld ''size'' entry) \<and> fld ''sha256'' entry = JStr (sha256_hex bs)) (Error ''tree_content_mismatch'')) (\<lambda>_.
       case put_node w target (FileN (file_stat w target bs) bs) fs of None \<Rightarrow> Inl (PyError ''OSError'') | Some fs1 \<Rightarrow> Inr fs1))))))"

text \<open>
  \<open>zipfile\<close> is the argument \<open>open_zip\<close>: from the bytes of the package, the member records and the
  decompressed content of a member, or the exception it raises.
\<close>

type_synonym archive = "zip_info list \<times> (pystr \<Rightarrow> byte list result)"

definition package_errors :: "string list" where
  "package_errors = [''OSError'', ''ValueError'', ''KeyError'', ''EOFError'', ''struct.error'', ''BadZipFile'', ''RuntimeError'']"

definition package_error :: "exn \<Rightarrow> exn" where
  "package_error e = (case e of PyError n \<Rightarrow> if n \<in> set package_errors then Error ''invalid_package'' else e | _ \<Rightarrow> e)"

definition staging_keys :: "string list" where
  "staging_keys = [''staging_directory'', ''staging_identity'', ''parent_identity'', ''destination_directory'']"

definition check_staging :: "unicode_db \<Rightarrow> node \<Rightarrow> path \<Rightarrow> path \<Rightarrow> json \<Rightarrow> path result" where
  "check_staging ucd fs dest allowed staging =
     rbind (require (has_keys staging staging_keys \<and> fld ''destination_directory'' staging = JStr (path_str dest))
       (Error ''invalid_staging_ownership'')) (\<lambda>_.
     rbind (require (is_str (fld ''staging_directory'' staging)) (PyError ''TypeError'')) (\<lambda>_.
     rbind (case absolute_path (str_of (fld ''staging_directory'' staging)) of
         None \<Rightarrow> Inl (Error ''invalid_staging_ownership'') | Some p \<Rightarrow> Inr p) (\<lambda>stage.
     rbind (require (butlast stage = butlast dest \<and> stage \<noteq> dest \<and>
       has_keys (fld ''staging_identity'' staging) [''device'', ''inode''] \<and>
       has_keys (fld ''parent_identity'' staging) [''device'', ''inode'']) (Error ''invalid_staging_ownership'')) (\<lambda>_.
     rbind (safe_chain ucd fs stage allowed False) (\<lambda>_.
     rbind (safe_chain ucd fs dest allowed True) (\<lambda>_.
     rbind (dir_identity fs stage) (\<lambda>stage_now.
     rbind (require (py_eq stage_now (fld ''staging_identity'' staging)) (Error ''staging_changed'')) (\<lambda>_.
     rbind (dir_identity fs (butlast dest)) (\<lambda>parent_now.
     rbind (require (py_eq parent_now (fld ''parent_identity'' staging)) (Error ''destination_parent_changed'')) (\<lambda>_.
     rbind (no_link fs stage) (\<lambda>n.
     rbind (require (is_private n) (Error ''staging_not_private'')) (\<lambda>_.
     rbind (require (kids_of n = []) (Error ''stage_not_empty'')) (\<lambda>_.
     Inr stage)))))))))))))"

definition package_matches :: "node \<Rightarrow> path \<Rightarrow> budget \<Rightarrow> int \<Rightarrow> int \<Rightarrow> pystr \<Rightarrow> stat \<Rightarrow> exn \<Rightarrow> unit result" where
  "package_matches fs bundle b now sz sha st e =
     rbind (hash_path fs bundle b now) (\<lambda>(n, digest).
     rbind (no_link fs bundle) (\<lambda>node.
     require (n = sz \<and> digest = sha \<and> map_option file_identity (node_stat node) = Some (file_identity st)) e))"

definition unpack_content :: "unicode_db \<Rightarrow> (byte list \<Rightarrow> pystr result) \<Rightarrow> (pystr \<Rightarrow> pyfloat) \<Rightarrow> (byte list \<Rightarrow> archive result) \<Rightarrow>
    world \<Rightarrow> path \<Rightarrow> budget \<Rightarrow> int \<Rightarrow> byte list \<Rightarrow> node \<Rightarrow> (json \<times> node) result" where
  "unpack_content ucd wide pf open_zip w stage b now bs fs =
     rbind (open_zip bs) (\<lambda>(infos, read_member).
     case find (\<lambda>i. filename i = manifest_member) (rev infos) of
       None \<Rightarrow> Inl (PyError ''KeyError'')
     | Some info \<Rightarrow>
         rbind (require (file_size info \<le> max_metadata_bytes b) (Error ''metadata_budget_exceeded'')) (\<lambda>_.
         rbind (read_member manifest_member) (\<lambda>content.
         let raw = take (nat (max_metadata_bytes b + 1)) content in
         rbind (validated_manifest ucd wide pf raw b) (\<lambda>manifest.
         rbind (members ucd infos manifest b now) (\<lambda>_.
         let es = elems (fld ''entries'' manifest);
             logical = sum_list (map (\<lambda>e. int_of (fld ''size'' e)) es) in
         rbind (budget_space b now (free_space w) (logical + int (length raw) + 1024 * int (length es))) (\<lambda>_.
         rbind (fold_res (extract_entry ucd w stage b now read_member) es fs) (\<lambda>fs1.
         Inr (manifest, fs1))))))))"

definition unpack_body :: "unicode_db \<Rightarrow> (byte list \<Rightarrow> pystr result) \<Rightarrow> (pystr \<Rightarrow> pyfloat) \<Rightarrow> (byte list \<Rightarrow> archive result) \<Rightarrow>
    world \<Rightarrow> node \<Rightarrow> path \<Rightarrow> path \<Rightarrow> json \<Rightarrow> json \<Rightarrow> path \<Rightarrow> path \<Rightarrow> json \<Rightarrow> budget \<Rightarrow> int \<Rightarrow> (json \<times> node) result" where
  "unpack_body ucd wide pf open_zip w fs bundle bundle_root expected_size expected_sha256 dest stage staging b now =
     rbind (safe_chain ucd fs bundle bundle_root False) (\<lambda>_.
     rbind (require (lookup fs dest = None) (Error ''destination_exists'')) (\<lambda>_.
     rbind (require (is_count expected_size \<and> is_str expected_sha256 \<and> length (str_of expected_sha256) = 64)
       (Error ''invalid_package_identity'')) (\<lambda>_.
     rbind (require (int_of expected_size \<le> max_package_bytes b) (Error ''package_budget_exceeded'')) (\<lambda>_.
     rbind (no_link fs bundle) (\<lambda>n. case n of
       FileN st bs \<Rightarrow>
         rbind (require (st_size st = int_of expected_size) (Error ''package_size_mismatch'')) (\<lambda>_.
         rbind (package_matches fs bundle b now (int_of expected_size) (str_of expected_sha256) st (Error ''package_hash_mismatch'')) (\<lambda>_.
         rbind (zip_directory_precheck bs b now) (\<lambda>_.
         rbind (unpack_content ucd wide pf open_zip w stage b now bs fs) (\<lambda>(manifest, fs1).
         rbind (verify_tree ucd fs1 stage manifest b now (Some (fld ''staging_identity'' staging))) (\<lambda>verified.
         rbind (package_matches fs1 bundle b now (int_of expected_size) (str_of expected_sha256) st (Error ''package_changed'')) (\<lambda>_.
         rbind (dir_identity fs1 (butlast dest)) (\<lambda>parent_now.
         rbind (require (py_eq parent_now (fld ''parent_identity'' staging)) (Error ''destination_parent_changed'')) (\<lambda>_.
         Inr (obj [(''staging_directory'', JStr (path_str stage)), (''staging_identity'', fld ''staging_identity'' staging),
           (''parent_identity'', fld ''parent_identity'' staging), (''manifest'', manifest),
           (''manifest_sha256'', fld ''manifest_sha256'' verified), (''package_size'', expected_size),
           (''package_sha256'', expected_sha256)], fs1)))))))))
     | _ \<Rightarrow> Inl bad_package)))))"

definition unpack_bundle :: "unicode_db \<Rightarrow> (byte list \<Rightarrow> pystr result) \<Rightarrow> (pystr \<Rightarrow> pyfloat) \<Rightarrow> (byte list \<Rightarrow> archive result) \<Rightarrow>
    world \<Rightarrow> node \<Rightarrow> path \<Rightarrow> path \<Rightarrow> json \<Rightarrow> json \<Rightarrow> path \<Rightarrow> path \<Rightarrow> json \<Rightarrow> budget \<Rightarrow> int \<Rightarrow> (json \<times> node) result" where
  "unpack_bundle ucd wide pf open_zip w fs bundle bundle_root expected_size expected_sha256 dest allowed staging b now =
     rbind (check_staging ucd fs dest allowed staging) (\<lambda>stage.
     map_sum package_error (\<lambda>r. r)
       (unpack_body ucd wide pf open_zip w fs bundle bundle_root expected_size expected_sha256 dest stage staging b now))"

end
