(* ===== verification/Unpack.thy ===== *)
theory Unpack
  imports Bundle
begin

text \<open>
  What the receiving side establishes: the walk over the central directory against a reference
  reading, a validated manifest as a set of conditions, the tree that \<open>verify_tree\<close> accepted, and
  the containment of the extraction in its stage.
\<close>

section \<open>What a verified tree holds\<close>

lemma size_kid_node [termination_simp]: "(k, n) \<in> set kids \<Longrightarrow> size n < Suc (size_list (size_prod (\<lambda>_. 0) size) kids)"
  by (induction kids) auto

text \<open>All members under a node with their paths, links not followed.\<close>

fun below :: "path \<Rightarrow> node \<Rightarrow> (path \<times> node) list" where
  "below p (DirN st kids) = concat (map (\<lambda>(k, n). (p @ [k], n) # below (p @ [k]) n) kids)"
| "below p n = []"

text \<open>The names in a directory are distinct and contain no slash.\<close>

fun tidy :: "node \<Rightarrow> bool" where
  "tidy (DirN st kids) = (distinct (map fst kids) \<and> list_all (\<lambda>(k, n). k \<noteq> [] \<and> 47 \<notin> set k \<and> tidy n) kids)"
| "tidy (LinkN (Some t)) = tidy t"
| "tidy n = True"

definition matches :: "json \<Rightarrow> node \<Rightarrow> bool" where
  "matches e n \<longleftrightarrow> (if fld ''type'' e = JStr (u ''directory'') then \<exists>st kids. n = DirN st kids
     else \<exists>st bs. n = FileN st bs \<and> py_eq (JInt (int (length bs))) (fld ''size'' e) \<and> fld ''sha256'' e = JStr (sha256_hex bs))"

definition expected_match :: "path \<Rightarrow> (pystr \<times> json) list \<Rightarrow> path \<times> node \<Rightarrow> bool" where
  "expected_match root expected pn \<longleftrightarrow>
     (\<exists>e. map_of expected (join_on 47 (drop (length root) (fst pn))) = Some e \<and> matches e (snd pn))"

definition dirs_only :: "(path \<times> node) list \<Rightarrow> (path \<times> node) list" where
  "dirs_only = filter (\<lambda>pn. case snd pn of DirN st kids \<Rightarrow> True | _ \<Rightarrow> False)"

lemma verify_child_ok:
  assumes "verify_child ucd fs root expected b now current (k, m) s = Inr s'"
    and "lookup fs (current @ [k]) = Some m"
  shows "set (t_actual s') = insert (join_on 47 (drop (length root) (current @ [k]))) (set (t_actual s)) \<and>
    t_pending s' = t_pending s @ dirs_only [(current @ [k], m)] \<and> expected_match root expected (current @ [k], m)"
proof -
  have "\<forall>t. m \<noteq> LinkN t"
    using assms linkless_lookup by (fastforce simp: verify_child_def Let_def result_iff safe_chain_iff)
  with assms show ?thesis
    by (auto simp: verify_child_def Let_def result_iff expected_match_def matches_def dirs_only_def no_link_iff file_identity_def
        simp del: py_eq.simps split: option.splits if_splits node.splits)
qed

definition kid_paths :: "path \<Rightarrow> (pystr \<times> node) list \<Rightarrow> (path \<times> node) list" where
  "kid_paths p kids = map (\<lambda>(k, n). (p @ [k], n)) kids"

lemma verify_children_ok:
  assumes "fold_res (verify_child ucd fs root expected b now current) kids s = Inr s'"
    and "\<And>k m. (k, m) \<in> set kids \<Longrightarrow> lookup fs (current @ [k]) = Some m"
  shows "set (t_actual s') = (\<lambda>pn. join_on 47 (drop (length root) (fst pn))) ` set (kid_paths current kids) \<union> set (t_actual s) \<and>
    t_pending s' = t_pending s @ dirs_only (kid_paths current kids) \<and>
    (\<forall>pn \<in> set (kid_paths current kids). expected_match root expected pn)"
  using assms
proof (induction kids arbitrary: s)
  case Nil
  then show ?case by (simp add: kid_paths_def dirs_only_def)
next
  case (Cons km kids)
  obtain k m where km: "km = (k, m)" by (cases km)
  with Cons.prems(1) obtain s1 where step: "verify_child ucd fs root expected b now current (k, m) s = Inr s1"
    and rest: "fold_res (verify_child ucd fs root expected b now current) kids s1 = Inr s'" by (auto simp: rbind_Inr_iff)
  from verify_child_ok [OF step] Cons.prems(2) km have "set (t_actual s1) = insert (join_on 47 (drop (length root) (current @ [k]))) (set (t_actual s)) \<and>
    t_pending s1 = t_pending s @ dirs_only [(current @ [k], m)] \<and> expected_match root expected (current @ [k], m)" by simp
  moreover note Cons.IH [OF rest] Cons.prems(2)
  ultimately show ?case by (auto simp: km kid_paths_def dirs_only_def)
qed

definition members_below :: "(path \<times> node) list \<Rightarrow> (path \<times> node) set" where
  "members_below ps = (\<Union>(p, n) \<in> set ps. set (below p n))"

lemma below_leaf: "dirs_only [(p, n)] = [] \<Longrightarrow> below p n = []"
  by (cases n) (auto simp: dirs_only_def)

lemma members_below_Cons:
  "members_below (dirs_only ((p, n) # ps)) = set (below p n) \<union> members_below (dirs_only ps)"
  using below_leaf [of p n] by (cases "dirs_only [(p, n)] = []") (auto simp: dirs_only_def members_below_def split: if_splits)

lemma below_kids: "set (below p n) = set (kid_paths p (kids_of n)) \<union> members_below (dirs_only (kid_paths p (kids_of n)))"
proof (cases n)
  case (DirN st kids)
  have "members_below (dirs_only (kid_paths p kids)) = (\<Union>(k, m) \<in> set kids. set (below (p @ [k]) m))"
  proof (induction kids)
    case (Cons k kids)
    then show ?case by (cases k) (simp add: kid_paths_def members_below_Cons)
  qed (simp add: members_below_def dirs_only_def kid_paths_def)
  then show ?thesis by (auto simp: DirN kid_paths_def)
qed (auto simp: kid_paths_def dirs_only_def members_below_def)

lemma lookup_append: "lookup n (p @ q) = (case lookup n p of None \<Rightarrow> None | Some m \<Rightarrow> lookup m q)"
  by (induction n p rule: lookup.induct) (auto split: option.splits)

lemma tidy_lookup: "tidy fs \<Longrightarrow> lookup fs p = Some n \<Longrightarrow> tidy n"
  by (induction fs p rule: lookup.induct) (auto split: option.splits dest!: map_of_SomeD simp: list_all_iff)

lemma lookup_kid:
  assumes "tidy fs" and "lookup fs p = Some n" and "(k, m) \<in> set (kids_of n)"
  shows "lookup fs (p @ [k]) = Some m"
  using assms tidy_lookup [OF assms(1,2)] by (cases n) (auto simp: lookup_append dest: map_of_is_SomeI)

lemma verify_loop_ok:
  assumes "verify_loop ucd fs root expected b now s = Inr actual" and "tidy fs"
    and "\<And>p n. (p, n) \<in> set (t_pending s) \<Longrightarrow> lookup fs p = Some n"
  shows "set actual = set (t_actual s) \<union> (\<lambda>pn. join_on 47 (drop (length root) (fst pn))) ` members_below (t_pending s) \<and>
    (\<forall>pn \<in> members_below (t_pending s). expected_match root expected pn)"
  using assms
proof (induction ucd fs root expected b now s rule: verify_loop.induct)
  case (1 ucd fs root expected b now s)
  show ?case
  proof (cases "rev (t_pending s)")
    case Nil
    then show ?thesis using "1.prems"(1) by (simp add: verify_loop.simps members_below_def)
  next
    case (Cons pn rest)
    obtain current n where pn: "pn = (current, n)" by (cases pn)
    from Cons pn have pending: "t_pending s = rev rest @ [(current, n)]" by (metis rev_rev_ident rev.simps(2))
    from "1.prems"(1) Cons pn obtain before s1 after where steps: "budget_check b now = Inr ()" "no_link fs current = Inr before"
      "fold_res (verify_child ucd fs root expected b now current) (kids_of n) (s\<lparr>t_pending := rev rest\<rparr>) = Inr s1"
      "no_link fs current = Inr after"
      "map_option file_identity (node_stat after) = map_option file_identity (node_stat before)"
      and rec: "verify_loop ucd fs root expected b now s1 = Inr actual"
      by (subst (asm) verify_loop.simps) (auto simp: rbind_Inr_iff)
    have look: "lookup fs current = Some n" using "1.prems"(3) pending by simp
    have kids: "lookup fs (current @ [k]) = Some m" if "(k, m) \<in> set (kids_of n)" for k m
      using lookup_kid [OF "1.prems"(2) look that] .
    note s1 = verify_children_ok [OF steps(3) kids]
    have pend1: "lookup fs p = Some m" if "(p, m) \<in> set (t_pending s1)" for p m
      using that s1 kids "1.prems"(3) pending by (auto simp: dirs_only_def kid_paths_def)
    have all: "members_below (t_pending s) = set (kid_paths current (kids_of n)) \<union> members_below (t_pending s1)"
      using s1 below_kids [of current n] by (auto simp: pending members_below_def)
    from "1.IH" [OF Cons pn [symmetric] steps(1) steps(2) steps(3) steps(4) _ rec "1.prems"(2) pend1] steps(5)
    have "set actual = set (t_actual s1) \<union> (\<lambda>pn. join_on 47 (drop (length root) (fst pn))) ` members_below (t_pending s1) \<and>
      (\<forall>pn \<in> members_below (t_pending s1). expected_match root expected pn)"
      by (simp add: require_def)
    with s1 all show ?thesis by auto
  qed
qed

lemma below_shift: "below (p @ q) n = map (\<lambda>(r, m). (p @ r, m)) (below q n)"
proof (induction q n rule: below.induct)
  case (1 q st kids)
  have "(p @ q @ [k], m) # below (p @ q @ [k]) m = map (\<lambda>(r, m). (p @ r, m)) ((q @ [k], m) # below (q @ [k]) m)"
    if "(k, m) \<in> set kids" for k m using 1 [OF that refl] by simp
  then show ?case by (auto simp: map_concat intro!: arg_cong [where f = concat])
qed auto

lemma verify_tree_sound:
  assumes "verify_tree ucd fs root manifest b now ident = Inr r" and "tidy fs"
  shows "\<exists>st kids. lookup fs root = Some (DirN st kids) \<and>
    (\<lambda>(q, m). join_on 47 q) ` set (below [] (DirN st kids)) = entry_path ` set (elems (fld ''entries'' manifest)) \<and>
    (\<forall>(q, m) \<in> set (below [] (DirN st kids)). \<exists>e \<in> set (elems (fld ''entries'' manifest)).
       entry_path e = join_on 47 q \<and> matches e m)"
proof -
  let ?es = "elems (fld ''entries'' manifest)" and ?x = "rev (map (\<lambda>e. (entry_path e, e)) (elems (fld ''entries'' manifest)))"
  from assms(1) obtain n d actual where n: "no_link fs root = Inr n" and d: "dir_identity fs root = Inr d"
    and loop: "verify_loop ucd fs root ?x b now \<lparr>t_actual = [], t_pending = [(root, n)]\<rparr> = Inr actual"
    and same: "same_set actual (map entry_path ?es)"
    by (auto simp: verify_tree_def Let_def result_iff)
  from n d obtain st kids where nd: "n = DirN st kids" by (auto simp: dir_identity_def split: node.splits)
  have look: "lookup fs root = Some n" using n by (simp add: no_link_iff)
  from verify_loop_ok [OF loop assms(2)] look
  have ok: "set actual = (\<lambda>pn. join_on 47 (drop (length root) (fst pn))) ` set (below root n)"
    "\<forall>pn \<in> set (below root n). expected_match root ?x pn" by (auto simp: members_below_def)
  have names: "(\<lambda>pn. join_on 47 (drop (length root) (fst pn))) ` set (below root n) = (\<lambda>(q, m). join_on 47 q) ` set (below [] n)"
    using below_shift [of root "[]" n] by (force simp: image_iff)
  have "\<exists>e \<in> set ?es. entry_path e = join_on 47 q \<and> matches e m" if "(q, m) \<in> set (below [] n)" for q m
  proof -
    have "(root @ q, m) \<in> set (below root n)" using that below_shift [of root "[]" n] by force
    with ok(2) have "expected_match root ?x (root @ q, m)" by blast
    then show ?thesis by (auto simp: expected_match_def dest!: map_of_SomeD intro!: bexI)
  qed
  moreover have "(\<lambda>(q, m). join_on 47 q) ` set (below [] n) = entry_path ` set ?es"
    using same ok(1) names by (simp add: same_set_iff)
  ultimately show ?thesis using look unfolding nd
    by (intro exI [of _ st] exI [of _ kids] conjI) (auto simp del: below.simps)
qed

section \<open>The central directory against a reference reading\<close>

text \<open>
  \<open>central_headers bs i j n\<close>: from byte \<open>i\<close> up to byte \<open>j\<close> there are exactly \<open>n\<close> central headers,
  each with its name, extra field and comment, and nothing else.
\<close>

inductive central_headers :: "byte list \<Rightarrow> nat \<Rightarrow> nat \<Rightarrow> nat \<Rightarrow> bool" for bs where
  no_header: "central_headers bs i i 0"
| next_header: "take 4 (drop i bs) = [80, 75, 1, 2] \<Longrightarrow> i + 46 \<le> length bs \<Longrightarrow>
    central_headers bs (i + 46 + le_at bs (i + 28) 2 + le_at bs (i + 30) 2 + le_at bs (i + 32) 2) j n \<Longrightarrow>
    central_headers bs i j (Suc n)"

lemma central_headers_length: "central_headers bs i j n \<Longrightarrow> i + 46 * n \<le> j"
  by (induction rule: central_headers.induct) auto

lemma le_at_header: "k + m \<le> 46 \<Longrightarrow> le_at (take 46 (drop i bs)) k m = le_at bs (i + k) m"
  by (simp add: le_at_def drop_take min_def add.commute)

lemma walk_central_step:
  assumes "\<not> e \<le> i"
  shows "walk_central b now bs e i seen = Inr n \<longleftrightarrow>
    (let header = take 46 (drop i bs);
         i' = i + 46 + le_at bs (i + 28) 2 + le_at bs (i + 30) 2 + le_at bs (i + 32) 2 in
     budget_check b now = Inr () \<and> 46 \<le> e - i \<and> (length header = 46 \<and> take 4 header = [80, 75, 1, 2]) \<and>
     le_at header 34 2 \<in> set [0, 65535] \<and> int (Suc seen) \<le> max_files b + 1 \<and> i' \<le> e \<and>
     walk_central b now bs e i' (Suc seen) = Inr n)"
proof -
  have lens: "le_at (take 46 (drop i bs)) 28 2 = le_at bs (i + 28) 2" "le_at (take 46 (drop i bs)) 30 2 = le_at bs (i + 30) 2"
    "le_at (take 46 (drop i bs)) 32 2 = le_at bs (i + 32) 2" by (simp_all add: le_at_header)
  have unit: "(\<exists>x. m = Inr x \<and> P) \<longleftrightarrow> m = Inr () \<and> P" for m :: "unit result" and P by auto
  show ?thesis unfolding walk_central.simps [of b now bs e i] if_not_P [OF assms] Let_def lens rbind_Inr_iff require_Inr_iff unit by blast
qed

lemma walk_central_headers:
  "walk_central b now bs e i seen = Inr n \<Longrightarrow> i \<le> e \<Longrightarrow> \<exists>k. n = seen + k \<and> central_headers bs i e k"
proof (induction "e - i" arbitrary: i seen rule: less_induct)
  case less
  show ?case
  proof (cases "e \<le> i")
    case True
    with less.prems show ?thesis by (auto simp: walk_central.simps intro: central_headers.intros)
  next
    case False
    let ?i = "i + 46 + le_at bs (i + 28) 2 + le_at bs (i + 30) 2 + le_at bs (i + 32) 2"
    from less.prems(1) have ok: "length (take 46 (drop i bs)) = 46" "take 4 (take 46 (drop i bs)) = [80, 75, 1, 2]"
      "?i \<le> e" and rec: "walk_central b now bs e ?i (Suc seen) = Inr n"
      unfolding walk_central_step [OF False] Let_def by blast+
    have "e - ?i < e - i" using False by arith
    from less.hyps [OF this rec ok(3)] obtain k where k: "n = Suc seen + k" "central_headers bs ?i e k" by blast
    have "central_headers bs i e (Suc k)"
    proof (rule next_header [OF _ _ k(2)])
      show "take 4 (drop i bs) = [80, 75, 1, 2]" using ok(2) by (simp add: take_take)
      show "i + 46 \<le> length bs" using ok(1) by (simp add: min_def split: if_splits)
    qed
    with k show ?thesis by (intro exI [of _ "Suc k"]) simp
  qed
qed

lemma rfind_Some:
  assumes "rfind pat bs = Some i"
  shows "i \<le> length bs"
proof -
  let ?l = "filter (\<lambda>i. take (length pat) (drop i bs) = pat) (rev [0..<Suc (length bs)])"
  from assms have "\<exists>r. ?l = i # r" unfolding rfind_def by (cases ?l) (simp_all only: list.case option.inject option.distinct, simp)
  then have "i \<in> set ?l" by (metis list.set_intros(1))
  then show ?thesis by (simp del: upt_Suc)
qed

lemma zip64_record_inside: "zip64_record bs n0 sz0 off0 loc locator = Inr (n, sz, off, e) \<Longrightarrow> e \<le> loc"
  unfolding zip64_record_def Let_def require_bind_Inr_iff by simp

lemma zip_choice_inside:
  "(if c then zip64_record bs n0 sz0 off0 (start - 20) locator else rbind (require d x) (\<lambda>_. Inr (n1, sz1, off1, start)))
    = Inr (n, sz, off, e) \<Longrightarrow> e \<le> start"
  using zip64_record_inside [of bs n0 sz0 off0 "start - 20" locator n sz off e] by (cases c; cases d) auto

lemma central_record_inside:
  assumes "central_record bs = Inr (n, sz, off, e)"
  shows "e \<le> length bs"
proof -
  define tail where "tail = drop (length bs - min (length bs) 65557) bs"
  from assms obtain i where i: "rfind [80, 75, 5, 6] tail = Some i"
    by (cases "rfind [80, 75, 5, 6] tail") (simp_all only: central_record_def Let_def tail_def [symmetric] option.case, simp)
  define start where "start = length bs - min (length bs) 65557 + i"
  have "start \<le> length bs" using rfind_Some [OF i] by (simp add: tail_def start_def min_def split: if_splits)
  moreover have "e \<le> start"
    using assms unfolding central_record_def Let_def tail_def [symmetric] i option.case start_def [symmetric] require_bind_Inr_iff
    by (elim conjE) (rule zip_choice_inside)
  ultimately show ?thesis by simp
qed

lemma zip_directory_precheck_sound:
  assumes "zip_directory_precheck bs b now = Inr x"
  shows "\<exists>n sz off. central_headers bs off (off + sz) n \<and> off + sz \<le> length bs \<and> int n \<le> max_files b + 1 \<and>
    int sz \<le> max_metadata_bytes b \<and> 46 * n \<le> sz"
proof -
  from assms obtain n sz off where r: "central_record bs = Inr (n, sz, off, off + sz)" "int n \<le> max_files b + 1"
    "int sz \<le> max_metadata_bytes b" "walk_central b now bs (off + sz) off 0 = Inr n"
    by (auto simp: zip_directory_precheck_def result_iff)
  from walk_central_headers [OF r(4)] have "central_headers bs off (off + sz) n" by auto
  with r central_record_inside [OF r(1)] central_headers_length [OF this] show ?thesis
    by (intro exI [of _ n] exI [of _ sz] exI [of _ off]) auto
qed

section \<open>What a validated manifest is\<close>

definition is_directory :: "json \<Rightarrow> bool" where
  "is_directory e \<longleftrightarrow> fld ''type'' e = JStr (u ''directory'')"

definition entry_shape :: "json \<Rightarrow> bool" where
  "entry_shape e \<longleftrightarrow> fld ''path'' e = JStr (entry_path e) \<and> entry_identity_ok (fld ''identity'' e) \<and>
     (if is_directory e then has_keys e [''path'', ''type'', ''identity'']
      else fld ''type'' e = JStr (u ''file'') \<and> has_keys e [''path'', ''type'', ''size'', ''sha256'', ''identity''] \<and>
        is_count (fld ''size'' e) \<and> is_digest (fld ''sha256'' e) \<and> items (fld ''identity'' e) \<noteq> [] \<and>
        py_eq (fld ''size'' (fld ''identity'' e)) (fld ''size'' e))"

definition good_entry :: "unicode_db \<Rightarrow> json \<Rightarrow> bool" where
  "good_entry ucd e \<longleftrightarrow> safe_name ucd (entry_path e) \<and> entry_shape e"

definition entry_size :: "json \<Rightarrow> int" where
  "entry_size e = (if is_directory e then 0 else int_of (fld ''size'' e))"

lemma entry_size_directory [simp]: "is_directory e \<Longrightarrow> entry_size e = 0"
  by (simp add: entry_size_def)

lemma good_entry_size: "good_entry ucd e \<Longrightarrow> 0 \<le> entry_size e"
  by (auto simp: good_entry_def entry_shape_def entry_size_def is_count_def)

lemma validate_entry_iff:
  "validate_entry ucd b e s = Inr s' \<longleftrightarrow> good_entry ucd e \<and>
     (\<not> is_directory e \<longrightarrow> m_logical s + entry_size e \<le> max_logical_bytes b) \<and>
     s' = s\<lparr>m_logical := m_logical s + entry_size e, m_names := m_names s @ [entry_path e],
       m_dirs := m_dirs s @ (if is_directory e then [entry_path e] else [])\<rparr>"
proof (cases "fld ''path'' e")
  case (JStr p)
  moreover have "has_keys e ks \<Longrightarrow> is_obj e" for ks by (simp add: has_keys_def)
  ultimately show ?thesis
    by (cases "fld ''type'' e = JStr (u ''directory'')"; cases "fld ''type'' e = JStr (u ''file'')")
      (auto simp: validate_entry_def Let_def result_iff good_entry_def entry_shape_def entry_path_def is_directory_def entry_size_def
        simp del: py_eq.simps)
qed (auto simp: validate_entry_def Let_def result_iff good_entry_def entry_shape_def)

lemma validate_entries_iff:
  "fold_res (validate_entry ucd b) es s = Inr s' \<longleftrightarrow> list_all (good_entry ucd) es \<and>
     (list_ex (\<lambda>e. \<not> is_directory e) es \<longrightarrow> m_logical s + sum_list (map entry_size es) \<le> max_logical_bytes b) \<and>
     s' = s\<lparr>m_logical := m_logical s + sum_list (map entry_size es), m_names := m_names s @ map entry_path es,
       m_dirs := m_dirs s @ map entry_path (filter is_directory es)\<rparr>"
proof (induction es arbitrary: s)
  case (Cons e es)
  have nonneg: "list_all (good_entry ucd) es \<Longrightarrow> 0 \<le> sum_list (map entry_size es)"
    by (intro sum_list_nonneg) (auto simp: list_all_iff dest: good_entry_size)
  have zero: "\<not> list_ex (\<lambda>e. \<not> is_directory e) es \<Longrightarrow> sum_list (map entry_size es) = 0"
    by (induction es) auto
  show ?case
  proof (cases "good_entry ucd e \<and> list_all (good_entry ucd) es")
    case True
    then show ?thesis using Cons.IH nonneg zero
      by (cases "list_ex (\<lambda>e. \<not> is_directory e) es"; cases "is_directory e")
        (auto simp: rbind_Inr_iff validate_entry_iff algebra_simps)
  next
    case False
    then show ?thesis using Cons.IH by (auto simp: rbind_Inr_iff validate_entry_iff)
  qed
qed (simp add: eq_commute)

lemma validated_manifest_iff:
  "validated_manifest ucd wide pf raw b = Inr m \<longleftrightarrow>
     int (length raw) \<le> max_metadata_bytes b \<and> loads_bytes wide pf raw = Inr m \<and>
     has_keys m [''schema'', ''evidence_refs'', ''entries''] \<and> fld ''schema'' m = manifest_schema \<and>
     is_list (fld ''entries'' m) \<and> is_list (fld ''evidence_refs'' m) \<and> list_all is_str (elems (fld ''evidence_refs'' m)) \<and>
     canonical_json m = Inr raw \<and>
     (let es = elems (fld ''entries'' m); dirs = map entry_path (filter is_directory es) in
      int (length es) \<le> max_files b \<and> list_all (good_entry ucd) es \<and>
      (list_ex (\<lambda>e. \<not> is_directory e) es \<longrightarrow> sum_list (map entry_size es) \<le> max_logical_bytes b) \<and>
      (\<forall>e \<in> set es. \<forall>a \<in> set (ancestors (entry_path e)). a \<in> set dirs) \<and>
      check_collisions ucd (map entry_path es) dirs = Inr () \<and> py_eq (JList es) (JList (sort_key entry_path es)))"
  unfolding validated_manifest_def
  by (auto simp: Let_def result_iff validate_entries_iff list_all_iff simp del: py_eq.simps split: sum.splits)

section \<open>Extraction stays in its stage\<close>

definition apart :: "path \<Rightarrow> path \<Rightarrow> bool" where
  "apart p q \<longleftrightarrow> \<not> is_prefix p q \<and> \<not> is_prefix q p"

lemma is_prefix_Cons [simp]: "is_prefix (x # p) (y # q) \<longleftrightarrow> x = y \<and> is_prefix p q" "is_prefix [] q"
  by (auto simp: is_prefix_def)

lemma apart_simps [simp]: "\<not> apart p []" "\<not> apart [] q" "apart (x # p) (y # q) \<longleftrightarrow> x \<noteq> y \<or> apart p q"
  by (auto simp: apart_def)

lemma apart_extend: "apart p q \<Longrightarrow> apart p (q @ r)"
proof (induction p arbitrary: q)
  case (Cons x p)
  then show ?case by (cases q) auto
qed simp

lemma map_of_update_other: "map_of (AList.update k v xs) p = (if p = k then Some v else map_of xs p)"
  by (simp add: update_conv fun_upd_def)

lemma update_at_apart: "update_at f q n = Some n' \<Longrightarrow> apart p q \<Longrightarrow> lookup n' p = lookup n p"
proof (induction f q n arbitrary: n' p rule: update_at.induct)
  case (2 f x ps st kids)
  then obtain m m' where m: "map_of kids x = Some m" "update_at f ps m = Some m'" "n' = DirN st (AList.update x m' kids)"
    by (auto split: option.splits)
  show ?case
  proof (cases p)
    case (Cons y p')
    with 2 m show ?thesis by (auto simp: map_of_update_other split: option.splits)
  qed (use 2 in simp)
qed auto

lemma put_node_apart: "put_node w q child fs = Some fs' \<Longrightarrow> apart p (butlast q) \<Longrightarrow> lookup fs' p = lookup fs p"
  unfolding put_node_def by (rule update_at_apart)

lemma butlast_target: "butlast (stage @ split_on 47 s) = stage @ butlast (split_on 47 s)"
  by (simp add: butlast_append)

lemma extract_entry_put:
  assumes "extract_entry ucd w stage b now read_member entry fs = Inr fs'"
  shows "\<exists>child. put_node w (stage @ split_on 47 (entry_path entry)) child fs = Some fs' \<and> kids_of child = [] \<and> (\<forall>t. child \<noteq> LinkN t)"
  using assms by (auto simp: extract_entry_def Let_def result_iff new_dir_def split: if_splits option.splits)

lemma extract_entries_apart:
  assumes "fold_res (extract_entry ucd w stage b now read_member) es fs = Inr fs'" and "apart p stage"
  shows "lookup fs' p = lookup fs p"
  using assms(1)
proof (induction es arbitrary: fs)
  case (Cons e es)
  then obtain fs1 where step: "extract_entry ucd w stage b now read_member e fs = Inr fs1"
    and rest: "fold_res (extract_entry ucd w stage b now read_member) es fs1 = Inr fs'" by (auto simp: rbind_Inr_iff)
  from extract_entry_put [OF step] obtain child where put: "put_node w (stage @ split_on 47 (entry_path e)) child fs = Some fs1" by blast
  have "lookup fs1 p = lookup fs p"
    by (rule put_node_apart [OF put]) (simp only: butlast_target apart_extend [OF assms(2)])
  with Cons.IH [OF rest] show ?case by simp
qed simp

section \<open>Extraction keeps the tree tidy\<close>

lemma tidy_update:
  assumes "tidy (DirN st kids)" and "tidy m" and "map_of kids p \<noteq> None"
  shows "tidy (DirN st (AList.update p m kids))"
proof -
  have p: "p \<in> set (map fst kids)" using assms(3) by (metis list.set_map map_of_eq_None_iff)
  then have "map fst (AList.update p m kids) = map fst kids" by (simp add: update_keys)
  moreover have "set (AList.update p m kids) \<subseteq> insert (p, m) (set kids)" by (induction kids) auto
  moreover have "p \<noteq> [] \<and> 47 \<notin> set p" using assms(1) p by (auto simp: list_all_iff)
  ultimately show ?thesis using assms(1,2) by (auto simp: list_all_iff)
qed

lemma update_at_tidy:
  "update_at f q n = Some n' \<Longrightarrow> tidy n \<Longrightarrow> (\<And>m m'. f m = Some m' \<Longrightarrow> tidy m \<Longrightarrow> tidy m') \<Longrightarrow> tidy n'"
proof (induction f q n arbitrary: n' rule: update_at.induct)
  case (2 f x ps st kids)
  then obtain m m' where m: "map_of kids x = Some m" "update_at f ps m = Some m'" "n' = DirN st (AList.update x m' kids)"
    by (auto split: option.splits)
  have "tidy m" using m(1) "2.prems"(2) by (auto simp: list_all_iff dest: map_of_SomeD)
  with 2 m have "tidy m'" by auto
  with tidy_update [OF "2.prems"(2), of m' x] m show ?case by simp
qed auto

lemma put_node_tidy:
  assumes "put_node w q child fs = Some fs'" and "tidy fs" "tidy child" "last q \<noteq> []" "47 \<notin> set (last q)"
  shows "tidy fs'"
  using assms(1,2) unfolding put_node_def
proof (rule update_at_tidy)
  fix m m'
  assume "put_kid w (last q) child m = Some m'" and "tidy m"
  then show "tidy m'" using assms(3-5) by (auto simp: put_kid_def split: node.splits if_splits)
qed

lemma tidy_childless: "kids_of n = [] \<Longrightarrow> (\<forall>t. n \<noteq> LinkN t) \<Longrightarrow> tidy n"
  by (cases n) auto

lemma safe_name_last: "safe_name ucd s \<Longrightarrow> last (split_on 47 s) \<noteq> []"
  using last_in_set [of "split_on 47 s"] by (auto simp: safe_name_def bad_part_def list_all_iff)

lemma extract_entries_tidy:
  assumes "fold_res (extract_entry ucd w stage b now read_member) es fs = Inr fs'" and "tidy fs"
    and "\<And>e. e \<in> set es \<Longrightarrow> safe_name ucd (entry_path e)"
  shows "tidy fs'"
  using assms
proof (induction es arbitrary: fs)
  case (Cons e es)
  then obtain fs1 where step: "extract_entry ucd w stage b now read_member e fs = Inr fs1"
    and rest: "fold_res (extract_entry ucd w stage b now read_member) es fs1 = Inr fs'" by (auto simp: rbind_Inr_iff)
  from extract_entry_put [OF step] obtain child where put: "put_node w (stage @ split_on 47 (entry_path e)) child fs = Some fs1"
    and child: "tidy child" using tidy_childless by blast
  have "last (stage @ split_on 47 (entry_path e)) = last (split_on 47 (entry_path e))" by simp
  with put_node_tidy [OF put Cons.prems(2) child] safe_name_last Cons.prems(3) split_on_no_sep
  have "tidy fs1" by (metis last_in_set list.set_intros(1) split_on_not_Nil)
  with Cons.IH [OF rest] Cons.prems(3) show ?case by simp
qed simp

section \<open>What unpacking establishes\<close>

lemma unpack_bundle_parts:
  assumes "unpack_bundle ucd wide pf open_zip w fs bundle bundle_root size_v sha_v dest allowed staging b now = Inr (r, fs')"
  shows "\<exists>stage st bs m infos read_member v raw. check_staging ucd fs dest allowed staging = Inr stage \<and>
    lookup fs bundle = Some (FileN st bs) \<and> linkless fs bundle \<and> int (length bs) = int_of size_v \<and> sha_v = JStr (sha256_hex bs) \<and>
    zip_directory_precheck bs b now = Inr () \<and> open_zip bs = Inr (infos, read_member) \<and>
    validated_manifest ucd wide pf raw b = Inr m \<and>
    fold_res (extract_entry ucd w stage b now read_member) (elems (fld ''entries'' m)) fs = Inr fs' \<and>
    verify_tree ucd fs' stage m b now (Some (fld ''staging_identity'' staging)) = Inr v \<and>
    fld ''manifest'' r = m \<and> fld ''manifest_sha256'' r = fld ''manifest_sha256'' v"
proof -
  have sum: "map_sum package_error (\<lambda>r. r) x = Inr y \<longleftrightarrow> x = Inr y" for x :: "(json \<times> node) result" and y by (cases x) auto
  from assms obtain stage where stage: "check_staging ucd fs dest allowed staging = Inr stage"
    and body: "unpack_body ucd wide pf open_zip w fs bundle bundle_root size_v sha_v dest stage staging b now = Inr (r, fs')"
    by (auto simp: unpack_bundle_def rbind_Inr_iff sum)
  from body obtain n0 where n0: "no_link fs bundle = Inr n0" by (auto simp: unpack_body_def rbind_Inr_iff)
  with body obtain st bs where n: "no_link fs bundle = Inr (FileN st bs)"
    by (cases n0) (auto simp: unpack_body_def rbind_Inr_iff)
  then have look: "lookup fs bundle = Some (FileN st bs)" by (simp add: no_link_iff)
  from body obtain m v where chain: "linkless fs bundle" and sha: "is_str sha_v"
    and same: "package_matches fs bundle b now (int_of size_v) (str_of sha_v) st (Error ''package_hash_mismatch'') = Inr ()"
    and pre: "zip_directory_precheck bs b now = Inr ()"
    and content: "unpack_content ucd wide pf open_zip w stage b now bs fs = Inr (m, fs')"
    and tree: "verify_tree ucd fs' stage m b now (Some (fld ''staging_identity'' staging)) = Inr v"
    and r: "fld ''manifest'' r = m" "fld ''manifest_sha256'' r = fld ''manifest_sha256'' v"
    unfolding unpack_body_def by (auto simp: n rbind_Inr_iff safe_chain_iff require_Inr_iff simp del: py_eq.simps)
  from content obtain infos read_member raw where c: "open_zip bs = Inr (infos, read_member)" "validated_manifest ucd wide pf raw b = Inr m"
    "fold_res (extract_entry ucd w stage b now read_member) (elems (fld ''entries'' m)) fs = Inr fs'"
    by (auto simp: unpack_content_def Let_def rbind_Inr_iff split: option.splits)
  from same look have "int (length bs) = int_of size_v \<and> sha256_hex bs = str_of sha_v"
    by (auto simp: package_matches_def hash_path_def rbind_Inr_iff require_Inr_iff read_loop_iff)
  with sha have "int (length bs) = int_of size_v" "sha_v = JStr (sha256_hex bs)" by (cases sha_v; simp)+
  with stage look chain pre c tree r show ?thesis by blast
qed

end
