(* ===== verification/Captured.thy ===== *)
theory Captured
  imports Unpack
begin

text \<open>
  The two ends of a transfer together: what a scan of the sources collects, and that the receiving
  side accepts it; then the properties of the package components, applied to a small world.
\<close>

section \<open>Sorting keys twice\<close>

lemma sort_key_map_values: "sort_key fst (map (\<lambda>(k, v). (k, f v)) kvs) = map (\<lambda>(k, v). (k, f v)) (sort_key fst kvs)"
proof -
  have ins: "insort_key fst (k, f v) (map (\<lambda>(k, v). (k, f v)) xs) = map (\<lambda>(k, v). (k, f v)) (insort_key fst (k, v) xs)"
    for k v xs by (induction xs) auto
  show ?thesis by (induction kvs) (auto simp: ins)
qed

lemma sort_json_idem [simp]: "sort_json (sort_json v) = sort_json v"
proof (induction v rule: json_induct)
  case (Obj kvs)
  then have "map (\<lambda>(k, v). (k, sort_json v)) (map (\<lambda>(k, v). (k, sort_json v)) kvs) = map (\<lambda>(k, v). (k, sort_json v)) kvs" by auto
  then have "sort_json (sort_json (JObj kvs)) = JObj (sort_key fst (sort_key fst (map (\<lambda>(k, v). (k, sort_json v)) kvs)))"
    by (simp add: sort_key_map_values [symmetric] del: map_map)
  moreover have "sort_key fst (sort_key fst xs) = sort_key fst xs" for xs :: "(pystr \<times> json) list"
    by (rule sort_key_id_if_sorted) simp
  ultimately show ?case by simp
qed auto

lemma sorted_values_map_of:
  assumes "distinct (map fst kvs)"
  shows "map_of (sort_key fst (map (\<lambda>(k, v). (k, f v)) kvs)) k = map_option f (map_of kvs k)"
proof -
  have "map fst (map (\<lambda>(k, v). (k, f v)) kvs) = map fst kvs" by auto
  then have d: "distinct (map fst (map (\<lambda>(k, v). (k, f v)) kvs))" using assms by (simp only:)
  then have "distinct (map fst (sort_key fst (map (\<lambda>(k, v). (k, f v)) kvs)))" by (simp only: distinct_map distinct_sort set_sort)
  then have "map_of (sort_key fst (map (\<lambda>(k, v). (k, f v)) kvs)) = map_of (map (\<lambda>(k, v). (k, f v)) kvs)"
    using d by (intro map_of_inject_set [THEN iffD2]) auto
  then show ?thesis by (simp add: map_of_map)
qed

lemma fld_sort_json: "wf_json v \<Longrightarrow> fld k (sort_json v) = sort_json (fld k v)"
  by (cases v) (auto simp: fld_def sorted_values_map_of split: option.splits)

lemma jkeys_sort_json: "set (jkeys (sort_json v)) = set (jkeys v)"
  by (cases v) force+

lemma has_keys_sort_json [simp]: "has_keys (sort_json v) ks = has_keys v ks"
  using jkeys_sort_json [of v] by (cases v) (simp_all add: has_keys_def same_set_iff del: jkeys.simps)

lemma sort_json_leaf [simp]:
  "sort_json v = JStr s \<longleftrightarrow> v = JStr s" "is_str (sort_json v) = is_str v" "is_int (sort_json v) = is_int v"
  "is_list (sort_json v) = is_list v" "is_obj (sort_json v) = is_obj v" "int_of (sort_json v) = int_of v"
  "is_count (sort_json v) = is_count v" "is_digest (sort_json v) = is_digest v" "str_of (sort_json v) = str_of v"
  by (cases v; simp add: is_count_def)+

lemma elems_sort_json: "elems (sort_json v) = map sort_json (elems v)"
  by (cases v) auto

lemma items_sort_json: "set (items (sort_json v)) = (\<lambda>(k, w). (k, sort_json w)) ` set (items v)"
  by (cases v) auto

lemma no_nan_sort_json: "no_nan v \<Longrightarrow> no_nan (sort_json v)"
  by (induction v rule: json_induct) (fastforce simp: list_all_iff)+

section \<open>Reading canonical object bytes\<close>

lemma dumps_object_head: "\<exists>c r. dumps (JObj kvs) = 123 # c # r \<and> (c = 34 \<or> c = 125)"
proof (cases kvs)
  case (Cons kv ks)
  then show ?thesis by (cases kv; cases ks) (auto simp: json_string_def)
qed simp

lemma plain_utf8_object: "plain_utf8 (utf8_bytes (dumps (JObj kvs)))"
proof -
  obtain c r where d: "dumps (JObj kvs) = 123 # c # r" and c: "c = 34 \<or> c = 125" using dumps_object_head by blast
  from c have "utf8_bytes (dumps (JObj kvs)) = 123 # of_nat c # utf8_bytes r" unfolding d by (auto simp: utf8_bytes_def utf8_char_def)
  with c show ?thesis by (auto simp: plain_utf8_def)
qed

lemma last_pairs_distinct: "distinct (map fst kvs) \<Longrightarrow> last_pairs kvs = Inr (JObj kvs)"
proof -
  have upd: "k \<notin> set (map fst acc) \<Longrightarrow> AList.update k v acc = acc @ [(k, v)]" for k acc and v :: json
    by (induction acc) auto
  have "distinct (map fst (acc @ kvs)) \<Longrightarrow> fold (\<lambda>(k, v). AList.update k v) kvs acc = acc @ kvs" for acc
  proof (induction kvs arbitrary: acc)
    case (Cons kv kvs)
    then show ?case by (cases kv) (simp add: upd)
  qed simp
  from this [of "[]"] show "distinct (map fst kvs) \<Longrightarrow> ?thesis" by (simp add: last_pairs_def)
qed

lemma loads_bytes_object:
  assumes "canonical_json v = Inr raw" and "wf_json v" and "floats_ok pf v" and "is_obj v"
  shows "loads_bytes wide pf raw = Inr (sort_json v)"
proof -
  from assms have raw: "raw = utf8_bytes (dumps (sort_json v))" "list_all is_scalar (dumps (sort_json v))" "dumpable v"
    by (simp_all add: canonical_json_Inr)
  from assms(4) obtain kvs where "sort_json v = JObj kvs" by (cases v) auto
  then have plain: "plain_utf8 raw" using plain_utf8_object raw by simp
  have "decode_utf8 raw = Inr (dumps (sort_json v))" using raw by (intro decode_encode_utf8) (simp add: encode_utf8_def)
  then have "decode_utf8_pass raw = Inr (dumps (sort_json v))" by (rule decode_utf8_pass_strict)
  moreover have "loads pf last_pairs float_constant (dumps (sort_json v)) = Inr (sort_json v)"
    using assms raw by (intro loads_dumps) (auto simp: last_pairs_distinct sort_json_invariants)
  ultimately show ?thesis using plain by (simp add: loads_bytes_def)
qed

section \<open>What a scan collects\<close>

text \<open>Device, inode and size numbers of the operating system are not negative.\<close>

definition stat_ok :: "stat \<Rightarrow> bool" where
  "stat_ok st \<longleftrightarrow> 0 \<le> st_dev st \<and> 0 \<le> st_ino st \<and> 0 \<le> st_size st"

fun stats_ok :: "node \<Rightarrow> bool" where
  "stats_ok (FileN st bs) = stat_ok st"
| "stats_ok (DirN st kids) = (stat_ok st \<and> list_all (\<lambda>(k, n). stats_ok n) kids)"
| "stats_ok (LinkN (Some t)) = stats_ok t"
| "stats_ok (LinkN None) = True"
| "stats_ok (OtherN st) = stat_ok st"

lemma stats_ok_lookup: "stats_ok fs \<Longrightarrow> lookup fs p = Some n \<Longrightarrow> stats_ok n"
  by (induction fs p rule: lookup.induct) (auto split: option.splits dest!: map_of_SomeD simp: list_all_iff)

fun floatless :: "json \<Rightarrow> bool" where
  "floatless (JFloat f) = False"
| "floatless (JList xs) = list_all floatless xs"
| "floatless (JObj kvs) = list_all (\<lambda>(k, v). floatless v) kvs"
| "floatless v = True"

lemma floatless_obj: "floatless (obj kvs) \<longleftrightarrow> list_all (\<lambda>(k, v). floatless v) kvs"
  by (simp add: obj_def list_all_iff) force

lemma floatless_ok: "floatless v \<Longrightarrow> floats_ok pf v \<and> no_nan v"
  by (induction v rule: json_induct) (auto simp: list_all_iff)

lemma file_identity_ok: "stat_ok st \<Longrightarrow> entry_identity_ok (file_identity st) \<and> floatless (file_identity st)"
  by (simp add: entry_identity_ok_def file_identity_def identity_keys_def stat_ok_def same_set_def floatless_obj) (simp add: obj_def)

lemma items_obj_Nil [simp]: "items (obj kvs) = [] \<longleftrightarrow> kvs = []"
  by (simp add: obj_def)

lemma directory_entry_ok:
  assumes "entry_identity_ok i" and "floatless i"
  shows "entry_shape (directory_entry name i) \<and> is_directory (directory_entry name i) \<and> floatless (directory_entry name i) \<and>
    entry_path (directory_entry name i) = name"
  using assms by (simp add: entry_shape_def directory_entry_def entry_path_def is_directory_def same_set_def floatless_obj)

lemma file_entry_ok:
  assumes "stat_ok st" and "st_size st = int (length bs)"
  shows "let e = file_entry name (fld ''size'' (file_identity st)) (JStr (sha256_hex bs)) (file_identity st) in
    entry_shape e \<and> \<not> is_directory e \<and> floatless e \<and> entry_path e = name \<and> entry_size e = st_size st"
  using assms file_identity_ok [OF assms(1)]
  by (simp add: entry_shape_def file_entry_def entry_path_def is_directory_def same_set_def floatless_obj Let_def entry_size_def
      is_count_def) (simp add: file_identity_def)

definition scan_inv :: "budget \<Rightarrow> scan \<Rightarrow> bool" where
  "scan_inv b s \<longleftrightarrow> names s = map entry_path (entries s) \<and> list_all (\<lambda>e. entry_shape e \<and> floatless e) (entries s) \<and>
     logical s = sum_list (map entry_size (entries s)) \<and>
     (list_ex (\<lambda>e. \<not> is_directory e) (entries s) \<longrightarrow> logical s \<le> max_logical_bytes b) \<and>
     int (length (entries s)) \<le> max_files b"

lemma push_directory_inv:
  assumes "push_entry b (directory_entry name i) name s = Inr s'" and "scan_inv b s" and "entry_identity_ok i" "floatless i"
    and "int (length (entries s)) + 1 \<le> max_files b"
  shows "scan_inv b s'"
  using assms directory_entry_ok [OF assms(3,4), of name] by (auto simp: push_entry_def Let_def result_iff scan_inv_def)

lemma add_file_inv:
  assumes "add_file ucd fs b now root st p name s = Inr s'" and "scan_inv b s" and "lookup fs p = Some (FileN st bs)" and "stat_ok st"
    and "int (length (entries s)) + 1 \<le> max_files b"
  shows "scan_inv b s'"
proof -
  from assms(1,3) have size: "st_size st = int (length bs)" "logical s + st_size st \<le> max_logical_bytes b"
    and push: "push_entry b (file_entry name (fld ''size'' (file_identity st)) (JStr (sha256_hex bs)) (file_identity st)) name
      (s\<lparr>logical := logical s + int_of (fld ''size'' (file_identity st))\<rparr>) = Inr s'"
    by (auto simp: add_file_def result_iff)
  have "fld ''size'' (file_identity st) = JInt (st_size st)" by (simp add: file_identity_def)
  with size push file_entry_ok [OF assms(4) size(1), of name] assms(2,5) show ?thesis
    by (auto simp: push_entry_def Let_def result_iff scan_inv_def)
qed

lemma add_node_inv:
  assumes "tidy fs" and "stats_ok fs"
  shows "add_node ucd fs b now root n p name s = Inr s' \<Longrightarrow> lookup fs p = Some n \<Longrightarrow> scan_inv b s \<Longrightarrow> scan_inv b s'"
proof (induction n arbitrary: p name s s')
  case (FileN st bs)
  then show ?case using stats_ok_lookup [OF assms(2) FileN(2)]
    by (auto simp: rbind_Inr_iff add_enter_def require_Inr_iff intro: add_file_inv)
next
  case (DirN st kids)
  from DirN.prems(1) obtain s1 s2 where room: "int (length (entries s)) + 1 \<le> max_files b"
    and push: "push_entry b (directory_entry name (file_identity st)) name s = Inr s1"
    and kids: "add_kids ucd fs b now root kids p name s1 = Inr s2" and last: "s' = s2"
    by (auto simp: rbind_Inr_iff add_enter_def recheck_def require_Inr_iff)
  have "stat_ok st" using stats_ok_lookup [OF assms(2) DirN.prems(2)] by simp
  then have s1: "scan_inv b s1"
    using push_directory_inv [OF push DirN.prems(3) _ _ room] file_identity_ok by blast
  have "add_kids ucd fs b now root ks p name s1 = Inr s2 \<Longrightarrow> scan_inv b s1 \<Longrightarrow> set ks \<subseteq> set kids \<Longrightarrow> scan_inv b s2" for ks s1
  proof (induction ks arbitrary: s1)
    case (Cons k ks)
    obtain x m where k: "k = (x, m)" by (cases k)
    from Cons.prems(1) k obtain s3 where one: "add_node ucd fs b now root m (p @ [x]) (name @ 47 # x) s1 = Inr s3"
      and rest: "add_kids ucd fs b now root ks p name s3 = Inr s2" by (auto simp: rbind_Inr_iff)
    have mem: "(x, m) \<in> set kids" using Cons.prems(3) k by auto
    have "lookup fs (p @ [x]) = Some m" using lookup_kid [OF assms(1) DirN.prems(2)] mem by simp
    with DirN.IH [OF mem _ one] Cons.prems(2) have "scan_inv b s3" by auto
    with Cons.IH [OF rest] Cons.prems(3) show ?case by auto
  qed simp
  with kids s1 last show ?case by auto
qed (auto simp: rbind_Inr_iff)

lemma scan_source_inv:
  assumes "tidy fs" and "stats_ok fs" and "scan_source ucd fs b now roots spec s = Inr s'" and "scan_inv b s"
  shows "scan_inv b s'"
proof -
  from assms(3) obtain root p n name where "add_node ucd fs b now root n p name s = Inr s'" and "lookup fs p = Some n"
    by (auto simp: scan_source_def result_iff split: option.splits)
  with add_node_inv [OF assms(1,2)] assms(4) show ?thesis by blast
qed

lemma fold_res_inv:
  assumes "\<And>x s s'. x \<in> set xs \<Longrightarrow> f x s = Inr s' \<Longrightarrow> P s \<Longrightarrow> P s'"
  shows "fold_res f xs s = Inr s' \<Longrightarrow> P s \<Longrightarrow> P s'"
  using assms
proof (induction xs arbitrary: s)
  case (Cons x xs)
  from Cons.prems(1) obtain s1 where step: "f x s = Inr s1" "fold_res f xs s1 = Inr s'" by (auto simp: rbind_Inr_iff)
  have "P s1" using Cons.prems(3) [OF _ step(1) Cons.prems(2)] by simp
  from Cons.IH [OF step(2) this] Cons.prems(3) show ?case by (meson list.set_intros(2))
qed simp

lemma add_virtual_inv: "add_virtual b parent s = Inr s' \<Longrightarrow> scan_inv b s \<Longrightarrow> scan_inv b s' \<and> set (names s') = insert parent (set (names s))"
proof -
  have "entry_identity_ok (obj []) \<and> floatless (obj [])" by (simp add: entry_identity_ok_def obj_def)
  with directory_entry_ok [of "obj []" parent]
  show "add_virtual b parent s = Inr s' \<Longrightarrow> scan_inv b s \<Longrightarrow> ?thesis"
    by (auto simp: add_virtual_def Let_def result_iff scan_inv_def split: if_splits)
qed

lemma add_virtuals_inv:
  "fold_res (add_virtual b) ps s = Inr s' \<Longrightarrow> scan_inv b s \<Longrightarrow> scan_inv b s' \<and> set (names s') = set ps \<union> set (names s)"
proof (induction ps arbitrary: s)
  case (Cons q ps)
  then obtain s1 where "add_virtual b q s = Inr s1" "fold_res (add_virtual b) ps s1 = Inr s'" by (auto simp: rbind_Inr_iff)
  with Cons add_virtual_inv show ?case by fastforce
qed simp

section \<open>Ancestors under case folding\<close>

text \<open>
  Case folding works character by character, keeps the slash, and folds no other character to one.
\<close>

definition folds_by_char :: "unicode_db \<Rightarrow> bool" where
  "folds_by_char ucd \<longleftrightarrow> (\<forall>s. casefold ucd s = concat (map (\<lambda>c. casefold ucd [c]) s)) \<and> casefold ucd [47] = [47] \<and>
     (\<forall>c. c \<noteq> 47 \<longrightarrow> 47 \<notin> set (casefold ucd [c]))"

lemma folds_by_charE:
  assumes "folds_by_char ucd"
  obtains g where "\<And>s. casefold ucd s = concat (map g s)" "g 47 = [47]" "\<And>c. c \<noteq> 47 \<Longrightarrow> 47 \<notin> set (g c)"
proof
  show "casefold ucd s = concat (map (\<lambda>c. casefold ucd [c]) s)" for s using assms unfolding folds_by_char_def by blast
  show "casefold ucd [47] = [47]" and "c \<noteq> 47 \<Longrightarrow> 47 \<notin> set (casefold ucd [c])" for c
    using assms unfolding folds_by_char_def by blast+
qed

lemma fold_no_slash:
  assumes "folds_by_char ucd" and "47 \<notin> set p"
  shows "47 \<notin> set (casefold ucd p)"
proof -
  obtain g where "\<And>s. casefold ucd s = concat (map g s)" "\<And>c. c \<noteq> 47 \<Longrightarrow> 47 \<notin> set (g c)"
    by (rule folds_by_charE [OF assms(1)]) blast
  moreover from this have "47 \<notin> (\<Union>c \<in> set p. set (g c))" using assms(2) by (metis UN_E)
  ultimately show ?thesis by simp
qed

lemma fold_join:
  assumes "folds_by_char ucd"
  shows "casefold ucd (join_on 47 ps) = join_on 47 (map (casefold ucd) ps)"
proof -
  obtain g where g: "\<And>s. casefold ucd s = concat (map g s)" "g 47 = [47]"
    by (rule folds_by_charE [OF assms]) blast
  show ?thesis by (induction "47 :: nat" ps rule: join_on.induct) (simp_all add: g)
qed

lemma split_fold: "folds_by_char ucd \<Longrightarrow> split_on 47 (casefold ucd s) = map (casefold ucd) (split_on 47 s)"
proof -
  assume f: "folds_by_char ucd"
  have "casefold ucd s = join_on 47 (map (casefold ucd) (split_on 47 s))" using fold_join [OF f, of "split_on 47 s"] by simp
  moreover have "split_on 47 (join_on 47 (map (casefold ucd) (split_on 47 s))) = map (casefold ucd) (split_on 47 s)"
    by (rule split_join) (use fold_no_slash [OF f] split_on_no_sep in auto)
  ultimately show ?thesis by simp
qed

lemma ancestors_fold: "folds_by_char ucd \<Longrightarrow> ancestors (casefold ucd s) = map (casefold ucd) (ancestors s)"
  by (simp add: ancestors_def Let_def split_fold fold_join take_map)

lemma ancestors_trans:
  assumes "a \<in> set (ancestors n)" and "c \<in> set (ancestors a)"
  shows "c \<in> set (ancestors n)"
proof -
  let ?ps = "split_on 47 n"
  from assms(1) obtain i where i: "1 \<le> i" "i < length ?ps" "a = join_on 47 (take i ?ps)" by (auto simp: ancestors_def Let_def)
  have "split_on 47 a = take i ?ps"
    unfolding i(3) by (rule split_join) (use i(1) split_on_no_sep in \<open>auto dest: in_set_takeD\<close>)
  with assms(2) i show ?thesis by (auto simp: ancestors_def Let_def min_def)
qed

section \<open>Captured manifests are accepted\<close>

lemma entry_identity_sort: "wf_json i \<Longrightarrow> entry_identity_ok i \<Longrightarrow> entry_identity_ok (sort_json i)"
proof -
  assume a: "wf_json i" "entry_identity_ok i"
  have "items (sort_json i) = [] \<longleftrightarrow> items i = []" using items_sort_json [of i] by (metis image_is_empty set_empty)
  with a show ?thesis
    by (auto simp: entry_identity_ok_def fld_sort_json items_sort_json list_all_iff)
qed

lemma sorted_entry:
  assumes "wf_json e" and "entry_shape e"
  shows "entry_path (sort_json e) = entry_path e \<and> is_directory (sort_json e) = is_directory e \<and>
    entry_size (sort_json e) = entry_size e \<and> entry_shape (sort_json e)"
proof -
  have path: "sort_json (fld ''path'' e) = fld ''path'' e" 
    using assms(2) by (cases "fld ''path'' e") (simp_all add: entry_shape_def)
  have i: "wf_json (fld ''identity'' e)" using assms(1) by (rule wf_json_fld)
  have f: "fld k (sort_json e) = sort_json (fld k e)" for k using assms(1) by (rule fld_sort_json)
  have ne: "items (sort_json (fld ''identity'' e)) = [] \<longleftrightarrow> items (fld ''identity'' e) = []"
    using items_sort_json [of "fld ''identity'' e"] by (metis image_is_empty set_empty)
  have eq: "py_eq (sort_json (fld ''size'' (fld ''identity'' e))) (sort_json (fld ''size'' e))"
    if "py_eq (fld ''size'' (fld ''identity'' e)) (fld ''size'' e)" "is_count (fld ''size'' e)" "entry_identity_ok (fld ''identity'' e)"
      "items (fld ''identity'' e) \<noteq> []"
  proof -
    have "dget ''size'' (fld ''identity'' e) = Some (fld ''size'' (fld ''identity'' e))"
      using that(3,4) by (intro has_keys_dget [where ks = identity_keys]) (simp_all add: entry_identity_ok_def identity_keys_def)
    then have "is_int (fld ''size'' (fld ''identity'' e))"
      using that(3,4) by (auto simp: entry_identity_ok_def list_all_iff dest!: dget_Some_in)
    with that show ?thesis by (cases "fld ''size'' (fld ''identity'' e)"; cases "fld ''size'' e") (simp_all add: is_count_def)
  qed
  show ?thesis
    using assms(2) entry_identity_sort [OF i] eq
    by (auto simp: entry_path_def is_directory_def entry_size_def entry_shape_def f path fld_sort_json [OF i] ne simp del: py_eq.simps)
qed

lemma scan_sources_result:
  assumes "scan_sources ucd fs roots sources b now refs = Inr m" and "tidy fs" and "stats_ok fs"
  shows "\<exists>es. m = obj [(''schema'', manifest_schema), (''evidence_refs'', refs), (''entries'', JList (sort_key entry_path es))] \<and>
    is_list refs \<and> list_all is_str (elems refs) \<and> list_all (\<lambda>e. entry_shape e \<and> floatless e) es \<and>
    (list_ex (\<lambda>e. \<not> is_directory e) es \<longrightarrow> sum_list (map entry_size es) \<le> max_logical_bytes b) \<and>
    int (length es) \<le> max_files b \<and> (\<forall>e \<in> set es. set (ancestors (entry_path e)) \<subseteq> entry_path ` set es) \<and>
    check_collisions ucd (map entry_path es) (map entry_path (filter is_directory es)) = Inr ()"
proof -
  from assms(1) obtain c0 s1 s2 where r: "elems sources \<noteq> []" "int (length (elems sources)) \<le> max_files b"
    "is_list refs" "list_all is_str (elems refs)"
    and f1: "fold_res (scan_source ucd fs b now roots) (elems sources) \<lparr>entries = [], names = [], logical = 0, metadata = c0\<rparr> = Inr s1"
    and f2: "fold_res (add_virtual b) (concat (map ancestors (names s1))) s1 = Inr s2"
    and coll: "check_collisions ucd (names s2) (map entry_path (filter (\<lambda>e. fld ''type'' e = JStr (u ''directory'')) (entries s2))) = Inr ()"
    and m: "m = obj [(''schema'', manifest_schema), (''evidence_refs'', refs), (''entries'', JList (sort_key entry_path (entries s2)))]"
    unfolding scan_sources_def by (auto simp: Let_def rbind_Inr_iff require_Inr_iff)
  have "0 \<le> max_files b" using r(1,2) by (cases "elems sources") auto
  then have "scan_inv b \<lparr>entries = [], names = [], logical = 0, metadata = c0\<rparr>" by (simp add: scan_inv_def)
  from fold_res_inv [where P = "scan_inv b", OF _ f1 this] scan_source_inv [OF assms(2,3)] have "scan_inv b s1" by blast
  from add_virtuals_inv [OF f2 this] have inv: "scan_inv b s2"
    and names: "set (names s2) = set (concat (map ancestors (names s1))) \<union> set (names s1)" by auto
  have anc: "set (ancestors n) \<subseteq> set (names s2)" if "n \<in> set (names s2)" for n
    using that ancestors_trans by (fastforce simp: names)
  show ?thesis
    using m r(3,4) inv anc coll is_directory_def [abs_def] by (intro exI [of _ "entries s2"]) (auto simp: scan_inv_def)
qed

lemma captured_manifest_valid:
  assumes "scan_sources ucd fs roots sources b now refs = Inr m" and "canonical_json m = Inr raw" and "wf_json m"
    and "folds_by_char ucd" and "tidy fs" and "stats_ok fs" and "int (length raw) \<le> max_metadata_bytes b"
  shows "validated_manifest ucd wide pf raw b = Inr (sort_json m)"
proof -
  from scan_sources_result [OF assms(1,5,6)] obtain es where
    m: "m = obj [(''schema'', manifest_schema), (''evidence_refs'', refs), (''entries'', JList (sort_key entry_path es))]"
    and refs: "is_list refs" "list_all is_str (elems refs)" and shape: "list_all (\<lambda>e. entry_shape e \<and> floatless e) es"
    and sum: "list_ex (\<lambda>e. \<not> is_directory e) es \<longrightarrow> sum_list (map entry_size es) \<le> max_logical_bytes b"
    and len: "int (length es) \<le> max_files b"
    and anc: "\<And>e. e \<in> set es \<Longrightarrow> set (ancestors (entry_path e)) \<subseteq> entry_path ` set es"
    and coll: "check_collisions ucd (map entry_path es) (map entry_path (filter is_directory es)) = Inr ()" by blast
  let ?ss = "sort_key entry_path es" and ?ts = "map sort_json (sort_key entry_path es)"
  have wf: "wf_json e" if "e \<in> set es" for e
    using assms(3) that by (simp add: m wf_json_obj list_all_iff)
  have same: "entry_path (sort_json e) = entry_path e" "is_directory (sort_json e) = is_directory e"
    "entry_size (sort_json e) = entry_size e" "entry_shape (sort_json e)" if "e \<in> set es" for e
    using sorted_entry [OF wf [OF that]] shape that by (auto simp: list_all_iff)
  have floats: "floatless m" using shape refs
    by (cases refs) (auto simp: m floatless_obj manifest_schema_def list_all_iff is_str.simps elim!: is_str.elims)
  have loads: "loads_bytes wide pf raw = Inr (sort_json m)"
    using assms(2,3) floatless_ok [OF floats] by (intro loads_bytes_object) (auto simp: m)
  have f: "fld k (sort_json m) = sort_json (fld k m)" for k using assms(3) by (rule fld_sort_json)
  have es: "elems (fld ''entries'' (sort_json m)) = ?ts" unfolding f by (simp add: m elems_sort_json)
  have paths: "map entry_path ?ts = map entry_path ?ss" using same(1) by simp
  have dirs: "set (map entry_path (filter is_directory ?ts)) = set (map entry_path (filter is_directory es))"
    using same by (force simp: image_iff)
  have safe: "safe_name ucd (entry_path e)" if "e \<in> set es" for e
    using coll that by (auto simp: check_collisions_iff list_all_iff)
  have inj: "inj_on (casefold ucd) (entry_path ` set es)" using coll by (auto simp: check_collisions_iff distinct_map intro: inj_on_imageI)
  have coll_dirs: "c \<in> casefold ucd ` set (map entry_path (filter is_directory es))"
    if "n \<in> set (map entry_path es)" "c \<in> set (ancestors (casefold ucd n))" "c \<in> casefold ucd ` set (map entry_path es)" for n c
    using coll that unfolding check_collisions_iff by blast
  have anc_dirs: "a \<in> set (map entry_path (filter is_directory es))" if "e \<in> set es" "a \<in> set (ancestors (entry_path e))" for e a
  proof -
    have a: "a \<in> entry_path ` set es" using anc that by blast
    moreover have "casefold ucd a \<in> set (ancestors (casefold ucd (entry_path e)))" using that(2) ancestors_fold [OF assms(4)] by simp
    ultimately have "casefold ucd a \<in> casefold ucd ` set (map entry_path (filter is_directory es))"
      using coll_dirs [of "entry_path e" "casefold ucd a"] that(1) by simp
    with inj a show ?thesis by (auto simp: inj_on_def)
  qed
  have sorted: "sort_key entry_path ?ts = ?ts" by (rule sort_key_id_if_sorted) (simp only: paths sorted_sort_key)
  have eq: "py_eq (JList ?ts) (JList ?ts)"
    using wf shape floatless_ok by (intro py_eq_refl) (auto simp: list_all_iff sort_json_invariants no_nan_sort_json)
  have sums: "sum_list (map entry_size ?ts) = sum_list (map entry_size es)"
  proof -
    have "map entry_size ?ts = map entry_size ?ss" using same(3) by simp
    then show ?thesis by (metis mset_map mset_sort sum_mset_sum_list)
  qed
  have coll2: "check_collisions ucd (map entry_path ?ts) (map entry_path (filter is_directory ?ts)) = Inr ()"
  proof -
    have "distinct (map (casefold ucd) (map entry_path ?ss))"
      using coll by (simp only: check_collisions_iff distinct_map set_sort distinct_sort list.set_map)
    then show ?thesis using coll unfolding check_collisions_iff paths dirs by (simp add: list_all_iff)
  qed
  have head: "has_keys (sort_json m) [''schema'', ''evidence_refs'', ''entries'']" "fld ''schema'' (sort_json m) = manifest_schema"
    "is_list (fld ''entries'' (sort_json m))" "is_list (fld ''evidence_refs'' (sort_json m))"
    "list_all is_str (elems (fld ''evidence_refs'' (sort_json m)))"
    unfolding f using refs by (simp_all add: m manifest_schema_def same_set_def elems_sort_json list_all_iff)
  have canon: "canonical_json (sort_json m) = Inr raw" using assms(2) canonical_json_cong [of "sort_json m" m] by simp
  have good: "list_all (good_entry ucd) ?ts" using safe same by (simp add: list_all_iff good_entry_def)
  have total: "list_ex (\<lambda>e. \<not> is_directory e) ?ts \<longrightarrow> sum_list (map entry_size ?ts) \<le> max_logical_bytes b"
    unfolding sums using sum same by (auto simp: list_ex_iff)
  have parents: "\<forall>e \<in> set ?ts. \<forall>a \<in> set (ancestors (entry_path e)). a \<in> set (map entry_path (filter is_directory ?ts))"
    unfolding dirs using anc_dirs same by (auto simp del: set_map simp: set_map [of sort_json])
  have len2: "int (length ?ts) \<le> max_files b" using len by simp
  show ?thesis
    unfolding validated_manifest_iff es Let_def sorted
    by (intro conjI assms(7) loads head canon len2 good total parents coll2 eq)
qed

section \<open>A small world\<close>

definition sample_ucd :: unicode_db where
  "sample_ucd = \<lparr>nfc = (\<lambda>s. s), casefold = (\<lambda>s. s)\<rparr>"

definition sample_stat :: "int \<Rightarrow> int \<Rightarrow> stat" where
  "sample_stat ino sz = \<lparr>st_dev = 1, st_ino = ino, st_size = sz, st_mtime_ns = 5, st_ctime_ns = 5, st_mode = 448, st_uid = 0, st_nlink = 1\<rparr>"

definition sample_zip :: "byte list" where
  "sample_zip = [80, 75, 5, 6, 0, 0, 0, 0, 0, 0, 0, 0, 0, 0, 0, 0, 0, 0, 0, 0, 0, 0]"

definition stage_name :: pystr where
  "stage_name = u ''.velo-stage-1''"

definition sample_fs :: node where
  "sample_fs = DirN (sample_stat 2 0)
     [(u ''s'', DirN (sample_stat 3 0) [(u ''a'', FileN (sample_stat 4 1) [97])]),
      (u ''o'', DirN (sample_stat 5 0) [(stage_name, DirN (sample_stat 6 0) [])]),
      (u ''p'', DirN (sample_stat 7 0) [(u ''b'', FileN (sample_stat 8 22) sample_zip)])]"

definition sample_budget :: budget where
  "sample_budget = \<lparr>max_files = 10, max_metadata_bytes = 2000, max_logical_bytes = 100, max_package_bytes = 1000,
     min_free_bytes = 0, deadline_monotonic = 100, max_expansion_ratio = 10, check_cancel = None\<rparr>"

definition sample_sources :: json where
  "sample_sources = JList [obj [(''absolute_path'', JStr (u ''/s/a'')), (''relative_path'', JStr (u ''a''))]]"

definition sample_entry :: json where
  "sample_entry = file_entry (u ''a'') (JInt 1) (JStr (sha256_hex [97])) (file_identity (sample_stat 4 1))"

definition sample_manifest :: json where
  "sample_manifest = obj [(''schema'', manifest_schema), (''evidence_refs'', JList []), (''entries'', JList [sample_entry])]"

lemma sample_names:
  "safe_name sample_ucd (u ''a'')" "safe_name sample_ucd (u ''b'')" "safe_name sample_ucd (u ''s'')"
  "safe_name sample_ucd stage_name" "safe_name sample_ucd (u ''x'')"
  by (simp_all add: name_defs sample_ucd_def stage_name_def)

lemma sample_check [simp]: "budget_check sample_budget 0 = Inr ()"
  by (simp add: budget_check_def sample_budget_def)

lemma sample_tidy: "tidy sample_fs" "stats_ok sample_fs" "folds_by_char sample_ucd"
  by (simp_all add: sample_fs_def stage_name_def u_def stat_ok_def sample_stat_def folds_by_char_def sample_ucd_def)

lemma serial_list: "serial (JList xs) \<longleftrightarrow> list_all serial xs"
  by (auto simp: serial_def list_all_iff)

lemma serial_digits: "0 \<le> i \<Longrightarrow> i < 10 \<Longrightarrow> serial (JInt i)"
proof -
  assume "0 \<le> i" "i < 10"
  then have "i = 0 \<or> i = 1 \<or> i = 2 \<or> i = 3 \<or> i = 4 \<or> i = 5 \<or> i = 6 \<or> i = 7 \<or> i = 8 \<or> i = 9" by arith
  then show ?thesis by (elim disjE) (simp_all add: serial_def int_printable_def int_max_str_digits_def dec_digits.simps)
qed

lemma sample_serial: "serial sample_entry" "serial sample_manifest"
proof -
  show "serial sample_entry"
    by (simp add: sample_entry_def file_entry_def file_identity_def sample_stat_def serial_obj serial_hex serial_digits)
  then show "serial sample_manifest"
    by (simp add: sample_manifest_def manifest_schema_def serial_obj serial_list)
qed

lemma char_cost_hex [simp]: "sum_list (map char_cost (sha256_hex m)) = 64"
proof -
  have "is_hex64 (sha256_hex m)" by simp
  moreover have "list_all is_hex_digit h \<Longrightarrow> sum_list (map char_cost h) = length h" for h
    by (induction h) (auto simp: text_simps char_cost_def)
  ultimately show ?thesis by (simp add: is_hex64_def del: sha256_hex_is_hex64)
qed

lemma sample_cost: "cost sample_entry \<le> 300" "cost sample_manifest \<le> 500"
proof -
  show e: "cost sample_entry \<le> 300"
    by (simp add: sample_entry_def file_entry_def file_identity_def sample_stat_def obj_def cost_simps text_cost_eq cost_int
        int_str_def dec_digits.simps u_def char_cost_def)
  show "cost sample_manifest \<le> 500"
    using e by (simp add: sample_manifest_def manifest_schema_def obj_def cost_simps text_cost_eq u_def char_cost_def)
qed

lemma sample_entry_bytes: "\<exists>bs. canonical_json sample_entry = Inr bs \<and> length bs \<le> 300"
  using serial_canonical [OF sample_serial(1)] canonical_json_length sample_cost(1) by fastforce

lemma sample_raw: "\<exists>raw. canonical_json sample_manifest = Inr raw \<and> length raw \<le> 500"
  using serial_canonical [OF sample_serial(2)] canonical_json_length sample_cost(2) by fastforce

lemmas sample_tree_defs = sample_fs_def sample_stat_def stage_name_def u_def

lemma sample_lookup:
  "lookup sample_fs [u ''s'', u ''a''] = Some (FileN (sample_stat 4 1) [97])"
  "lookup sample_fs [u ''p'', u ''b''] = Some (FileN (sample_stat 8 22) sample_zip)"
  "linkless sample_fs [u ''s'', u ''a'']" "linkless sample_fs [u ''p'', u ''b'']"
  by (simp_all add: sample_tree_defs)

lemma sample_capture: "capture_sources sample_ucd sample_fs [[u ''s'']] sample_sources sample_budget 0 JNull = Inr sample_manifest"
proof -
  let ?s0 = "\<lambda>c. \<lparr>entries = [], names = [], logical = 0, metadata = c\<rparr>"
  let ?s1 = "\<lambda>c. \<lparr>entries = [sample_entry], names = [u ''a''], logical = 1, metadata = c\<rparr>"
  have head: "\<exists>h. canonical_json (obj [(''schema'', manifest_schema), (''evidence_refs'', JList [])]) = Inr h \<and> length h \<le> 100"
  proof -
    have "serial (obj [(''schema'', manifest_schema), (''evidence_refs'', JList [])])"
      by (simp add: manifest_schema_def serial_obj serial_list)
    moreover have "cost (obj [(''schema'', manifest_schema), (''evidence_refs'', JList [])]) \<le> 100"
      by (simp add: manifest_schema_def obj_def cost_simps text_cost_eq u_def char_cost_def)
    ultimately show ?thesis using serial_canonical canonical_json_length by fastforce
  qed
  then obtain h where h: "canonical_json (obj [(''schema'', manifest_schema), (''evidence_refs'', JList [])]) = Inr h" "length h \<le> 100" by blast
  from sample_entry_bytes obtain e where e: "canonical_json sample_entry = Inr e" "length e \<le> 300" by blast
  from sample_raw obtain raw where raw: "canonical_json sample_manifest = Inr raw" "length raw \<le> 500" by blast
  have chain: "safe_chain sample_ucd sample_fs [u ''s'', u ''a''] [u ''s''] False = Inr ()"
    using sample_lookup(3) sample_names(1) by (simp add: safe_chain_iff is_prefix_def)
  have hash: "hash_file sample_ucd sample_fs [u ''s'', u ''a''] [u ''s''] sample_budget 0 = Inr (file_identity (sample_stat 4 1), sha256_hex [97])"
    using chain sample_lookup(1) by (simp add: hash_file_iff sample_stat_def) (simp add: sample_budget_def)
  have name: "encode_utf8 (u ''a'') = Inr [97]" by (simp add: encode_utf8_def utf8_bytes_def utf8_char_def u_def is_scalar_def is_surrogate_def)
  have enter: "add_enter sample_ucd sample_fs sample_budget 0 [u ''s''] [u ''s'', u ''a''] (u ''a'') (?s0 (int (length h))) = Inr (FileN (sample_stat 4 1) [97])"
    using chain sample_lookup(1) sample_names(1)
    by (simp add: add_enter_def no_link_def check_relative_iff [THEN iffD2]) (simp add: sample_budget_def)
  have one: "add_file sample_ucd sample_fs sample_budget 0 [u ''s''] (sample_stat 4 1) [u ''s'', u ''a''] (u ''a'') (?s0 (int (length h))) =
      Inr (?s1 (int (length h) + (int (length e) + 128 + 1)))"
    using e h(2) name hash
    by (simp add: add_file_def push_entry_def entry_charge_def sample_entry_def [symmetric] Let_def file_identity_def)
      (simp add: sample_entry_def file_identity_def sample_budget_def sample_stat_def)
  have paths: "absolute_path (u ''/s/a'') = Some [u ''s'', u ''a'']" by (simp add: absolute_path_def u_def starts_with_def)
  have dir: "path_is_dir sample_fs [u ''s'']" "no_link sample_fs [u ''s''] = Inr (DirN (sample_stat 3 0) [(u ''a'', FileN (sample_stat 4 1) [97])])"
    by (simp_all add: path_is_dir_def no_link_def sample_tree_defs)
  have root: "source_root_for sample_ucd sample_fs [u ''s'', u ''a''] [[u ''s'']] = Inr [u ''s'']"
    using chain dir by (simp add: source_root_for_def is_prefix_def)
  have rel: "check_relative sample_ucd (JStr (u ''a'')) = Inr (u ''a'')" using sample_names(1) by (simp add: check_relative_iff)
  let ?spec = "obj [(''absolute_path'', JStr (u ''/s/a'')), (''relative_path'', JStr (u ''a''))]"
  have src: "scan_source sample_ucd sample_fs sample_budget 0 [[u ''s'']] ?spec (?s0 (int (length h))) =
      Inr (?s1 (int (length h) + (int (length e) + 128 + 1)))"
    using enter one paths root rel sample_lookup(1) by (simp add: scan_source_def same_set_def)
  have anc: "ancestors (u ''a'') = []" by (simp add: ancestors_def u_def)
  have coll: "check_collisions sample_ucd [u ''a''] [] = Inr ()" using sample_names(1) by (simp add: check_collisions_iff) (simp add: ancestors_def u_def sample_ucd_def)
  have "fld ''type'' sample_entry \<noteq> JStr (u ''directory'')" by (simp add: sample_entry_def file_entry_def)
  then show ?thesis
    using h src anc coll raw dir
    by (simp add: capture_sources_def scan_sources_def sample_sources_def sample_manifest_def [symmetric] Let_def)
      (simp add: sample_budget_def)
qed

definition sample_raw_bytes :: "byte list" where
  "sample_raw_bytes = utf8_bytes (dumps (sort_json sample_manifest))"

definition sample_info :: "pystr \<Rightarrow> int \<Rightarrow> zip_info" where
  "sample_info name sz = \<lparr>filename = name, extra = [], zcomment = [], flag_bits = 0, compress_type = 0, external_attr = 0,
     file_size = sz, compress_size = sz\<rparr>"

definition sample_open :: "byte list \<Rightarrow> archive result" where
  "sample_open bs = Inr ([sample_info manifest_member (int (length sample_raw_bytes)), sample_info (u ''payload/a'') 1],
     \<lambda>name. Inr (if name = manifest_member then sample_raw_bytes else [97]))"

definition sample_world :: world where
  "sample_world = \<lparr>dir_stat = (\<lambda>p. sample_stat 9 0), file_stat = (\<lambda>p bs. sample_stat 9 (int (length bs))),
     touched = (\<lambda>st. st), free_space = Some 10000\<rparr>"

definition sample_staging :: json where
  "sample_staging = obj [(''staging_directory'', JStr (u ''/o/.velo-stage-1'')),
     (''staging_identity'', obj [(''device'', JInt 1), (''inode'', JInt 6)]),
     (''parent_identity'', obj [(''device'', JInt 1), (''inode'', JInt 5)]),
     (''destination_directory'', JStr (u ''/o/x''))]"

definition sample_after :: node where
  "sample_after = DirN (sample_stat 2 0)
     [(u ''s'', DirN (sample_stat 3 0) [(u ''a'', FileN (sample_stat 4 1) [97])]),
      (u ''o'', DirN (sample_stat 5 0) [(stage_name, DirN (sample_stat 6 0) [(u ''a'', FileN (sample_stat 9 1) [97])])]),
      (u ''p'', DirN (sample_stat 7 0) [(u ''b'', FileN (sample_stat 8 22) sample_zip)])]"

lemma sample_raw_canonical: "canonical_json sample_manifest = Inr sample_raw_bytes" "length sample_raw_bytes \<le> 500"
  using serial_canonical [OF sample_serial(2)] sample_raw by (auto simp: sample_raw_bytes_def)

lemma sample_valid: "validated_manifest sample_ucd wide pf sample_raw_bytes sample_budget = Inr (sort_json sample_manifest)"
  using sample_capture sample_raw_canonical sample_serial(2) sample_tidy
  by (intro captured_manifest_valid [where fs = sample_fs and roots = "[[u ''s'']]" and sources = sample_sources and now = 0 and refs = "JList []"])
    (auto simp: capture_sources_def serial_def sample_budget_def)

lemma sample_sorted:
  "elems (fld ''entries'' (sort_json sample_manifest)) = [sort_json sample_entry]"
  "entry_path (sort_json sample_entry) = u ''a''" "fld ''type'' (sort_json sample_entry) = JStr (u ''file'')"
  "fld ''size'' (sort_json sample_entry) = JInt 1" "fld ''sha256'' (sort_json sample_entry) = JStr (sha256_hex [97])"
proof -
  have m: "wf_json sample_manifest" and e: "wf_json sample_entry" using sample_serial by (simp_all add: serial_def)
  show "elems (fld ''entries'' (sort_json sample_manifest)) = [sort_json sample_entry]"
    unfolding fld_sort_json [OF m] by (simp add: sample_manifest_def)
  show "entry_path (sort_json sample_entry) = u ''a''" "fld ''type'' (sort_json sample_entry) = JStr (u ''file'')"
    "fld ''size'' (sort_json sample_entry) = JInt 1" "fld ''sha256'' (sort_json sample_entry) = JStr (sha256_hex [97])"
    unfolding entry_path_def fld_sort_json [OF e] by (simp_all add: sample_entry_def file_entry_def)
qed

lemma sample_stage_path: "absolute_path (u ''/o/.velo-stage-1'') = Some [u ''o'', stage_name]"
  by (simp add: absolute_path_def stage_name_def starts_with_def) (simp add: u_def)

lemma sample_allowed: "safe_name sample_ucd (u ''o'')" by (simp add: name_defs sample_ucd_def)

lemma sample_check_staging: "check_staging sample_ucd sample_fs [u ''o'', u ''x''] [u ''o''] sample_staging = Inr [u ''o'', stage_name]"
proof -
  have path: "path_str [u ''o'', u ''x''] = u ''/o/x''" by (simp add: path_str_def u_def)
  have ne: "stage_name \<noteq> u ''x''" by (simp add: stage_name_def)
  have c1: "safe_chain sample_ucd sample_fs [u ''o'', stage_name] [u ''o''] False = Inr ()"
    using sample_names(4) by (simp add: safe_chain_iff is_prefix_def) (simp add: sample_tree_defs)
  have c2: "safe_chain sample_ucd sample_fs [u ''o'', u ''x''] [u ''o''] True = Inr ()"
    using sample_names(5) check_relative_iff [THEN iffD2, of "JStr (u ''x'')" "u ''x''" sample_ucd]
    by (simp add: safe_chain_def is_prefix_def) (simp add: no_link_def sample_tree_defs)
  have look: "no_link sample_fs [u ''o'', stage_name] = Inr (DirN (sample_stat 6 0) [])"
    "dir_identity sample_fs [u ''o'', stage_name] = Inr (obj [(''device'', JInt 1), (''inode'', JInt 6)])"
    "dir_identity sample_fs [u ''o''] = Inr (obj [(''device'', JInt 1), (''inode'', JInt 5)])"
    by (simp_all add: dir_identity_def no_link_def sample_tree_defs)
  have eq: "py_eq (obj [(''device'', JInt 1), (''inode'', JInt i)]) (obj [(''device'', JInt 1), (''inode'', JInt i)])" for i
    by (simp add: obj_def)
  show ?thesis
    using c1 c2 ne look eq
    by (simp add: check_staging_def sample_staging_def staging_keys_def same_set_def path sample_stage_path is_private_def sample_stat_def
        del: py_eq.simps)
qed

lemma sample_precheck: "zip_directory_precheck sample_zip sample_budget 0 = Inr ()"
proof -
  have l: "length sample_zip = 22" by (simp add: sample_zip_def)
  have r: "rfind [80, 75, 5, 6] sample_zip = Some 0"
    by (simp add: rfind_def sample_zip_def)
  have le: "le_at sample_zip k n = 0" if "4 \<le> k" for k n
  proof -
    have "drop k sample_zip = replicate (22 - k) 0" using that
    proof -
      have "sample_zip = [80, 75, 5, 6] @ replicate 18 0" by (simp add: sample_zip_def numeral_eq_Suc)
      then have "drop k sample_zip = drop k ([80, 75, 5, 6] @ replicate 18 0)" by (rule arg_cong)
      also have "\<dots> = replicate (22 - k) 0" unfolding drop_append using that by simp
      finally show ?thesis .
    qed
    moreover have "le_nat (replicate j 0) = 0" for j by (induction j) simp_all
    ultimately show ?thesis by (simp add: le_at_def take_replicate)
  qed
  have "central_record sample_zip = Inr (0, 0, 0, 0)"
    by (simp add: central_record_def Let_def l r le)
  then show ?thesis by (simp add: zip_directory_precheck_def walk_central.simps) (simp add: sample_budget_def)
qed


lemma sample_after_lookup:
  "no_link sample_after [u ''o'', stage_name] = Inr (DirN (sample_stat 6 0) [(u ''a'', FileN (sample_stat 9 1) [97])])"
  "lookup sample_after [u ''o'', stage_name, u ''a''] = Some (FileN (sample_stat 9 1) [97])"
  "linkless sample_after [u ''o'', stage_name, u ''a'']" "linkless sample_after [u ''o'', stage_name]"
  "dir_identity sample_after [u ''o'', stage_name] = Inr (obj [(''device'', JInt 1), (''inode'', JInt 6)])"
  "dir_identity sample_after [u ''o''] = Inr (obj [(''device'', JInt 1), (''inode'', JInt 5)])"
  "lookup sample_after [u ''p'', u ''b''] = Some (FileN (sample_stat 8 22) sample_zip)"
  by (simp_all add: sample_after_def no_link_def dir_identity_def sample_stat_def stage_name_def u_def)

lemma sample_extract:
  "fold_res (extract_entry sample_ucd sample_world [u ''o'', stage_name] sample_budget 0 (\<lambda>name. Inr (if name = manifest_member then sample_raw_bytes else [97])))
     [sort_json sample_entry] sample_fs = Inr sample_after"
proof -
  have chain: "safe_chain sample_ucd sample_fs [u ''o'', stage_name] [u ''o'', stage_name] False = Inr ()"
    by (simp add: safe_chain_iff is_prefix_def) (simp add: sample_tree_defs)
  have split: "split_on 47 (u ''a'') = [u ''a'']" by (simp add: u_def)
  have name: "u ''payload/'' @ u ''a'' \<noteq> manifest_member" by (simp add: manifest_member_def u_def)
  have copy: "copy_loop sample_budget 0 (Some 10000) 1 [97] 0 = Inr 1"
    by (simp add: copy_loop.simps block_size_def budget_space_def) (simp add: sample_budget_def)
  have look: "lookup sample_fs [u ''o'', stage_name, u ''a''] = None" by (simp add: sample_tree_defs)
  have put: "put_node sample_world [u ''o'', stage_name, u ''a''] (FileN (sample_stat 9 1) [97]) sample_fs = Some sample_after"
    by (simp add: put_node_def put_kid_def sample_fs_def sample_after_def sample_world_def stage_name_def u_def)
  show ?thesis
    using chain name copy look put
    by (simp add: extract_entry_def sample_sorted split Let_def sample_world_def)
qed

lemma sample_verify_at:
  assumes look: "lookup fs (d @ [r]) = Some (DirN (sample_stat 6 0) [(u ''a'', FileN (sample_stat 9 1) [97])])" "linkless fs (d @ [r])"
  shows "\<exists>v. verify_tree sample_ucd fs (d @ [r]) (sort_json sample_manifest) sample_budget 0 (Some (obj [(''device'', JInt 1), (''inode'', JInt 6)])) = Inr v"
proof -
  let ?root = "d @ [r]"
  have kid: "lookup fs (?root @ [u ''a'']) = Some (FileN (sample_stat 9 1) [97])" using look(1) by (simp only: lookup_append) simp
  have plain: "linkless fs (?root @ [u ''a''])" using look(2) kid unfolding linkless_snoc [of fs ?root] by simp
  have chain: "safe_chain sample_ucd fs ?root ?root False = Inr ()" "safe_chain sample_ucd fs (?root @ [u ''a'']) ?root False = Inr ()"
    using look(2) plain sample_names(1) unfolding safe_chain_iff by (simp_all add: is_prefix_def)
  have hash: "hash_file sample_ucd fs (?root @ [u ''a'']) ?root sample_budget 0 = Inr (file_identity (sample_stat 9 1), sha256_hex [97])"
    using chain(2) kid by (simp add: hash_file_iff sample_stat_def) (simp add: sample_budget_def)
  have rel: "check_relative sample_ucd (JStr (u ''a'')) = Inr (u ''a'')" using sample_names(1) by (simp add: check_relative_iff)
  have files: "1 \<le> max_files sample_budget" by (simp add: sample_budget_def)
  have size: "fld ''size'' (file_identity (sample_stat 9 1)) = JInt 1" by (simp add: file_identity_def sample_stat_def)
  have dirs: "no_link fs ?root = Inr (DirN (sample_stat 6 0) [(u ''a'', FileN (sample_stat 9 1) [97])])"
    "dir_identity fs ?root = Inr (obj [(''device'', JInt 1), (''inode'', JInt 6)])"
    using look(1) by (simp_all add: no_link_iff dir_identity_def) (simp_all add: no_link_def sample_stat_def)
  have child: "verify_child sample_ucd fs ?root [(u ''a'', sort_json sample_entry)] sample_budget 0 ?root
      (u ''a'', FileN (sample_stat 9 1) [97]) \<lparr>t_actual = [], t_pending = []\<rparr> = Inr \<lparr>t_actual = [u ''a''], t_pending = []\<rparr>"
    using chain hash rel files size by (simp add: verify_child_def Let_def sample_sorted)
  have loop: "verify_loop sample_ucd fs ?root [(u ''a'', sort_json sample_entry)] sample_budget 0
      \<lparr>t_actual = [], t_pending = [(?root, DirN (sample_stat 6 0) [(u ''a'', FileN (sample_stat 9 1) [97])])]\<rparr> = Inr [u ''a'']"
    using child dirs(1) by (subst verify_loop.simps) (simp add: verify_loop.simps)
  have eq: "py_eq (obj [(''device'', JInt 1), (''inode'', JInt i)]) (obj [(''device'', JInt 1), (''inode'', JInt i)])" for i
    by (simp add: obj_def)
  have dig: "\<exists>d. digest_json (sort_json sample_manifest) = Inr d"
    using sha.dig_total sample_raw_canonical(1) canonical_json_cong [of "sort_json sample_manifest" sample_manifest] by simp
  then show ?thesis
    using chain(1) loop dirs eq
    by (auto simp: verify_tree_def sample_sorted Let_def same_set_def simp del: py_eq.simps)
qed

lemma sample_verify: "\<exists>v. verify_tree sample_ucd sample_after [u ''o'', stage_name] (sort_json sample_manifest) sample_budget 0
  (Some (obj [(''device'', JInt 1), (''inode'', JInt 6)])) = Inr v"
  using sample_verify_at [of sample_after "[u ''o'']" stage_name] sample_after_lookup(1,4) by (simp add: no_link_iff)

lemma sample_limits: "max_metadata_bytes sample_budget = 2000" "max_expansion_ratio sample_budget = 10"
  by (simp_all add: sample_budget_def)

lemma sample_members:
  "\<exists>r. members sample_ucd [sample_info manifest_member (int (length sample_raw_bytes)), sample_info (u ''payload/a'') 1]
     (sort_json sample_manifest) sample_budget 0 = Inr r"
proof -
  have bytes: "encode_utf8 (u s) = Inr (utf8_bytes (u s))" "length (utf8_bytes (u s)) = length s" if "list_all (\<lambda>c. of_char c < (128 :: nat)) s" for s
    using that by (auto simp: encode_utf8_def is_scalar_def is_surrogate_def u_def list_all_iff intro!: utf8_bytes_ascii [THEN trans])
  have n1: "encode_utf8 manifest_member = Inr (utf8_bytes manifest_member)" "length (utf8_bytes manifest_member) = 13"
    unfolding manifest_member_def by (subst bytes; simp)+
  have n2: "encode_utf8 (u ''payload/a'') = Inr (utf8_bytes (u ''payload/a''))" "length (utf8_bytes (u ''payload/a'')) = 9"
    by (subst bytes; simp)+
  have name: "member_name (sort_json sample_entry) = u ''payload/a''"
    by (simp add: member_name_def sample_sorted) (simp add: u_def)
  have ne: "manifest_member \<noteq> u ''payload/a''" by (simp add: manifest_member_def)
  have not_dir: "\<not> ends_with (u ''/'') (u ''payload/a'')" by (simp add: ends_with_def u_def)
  show ?thesis
    using ne not_dir
    by (simp add: sample_limits members_def sample_sorted Let_def member_step_def sample_info_def n1 n2 name member_mode_def sample_ucd_def
        same_set_def member_check_def)
qed

lemma sample_unpack:
  "\<exists>r. unpack_bundle sample_ucd wide pf sample_open sample_world sample_fs [u ''p'', u ''b''] [u ''p''] (JInt 22) (JStr (sha256_hex sample_zip))
     [u ''o'', u ''x''] [u ''o''] sample_staging sample_budget 0 = Inr (r, sample_after)"
proof -
  let ?dest = "[u ''o'', u ''x'']" and ?stage = "[u ''o'', stage_name]" and ?b = "[u ''p'', u ''b'']"
  have chain: "safe_chain sample_ucd sample_fs ?b [u ''p''] False = Inr ()"
    using sample_lookup sample_names(2) by (simp add: safe_chain_iff is_prefix_def)
  have dest: "lookup sample_fs ?dest = None" by (simp add: sample_tree_defs)
  have zip: "length sample_zip = 22" "sample_zip \<noteq> []" by (simp_all add: sample_zip_def)
  have hash: "hash_path fs ?b sample_budget 0 = Inr (22, sha256_hex sample_zip)"
    if "lookup fs ?b = Some (FileN (sample_stat 8 22) sample_zip)" for fs
    using that zip read_loop_iff [of sample_budget 0 "max_package_bytes sample_budget" "Error ''package_budget_exceeded''" sample_zip 0 22]
    by (simp add: hash_path_def) (simp add: sample_budget_def)
  have same: "package_matches fs ?b sample_budget 0 22 (sha256_hex sample_zip) (sample_stat 8 22) e = Inr ()"
    if "lookup fs ?b = Some (FileN (sample_stat 8 22) sample_zip)" for fs e
    using hash [OF that] that by (simp add: package_matches_def no_link_def)
  have content: "unpack_content sample_ucd wide pf sample_open sample_world ?stage sample_budget 0 sample_zip sample_fs =
      Inr (sort_json sample_manifest, sample_after)"
  proof -
    from sample_members obtain r where r: "members sample_ucd [sample_info manifest_member (int (length sample_raw_bytes)), sample_info (u ''payload/a'') 1]
     (sort_json sample_manifest) sample_budget 0 = Inr r" by blast
    have short: "take (nat (max_metadata_bytes sample_budget + 1)) sample_raw_bytes = sample_raw_bytes"
      "int (length sample_raw_bytes) \<le> max_metadata_bytes sample_budget"
      using sample_raw_canonical(2) by (simp_all add: sample_budget_def)
    have space: "budget_space sample_budget 0 (Some 10000) (1 + int (length sample_raw_bytes) + 1024) = Inr ()"
      using sample_raw_canonical(2) by (simp add: budget_space_def) (simp add: sample_budget_def)
    have ne: "u ''payload/a'' \<noteq> manifest_member" by (simp add: manifest_member_def)
    show ?thesis
      using r short space sample_extract sample_valid ne
      by (simp add: unpack_content_def sample_open_def Let_def sample_sorted sample_world_def [THEN arg_cong, of free_space])
        (simp add: sample_info_def)
  qed
  from sample_verify obtain v where v: "verify_tree sample_ucd sample_after ?stage (sort_json sample_manifest) sample_budget 0
     (Some (obj [(''device'', JInt 1), (''inode'', JInt 6)])) = Inr v" by blast
  have st: "no_link sample_fs ?b = Inr (FileN (sample_stat 8 22) sample_zip)" "st_size (sample_stat 8 22) = 22" "is_count (JInt 22)"
    "22 \<le> max_package_bytes sample_budget" "length (sha256_hex sample_zip) = 64"
    using sample_lookup(2) sha256_hex_is_hex64 [of sample_zip]
    by (simp_all add: no_link_def sample_stat_def is_count_def sample_budget_def is_hex64_def)
  have eq: "py_eq (obj [(''device'', JInt 1), (''inode'', JInt 5)]) (obj [(''device'', JInt 1), (''inode'', JInt 5)])"
    by (simp add: obj_def)
  have body: "\<exists>r. unpack_body sample_ucd wide pf sample_open sample_world sample_fs ?b [u ''p''] (JInt 22) (JStr (sha256_hex sample_zip))
      ?dest ?stage sample_staging sample_budget 0 = Inr (r, sample_after)"
    using chain dest st same [OF sample_lookup(2)] same [OF sample_after_lookup(7)] sample_precheck content v sample_after_lookup(6) eq
    by (simp add: unpack_body_def sample_staging_def del: py_eq.simps)
  then show ?thesis by (auto simp: unpack_bundle_def sample_check_staging)
qed

section \<open>Properties\<close>

text \<open>
  C18: the two ends agree on manifests. A manifest that \<open>capture_sources\<close> returned on the sending
  side, sent as its canonical bytes, passes \<open>_validated_manifest\<close> on the receiving side under the
  same budget and is read back as the same value with sorted keys. The file system has distinct
  names without slashes and non-negative stat numbers, and case folding works by character.
\<close>

theorem capture_accepted:
  assumes "capture_sources ucd fs roots sources b now refs = Inr m" and "canonical_json m = Inr raw" and "wf_json m"
    and "folds_by_char ucd" and "tidy fs" and "stats_ok fs"
  shows "validated_manifest ucd wide pf raw b = Inr (sort_json m)"
proof -
  from assms(1) have scan: "scan_sources ucd fs roots sources b now (if truthy refs then refs else JList []) = Inr m"
    by (simp add: capture_sources_def)
  then have "int (length raw) \<le> max_metadata_bytes b"
    using assms(2) by (auto simp: scan_sources_def Let_def rbind_Inr_iff require_Inr_iff)
  with captured_manifest_valid [OF scan assms(2-6)] show ?thesis by simp
qed

theorem capture_accepted_witness:
  "\<exists>raw. canonical_json sample_manifest = Inr raw \<and>
     validated_manifest sample_ucd (\<lambda>_. Inl value_error) (\<lambda>_. FloatNan) raw sample_budget = Inr (sort_json sample_manifest)"
  using capture_accepted [OF sample_capture sample_raw_canonical(1)] sample_serial(2) sample_tidy sample_raw_canonical(1)
  by (auto simp: serial_def)

text \<open>
  C19: a tree that \<open>verify_tree\<close> accepts is exactly the manifest's tree: the names below the root are
  the paths of the entries, no more and no fewer; a directory entry is a directory, and a file
  entry is a regular file with the recorded size and SHA-256.
\<close>

theorem verify_tree_exact:
  assumes "verify_tree ucd fs root manifest b now ident = Inr r" and "tidy fs"
  shows "\<exists>st kids. lookup fs root = Some (DirN st kids) \<and>
    (\<lambda>(q, m). join_on 47 q) ` set (below [] (DirN st kids)) = entry_path ` set (elems (fld ''entries'' manifest)) \<and>
    (\<forall>(q, m) \<in> set (below [] (DirN st kids)). \<exists>e \<in> set (elems (fld ''entries'' manifest)).
       entry_path e = join_on 47 q \<and> matches e m)"
  using assms by (rule verify_tree_sound)

theorem verify_tree_exact_witness:
  "\<exists>st kids. lookup sample_after [u ''o'', stage_name] = Some (DirN st kids) \<and>
    (\<lambda>(q, m). join_on 47 q) ` set (below [] (DirN st kids)) = {u ''a''}"
proof -
  have "tidy sample_after" by (simp add: sample_after_def stage_name_def u_def)
  with sample_verify verify_tree_exact obtain st kids where
    "lookup sample_after [u ''o'', stage_name] = Some (DirN st kids)"
    "(\<lambda>(q, m). join_on 47 q) ` set (below [] (DirN st kids)) = entry_path ` set (elems (fld ''entries'' (sort_json sample_manifest)))"
    by blast
  then show ?thesis by (auto simp only: sample_sorted list.set image_insert image_empty)
qed





text \<open>
  C22: a successful \<open>unpack_bundle\<close> binds package, manifest and tree: the package file has the expected
  size and SHA-256, the returned manifest is valid under the budget, and the stage holds exactly
  the manifest's tree.
\<close>

theorem unpack_exact:
  assumes "unpack_bundle ucd wide pf open_zip w fs bundle bundle_root size_v sha_v dest allowed staging b now = Inr (r, fs')"
    and "tidy fs"
  shows "\<exists>stage st bs kids raw. lookup fs bundle = Some (FileN st bs) \<and> int (length bs) = int_of size_v \<and> sha_v = JStr (sha256_hex bs) \<and>
    check_staging ucd fs dest allowed staging = Inr stage \<and> validated_manifest ucd wide pf raw b = Inr (fld ''manifest'' r) \<and>
    (\<exists>st'. lookup fs' stage = Some (DirN st' kids) \<and>
      (\<lambda>(q, m). join_on 47 q) ` set (below [] (DirN st' kids)) = entry_path ` set (elems (fld ''entries'' (fld ''manifest'' r))) \<and>
      (\<forall>(q, m) \<in> set (below [] (DirN st' kids)). \<exists>e \<in> set (elems (fld ''entries'' (fld ''manifest'' r))).
         entry_path e = join_on 47 q \<and> matches e m))"
proof -
  from unpack_bundle_parts [OF assms(1)] obtain stage st bs infos read_member v raw where u:
    "check_staging ucd fs dest allowed staging = Inr stage" "lookup fs bundle = Some (FileN st bs)"
    "int (length bs) = int_of size_v" "sha_v = JStr (sha256_hex bs)" "validated_manifest ucd wide pf raw b = Inr (fld ''manifest'' r)"
    "fold_res (extract_entry ucd w stage b now read_member) (elems (fld ''entries'' (fld ''manifest'' r))) fs = Inr fs'"
    "verify_tree ucd fs' stage (fld ''manifest'' r) b now (Some (fld ''staging_identity'' staging)) = Inr v" by blast
  have "safe_name ucd (entry_path e)" if "e \<in> set (elems (fld ''entries'' (fld ''manifest'' r)))" for e
    using u(5) that by (auto simp: validated_manifest_iff Let_def good_entry_def list_all_iff)
  then have "tidy fs'" using extract_entries_tidy [OF u(6) assms(2)] by blast
  from verify_tree_sound [OF u(7) this] u show ?thesis by blast
qed

theorem unpack_exact_witness:
  "\<exists>stage kids st'. check_staging sample_ucd sample_fs [u ''o'', u ''x''] [u ''o''] sample_staging = Inr stage \<and>
     lookup sample_after stage = Some (DirN st' kids)"
proof -
  from sample_unpack obtain r where
    "unpack_bundle sample_ucd (\<lambda>_. Inl value_error) (\<lambda>_. FloatNan) sample_open sample_world sample_fs [u ''p'', u ''b''] [u ''p''] (JInt 22)
      (JStr (sha256_hex sample_zip)) [u ''o'', u ''x''] [u ''o''] sample_staging sample_budget 0 = Inr (r, sample_after)" by blast
  from unpack_exact [OF this sample_tidy(1)] show ?thesis by blast
qed

end
