(* ===== verification/Result.thy ===== *)
theory Result
  imports Captured
begin

text \<open>
  The host result contract: \<open>src/velo_transfer/result.py\<close>. A result is one JSON document; validation
  returns it unchanged. \<open>uuid.UUID\<close> is used only to compare a text with its own canonical spelling,
  which is the test \<open>is_uuid\<close>.
\<close>

section \<open>Field checks\<close>

definition result_fields :: "string list" where
  "result_fields = [''schema'', ''outcome'', ''transfer_id'', ''request_digest'', ''direction'', ''channel'',
     ''fallback_reason'', ''source_vm_identity'', ''destination_identity'', ''package_sha256'',
     ''package_size'', ''manifest_sha256'', ''resumed_bytes'', ''files'', ''source_stability'',
     ''phase'', ''last_phase'', ''published_ever'', ''destination_verified'', ''cleanup'',
     ''publication_receipt_sha256'', ''warnings'', ''evidence_index'']"

definition result_schema :: json where
  "result_schema = JStr (u ''velo.transfer.result.v1'')"

definition result_phases :: "string list" where
  "result_phases = [''CREATED'', ''PREPARING'', ''READY'', ''TRANSFERRING'', ''VERIFYING'',
     ''PUBLISHED'', ''CLEANING'', ''COMPLETE'', ''FAILED'', ''CONFLICT'', ''CANCELLED'']"

definition result_outcomes :: "(string \<times> int) list" where
  "result_outcomes = [(''complete'', 0), (''rejected'', 2), (''incomplete'', 3), (''conflict'', 4), (''cleanup_pending'', 5)]"

definition stabilities :: "string list" where
  "stabilities = [''stable_at_required_check'', ''changed_after_authorized_release'', ''changed_before_required_check'', ''unknown'']"

definition required_evidence :: "string list" where
  "required_evidence = [''publication_receipt'', ''destination_verification'', ''host_cleanup'', ''guest_cleanup'']"

text \<open>\<open>type(v) is str and v in names\<close>.\<close>

definition str_in :: "json \<Rightarrow> string list \<Rightarrow> bool" where
  "str_in v ns \<longleftrightarrow> v \<in> set (map (\<lambda>n. JStr (u n)) ns)"

text \<open>\<open>[a-z][a-z0-9_]{0,63}\Z\<close> and \<open>[a-z][a-z0-9_-]{0,63}\Z\<close>.\<close>

definition is_slug :: "nat list \<Rightarrow> json \<Rightarrow> bool" where
  "is_slug marks v = (case v of
     JStr s \<Rightarrow> s \<noteq> [] \<and> is_lower (hd s) \<and> list_all (\<lambda>c. is_lower c \<or> is_digit c \<or> c \<in> set marks) (tl s) \<and> length s \<le> 64
   | _ \<Rightarrow> False)"

definition is_code :: "json \<Rightarrow> bool" where
  "is_code = is_slug [95]"

definition is_evidence_name :: "json \<Rightarrow> bool" where
  "is_evidence_name = is_slug [95, 45]"

definition result_object :: "json \<Rightarrow> string list \<Rightarrow> string \<Rightarrow> unit result" where
  "result_object v ks code = require (has_keys v ks) (Error code)"

definition result_digest :: "bool \<Rightarrow> json \<Rightarrow> unit result" where
  "result_digest optional v = require ((v = JNull \<and> optional) \<or> is_digest v) (Error ''invalid_result_digest'')"

definition result_number :: "json \<Rightarrow> unit result" where
  "result_number v = require (is_count v) (Error ''invalid_result_number'')"

definition is_path_text :: "json \<Rightarrow> bool" where
  "is_path_text v = (case v of
     JStr s \<Rightarrow> s \<noteq> [] \<and> length s \<le> 32767 \<and>
       \<not> list_ex (\<lambda>c. c < 32 \<or> (127 \<le> c \<and> c \<le> 159) \<or> (55296 \<le> c \<and> c \<le> 57343)) s
   | _ \<Rightarrow> False)"

definition path_text :: "json \<Rightarrow> unit result" where
  "path_text v = require (is_path_text v) (Error ''invalid_result_path'')"

text \<open>
  The canonical spelling of a UUID: 36 characters, lower-case hexadecimal with hyphens at 8, 13, 18
  and 23. \<open>str(uuid.UUID(s)) == s\<close> holds exactly for these texts: the right side always has that
  shape, and a text of that shape is parsed digit by digit.
\<close>

definition uuid_shape :: "(nat \<Rightarrow> bool) \<Rightarrow> pystr \<Rightarrow> bool" where
  "uuid_shape digit s \<longleftrightarrow> length s = 36 \<and>
     list_all (\<lambda>(i, c). if i \<in> set [8, 13, 18, 23] then c = 45 else digit c) (zip [0..<36] s)"

fun is_uuid :: "json \<Rightarrow> bool" where
  "is_uuid (JStr s) = uuid_shape is_hex_digit s"
| "is_uuid v = False"

definition result_identity :: "json \<Rightarrow> unit result" where
  "result_identity v =
     rbind (result_object v [''vm_uuid'', ''boot_identity'', ''vm_epoch''] ''invalid_result_vm_identity'') (\<lambda>_.
     rbind (require (is_uuid (fld ''vm_uuid'' v)) (Error ''invalid_result_vm_identity'')) (\<lambda>_.
     for_each (\<lambda>k. require (is_text 256 (fld k v)) (Error ''invalid_result_vm_identity'')) [''boot_identity'', ''vm_epoch'']))"

definition result_reference :: "int \<Rightarrow> json \<Rightarrow> unit result" where
  "result_reference mm v =
     rbind (result_object v [''name'', ''size'', ''sha256'', ''device'', ''inode'', ''mtime_ns''] ''invalid_result_evidence'') (\<lambda>_.
     rbind (require (is_evidence_name (fld ''name'' v)) (Error ''invalid_result_evidence'')) (\<lambda>_.
     rbind (result_digest False (fld ''sha256'' v)) (\<lambda>_.
     rbind (for_each (\<lambda>k. result_number (fld k v)) [''size'', ''device'', ''inode'', ''mtime_ns'']) (\<lambda>_.
     require (int_of (fld ''size'' v) \<le> mm) (Error ''invalid_result_evidence'')))))"

text \<open>\<open>_result_path\<close>: an absolute POSIX path without empty, dot or double-dot parts.\<close>

definition result_path_ok :: "json \<Rightarrow> unit result" where
  "result_path_ok v =
     rbind (path_text v) (\<lambda>_.
     let s = str_of v in
     require (starts_with (u ''/'') s \<and> s \<noteq> u ''/'' \<and> \<not> starts_with (u ''//'') s \<and> 92 \<notin> set s \<and> \<not> ends_with (u ''/'') s \<and>
       \<not> list_ex (\<lambda>part. part \<in> set [[], u ''.'', u ''..'']) (split_on 47 (tl s))) (Error ''invalid_result_path''))"

definition result_budget :: "json \<Rightarrow> json \<Rightarrow> unit result" where
  "result_budget mf mm =
     require (is_int mf \<and> 0 < int_of mf \<and> is_int mm \<and> 0 < int_of mm) (Error ''invalid_result_budget'')"

section \<open>Validation\<close>

text \<open>The encoding stage: accounting first, then the canonical bytes. \<open>UnicodeError\<close> is a \<open>ValueError\<close>.\<close>

definition result_encoding :: "int \<Rightarrow> json \<Rightarrow> byte list result" where
  "result_encoding mm document =
     (case rbind (validate_json (nat mm) document) (\<lambda>_. canonical_json document) of
        Inr bs \<Rightarrow> Inr bs
      | Inl (Error c) \<Rightarrow> Inl (Error (if c = ''state_budget_exceeded'' then ''result_budget_exceeded'' else ''invalid_result_json''))
      | Inl (WireError c) \<Rightarrow> Inl (WireError c)
      | Inl (PyError n) \<Rightarrow> Inl (if n \<in> set [''TypeError'', ''ValueError'', ''OverflowError'', ''RecursionError'']
          then Error ''invalid_result_json'' else PyError n))"

definition check_transfer_id :: "unicode_db \<Rightarrow> json \<Rightarrow> unit result" where
  "check_transfer_id ucd v =
     (if v = JNull then Inr ()
      else rbind (require (is_identifier v \<and> \<not> starts_with (u ''guest-internal-'') (str_of v)) (Error ''invalid_result_transfer_id'')) (\<lambda>_.
        rbind (check_relative ucd v) (\<lambda>_. Inr ())))"

definition check_channel :: "json \<Rightarrow> unit result" where
  "check_channel v =
     rbind (require (fld ''channel'' v = JNull \<or> str_in (fld ''channel'' v) [''velo'', ''windows'']) (Error ''invalid_result_channel'')) (\<lambda>_.
     require (if fld ''channel'' v = JStr (u ''windows'') then is_code (fld ''fallback_reason'' v)
       else fld ''fallback_reason'' v = JNull) (Error ''invalid_result_channel''))"

definition check_endpoints :: "json \<Rightarrow> unit result" where
  "check_endpoints v =
     (let dir = fld ''direction'' v; source_vm = fld ''source_vm_identity'' v; dest = fld ''destination_identity'' v in
      rbind (if source_vm = JNull then Inr ()
        else rbind (require (dir = JStr (u ''pull'')) (Error ''invalid_result_vm_identity'')) (\<lambda>_. result_identity source_vm)) (\<lambda>_.
      if dest = JNull then Inr ()
      else rbind (require (dir \<noteq> JNull) (Error ''invalid_result_destination'')) (\<lambda>_.
        rbind (catch_error (validate_destination dest dir) ''invalid_result_destination'') (\<lambda>_. Inr ()))))"

definition check_package :: "json \<Rightarrow> unit result" where
  "check_package v =
     (let pkg = map (\<lambda>k. fld k v) [''package_sha256'', ''package_size'', ''manifest_sha256''];
          known_package = (JNull \<notin> set pkg) in
      rbind (if known_package
        then rbind (result_digest False (fld ''package_sha256'' v)) (\<lambda>_.
          rbind (result_digest False (fld ''manifest_sha256'' v)) (\<lambda>_. result_number (fld ''package_size'' v)))
        else require (list_all (\<lambda>i. i = JNull) pkg) (Error ''invalid_result_package'')) (\<lambda>_.
      rbind (result_number (fld ''resumed_bytes'' v)) (\<lambda>_.
      require (if known_package then int_of (fld ''resumed_bytes'' v) \<le> int_of (fld ''package_size'' v)
        else int_of (fld ''resumed_bytes'' v) = 0) (Error ''invalid_result_resumed_bytes''))))"

definition check_file :: "unicode_db \<Rightarrow> json \<Rightarrow> pystr list \<Rightarrow> pystr list result" where
  "check_file ucd f ns =
     rbind (result_object f [''source'', ''relative_path'', ''destination'', ''size'', ''sha256''] ''invalid_result_file'') (\<lambda>_.
     rbind (path_text (fld ''source'' f)) (\<lambda>_.
     rbind (path_text (fld ''destination'' f)) (\<lambda>_.
     rbind (catch_error (check_relative ucd (fld ''relative_path'' f)) ''invalid_result_file'') (\<lambda>name.
     rbind (result_number (fld ''size'' f)) (\<lambda>_.
     rbind (result_digest False (fld ''sha256'' f)) (\<lambda>_. Inr (ns @ [name])))))))"

definition check_files :: "unicode_db \<Rightarrow> int \<Rightarrow> json \<Rightarrow> unit result" where
  "check_files ucd mf v =
     (let files = fld ''files'' v in
      rbind (require (is_list files \<and> int (length (elems files)) \<le> mf) (Error ''result_file_count_exceeded'')) (\<lambda>_.
      rbind (fold_res (check_file ucd) (elems files) []) (\<lambda>ns.
      catch_error (check_collisions ucd ns []) ''result_path_collision'')))"

fun is_bool :: "json \<Rightarrow> bool" where
  "is_bool (JBool b) = True"
| "is_bool v = False"

definition check_states :: "json \<Rightarrow> unit result" where
  "check_states v =
     rbind (require (str_in (fld ''source_stability'' v) stabilities) (Error ''invalid_result_stability'')) (\<lambda>_.
     rbind (require (str_in (fld ''phase'' v) result_phases \<and> (fld ''last_phase'' v = JNull \<or> str_in (fld ''last_phase'' v) result_phases))
       (Error ''invalid_result_phase'')) (\<lambda>_.
     rbind (for_each (\<lambda>k. require (fld k v = JNull \<or> is_bool (fld k v)) (Error ''invalid_result_fact'')) [''published_ever'', ''destination_verified'']) (\<lambda>_.
     rbind (result_object (fld ''cleanup'' v) [''host'', ''guest''] ''invalid_result_cleanup'') (\<lambda>_.
     rbind (require (list_all (\<lambda>(k, i). i = JNull \<or> is_bool i) (items (fld ''cleanup'' v))) (Error ''invalid_result_cleanup'')) (\<lambda>_.
     result_digest True (fld ''publication_receipt_sha256'' v))))))"

definition check_warnings :: "json \<Rightarrow> unit result" where
  "check_warnings v =
     (let warnings = fld ''warnings'' v in
      require (is_list warnings \<and> list_all is_code (elems warnings) \<and> distinct (elems warnings)) (Error ''invalid_result_warnings''))"

definition evidence_role :: "int \<Rightarrow> json \<Rightarrow> (json \<times> json) list \<Rightarrow> (json \<times> json) list result" where
  "evidence_role mm item_v roles =
     rbind (result_object item_v [''role'', ''reference''] ''invalid_result_evidence'') (\<lambda>_.
     let role = fld ''role'' item_v in
     rbind (require (is_code role \<and> role \<notin> set (map fst roles)) (Error ''invalid_result_evidence'')) (\<lambda>_.
     rbind (result_reference mm (fld ''reference'' item_v)) (\<lambda>_.
     Inr (roles @ [(role, fld ''reference'' item_v)]))))"

definition check_evidence :: "int \<Rightarrow> json \<Rightarrow> (json \<times> json) list result" where
  "check_evidence mm v =
     (let evidence = fld ''evidence_index'' v in
      rbind (require (is_list evidence) (Error ''invalid_result_evidence'')) (\<lambda>_.
      fold_res (evidence_role mm) (elems evidence) []))"

definition binding_keys :: "string list" where
  "binding_keys = [''transfer_id'', ''request_digest'', ''direction'', ''channel'', ''destination_identity'',
     ''package_sha256'', ''package_size'', ''manifest_sha256'']"

definition published_phases :: "string list" where
  "published_phases = [''PUBLISHED'', ''CLEANING'', ''COMPLETE'']"

definition check_publication :: "(json \<times> json) list \<Rightarrow> json \<Rightarrow> unit result" where
  "check_publication roles v =
     (let receipt = map_of roles (JStr (u ''publication_receipt''));
          publication_known = (str_in (fld ''phase'' v) published_phases \<or> str_in (fld ''last_phase'' v) published_phases \<or>
            fld ''publication_receipt_sha256'' v \<noteq> JNull \<or> receipt \<noteq> None) in
      rbind (require (case receipt of None \<Rightarrow> True | Some r \<Rightarrow> py_eq (fld ''sha256'' r) (fld ''publication_receipt_sha256'' v))
        (Error ''result_receipt_mismatch'')) (\<lambda>_.
      rbind (require (publication_known \<longrightarrow> fld ''published_ever'' v = JBool True) (Error ''result_publication_contradiction'')) (\<lambda>_.
      require (fld ''published_ever'' v = JBool True \<longrightarrow> list_all (\<lambda>k. fld k v \<noteq> JNull) binding_keys)
        (Error ''result_publication_binding_missing''))))"

definition completion_proven :: "(json \<times> json) list \<Rightarrow> json \<Rightarrow> bool" where
  "completion_proven roles v \<longleftrightarrow> fld ''phase'' v = JStr (u ''COMPLETE'') \<and> fld ''published_ever'' v = JBool True \<and>
     fld ''destination_verified'' v = JBool True \<and> fld ''host'' (fld ''cleanup'' v) = JBool True \<and>
     fld ''guest'' (fld ''cleanup'' v) = JBool True \<and>
     str_in (fld ''source_stability'' v) [''stable_at_required_check'', ''changed_after_authorized_release''] \<and>
     list_all (\<lambda>k. fld k v \<noteq> JNull) (binding_keys @ [''publication_receipt_sha256'']) \<and>
     (fld ''direction'' v = JStr (u ''pull'') \<longrightarrow> fld ''source_vm_identity'' v \<noteq> JNull) \<and>
     list_all (\<lambda>r. JStr (u r) \<in> set (map fst roles)) required_evidence"

definition check_outcome :: "(json \<times> json) list \<Rightarrow> json \<Rightarrow> unit result" where
  "check_outcome roles v =
     (let outcome = fld ''outcome'' v; ph = fld ''phase'' v; receipt = map_of roles (JStr (u ''publication_receipt''));
          cleanup = fld ''cleanup'' v; conflict = Error ''result_outcome_conflict'' in
      rbind (require (ph = JStr (u ''COMPLETE'') \<longrightarrow> outcome = JStr (u ''complete'')) conflict) (\<lambda>_.
      if outcome = JStr (u ''complete'') then require (completion_proven roles v) (Error ''result_completion_unproven'')
      else if outcome = JStr (u ''rejected'') then
        require (ph = JStr (u ''FAILED'') \<and> fld ''published_ever'' v = JBool False \<and>
          fld ''publication_receipt_sha256'' v = JNull \<and> receipt = None) conflict
      else if outcome = JStr (u ''incomplete'') then Inr ()
      else if outcome = JStr (u ''conflict'') then require (str_in ph [''CONFLICT'', ''FAILED'']) conflict
      else if outcome = JStr (u ''cleanup_pending'') then
        require (str_in ph [''PUBLISHED'', ''CLEANING''] \<and> fld ''published_ever'' v = JBool True \<and>
          fld ''publication_receipt_sha256'' v \<noteq> JNull \<and>
          \<not> (fld ''host'' cleanup = JBool True \<and> fld ''guest'' cleanup = JBool True) \<and>
          fld ''destination_verified'' v \<noteq> JBool False) conflict
      else Inr ()))"

definition validate_result :: "unicode_db \<Rightarrow> json \<Rightarrow> json \<Rightarrow> json \<Rightarrow> json result" where
  "validate_result ucd mf mm document =
     rbind (result_budget mf mm) (\<lambda>_.
     rbind (result_encoding (int_of mm) document) (\<lambda>encoded.
     rbind (require (int (length encoded) \<le> int_of mm) (Error ''result_budget_exceeded'')) (\<lambda>_.
     rbind (result_object document result_fields ''invalid_result_fields'') (\<lambda>_.
     rbind (require (fld ''schema'' document = result_schema \<and> str_in (fld ''outcome'' document) (map fst result_outcomes))
       (Error ''invalid_result_status'')) (\<lambda>_.
     rbind (check_transfer_id ucd (fld ''transfer_id'' document)) (\<lambda>_.
     rbind (result_digest True (fld ''request_digest'' document)) (\<lambda>_.
     rbind (require ((fld ''direction'' document = JNull \<or> str_in (fld ''direction'' document) [''push'', ''pull'']) \<and>
       (fld ''direction'' document = JNull \<longrightarrow> fld ''outcome'' document = JStr (u ''rejected''))) (Error ''invalid_result_direction'')) (\<lambda>_.
     rbind (check_channel document) (\<lambda>_.
     rbind (check_endpoints document) (\<lambda>_.
     rbind (check_package document) (\<lambda>_.
     rbind (check_files ucd (int_of mf) document) (\<lambda>_.
     rbind (check_states document) (\<lambda>_.
     rbind (check_warnings document) (\<lambda>_.
     rbind (check_evidence (int_of mm) document) (\<lambda>roles.
     rbind (check_publication roles document) (\<lambda>_.
     rbind (check_outcome roles document) (\<lambda>_. Inr document)))))))))))))))))"

definition encode_result :: "unicode_db \<Rightarrow> json \<Rightarrow> json \<Rightarrow> json \<Rightarrow> byte list result" where
  "encode_result ucd mf mm document =
     rbind (validate_result ucd mf mm document) canonical_json"

definition decode_result :: "unicode_db \<Rightarrow> (pystr \<Rightarrow> pyfloat) \<Rightarrow> json \<Rightarrow> json \<Rightarrow> byte list \<Rightarrow> json result" where
  "decode_result ucd pf mf mm raw =
     rbind (result_budget mf mm) (\<lambda>_.
     rbind (require (int (length raw) \<le> int_of mm) (Error ''result_budget_exceeded'')) (\<lambda>_.
     rbind (case rbind (decode_utf8 raw) (loads pf (unique_pairs (Error ''duplicate_result_key'')) (no_constant (Error ''invalid_result_json''))) of
         Inr v \<Rightarrow> Inr v | Inl (Error c) \<Rightarrow> Inl (Error c) | Inl e \<Rightarrow> Inl (Error ''invalid_result_json'')) (\<lambda>v.
     validate_result ucd mf mm v)))"

definition result_exit_code :: "unicode_db \<Rightarrow> json \<Rightarrow> json \<Rightarrow> json \<Rightarrow> int result" where
  "result_exit_code ucd mf mm document =
     rbind (validate_result ucd mf mm document) (\<lambda>v.
     case map_of (map (\<lambda>(k, c). (JStr (u k), c)) result_outcomes) (fld ''outcome'' v) of
       None \<Rightarrow> Inl (PyError ''KeyError'') | Some c \<Rightarrow> Inr c)"

definition result_summary :: "unicode_db \<Rightarrow> json \<Rightarrow> json \<Rightarrow> json \<Rightarrow> json \<Rightarrow> json result" where
  "result_summary ucd mf mm document result_path =
     rbind (validate_result ucd mf mm document) (\<lambda>v.
     rbind (result_path_ok result_path) (\<lambda>_.
     rbind (result_exit_code ucd mf mm document) (\<lambda>code.
     Inr (obj [(''schema'', result_schema), (''transfer_id'', fld ''transfer_id'' v), (''phase'', fld ''phase'' v),
       (''outcome'', fld ''outcome'' v), (''exit_code'', JInt code), (''published_ever'', fld ''published_ever'' v),
       (''result_path'', result_path), (''file_count'', JInt (int (length (elems (fld ''files'' v)))))]))))"

section \<open>Key order does not matter\<close>

lemma sort_json_eq_iff [simp]: "sort_json v = JNull \<longleftrightarrow> v = JNull" "sort_json v = JBool b \<longleftrightarrow> v = JBool b"
  by (cases v; simp)+

lemma sort_json_eq_iff' [simp]: "JNull = sort_json v \<longleftrightarrow> JNull = v"
  by (cases v) simp_all

lemma sort_json_texts [simp]:
  "str_in (sort_json v) ns = str_in v ns" "is_slug marks (sort_json v) = is_slug marks v" "is_path_text (sort_json v) = is_path_text v"
  "is_uuid (sort_json v) = is_uuid v" "is_text n (sort_json v) = is_text n v" "is_identifier (sort_json v) = is_identifier v"
  "is_bool (sort_json v) = is_bool v" "check_relative ucd (sort_json v) = check_relative ucd v"
  by (cases v; auto simp: str_in_def is_slug_def is_path_text_def check_relative_def)+

lemma sort_json_codes [simp]: "is_code (sort_json v) = is_code v" "is_evidence_name (sort_json v) = is_evidence_name v"
  by (simp_all add: is_code_def is_evidence_name_def)

lemma code_leaf: "is_code v \<Longrightarrow> sort_json v = v"
  by (cases v) (simp_all add: is_code_def is_slug_def)

lemma sort_json_checks [simp]:
  "result_object (sort_json v) ks c = result_object v ks c" "result_digest opt (sort_json v) = result_digest opt v"
  "result_number (sort_json v) = result_number v" "path_text (sort_json v) = path_text v"
  by (simp_all add: result_object_def result_digest_def result_number_def path_text_def)

lemma validate_json_sort: "wf_json v \<Longrightarrow> is_ok (validate_json n (sort_json v)) = is_ok (validate_json n v)"
proof -
  assume wf: "wf_json v"
  have nodes: "node_count (sort_json w) = node_count w" for w
  proof (induction w rule: json_induct)
    case (Obj kvs)
    have "map (\<lambda>(k, v). node_count v) (map (\<lambda>(k, v). (k, sort_json v)) kvs) = map (\<lambda>(k, v). node_count v) kvs"
      using Obj by auto
    then show ?case by (simp only: sort_json.simps node_count.simps sum_list_sort_key)
  qed (auto simp: o_def cong: map_cong)
  have depth: "depth_ok m (sort_json w) d = depth_ok m w d" for w m d
    by (induction w arbitrary: d rule: json_induct) (auto simp: list_all_iff)
  have "canonical_json (sort_json v) = canonical_json v" by (rule canonical_json_cong) simp
  then show ?thesis using wf
    by (simp add: is_ok_iff validate_json_fits sort_json_invariants nodes depth)
qed

lemma result_encoding_sort:
  assumes "wf_json v" and "result_encoding n v = Inr bs"
  shows "result_encoding n (sort_json v) = Inr bs"
proof -
  from assms(2) have ok: "rbind (validate_json (nat n) v) (\<lambda>_. canonical_json v) = Inr bs"
    by (auto simp: result_encoding_def split: sum.splits exn.splits if_splits)
  then have "is_ok (validate_json (nat n) v)" and bs: "canonical_json v = Inr bs" by (auto simp: rbind_Inr_iff)
  then have "validate_json (nat n) (sort_json v) = Inr ()" using validate_json_sort [OF assms(1)] by (auto simp: is_ok_iff)
  moreover have "canonical_json (sort_json v) = Inr bs" using bs canonical_json_cong [of "sort_json v" v] by simp
  ultimately show ?thesis by (simp add: result_encoding_def)
qed

lemma identity_sort: "wf_json v \<Longrightarrow> result_identity (sort_json v) = result_identity v"
  by (simp add: result_identity_def fld_sort_json)

lemma reference_sort: "wf_json v \<Longrightarrow> result_reference n (sort_json v) = result_reference n v"
  by (simp add: result_reference_def fld_sort_json)

lemma destination_sort:
  assumes "wf_json d"
  shows "is_ok (validate_destination (sort_json d) dir) = is_ok (validate_destination d dir)"
proof -
  have len: "length (items (sort_json i)) = length (items i)" for i by (cases i) simp_all
  then have it: "items (sort_json i) = [] \<longleftrightarrow> items i = []" for i by (metis length_0_conv)
  have all: "(\<forall>x \<in> set (items (sort_json i)). case x of (k, v) \<Rightarrow> rbind (check_text 128 (JStr k)) (\<lambda>_. check_text 256 v) = Inr ()) \<longleftrightarrow>
      (\<forall>x \<in> set (items i). case x of (k, v) \<Rightarrow> rbind (check_text 128 (JStr k)) (\<lambda>_. check_text 256 v) = Inr ())" for i
    unfolding items_sort_json by (auto simp: check_text_def)
  have iff: "is_ok (validate_destination e dir) \<longleftrightarrow> has_keys e [''endpoint'', ''identity'', ''canonical_path''] \<and>
      fld ''endpoint'' e = JStr (u (if dir = JStr (u ''pull'') then ''host'' else ''guest'')) \<and> is_text 32767 (fld ''canonical_path'' e) \<and>
      is_obj (fld ''identity'' e) \<and> items (fld ''identity'' e) \<noteq> [] \<and> length (items (fld ''identity'' e)) \<le> 16 \<and>
      (\<forall>x \<in> set (items (fld ''identity'' e)). case x of (k, v) \<Rightarrow> rbind (check_text 128 (JStr k)) (\<lambda>_. check_text 256 v) = Inr ())" for e
    unfolding is_ok_iff validate_destination_def Let_def rbind_Inr_iff for_each_Inr_iff check_object_def check_text_def require_Inr_iff
    by (simp add: split_def require_Inr_iff)
  show ?thesis unfolding iff fld_sort_json [OF assms] all it len by simp
qed


lemma destination_direction [simp]: "validate_destination d (sort_json dir) = validate_destination d dir"
  by (simp add: validate_destination_def)

lemma destination_catch_sort:
  assumes "wf_json d" and "rbind (catch_error (validate_destination d dir) c) (\<lambda>_. Inr ()) = Inr x"
  shows "rbind (catch_error (validate_destination (sort_json d) dir) c) (\<lambda>_. Inr ()) = Inr ()"
  using assms destination_sort [OF assms(1), of dir] by (auto simp: result_iff is_ok_iff)

text \<open>Each group of checks gives the same answer on the document with sorted keys.\<close>

lemma small_checks_sort:
  assumes "wf_json v"
  shows "check_transfer_id ucd (sort_json w) = check_transfer_id ucd w" and "check_channel (sort_json v) = check_channel v"
    and "check_package (sort_json v) = check_package v" and "check_warnings (sort_json v) = check_warnings v"
proof -
  have eq: "map sort_json xs = ys" if "list_all is_code xs" "ys = xs" for xs ys
    using that by (auto simp: list_all_iff intro!: map_idI code_leaf)
  show "check_transfer_id ucd (sort_json w) = check_transfer_id ucd w" by (simp add: check_transfer_id_def)
  show "check_channel (sort_json v) = check_channel v" by (simp add: check_channel_def fld_sort_json [OF assms])
  show "check_package (sort_json v) = check_package v"
    by (simp add: check_package_def fld_sort_json [OF assms] Let_def)
  show "check_warnings (sort_json v) = check_warnings v"
    using eq [of "elems (fld ''warnings'' v)" "elems (fld ''warnings'' v)"]
    by (cases "\<forall>x \<in> set (elems (fld ''warnings'' v)). is_code x")
      (auto simp: check_warnings_def fld_sort_json [OF assms] Let_def elems_sort_json list_all_iff intro!: arg_cong2 [where f = require])
qed

lemma check_files_sort:
  assumes "wf_json v"
  shows "check_files ucd n (sort_json v) = check_files ucd n v"
proof -
  have one: "check_file ucd (sort_json f) ns = check_file ucd f ns" if "wf_json f" for f ns
    by (simp add: check_file_def fld_sort_json [OF that])
  have "list_all wf_json fs \<Longrightarrow> fold_res (check_file ucd) (map sort_json fs) ns = fold_res (check_file ucd) fs ns" for fs ns
    by (induction fs arbitrary: ns) (auto simp: one intro: rbind_cong)
  moreover have "list_all wf_json (elems (fld ''files'' v))" using wf_json_fld [OF assms, of "''files''"] by (cases "fld ''files'' v") auto
  ultimately show ?thesis by (simp add: check_files_def fld_sort_json [OF assms] Let_def elems_sort_json)
qed

lemma check_states_sort:
  assumes "wf_json v"
  shows "check_states (sort_json v) = check_states v"
proof -
  have "list_all (\<lambda>(k, i). i = JNull \<or> is_bool i) (items (sort_json c)) = list_all (\<lambda>(k, i). i = JNull \<or> is_bool i) (items c)" for c
    by (simp add: list_all_iff items_sort_json split_def)
  then show ?thesis by (simp add: check_states_def fld_sort_json [OF assms])
qed

lemma check_endpoints_sort:
  assumes "wf_json v" and "check_endpoints v = Inr x"
  shows "check_endpoints (sort_json v) = Inr ()"
proof -
  have "check_endpoints (sort_json v) = check_endpoints v" if "fld ''destination_identity'' v = JNull"
    using that by (simp add: check_endpoints_def Let_def fld_sort_json [OF assms(1)] identity_sort [OF wf_json_fld [OF assms(1)]])
  moreover have "check_endpoints (sort_json v) = Inr ()" if "fld ''destination_identity'' v \<noteq> JNull"
    using that assms(2) destination_catch_sort [OF wf_json_fld [OF assms(1), of "''destination_identity''"]]
    by (auto simp: check_endpoints_def Let_def fld_sort_json [OF assms(1)] identity_sort [OF wf_json_fld [OF assms(1)]] rbind_Inr_iff
        str_in_def split: if_splits)
  ultimately show ?thesis using assms(2) by (cases "fld ''destination_identity'' v = JNull") auto
qed

definition sort_roles :: "(json \<times> json) list \<Rightarrow> (json \<times> json) list" where
  "sort_roles roles = map (\<lambda>(r, ref). (r, sort_json ref)) roles"

lemma map_of_sort_roles: "map_of (sort_roles roles) r = map_option sort_json (map_of roles r)"
  by (simp add: sort_roles_def map_of_map)

lemma fst_sort_roles: "fst ` set (sort_roles roles) = fst ` set roles"
  by (force simp: sort_roles_def)

lemma sort_roles_snoc: "sort_roles (rs @ [(r, v)]) = sort_roles rs @ [(r, sort_json v)]"
  by (simp add: sort_roles_def)

lemma check_evidence_sort:
  assumes "wf_json v" and "check_evidence n v = Inr roles"
  shows "check_evidence n (sort_json v) = Inr (sort_roles roles)"
proof -
  have one: "evidence_role n (sort_json e) (sort_roles rs) = Inr (sort_roles rs')"
    if wf: "wf_json e" and ok: "evidence_role n e rs = Inr rs'" for e rs rs'
  proof -
    have "is_code (fld ''role'' e)" using ok by (auto simp: evidence_role_def Let_def result_iff)
    then have "sort_json (fld ''role'' e) = fld ''role'' e" by (rule code_leaf)
    with ok show ?thesis
      by (auto simp: evidence_role_def Let_def result_iff fld_sort_json [OF wf] reference_sort [OF wf_json_fld [OF wf]]
          fst_sort_roles sort_roles_snoc)
  qed
  have steps: "list_all wf_json es \<Longrightarrow> fold_res (evidence_role n) es rs = Inr rs' \<Longrightarrow>
      fold_res (evidence_role n) (map sort_json es) (sort_roles rs) = Inr (sort_roles rs')" for es rs rs'
  proof (induction es arbitrary: rs)
    case (Cons e es)
    then obtain rs1 where "evidence_role n e rs = Inr rs1" "fold_res (evidence_role n) es rs1 = Inr rs'" by (auto simp: rbind_Inr_iff)
    with Cons one show ?case by simp
  qed simp
  have wf: "list_all wf_json (elems (fld ''evidence_index'' v))"
    using wf_json_fld [OF assms(1), of "''evidence_index''"] by (cases "fld ''evidence_index'' v") auto
  from assms(2) have isl: "is_list (fld ''evidence_index'' v)" and f: "fold_res (evidence_role n) (elems (fld ''evidence_index'' v)) [] = Inr roles"
    by (simp_all add: check_evidence_def Let_def)
  have "sort_roles [] = []" by (simp add: sort_roles_def)
  with isl steps [OF wf f] show ?thesis by (simp add: check_evidence_def Let_def fld_sort_json [OF assms(1)] elems_sort_json)
qed

lemma check_outcome_sort:
  assumes "wf_json v"
  shows "check_outcome (sort_roles roles) (sort_json v) = check_outcome roles v"
proof -
  have "completion_proven (sort_roles roles) (sort_json v) = completion_proven roles v"
    by (simp add: completion_proven_def fld_sort_json [OF assms] fld_sort_json [OF wf_json_fld [OF assms]] fst_sort_roles)
  then show ?thesis
    by (simp add: check_outcome_def Let_def fld_sort_json [OF assms] fld_sort_json [OF wf_json_fld [OF assms]] map_of_sort_roles)
qed

lemma check_publication_sort:
  assumes "wf_json v" and "check_publication roles v = Inr x" and "\<And>r ref. (r, ref) \<in> set roles \<Longrightarrow> wf_json ref \<and> is_digest (fld ''sha256'' ref)"
  shows "check_publication (sort_roles roles) (sort_json v) = Inr ()"
proof -
  have leaf: "is_digest w \<Longrightarrow> sort_json w = w" for w by (cases w) auto
  have eq: "py_eq (fld ''sha256'' (sort_json ref)) (sort_json w) \<longleftrightarrow> py_eq (fld ''sha256'' ref) w"
    if "map_of roles r = Some ref" for r ref w
  proof -
    have ref: "wf_json ref" "is_digest (fld ''sha256'' ref)" using assms(3) map_of_SomeD [OF that] by auto
    then obtain h where "fld ''sha256'' ref = JStr h" by (cases "fld ''sha256'' ref") auto
    then show ?thesis using ref by (cases w) (simp_all add: fld_sort_json)
  qed
  show ?thesis
    using assms(2)
    by (auto simp: check_publication_def Let_def result_iff fld_sort_json [OF assms(1)] map_of_sort_roles eq simp del: py_eq.simps split: option.splits)
qed

lemma evidence_roles_ok:
  assumes "check_evidence n v = Inr roles" and "wf_json v" and "(r, ref) \<in> set roles"
  shows "wf_json ref \<and> is_digest (fld ''sha256'' ref)"
proof -
  have steps: "fold_res (evidence_role n) es rs = Inr rs' \<Longrightarrow> list_all wf_json es \<Longrightarrow> (\<forall>(r, ref) \<in> set rs. wf_json ref \<and> is_digest (fld ''sha256'' ref)) \<Longrightarrow>
      (\<forall>(r, ref) \<in> set rs'. wf_json ref \<and> is_digest (fld ''sha256'' ref))" for es rs rs'
  proof (induction es arbitrary: rs)
    case (Cons e es)
    then obtain rs1 where one: "evidence_role n e rs = Inr rs1" and rest: "fold_res (evidence_role n) es rs1 = Inr rs'" by (auto simp: rbind_Inr_iff)
    have "\<forall>(r, ref) \<in> set rs1. wf_json ref \<and> is_digest (fld ''sha256'' ref)"
      using one Cons.prems(2,3) wf_json_fld [of e "''reference''"]
      by (auto simp: evidence_role_def Let_def result_iff result_reference_def result_digest_def)
    with Cons.IH [OF rest] Cons.prems(2) show ?case by simp
  qed simp
  have wf: "list_all wf_json (elems (fld ''evidence_index'' v))"
    using wf_json_fld [OF assms(2), of "''evidence_index''"] by (cases "fld ''evidence_index'' v") auto
  from assms(1) have "fold_res (evidence_role n) (elems (fld ''evidence_index'' v)) [] = Inr roles"
    by (simp add: check_evidence_def Let_def)
  from steps [OF this wf] assms(3) show ?thesis by auto
qed

lemma validate_result_sort:
  assumes "validate_result ucd mf mm d = Inr r" and "wf_json d"
  shows "validate_result ucd mf mm (sort_json d) = Inr (sort_json d)"
proof -
  from assms(1) obtain enc roles where parts: "result_budget mf mm = Inr ()" "result_encoding (int_of mm) d = Inr enc"
    "int (length enc) \<le> int_of mm" "result_object d result_fields ''invalid_result_fields'' = Inr ()"
    "fld ''schema'' d = result_schema" "str_in (fld ''outcome'' d) (map fst result_outcomes)"
    "check_transfer_id ucd (fld ''transfer_id'' d) = Inr ()" "result_digest True (fld ''request_digest'' d) = Inr ()"
    "fld ''direction'' d = JNull \<or> str_in (fld ''direction'' d) [''push'', ''pull'']"
    "fld ''direction'' d = JNull \<longrightarrow> fld ''outcome'' d = JStr (u ''rejected'')"
    "check_channel d = Inr ()" "check_endpoints d = Inr ()" "check_package d = Inr ()" "check_files ucd (int_of mf) d = Inr ()"
    "check_states d = Inr ()" "check_warnings d = Inr ()" "check_evidence (int_of mm) d = Inr roles"
    "check_publication roles d = Inr ()" "check_outcome roles d = Inr ()"
    by (auto simp: validate_result_def rbind_Inr_iff require_Inr_iff)
  have pub: "check_publication (sort_roles roles) (sort_json d) = Inr ()"
    using check_publication_sort [OF assms(2) parts(18)] evidence_roles_ok [OF parts(17) assms(2)] by blast
  have "fld ''schema'' (sort_json d) = result_schema" using parts(5) by (simp add: fld_sort_json [OF assms(2)] result_schema_def)
  then show ?thesis
    using parts small_checks_sort [OF assms(2)] check_files_sort [OF assms(2)] check_states_sort [OF assms(2)]
      check_endpoints_sort [OF assms(2)] check_evidence_sort [OF assms(2)] check_outcome_sort [OF assms(2)] pub
      result_encoding_sort [OF assms(2)]
    by (simp add: validate_result_def fld_sort_json [OF assms(2)])
qed

lemma result_encoding_iff: "result_encoding n v = Inr bs \<longleftrightarrow> validate_json (nat n) v = Inr () \<and> canonical_json v = Inr bs"
  by (auto simp: result_encoding_def rbind_Inr_iff rbind_Inl_iff split: sum.splits exn.splits if_splits)

section \<open>Properties\<close>

text \<open>
  C24: a result document that \<open>encode_result\<close> accepts is read back by \<open>decode_result\<close> under the same
  budgets, as the same document with sorted keys; so what one process persists, another can load
  and its validation agrees.
\<close>

theorem result_roundtrip:
  assumes "encode_result ucd mf mm d = Inr raw" and "wf_json d" and "floats_ok pf d"
  shows "decode_result ucd pf mf mm raw = Inr (sort_json d)"
proof -
  from assms(1) obtain r where r: "validate_result ucd mf mm d = Inr r" "canonical_json r = Inr raw"
    by (auto simp: encode_result_def rbind_Inr_iff)
  then have "r = d" by (auto simp: validate_result_def rbind_Inr_iff)
  with r have raw: "canonical_json d = Inr raw" "result_budget mf mm = Inr ()" "int (length raw) \<le> int_of mm"
    by (auto simp: validate_result_def rbind_Inr_iff require_Inr_iff result_encoding_iff)
  from validate_result_sort [OF r(1) assms(2)] canonical_json_reads_back [OF raw(1) assms(2,3)] raw(2,3) show ?thesis
    by (simp add: decode_result_def)
qed

section \<open>Exit codes\<close>

lemma check_evidence_roles:
  assumes "check_evidence n v = Inr roles"
  shows "roles = map (\<lambda>e. (fld ''role'' e, fld ''reference'' e)) (elems (fld ''evidence_index'' v)) \<and> distinct (map fst roles)"
proof -
  have steps: "fold_res (evidence_role n) es rs = Inr rs' \<Longrightarrow> distinct (map fst rs) \<Longrightarrow>
      rs' = rs @ map (\<lambda>e. (fld ''role'' e, fld ''reference'' e)) es \<and> distinct (map fst rs')" for es rs rs'
  proof (induction es arbitrary: rs)
    case (Cons e es)
    then obtain rs1 where one: "evidence_role n e rs = Inr rs1" and rest: "fold_res (evidence_role n) es rs1 = Inr rs'" by (auto simp: rbind_Inr_iff)
    from one Cons.prems(2) have rs1: "rs1 = rs @ [(fld ''role'' e, fld ''reference'' e)]" and d: "distinct (map fst rs1)"
      by (auto simp: evidence_role_def Let_def result_iff)
    from Cons.IH [OF rest d] have "rs' = rs1 @ map (\<lambda>e. (fld ''role'' e, fld ''reference'' e)) es" and d': "distinct (map fst rs')" by blast+
    then have "rs' = rs @ map (\<lambda>e. (fld ''role'' e, fld ''reference'' e)) (e # es)" by (simp add: rs1)
    with d' show ?case by blast
  qed simp
  have "fold_res (evidence_role n) (elems (fld ''evidence_index'' v)) [] = Inr roles"
    using assms by (simp add: check_evidence_def Let_def)
  from steps [OF this, unfolded append_Nil list.map(1), OF distinct.simps(1) [THEN iffD2, OF TrueI]] show ?thesis .
qed

text \<open>
  C23: exit code 0 is never reported without proof. If \<open>result_exit_code\<close> gives 0 the result is
  in phase \<open>COMPLETE\<close>, published and verified at the destination, cleaned up on both sides, bound to
  a request, package, manifest and destination, and it carries the four required pieces of
  evidence, the publication receipt's digest being the one the result states.
\<close>

theorem exit_zero_proven:
  assumes "result_exit_code ucd mf mm d = Inr 0"
  shows "fld ''phase'' d = JStr (u ''COMPLETE'') \<and> fld ''published_ever'' d = JBool True \<and> fld ''destination_verified'' d = JBool True \<and>
    fld ''host'' (fld ''cleanup'' d) = JBool True \<and> fld ''guest'' (fld ''cleanup'' d) = JBool True \<and>
    (\<forall>k \<in> set binding_keys. fld k d \<noteq> JNull) \<and>
    (\<forall>r \<in> set required_evidence. \<exists>e \<in> set (elems (fld ''evidence_index'' d)). fld ''role'' e = JStr (u r)) \<and>
    (\<forall>e \<in> set (elems (fld ''evidence_index'' d)). fld ''role'' e = JStr (u ''publication_receipt'') \<longrightarrow>
       py_eq (fld ''sha256'' (fld ''reference'' e)) (fld ''publication_receipt_sha256'' d))"
proof -
  from assms obtain roles where ev: "check_evidence (int_of mm) d = Inr roles" and pub: "check_publication roles d = Inr ()"
    and out: "check_outcome roles d = Inr ()" and code: "map_of (map (\<lambda>(k, c). (JStr (u k), c)) result_outcomes) (fld ''outcome'' d) = Some 0"
    by (auto simp: result_exit_code_def validate_result_def rbind_Inr_iff split: option.splits)
  have "fld ''outcome'' d = JStr (u ''complete'')" using code by (auto simp: result_outcomes_def split: if_splits)
  with out have proven: "completion_proven roles d" by (simp add: check_outcome_def Let_def require_Inr_iff)
  from check_evidence_roles [OF ev] have roles: "roles = map (\<lambda>e. (fld ''role'' e, fld ''reference'' e)) (elems (fld ''evidence_index'' d))"
    and dist: "distinct (map fst roles)" by auto
  have receipt: "py_eq (fld ''sha256'' (fld ''reference'' e)) (fld ''publication_receipt_sha256'' d)"
    if "e \<in> set (elems (fld ''evidence_index'' d))" "fld ''role'' e = JStr (u ''publication_receipt'')" for e
  proof -
    have "(JStr (u ''publication_receipt''), fld ''reference'' e) \<in> set roles" unfolding roles using that by force
    then have "map_of roles (JStr (u ''publication_receipt'')) = Some (fld ''reference'' e)" using dist by simp
    with pub show ?thesis by (simp add: check_publication_def Let_def)
  qed
  have "\<exists>e \<in> set (elems (fld ''evidence_index'' d)). fld ''role'' e = JStr (u r)" if "r \<in> set required_evidence" for r
  proof -
    have "JStr (u r) \<in> fst ` set roles" using proven that by (auto simp: completion_proven_def list_all_iff)
    then show ?thesis unfolding roles by force
  qed
  with proven receipt show ?thesis unfolding completion_proven_def by (simp add: list_all_iff)
qed

definition sample_evidence :: "string \<Rightarrow> json" where
  "sample_evidence role = obj [(''role'', JStr (u role)), (''reference'', obj [(''name'', JStr (u ''e'')), (''size'', JInt 1),
     (''sha256'', JStr (replicate 64 48)), (''device'', JInt 1), (''inode'', JInt 1), (''mtime_ns'', JInt 1)])]"

definition sample_result :: json where
  "sample_result = obj [(''schema'', result_schema), (''outcome'', JStr (u ''complete'')), (''transfer_id'', JStr (u ''t1'')),
     (''request_digest'', JStr (replicate 64 48)), (''direction'', JStr (u ''push'')), (''channel'', JStr (u ''velo'')),
     (''fallback_reason'', JNull), (''source_vm_identity'', JNull), (''destination_identity'', sample_destination ''push''),
     (''package_sha256'', JStr (replicate 64 48)), (''package_size'', JInt 5), (''manifest_sha256'', JStr (replicate 64 48)),
     (''resumed_bytes'', JInt 0), (''files'', JList []), (''source_stability'', JStr (u ''stable_at_required_check'')),
     (''phase'', JStr (u ''COMPLETE'')), (''last_phase'', JNull), (''published_ever'', JBool True), (''destination_verified'', JBool True),
     (''cleanup'', obj [(''host'', JBool True), (''guest'', JBool True)]), (''publication_receipt_sha256'', JStr (replicate 64 48)),
     (''warnings'', JList []), (''evidence_index'', JList (map sample_evidence required_evidence))]"

lemma sample_result_serial: "serial sample_result"
  by (simp add: sample_result_def sample_evidence_def sample_destination_def result_schema_def serial_obj serial_list required_evidence_def serial_digits)

lemma sample_result_cost: "cost sample_result \<le> 3000"
  by (simp add: sample_result_def sample_evidence_def sample_destination_def result_schema_def obj_def cost_simps text_cost_eq cost_int
      int_str_def dec_digits.simps u_def char_cost_def required_evidence_def map_replicate sum_list_replicate)

lemma sample_result_fields:
  "fld ''schema'' sample_result = result_schema"
  "fld ''outcome'' sample_result = JStr (u ''complete'')"
  "fld ''transfer_id'' sample_result = JStr (u ''t1'')"
  "fld ''request_digest'' sample_result = JStr (replicate 64 48)"
  "fld ''direction'' sample_result = JStr (u ''push'')"
  "fld ''channel'' sample_result = JStr (u ''velo'')"
  "fld ''fallback_reason'' sample_result = JNull"
  "fld ''source_vm_identity'' sample_result = JNull"
  "fld ''destination_identity'' sample_result = sample_destination ''push''"
  "fld ''package_sha256'' sample_result = JStr (replicate 64 48)"
  "fld ''package_size'' sample_result = JInt 5"
  "fld ''manifest_sha256'' sample_result = JStr (replicate 64 48)"
  "fld ''resumed_bytes'' sample_result = JInt 0"
  "fld ''files'' sample_result = JList []"
  "fld ''source_stability'' sample_result = JStr (u ''stable_at_required_check'')"
  "fld ''phase'' sample_result = JStr (u ''COMPLETE'')"
  "fld ''last_phase'' sample_result = JNull"
  "fld ''published_ever'' sample_result = JBool True"
  "fld ''destination_verified'' sample_result = JBool True"
  "fld ''cleanup'' sample_result = obj [(''host'', JBool True), (''guest'', JBool True)]"
  "fld ''publication_receipt_sha256'' sample_result = JStr (replicate 64 48)"
  "fld ''warnings'' sample_result = JList []"
  "fld ''evidence_index'' sample_result = JList (map sample_evidence required_evidence)"
  by (simp_all add: sample_result_def)

lemma sample_result_valid: "validate_result sample_ucd (JInt 10) (JInt 4000) sample_result = Inr sample_result"
proof -
  let ?e = "utf8_bytes (dumps (sort_json sample_result))"
  have canon: "canonical_json sample_result = Inr ?e" by (rule serial_canonical [OF sample_result_serial])
  have len: "length ?e \<le> 3000" using canonical_json_length [OF canon] sample_result_cost by simp
  have "node_count sample_result \<le> 10000" "depth_ok 32 sample_result 0"
    by (simp_all add: sample_result_def sample_evidence_def sample_destination_def required_evidence_def result_schema_def obj_def)
  with canon len have enc: "result_encoding 4000 sample_result = Inr ?e"
    using validate_json_fits [of sample_result 4000] sample_result_serial by (auto simp: result_encoding_iff serial_def)
  have id: "check_transfer_id sample_ucd (JStr (u ''t1'')) = Inr ()"
  proof -
    have "safe_name sample_ucd (u ''t1'')" by (simp add: name_defs sample_ucd_def)
    then have "check_relative sample_ucd (JStr (u ''t1'')) = Inr (u ''t1'')" by (simp add: check_relative_iff)
    moreover have "is_id (u ''t1'')" "\<not> starts_with (u ''guest-internal-'') (u ''t1'')"
      by (simp_all add: is_id_def starts_with_def u_def text_simps)
    ultimately show ?thesis by (simp add: check_transfer_id_def)
  qed
  have dest: "validate_destination (sample_destination ''push'') (JStr (u ''push'')) = Inr (sample_destination ''push'')"
    by (simp add: validate_destination_def sample_destination_def check_object_def same_set_def check_text_def) (simp add: obj_def u_def check_text_def)
  have role: "is_code (JStr (u r))" if "r \<in> set required_evidence" for r
    using that by (auto simp: required_evidence_def is_code_def is_slug_def u_def text_simps)
  have ev: "result_reference 4000 (fld ''reference'' (sample_evidence r)) = Inr ()" for r
    by (simp add: sample_evidence_def result_reference_def result_object_def same_set_def result_digest_def result_number_def is_count_def
        is_evidence_name_def is_slug_def) (simp add: u_def text_simps)
  have roles: "check_evidence 4000 sample_result = Inr (map (\<lambda>r. (JStr (u r), fld ''reference'' (sample_evidence r))) required_evidence)"
  proof -
    have "evidence_role 4000 (sample_evidence r) rs = Inr (rs @ [(JStr (u r), fld ''reference'' (sample_evidence r))])"
      if "r \<in> set required_evidence" "JStr (u r) \<notin> fst ` set rs" for r rs
      using ev [of r] role that by (simp add: evidence_role_def Let_def) (simp add: sample_evidence_def result_object_def same_set_def)
    then show ?thesis by (simp add: check_evidence_def Let_def sample_result_fields required_evidence_def)
  qed
  have keys: "result_object sample_result result_fields ''invalid_result_fields'' = Inr ()"
    by (simp add: sample_result_def result_object_def result_fields_def same_set_def)
  have c1: "check_channel sample_result = Inr ()" "check_endpoints sample_result = Inr ()" "check_package sample_result = Inr ()"
    using dest by (simp_all add: Let_def sample_result_fields check_channel_def str_in_def check_endpoints_def check_package_def result_digest_def
        result_number_def is_count_def catch_error_def) (simp add: sample_destination_def obj_def)?
  have c2: "check_files sample_ucd 10 sample_result = Inr ()" "check_warnings sample_result = Inr ()"
    by (simp_all add: sample_result_fields check_files_def check_collisions_def catch_error_def check_warnings_def)
  have c3: "check_states sample_result = Inr ()"
    by (simp add: sample_result_fields check_states_def str_in_def stabilities_def result_phases_def result_object_def same_set_def result_digest_def)
      (simp add: obj_def)
  let ?roles = "map (\<lambda>r. (JStr (u r), fld ''reference'' (sample_evidence r))) required_evidence"
  have receipt: "map_of ?roles (JStr (u ''publication_receipt'')) = Some (fld ''reference'' (sample_evidence ''publication_receipt''))"
    by (simp add: required_evidence_def)
  have sha: "fld ''sha256'' (fld ''reference'' (sample_evidence r)) = JStr (replicate 64 48)" for r by (simp add: sample_evidence_def)
  have c4: "check_publication ?roles sample_result = Inr ()"
    unfolding check_publication_def Let_def receipt by (simp add: sha sample_result_fields binding_keys_def sample_destination_def obj_def)
  have "completion_proven ?roles sample_result"
    by (simp add: completion_proven_def sample_result_fields str_in_def binding_keys_def required_evidence_def sample_destination_def)
      (simp add: obj_def)
  then have c5: "check_outcome ?roles sample_result = Inr ()" by (simp add: check_outcome_def Let_def sample_result_fields)
  have c6: "str_in (JStr (u ''complete'')) (map fst result_outcomes)" "str_in (JStr (u ''push'')) [''push'', ''pull'']"
    "result_digest True (JStr (replicate 64 48)) = Inr ()" by (simp_all add: str_in_def result_outcomes_def result_digest_def)
  show ?thesis
    using enc len id roles keys c1 c2 c3 c4 c5 c6
    by (simp add: validate_result_def result_budget_def sample_result_fields del: list.map)
qed

theorem result_roundtrip_witness:
  "\<exists>raw. encode_result sample_ucd (JInt 10) (JInt 4000) sample_result = Inr raw \<and>
     decode_result sample_ucd (\<lambda>_. FloatNan) (JInt 10) (JInt 4000) raw = Inr (sort_json sample_result)"
proof -
  have enc: "encode_result sample_ucd (JInt 10) (JInt 4000) sample_result = Inr (utf8_bytes (dumps (sort_json sample_result)))"
    by (simp add: encode_result_def sample_result_valid serial_canonical [OF sample_result_serial])
  have "floats_ok (\<lambda>_. FloatNan) sample_result"
    by (simp add: sample_result_def sample_evidence_def sample_destination_def required_evidence_def result_schema_def obj_def)
  with result_roundtrip [OF enc] enc sample_result_serial show ?thesis by (auto simp: serial_def)
qed

theorem exit_zero_proven_witness:
  "result_exit_code sample_ucd (JInt 10) (JInt 4000) sample_result = Inr 0 \<and> fld ''phase'' sample_result = JStr (u ''COMPLETE'')"
proof -
  have code: "result_exit_code sample_ucd (JInt 10) (JInt 4000) sample_result = Inr 0"
    by (simp add: result_exit_code_def sample_result_valid sample_result_fields result_outcomes_def)
  from exit_zero_proven [OF code] code show ?thesis by simp
qed

end
