(* ===== verification/Request.thy ===== *)
theory Request
  imports Result
begin

text \<open>
  Host requests: \<open>src/velo_transfer/request.py\<close>. A request document is read from a file, parsed
  strictly, validated field by field and completed with a transfer id; \<open>make_guest_request\<close> turns it
  into the message for the guest. The fresh identifier of \<open>uuid.uuid4().hex\<close> is the argument
  \<open>fresh\<close>. Clock readings and deadlines are integers of one unit.
\<close>

section \<open>Paths in a request\<close>

definition request_schema :: json where
  "request_schema = JStr (u ''velo.transfer.request.v1'')"

definition max_spec_bytes :: int where
  "max_spec_bytes = 1048576"

definition request_object :: "json \<Rightarrow> string list \<Rightarrow> string \<Rightarrow> unit result" where
  "request_object v ks code = require (has_keys v ks) (Error code)"

definition request_text :: "json \<Rightarrow> nat \<Rightarrow> string \<Rightarrow> unit result" where
  "request_text v limit code = require (is_text limit v) (Error code)"

definition check_parts :: "unicode_db \<Rightarrow> nat \<Rightarrow> pystr \<Rightarrow> string \<Rightarrow> unit result" where
  "check_parts ucd sep s code =
     catch_error (for_each (\<lambda>part. rbind (check_relative ucd (JStr part)) (\<lambda>_. Inr ())) (split_on sep s)) code"

definition posix_path :: "unicode_db \<Rightarrow> json \<Rightarrow> string \<Rightarrow> pystr result" where
  "posix_path ucd v code =
     rbind (request_text v 32767 code) (\<lambda>_.
     let s = str_of v in
     rbind (require (starts_with (u ''/'') s \<and> \<not> starts_with (u ''//'') s \<and> s \<noteq> u ''/'' \<and> \<not> ends_with (u ''/'') s) (Error code)) (\<lambda>_.
     rbind (check_parts ucd 47 (tl s) code) (\<lambda>_. Inr s)))"

definition windows_drive :: "pystr \<Rightarrow> bool" where
  "windows_drive s \<longleftrightarrow> has_drive s \<and> take 1 (drop 2 s) = [92]"

definition windows_path :: "unicode_db \<Rightarrow> json \<Rightarrow> string \<Rightarrow> pystr result" where
  "windows_path ucd v code =
     rbind (request_text v 32767 code) (\<lambda>_.
     let s = str_of v in
     rbind (require (windows_drive s \<and> \<not> ends_with [92] s \<and> 47 \<notin> set s) (Error code)) (\<lambda>_.
     rbind (check_parts ucd 92 (drop 3 s) code) (\<lambda>_. Inr s)))"

section \<open>Reading and parsing\<close>

text \<open>The stat of a link is that of the link itself: never a regular file, and small.\<close>

definition read_spec :: "node \<Rightarrow> path \<Rightarrow> byte list result" where
  "read_spec fs p =
     rbind (for_each (\<lambda>i. case lookup fs (take i p) of
         None \<Rightarrow> Inl (Error ''spec_unavailable'')
       | Some (LinkN t) \<Rightarrow> Inl (Error ''invalid_spec_file'')
       | Some n \<Rightarrow> Inr ()) [0..<length p]) (\<lambda>_.
     case lookup fs p of
       None \<Rightarrow> Inl (Error ''spec_unavailable'')
     | Some n \<Rightarrow>
         let sz = (case node_stat n of None \<Rightarrow> 0 | Some st \<Rightarrow> st_size st);
             bad = Error (if sz \<le> max_spec_bytes then ''invalid_spec_file'' else ''spec_too_large'') in
         (case n of
            FileN st bs \<Rightarrow>
              rbind (require (st_nlink st = 1 \<and> sz \<le> max_spec_bytes) bad) (\<lambda>_.
              rbind (require (int (length bs) \<le> max_spec_bytes) (Error ''spec_too_large'')) (\<lambda>_. Inr bs))
          | _ \<Rightarrow> Inl bad))"

definition parse_request :: "(pystr \<Rightarrow> pyfloat) \<Rightarrow> byte list \<Rightarrow> json result" where
  "parse_request pf raw =
     (case rbind (decode_utf8 raw) (\<lambda>s.
        rbind (loads pf (unique_pairs (Error ''duplicate_json_key'')) (no_constant (Error ''invalid_json'')) s) (\<lambda>v.
        rbind (canonical_json v) (\<lambda>_. Inr v))) of
        Inr v \<Rightarrow> Inr v
      | Inl (Error c) \<Rightarrow> Inl (Error c)
      | Inl e \<Rightarrow> Inl (Error ''invalid_json''))"

section \<open>Validation\<close>

definition budget_keys :: "string list" where
  "budget_keys = [''max_files'', ''max_metadata_bytes'', ''max_logical_bytes'', ''max_package_bytes'', ''min_free_bytes'',
     ''max_chunk_bytes'', ''max_duration_seconds'']"

text \<open>\<open>type(v) in (int, float)\<close> with \<open>0 < v <= bound\<close>, finite.\<close>

definition timeout_within :: "json \<Rightarrow> int \<Rightarrow> bool" where
  "timeout_within v bound \<longleftrightarrow> (\<forall>b. v \<noteq> JBool b) \<and>
     (case num_val v of None \<Rightarrow> False | Some x \<Rightarrow> \<not> dec_le x (0, 0) \<and> dec_le x (bound, 0))"

definition validate_budget :: "json \<Rightarrow> unit result" where
  "validate_budget v =
     rbind (request_object v (budget_keys @ [''request_timeout_seconds'']) ''invalid_budget'') (\<lambda>_.
     rbind (for_each (\<lambda>k. require (is_int (fld k v) \<and>
       (if k \<in> set [''max_logical_bytes'', ''min_free_bytes''] then 0 else 1) \<le> int_of (fld k v)) (Error ''invalid_budget'')) budget_keys) (\<lambda>_.
     let timeout = fld ''request_timeout_seconds'' v in
     require (timeout_within timeout 300 \<and> timeout_within timeout (int_of (fld ''max_duration_seconds'' v))) (Error ''invalid_budget'')))"

definition is_reference :: "json \<Rightarrow> bool" where
  "is_reference v = (case v of JStr s \<Rightarrow> 1 \<le> length s \<and> length s \<le> 512 \<and> 0 \<notin> set s | _ \<Rightarrow> False)"

definition validate_evidence :: "json \<Rightarrow> unit result" where
  "validate_evidence evidence =
     rbind (request_object evidence [''producer_complete'', ''producer_quiescent'', ''references''] ''producer_evidence_missing'') (\<lambda>_.
     let refs = fld ''references'' evidence in
     require (fld ''producer_complete'' evidence = JBool True \<and> fld ''producer_quiescent'' evidence = JBool True \<and>
       is_list refs \<and> elems refs \<noteq> [] \<and> length (elems refs) \<le> 4096 \<and> list_all is_reference (elems refs))
       (Error ''producer_evidence_missing''))"

text \<open>One source: its path, its relative name, and no collision with the names and parents so far.\<close>

definition validate_source :: "unicode_db \<Rightarrow> bool \<Rightarrow> json \<Rightarrow> pystr list \<times> pystr list \<Rightarrow> (pystr list \<times> pystr list) result" where
  "validate_source ucd push source seen =
     rbind (request_object source [''absolute_path'', ''relative_path''] ''invalid_source_spec'') (\<lambda>_.
     rbind ((if push then posix_path else windows_path) ucd (fld ''absolute_path'' source) ''invalid_source_path'') (\<lambda>_.
     rbind (check_relative ucd (fld ''relative_path'' source)) (\<lambda>relative.
     let folded = casefold ucd relative; prefixes = ancestors folded in
     rbind (require (folded \<notin> set (fst seen) \<and> folded \<notin> set (snd seen) \<and> \<not> list_ex (\<lambda>p. p \<in> set (fst seen)) prefixes)
       (Error ''path_collision'')) (\<lambda>_.
     Inr (fst seen @ [folded], snd seen @ prefixes)))))"

text \<open>\<open>d[k] = v\<close>: in place for a present key, at the end for a new one.\<close>

fun set_key :: "string \<Rightarrow> json \<Rightarrow> json \<Rightarrow> json" where
  "set_key k v (JObj kvs) = JObj (AList.update (u k) v kvs)"
| "set_key k v d = d"

definition lower_ascii :: "pystr \<Rightarrow> pystr" where
  "lower_ascii s = map (\<lambda>c. if is_upper c then c + 32 else c) s"

text \<open>
  \<open>value.lower() == str(uuid.UUID(value))\<close>: the canonical spelling in either case; no other
  character has one of these lower-case forms. Returns the canonical spelling.
\<close>

definition parse_uuid :: "json \<Rightarrow> pystr result" where
  "parse_uuid v = (case v of
     JStr s \<Rightarrow> if uuid_shape is_hex_digit (lower_ascii s) then Inr (lower_ascii s) else Inl (Error ''invalid_vm_identity'')
   | _ \<Rightarrow> Inl (Error ''invalid_vm_identity''))"

definition validate_vm :: "json \<Rightarrow> json result" where
  "validate_vm expected =
     rbind (request_object expected [''vm_uuid'', ''boot_identity'', ''vm_epoch''] ''invalid_vm_identity'') (\<lambda>_.
     rbind (for_each (\<lambda>(k, v). request_text v 256 ''invalid_vm_identity'') (items expected)) (\<lambda>_.
     rbind (parse_uuid (fld ''vm_uuid'' expected)) (\<lambda>s. Inr (set_key ''vm_uuid'' (JStr s) expected))))"

definition set_transfer :: "unicode_db \<Rightarrow> pystr \<Rightarrow> json \<Rightarrow> json result" where
  "set_transfer ucd fresh v = (case dget ''transfer_id'' v of
     Some t \<Rightarrow>
       rbind (require (is_identifier t \<and> \<not> starts_with (u ''guest-internal-'') (str_of t)) (Error ''invalid_transfer_id'')) (\<lambda>_.
       rbind (check_relative ucd t) (\<lambda>_. Inr v))
   | None \<Rightarrow>
       if fld ''resume'' v = JBool True then Inl (Error ''resume_requires_transfer_id'')
       else Inr (set_key ''transfer_id'' (JStr fresh) v))"

definition set_resume :: "json \<Rightarrow> json result" where
  "set_resume v = (case dget ''resume'' v of
     None \<Rightarrow> Inr (set_key ''resume'' (JBool False) v)
   | Some r \<Rightarrow> rbind (require (is_bool r) (Error ''invalid_resume'')) (\<lambda>_. Inr v))"

definition required_keys :: "string list" where
  "required_keys = [''schema'', ''direction'', ''sources'', ''destination_directory'', ''connection_profile'',
     ''expected_vm_identity'', ''evidence_context'', ''budget'']"

definition request_keys_ok :: "json \<Rightarrow> bool" where
  "request_keys_ok v \<longleftrightarrow> is_obj v \<and> list_all (\<lambda>k. u k \<in> set (jkeys v)) required_keys \<and>
     list_all (\<lambda>k. k \<in> set (map u (required_keys @ [''transfer_id'', ''resume'']))) (jkeys v)"

definition validate_document :: "unicode_db \<Rightarrow> pystr \<Rightarrow> json \<Rightarrow> json result" where
  "validate_document ucd fresh v =
     rbind (require (request_keys_ok v \<and> fld ''schema'' v = request_schema) (Error ''invalid_request'')) (\<lambda>_.
     rbind (require (fld ''direction'' v \<in> set [JStr (u ''push''), JStr (u ''pull'')]) (Error ''invalid_direction'')) (\<lambda>_.
     let push = (fld ''direction'' v = JStr (u ''push'')); b = fld ''budget'' v; sources = fld ''sources'' v;
         evidence = fld ''evidence_context'' v in
     rbind (validate_budget b) (\<lambda>_.
     rbind (require (is_list sources \<and> elems sources \<noteq> []) (Error ''sources_required'')) (\<lambda>_.
     rbind (require (int (length (elems sources)) \<le> int_of (fld ''max_files'' b)) (Error ''file_count_exceeded'')) (\<lambda>_.
     rbind (validate_evidence evidence) (\<lambda>_.
     rbind (canonical_json (obj [(''sources'', sources), (''evidence_context'', evidence)])) (\<lambda>bs.
     rbind (require (int (length bs) \<le> int_of (fld ''max_metadata_bytes'' b)) (Error ''metadata_budget_exceeded'')) (\<lambda>_.
     rbind (fold_res (validate_source ucd push) (elems sources) ([], [])) (\<lambda>_.
     rbind ((if push then windows_path else posix_path) ucd (fld ''destination_directory'' v) ''invalid_destination_path'') (\<lambda>_.
     rbind (posix_path ucd (fld ''connection_profile'' v) ''invalid_connection_profile'') (\<lambda>_.
     rbind (validate_vm (fld ''expected_vm_identity'' v)) (\<lambda>vm.
     rbind (set_transfer ucd fresh (set_key ''expected_vm_identity'' vm v)) set_resume))))))))))))"

section \<open>Host requests\<close>

record host_request =
  spec_path :: path
  hr_work_root :: path
  hr_transfer_id :: json
  hr_resume :: json
  intent_digest :: pystr
  request_timeout :: json
  document_bytes :: "byte list"

text \<open>\<open>{key: item for key, item in v.items() if key not in ks}\<close>.\<close>

fun without :: "string list \<Rightarrow> json \<Rightarrow> json" where
  "without ks (JObj kvs) = JObj (filter (\<lambda>(k, v). k \<notin> set (map u ks)) kvs)"
| "without ks v = v"

definition load_request :: "unicode_db \<Rightarrow> (pystr \<Rightarrow> pyfloat) \<Rightarrow> node \<Rightarrow> pystr \<Rightarrow> json \<Rightarrow> host_request result" where
  "load_request ucd pf fs fresh absolute =
     rbind (require (is_str absolute) (Error ''invalid_spec_path'')) (\<lambda>_.
     rbind (posix_path ucd absolute ''invalid_spec_path'') (\<lambda>spelling.
     let p = split_on 47 (tl spelling) in
     rbind (read_spec fs p) (\<lambda>raw.
     rbind (parse_request pf raw) (\<lambda>parsed.
     rbind (validate_document ucd fresh parsed) (\<lambda>v.
     rbind (digest_json (without [''transfer_id'', ''resume''] v)) (\<lambda>intent.
     rbind (canonical_json v) (\<lambda>bs.
     Inr \<lparr>spec_path = p, hr_work_root = butlast p @ [u ''.velo-transfer''], hr_transfer_id = fld ''transfer_id'' v,
       hr_resume = fld ''resume'' v, intent_digest = intent,
       request_timeout = fld ''request_timeout_seconds'' (fld ''budget'' v), document_bytes = bs\<rparr>)))))))"

definition request_document :: "(byte list \<Rightarrow> pystr result) \<Rightarrow> (pystr \<Rightarrow> pyfloat) \<Rightarrow> host_request \<Rightarrow> json result" where
  "request_document wide pf r = loads_bytes wide pf (document_bytes r)"

definition guest_budget :: "json \<Rightarrow> json" where
  "guest_budget document = obj (map (\<lambda>k. (k, fld k (fld ''budget'' document))) budget_keys)"

definition content_budget :: "json \<Rightarrow> int \<Rightarrow> int \<Rightarrow> budget result" where
  "content_budget document now deadline =
     rbind (require (now < deadline) (Error ''invalid_deadline'')) (\<lambda>_.
     let b = guest_budget document in
     Inr \<lparr>max_files = int_of (fld ''max_files'' b), max_metadata_bytes = int_of (fld ''max_metadata_bytes'' b),
       max_logical_bytes = int_of (fld ''max_logical_bytes'' b), max_package_bytes = int_of (fld ''max_package_bytes'' b),
       min_free_bytes = int_of (fld ''min_free_bytes'' b), deadline_monotonic = deadline, max_expansion_ratio = 1000000,
       check_cancel = None\<rparr>)"

text \<open>\<open>request_digest\<close> of the guest service: the digest of all fields but the digest itself.\<close>

definition request_digest :: "json \<Rightarrow> pystr result" where
  "request_digest request =
     rbind (require (is_obj request) (Error ''invalid_request'')) (\<lambda>_. digest_json (without [''request_digest''] request))"

definition package_identity_ok :: "json \<Rightarrow> int \<Rightarrow> bool" where
  "package_identity_ok package limit \<longleftrightarrow> is_count (fld ''size'' package) \<and> int_of (fld ''size'' package) \<le> limit \<and>
     is_digest (fld ''sha256'' package) \<and> is_digest (fld ''manifest_sha256'' package)"

definition make_guest_request :: "(byte list \<Rightarrow> pystr result) \<Rightarrow> (pystr \<Rightarrow> pyfloat) \<Rightarrow> host_request \<Rightarrow> json \<Rightarrow> json \<Rightarrow> json result" where
  "make_guest_request wide pf request expected_destination package =
     rbind (request_document wide pf request) (\<lambda>document.
     let direction = fld ''direction'' document; b = guest_budget document in
     rbind (validate_destination expected_destination direction) (\<lambda>dest.
     rbind (case canonical_json dest of
         Inl (PyError n) \<Rightarrow> Inl (Error ''invalid_destination'') | Inl e \<Rightarrow> Inl e | Inr bs \<Rightarrow> Inr ()) (\<lambda>_.
     rbind (require (py_eq (fld ''canonical_path'' dest) (fld ''destination_directory'' document)) (Error ''invalid_destination'')) (\<lambda>_.
     let base = [(''protocol_version'', protocol_version), (''transfer_id'', hr_transfer_id request), (''direction'', direction),
           (''sources'', fld ''sources'' document), (''expected_destination'', dest),
           (''expected_vm_identity'', fld ''expected_vm_identity'' document),
           (''evidence_context'', fld ''evidence_context'' document), (''budget'', b)] in
     rbind (if direction = JStr (u ''push'')
       then rbind (request_object package [''size'', ''sha256'', ''manifest_sha256''] ''invalid_package_identity'') (\<lambda>_.
         rbind (require (package_identity_ok package (int_of (fld ''max_package_bytes'' b))) (Error ''invalid_package_identity'')) (\<lambda>_.
         Inr (base @ [(''package'', package)])))
       else rbind (require (package = JNull) (Error ''invalid_package_identity'')) (\<lambda>_. Inr base)) (\<lambda>fs.
     rbind (request_digest (obj fs)) (\<lambda>digest.
     Inr (obj (fs @ [(''request_digest'', JStr digest)]))))))))"

section \<open>Names in a request\<close>

text \<open>What one source has to satisfy by itself.\<close>

definition source_ok :: "unicode_db \<Rightarrow> bool \<Rightarrow> json \<Rightarrow> bool" where
  "source_ok ucd push source \<longleftrightarrow> has_keys source [''absolute_path'', ''relative_path''] \<and>
     is_ok ((if push then posix_path else windows_path) ucd (fld ''absolute_path'' source) ''invalid_source_path'') \<and>
     is_ok (check_relative ucd (fld ''relative_path'' source))"

definition source_name :: "json \<Rightarrow> pystr" where
  "source_name source = str_of (fld ''relative_path'' source)"

lemma join_take_shorter: "i < length ps \<Longrightarrow> 0 < i \<Longrightarrow> length (join_on c (take i ps)) < length (join_on c ps)"
proof (induction c ps arbitrary: i rule: join_on.induct)
  case (3 c p q ps)
  show ?case
  proof (cases "i = 1")
    case False
    then obtain j where j: "i = Suc (Suc j)" using 3(3) by (cases i; cases "i - 1") auto
    have "length (join_on c (take (Suc j) (q # ps))) < length (join_on c (q # ps))" using 3 j by (intro "3.IH") auto
    then show ?thesis by (simp add: j)
  qed simp
qed auto

lemma ancestors_shorter: "a \<in> set (ancestors s) \<Longrightarrow> length a < length s"
  using join_take_shorter [where ps = "split_on 47 s" and c = 47] by (auto simp: ancestors_def Let_def)

lemma validate_source_iff:
  "source_ok ucd push source \<Longrightarrow> validate_source ucd push source (ns, ps) = Inr r \<longleftrightarrow>
     (let f = casefold ucd (source_name source) in
      f \<notin> set ns \<and> f \<notin> set ps \<and> set (ancestors f) \<inter> set ns = {} \<and> r = (ns @ [f], ps @ ancestors f))"
  by (cases "fld ''relative_path'' source")
    (auto simp: source_ok_def validate_source_def Let_def request_object_def result_iff is_ok_iff source_name_def list_ex_iff check_relative_def)

lemma collision_step:
  assumes "f \<notin> N" "f \<notin> P" "A \<inter> N = {}" "f \<notin> A"
  shows "(D \<and> F \<inter> (N \<union> {f}) = {} \<and> F \<inter> (P \<union> A) = {} \<and> B \<inter> (N \<union> {f} \<union> F) = {}) \<longleftrightarrow>
    (f \<notin> F \<and> D) \<and> insert f F \<inter> N = {} \<and> insert f F \<inter> P = {} \<and> (A \<union> B) \<inter> (N \<union> insert f F) = {}"
  using assms by auto

lemma validate_sources_iff:
  assumes "list_all (source_ok ucd push) sources"
  shows "is_ok (fold_res (validate_source ucd push) sources (ns, ps)) \<longleftrightarrow>
    (let fs = map (\<lambda>s. casefold ucd (source_name s)) sources in
     distinct fs \<and> set fs \<inter> set ns = {} \<and> set fs \<inter> set ps = {} \<and> (\<Union>f \<in> set fs. set (ancestors f)) \<inter> (set ns \<union> set fs) = {})"
  using assms
proof (induction sources arbitrary: ns ps)
  case (Cons s ss)
  let ?f = "casefold ucd (source_name s)" and ?fs = "map (\<lambda>s. casefold ucd (source_name s)) ss"
  have self: "?f \<notin> set (ancestors ?f)" using ancestors_shorter by blast
  show ?case
  proof (cases "?f \<notin> set ns \<and> ?f \<notin> set ps \<and> set (ancestors ?f) \<inter> set ns = {}")
    case True
    then have "validate_source ucd push s (ns, ps) = Inr (ns @ [?f], ps @ ancestors ?f)"
      using Cons.prems by (simp add: validate_source_iff Let_def)
    then have "is_ok (fold_res (validate_source ucd push) (s # ss) (ns, ps)) \<longleftrightarrow>
        distinct ?fs \<and> set ?fs \<inter> set (ns @ [?f]) = {} \<and> set ?fs \<inter> set (ps @ ancestors ?f) = {} \<and>
        (\<Union>f \<in> set ?fs. set (ancestors f)) \<inter> (set (ns @ [?f]) \<union> set ?fs) = {}"
      using Cons.IH [of "ns @ [?f]" "ps @ ancestors ?f"] Cons.prems by (simp add: Let_def)
    also have "\<dots> \<longleftrightarrow> distinct (?f # ?fs) \<and> set (?f # ?fs) \<inter> set ns = {} \<and> set (?f # ?fs) \<inter> set ps = {} \<and>
        (\<Union>f \<in> set (?f # ?fs). set (ancestors f)) \<inter> (set ns \<union> set (?f # ?fs)) = {}"
      unfolding set_append list.set distinct.simps UN_insert by (rule collision_step) (use True self in simp_all)
    finally show ?thesis by (simp add: Let_def)
  next
    case False
    then have "validate_source ucd push s (ns, ps) \<noteq> Inr r" for r using Cons.prems by (auto simp: validate_source_iff Let_def)
    then have "\<not> is_ok (validate_source ucd push s (ns, ps))" by (auto simp: is_ok_iff)
    then show ?thesis using False by (auto simp: Let_def is_ok_iff rbind_Inr_iff)
  qed
qed simp

text \<open>
  C25: the collision test that request validation makes source by source, against the names and
  parents seen so far, accepts exactly the lists of names that \<open>_check_collisions\<close> accepts as a
  whole when no name is a directory; so a request that is accepted cannot be refused later for
  colliding source names.
\<close>

theorem request_names_equivalent:
  assumes "list_all (source_ok ucd push) sources"
  shows "is_ok (fold_res (validate_source ucd push) sources ([], [])) \<longleftrightarrow> is_ok (check_collisions ucd (map source_name sources) [])"
proof -
  have safe: "list_all (safe_name ucd) (map source_name sources)"
    using assms by (auto simp: list_all_iff source_ok_def is_ok_iff source_name_def check_relative_iff)
  have "is_ok (check_collisions ucd (map source_name sources) []) \<longleftrightarrow> distinct (map (casefold ucd) (map source_name sources)) \<and>
      (\<forall>n \<in> set (map source_name sources). \<forall>a \<in> set (ancestors (casefold ucd n)). a \<notin> casefold ucd ` set (map source_name sources))"
    using safe by (auto simp: is_ok_iff check_collisions_iff)
  moreover have "map (casefold ucd) (map source_name sources) = map (\<lambda>s. casefold ucd (source_name s)) sources" by simp
  ultimately show ?thesis 
    unfolding validate_sources_iff [OF assms] Let_def by (auto simp: image_image comp_def)
qed

definition sample_source :: "string \<Rightarrow> json" where
  "sample_source name = obj [(''absolute_path'', JStr (u ''/s/a'')), (''relative_path'', JStr (u name))]"

lemma sample_source_ok: "source_ok sample_ucd True (sample_source ''a'')" "source_ok sample_ucd True (sample_source ''a/b'')"
proof -
  have "posix_path sample_ucd (JStr (u ''/s/a'')) c = Inr (u ''/s/a'')" for c
  proof -
    have "split_on 47 (tl (u ''/s/a'')) = [u ''s'', u ''a'']" by (simp add: u_def)
    then have "check_parts sample_ucd 47 (tl (u ''/s/a'')) c = Inr ()"
      using sample_names by (simp add: check_parts_def catch_error_def check_relative_iff [THEN iffD2])
    then show ?thesis by (simp add: posix_path_def request_text_def) (simp add: starts_with_def ends_with_def u_def)
  qed
  moreover have "safe_name sample_ucd (u ''a/b'')" by (simp add: name_defs sample_ucd_def)
  ultimately show "source_ok sample_ucd True (sample_source ''a'')" "source_ok sample_ucd True (sample_source ''a/b'')"
    using sample_names(1) by (simp_all add: source_ok_def sample_source_def same_set_def check_relative_iff [THEN iffD2])
qed

theorem request_names_equivalent_witness:
  "is_ok (fold_res (validate_source sample_ucd True) [sample_source ''a''] ([], [])) \<and>
   \<not> is_ok (fold_res (validate_source sample_ucd True) [sample_source ''a'', sample_source ''a/b''] ([], []))"
proof -
  have "is_ok (check_collisions sample_ucd (map source_name [sample_source ''a'']) [])"
    using sample_names(1)
    by (auto simp: is_ok_iff check_collisions_iff source_name_def sample_source_def sample_ucd_def ancestors_def u_def)
  moreover have "\<not> is_ok (check_collisions sample_ucd (map source_name [sample_source ''a'', sample_source ''a/b'']) [])"
    by (auto simp: is_ok_iff check_collisions_iff source_name_def sample_source_def sample_ucd_def ancestors_def u_def)
  ultimately show ?thesis
    using request_names_equivalent [of sample_ucd True "[sample_source ''a'']"]
      request_names_equivalent [of sample_ucd True "[sample_source ''a'', sample_source ''a/b'']"] sample_source_ok
    by simp
qed

section \<open>Messages for the guest\<close>

lemma without_obj: "without ks (obj fs) = obj (filter (\<lambda>(k, v). k \<notin> set ks) fs)"
  by (induction fs) (auto simp: obj_def image_iff)

lemma request_digest_field: "''request_digest'' \<notin> fst ` set fs \<Longrightarrow> request_digest (obj (fs @ [(''request_digest'', v)])) = request_digest (obj fs)"
proof -
  assume "''request_digest'' \<notin> fst ` set fs"
  then have "filter (\<lambda>(k, v). k \<notin> set [''request_digest'']) fs = fs" by (force simp: filter_id_conv)
  then show ?thesis by (simp add: request_digest_def without_obj)
qed

text \<open>
  C26: a message made for the guest certifies itself: its \<open>request_digest\<close> field is the digest that
  the guest service recomputes from the message, and it names the protocol version and the
  transfer id of the request it was made from.
\<close>

theorem guest_request_certified:
  assumes "make_guest_request wide pf request dest package = Inr message"
  shows "\<exists>d. fld ''request_digest'' message = JStr d \<and> request_digest message = Inr d \<and>
    fld ''protocol_version'' message = protocol_version \<and> fld ''transfer_id'' message = hr_transfer_id request"
proof -
  from assms obtain fs d where message: "message = obj (fs @ [(''request_digest'', JStr d)])"
    and digest: "request_digest (obj fs) = Inr d"
    and fs: "\<exists>rest. fs = (''protocol_version'', protocol_version) # (''transfer_id'', hr_transfer_id request) # rest"
      "''request_digest'' \<notin> fst ` set fs"
    unfolding make_guest_request_def Let_def rbind_Inr_iff require_Inr_iff
    by (elim exE conjE) (fastforce simp: result_iff split: if_splits)
  from fs(2) have "fld ''request_digest'' message = JStr d"
    by (simp add: message map_add_def map_of_eq_None_iff [THEN iffD2] del: map_of_append) (simp add: map_add_def map_of_eq_None_iff [THEN iffD2])
  with fs(1) digest request_digest_field [OF fs(2)] show ?thesis by (auto simp: message)
qed

definition sample_document :: json where
  "sample_document = obj [(''direction'', JStr (u ''pull'')), (''destination_directory'', JStr (u ''C:/out'')), (''sources'', JList []),
     (''expected_vm_identity'', JNull), (''evidence_context'', JNull), (''budget'', obj (map (\<lambda>k. (k, JInt 7)) budget_keys))]"

definition sample_request :: host_request where
  "sample_request = \<lparr>spec_path = [u ''r''], hr_work_root = [u ''.velo-transfer''], hr_transfer_id = JStr (u ''t1''), hr_resume = JBool False,
     intent_digest = [], request_timeout = JInt 1, document_bytes = utf8_bytes (dumps (sort_json sample_document))\<rparr>"

lemma sample_document_serial: "serial sample_document"
  by (simp add: sample_document_def serial_obj serial_list budget_keys_def)

lemma sample_document_reads: "request_document wide pf sample_request = Inr (sort_json sample_document)"
proof -
  have "floats_ok pf sample_document" "is_obj sample_document"
    by (simp_all add: sample_document_def budget_keys_def obj_def)
  with loads_bytes_object [OF serial_canonical [OF sample_document_serial]] sample_document_serial
  show ?thesis by (simp add: request_document_def sample_request_def serial_def)
qed

lemma sample_document_sorted:
  "fld k (sort_json sample_document) = sort_json (fld k sample_document)"
  using sample_document_serial by (simp add: fld_sort_json serial_def)

theorem guest_request_certified_witness:
  "\<exists>message d. make_guest_request (\<lambda>_. Inl (Error [])) (\<lambda>_. FloatNan) sample_request (sample_destination ''pull'') JNull = Inr message \<and>
     fld ''request_digest'' message = JStr d \<and> request_digest message = Inr d"
proof -
  let ?d = "sort_json sample_document"
  have fields: "fld ''direction'' ?d = JStr (u ''pull'')" "fld ''destination_directory'' ?d = JStr (u ''C:/out'')"
    "fld ''sources'' ?d = JList []" "fld ''expected_vm_identity'' ?d = JNull" "fld ''evidence_context'' ?d = JNull"
    by (simp_all add: sample_document_sorted) (simp_all add: sample_document_def)
  have budget: "guest_budget ?d = obj (map (\<lambda>k. (k, JInt 7)) budget_keys)"
  proof -
    have "fld k (fld ''budget'' ?d) = JInt 7" if "k \<in> set budget_keys" for k
    proof -
      have b: "fld ''budget'' sample_document = obj (map (\<lambda>k. (k, JInt 7)) budget_keys)" by (simp add: sample_document_def)
      have "wf_json (fld ''budget'' sample_document)" unfolding b by (simp add: wf_json_obj budget_keys_def)
      then show ?thesis using that by (simp add: sample_document_sorted fld_sort_json b map_of_map_restrict)
    qed
    then have "map (\<lambda>k. (k, fld k (fld ''budget'' ?d))) budget_keys = map (\<lambda>k. (k, JInt 7)) budget_keys" by (intro map_cong) simp_all
    then show ?thesis by (simp only: guest_budget_def)
  qed
  let ?fs = "[(''protocol_version'', protocol_version), (''transfer_id'', JStr (u ''t1'')), (''direction'', JStr (u ''pull'')),
     (''sources'', JList []), (''expected_destination'', sample_destination ''pull''), (''expected_vm_identity'', JNull),
     (''evidence_context'', JNull), (''budget'', obj (map (\<lambda>k. (k, JInt 7)) budget_keys))]"
  have serial: "serial (sample_destination ''pull'')" "serial (obj ?fs)"
    by (simp_all add: sample_destination_def serial_obj serial_list protocol_version_def budget_keys_def)
  have digest: "\<exists>d. request_digest (obj ?fs) = Inr d" using serial_digest [OF serial(2)] by (simp add: request_digest_def without_obj)
  have tid: "hr_transfer_id sample_request = JStr (u ''t1'')" by (simp add: sample_request_def)
  have "fld ''canonical_path'' (sample_destination ''pull'') = JStr (u ''C:/out'')" by (simp add: sample_destination_def)
  then obtain message where message: "make_guest_request (\<lambda>_. Inl (Error [])) (\<lambda>_. FloatNan) sample_request (sample_destination ''pull'') JNull = Inr message"
    using digest serial_canonical [OF serial(1)] sample_dest_ok
    by (auto simp: make_guest_request_def sample_document_reads fields budget Let_def validate_destination_iff [THEN iffD2] tid)
  from guest_request_certified [OF message] message show ?thesis by blast
qed

end
