(* ===== verification/Policy.thy ===== *)
theory Policy
  imports Request
begin

text \<open>
  The local transfer policy: \<open>src/velo_transfer/policy.py\<close> on POSIX. A policy is loaded from a
  protected file, remembers the identity and digest of that file and the identities of its roots,
  and re-establishes all of them before every use. \<open>euid\<close> is the effective user.
\<close>

section \<open>Local paths\<close>

definition invalid_local :: exn where
  "invalid_local = Error ''invalid_local_path''"

text \<open>\<open>str(Path(raw))\<close>: exactly two leading slashes are kept, as POSIX allows.\<close>

definition path_spelling :: "pystr \<Rightarrow> path \<Rightarrow> pystr" where
  "path_spelling raw p =
     (if starts_with (u ''//'') raw \<and> \<not> starts_with (u ''///'') raw then 47 # path_str p else path_str p)"

definition rstrip_sep :: "pystr \<Rightarrow> pystr" where
  "rstrip_sep s = rev (dropWhile (\<lambda>c. c = 47) (rev s))"

definition absolute_local :: "unicode_db \<Rightarrow> json \<Rightarrow> path result" where
  "absolute_local ucd v =
     rbind (require (is_str v) invalid_local) (\<lambda>_.
     let raw = str_of v in
     rbind (require (\<not> starts_with [92, 92, 63, 92] raw \<and> \<not> starts_with [92, 92, 46, 92] raw) invalid_local) (\<lambda>_.
     case absolute_path raw of
       None \<Rightarrow> Inl invalid_local
     | Some p \<Rightarrow>
         rbind (require (0 \<notin> set raw \<and> \<not> list_ex (\<lambda>part. part \<in> set [u ''.'', u ''..'']) p) invalid_local) (\<lambda>_.
         rbind (require (path_spelling raw p = rstrip_sep raw \<or> raw = u ''/'') invalid_local) (\<lambda>_.
         rbind (for_each (\<lambda>part. rbind (check_relative ucd (JStr part)) (\<lambda>_. Inr ())) p) (\<lambda>_. Inr p)))))"

section \<open>Protected files\<close>

text \<open>\<open>st_mode & 0o022\<close> and \<open>st_mode & S_ISVTX\<close>.\<close>

definition others_write :: "stat \<Rightarrow> bool" where
  "others_write st \<longleftrightarrow> odd (st_mode st div 16) \<or> odd (st_mode st div 2)"

definition is_sticky :: "stat \<Rightarrow> bool" where
  "is_sticky st \<longleftrightarrow> odd (st_mode st div 512)"

definition stat_of :: "node \<Rightarrow> path \<Rightarrow> stat result" where
  "stat_of fs p = rbind (no_link fs p) (\<lambda>n. case node_stat n of None \<Rightarrow> Inl (Error ''link_or_reparse'') | Some st \<Rightarrow> Inr st)"

definition trusted :: "int \<Rightarrow> stat \<Rightarrow> bool" where
  "trusted euid st \<longleftrightarrow> st_uid st \<in> set [0, euid]"

text \<open>One ancestor, the stat of its child carried along.\<close>

definition check_ancestor :: "node \<Rightarrow> int \<Rightarrow> path \<Rightarrow> stat \<Rightarrow> stat result" where
  "check_ancestor fs euid p child =
     rbind (stat_of fs p) (\<lambda>parent.
     rbind (require (trusted euid parent) (Error ''untrusted_owner'')) (\<lambda>_.
     rbind (require (others_write parent \<longrightarrow> is_sticky parent \<and> trusted euid child) (Error ''insecure_permissions'')) (\<lambda>_.
     Inr parent)))"

definition protected :: "node \<Rightarrow> int \<Rightarrow> path \<Rightarrow> unit result" where
  "protected fs euid p =
     rbind (stat_of fs p) (\<lambda>info.
     rbind (require (\<not> others_write info) (Error ''insecure_permissions'')) (\<lambda>_.
     rbind (require (trusted euid info) (Error ''untrusted_owner'')) (\<lambda>_.
     rbind (fold_res (check_ancestor fs euid) (rev (map (\<lambda>i. take i p) [0..<length p])) info) (\<lambda>_. Inr ()))))"

section \<open>The policy\<close>

definition max_policy_bytes :: nat where
  "max_policy_bytes = 65536"

record policy =
  policy_id :: pystr
  expected_vm_uuid :: pystr
  read_roots :: "path list"
  write_roots :: "path list"
  work_root :: path
  limits :: json
  policy_path :: path
  policy_identity :: json
  policy_sha256 :: pystr
  root_identities :: "(path \<times> json) list"

definition file_bytes :: "node \<Rightarrow> path \<Rightarrow> byte list result" where
  "file_bytes fs p = (case lookup fs p of Some (FileN st bs) \<Rightarrow> Inr bs | _ \<Rightarrow> Inl (PyError ''OSError''))"

definition check_root :: "unicode_db \<Rightarrow> node \<Rightarrow> path \<times> json \<Rightarrow> unit result" where
  "check_root ucd fs ri =
     rbind (safe_chain ucd fs (fst ri) (fst ri) False) (\<lambda>_.
     rbind (dir_identity fs (fst ri)) (\<lambda>identity.
     require (py_eq identity (snd ri)) (Error ''root_changed'')))"

definition revalidate :: "unicode_db \<Rightarrow> node \<Rightarrow> int \<Rightarrow> policy \<Rightarrow> unit result" where
  "revalidate ucd fs euid pol =
     rbind (safe_chain ucd fs (policy_path pol) (butlast (policy_path pol)) False) (\<lambda>_.
     rbind (stat_of fs (policy_path pol)) (\<lambda>info.
     rbind (require (py_eq (file_identity info) (policy_identity pol)) (Error ''policy_changed'')) (\<lambda>_.
     rbind (protected fs euid (policy_path pol)) (\<lambda>_.
     rbind (file_bytes fs (policy_path pol)) (\<lambda>bs.
     let raw = take (Suc max_policy_bytes) bs in
     rbind (require (length raw \<le> max_policy_bytes \<and> sha256_hex raw = policy_sha256 pol) (Error ''policy_changed'')) (\<lambda>_.
     rbind (for_each (check_root ucd fs) (root_identities pol)) (\<lambda>_.
     protected fs euid (work_root pol))))))))"

definition purpose_roots :: "policy \<Rightarrow> json \<Rightarrow> path list option" where
  "purpose_roots pol purpose = map_of [(JStr (u ''read''), read_roots pol), (JStr (u ''write''), write_roots pol),
     (JStr (u ''work''), [work_root pol])] purpose"

definition resolve_local :: "unicode_db \<Rightarrow> node \<Rightarrow> int \<Rightarrow> policy \<Rightarrow> json \<Rightarrow> json \<Rightarrow> bool \<Rightarrow> path result" where
  "resolve_local ucd fs euid pol p purpose allow_missing =
     (case purpose_roots pol purpose of
        None \<Rightarrow> Inl (Error ''invalid_path_purpose'')
      | Some roots \<Rightarrow>
          rbind (revalidate ucd fs euid pol) (\<lambda>_.
          rbind (absolute_local ucd p) (\<lambda>candidate.
          case find (\<lambda>r. is_prefix r candidate) roots of
            None \<Rightarrow> Inl (Error ''path_outside_root'')
          | Some root \<Rightarrow> rbind (safe_chain ucd fs candidate root allow_missing) (\<lambda>_. Inr candidate))))"

definition validate_deadline :: "int \<Rightarrow> int \<Rightarrow> int \<Rightarrow> unit result" where
  "validate_deadline now value max_duration =
     rbind (require (now < value) (Error ''deadline_exceeded'')) (\<lambda>_.
     require (value \<le> now + max_duration) (Error ''deadline_outside_policy''))"

definition policy_budget :: "unicode_db \<Rightarrow> node \<Rightarrow> int \<Rightarrow> policy \<Rightarrow> int \<Rightarrow> int \<Rightarrow> exn option \<Rightarrow> budget result" where
  "policy_budget ucd fs euid pol now deadline cancel =
     rbind (revalidate ucd fs euid pol) (\<lambda>_.
     let limit = (\<lambda>k. int_of (fld k (limits pol))) in
     rbind (validate_deadline now deadline (limit ''max_duration_seconds'')) (\<lambda>_.
     Inr \<lparr>max_files = limit ''max_files'', max_metadata_bytes = limit ''max_metadata_bytes'',
       max_logical_bytes = limit ''max_logical_bytes'', max_package_bytes = limit ''max_package_bytes'',
       min_free_bytes = limit ''min_free_bytes'', deadline_monotonic = deadline, max_expansion_ratio = 1000000,
       check_cancel = cancel\<rparr>))"

section \<open>Loading\<close>

definition invalid_policy :: exn where
  "invalid_policy = Error ''invalid_policy''"

text \<open>\<open>json.loads(raw, ...)\<close> on bytes with the hooks of the caller.\<close>

definition loads_with :: "(byte list \<Rightarrow> pystr result) \<Rightarrow> (pystr \<Rightarrow> pyfloat) \<Rightarrow> ((pystr \<times> json) list \<Rightarrow> json result) \<Rightarrow>
    (pystr \<Rightarrow> json result) \<Rightarrow> byte list \<Rightarrow> json result" where
  "loads_with wide pf hook const raw =
     rbind (if plain_utf8 raw then decode_utf8_pass raw else wide raw) (loads pf hook const)"

definition parse_policy :: "(byte list \<Rightarrow> pystr result) \<Rightarrow> (pystr \<Rightarrow> pyfloat) \<Rightarrow> byte list \<Rightarrow> json result" where
  "parse_policy wide pf raw =
     (case loads_with wide pf (unique_pairs (Error ''duplicate_policy_key'')) (no_constant invalid_policy) raw of
        Inr v \<Rightarrow> Inr v | Inl (Error c) \<Rightarrow> Inl (Error c) | Inl e \<Rightarrow> Inl invalid_policy)"

definition policy_keys :: "string list" where
  "policy_keys = [''schema'', ''policy_id'', ''expected_vm_uuid'', ''read_roots'', ''write_roots'', ''work_root'', ''limits'']"

definition limit_keys :: "string list" where
  "limit_keys = [''max_files'', ''max_metadata_bytes'', ''max_logical_bytes'', ''max_package_bytes'', ''min_free_bytes'',
     ''max_chunk_bytes'', ''max_state_bytes'', ''max_duration_seconds'']"

definition limits_within :: "json \<Rightarrow> bool" where
  "limits_within l \<longleftrightarrow> list_all (\<lambda>k. k \<in> set [''min_free_bytes'', ''max_logical_bytes''] \<or> 0 < int_of (fld k l)) limit_keys \<and>
     int_of (fld ''max_chunk_bytes'' l) \<le> int_of (fld ''max_package_bytes'' l) \<and> int_of (fld ''max_duration_seconds'' l) \<le> 604800 \<and>
     (case dget ''max_batch_chunks'' l of None \<Rightarrow> True | Some b \<Rightarrow> 1 \<le> int_of b \<and> int_of b \<le> 64)"

definition set_default :: "string \<Rightarrow> json \<Rightarrow> json \<Rightarrow> json" where
  "set_default k v d = (case dget k d of None \<Rightarrow> set_key k v d | Some w \<Rightarrow> d)"

definition load_limits :: "json \<Rightarrow> json result" where
  "load_limits v =
     (let small = filter (\<lambda>k. k \<noteq> ''max_chunk_bytes'') limit_keys in
      rbind (require (has_keys v limit_keys \<or> has_keys v small \<or> has_keys v (limit_keys @ [''max_batch_chunks'']) \<or>
        has_keys v (small @ [''max_batch_chunks''])) invalid_policy) (\<lambda>_.
      let l = set_default ''max_chunk_bytes'' (JInt 1048576) v in
      rbind (require (list_all (\<lambda>(k, w). is_int w \<and> 0 \<le> int_of w \<and> int_of w \<le> 2 ^ 63 - 1) (items l)) invalid_policy) (\<lambda>_.
      rbind (require (limits_within l) invalid_policy) (\<lambda>_. Inr l))))"

definition load_root :: "unicode_db \<Rightarrow> node \<Rightarrow> json \<Rightarrow> path list \<Rightarrow> path list result" where
  "load_root ucd fs raw roots =
     rbind (absolute_local ucd raw) (\<lambda>root.
     rbind (safe_chain ucd fs root root False) (\<lambda>_.
     rbind (dir_identity fs root) (\<lambda>_. Inr (roots @ [root]))))"

definition load_roots :: "unicode_db \<Rightarrow> node \<Rightarrow> json \<Rightarrow> path list result" where
  "load_roots ucd fs v =
     rbind (require (is_list v \<and> elems v \<noteq> [] \<and> length (elems v) \<le> 32) invalid_policy) (\<lambda>_.
     rbind (fold_res (load_root ucd fs) (elems v) []) (\<lambda>roots.
     rbind (require (distinct roots) invalid_policy) (\<lambda>_. Inr roots)))"

definition policy_uuid :: "json \<Rightarrow> pystr result" where
  "policy_uuid v = rbind (require (is_uuid v) (Error ''invalid_vm_identity'')) (\<lambda>_. Inr (str_of v))"

definition check_observation :: "bool \<Rightarrow> pystr \<Rightarrow> json \<Rightarrow> unit result" where
  "check_observation guest expected observation =
     rbind (require (has_keys observation [''os_name'', ''vm_uuid'']) (Error ''vm_identity_unavailable'')) (\<lambda>_.
     rbind (require (str_in (fld ''os_name'' observation) (if guest then [''Windows''] else [''Windows'', ''Linux'', ''Darwin'']))
       (Error ''wrong_operating_system'')) (\<lambda>_.
     rbind (policy_uuid (fld ''vm_uuid'' observation)) (\<lambda>uuid.
     require (uuid = expected) (Error ''vm_identity_mismatch''))))"

text \<open>\<open>load_policy\<close>; the result \<open>None\<close> is the disabled status \<open>not_configured\<close>.\<close>

definition load_policy :: "unicode_db \<Rightarrow> (byte list \<Rightarrow> pystr result) \<Rightarrow> (pystr \<Rightarrow> pyfloat) \<Rightarrow> node \<Rightarrow> int \<Rightarrow> json \<Rightarrow> json \<Rightarrow>
    bool \<Rightarrow> json \<Rightarrow> policy option result" where
  "load_policy ucd wide pf fs euid env_path path_v guest observation =
     (let chosen = (if path_v = JNull then env_path else path_v) in
      if chosen = JNull \<or> chosen = JStr [] then Inr None
      else
        rbind (absolute_local ucd chosen) (\<lambda>p.
        rbind (safe_chain ucd fs p (butlast p) False) (\<lambda>_.
        rbind (no_link fs p) (\<lambda>n. case n of
          FileN st bs \<Rightarrow>
            rbind (protected fs euid p) (\<lambda>_.
            rbind (require (st_size st \<le> int max_policy_bytes) (Error ''policy_too_large'')) (\<lambda>_.
            let raw = take (Suc max_policy_bytes) bs in
            rbind (require (length raw \<le> max_policy_bytes) (Error ''policy_too_large'')) (\<lambda>_.
            rbind (parse_policy wide pf raw) (\<lambda>data.
            rbind (require (has_keys data policy_keys \<and> fld ''schema'' data = JStr (u ''velo.transfer.policy.v1'') \<and>
              is_identifier (fld ''policy_id'' data)) invalid_policy) (\<lambda>_.
            rbind (policy_uuid (fld ''expected_vm_uuid'' data)) (\<lambda>uuid.
            rbind (load_limits (fld ''limits'' data)) (\<lambda>l.
            rbind (load_roots ucd fs (fld ''read_roots'' data)) (\<lambda>rr.
            rbind (load_roots ucd fs (fld ''write_roots'' data)) (\<lambda>wr.
            rbind (absolute_local ucd (fld ''work_root'' data)) (\<lambda>work.
            rbind (safe_chain ucd fs work work False) (\<lambda>_.
            rbind (dir_identity fs work) (\<lambda>_.
            rbind (protected fs euid work) (\<lambda>_.
            rbind (check_observation guest uuid observation) (\<lambda>_.
            rbind (fold_res (\<lambda>r acc. rbind (dir_identity fs r) (\<lambda>i. Inr (acc @ [(r, i)]))) (rr @ wr @ [work]) []) (\<lambda>ids.
            let pol = \<lparr>policy_id = str_of (fld ''policy_id'' data), expected_vm_uuid = uuid, read_roots = rr, write_roots = wr,
                  work_root = work, limits = l, policy_path = p, policy_identity = file_identity st,
                  policy_sha256 = sha256_hex raw, root_identities = ids\<rparr> in
            rbind (revalidate ucd fs euid pol) (\<lambda>_. Inr (Some pol)))))))))))))))))
        | _ \<Rightarrow> Inl (Error ''invalid_policy_file'')))))"

section \<open>Policies\<close>

lemma stat_of_iff: "stat_of fs p = Inr st \<longleftrightarrow> (\<exists>n. lookup fs p = Some n \<and> node_stat n = Some st)"
  by (cases "lookup fs p"; cases "the (lookup fs p)") (auto simp: stat_of_def no_link_def split: option.splits)

definition guarded :: "int \<Rightarrow> stat \<Rightarrow> bool" where
  "guarded euid st \<longleftrightarrow> trusted euid st \<and> (others_write st \<longrightarrow> is_sticky st)"

lemma check_ancestors_ok:
  "fold_res (check_ancestor fs euid) ps child = Inr r \<Longrightarrow> q \<in> set ps \<Longrightarrow> \<exists>n st. lookup fs q = Some n \<and> node_stat n = Some st \<and> guarded euid st"
proof (induction ps arbitrary: child)
  case (Cons p ps)
  then obtain st where "check_ancestor fs euid p child = Inr st" and rest: "fold_res (check_ancestor fs euid) ps st = Inr r"
    by (auto simp: rbind_Inr_iff)
  then have "\<exists>n. lookup fs p = Some n \<and> node_stat n = Some st \<and> guarded euid st"
    by (auto simp: check_ancestor_def result_iff stat_of_iff guarded_def)
  with Cons.IH [OF rest] Cons.prems(2) show ?case by auto
qed simp

lemma protected_chain:
  assumes "protected fs euid p = Inr x" and "i \<le> length p"
  shows "\<exists>n st. lookup fs (take i p) = Some n \<and> node_stat n = Some st \<and> guarded euid st"
proof -
  from assms(1) obtain info r where info: "stat_of fs p = Inr info" "\<not> others_write info" "trusted euid info"
    and anc: "fold_res (check_ancestor fs euid) (rev (map (\<lambda>i. take i p) [0..<length p])) info = Inr r"
    by (auto simp: protected_def result_iff)
  show ?thesis
  proof (cases "i = length p")
    case True
    then show ?thesis using info by (auto simp: stat_of_iff guarded_def)
  next
    case False
    then show ?thesis using check_ancestors_ok [OF anc, of "take i p"] assms(2) by auto
  qed
qed

text \<open>
  C27: a path that the policy resolves for a purpose lies under one of the roots configured for that
  purpose with safe names and no symbolic link on the chain, and at that moment the policy file
  still has the digest it was loaded with, and neither the file nor any of its ancestor directories
  is owned by an untrusted user or writable by others without the sticky bit.
\<close>

theorem resolve_local_safe:
  assumes "resolve_local ucd fs euid pol p purpose False = Inr c"
  shows "(\<exists>roots root q. purpose_roots pol purpose = Some roots \<and> root \<in> set roots \<and> c = root @ q \<and> list_all (safe_name ucd) q) \<and>
    linkless fs c \<and>
    (\<exists>st bs. lookup fs (policy_path pol) = Some (FileN st bs) \<and> sha256_hex bs = policy_sha256 pol) \<and>
    (\<forall>i \<le> length (policy_path pol). \<exists>n st. lookup fs (take i (policy_path pol)) = Some n \<and> node_stat n = Some st \<and> guarded euid st)"
proof -
  from assms obtain roots root where r: "purpose_roots pol purpose = Some roots" "find (\<lambda>r. is_prefix r c) roots = Some root"
    "safe_chain ucd fs c root False = Inr ()" and re: "revalidate ucd fs euid pol = Inr ()"
    by (auto simp: resolve_local_def result_iff split: option.splits)
  have "root \<in> set roots" "is_prefix root c" using r(2) by (auto simp: find_Some_iff)
  moreover have "linkless fs c" "list_all (safe_name ucd) (drop (length root) c)" using r(3) by (simp_all add: safe_chain_iff)
  moreover have "c = root @ drop (length root) c" using \<open>is_prefix root c\<close> by (metis append_take_drop_id is_prefix_def)
  moreover from re obtain bs where bs: "file_bytes fs (policy_path pol) = Inr bs" "length (take (Suc max_policy_bytes) bs) \<le> max_policy_bytes"
    "sha256_hex (take (Suc max_policy_bytes) bs) = policy_sha256 pol" and prot: "protected fs euid (policy_path pol) = Inr ()"
    by (auto simp: revalidate_def Let_def result_iff simp del: length_take)
  moreover from bs(2) have "take (Suc max_policy_bytes) bs = bs" by (simp add: min_def split: if_splits)
  moreover from bs(1) obtain st where "lookup fs (policy_path pol) = Some (FileN st bs)"
    by (auto simp: file_bytes_def split: option.splits node.splits)
  ultimately show ?thesis using r(1) protected_chain [OF prot] by metis
qed

definition sample_policy :: policy where
  "sample_policy = \<lparr>policy_id = u ''p1'', expected_vm_uuid = [], read_roots = [[u ''s'']], write_roots = [[u ''o'']], work_root = [u ''o''],
     limits = JNull, policy_path = [u ''p'', u ''b''], policy_identity = file_identity (sample_stat 8 22),
     policy_sha256 = sha256_hex sample_zip, root_identities = [([u ''s''], obj [(''device'', JInt 1), (''inode'', JInt 3)])]\<rparr>"

lemma sample_revalidate: "revalidate sample_ucd sample_fs 0 sample_policy = Inr ()"
proof -
  have c: "safe_chain sample_ucd sample_fs [u ''p'', u ''b''] [u ''p''] False = Inr ()" "safe_chain sample_ucd sample_fs [u ''s''] [u ''s''] False = Inr ()"
    using sample_lookup(4) sample_names by (simp_all add: safe_chain_iff is_prefix_def) (simp add: sample_tree_defs)
  have st: "stat_of sample_fs [] = Inr (sample_stat 2 0)" "stat_of sample_fs [u ''p''] = Inr (sample_stat 7 0)"
    "stat_of sample_fs [u ''p'', u ''b''] = Inr (sample_stat 8 22)" "stat_of sample_fs [u ''o''] = Inr (sample_stat 5 0)"
    by (simp_all add: stat_of_def no_link_def sample_fs_def u_def)
  have g: "trusted 0 (sample_stat i n)" "\<not> others_write (sample_stat i n)" for i n
    by (simp_all add: trusted_def others_write_def sample_stat_def)
  have prot: "protected sample_fs 0 [u ''p'', u ''b''] = Inr ()" "protected sample_fs 0 [u ''o''] = Inr ()"
    by (simp_all add: protected_def st g check_ancestor_def)
  have id: "py_eq (file_identity (sample_stat 8 22)) (file_identity (sample_stat 8 22))"
    by (simp add: file_identity_def sample_stat_def obj_def)
  have root: "check_root sample_ucd sample_fs ([u ''s''], obj [(''device'', JInt 1), (''inode'', JInt 3)]) = Inr ()"
  proof -
    have "dir_identity sample_fs [u ''s''] = Inr (obj [(''device'', JInt 1), (''inode'', JInt 3)])"
      by (simp add: dir_identity_def no_link_def sample_tree_defs)
    moreover have "py_eq (obj [(''device'', JInt 1), (''inode'', JInt 3)]) (obj [(''device'', JInt 1), (''inode'', JInt 3)])" by (simp add: obj_def)
    ultimately show ?thesis using c(2) by (simp add: check_root_def)
  qed
  have bytes: "file_bytes sample_fs [u ''p'', u ''b''] = Inr sample_zip" by (simp add: file_bytes_def sample_lookup)
  have len: "take (Suc max_policy_bytes) sample_zip = sample_zip" "length sample_zip \<le> max_policy_bytes"
    by (simp_all add: sample_zip_def max_policy_bytes_def)
  show ?thesis using c(1) st(3) prot id root bytes len
    by (simp add: revalidate_def sample_policy_def Let_def)
qed

lemma sample_absolute: "absolute_local sample_ucd (JStr (u ''/s/a'')) = Inr [u ''s'', u ''a'']"
proof -
  have "absolute_path (u ''/s/a'') = Some [u ''s'', u ''a'']" by (simp add: absolute_path_def u_def starts_with_def)
  moreover have "path_spelling (u ''/s/a'') [u ''s'', u ''a''] = rstrip_sep (u ''/s/a'')"
    by (simp add: path_spelling_def path_str_def rstrip_sep_def starts_with_def u_def)
  ultimately show ?thesis
    using sample_names by (simp add: absolute_local_def check_relative_iff [THEN iffD2]) (simp add: starts_with_def u_def)
qed

lemma sample_resolve: "resolve_local sample_ucd sample_fs 0 sample_policy (JStr (u ''/s/a'')) (JStr (u ''read'')) False = Inr [u ''s'', u ''a'']"
proof -
  have "safe_chain sample_ucd sample_fs [u ''s'', u ''a''] [u ''s''] False = Inr ()"
    using sample_lookup(3) sample_names(1) by (simp add: safe_chain_iff is_prefix_def)
  then show ?thesis
    using sample_absolute sample_revalidate by (simp add: resolve_local_def purpose_roots_def) (simp add: sample_policy_def is_prefix_def)
qed

theorem resolve_local_safe_witness:
  "\<exists>root q. root \<in> set [[u ''s'']] \<and> [u ''s'', u ''a''] = root @ q \<and> list_all (safe_name sample_ucd) q"
  using resolve_local_safe [OF sample_resolve] by (auto simp: purpose_roots_def sample_policy_def)

end
