(* ===== verification/Disk.thy ===== *)
theory Disk
  imports Policy
begin

text \<open>
  Operations that change the file system, and what they leave alone. An operation of a component
  that writes is a function from a state to a result together with the state it leaves, also when
  it fails. What the operating system and the clock decide is a record \<open>env\<close>: the fresh identifier
  of \<open>uuid.uuid4().hex\<close>, the stats of new nodes, and the fault that a sequence of system calls meets.
\<close>

section \<open>Results with a state\<close>

type_synonym ('s, 'a) io = "'s \<Rightarrow> 'a result \<times> 's"

definition io_bind :: "('s, 'a) io \<Rightarrow> ('a \<Rightarrow> ('s, 'b) io) \<Rightarrow> ('s, 'b) io" where
  "io_bind m f s = (case m s of (Inl e, s1) \<Rightarrow> (Inl e, s1) | (Inr x, s1) \<Rightarrow> f x s1)"

definition io_ask :: "('s \<Rightarrow> 'a result) \<Rightarrow> ('s, 'a) io" where
  "io_ask f s = (f s, s)"

definition io_lift :: "'a result \<Rightarrow> ('s, 'a) io" where
  "io_lift r s = (r, s)"

named_theorems io_iff

lemma io_bind_Inr [io_iff]: "io_bind m f s = (Inr y, s') \<longleftrightarrow> (\<exists>x s1. m s = (Inr x, s1) \<and> f x s1 = (Inr y, s'))"
  by (auto simp: io_bind_def split: prod.splits sum.splits)

lemma io_bind_Inl [io_iff]:
  "io_bind m f s = (Inl e, s') \<longleftrightarrow> m s = (Inl e, s') \<or> (\<exists>x s1. m s = (Inr x, s1) \<and> f x s1 = (Inl e, s'))"
  by (auto simp: io_bind_def split: prod.splits sum.splits)

lemma io_ask_eq [io_iff]: "io_ask f s = (r, s') \<longleftrightarrow> f s = r \<and> s' = s"
  by (auto simp: io_ask_def)

lemma io_lift_eq [io_iff]: "io_lift q s = (r, s') \<longleftrightarrow> q = r \<and> s' = s"
  by (auto simp: io_lift_def)

lemma io_bind_step [simp]: "m s = (Inr x, s1) \<Longrightarrow> io_bind m f s = f x s1"
  by (simp add: io_bind_def)

section \<open>The environment\<close>

text \<open>
  A fault interrupts the writing of one file: at the creation of the temporary file, after some
  bytes were written, at the move to its final name, or at the synchronisation of the directory.
  It carries the exception that is raised.
\<close>

datatype fault = No_Fault | Open_Fault exn | Write_Fault nat exn | Move_Fault exn | Sync_Fault exn

record env =
  env_ucd :: unicode_db
  env_wide :: "byte list \<Rightarrow> pystr result"
  env_pf :: "pystr \<Rightarrow> pyfloat"
  env_euid :: int
  env_now :: int
  env_world :: world
  env_fresh :: pystr
  env_fault :: fault
  env_unlink :: bool

text \<open>\<open>os.open(path, O_CREAT | O_EXCL, 0o600)\<close> and \<open>mkdir(mode=0o700)\<close>; the umask leaves the owner's bits.\<close>

definition new_file :: "env \<Rightarrow> path \<Rightarrow> byte list \<Rightarrow> node" where
  "new_file e p bs = FileN ((file_stat (env_world e) p bs)
     \<lparr>st_size := int (length bs), st_mode := 384, st_uid := env_euid e, st_nlink := 1\<rparr>) bs"

definition private_dir :: "env \<Rightarrow> path \<Rightarrow> node" where
  "private_dir e p = DirN ((dir_stat (env_world e) p)\<lparr>st_mode := 448, st_uid := env_euid e\<rparr>) []"

text \<open>\<open>os.unlink\<close>, and \<open>os.replace\<close> of a regular file within one directory.\<close>

definition remove_kid :: "world \<Rightarrow> pystr \<Rightarrow> node \<Rightarrow> node option" where
  "remove_kid w name n = (case n of
     DirN st kids \<Rightarrow> if name \<in> set (map fst kids) then Some (DirN (touched w st) (AList.delete name kids)) else None
   | _ \<Rightarrow> None)"

definition move_kid :: "world \<Rightarrow> bool \<Rightarrow> pystr \<Rightarrow> pystr \<Rightarrow> node \<Rightarrow> node option" where
  "move_kid w replace old new n = (case n of
     DirN st kids \<Rightarrow> (case map_of kids old of
       None \<Rightarrow> None
     | Some m \<Rightarrow>
         (case map_of kids new of
            None \<Rightarrow> Some (DirN (touched w st) (AList.update new m (AList.delete old kids)))
          | Some (DirN st' kids') \<Rightarrow> None
          | Some m' \<Rightarrow> if replace then Some (DirN (touched w st) (AList.update new m (AList.delete old kids))) else None))
   | _ \<Rightarrow> None)"

definition remove_node :: "world \<Rightarrow> path \<Rightarrow> node \<Rightarrow> node option" where
  "remove_node w p fs = update_at (remove_kid w (last p)) (butlast p) fs"

definition move_node :: "world \<Rightarrow> bool \<Rightarrow> path \<Rightarrow> pystr \<Rightarrow> pystr \<Rightarrow> node \<Rightarrow> node option" where
  "move_node w replace d old new fs = update_at (move_kid w replace old new) d fs"

section \<open>What stays\<close>

definition core :: "stat \<Rightarrow> int \<times> int \<times> nat \<times> int" where
  "core st = (st_dev st, st_ino st, st_mode st, st_uid st)"

text \<open>A directory that gets or loses an entry keeps its identity, owner and permissions.\<close>

definition calm :: "world \<Rightarrow> bool" where
  "calm w \<longleftrightarrow> (\<forall>st. core (touched w st) = core st)"

fun alike :: "node option \<Rightarrow> node option \<Rightarrow> bool" where
  "alike (Some (DirN st kids)) (Some (DirN st' kids')) = (core st = core st')"
| "alike m n = (m = n)"

definition within :: "pystr list \<Rightarrow> path \<Rightarrow> path \<Rightarrow> bool" where
  "within xs d p \<longleftrightarrow> (\<exists>x \<in> set xs. is_prefix (d @ [x]) p)"

definition changes :: "pystr list \<Rightarrow> node \<Rightarrow> node \<Rightarrow> bool" where
  "changes xs m n \<longleftrightarrow> (\<exists>st kids st' kids'. m = DirN st kids \<and> n = DirN st' kids' \<and> core st = core st' \<and>
     (\<forall>x. x \<notin> set xs \<longrightarrow> map_of kids x = map_of kids' x))"

lemma alike_refl [simp]: "alike m m"
  by (cases "(m, m)" rule: alike.cases) auto

lemma within_Cons: "within xs (y # d) (y # p) \<longleftrightarrow> within xs d p" "within xs [] (x # p) \<longleftrightarrow> x \<in> set xs"
  by (auto simp: within_def)

lemma update_at_alike:
  assumes "update_at f d n = Some n'" and "\<And>m m'. f m = Some m' \<Longrightarrow> changes xs m m'" and "\<not> within xs d p"
  shows "alike (lookup n p) (lookup n' p)"
  using assms
proof (induction f d n arbitrary: n' p rule: update_at.induct)
  case (1 f n)
  then have ch: "changes xs n n'" by simp
  show ?case
  proof (cases p)
    case (Cons x q)
    then have "x \<notin> set xs" using "1.prems"(3) by (simp add: within_Cons)
    with ch Cons show ?thesis by (auto simp: changes_def split: option.splits)
  qed (use ch in \<open>auto simp: changes_def\<close>)
next
  case (2 f y ps st kids)
  then obtain m m' where m: "map_of kids y = Some m" "update_at f ps m = Some m'" "n' = DirN st (AList.update y m' kids)"
    by (auto split: option.splits)
  show ?case
  proof (cases p)
    case (Cons x q)
    show ?thesis
    proof (cases "x = y")
      case True
      with Cons 2(4) have "\<not> within xs ps q" by (simp add: within_Cons)
      from "2.IH" [OF m(1) m(2) "2.prems"(2) this] show ?thesis using Cons True m by (simp add: map_of_update_other)
    next
      case False
      then show ?thesis using Cons m by (simp add: map_of_update_other)
    qed
  qed (use m in simp)
qed auto

lemma changes_put: "calm w \<Longrightarrow> put_kid w x child m = Some m' \<Longrightarrow> changes [x] m m'"
  by (auto simp: put_kid_def changes_def calm_def map_of_append map_add_def split: node.splits if_splits option.splits)

lemma changes_remove: "calm w \<Longrightarrow> remove_kid w x m = Some m' \<Longrightarrow> changes [x] m m'"
  by (auto simp: remove_kid_def changes_def calm_def delete_conv split: node.splits if_splits)

lemma changes_move: "calm w \<Longrightarrow> move_kid w r old new m = Some m' \<Longrightarrow> changes [old, new] m m'"
  by (auto simp: move_kid_def changes_def calm_def delete_conv map_of_update_other split: node.splits if_splits option.splits)

section \<open>Checks that survive a change elsewhere\<close>

definition agree :: "node \<Rightarrow> node \<Rightarrow> path \<Rightarrow> bool" where
  "agree fs fs' p \<longleftrightarrow> (\<forall>i \<le> length p. alike (lookup fs (take i p)) (lookup fs' (take i p)))"

lemma is_prefix_take: "is_prefix r (take i p) \<Longrightarrow> is_prefix r p"
proof (induction r arbitrary: i p)
  case (Cons x r)
  then obtain q j where "p = x # q" "i = Suc j" "is_prefix r (take j q)" by (cases p; cases i) (auto simp: is_prefix_def)
  with Cons.IH [of j q] show ?case by simp
qed simp

lemma within_take: "within xs d (take i p) \<Longrightarrow> within xs d p"
  unfolding within_def using is_prefix_take by blast

lemma agreeI:
  "update_at f d fs = Some fs' \<Longrightarrow> (\<And>m m'. f m = Some m' \<Longrightarrow> changes xs m m') \<Longrightarrow> \<not> within xs d p \<Longrightarrow> agree fs fs' p"
  using update_at_alike within_take unfolding agree_def by blast

lemma alike_trans: "alike a b \<Longrightarrow> alike b c \<Longrightarrow> alike a c"
  by (cases "(a, b)" rule: alike.cases; cases "(b, c)" rule: alike.cases) auto

lemma agree_trans: "agree a b p \<Longrightarrow> agree b c p \<Longrightarrow> agree a c p"
  unfolding agree_def using alike_trans by blast

lemma agree_refl [simp]: "agree fs fs p"
  by (simp add: agree_def)

lemma agree_at: "agree fs fs' p \<Longrightarrow> alike (lookup fs p) (lookup fs' p)"
  unfolding agree_def by (metis order_refl take_all)

lemma agree_prefix: "agree fs fs' (p @ q) \<Longrightarrow> agree fs fs' p"
  unfolding agree_def by (metis le_add1 length_append order_trans take_append append_Nil2 diff_is_0_eq take0)

lemma alike_stat: "alike (Some m) n \<Longrightarrow> node_stat m = Some st \<Longrightarrow> \<exists>m' st'. n = Some m' \<and> node_stat m' = Some st' \<and> core st' = core st"
  by (cases "(Some m, n)" rule: alike.cases) auto

lemma alike_plain: "alike (Some m) n \<Longrightarrow> (\<forall>t. m \<noteq> LinkN t) \<Longrightarrow> \<exists>m'. n = Some m' \<and> (\<forall>t. m' \<noteq> LinkN t)"
  by (cases "(Some m, n)" rule: alike.cases) auto

lemma alike_file: "alike (Some (FileN st bs)) n \<longleftrightarrow> n = Some (FileN st bs)"
  by (cases n) auto

lemma alike_None: "alike None n \<longleftrightarrow> n = None"
  by (cases n) auto

lemma agree_linkless: "agree fs fs' p \<Longrightarrow> linkless fs p \<Longrightarrow> linkless fs' p"
  unfolding linkless_prefixes agree_def no_link_iff using alike_plain by metis

lemma agree_safe_chain: "agree fs fs' p \<Longrightarrow> safe_chain ucd fs p root False = Inr x \<Longrightarrow> safe_chain ucd fs' p root False = Inr x"
  using agree_linkless by (auto simp: safe_chain_iff)

lemma dir_identity_iff:
  "dir_identity fs p = Inr i \<longleftrightarrow>
     (\<exists>st kids. lookup fs p = Some (DirN st kids) \<and> i = obj [(''device'', JInt (st_dev st)), (''inode'', JInt (st_ino st))])"
  by (cases "lookup fs p"; cases "the (lookup fs p)") (auto simp: dir_identity_def no_link_def)

lemma agree_dir_identity:
  assumes "agree fs fs' p" and "dir_identity fs p = Inr i"
  shows "dir_identity fs' p = Inr i"
proof -
  from assms(2) obtain st kids where d: "lookup fs p = Some (DirN st kids)" "i = obj [(''device'', JInt (st_dev st)), (''inode'', JInt (st_ino st))]"
    by (auto simp: dir_identity_iff)
  with agree_at [OF assms(1)] obtain st' kids' where "lookup fs' p = Some (DirN st' kids')" "core st' = core st"
    by (cases "(lookup fs p, lookup fs' p)" rule: alike.cases) auto
  with d(2) show ?thesis by (simp add: dir_identity_iff core_def)
qed

text \<open>What \<open>_protected\<close> asks: trusted owners up to the root, write access for others only under the sticky bit.\<close>

lemma check_ancestors_iff:
  "trusted euid child \<Longrightarrow> (\<exists>r. fold_res (check_ancestor fs euid) ps child = Inr r) \<longleftrightarrow>
     (\<forall>p \<in> set ps. \<exists>n st. lookup fs p = Some n \<and> node_stat n = Some st \<and> guarded euid st)"
proof (induction ps arbitrary: child)
  case (Cons p ps)
  show ?case
  proof (cases "\<exists>n st. lookup fs p = Some n \<and> node_stat n = Some st \<and> guarded euid st")
    case True
    then obtain n st where st: "lookup fs p = Some n" "node_stat n = Some st" "guarded euid st" by blast
    then have "check_ancestor fs euid p child = Inr st"
      using Cons.prems by (auto simp: check_ancestor_def result_iff stat_of_iff guarded_def)
    with Cons.IH [of st] st show ?thesis by (auto simp: guarded_def)
  next
    case False
    then have "check_ancestor fs euid p child \<noteq> Inr st" for st
      by (auto simp: check_ancestor_def result_iff stat_of_iff guarded_def)
    with False show ?thesis by (auto simp: rbind_Inr_iff)
  qed
qed simp

lemma protected_iff:
  "protected fs euid p = Inr () \<longleftrightarrow>
     (\<exists>n st. lookup fs p = Some n \<and> node_stat n = Some st \<and> trusted euid st \<and> \<not> others_write st) \<and>
     (\<forall>i < length p. \<exists>n st. lookup fs (take i p) = Some n \<and> node_stat n = Some st \<and> guarded euid st)"
proof -
  have "(\<exists>r. fold_res (check_ancestor fs euid) (rev (map (\<lambda>i. take i p) [0..<length p])) st = Inr r) \<longleftrightarrow>
      (\<forall>i < length p. \<exists>n st. lookup fs (take i p) = Some n \<and> node_stat n = Some st \<and> guarded euid st)" if "trusted euid st" for st
    using check_ancestors_iff [OF that] by auto
  note anc = this
  have "protected fs euid p = Inr () \<longleftrightarrow> (\<exists>n st. lookup fs p = Some n \<and> node_stat n = Some st \<and> trusted euid st \<and> \<not> others_write st \<and>
      (\<exists>r. fold_res (check_ancestor fs euid) (rev (map (\<lambda>i. take i p) [0..<length p])) st = Inr r))"
    by (auto simp: protected_def result_iff stat_of_iff)
  then show ?thesis using anc by blast
qed

lemma core_same: "core st = core st' \<Longrightarrow> trusted euid st = trusted euid st'" "core st = core st' \<Longrightarrow> others_write st = others_write st'"
  "core st = core st' \<Longrightarrow> guarded euid st = guarded euid st'"
  by (auto simp: core_def trusted_def others_write_def guarded_def is_sticky_def)

lemma alike_guarded:
  "alike a b \<Longrightarrow> (\<exists>n st. a = Some n \<and> node_stat n = Some st \<and> guarded euid st) \<Longrightarrow> \<exists>n st. b = Some n \<and> node_stat n = Some st \<and> guarded euid st"
  using alike_stat core_same(3) by metis

lemma alike_safe:
  "alike a b \<Longrightarrow> (\<exists>n st. a = Some n \<and> node_stat n = Some st \<and> trusted euid st \<and> \<not> others_write st) \<Longrightarrow>
     \<exists>n st. b = Some n \<and> node_stat n = Some st \<and> trusted euid st \<and> \<not> others_write st"
  using alike_stat core_same(1,2) by metis

lemma agree_protected:
  assumes "agree fs fs' p" and "protected fs euid p = Inr ()"
  shows "protected fs' euid p = Inr ()"
proof -
  have "\<exists>n st. lookup fs' (take i p) = Some n \<and> node_stat n = Some st \<and> guarded euid st" if "i < length p" for i
    using that assms alike_guarded [of "lookup fs (take i p)" "lookup fs' (take i p)"] unfolding protected_iff agree_def
    by (meson less_imp_le)
  moreover have "\<exists>n st. lookup fs' p = Some n \<and> node_stat n = Some st \<and> trusted euid st \<and> \<not> others_write st"
    using assms(2) alike_safe [OF agree_at [OF assms(1)]] unfolding protected_iff by blast
  ultimately show ?thesis unfolding protected_iff by blast
qed

lemma revalidate_iff:
  "revalidate ucd fs euid pol = Inr () \<longleftrightarrow>
     safe_chain ucd fs (policy_path pol) (butlast (policy_path pol)) False = Inr () \<and> protected fs euid (policy_path pol) = Inr () \<and>
     for_each (check_root ucd fs) (root_identities pol) = Inr () \<and> protected fs euid (work_root pol) = Inr () \<and>
     (\<exists>info bs. stat_of fs (policy_path pol) = Inr info \<and> py_eq (file_identity info) (policy_identity pol) \<and>
      file_bytes fs (policy_path pol) = Inr bs \<and> length (take (Suc max_policy_bytes) bs) \<le> max_policy_bytes \<and>
      sha256_hex (take (Suc max_policy_bytes) bs) = policy_sha256 pol)"
  by (auto simp: revalidate_def result_iff Let_def simp del: length_take py_eq.simps)

lemma agree_revalidate:
  assumes "revalidate ucd fs euid pol = Inr ()"
    and "\<And>p. p \<in> set (policy_path pol # work_root pol # map fst (root_identities pol)) \<Longrightarrow> agree fs fs' p"
  shows "revalidate ucd fs' euid pol = Inr ()"
proof -
  note r = assms(1) [unfolded revalidate_iff, THEN conjunct1] assms(1) [unfolded revalidate_iff, THEN conjunct2, THEN conjunct1]
    assms(1) [unfolded revalidate_iff, THEN conjunct2, THEN conjunct2, THEN conjunct1]
    assms(1) [unfolded revalidate_iff, THEN conjunct2, THEN conjunct2, THEN conjunct2, THEN conjunct1]
  note f = assms(1) [unfolded revalidate_iff, THEN conjunct2, THEN conjunct2, THEN conjunct2, THEN conjunct2]
  from f obtain st bs where "lookup fs (policy_path pol) = Some (FileN st bs)"
    by (auto simp: file_bytes_def split: option.splits node.splits)
  with agree_at [OF assms(2) [of "policy_path pol"]] have same: "lookup fs' (policy_path pol) = lookup fs (policy_path pol)"
    by (simp add: alike_file)
  have "for_each (check_root ucd fs') (root_identities pol) = Inr ()"
    unfolding for_each_Inr_iff
  proof
    fix ri
    assume ri: "ri \<in> set (root_identities pol)"
    then have "agree fs fs' (fst ri)" using assms(2) by auto
    moreover have "check_root ucd fs ri = Inr ()" using r(3) ri unfolding for_each_Inr_iff by blast
    ultimately show "check_root ucd fs' ri = Inr ()"
      unfolding check_root_def rbind_Inr_iff require_Inr_iff using agree_safe_chain agree_dir_identity by blast
  qed
  moreover have "safe_chain ucd fs' (policy_path pol) (butlast (policy_path pol)) False = Inr ()"
    using agree_safe_chain [OF assms(2) r(1)] by simp
  moreover have "protected fs' euid (policy_path pol) = Inr ()" "protected fs' euid (work_root pol) = Inr ()"
    by (rule agree_protected [OF assms(2) r(2)], simp) (rule agree_protected [OF assms(2) r(4)], simp)
  moreover have "stat_of fs' (policy_path pol) = stat_of fs (policy_path pol)" "file_bytes fs' (policy_path pol) = file_bytes fs (policy_path pol)"
    by (simp_all add: stat_of_def no_link_def file_bytes_def same)
  ultimately show ?thesis using f unfolding revalidate_iff by simp
qed

section \<open>Sealed envelopes\<close>

text \<open>
  Stored documents end with the digest of their other fields. Reading one back gives the sorted
  document, and the seal is found intact.
\<close>

lemma py_eq_sort: "wf_json v \<Longrightarrow> no_nan v \<Longrightarrow> py_eq (sort_json v) v"
proof (induction v rule: json_induct)
  case (Obj kvs)
  have "case map_of kvs k of None \<Rightarrow> False | Some w \<Rightarrow> py_eq (sort_json v) w" if kv: "(k, v) \<in> set kvs" for k v
  proof -
    from kv have "map_of kvs k = Some v" "wf_json v" "no_nan v" using Obj.prems by (auto simp: list_all_iff)
    with Obj.IH [OF kv] show ?thesis by simp
  qed
  then show ?case by (auto simp: list_all_iff)
next
  case (List xs)
  then show ?case by (auto simp: list_all_iff list_all2_conv_all_nth)
qed (auto intro: py_eq_refl)

lemma without_sort: "without ks (sort_json v) = sort_json (without ks v)"
proof (cases v)
  case (JObj kvs)
  have "filter (\<lambda>(k, v). k \<notin> set (map u ks)) (map (\<lambda>(k, v). (k, sort_json v)) kvs) = map (\<lambda>(k, v). (k, sort_json v)) (filter (\<lambda>(k, v). k \<notin> set (map u ks)) kvs)"
    by (induction kvs) auto
  then show ?thesis by (simp add: JObj filter_sort)
qed simp_all

lemma without_sealed: "k \<notin> fst ` set fs \<Longrightarrow> without [k] (obj (fs @ [(k, x)])) = obj fs"
proof -
  assume "k \<notin> fst ` set fs"
  then have "filter (\<lambda>(k', v). k' \<notin> set [k]) fs = fs" by (force simp: filter_id_conv)
  then show ?thesis by (simp add: without_obj)
qed

lemma fld_sealed: "k \<notin> fst ` set fs \<Longrightarrow> fld k (obj (fs @ [(k, x)])) = x"
  by (simp add: map_add_def map_of_eq_None_iff [THEN iffD2])

lemma canonical_sort [simp]: "canonical_json (sort_json v) = canonical_json v" "digest_json (sort_json v) = digest_json v"
  by (simp_all add: canonical_json_def digest_json_def)

lemma loads_with_object:
  assumes "canonical_json v = Inr raw" and "wf_json v" and "floats_ok pf v" and "is_obj v"
  shows "loads_with wide pf (unique_pairs dup) const raw = Inr (sort_json v)"
proof -
  from assms have raw: "raw = utf8_bytes (dumps (sort_json v))" "list_all is_scalar (dumps (sort_json v))"
    by (simp_all add: canonical_json_Inr)
  from assms(4) obtain kvs where "sort_json v = JObj kvs" by (cases v) auto
  then have plain: "plain_utf8 raw" using plain_utf8_object raw by simp
  have d: "decode_utf8 raw = Inr (dumps (sort_json v))" using raw by (intro decode_encode_utf8) (simp add: encode_utf8_def)
  then have "decode_utf8_pass raw = Inr (dumps (sort_json v))" by (rule decode_utf8_pass_strict)
  with plain canonical_json_reads_back [OF assms(1-3), of dup const] d show ?thesis by (simp add: loads_with_def)
qed

lemma validate_json_unit: "validate_json n v = Inr x \<longleftrightarrow> validate_json n v = Inr ()"
  by simp

text \<open>The accounting with a placeholder for the digest covers the sealed document.\<close>

lemma hex_cost: "is_hex64 h \<Longrightarrow> text_cost h = 66" "is_hex64 h \<Longrightarrow> no_surrogate h"
proof -
  assume h: "is_hex64 h"
  have "map char_cost h = map (\<lambda>_. 1) h"
    using h by (intro map_cong) (auto simp: is_hex64_def list_all_iff char_cost_def text_simps)
  then have "sum_list (map char_cost h) = length h" by (simp only: sum_list_triv) simp
  then show "text_cost h = 66" using h by (simp add: text_cost_eq is_hex64_def)
  show "no_surrogate h" using h by (auto simp: is_hex64_def no_surrogate_def list_all_iff is_surrogate_def text_simps)
qed

lemma sealed_accounted:
  assumes "validate_json n (obj (fs @ [(k, JStr (replicate 64 48))])) = Inr ()" and "is_hex64 h"
  shows "validate_json n (obj (fs @ [(k, JStr h)])) = Inr ()"
proof -
  have zero: "is_hex64 (replicate 64 48)" by (simp add: is_hex64_def list_all_iff text_simps)
  show ?thesis
    using assms(1) hex_cost [OF assms(2)] hex_cost [OF zero] unfolding validate_json_accepts obj_def
    by (simp add: cost_simps)
qed

lemma wf_sealed: "wf_json (obj fs) \<Longrightarrow> k \<notin> fst ` set fs \<Longrightarrow> is_hex64 h \<Longrightarrow> wf_json (obj (fs @ [(k, JStr h)]))"
  using serial_hex [of h] by (auto simp: wf_json_obj serial_def)

lemma floats_sealed: "floats_ok pf (obj (fs @ [(k, JStr h)])) = floats_ok pf (obj fs)"
  by (simp add: obj_def)

lemma validate_json_sorted: "wf_json v \<Longrightarrow> validate_json n v = Inr () \<Longrightarrow> validate_json n (sort_json v) = Inr ()"
  using validate_json_sort [of v n] by (auto simp: is_ok_iff)

section \<open>What changes\<close>

lemma update_at_lookup: "update_at f d n = Some n' \<Longrightarrow> \<exists>m m'. lookup n d = Some m \<and> f m = Some m' \<and> lookup n' d = Some m'"
proof (induction f d n arbitrary: n' rule: update_at.induct)
  case (1 f n)
  then show ?case by simp
next
  case (2 f p ps st kids)
  then obtain m m' where m: "map_of kids p = Some m" "update_at f ps m = Some m'" "n' = DirN st (AList.update p m' kids)"
    by (auto split: option.splits)
  from "2.IH" [OF m(1) m(2)] m show ?case by (auto simp: map_of_update_other)
qed auto

lemma lookup_snoc: "lookup fs d = Some (DirN st kids) \<Longrightarrow> lookup fs (d @ [x]) = map_of kids x"
  by (auto simp: lookup_append split: option.splits)

lemma put_node_lookup:
  assumes "put_node w (d @ [x]) child fs = Some fs'"
  shows "lookup fs' (d @ [x]) = Some child" "lookup fs (d @ [x]) = None" "\<exists>st kids. lookup fs d = Some (DirN st kids)"
proof -
  from update_at_lookup [OF assms [unfolded put_node_def]] obtain m m' where
    m: "lookup fs d = Some m" "put_kid w x child m = Some m'" "lookup fs' d = Some m'" by auto
  then show "lookup fs' (d @ [x]) = Some child" "lookup fs (d @ [x]) = None" "\<exists>st kids. lookup fs d = Some (DirN st kids)"
    by (auto simp: put_kid_def lookup_snoc map_of_eq_None_iff map_add_def split: node.splits if_splits option.splits) (force dest: map_of_SomeD)
qed

lemma move_node_lookup:
  assumes "move_node w r d old new fs = Some fs'" and "old \<noteq> new"
  shows "lookup fs' (d @ [new]) = lookup fs (d @ [old])" "lookup fs' (d @ [old]) = None" "lookup fs (d @ [old]) \<noteq> None"
    "r \<or> lookup fs (d @ [new]) = None" "\<exists>st kids. lookup fs d = Some (DirN st kids)"
proof -
  from update_at_lookup [OF assms(1) [unfolded move_node_def]] obtain m m' where
    m: "lookup fs d = Some m" "move_kid w r old new m = Some m'" "lookup fs' d = Some m'" by blast
  then show "lookup fs' (d @ [new]) = lookup fs (d @ [old])" "lookup fs' (d @ [old]) = None" "lookup fs (d @ [old]) \<noteq> None"
    "r \<or> lookup fs (d @ [new]) = None" "\<exists>st kids. lookup fs d = Some (DirN st kids)"
    using assms(2) by (auto simp: move_kid_def lookup_snoc map_of_update_other delete_conv split: node.splits if_splits option.splits)
qed

lemma put_node_agree: "calm w \<Longrightarrow> put_node w (d @ [x]) child fs = Some fs' \<Longrightarrow> \<not> within [x] d p \<Longrightarrow> agree fs fs' p"
  unfolding put_node_def by (rule agreeI [where d = d and xs = "[x]"]) (auto dest: changes_put)

lemma move_node_agree: "calm w \<Longrightarrow> move_node w r d old new fs = Some fs' \<Longrightarrow> \<not> within [old, new] d p \<Longrightarrow> agree fs fs' p"
  unfolding move_node_def by (rule agreeI [where xs = "[old, new]"]) (auto dest: changes_move)

lemma remove_node_agree: "calm w \<Longrightarrow> remove_node w (d @ [x]) fs = Some fs' \<Longrightarrow> \<not> within [x] d p \<Longrightarrow> agree fs fs' p"
  unfolding remove_node_def by (rule agreeI [where d = d and xs = "[x]"]) (auto dest: changes_remove)

lemma within_short: "length p \<le> length d \<Longrightarrow> \<not> within xs d p"
  by (auto simp: within_def is_prefix_def)

lemma within_snoc: "within xs d (d @ [y]) \<longleftrightarrow> y \<in> set xs"
  by (auto simp: within_def is_prefix_def)

lemma within_mono: "\<not> within ys d p \<Longrightarrow> set xs \<subseteq> set ys \<Longrightarrow> \<not> within xs d p"
  by (auto simp: within_def)

text \<open>A path that exists does not pass through a missing node, nor below a regular file.\<close>

lemma lookup_below_file: "is_prefix q p \<Longrightarrow> lookup fs q = Some (FileN st bs) \<Longrightarrow> lookup fs p \<noteq> None \<Longrightarrow> p = q"
proof -
  assume pre: "is_prefix q p" and q: "lookup fs q = Some (FileN st bs)" and p: "lookup fs p \<noteq> None"
  from pre obtain r where r: "p = q @ r" by (metis append_take_drop_id is_prefix_def)
  with q p show "p = q" by (cases r) (auto simp: lookup_append)
qed

lemma lookup_below_missing: "is_prefix q p \<Longrightarrow> lookup fs q = None \<Longrightarrow> lookup fs p = None"
proof -
  assume pre: "is_prefix q p" and q: "lookup fs q = None"
  from pre obtain r where r: "p = q @ r" by (metis append_take_drop_id is_prefix_def)
  with q show ?thesis by (simp add: lookup_append)
qed

text \<open>
  The writing of one file: a fresh name beside the target, moved over it. Everything that existed
  before and is not the target stays as it was.
\<close>

lemma install_agree:
  assumes "calm w" and put: "put_node w (d @ [t]) child fs = Some fs1" and mv: "move_node w r d t x fs1 = Some fs2"
    and target: "lookup fs (d @ [x]) = None \<or> (\<exists>st bs. lookup fs (d @ [x]) = Some (FileN st bs))"
    and p: "lookup fs p \<noteq> None" "p \<noteq> d @ [x]"
  shows "agree fs fs2 p"
proof -
  have "\<not> is_prefix (d @ [t]) p" using p(1) lookup_below_missing [OF _ put_node_lookup(2) [OF put]] by auto
  moreover have "\<not> is_prefix (d @ [x]) p" using target p lookup_below_missing lookup_below_file by metis
  ultimately have "\<not> within [t] d p" "\<not> within [t, x] d p" by (auto simp: within_def)
  with assms(1) put mv show ?thesis by (meson agree_trans put_node_agree move_node_agree)
qed

end
