(* ===== verification/Store.thy ===== *)
theory Store
  imports Disk
begin

text \<open>
  Durable task metadata: class \<open>TaskStore\<close> of \<open>src/velo_transfer/storage.py\<close> on POSIX. The object
  is the record \<open>task_store\<close>; the file system is passed through the operations that write. The
  context values of an error (such as the observed revision) are not part of its code and are left
  out.
\<close>

section \<open>Values\<close>

definition state_schema :: json where
  "state_schema = JStr (u ''velo.transfer.store.v1'')"

definition store_binding_keys :: "string list" where
  "store_binding_keys = [''request_digest'', ''policy_id'', ''vm_uuid'', ''boot_identity'', ''vm_epoch'']"

definition invalid_state :: exn where
  "invalid_state = Error ''invalid_state''"

definition guest_prefix :: "json \<Rightarrow> unit result" where
  "guest_prefix state =
     (if is_obj state \<and> is_obj (fld ''request'' state) \<and> dget ''offset'' state \<noteq> None then
        let proof = fld ''prefix_verification'' state in
        rbind (item ''request_digest'' (fld ''request'' state)) (\<lambda>digest.
        rbind (item ''chunk_count'' state) (\<lambda>chunk_count.
        rbind (validate_prefix_verification proof digest (fld ''offset'' state) (fld ''owner'' state) chunk_count) (\<lambda>_.
        if proof = JNull then Inr ()
        else if truthy (fld ''cancelled'' state) \<or> fld ''error'' state \<noteq> JNull then Inl invalid_state
        else rbind (item ''direction'' (fld ''request'' state)) (\<lambda>direction.
          require (direction = JStr (u ''push'')) invalid_state))))
      else Inr ())"

definition store_binding :: "policy \<Rightarrow> json \<Rightarrow> json result" where
  "store_binding pol b =
     rbind (require (has_keys b store_binding_keys) (Error ''invalid_task_binding'')) (\<lambda>_.
     rbind (require (is_digest (fld ''request_digest'' b) \<and> fld ''policy_id'' b = JStr (policy_id pol)) (Error ''invalid_task_binding'')) (\<lambda>_.
     rbind (require (fld ''vm_uuid'' b = JStr (expected_vm_uuid pol)) (Error ''vm_identity_mismatch'')) (\<lambda>_.
     rbind (for_each (\<lambda>k. require (is_text 256 (fld k b)) (Error ''invalid_task_binding'')) [''vm_uuid'', ''boot_identity'', ''vm_epoch'']) (\<lambda>_.
     Inr b))))"

definition store_transfer_id :: "unicode_db \<Rightarrow> json \<Rightarrow> pystr result" where
  "store_transfer_id ucd v =
     rbind (require (is_identifier v) (Error ''invalid_transfer_id'')) (\<lambda>_.
     catch_error (check_relative ucd v) ''invalid_transfer_id'')"

section \<open>The store\<close>

text \<open>\<open>lock_fd\<close> is what \<open>os.fstat\<close> of the held descriptor gives: its device and inode.\<close>

record task_store =
  store_policy :: policy
  store_deadline :: int
  lock_fd :: "(int \<times> int) option"
  lock_identity :: "(int \<times> int) option"
  store_owner :: json

definition store_root :: "task_store \<Rightarrow> path" where
  "store_root ts = work_root (store_policy ts)"

definition limit_of :: "task_store \<Rightarrow> string \<Rightarrow> int" where
  "limit_of ts k = int_of (fld k (limits (store_policy ts)))"

definition store_check :: "env \<Rightarrow> task_store \<Rightarrow> node \<Rightarrow> unit result" where
  "store_check e ts fs =
     rbind (validate_deadline (env_now e) (store_deadline ts) (limit_of ts ''max_duration_seconds'')) (\<lambda>_.
     revalidate (env_ucd e) fs (env_euid e) (store_policy ts))"

definition store_open :: "env \<Rightarrow> policy \<Rightarrow> int option \<Rightarrow> json \<Rightarrow> node \<Rightarrow> task_store result" where
  "store_open e pol deadline owner fs =
     (let longest = int_of (fld ''max_duration_seconds'' (limits pol));
          until = (case deadline of None \<Rightarrow> env_now e + longest | Some d \<Rightarrow> d) in
      rbind (validate_deadline (env_now e) until longest) (\<lambda>_.
      rbind (revalidate (env_ucd e) fs (env_euid e) pol) (\<lambda>_.
      Inr \<lparr>store_policy = pol, store_deadline = until, lock_fd = None, lock_identity = None, store_owner = owner\<rparr>)))"

definition store_private :: "node \<Rightarrow> path \<Rightarrow> unit result" where
  "store_private fs p = rbind (stat_of fs p) (\<lambda>info. require (st_mode info mod 64 = 0) (Error ''insecure_permissions''))"

text \<open>\<open>mkdir\<close> and the synchronisation of the parent directory.\<close>

definition make_dir :: "env \<Rightarrow> path \<Rightarrow> (node, unit) io" where
  "make_dir e p fs = (case put_node (env_world e) p (private_dir e p) fs of
     None \<Rightarrow> (Inl (PyError ''OSError''), fs) | Some fs1 \<Rightarrow> (Inr (), fs1))"

definition ensure_dir :: "env \<Rightarrow> task_store \<Rightarrow> bool \<Rightarrow> path \<Rightarrow> (node, unit) io" where
  "ensure_dir e ts create p =
     io_bind (\<lambda>fs. if lookup fs p = None then if create then make_dir e p fs else (Inl (Error ''task_not_found''), fs) else (Inr (), fs)) (\<lambda>_.
     io_bind (io_ask (\<lambda>fs. safe_chain (env_ucd e) fs p (store_root ts) False)) (\<lambda>_.
     io_ask (\<lambda>fs. store_private fs p)))"

definition task_dir :: "env \<Rightarrow> task_store \<Rightarrow> bool \<Rightarrow> json \<Rightarrow> (node, path) io" where
  "task_dir e ts create transfer_id =
     io_bind (io_lift (store_transfer_id (env_ucd e) transfer_id)) (\<lambda>name.
     io_bind (io_ask (store_check e ts)) (\<lambda>_.
     let tasks = store_root ts @ [u ''tasks'']; task = tasks @ [name] in
     io_bind (ensure_dir e ts create tasks) (\<lambda>_.
     io_bind (ensure_dir e ts create task) (\<lambda>_.
     io_lift (Inr task)))))"

definition state_path :: "env \<Rightarrow> task_store \<Rightarrow> bool \<Rightarrow> json \<Rightarrow> (node, path) io" where
  "state_path e ts create transfer_id =
     io_bind (task_dir e ts create transfer_id) (\<lambda>d. io_lift (Inr (d @ [u ''state.json''])))"

section \<open>The writer lock\<close>

definition lock_path :: "task_store \<Rightarrow> path" where
  "lock_path ts = store_root ts @ [u ''.transfer-writer.lock'']"

definition node_id :: "stat \<Rightarrow> int \<times> int" where
  "node_id st = (st_dev st, st_ino st)"

text \<open>
  Entering \<open>writer()\<close>; \<open>busy\<close> says that another process holds the advisory lock. Leaving it is
  \<open>store_release\<close>.
\<close>

definition store_acquire :: "env \<Rightarrow> bool \<Rightarrow> task_store \<Rightarrow> (node, task_store) io" where
  "store_acquire e busy ts =
     io_bind (io_lift (require (lock_fd ts = None) (Error ''writer_lock_held''))) (\<lambda>_.
     io_bind (io_ask (store_check e ts)) (\<lambda>_.
     let p = lock_path ts in
     io_bind (io_ask (\<lambda>fs. safe_chain (env_ucd e) fs p (store_root ts) True)) (\<lambda>_.
     io_bind (\<lambda>fs. case lookup fs p of
         None \<Rightarrow> (case put_node (env_world e) p (new_file e p []) fs of
           None \<Rightarrow> (Inl (Error ''writer_lock_unavailable''), fs) | Some fs1 \<Rightarrow> (Inr (), fs1))
       | Some (FileN st bs) \<Rightarrow> (Inr (), fs)
       | Some n \<Rightarrow> (Inl (Error ''writer_lock_unavailable''), fs)) (\<lambda>_.
     io_bind (io_ask (\<lambda>fs. store_private fs p)) (\<lambda>_.
     io_bind (io_lift (require (\<not> busy) (Error ''writer_busy''))) (\<lambda>_.
     io_bind (io_ask (\<lambda>fs. stat_of fs p)) (\<lambda>st.
     io_lift (Inr (ts\<lparr>lock_fd := Some (node_id st), lock_identity := Some (node_id st)\<rparr>)))))))))"

definition store_release :: "task_store \<Rightarrow> task_store" where
  "store_release ts = ts\<lparr>lock_fd := None, lock_identity := None\<rparr>"

definition require_writer :: "env \<Rightarrow> task_store \<Rightarrow> node \<Rightarrow> unit result" where
  "require_writer e ts fs =
     rbind (require (lock_fd ts \<noteq> None \<and> lock_identity ts \<noteq> None) (Error ''writer_lock_required'')) (\<lambda>_.
     rbind (store_check e ts fs) (\<lambda>_.
     rbind (stat_of fs (lock_path ts)) (\<lambda>info.
     rbind (require (Some (node_id info) = lock_identity ts \<and> st_nlink info = 1) (Error ''writer_lock_changed'')) (\<lambda>_.
     require (lock_fd ts = lock_identity ts) (Error ''writer_lock_changed'')))))"

section \<open>Reading\<close>

definition envelope_keys :: "string list" where
  "envelope_keys = [''schema'', ''transfer_id'', ''binding'', ''revision'', ''state'', ''owner'', ''sha256'']"

definition parse_envelope :: "env \<Rightarrow> byte list \<Rightarrow> json result" where
  "parse_envelope e raw =
     (case loads_with (env_wide e) (env_pf e) (unique_pairs (Error ''duplicate_state_key'')) (no_constant invalid_state) raw of
        Inr v \<Rightarrow> Inr v | Inl (Error c) \<Rightarrow> Inl (Error c) | Inl x \<Rightarrow> Inl invalid_state)"

definition check_envelope :: "json \<Rightarrow> byte list \<Rightarrow> json result" where
  "check_envelope v raw =
     rbind (require (has_keys v envelope_keys \<and> fld ''schema'' v = state_schema \<and> is_count (fld ''revision'' v) \<and>
       is_obj (fld ''owner'' v) \<and> is_digest (fld ''sha256'' v)) invalid_state) (\<lambda>_.
     rbind (canonical_json (without [''sha256''] v)) (\<lambda>content.
     rbind (require (fld ''sha256'' v = JStr (sha256_hex content)) (Error ''state_hash_mismatch'')) (\<lambda>_.
     rbind (canonical_json v) (\<lambda>bs.
     rbind (require (bs = raw) invalid_state) (\<lambda>_.
     rbind (guest_prefix (fld ''state'' v)) (\<lambda>_. Inr v))))))"

definition store_read :: "env \<Rightarrow> task_store \<Rightarrow> path \<Rightarrow> node \<Rightarrow> json result" where
  "store_read e ts p fs =
     rbind (store_check e ts fs) (\<lambda>_.
     rbind (safe_chain (env_ucd e) fs p (store_root ts) False) (\<lambda>_.
     rbind (store_private fs p) (\<lambda>_.
     rbind (no_link fs p) (\<lambda>n. case n of
       FileN st bs \<Rightarrow>
         let maximum = limit_of ts ''max_state_bytes'' in
         rbind (require (st_size st \<le> maximum) (Error ''state_budget_exceeded'')) (\<lambda>_.
         rbind (require (int (length bs) \<le> maximum \<and> st_size st = int (length bs)) (Error ''state_budget_exceeded'')) (\<lambda>_.
         rbind (parse_envelope e bs) (\<lambda>v.
         rbind (validate_json (nat maximum) v) (\<lambda>_.
         check_envelope v bs))))
     | _ \<Rightarrow> Inl invalid_state))))"

definition store_load :: "env \<Rightarrow> task_store \<Rightarrow> json \<Rightarrow> json \<Rightarrow> (node, json) io" where
  "store_load e ts transfer_id expected_binding =
     io_bind (io_lift (store_transfer_id (env_ucd e) transfer_id)) (\<lambda>name.
     io_bind (io_lift (store_binding (store_policy ts) expected_binding)) (\<lambda>bound.
     io_bind (state_path e ts False (JStr name)) (\<lambda>p.
     io_bind (io_ask (\<lambda>fs. require (lookup fs p \<noteq> None) (Error ''task_incomplete''))) (\<lambda>_.
     io_bind (io_ask (store_read e ts p)) (\<lambda>v.
     io_lift (rbind (require (fld ''transfer_id'' v = JStr name \<and> py_eq (fld ''binding'' v) bound) (Error ''task_binding_conflict'')) (\<lambda>_.
       Inr v)))))))"

section \<open>Writing\<close>

definition store_encode :: "env \<Rightarrow> task_store \<Rightarrow> json \<Rightarrow> json \<Rightarrow> int \<Rightarrow> json \<Rightarrow> node \<Rightarrow> (json \<times> byte list) result" where
  "store_encode e ts transfer_id bound revision state fs =
     rbind (guest_prefix state) (\<lambda>_.
     let maximum = limit_of ts ''max_state_bytes'';
         content = [(''schema'', state_schema), (''transfer_id'', transfer_id), (''binding'', bound), (''revision'', JInt revision),
           (''state'', state), (''owner'', store_owner ts)] in
     rbind (validate_json (nat maximum) (obj (content @ [(''sha256'', JStr (replicate 64 48))]))) (\<lambda>_.
     rbind (store_check e ts fs) (\<lambda>_.
     rbind (canonical_json (obj content)) (\<lambda>bs.
     let envelope = obj (content @ [(''sha256'', JStr (sha256_hex bs))]) in
     rbind (canonical_json envelope) (\<lambda>raw.
     rbind (require (int (length raw) \<le> maximum) (Error ''state_budget_exceeded'')) (\<lambda>_.
     Inr (envelope, raw)))))))"

text \<open>\<open>except Exception\<close> does not catch a keyboard interrupt.\<close>

definition interrupt :: exn where
  "interrupt = PyError ''KeyboardInterrupt''"

definition path_exists :: "node \<Rightarrow> path \<Rightarrow> bool" where
  "path_exists fs p = (case lookup fs p of None \<Rightarrow> False | Some (LinkN None) \<Rightarrow> False | Some n \<Rightarrow> True)"

definition drop_temp :: "env \<Rightarrow> path \<Rightarrow> node \<Rightarrow> node" where
  "drop_temp e p fs = (if env_unlink e then case remove_node (env_world e) p fs of None \<Rightarrow> fs | Some fs1 \<Rightarrow> fs1 else fs)"

text \<open>The handler of \<open>_commit\<close>: what the file now holds decides which error is raised.\<close>

definition classify :: "json result \<Rightarrow> byte list \<Rightarrow> int \<Rightarrow> exn" where
  "classify observed raw revision = (case observed of
     Inl x \<Rightarrow> Error ''storage_reconcile_required''
   | Inr v \<Rightarrow>
       if int_of (fld ''revision'' v) = revision \<and> canonical_json v = Inr raw then Error ''storage_durability_unknown''
       else if int_of (fld ''revision'' v) < revision then Error ''storage_write_failed''
       else Error ''storage_reconcile_required'')"

definition commit_failed :: "env \<Rightarrow> task_store \<Rightarrow> path \<Rightarrow> path \<Rightarrow> byte list \<Rightarrow> int \<Rightarrow> exn \<Rightarrow> (node, unit) io" where
  "commit_failed e ts p temporary raw revision x fs =
     (if x = interrupt then (Inl x, fs)
      else let observed = (if path_exists fs p then store_read e ts p fs else Inl (Error [])) in
        case observed of
          Inl (PyError n) \<Rightarrow> (Inl (PyError n), fs)
        | _ \<Rightarrow> (Inl (classify observed raw revision), drop_temp e temporary fs))"

text \<open>
  \<open>_commit\<close>: a temporary file beside the target, written and synchronised, then moved over it. The
  fault of the environment says which system call fails.
\<close>

definition store_commit :: "env \<Rightarrow> task_store \<Rightarrow> path \<Rightarrow> byte list \<Rightarrow> int \<Rightarrow> (node, unit) io" where
  "store_commit e ts p raw revision =
     io_bind (io_ask (require_writer e ts)) (\<lambda>_.
     let d = butlast p; name = u ''.state-'' @ env_fresh e @ u ''.tmp''; temporary = d @ [name]; w = env_world e in
     (\<lambda>fs.
       case env_fault e of
         Open_Fault x \<Rightarrow> (Inl x, fs)
       | Write_Fault k x \<Rightarrow>
           (case put_node w temporary (new_file e temporary (take k raw)) fs of
              None \<Rightarrow> (Inl (PyError ''OSError''), fs)
            | Some fs1 \<Rightarrow> commit_failed e ts p temporary raw revision x fs1)
       | _ \<Rightarrow>
           (case put_node w temporary (new_file e temporary raw) fs of
              None \<Rightarrow> (Inl (PyError ''OSError''), fs)
            | Some fs1 \<Rightarrow>
                (case require_writer e ts fs1 of
                   Inl x \<Rightarrow> commit_failed e ts p temporary raw revision x fs1
                 | Inr _ \<Rightarrow>
                     (case env_fault e of
                        Move_Fault x \<Rightarrow> commit_failed e ts p temporary raw revision x fs1
                      | _ \<Rightarrow>
                          (case move_node w True d name (last p) fs1 of
                             None \<Rightarrow> commit_failed e ts p temporary raw revision (PyError ''OSError'') fs1
                           | Some fs2 \<Rightarrow>
                               (case env_fault e of
                                  Sync_Fault x \<Rightarrow> commit_failed e ts p temporary raw revision x fs2
                                | _ \<Rightarrow> (Inr (), fs2))))))))"

definition store_create :: "env \<Rightarrow> task_store \<Rightarrow> json \<Rightarrow> json \<Rightarrow> json \<Rightarrow> (node, json) io" where
  "store_create e ts transfer_id binding_v state =
     io_bind (io_ask (require_writer e ts)) (\<lambda>_.
     io_bind (io_lift (store_transfer_id (env_ucd e) transfer_id)) (\<lambda>name.
     io_bind (io_lift (store_binding (store_policy ts) binding_v)) (\<lambda>bound.
     io_bind (io_ask (\<lambda>fs. Inr (lookup fs (store_root ts @ [u ''tasks'', name]) \<noteq> None))) (\<lambda>present.
     if present then store_load e ts (JStr name) bound
     else
       io_bind (io_ask (store_encode e ts (JStr name) bound 0 state)) (\<lambda>(envelope, raw).
       io_bind (state_path e ts True (JStr name)) (\<lambda>p.
       io_bind (store_commit e ts p raw 0) (\<lambda>_.
       io_lift (Inr envelope))))))))"

definition store_save :: "env \<Rightarrow> task_store \<Rightarrow> json \<Rightarrow> json \<Rightarrow> json \<Rightarrow> json \<Rightarrow> (node, json) io" where
  "store_save e ts transfer_id binding_v expected_revision state =
     io_bind (io_ask (require_writer e ts)) (\<lambda>_.
     io_bind (io_lift (require (is_count expected_revision) (Error ''invalid_revision''))) (\<lambda>_.
     io_bind (store_load e ts transfer_id binding_v) (\<lambda>existing.
     io_bind (io_lift (require (fld ''revision'' existing = expected_revision) (Error ''stale_revision''))) (\<lambda>_.
     let revision = int_of expected_revision + 1 in
     io_bind (io_lift (store_transfer_id (env_ucd e) transfer_id)) (\<lambda>name.
     io_bind (io_lift (store_binding (store_policy ts) binding_v)) (\<lambda>bound.
     io_bind (io_ask (store_encode e ts (JStr name) bound revision state)) (\<lambda>(envelope, raw).
     io_bind (state_path e ts False transfer_id) (\<lambda>p.
     io_bind (store_commit e ts p raw revision) (\<lambda>_.
     io_lift (Inr envelope))))))))))"

section \<open>Reading leaves the disk alone\<close>

lemma ensure_dir_keeps: "ensure_dir e ts False p fs = (r, fs') \<Longrightarrow> fs' = fs"
  by (auto simp: ensure_dir_def io_bind_def io_ask_def split: prod.splits sum.splits if_splits)

lemma ensure_dir_iff:
  "ensure_dir e ts False p fs = (Inr (), fs') \<longleftrightarrow> fs' = fs \<and> lookup fs p \<noteq> None \<and>
     safe_chain (env_ucd e) fs p (store_root ts) False = Inr () \<and> store_private fs p = Inr ()"
  by (auto simp: ensure_dir_def io_iff)

lemma state_path_keeps: "state_path e ts False t fs = (r, fs') \<Longrightarrow> fs' = fs"
  by (auto simp: state_path_def task_dir_def io_bind_def io_ask_def io_lift_def Let_def dest: ensure_dir_keeps split: prod.splits sum.splits)

definition task_place :: "task_store \<Rightarrow> pystr \<Rightarrow> path" where
  "task_place ts name = store_root ts @ [u ''tasks'', name]"

definition state_place :: "task_store \<Rightarrow> pystr \<Rightarrow> path" where
  "state_place ts name = task_place ts name @ [u ''state.json'']"

definition task_ready :: "env \<Rightarrow> task_store \<Rightarrow> pystr \<Rightarrow> node \<Rightarrow> bool" where
  "task_ready e ts name fs \<longleftrightarrow> store_check e ts fs = Inr () \<and>
     (\<forall>p \<in> {store_root ts @ [u ''tasks''], task_place ts name}. lookup fs p \<noteq> None \<and>
       safe_chain (env_ucd e) fs p (store_root ts) False = Inr () \<and> store_private fs p = Inr ())"

lemma state_path_iff:
  "state_path e ts False t fs = (Inr p, fs') \<longleftrightarrow>
     (\<exists>name. store_transfer_id (env_ucd e) t = Inr name \<and> task_ready e ts name fs \<and> p = state_place ts name \<and> fs' = fs)"
  by (auto simp: state_path_def task_dir_def io_iff ensure_dir_iff Let_def task_ready_def state_place_def task_place_def)

lemma store_load_keeps: "store_load e ts t b fs = (r, fs') \<Longrightarrow> fs' = fs"
  by (auto simp: store_load_def io_bind_def io_ask_def io_lift_def dest: state_path_keeps split: prod.splits sum.splits)

lemma catch_error_Inr: "catch_error r c = Inr x \<longleftrightarrow> r = Inr x"
  by (auto simp: catch_error_def split: sum.splits exn.splits)

lemma store_transfer_id_iff: "store_transfer_id ucd t = Inr name \<longleftrightarrow> t = JStr name \<and> is_identifier t \<and> safe_name ucd name"
  by (auto simp: store_transfer_id_def result_iff catch_error_Inr)

definition binding_fits :: "policy \<Rightarrow> json \<Rightarrow> bool" where
  "binding_fits pol b \<longleftrightarrow> has_keys b store_binding_keys \<and> is_digest (fld ''request_digest'' b) \<and>
     fld ''policy_id'' b = JStr (policy_id pol) \<and> fld ''vm_uuid'' b = JStr (expected_vm_uuid pol) \<and>
     list_all (\<lambda>k. is_text 256 (fld k b)) [''vm_uuid'', ''boot_identity'', ''vm_epoch'']"

lemma store_binding_iff: "store_binding pol b = Inr c \<longleftrightarrow> c = b \<and> binding_fits pol b"
  by (auto simp: store_binding_def binding_fits_def result_iff)

lemma store_load_iff:
  "store_load e ts t b fs = (Inr v, fs') \<longleftrightarrow>
     (\<exists>name. store_transfer_id (env_ucd e) t = Inr name \<and> binding_fits (store_policy ts) b \<and> task_ready e ts name fs \<and>
       lookup fs (state_place ts name) \<noteq> None \<and> store_read e ts (state_place ts name) fs = Inr v \<and>
       fld ''transfer_id'' v = JStr name \<and> py_eq (fld ''binding'' v) b \<and> fs' = fs)"
  by (simp add: store_load_def io_iff state_path_iff store_binding_iff result_iff) (auto simp: store_transfer_id_iff)

section \<open>What a commit changes\<close>

definition temp_name :: "env \<Rightarrow> pystr" where
  "temp_name e = u ''.state-'' @ env_fresh e @ u ''.tmp''"

lemma temp_name_state [simp]: "temp_name e \<noteq> u ''state.json''"
  by (simp add: temp_name_def u_def)

lemma commit_failed_Inl: "commit_failed e ts p t raw n x fs \<noteq> (Inr (), fs')"
  by (auto simp: commit_failed_def Let_def split: if_splits sum.splits exn.splits)

lemma store_commit_ok:
  assumes "store_commit e ts (d @ [x]) raw n fs = (Inr (), fs')"
  shows "\<exists>fs1. put_node (env_world e) (d @ [temp_name e]) (new_file e (d @ [temp_name e]) raw) fs = Some fs1 \<and>
    move_node (env_world e) True d (temp_name e) x fs1 = Some fs'"
  using assms commit_failed_Inl
  by (auto simp: store_commit_def io_bind_def io_ask_def Let_def temp_name_def [symmetric] split: sum.splits fault.splits option.splits)

lemma new_file_stat: "\<exists>st. new_file e p bs = FileN st bs \<and> st_size st = int (length bs) \<and> st_mode st = 384 \<and> st_nlink st = 1"
  by (simp add: new_file_def)

lemma agree_private: "agree fs fs' p \<Longrightarrow> store_private fs p = Inr () \<Longrightarrow> store_private fs' p = Inr ()"
proof -
  assume a: "agree fs fs' p" and p: "store_private fs p = Inr ()"
  then obtain n st where "lookup fs p = Some n" "node_stat n = Some st" "st_mode st mod 64 = 0"
    by (auto simp: store_private_def result_iff stat_of_iff)
  with agree_at [OF a] obtain n' st' where "lookup fs' p = Some n'" "node_stat n' = Some st'" "core st' = core st"
    using alike_stat by metis
  then show ?thesis using \<open>st_mode st mod 64 = 0\<close> by (auto simp: store_private_def result_iff stat_of_iff core_def)
qed

definition watched :: "policy \<Rightarrow> path set" where
  "watched pol = insert (policy_path pol) (insert (work_root pol) (fst ` set (root_identities pol)))"

lemma agree_store_check: "(\<And>p. p \<in> watched (store_policy ts) \<Longrightarrow> agree fs fs' p) \<Longrightarrow> store_check e ts fs = Inr () \<Longrightarrow> store_check e ts fs' = Inr ()"
  unfolding store_check_def rbind_Inr_iff by (metis agree_revalidate watched_def insert_iff list.set(2) list.set_map set_ConsD)

lemma watched_exist: "store_check e ts fs = Inr () \<Longrightarrow> p \<in> watched (store_policy ts) \<Longrightarrow> lookup fs p \<noteq> None"
  and roots_are_directories: "store_check e ts fs = Inr () \<Longrightarrow> p \<in> fst ` set (root_identities (store_policy ts)) \<Longrightarrow> \<exists>st kids. lookup fs p = Some (DirN st kids)"
proof -
  assume check: "store_check e ts fs = Inr ()"
  then have re: "revalidate (env_ucd e) fs (env_euid e) (store_policy ts) = Inr ()" by (auto simp: store_check_def result_iff)
  show roots: "\<exists>st kids. lookup fs p = Some (DirN st kids)" if "p \<in> fst ` set (root_identities (store_policy ts))" for p
  proof -
    from that obtain ri where ri: "ri \<in> set (root_identities (store_policy ts))" "p = fst ri" by blast
    with re have "check_root (env_ucd e) fs ri = Inr ()" unfolding revalidate_iff for_each_Inr_iff by blast
    then show ?thesis using ri(2) unfolding check_root_def rbind_Inr_iff dir_identity_iff by blast
  qed
  assume "p \<in> watched (store_policy ts)"
  then consider "p \<in> fst ` set (root_identities (store_policy ts))" | "p = policy_path (store_policy ts)" | "p = work_root (store_policy ts)"
    by (auto simp: watched_def)
  then show "lookup fs p \<noteq> None"
  proof cases
    case 1
    then show ?thesis using roots by force
  qed (use re in \<open>auto simp: revalidate_iff protected_iff\<close>)
qed

section \<open>Saving and loading\<close>

lemma dget_sort_json: "wf_json v \<Longrightarrow> dget k (sort_json v) = map_option sort_json (dget k v)"
  by (cases v) (auto simp: sorted_values_map_of)

lemma wf_fld: "wf_json v \<Longrightarrow> wf_json (fld k v)"
  by (cases v) (auto simp: fld_def list_all_iff dest: map_of_SomeD split: option.splits)

lemma py_eq_leaf_sort: "is_str v \<or> is_int v \<or> is_digest v \<or> is_count v \<or> is_nonempty_str v \<Longrightarrow> py_eq (sort_json v) (sort_json w) = py_eq v w"
  by (cases v; cases w) (auto simp: is_count_def)

lemma truthy_sort [simp]: "truthy (sort_json v) = truthy v"
proof (cases v)
  case (JFloat f)
  then show ?thesis by simp
qed (auto, (metis length_0_conv length_map length_sort)+)

lemma sort_json_nonempty [simp]: "is_nonempty_str (sort_json v) = is_nonempty_str v"
  by (cases v) auto

lemma prefix_verification_sort:
  assumes "wf_json proof_v" and "wf_json worker" and "validate_prefix_verification proof_v digest offset worker n = Inr ()"
  shows "validate_prefix_verification (sort_json proof_v) (sort_json digest) (sort_json offset) (sort_json worker) (sort_json n) = Inr ()"
  using assms
  by (auto simp: validate_prefix_verification_def check_object_def check_digest_def result_iff fld_sort_json py_eq_leaf_sort)

lemma guest_prefix_sort:
  assumes wf: "wf_json state" and ok: "guest_prefix state = Inr ()"
  shows "guest_prefix (sort_json state) = Inr ()"
proof (cases "is_obj state \<and> is_obj (fld ''request'' state) \<and> dget ''offset'' state \<noteq> None")
  case True
  then show ?thesis
    using ok wf prefix_verification_sort [of "fld ''prefix_verification'' state" "fld ''owner'' state"]
    by (auto simp: guest_prefix_def item_def result_iff Let_def dget_sort_json fld_sort_json wf_fld split: option.splits if_splits)
qed (use wf in \<open>auto simp: guest_prefix_def dget_sort_json fld_sort_json\<close>)

lemma dumpable_no_nan: "dumpable v \<Longrightarrow> no_nan v"
  by (induction v rule: json_induct) (auto simp: list_all_iff split: pyfloat.splits)

definition envelope_fields :: "task_store \<Rightarrow> json \<Rightarrow> json \<Rightarrow> int \<Rightarrow> json \<Rightarrow> (string \<times> json) list" where
  "envelope_fields ts t b n s = [(''schema'', state_schema), (''transfer_id'', t), (''binding'', b), (''revision'', JInt n),
     (''state'', s), (''owner'', store_owner ts)]"

lemma store_encode_iff:
  "store_encode e ts t b n s fs = Inr (v, raw) \<longleftrightarrow> guest_prefix s = Inr () \<and>
     validate_json (nat (limit_of ts ''max_state_bytes'')) (obj (envelope_fields ts t b n s @ [(''sha256'', JStr (replicate 64 48))])) = Inr () \<and>
     store_check e ts fs = Inr () \<and> (\<exists>bs. canonical_json (obj (envelope_fields ts t b n s)) = Inr bs \<and>
       v = obj (envelope_fields ts t b n s @ [(''sha256'', JStr (sha256_hex bs))])) \<and>
     canonical_json v = Inr raw \<and> int (length raw) \<le> limit_of ts ''max_state_bytes''"
  by (auto simp: store_encode_def envelope_fields_def result_iff Let_def)

lemma store_read_iff:
  "store_read e ts p fs = Inr v \<longleftrightarrow> store_check e ts fs = Inr () \<and> safe_chain (env_ucd e) fs p (store_root ts) False = Inr () \<and>
     store_private fs p = Inr () \<and> (\<exists>st bs x. lookup fs p = Some (FileN st bs) \<and> st_size st = int (length bs) \<and>
       int (length bs) \<le> limit_of ts ''max_state_bytes'' \<and> parse_envelope e bs = Inr x \<and>
       validate_json (nat (limit_of ts ''max_state_bytes'')) x = Inr () \<and> check_envelope x bs = Inr v)"
  by (cases "lookup fs p"; cases "the (lookup fs p)") (auto simp: store_read_def no_link_def result_iff Let_def)

text \<open>Writing the state file of a task leaves everything that the store checks in place.\<close>

lemma install_keeps_task:
  assumes calm: "calm w" and put: "put_node w (task_place ts name @ [t]) child fs = Some fs1"
    and mv: "move_node w True (task_place ts name) t (u ''state.json'') fs1 = Some fs2"
    and ready: "task_ready e ts name fs" and old: "lookup fs (state_place ts name) = Some (FileN st bs)"
    and pol: "policy_path (store_policy ts) \<noteq> state_place ts name"
  shows "task_ready e ts name fs2"
proof -
  have ag: "agree fs fs2 p" if "lookup fs p \<noteq> None" "p \<noteq> state_place ts name" for p
    using install_agree [OF calm put mv _ that(1)] old that(2) by (auto simp: state_place_def)
  have check: "store_check e ts fs = Inr ()" using ready by (simp add: task_ready_def)
  have "store_check e ts fs2 = Inr ()"
  proof (rule agree_store_check [OF _ check])
    fix p assume p: "p \<in> watched (store_policy ts)"
    have "p \<noteq> state_place ts name"
    proof -
      consider "p = policy_path (store_policy ts)" | "p = store_root ts" | "p \<in> fst ` set (root_identities (store_policy ts))"
        using p by (auto simp: watched_def store_root_def)
      then show ?thesis
      proof cases
        case 3
        then show ?thesis using roots_are_directories [OF check] old by force
      qed (use pol in \<open>auto simp: state_place_def task_place_def\<close>)
    qed
    then show "agree fs fs2 p" using ag watched_exist [OF check p] by blast
  qed
  moreover have "lookup fs2 p \<noteq> None \<and> safe_chain (env_ucd e) fs2 p (store_root ts) False = Inr () \<and> store_private fs2 p = Inr ()"
    if p: "p \<in> {store_root ts @ [u ''tasks''], task_place ts name}" for p
  proof -
    from p ready have r: "lookup fs p \<noteq> None" "safe_chain (env_ucd e) fs p (store_root ts) False = Inr ()" "store_private fs p = Inr ()"
      unfolding task_ready_def by blast+
    have "p \<noteq> state_place ts name" using p by (auto simp: state_place_def task_place_def)
    with ag r(1) have a: "agree fs fs2 p" by blast
    have "lookup fs2 p \<noteq> None" using agree_at [OF a] r(1) by (cases "lookup fs2 p"; cases "the (lookup fs p)") auto
    with agree_safe_chain [OF a r(2)] agree_private [OF a r(3)] show ?thesis by blast
  qed
  ultimately show ?thesis unfolding task_ready_def by blast
qed

lemma store_read_written:
  assumes ready: "task_ready e ts name fs" and new: "lookup fs (state_place ts name) = Some (new_file e q raw)"
    and names: "safe_name (env_ucd e) name" "safe_name (env_ucd e) (u ''tasks'')" "safe_name (env_ucd e) (u ''state.json'')"
    and enc: "store_encode e ts t b n s fs0 = Inr (v, raw)"
    and wf: "wf_json (obj (envelope_fields ts t b n s))" and fl: "floats_ok (env_pf e) (obj (envelope_fields ts t b n s))"
    and n: "0 \<le> n" and owner: "is_obj (store_owner ts)"
  shows "store_read e ts (state_place ts name) fs = Inr (sort_json v)"
proof -
  let ?fs = "envelope_fields ts t b n s" and ?m = "limit_of ts ''max_state_bytes''"
  from enc obtain bs where bs: "canonical_json (obj ?fs) = Inr bs" "v = obj (?fs @ [(''sha256'', JStr (sha256_hex bs))])"
    and raw: "canonical_json v = Inr raw" "int (length raw) \<le> ?m"
    and acc: "validate_json (nat ?m) (obj (?fs @ [(''sha256'', JStr (replicate 64 48))])) = Inr ()" and gp: "guest_prefix s = Inr ()"
    by (auto simp: store_encode_iff)
  have keys: "''sha256'' \<notin> fst ` set ?fs" by (simp add: envelope_fields_def)
  have hex: "is_hex64 (sha256_hex bs)" by simp
  have wfv: "wf_json v" "floats_ok (env_pf e) v" using wf_sealed [OF wf keys hex] fl by (simp_all add: bs(2) floats_sealed)
  have read: "parse_envelope e raw = Inr (sort_json v)"
    using loads_with_object [OF raw(1) wfv] by (simp add: parse_envelope_def bs(2))
  have acc': "validate_json (nat ?m) (sort_json v) = Inr ()"
    using validate_json_sorted [OF wfv(1)] sealed_accounted [OF acc hex] bs(2) by simp
  have f: "fld k v = (case map_of ?fs k of None \<Rightarrow> JNull | Some w \<Rightarrow> w)" if "k \<noteq> ''sha256''" for k
    using that by (simp add: bs(2) map_add_def split: option.splits)
  have sha: "fld ''sha256'' v = JStr (sha256_hex bs)" unfolding bs(2) by (rule fld_sealed [OF keys])
  have wos: "canonical_json (without [''sha256''] (sort_json v)) = Inr bs"
    by (simp add: without_sort bs without_sealed [OF keys])
  have wfs: "wf_json s" using wf by (simp add: envelope_fields_def wf_json_obj)
  have keys_v: "has_keys v envelope_keys"
    by (simp add: bs(2) envelope_fields_def envelope_keys_def same_set_def)
  have "fld ''state'' (sort_json v) = sort_json s" "fld ''revision'' (sort_json v) = JInt n" "fld ''schema'' (sort_json v) = state_schema"
    "is_obj (fld ''owner'' (sort_json v))" "fld ''sha256'' (sort_json v) = JStr (sha256_hex bs)"
    using owner by (simp_all add: fld_sort_json [OF wfv(1)] f sha envelope_fields_def state_schema_def)
  then have chk: "check_envelope (sort_json v) raw = Inr (sort_json v)"
    using keys_v wos raw(1) guest_prefix_sort [OF wfs gp] n by (simp add: check_envelope_def is_count_def)
  obtain st where st: "new_file e q raw = FileN st raw" "st_size st = int (length raw)" "st_mode st = 384" using new_file_stat by blast
  have d: "linkless fs (task_place ts name)" using ready by (auto simp: task_ready_def safe_chain_iff)
  then have "safe_chain (env_ucd e) fs (state_place ts name) (store_root ts) False = Inr ()"
    using new st(1) names by (auto simp: safe_chain_iff state_place_def linkless_snoc) (simp_all add: task_place_def is_prefix_def)
  moreover have "store_private fs (state_place ts name) = Inr ()"
    using new st by (simp add: store_private_def stat_of_def no_link_def)
  moreover have "no_link fs (state_place ts name) = Inr (FileN st raw)" using new st(1) by (simp add: no_link_def)
  ultimately show ?thesis
    using ready read acc' chk st(2) raw(2) by (simp add: store_read_def task_ready_def Let_def)
qed

lemma store_save_parts:
  assumes "store_save e ts t b r s fs = (Inr v, fs')"
  shows "\<exists>name existing raw fs1. store_load e ts t b fs = (Inr existing, fs) \<and> fld ''revision'' existing = r \<and> is_count r \<and>
     t = JStr name \<and> safe_name (env_ucd e) name \<and> require_writer e ts fs = Inr () \<and>
     store_encode e ts t b (int_of r + 1) s fs = Inr (v, raw) \<and>
     put_node (env_world e) (task_place ts name @ [temp_name e]) (new_file e (task_place ts name @ [temp_name e]) raw) fs = Some fs1 \<and>
     move_node (env_world e) True (task_place ts name) (temp_name e) (u ''state.json'') fs1 = Some fs'"
proof -
  from assms obtain existing fsx name raw p fsy where
    load: "store_load e ts t b fs = (Inr existing, fsx)" and r: "fld ''revision'' existing = r" "is_count r"
    and w: "require_writer e ts fs = Inr ()" and t: "store_transfer_id (env_ucd e) t = Inr name"
    and enc: "store_encode e ts (JStr name) b (int_of r + 1) s fsx = Inr (v, raw)"
    and p: "state_path e ts False t fsx = (Inr p, fsy)" and commit: "store_commit e ts p raw (int_of r + 1) fsy = (Inr (), fs')"
    by (auto simp: store_save_def io_iff Let_def result_iff store_binding_iff)
  have fsx: "fsx = fs" using store_load_keeps [OF load] .
  with p t have "fsy = fs" "p = task_place ts name @ [u ''state.json'']" by (auto simp: state_path_iff state_place_def)
  with store_commit_ok commit obtain fs1 where
    "put_node (env_world e) (task_place ts name @ [temp_name e]) (new_file e (task_place ts name @ [temp_name e]) raw) fs = Some fs1"
    "move_node (env_world e) True (task_place ts name) (temp_name e) (u ''state.json'') fs1 = Some fs'" by blast
  with load r w t enc fsx show ?thesis by (auto simp: store_transfer_id_iff)
qed

lemma store_save_loads:
  assumes calm: "calm (env_world e)" and save: "store_save e ts t b r s fs = (Inr v, fs')"
    and pol: "\<And>name. t = JStr name \<Longrightarrow> policy_path (store_policy ts) \<noteq> state_place ts name"
    and wf: "wf_json (obj (envelope_fields ts t b n s))" and fl: "floats_ok (env_pf e) (obj (envelope_fields ts t b n s))"
    and owner: "is_obj (store_owner ts)"
  shows "store_load e ts t b fs' = (Inr (sort_json v), fs') \<and> fld ''revision'' v = JInt (int_of r + 1) \<and> fld ''state'' v = s"
proof -
  from store_save_parts [OF save] obtain name existing raw fs1 where
    load: "store_load e ts t b fs = (Inr existing, fs)" and r: "fld ''revision'' existing = r" "is_count r" and t: "t = JStr name" "safe_name (env_ucd e) name"
    and enc: "store_encode e ts t b (int_of r + 1) s fs = Inr (v, raw)"
    and put: "put_node (env_world e) (task_place ts name @ [temp_name e]) (new_file e (task_place ts name @ [temp_name e]) raw) fs = Some fs1"
    and mv: "move_node (env_world e) True (task_place ts name) (temp_name e) (u ''state.json'') fs1 = Some fs'" by blast
  from load t(1) have tid: "store_transfer_id (env_ucd e) t = Inr name" and fits: "binding_fits (store_policy ts) b"
    and ready: "task_ready e ts name fs" and read: "store_read e ts (state_place ts name) fs = Inr existing"
    by (auto simp: store_load_iff store_transfer_id_iff)
  from read obtain st bs where old: "lookup fs (state_place ts name) = Some (FileN st bs)" and chain: "safe_chain (env_ucd e) fs (state_place ts name) (store_root ts) False = Inr ()"
    by (auto simp: store_read_iff)
  from chain have names: "safe_name (env_ucd e) (u ''tasks'')" "safe_name (env_ucd e) (u ''state.json'')"
    by (auto simp: safe_chain_iff state_place_def task_place_def)
  have ready': "task_ready e ts name fs'" using install_keeps_task [OF calm put mv ready old] pol t(1) by blast
  have new: "lookup fs' (state_place ts name) = Some (new_file e (task_place ts name @ [temp_name e]) raw)"
    using move_node_lookup(1) [OF mv] put_node_lookup(1) [OF put] by (simp add: state_place_def)
  have env: "envelope_fields ts t b (int_of r + 1) s = (''schema'', state_schema) # (''transfer_id'', t) # (''binding'', b) # (''revision'', JInt (int_of r + 1)) #
      [(''state'', s), (''owner'', store_owner ts)]" by (simp add: envelope_fields_def)
  have wf': "wf_json (obj (envelope_fields ts t b (int_of r + 1) s))" "floats_ok (env_pf e) (obj (envelope_fields ts t b (int_of r + 1) s))"
    using wf fl by (auto simp: envelope_fields_def wf_json_obj) (simp_all add: obj_def)
  have pos: "0 \<le> int_of r + 1" using r(2) by (cases r) (auto simp: is_count_def)
  have read': "store_read e ts (state_place ts name) fs' = Inr (sort_json v)"
    by (rule store_read_written [OF ready' new t(2) names enc wf' pos owner])
  from enc obtain h where v: "v = obj (envelope_fields ts t b (int_of r + 1) s @ [(''sha256'', JStr h)])" and can: "canonical_json v = Inr raw"
    by (auto simp: store_encode_iff)
  have wfv: "wf_json b" using wf by (simp add: envelope_fields_def wf_json_obj)
  have "dumpable b" using can by (simp add: v canonical_json_Inr envelope_fields_def obj_def)
  then have bind: "py_eq (sort_json b) b" using py_eq_sort [OF wfv] dumpable_no_nan by blast
  have wv: "wf_json v"
  proof -
    have "is_hex64 h" using enc v by (auto simp: store_encode_iff envelope_fields_def obj_def)
    then show ?thesis using wf_sealed [OF wf'(1), of "''sha256''" h] by (simp add: v envelope_fields_def)
  qed
  have "fld ''transfer_id'' (sort_json v) = JStr name" "fld ''binding'' (sort_json v) = sort_json b"
    unfolding fld_sort_json [OF wv] by (simp_all add: v envelope_fields_def t(1))
  then have "store_load e ts t b fs' = (Inr (sort_json v), fs')"
    using tid fits ready' read' new bind by (auto simp: store_load_iff)
  then show ?thesis by (simp add: v envelope_fields_def)
qed

section \<open>Atomic commits\<close>

definition kept :: "node \<Rightarrow> node \<Rightarrow> bool" where
  "kept fs fs' \<longleftrightarrow> (\<forall>p. lookup fs p \<noteq> None \<longrightarrow> agree fs fs' p)"

lemma kept_refl [simp]: "kept fs fs"
  by (simp add: kept_def)

lemma kept_put: "calm w \<Longrightarrow> put_node w (d @ [t]) child fs = Some fs1 \<Longrightarrow> kept fs fs1"
  unfolding kept_def
proof (intro allI impI)
  fix p assume a: "calm w" "put_node w (d @ [t]) child fs = Some fs1" "lookup fs p \<noteq> None"
  then have "\<not> within [t] d p" using lookup_below_missing [OF _ put_node_lookup(2) [OF a(2)], of p] by (auto simp: within_def)
  with a show "agree fs fs1 p" using put_node_agree by blast
qed

lemma kept_drop:
  assumes "calm (env_world e)" and put: "put_node (env_world e) (d @ [t]) child fs = Some fs1"
  shows "kept fs (drop_temp e (d @ [t]) fs1)"
  unfolding kept_def
proof (intro allI impI)
  fix p assume p: "lookup fs p \<noteq> None"
  then have w: "\<not> within [t] d p" using lookup_below_missing [OF _ put_node_lookup(2) [OF put], of p] by (auto simp: within_def)
  then have "agree fs fs1 p" using put_node_agree assms by blast
  moreover have "agree fs1 (drop_temp e (d @ [t]) fs1) p"
    using remove_node_agree [OF assms(1) _ w] by (auto simp: drop_temp_def split: option.splits)
  ultimately show "agree fs (drop_temp e (d @ [t]) fs1) p" by (rule agree_trans)
qed

lemma alike_exists: "alike m n \<Longrightarrow> m \<noteq> None \<Longrightarrow> n \<noteq> None"
  by (cases "(m, n)" rule: alike.cases) auto

lemma kept_ready: "kept fs fs' \<Longrightarrow> task_ready e ts name fs \<Longrightarrow> task_ready e ts name fs'"
proof -
  assume k: "kept fs fs'" and r: "task_ready e ts name fs"
  have check: "store_check e ts fs = Inr ()" using r by (simp add: task_ready_def)
  have "store_check e ts fs' = Inr ()"
    by (rule agree_store_check [OF _ check]) (use k watched_exist [OF check] in \<open>auto simp: kept_def\<close>)
  moreover have "lookup fs' p \<noteq> None \<and> safe_chain (env_ucd e) fs' p (store_root ts) False = Inr () \<and> store_private fs' p = Inr ()"
    if "p \<in> {store_root ts @ [u ''tasks''], task_place ts name}" for p
  proof -
    from that r have p: "lookup fs p \<noteq> None" "safe_chain (env_ucd e) fs p (store_root ts) False = Inr ()" "store_private fs p = Inr ()"
      unfolding task_ready_def by blast+
    with k have a: "agree fs fs' p" by (simp add: kept_def)
    show ?thesis using alike_exists [OF agree_at [OF a] p(1)] agree_safe_chain [OF a p(2)] agree_private [OF a p(3)] by blast
  qed
  ultimately show ?thesis unfolding task_ready_def by blast
qed

lemma kept_read: "kept fs fs' \<Longrightarrow> store_read e ts p fs = Inr v \<Longrightarrow> store_read e ts p fs' = Inr v"
proof -
  assume k: "kept fs fs'" and r: "store_read e ts p fs = Inr v"
  from r obtain st bs where f: "lookup fs p = Some (FileN st bs)" by (auto simp: store_read_iff)
  with k have a: "agree fs fs' p" by (simp add: kept_def)
  from agree_at [OF this] f have f': "lookup fs' p = Some (FileN st bs)" by (simp add: alike_file)
  have check: "store_check e ts fs = Inr ()" using r by (simp add: store_read_iff)
  have "store_check e ts fs' = Inr ()"
    by (rule agree_store_check [OF _ check]) (use k watched_exist [OF check] in \<open>auto simp: kept_def\<close>)
  with r f f' agree_safe_chain [OF a] agree_private [OF a] show ?thesis unfolding store_read_iff by auto
qed

lemma kept_writer: "kept fs fs' \<Longrightarrow> require_writer e ts fs = Inr () \<Longrightarrow> \<exists>st bs. lookup fs (lock_path ts) = Some (FileN st bs) \<Longrightarrow> require_writer e ts fs' = Inr ()"
proof -
  assume k: "kept fs fs'" and r: "require_writer e ts fs = Inr ()" and "\<exists>st bs. lookup fs (lock_path ts) = Some (FileN st bs)"
  then obtain st bs where f: "lookup fs (lock_path ts) = Some (FileN st bs)" by blast
  with k have "agree fs fs' (lock_path ts)" by (simp add: kept_def)
  from agree_at [OF this] f have f': "lookup fs' (lock_path ts) = Some (FileN st bs)" by (simp add: alike_file)
  have check: "store_check e ts fs = Inr ()" using r by (auto simp: require_writer_def result_iff)
  have "store_check e ts fs' = Inr ()"
    by (rule agree_store_check [OF _ check]) (use k watched_exist [OF check] in \<open>auto simp: kept_def\<close>)
  with r f f' show ?thesis by (auto simp: require_writer_def result_iff stat_of_iff)
qed

text \<open>System calls fail with an \<open>OSError\<close>, or a keyboard interrupt arrives.\<close>

fun os_fault :: "fault \<Rightarrow> bool" where
  "os_fault No_Fault = True"
| "os_fault (Open_Fault x) = (x \<in> set [PyError ''OSError'', interrupt])"
| "os_fault (Write_Fault n x) = (x \<in> set [PyError ''OSError'', interrupt])"
| "os_fault (Move_Fault x) = (x \<in> set [PyError ''OSError'', interrupt])"
| "os_fault (Sync_Fault x) = (x \<in> set [PyError ''OSError'', interrupt])"

definition commit_says :: "unit result \<Rightarrow> bool \<Rightarrow> bool" where
  "commit_says r installed \<longleftrightarrow> (case r of
     Inr _ \<Rightarrow> installed
   | Inl x \<Rightarrow> (x = Error ''storage_durability_unknown'' \<and> installed) \<or> (x = Error ''storage_write_failed'' \<and> \<not> installed) \<or>
       (x = PyError ''OSError'' \<and> \<not> installed) \<or> x = interrupt)"

lemma commit_failed_old:
  assumes calm: "calm (env_world e)" and put: "put_node (env_world e) (d @ [t]) child fs = Some fs1"
    and read: "store_read e ts p fs = Inr old" and rev: "int_of (fld ''revision'' old) < n"
    and res: "commit_failed e ts p (d @ [t]) raw n x fs1 = (r, fs')"
  shows "(r = Inl x \<and> x = interrupt \<or> r = Inl (Error ''storage_write_failed'')) \<and> kept fs fs'"
proof -
  have r1: "store_read e ts p fs1 = Inr old" by (rule kept_read [OF kept_put [OF calm put] read])
  then have "path_exists fs1 p" by (auto simp: store_read_iff path_exists_def)
  with r1 rev res kept_drop [OF calm put] kept_put [OF calm put] show ?thesis
    by (auto simp: commit_failed_def classify_def split: if_splits)
qed

lemma commit_failed_new:
  assumes read: "store_read e ts p fs2 = Inr v" and raw: "canonical_json v = Inr raw" "fld ''revision'' v = JInt n"
    and gone: "lookup fs2 t = None" and t: "t \<noteq> []"
    and res: "commit_failed e ts p t raw n x fs2 = (r, fs')"
  shows "(r = Inl x \<and> x = interrupt \<or> r = Inl (Error ''storage_durability_unknown'')) \<and> fs' = fs2"
proof -
  have "path_exists fs2 p" using read by (auto simp: store_read_iff path_exists_def)
  moreover have "drop_temp e t fs2 = fs2"
  proof -
    have "remove_node (env_world e) t fs2 = None"
    proof (rule ccontr)
      assume "remove_node (env_world e) t fs2 \<noteq> None"
      then obtain f where "update_at (remove_kid (env_world e) (last t)) (butlast t) fs2 = Some f" by (auto simp: remove_node_def)
      from update_at_lookup [OF this] obtain m m' where "lookup fs2 (butlast t) = Some m" "remove_kid (env_world e) (last t) m = Some m'" by blast
      then obtain st kids where "lookup fs2 (butlast t) = Some (DirN st kids)" "map_of kids (last t) \<noteq> None"
        by (auto simp: remove_kid_def map_of_eq_None_iff split: node.splits if_splits)
      with lookup_snoc [of fs2 "butlast t" st kids "last t"] gone t show False by simp
    qed
    then show ?thesis by (simp add: drop_temp_def)
  qed
  ultimately show ?thesis using read raw res by (auto simp: commit_failed_def classify_def split: if_splits)
qed

text \<open>
  One commit over a readable older state: whatever call fails, the task afterwards reads either the
  old state or the new one, and the result says which.
\<close>

lemma store_commit_outcome:
  assumes calm: "calm (env_world e)" and os: "os_fault (env_fault e)"
    and ready: "task_ready e ts name fs" and read: "store_read e ts (state_place ts name) fs = Inr old"
    and rev: "int_of (fld ''revision'' old) < n" and n: "0 \<le> n" and writer: "require_writer e ts fs = Inr ()"
    and enc: "store_encode e ts t b n s fs = Inr (v, raw)"
    and name: "safe_name (env_ucd e) name" and pol: "policy_path (store_policy ts) \<noteq> state_place ts name"
    and wf: "wf_json (obj (envelope_fields ts t b n s))" "floats_ok (env_pf e) (obj (envelope_fields ts t b n s))"
    and owner: "is_obj (store_owner ts)"
    and commit: "store_commit e ts (state_place ts name) raw n fs = (r, fs')"
  shows "(commit_says r True \<and> task_ready e ts name fs' \<and> store_read e ts (state_place ts name) fs' = Inr (sort_json v)) \<or>
    (commit_says r False \<and> store_read e ts (state_place ts name) fs' = Inr old \<and> kept fs fs')"
proof -
  let ?w = "env_world e" and ?d = "task_place ts name" and ?p = "state_place ts name"
  let ?t = "?d @ [temp_name e]"
  have p: "butlast ?p = ?d" "last ?p = u ''state.json''" by (simp_all add: state_place_def)
  have old_side: ?thesis if "(r = Inl x \<and> x = interrupt \<or> r = Inl (Error ''storage_write_failed'')) \<and> kept fs fs'" for x
    using that kept_read [OF _ read] by (auto simp: commit_says_def)
  have unchanged: ?thesis if "r = Inl x" "x \<in> set [PyError ''OSError'', interrupt]" "fs' = fs" for x
    using that read by (auto simp: commit_says_def)
  have failed: ?thesis if "put_node ?w ?t child fs = Some fs1" "commit_failed e ts ?p ?t raw n x fs1 = (r, fs')" for child fs1 x
    using old_side [OF commit_failed_old [OF calm that(1) read rev that(2)]] .
  have moved: ?thesis if put: "put_node ?w ?t (new_file e ?t raw) fs = Some fs1" and mv: "move_node ?w True ?d (temp_name e) (u ''state.json'') fs1 = Some fs2"
    and res: "r = Inr () \<and> fs' = fs2 \<or> (\<exists>x. commit_failed e ts ?p ?t raw n x fs2 = (r, fs'))" for fs1 fs2
  proof -
    from read obtain st bs where o: "lookup fs ?p = Some (FileN st bs)" and chain: "safe_chain (env_ucd e) fs ?p (store_root ts) False = Inr ()"
      by (auto simp: store_read_iff)
    from chain have names: "safe_name (env_ucd e) (u ''tasks'')" "safe_name (env_ucd e) (u ''state.json'')"
      by (auto simp: safe_chain_iff state_place_def task_place_def)
    have ready2: "task_ready e ts name fs2" by (rule install_keeps_task [OF calm put mv ready o pol])
    have "lookup fs2 ?p = Some (new_file e ?t raw)"
      using move_node_lookup(1) [OF mv] put_node_lookup(1) [OF put] by (simp add: state_place_def)
    then have new: "store_read e ts ?p fs2 = Inr (sort_json v)"
      by (rule store_read_written [OF ready2 _ name names enc wf n owner])
    from enc obtain h where v: "v = obj (envelope_fields ts t b n s @ [(''sha256'', JStr h)])" and can: "canonical_json v = Inr raw" and h: "is_hex64 h"
      by (auto simp: store_encode_iff)
    have "wf_json v" using wf_sealed [OF wf(1), of "''sha256''" h] h by (simp add: v envelope_fields_def)
    then have rev': "fld ''revision'' (sort_json v) = JInt n" by (simp add: fld_sort_json) (simp add: v envelope_fields_def)
    have "lookup fs2 ?t = None" using move_node_lookup(2) [OF mv] by simp
    from res show ?thesis
    proof
      assume "r = Inr () \<and> fs' = fs2"
      then show ?thesis using new ready2 by (simp add: commit_says_def)
    next
      assume "\<exists>x. commit_failed e ts ?p ?t raw n x fs2 = (r, fs')"
      then obtain x where "commit_failed e ts ?p ?t raw n x fs2 = (r, fs')" by blast
      from commit_failed_new [OF new _ rev' \<open>lookup fs2 ?t = None\<close> _ this] can
      have "(r = Inl x \<and> x = interrupt \<or> r = Inl (Error ''storage_durability_unknown'')) \<and> fs' = fs2" by simp
      then show ?thesis using new ready2 by (auto simp: commit_says_def)
    qed
  qed
  note commit' = commit [unfolded store_commit_def Let_def p temp_name_def [symmetric], simplified io_bind_def io_ask_def writer, simplified]
  show ?thesis
  proof (cases "env_fault e")
    case (Open_Fault x)
    then show ?thesis using commit' os unchanged by auto
  next
    case (Write_Fault k x)
    then show ?thesis using commit' failed unchanged [of "PyError ''OSError''"] by (auto split: option.splits)
  next
    case No_Fault
    then show ?thesis using commit' failed moved unchanged [of "PyError ''OSError''"] by (fastforce split: option.splits sum.splits)
  next
    case (Move_Fault x)
    then show ?thesis using commit' failed unchanged [of "PyError ''OSError''"] by (auto split: option.splits sum.splits)
  next
    case (Sync_Fault x)
    then show ?thesis using commit' failed moved unchanged [of "PyError ''OSError''"] by (fastforce split: option.splits sum.splits)
  qed
qed

end
