(* ===== verification/Journal.thy ===== *)
theory Journal
  imports Store
begin

text \<open>
  The private host journal: \<open>src/velo_transfer/host_journal.py\<close>. The object with its file system is
  the record \<open>journal\<close>; every operation returns the journal it leaves. The descriptor of the held
  lock is the stat it reports.
\<close>

section \<open>Host identity\<close>

definition journal_schema :: json where
  "journal_schema = JStr (u ''velo.transfer.host-journal.v1'')"

definition immutable_facts :: "string list" where
  "immutable_facts = [''guest_request'', ''binding'', ''prepare_receipt'', ''source_validation_receipt'', ''publication_receipt'', ''publish_intent'']"

definition host_identity :: "json \<Rightarrow> json result" where
  "host_identity v =
     rbind (require (has_keys v [''machine_id'', ''boot_id'']) (Error ''invalid_host_identity'')) (\<lambda>_.
     rbind (require (case fld ''machine_id'' v of JStr s \<Rightarrow> length s = 32 \<and> list_all is_hex_digit s | _ \<Rightarrow> False) (Error ''invalid_host_identity'')) (\<lambda>_.
     rbind (require (is_uuid (fld ''boot_id'' v)) (Error ''invalid_host_identity'')) (\<lambda>_. Inr v)))"

text \<open>One fixed identity file, opened through links; at most 128 bytes of ASCII, one newline dropped.\<close>

definition fixed_text :: "node \<Rightarrow> path \<Rightarrow> pystr option" where
  "fixed_text fs p = (case (case lookup fs p of Some (LinkN (Some t)) \<Rightarrow> Some t | n \<Rightarrow> n) of
     Some (FileN st bs) \<Rightarrow>
       let raw = take 129 bs in
       if length raw \<le> 128 \<and> list_all (\<lambda>b. b < 128) raw
       then let s = map unat raw in Some (if s \<noteq> [] \<and> last s = 10 then butlast s else s) else None
   | _ \<Rightarrow> None)"

definition observe_host_identity :: "node \<Rightarrow> json result" where
  "observe_host_identity fs =
     (case (fixed_text fs [u ''etc'', u ''machine-id''], fixed_text fs [u ''proc'', u ''sys'', u ''kernel'', u ''random'', u ''boot_id'']) of
        (Some machine, Some boot) \<Rightarrow> host_identity (obj [(''machine_id'', JStr machine), (''boot_id'', JStr boot)])
      | _ \<Rightarrow> Inl (Error ''host_identity_unavailable''))"

section \<open>Files\<close>

text \<open>\<open>_identity\<close>: device, inode, size and modification time.\<close>

definition stat_identity :: "stat \<Rightarrow> int \<times> int \<times> int \<times> int" where
  "stat_identity st = (st_dev st, st_ino st, st_size st, st_mtime_ns st)"

definition finite_deadline :: "json \<Rightarrow> bool" where
  "finite_deadline v = (case v of JInt i \<Rightarrow> bit_length i \<le> 53 | JFloat (FloatNum neg m x) \<Rightarrow> True | _ \<Rightarrow> False)"

definition decode_state :: "(pystr \<Rightarrow> pyfloat) \<Rightarrow> byte list \<Rightarrow> int \<Rightarrow> json result" where
  "decode_state pf raw maximum =
     rbind (require (int (length raw) \<le> maximum) (Error ''state_budget_exceeded'')) (\<lambda>_.
     case rbind (decode_utf8 raw) (\<lambda>s.
       rbind (loads pf (unique_pairs (Error ''duplicate_state_key'')) (no_constant invalid_state) s) (\<lambda>v.
       rbind (validate_json (nat maximum) v) (\<lambda>_.
       rbind (canonical_json v) (\<lambda>bs.
       rbind (require (bs = raw) invalid_state) (\<lambda>_. Inr v))))) of
       Inr v \<Rightarrow> Inr v | Inl (Error c) \<Rightarrow> Inl (Error c) | Inl x \<Rightarrow> Inl invalid_state)"

definition untrusted :: exn where
  "untrusted = Error ''untrusted_ancestor''"

fun dir_stat_of :: "node option \<Rightarrow> stat option" where
  "dir_stat_of (Some (DirN st kids)) = Some st"
| "dir_stat_of n = None"

definition check_parent_chain :: "env \<Rightarrow> node \<Rightarrow> path \<Rightarrow> unit result" where
  "check_parent_chain e fs parent =
     (let chain = [] # map (\<lambda>i. take i parent) [1..<length parent] @ [parent];
          uid = env_euid e in
      rbind (for_each (\<lambda>p. require (case dir_stat_of (lookup fs p) of None \<Rightarrow> False | Some st \<Rightarrow> st_uid st \<in> set [0, uid]) untrusted) chain) (\<lambda>_.
      let sts = map (\<lambda>p. the (dir_stat_of (lookup fs p))) chain in
      rbind (for_each (\<lambda>(info, child). require (others_write info \<longrightarrow>
        st_uid info = 0 \<and> is_sticky info \<and> st_uid child = uid \<and> st_mode child mod 64 = 0) untrusted) (zip (butlast sts) (tl sts))) (\<lambda>_.
      require (\<not> others_write (last sts)) untrusted)))"

fun is_file_node :: "node \<Rightarrow> bool" where
  "is_file_node (FileN st bs) = True"
| "is_file_node n = False"

fun is_dir_node :: "node \<Rightarrow> bool" where
  "is_dir_node (DirN st kids) = True"
| "is_dir_node n = False"

definition private_stat :: "env \<Rightarrow> node \<Rightarrow> path \<Rightarrow> string \<Rightarrow> stat result" where
  "private_stat e fs p kind = (case lookup fs p of
     None \<Rightarrow> Inl (Error (kind @ ''_missing''))
   | Some n \<Rightarrow>
       (case node_stat n of
          None \<Rightarrow> Inl (Error (kind @ ''_unsafe''))
        | Some st \<Rightarrow>
            rbind (require (st_uid st = env_euid e \<and> st_mode st mod 64 = 0) (Error (kind @ ''_unsafe''))) (\<lambda>_.
            rbind (require (if kind \<in> set [''root'', ''tasks'', ''task'', ''evidence''] then is_dir_node n
              else is_file_node n \<and> st_nlink st = 1) (Error (kind @ ''_unsafe''))) (\<lambda>_. Inr st))))"

definition read_file :: "env \<Rightarrow> node \<Rightarrow> path \<Rightarrow> int \<Rightarrow> string \<Rightarrow> (byte list \<times> stat) result" where
  "read_file e fs p maximum kind =
     rbind (private_stat e fs p kind) (\<lambda>before.
     rbind (require (st_size before \<le> maximum) (Error (kind @ ''_budget_exceeded''))) (\<lambda>_.
     case lookup fs p of
       Some (FileN st bs) \<Rightarrow>
         rbind (require (int (length bs) \<le> maximum \<and> int (length bs) = st_size before) (Error (kind @ ''_budget_exceeded''))) (\<lambda>_.
         Inr (bs, before))
     | _ \<Rightarrow> Inl (Error (kind @ ''_unavailable''))))"

section \<open>Phase data\<close>

definition same_fact :: "json \<Rightarrow> json \<Rightarrow> string \<Rightarrow> unit result" where
  "same_fact previous data k =
     (if fld k previous \<noteq> JNull then
        rbind (require (dget k data \<noteq> None) (Error ''immutable_fact_changed'')) (\<lambda>_.
        rbind (canonical_json (fld k previous)) (\<lambda>a.
        rbind (canonical_json (fld k data)) (\<lambda>b.
        require (a = b) (Error ''immutable_fact_changed''))))
      else Inr ())"

text \<open>
  \<open>_phase_data\<close>. \<open>previous\<close> is the data of a stored state, which has been checked by this function
  itself, so that its keys are present.
\<close>

definition keeps_facts :: "json \<Rightarrow> json \<Rightarrow> unit result" where
  "keeps_facts previous data =
     rbind (require (truthy (fld ''published_ever'' previous) \<longrightarrow> truthy (fld ''published_ever'' data)) (Error ''published_fact_lost'')) (\<lambda>_.
     rbind (require (truthy (fld ''begin_attempted'' previous) \<longrightarrow> truthy (fld ''begin_attempted'' data)) (Error ''begin_fact_lost'')) (\<lambda>_.
     rbind (require (truthy (fld ''begin_attempted'' previous) \<longrightarrow> py_eq (fld ''channel'' previous) (fld ''channel'' data)) (Error ''channel_changed'')) (\<lambda>_.
     for_each (same_fact previous data) immutable_facts)))"

definition check_completion :: "json \<Rightarrow> unit result" where
  "check_completion data =
     (let completion = fld ''completion'' data in
      require (truthy (fld ''published_ever'' data) \<and> fld ''publication_receipt'' data \<noteq> JNull \<and>
        has_keys completion [''destination_verified'', ''guest_cleanup_complete'', ''host_cleanup_complete''] \<and>
        list_all (\<lambda>(k, v). v = JBool True) (items completion)) (Error ''completion_unproven''))"

definition phase_data :: "json \<Rightarrow> json option \<Rightarrow> bool \<Rightarrow> unit result" where
  "phase_data data previous initial =
     rbind (require (is_obj data \<and> str_in (fld ''phase'' data) result_phases) (Error ''invalid_phase'')) (\<lambda>_.
     rbind (for_each (\<lambda>k. require (is_bool (fld k data)) (Error ''invalid_journal_data'')) [''published_ever'', ''begin_attempted'']) (\<lambda>_.
     rbind (require (case dget ''last_phase'' data of None \<Rightarrow> True | Some v \<Rightarrow> str_in v result_phases) (Error ''invalid_phase'')) (\<lambda>_.
     let channel = fld ''channel'' data in
     rbind (require (channel = JNull \<or> str_in channel [''velo'', ''windows'']) (Error ''invalid_channel'')) (\<lambda>_.
     rbind (require (\<not> (truthy (fld ''begin_attempted'' data) \<and> channel = JNull)) (Error ''invalid_channel'')) (\<lambda>_.
     rbind (if initial
       then require (fld ''phase'' data = JStr (u ''CREATED'') \<and> \<not> truthy (fld ''published_ever'' data) \<and>
         \<not> truthy (fld ''begin_attempted'' data) \<and> channel = JNull) (Error ''invalid_initial_state'')
       else case previous of None \<Rightarrow> Inr () | Some old \<Rightarrow> keeps_facts old data) (\<lambda>_.
     if fld ''phase'' data = JStr (u ''COMPLETE'') then check_completion data else Inr ()))))))"

section \<open>The journal\<close>

record journal =
  j_request :: host_request
  j_limit :: int
  j_evidence_limit :: int
  j_max_evidence :: int
  j_max_duration :: int
  j_binding :: json
  j_lock :: "stat option"
  j_ids :: "(string \<times> (int \<times> int)) list"
  j_created :: bool
  j_state_id :: "(int \<times> int) option"
  j_disk :: node

definition j_root :: "journal \<Rightarrow> path" where
  "j_root j = hr_work_root (j_request j)"

definition j_tasks :: "journal \<Rightarrow> path" where
  "j_tasks j = j_root j @ [u ''tasks'']"

definition j_task_dir :: "journal \<Rightarrow> path" where
  "j_task_dir j = j_tasks j @ [str_of (hr_transfer_id (j_request j))]"

definition j_state_path :: "journal \<Rightarrow> path" where
  "j_state_path j = j_task_dir j @ [u ''state.json'']"

definition j_lock_path :: "journal \<Rightarrow> path" where
  "j_lock_path j = j_root j @ [u ''.host-writer.lock'']"

definition j_resume :: "journal \<Rightarrow> bool" where
  "j_resume j \<longleftrightarrow> hr_resume (j_request j) = JBool True"

definition invalid_request :: exn where
  "invalid_request = Error ''invalid_request''"

definition journal_open :: "env \<Rightarrow> host_request \<Rightarrow> json \<Rightarrow> node \<Rightarrow> journal result" where
  "journal_open e request identity fs =
     rbind (require (is_bool (hr_resume request)) invalid_request) (\<lambda>_.
     rbind (case request_document (env_wide e) (env_pf e) request of Inl x \<Rightarrow> Inl invalid_request | Inr d \<Rightarrow> Inr d) (\<lambda>document.
     let b = fld ''budget'' document; files = fld ''max_files'' b; meta = fld ''max_metadata_bytes'' b in
     rbind (require (is_obj document \<and> canonical_json document = Inr (document_bytes request) \<and> is_obj b \<and>
       is_obj (fld ''expected_vm_identity'' document) \<and> is_int meta \<and> 0 < int_of meta \<and> is_int files \<and> 0 < int_of files) invalid_request) (\<lambda>_.
     rbind (require (hr_work_root request = butlast (spec_path request) @ [u ''.velo-transfer''] \<and>
       hr_transfer_id request = fld ''transfer_id'' document \<and> hr_resume request = fld ''resume'' document \<and>
       is_identifier (hr_transfer_id request)) invalid_request) (\<lambda>_.
     rbind (digest_json (without [''transfer_id'', ''resume''] document)) (\<lambda>intent.
     rbind (require (intent_digest request = intent) invalid_request) (\<lambda>_.
     rbind (host_identity identity) (\<lambda>host.
     let limit = int_of meta + 2 * max_spec_bytes in
     Inr \<lparr>j_request = request, j_limit = limit, j_evidence_limit = int_of meta,
       j_max_evidence = min (int_of files + 32) (int_of meta),
       j_max_duration = int_of (fld ''max_duration_seconds'' b),
       j_binding = obj [(''intent_digest'', JStr (intent_digest request)), (''spec_path'', JStr (path_str (spec_path request))),
         (''work_root'', JStr (path_str (hr_work_root request))), (''transfer_id'', hr_transfer_id request),
         (''expected_vm_identity'', fld ''expected_vm_identity'' document), (''host_identity'', host), (''state_limit'', JInt limit)],
       j_lock = None, j_ids = [], j_created = False, j_state_id = None, j_disk = fs\<rparr>)))))))"

text \<open>A question to the file system of the journal.\<close>

definition on_disk :: "(node \<Rightarrow> 'a result) \<Rightarrow> (journal, 'a) io" where
  "on_disk f = io_ask (\<lambda>j. f (j_disk j))"

definition j_directory :: "env \<Rightarrow> path \<Rightarrow> string \<Rightarrow> bool \<Rightarrow> (journal, unit) io" where
  "j_directory e p kind create =
     io_bind (\<lambda>j. if create \<and> lookup (j_disk j) p = None
       then case put_node (env_world e) p (private_dir e p) (j_disk j) of
         None \<Rightarrow> (Inl (Error (kind @ ''_unavailable'')), j) | Some fs1 \<Rightarrow> (Inr (), j\<lparr>j_disk := fs1\<rparr>)
       else (Inr (), j)) (\<lambda>_.
     io_bind (on_disk (\<lambda>fs. private_stat e fs p kind)) (\<lambda>info.
     io_bind (io_ask (\<lambda>j. require (case map_of (j_ids j) kind of None \<Rightarrow> True | Some old \<Rightarrow> old = node_id info) (Error (kind @ ''_changed'')))) (\<lambda>_.
     (\<lambda>j. (Inr (), j\<lparr>j_ids := AList.update kind (node_id info) (j_ids j)\<rparr>)))))"

definition check_dirs :: "env \<Rightarrow> bool \<Rightarrow> bool \<Rightarrow> (journal, unit) io" where
  "check_dirs e task evidence =
     io_bind (io_ask (\<lambda>j. check_parent_chain e (j_disk j) (butlast (j_root j)))) (\<lambda>_.
     io_bind (\<lambda>j. j_directory e (j_root j) ''root'' False j) (\<lambda>_.
     io_bind (\<lambda>j. j_directory e (j_tasks j) ''tasks'' False j) (\<lambda>_.
     io_bind (\<lambda>j. if task then j_directory e (j_task_dir j) ''task'' False j else (Inr (), j)) (\<lambda>_.
     (\<lambda>j. if evidence then j_directory e (j_task_dir j @ [u ''evidence'']) ''evidence'' False j else (Inr (), j))))))"

text \<open>Entering \<open>writer()\<close>, \<open>busy\<close> as for the task store; leaving it drops the lock, also after an error.\<close>

definition j_release :: "journal \<Rightarrow> journal" where
  "j_release j = j\<lparr>j_lock := None\<rparr>"

definition open_lock :: "env \<Rightarrow> (journal, stat) io" where
  "open_lock e = (\<lambda>j. let p = j_lock_path j in
     case lookup (j_disk j) p of
       None \<Rightarrow> (case put_node (env_world e) p (new_file e p []) (j_disk j) of
         None \<Rightarrow> (Inl (Error ''writer_lock_unavailable''), j)
       | Some fs1 \<Rightarrow> io_ask (\<lambda>j. private_stat e (j_disk j) p ''lock'') (j\<lparr>j_disk := fs1\<rparr>))
     | Some (FileN st bs) \<Rightarrow> (private_stat e (j_disk j) p ''lock'', j)
     | Some n \<Rightarrow> (Inl (Error ''writer_lock_unavailable''), j))"

definition j_acquire :: "env \<Rightarrow> bool \<Rightarrow> (journal, unit) io" where
  "j_acquire e busy =
     io_bind (io_ask (\<lambda>j. require (j_lock j = None) (Error ''writer_lock_held''))) (\<lambda>_.
     io_bind (io_ask (\<lambda>j. check_parent_chain e (j_disk j) (butlast (j_root j)))) (\<lambda>_.
     io_bind (io_ask (\<lambda>j. require (j_resume j \<longrightarrow> lookup (j_disk j) (j_root j) \<noteq> None \<and> lookup (j_disk j) (j_tasks j) \<noteq> None)
       (Error ''task_not_found''))) (\<lambda>_.
     io_bind (io_ask (\<lambda>j. require (lookup (j_disk j) (j_tasks j) \<noteq> None \<longrightarrow> lookup (j_disk j) (j_lock_path j) \<noteq> None)
       (Error ''writer_lock_changed''))) (\<lambda>_.
     io_bind (\<lambda>j. j_directory e (j_root j) ''root'' (\<not> j_resume j) j) (\<lambda>_.
     io_bind (open_lock e) (\<lambda>opened.
     io_bind (io_lift (require (\<not> busy) (Error ''writer_busy''))) (\<lambda>_.
     io_bind (io_ask (\<lambda>j. require (case map_of (j_ids j) ''lock'' of None \<Rightarrow> True | Some old \<Rightarrow> old = node_id opened)
       (Error ''writer_lock_changed''))) (\<lambda>_.
     io_bind (\<lambda>j. (Inr (), j\<lparr>j_lock := Some opened, j_ids := AList.update ''lock'' (node_id opened) (j_ids j)\<rparr>)) (\<lambda>_.
     (\<lambda>j. case io_bind (\<lambda>j. j_directory e (j_root j) ''root'' False j) (\<lambda>_.
         io_bind (\<lambda>j. j_directory e (j_tasks j) ''tasks'' (\<not> j_resume j) j) (\<lambda>_.
         check_dirs e False False)) j of
         (Inl x, j1) \<Rightarrow> (Inl x, j_release j1) | (Inr _, j1) \<Rightarrow> (Inr (), j1)))))))))))"

definition j_require_writer :: "env \<Rightarrow> bool \<Rightarrow> bool \<Rightarrow> (journal, unit) io" where
  "j_require_writer e task evidence =
     io_bind (io_ask (\<lambda>j. require (j_lock j \<noteq> None) (Error ''writer_lock_required''))) (\<lambda>_.
     io_bind (check_dirs e task evidence) (\<lambda>_.
     io_bind (io_ask (\<lambda>j. private_stat e (j_disk j) (j_lock_path j) ''lock'')) (\<lambda>current.
     io_ask (\<lambda>j. require (case j_lock j of None \<Rightarrow> False | Some opened \<Rightarrow>
       map_of (j_ids j) ''lock'' = Some (node_id opened) \<and> stat_identity opened = stat_identity current) (Error ''writer_lock_changed'')))))"

section \<open>State envelopes\<close>

definition j_encode :: "journal \<Rightarrow> int \<Rightarrow> json \<Rightarrow> json \<Rightarrow> (json \<times> byte list) result" where
  "j_encode j revision deadline data =
     (let content = [(''schema'', journal_schema), (''transfer_id'', hr_transfer_id (j_request j)), (''binding'', j_binding j),
        (''deadline_monotonic'', deadline), (''revision'', JInt revision), (''data'', data)] in
      rbind (validate_json (nat (j_limit j)) (obj (content @ [(''sha256'', JStr (replicate 64 48))]))) (\<lambda>_.
      rbind (digest_json (obj content)) (\<lambda>digest.
      let envelope = obj (content @ [(''sha256'', JStr digest)]) in
      rbind (canonical_json envelope) (\<lambda>raw.
      rbind (require (int (length raw) \<le> j_limit j) (Error ''state_budget_exceeded'')) (\<lambda>_.
      Inr (envelope, raw))))))"

definition j_envelope_keys :: "string list" where
  "j_envelope_keys = [''schema'', ''transfer_id'', ''binding'', ''deadline_monotonic'', ''revision'', ''data'', ''sha256'']"

definition positive_number :: "json \<Rightarrow> bool" where
  "positive_number v = (case num_val v of None \<Rightarrow> False | Some x \<Rightarrow> \<not> dec_le x (0, 0))"

definition check_state :: "journal \<Rightarrow> json \<Rightarrow> unit result" where
  "check_state j v =
     rbind (require (has_keys v j_envelope_keys \<and> fld ''schema'' v = journal_schema \<and> is_count (fld ''revision'' v) \<and>
       finite_deadline (fld ''deadline_monotonic'' v) \<and> positive_number (fld ''deadline_monotonic'' v) \<and>
       is_digest (fld ''sha256'' v)) invalid_state) (\<lambda>_.
     rbind (digest_json (without [''sha256''] v)) (\<lambda>digest.
     rbind (require (fld ''sha256'' v = JStr digest) (Error ''state_hash_mismatch'')) (\<lambda>_.
     rbind (canonical_json (fld ''binding'' v)) (\<lambda>stored.
     rbind (canonical_json (j_binding j)) (\<lambda>own.
     rbind (require (fld ''transfer_id'' v = hr_transfer_id (j_request j) \<and> stored = own)
       (if is_obj (fld ''binding'' v) \<and> \<not> py_eq (fld ''host_identity'' (fld ''binding'' v)) (fld ''host_identity'' (j_binding j))
        then Error ''host_identity_mismatch'' else Error ''task_binding_conflict'')) (\<lambda>_.
     phase_data (fld ''data'' v) None False))))))"

definition read_state :: "env \<Rightarrow> (journal, json) io" where
  "read_state e =
     io_bind (j_require_writer e True False) (\<lambda>_.
     io_bind (io_ask (\<lambda>j. require (lookup (j_disk j) (j_state_path j) \<noteq> None) (Error ''task_incomplete''))) (\<lambda>_.
     io_bind (io_ask (\<lambda>j. read_file e (j_disk j) (j_state_path j) (j_limit j) ''state'')) (\<lambda>(raw, info).
     io_bind (io_ask (\<lambda>j. decode_state (env_pf e) raw (j_limit j))) (\<lambda>v.
     io_bind (io_ask (\<lambda>j. check_state j v)) (\<lambda>_.
     io_bind (io_ask (\<lambda>j. require (case j_state_id j of None \<Rightarrow> True | Some i \<Rightarrow> i = node_id info) (Error ''state_changed''))) (\<lambda>_.
     (\<lambda>j. (Inr v, j\<lparr>j_state_id := Some (node_id info)\<rparr>))))))))"

section \<open>Committing\<close>

text \<open>\<open>temp.unlink()\<close> when the temporary file is still the one that was created.\<close>

definition drop_own :: "env \<Rightarrow> path \<Rightarrow> (int \<times> int) option \<Rightarrow> node \<Rightarrow> node" where
  "drop_own e p own fs = (case lookup fs p of
     None \<Rightarrow> fs
   | Some n \<Rightarrow> if own \<noteq> None \<and> map_option node_id (node_stat n) = own then drop_temp e p fs else fs)"

definition j_commit_failed :: "env \<Rightarrow> path \<Rightarrow> (int \<times> int) option \<Rightarrow> byte list \<Rightarrow> int \<Rightarrow> exn \<Rightarrow> (journal, unit) io" where
  "j_commit_failed e temp own raw revision x j =
     (let j0 = j\<lparr>j_state_id := None\<rparr>;
          (observed, j1) = (if lookup (j_disk j0) (j_state_path j0) \<noteq> None then read_state e j0 else (Inl (Error []), j0)) in
      case observed of
        Inl (PyError n) \<Rightarrow>
          if n = ''OSError'' then (Inl (if x = interrupt then x else Error ''storage_reconcile_required''), j1\<lparr>j_disk := drop_own e temp own (j_disk j1)\<rparr>)
          else (Inl (PyError n), j1)
      | _ \<Rightarrow> (Inl (if x = interrupt then x else classify observed raw revision), j1\<lparr>j_disk := drop_own e temp own (j_disk j1)\<rparr>))"

definition checked_temporary :: "env \<Rightarrow> path \<Rightarrow> int \<Rightarrow> string \<Rightarrow> node \<Rightarrow> stat result" where
  "checked_temporary e temp expected_size kind fs =
     rbind (private_stat e fs temp kind) (\<lambda>current.
     rbind (require (st_size current = expected_size \<and> st_nlink current = 1) (Error ''temporary_changed'')) (\<lambda>_. Inr current))"

text \<open>The body of the \<open>try\<close> once the temporary file is written: check, move, compare, synchronise.\<close>

definition j_install :: "env \<Rightarrow> path \<Rightarrow> byte list \<Rightarrow> stat option \<Rightarrow> (journal, unit) io" where
  "j_install e temp raw previous =
     io_bind (j_require_writer e True False) (\<lambda>_.
     io_bind (on_disk (checked_temporary e temp (int (length raw)) ''state'')) (\<lambda>written.
     io_bind (io_ask (\<lambda>j. case previous of
         None \<Rightarrow> require (lookup (j_disk j) (j_state_path j) = None) (Error ''resume_required'')
       | Some old \<Rightarrow> rbind (private_stat e (j_disk j) (j_state_path j) ''state'') (\<lambda>current.
           require (stat_identity current = stat_identity old) (Error ''state_changed'')))) (\<lambda>_.
     io_bind (\<lambda>j. case env_fault e of
         Move_Fault x \<Rightarrow> (Inl x, j)
       | _ \<Rightarrow> (case move_node (env_world e) (previous \<noteq> None) (j_task_dir j) (last temp) (u ''state.json'') (j_disk j) of
           None \<Rightarrow> (Inl (if previous = None then Error ''destination_exists'' else PyError ''OSError''), j)
         | Some fs1 \<Rightarrow> (Inr (), j\<lparr>j_disk := fs1\<rparr>))) (\<lambda>_.
     io_bind (io_ask (\<lambda>j. private_stat e (j_disk j) (j_state_path j) ''state'')) (\<lambda>now_st.
     io_bind (io_lift (require (stat_identity now_st = stat_identity written) (Error ''state_changed''))) (\<lambda>_.
     (\<lambda>j. case env_fault e of
         Sync_Fault x \<Rightarrow> (Inl x, j)
       | _ \<Rightarrow> (Inr (), j\<lparr>j_state_id := Some (node_id now_st)\<rparr>))))))))"

definition j_commit :: "env \<Rightarrow> byte list \<Rightarrow> int \<Rightarrow> bool \<Rightarrow> (journal, unit) io" where
  "j_commit e raw revision initial =
     io_bind (j_require_writer e True False) (\<lambda>_.
     io_bind (io_ask (\<lambda>j. if initial
         then rbind (require (lookup (j_disk j) (j_state_path j) = None) (Error ''resume_required'')) (\<lambda>_. Inr None)
         else rbind (private_stat e (j_disk j) (j_state_path j) ''state'') (\<lambda>st.
           rbind (require (case j_state_id j of None \<Rightarrow> True | Some i \<Rightarrow> node_id st = i) (Error ''state_changed'')) (\<lambda>_. Inr (Some st))))) (\<lambda>previous.
     (\<lambda>j. let temp = j_task_dir j @ [u ''.state-'' @ env_fresh e @ u ''.tmp''];
             written = (case env_fault e of Write_Fault k x \<Rightarrow> take k raw | _ \<Rightarrow> raw);
             created = new_file e temp written;
             own = map_option node_id (node_stat created) in
       case env_fault e of
         Open_Fault x \<Rightarrow> j_commit_failed e temp None raw revision x j
       | _ \<Rightarrow>
           (case put_node (env_world e) temp created (j_disk j) of
              None \<Rightarrow> j_commit_failed e temp None raw revision (PyError ''OSError'') j
            | Some fs1 \<Rightarrow>
                let j1 = j\<lparr>j_disk := fs1\<rparr> in
                (case env_fault e of
                   Write_Fault k x \<Rightarrow> j_commit_failed e temp own raw revision x j1
                 | _ \<Rightarrow>
                     (case j_install e temp raw previous j1 of
                        (Inl x, j2) \<Rightarrow> j_commit_failed e temp own raw revision x j2
                      | (Inr _, j2) \<Rightarrow> (Inr (), j2)))))))"

definition after_now :: "json \<Rightarrow> int \<Rightarrow> bool" where
  "after_now v t = (case num_val v of None \<Rightarrow> False | Some x \<Rightarrow> \<not> dec_le x (t, 0))"

definition no_later :: "json \<Rightarrow> int \<Rightarrow> bool" where
  "no_later v t = (case num_val v of None \<Rightarrow> False | Some x \<Rightarrow> dec_le x (t, 0))"

definition journal_create :: "env \<Rightarrow> json \<Rightarrow> json \<Rightarrow> (journal, json) io" where
  "journal_create e deadline data =
     io_bind (j_require_writer e False False) (\<lambda>_.
     io_bind (io_ask (\<lambda>j. require (\<not> j_resume j) (Error ''resume_required''))) (\<lambda>_.
     io_bind (io_ask (\<lambda>j. require (finite_deadline deadline \<and> after_now deadline (env_now e) \<and> no_later deadline (env_now e + j_max_duration j))
       (Error ''invalid_deadline''))) (\<lambda>_.
     io_bind (io_lift (phase_data data None True)) (\<lambda>_.
     io_bind (io_ask (\<lambda>j. j_encode j 0 deadline data)) (\<lambda>(envelope, raw).
     io_bind (io_ask (\<lambda>j. require (lookup (j_disk j) (j_task_dir j) = None) (Error ''resume_required''))) (\<lambda>_.
     io_bind (\<lambda>j. j_directory e (j_task_dir j) ''task'' True j) (\<lambda>_.
     io_bind (j_commit e raw 0 True) (\<lambda>_.
     (\<lambda>j. (Inr envelope, j\<lparr>j_created := True\<rparr>))))))))))"

definition journal_load :: "env \<Rightarrow> (journal, json) io" where
  "journal_load e =
     io_bind (j_require_writer e False False) (\<lambda>_.
     io_bind (io_ask (\<lambda>j. require (j_resume j \<or> j_created j) (Error ''resume_required''))) (\<lambda>_.
     io_bind (io_ask (\<lambda>j. require (lookup (j_disk j) (j_task_dir j) \<noteq> None) (Error ''task_not_found''))) (\<lambda>_.
     read_state e)))"

definition journal_save :: "env \<Rightarrow> json \<Rightarrow> json \<Rightarrow> (journal, json) io" where
  "journal_save e expected_revision data =
     io_bind (j_require_writer e False False) (\<lambda>_.
     io_bind (io_lift (require (is_count expected_revision) (Error ''invalid_revision''))) (\<lambda>_.
     io_bind (journal_load e) (\<lambda>old.
     io_bind (io_lift (require (fld ''revision'' old = expected_revision) (Error ''stale_revision''))) (\<lambda>_.
     io_bind (io_ask (\<lambda>j. validate_json (nat (j_limit j)) data)) (\<lambda>_.
     io_bind (io_lift (phase_data data (Some (fld ''data'' old)) False)) (\<lambda>_.
     io_bind (io_ask (\<lambda>j. j_encode j (int_of expected_revision + 1) (fld ''deadline_monotonic'' old) data)) (\<lambda>(envelope, raw).
     io_bind (j_commit e raw (int_of expected_revision + 1) False) (\<lambda>_.
     io_lift (Inr envelope)))))))))"

section \<open>Evidence\<close>

definition evidence_path :: "journal \<Rightarrow> json \<Rightarrow> path result" where
  "evidence_path j name =
     rbind (require (is_evidence_name name) (Error ''invalid_evidence_name'')) (\<lambda>_.
     Inr (j_task_dir j @ [u ''evidence'', str_of name @ u ''.json'']))"

definition evidence_ref :: "json \<Rightarrow> byte list \<Rightarrow> stat \<Rightarrow> json" where
  "evidence_ref name raw info = obj [(''name'', name), (''size'', JInt (int (length raw))), (''sha256'', JStr (sha256_hex raw)),
     (''device'', JInt (st_dev info)), (''inode'', JInt (st_ino info)), (''mtime_ns'', JInt (st_mtime_ns info))]"

text \<open>An evidence file that exists must already hold the same bytes.\<close>

definition evidence_again :: "env \<Rightarrow> json \<Rightarrow> path \<Rightarrow> byte list \<Rightarrow> (journal, json) io" where
  "evidence_again e name p raw =
     io_bind (io_ask (\<lambda>j. read_file e (j_disk j) p (j_evidence_limit j) ''evidence_file'')) (\<lambda>(current, info).
     io_bind (io_lift (require (current = raw) (Error ''evidence_conflict''))) (\<lambda>_.
     io_lift (case env_fault e of Sync_Fault x \<Rightarrow> Inl (if x = PyError ''OSError'' then Error ''evidence_durability_unknown'' else x)
       | _ \<Rightarrow> Inr (evidence_ref name raw info))))"

definition evidence_fault :: "bool \<Rightarrow> exn \<Rightarrow> exn" where
  "evidence_fault published x =
     (if x = PyError ''OSError'' then Error (if published then ''evidence_durability_unknown'' else ''evidence_write_failed'') else x)"

text \<open>The publication of a new evidence file; the \<open>finally\<close> clause drops the temporary file.\<close>

definition evidence_install :: "env \<Rightarrow> path \<Rightarrow> path \<Rightarrow> byte list \<Rightarrow> (journal, unit) io" where
  "evidence_install e temp p raw =
     io_bind (j_require_writer e True True) (\<lambda>_.
     io_bind (on_disk (checked_temporary e temp (int (length raw)) ''evidence_file'')) (\<lambda>written.
     io_bind (\<lambda>j. case env_fault e of
         Move_Fault x \<Rightarrow> (Inl (evidence_fault False x), j)
       | _ \<Rightarrow> (case move_node (env_world e) False (butlast p) (last temp) (last p) (j_disk j) of
           None \<Rightarrow> (Inl (Error ''destination_exists''), j)
         | Some fs1 \<Rightarrow> (Inr (), j\<lparr>j_disk := fs1\<rparr>))) (\<lambda>_.
     io_bind (on_disk (\<lambda>fs. private_stat e fs p ''evidence_file'')) (\<lambda>now_st.
     io_bind (io_lift (require (stat_identity now_st = stat_identity written) (Error ''evidence_reconcile_required''))) (\<lambda>_.
     io_lift (case env_fault e of Sync_Fault x \<Rightarrow> Inl (evidence_fault True x) | _ \<Rightarrow> Inr ()))))))"

definition j_clean :: "env \<Rightarrow> path \<Rightarrow> (int \<times> int) option \<Rightarrow> (journal, 'a) io \<Rightarrow> (journal, 'a) io" where
  "j_clean e temp own m j = (case m j of (r, j1) \<Rightarrow> (r, j1\<lparr>j_disk := drop_own e temp own (j_disk j1)\<rparr>))"

definition evidence_new :: "env \<Rightarrow> json \<Rightarrow> path \<Rightarrow> byte list \<Rightarrow> (journal, json) io" where
  "evidence_new e name p raw =
     (\<lambda>j. let temp = butlast p @ [u ''.evidence-'' @ env_fresh e @ u ''.tmp''];
             written = (case env_fault e of Write_Fault k x \<Rightarrow> take k raw | _ \<Rightarrow> raw);
             created = new_file e temp written;
             own = map_option node_id (node_stat created) in
       case env_fault e of
         Open_Fault x \<Rightarrow> (Inl (evidence_fault False x), j)
       | _ \<Rightarrow>
           (case put_node (env_world e) temp created (j_disk j) of
              None \<Rightarrow> (Inl (Error ''evidence_write_failed''), j)
            | Some fs1 \<Rightarrow>
                let j1 = j\<lparr>j_disk := fs1\<rparr> in
                (case env_fault e of
                   Write_Fault k x \<Rightarrow> j_clean e temp own (io_lift (Inl (evidence_fault False x))) j1
                 | _ \<Rightarrow>
                     io_bind (j_clean e temp own (evidence_install e temp p raw)) (\<lambda>_.
                     io_bind (io_ask (\<lambda>j. read_file e (j_disk j) p (j_evidence_limit j) ''evidence_file'')) (\<lambda>(stored, info).
                     io_bind (io_lift (require (stored = raw) (Error ''evidence_reconcile_required''))) (\<lambda>_.
                     io_lift (Inr (evidence_ref name raw info))))) j1)))"

definition write_evidence :: "env \<Rightarrow> json \<Rightarrow> json \<Rightarrow> (journal, json) io" where
  "write_evidence e name v =
     io_bind (j_require_writer e True False) (\<lambda>_.
     io_bind (io_ask (\<lambda>j. evidence_path j name)) (\<lambda>p.
     io_bind (io_ask (\<lambda>j. validate_json (nat (j_evidence_limit j)) v)) (\<lambda>_.
     io_bind (io_lift (canonical_json v)) (\<lambda>raw.
     io_bind (io_ask (\<lambda>j. require (int (length raw) \<le> j_evidence_limit j) (Error ''state_budget_exceeded''))) (\<lambda>_.
     io_bind (j_directory e (butlast p) ''evidence'' True) (\<lambda>_.
     io_bind (j_require_writer e True True) (\<lambda>_.
     (\<lambda>j. if lookup (j_disk j) p \<noteq> None then evidence_again e name p raw j
       else case lookup (j_disk j) (butlast p) of
         Some (DirN st kids) \<Rightarrow>
           if kids \<noteq> [] \<and> j_max_evidence j \<le> int (length kids) then (Inl (Error ''evidence_collection_exceeded''), j)
           else evidence_new e name p raw j
       | _ \<Rightarrow> (Inl (Error ''evidence_unavailable''), j)))))))))"

definition evidence_ref_keys :: "string list" where
  "evidence_ref_keys = [''name'', ''size'', ''sha256'', ''device'', ''inode'', ''mtime_ns'']"

definition read_evidence :: "env \<Rightarrow> json \<Rightarrow> (journal, json) io" where
  "read_evidence e ref =
     io_bind (j_require_writer e True True) (\<lambda>_.
     io_bind (io_lift (require (has_keys ref evidence_ref_keys) (Error ''invalid_evidence_ref''))) (\<lambda>_.
     io_bind (io_ask (\<lambda>j. evidence_path j (fld ''name'' ref))) (\<lambda>p.
     io_bind (io_ask (\<lambda>j. require (is_count (fld ''size'' ref) \<and> int_of (fld ''size'' ref) \<le> j_evidence_limit j \<and> is_int (fld ''device'' ref) \<and>
       is_int (fld ''inode'' ref) \<and> is_int (fld ''mtime_ns'' ref) \<and> is_digest (fld ''sha256'' ref)) (Error ''invalid_evidence_ref''))) (\<lambda>_.
     io_bind (io_ask (\<lambda>j. read_file e (j_disk j) p (j_evidence_limit j) ''evidence_file'')) (\<lambda>(raw, info).
     io_bind (io_lift (require (py_eq (evidence_ref (fld ''name'' ref) raw info) ref) (Error ''evidence_changed''))) (\<lambda>_.
     io_ask (\<lambda>j. decode_state (env_pf e) raw (j_evidence_limit j))))))))"

end
