(* ===== verification/Journal_Facts.thy ===== *)
theory Journal_Facts
  imports Journal
begin

text \<open>
  What the operations of the journal need and leave: when its checks succeed, what entering its
  directories records, and that what is saved is what is loaded.
\<close>

section \<open>The checks of a held journal\<close>

definition j_dirs :: "bool \<Rightarrow> journal \<Rightarrow> (string \<times> path) list" where
  "j_dirs task j = [(''root'', j_root j), (''tasks'', j_tasks j)] @ (if task then [(''task'', j_task_dir j)] else [])"

definition dir_fits :: "env \<Rightarrow> journal \<Rightarrow> string \<times> path \<Rightarrow> bool" where
  "dir_fits e j kp \<longleftrightarrow> (\<exists>st. private_stat e (j_disk j) (snd kp) (fst kp) = Inr st \<and> map_of (j_ids j) (fst kp) \<in> {None, Some (node_id st)})"

definition lock_fits :: "env \<Rightarrow> journal \<Rightarrow> bool" where
  "lock_fits e j \<longleftrightarrow> (\<exists>opened current. j_lock j = Some opened \<and> private_stat e (j_disk j) (j_lock_path j) ''lock'' = Inr current \<and>
     map_of (j_ids j) ''lock'' = Some (node_id opened) \<and> stat_identity opened = stat_identity current)"

definition writer_fits :: "env \<Rightarrow> bool \<Rightarrow> journal \<Rightarrow> bool" where
  "writer_fits e task j \<longleftrightarrow> check_parent_chain e (j_disk j) (butlast (j_root j)) = Inr () \<and> list_all (dir_fits e j) (j_dirs task j) \<and> lock_fits e j"

lemma j_places_ids [simp]:
  "j_root (j\<lparr>j_ids := i\<rparr>) = j_root j" "j_tasks (j\<lparr>j_ids := i\<rparr>) = j_tasks j" "j_task_dir (j\<lparr>j_ids := i\<rparr>) = j_task_dir j"
  "j_lock_path (j\<lparr>j_ids := i\<rparr>) = j_lock_path j" "j_state_path (j\<lparr>j_ids := i\<rparr>) = j_state_path j" "j_resume (j\<lparr>j_ids := i\<rparr>) = j_resume j"
  "j_root (j\<lparr>j_disk := f\<rparr>) = j_root j" "j_tasks (j\<lparr>j_disk := f\<rparr>) = j_tasks j" "j_task_dir (j\<lparr>j_disk := f\<rparr>) = j_task_dir j"
  "j_lock_path (j\<lparr>j_disk := f\<rparr>) = j_lock_path j" "j_state_path (j\<lparr>j_disk := f\<rparr>) = j_state_path j" "j_resume (j\<lparr>j_disk := f\<rparr>) = j_resume j"
  "j_root (j\<lparr>j_state_id := s\<rparr>) = j_root j" "j_tasks (j\<lparr>j_state_id := s\<rparr>) = j_tasks j" "j_task_dir (j\<lparr>j_state_id := s\<rparr>) = j_task_dir j"
  "j_lock_path (j\<lparr>j_state_id := s\<rparr>) = j_lock_path j" "j_state_path (j\<lparr>j_state_id := s\<rparr>) = j_state_path j" "j_resume (j\<lparr>j_state_id := s\<rparr>) = j_resume j"
  by (simp_all add: j_root_def j_tasks_def j_task_dir_def j_lock_path_def j_state_path_def j_resume_def)

lemma j_directory_iff:
  "j_directory e p kind False j = (Inr (), j') \<longleftrightarrow>
     (\<exists>st. private_stat e (j_disk j) p kind = Inr st \<and> map_of (j_ids j) kind \<in> {None, Some (node_id st)} \<and>
       j' = j\<lparr>j_ids := AList.update kind (node_id st) (j_ids j)\<rparr>)"
  by (cases "map_of (j_ids j) kind") (auto simp: j_directory_def on_disk_def io_iff require_Inr_iff)

lemma dir_enter:
  assumes "j_directory e p kind False j = (Inr (), j')"
  shows "\<exists>ids. j' = j\<lparr>j_ids := ids\<rparr> \<and> dir_fits e j (kind, p) \<and> (\<forall>k. k \<noteq> kind \<longrightarrow> map_of ids k = map_of (j_ids j) k) \<and>
    (\<forall>st. private_stat e (j_disk j) p kind = Inr st \<longrightarrow> map_of ids kind = Some (node_id st))"
  using assms by (auto simp: j_directory_iff dir_fits_def map_of_update_other)

lemma dir_can_enter: "dir_fits e j (kind, p) \<Longrightarrow> \<exists>j'. j_directory e p kind False j = (Inr (), j')"
  by (auto simp: j_directory_iff dir_fits_def)

text \<open>Entering directories only records what is there, so that what fitted still fits.\<close>

definition records :: "env \<Rightarrow> journal \<Rightarrow> journal \<Rightarrow> bool" where
  "records e j j' \<longleftrightarrow> (\<exists>ids. j' = j\<lparr>j_ids := ids\<rparr> \<and> map_of ids ''lock'' = map_of (j_ids j) ''lock'' \<and>
     (\<forall>kp \<in> set (j_dirs True j). dir_fits e (j\<lparr>j_ids := ids\<rparr>) kp = dir_fits e j kp))"

lemma records_refl [simp]: "records e j j"
  unfolding records_def by (rule exI [of _ "j_ids j"]) simp

lemma j_dirs_ids [simp]: "j_dirs t (j\<lparr>j_ids := i\<rparr>) = j_dirs t j" "j_dirs t (j\<lparr>j_disk := f\<rparr>) = j_dirs t j" "j_dirs t (j\<lparr>j_state_id := s\<rparr>) = j_dirs t j"
  by (simp_all add: j_dirs_def)

lemma records_trans: "records e a b \<Longrightarrow> records e b c \<Longrightarrow> records e a c"
  unfolding records_def by (elim exE conjE) (rule exI, auto)

lemma dir_records:
  assumes "j_directory e p kind False j = (Inr (), j')" and "(kind, p) \<in> set (j_dirs True j)"
  shows "records e j j' \<and> dir_fits e j (kind, p) \<and> dir_fits e j' (kind, p)"
proof -
  from dir_enter [OF assms(1)] obtain ids where ids: "j' = j\<lparr>j_ids := ids\<rparr>" "dir_fits e j (kind, p)"
    "\<And>k. k \<noteq> kind \<Longrightarrow> map_of ids k = map_of (j_ids j) k" "\<And>st. private_stat e (j_disk j) p kind = Inr st \<Longrightarrow> map_of ids kind = Some (node_id st)" by blast
  have uniq: "p' = p" if "(kind, p') \<in> set (j_dirs True j)" for p' using that assms(2) by (auto simp: j_dirs_def split: if_splits)
  have "kind \<noteq> ''lock''" using assms(2) by (auto simp: j_dirs_def)
  have keep: "dir_fits e (j\<lparr>j_ids := ids\<rparr>) kp = dir_fits e j kp" if "kp \<in> set (j_dirs True j)" for kp
  proof -
    obtain k p' where kp: "kp = (k, p')" by (cases kp)
    show ?thesis
    proof (cases "k = kind")
      case True
      with that uniq kp have "p' = p" by blast
      with ids(2,4) True kp show ?thesis by (auto simp: dir_fits_def)
    next
      case False
      with ids(3) kp show ?thesis by (simp add: dir_fits_def)
    qed
  qed
  have "records e j j'"
    unfolding records_def using ids(1) ids(3) [of "''lock''"] keep \<open>kind \<noteq> ''lock''\<close> by (intro exI [of _ ids] conjI ballI) auto
  moreover have "dir_fits e j' (kind, p)" using keep [OF assms(2)] ids(2) by (simp add: ids(1))
  ultimately show ?thesis using ids(2) by blast
qed

lemma records_keep: "records e a b \<Longrightarrow> kp \<in> set (j_dirs True a) \<Longrightarrow> dir_fits e a kp \<Longrightarrow> dir_fits e b kp"
  unfolding records_def by blast

lemma records_places: "records e a b \<Longrightarrow> j_dirs t b = j_dirs t a \<and> j_root b = j_root a \<and> j_tasks b = j_tasks a \<and> j_task_dir b = j_task_dir a \<and> j_disk b = j_disk a"
  unfolding records_def by auto

lemma writer_enter:
  assumes "j_require_writer e task False j = (Inr (), j')"
  shows "records e j j' \<and> writer_fits e task j'"
proof -
  from assms obtain o1 where o: "j_lock j = Some o1" by (auto simp: j_require_writer_def io_iff require_Inr_iff)
  from assms obtain j1 where c: "check_dirs e task False j = (Inr (), j1)" and "j' = j1"
    and lock: "\<exists>current. private_stat e (j_disk j1) (j_lock_path j1) ''lock'' = Inr current \<and>
      (case j_lock j1 of None \<Rightarrow> False | Some opened \<Rightarrow> map_of (j_ids j1) ''lock'' = Some (node_id opened) \<and> stat_identity opened = stat_identity current)"
    by (auto simp: j_require_writer_def io_iff require_Inr_iff)
  from c obtain a b where chain: "check_parent_chain e (j_disk j) (butlast (j_root j)) = Inr ()"
    and d: "j_directory e (j_root j) ''root'' False j = (Inr (), a)" "j_directory e (j_tasks a) ''tasks'' False a = (Inr (), b)"
      "(if task then j_directory e (j_task_dir b) ''task'' False b else (Inr (), b)) = (Inr (), j1)"
    by (auto simp: check_dirs_def io_iff)
  have ra: "records e j a" "dir_fits e a (''root'', j_root j)" using dir_records [OF d(1)] by (simp_all add: j_dirs_def)
  note pa = records_places [OF ra(1)]
  have rb: "records e a b" "dir_fits e b (''tasks'', j_tasks j)" using dir_records [OF d(2)] pa by (simp_all add: j_dirs_def)
  note pb = records_places [OF rb(1)]
  have rc: "records e b j1" "task \<Longrightarrow> dir_fits e j1 (''task'', j_task_dir j)"
    using d(3) dir_records [of e "j_task_dir b" "''task''" b j1] pa pb by (auto simp: j_dirs_def split: if_splits)
  note pc = records_places [OF rc(1)]
  have in_dirs: "(''root'', j_root j) \<in> set (j_dirs True a)" "(''root'', j_root j) \<in> set (j_dirs True b)" "(''tasks'', j_tasks j) \<in> set (j_dirs True b)"
    using pa pb by (simp_all add: j_dirs_def)
  have "dir_fits e j1 (''root'', j_root j)" by (rule records_keep [OF rc(1) in_dirs(2) records_keep [OF rb(1) in_dirs(1) ra(2)]])
  moreover have "dir_fits e j1 (''tasks'', j_tasks j)" by (rule records_keep [OF rc(1) in_dirs(3) rb(2)])
  ultimately have "list_all (dir_fits e j1) (j_dirs task j1)" using rc(2) pa pb pc by (simp add: j_dirs_def)
  moreover have "records e j j1" using records_trans [OF ra(1) records_trans [OF rb(1) rc(1)]] .
  moreover have "lock_fits e j1" using lock by (auto simp: lock_fits_def split: option.splits)
  ultimately show ?thesis using chain pa pb pc \<open>j' = j1\<close> by (simp add: writer_fits_def)
qed

lemma records_fits: "records e j j' \<Longrightarrow> writer_fits e task j' = writer_fits e task j"
  by (auto simp: records_def writer_fits_def lock_fits_def list_all_iff j_dirs_def)

lemma writer_can_enter:
  assumes "writer_fits e task j"
  shows "\<exists>j'. j_require_writer e task False j = (Inr (), j') \<and> records e j j' \<and> writer_fits e task j'"
proof -
  from assms have chain: "check_parent_chain e (j_disk j) (butlast (j_root j)) = Inr ()" and fits: "list_all (dir_fits e j) (j_dirs task j)"
    and lock: "lock_fits e j" by (simp_all add: writer_fits_def)
  from fits obtain a where a: "j_directory e (j_root j) ''root'' False j = (Inr (), a)"
    using dir_can_enter [of e j "''root''" "j_root j"] by (auto simp: j_dirs_def)
  have ra: "records e j a" using dir_records [OF a] by (simp add: j_dirs_def)
  then obtain ia where ia: "a = j\<lparr>j_ids := ia\<rparr>" by (auto simp: records_def)
  from fits ra have "dir_fits e a (''tasks'', j_tasks a)" by (auto simp: records_def j_dirs_def ia)
  then obtain b where b: "j_directory e (j_tasks a) ''tasks'' False a = (Inr (), b)" using dir_can_enter by blast
  have rb: "records e a b" using dir_records [OF b] by (simp add: j_dirs_def)
  then obtain ib where ib: "b = j\<lparr>j_ids := ib\<rparr>" by (auto simp: records_def ia)
  have "\<exists>c. (if task then j_directory e (j_task_dir b) ''task'' False b else (Inr (), b)) = (Inr (), c) \<and> records e b c"
  proof (cases task)
    case True
    from fits True records_trans [OF ra rb] have "dir_fits e b (''task'', j_task_dir b)" by (auto simp: records_def j_dirs_def ib)
    then obtain c where "j_directory e (j_task_dir b) ''task'' False b = (Inr (), c)" using dir_can_enter by blast
    with dir_records [OF this] True show ?thesis by (auto simp: j_dirs_def)
  qed simp
  then obtain c where c: "(if task then j_directory e (j_task_dir b) ''task'' False b else (Inr (), b)) = (Inr (), c)" "records e b c" by blast
  have rc: "records e j c" using ra rb c(2) records_trans by blast
  then have "writer_fits e task c" using records_fits assms by simp
  have "check_dirs e task False j = (Inr (), c)" using chain a b c(1) by (auto simp: check_dirs_def io_iff)
  then have "j_require_writer e task False j = (Inr (), c)"
    using lock rc by (auto simp: j_require_writer_def io_iff require_Inr_iff lock_fits_def records_def)
  with rc \<open>writer_fits e task c\<close> show ?thesis by blast
qed

section \<open>Changes elsewhere\<close>

lemma agree_private_dir:
  assumes "agree fs fs' p" and "kind \<in> {''root'', ''tasks'', ''task'', ''evidence''}" and "private_stat e fs p kind = Inr st"
  shows "\<exists>st'. private_stat e fs' p kind = Inr st' \<and> core st' = core st"
proof -
  from assms(3) obtain n where n: "lookup fs p = Some n" "node_stat n = Some st" by (auto simp: private_stat_def result_iff split: option.splits)
  with assms(2,3) obtain kids where d: "lookup fs p = Some (DirN st kids)" and ok: "st_uid st = env_euid e" "st_mode st mod 64 = 0"
    by (cases n) (auto simp: private_stat_def result_iff)
  with agree_at [OF assms(1)] obtain st' kids' where "lookup fs' p = Some (DirN st' kids')" "core st' = core st"
    by (cases "(lookup fs p, lookup fs' p)" rule: alike.cases) auto
  with ok assms(2) show ?thesis by (auto simp: private_stat_def core_def result_iff)
qed

lemma private_file: "private_stat e fs p kind = Inr st \<Longrightarrow> kind \<notin> {''root'', ''tasks'', ''task'', ''evidence''} \<Longrightarrow>
    \<exists>bs. lookup fs p = Some (FileN st bs)"
  by (cases "lookup fs p"; cases "the (lookup fs p)") (auto simp: private_stat_def result_iff)

lemma private_stat_cong: "lookup fs' p = lookup fs p \<Longrightarrow> private_stat e fs' p kind = private_stat e fs p kind"
  by (simp add: private_stat_def)

definition ancestor_ok :: "env \<Rightarrow> stat \<Rightarrow> stat \<Rightarrow> bool" where
  "ancestor_ok e info child \<longleftrightarrow> (others_write info \<longrightarrow> st_uid info = 0 \<and> is_sticky info \<and> st_uid child = env_euid e \<and> st_mode child mod 64 = 0)"

definition chain_of :: "path \<Rightarrow> path list" where
  "chain_of parent = [] # map (\<lambda>i. take i parent) [1..<length parent] @ [parent]"

lemma option_cond: "(case x of None \<Rightarrow> False | Some y \<Rightarrow> P y) \<longleftrightarrow> (\<exists>y. x = Some y \<and> P y)"
  by (cases x) auto

lemma check_parent_chain_iff:
  "check_parent_chain e fs parent = Inr () \<longleftrightarrow>
     (\<forall>p \<in> set (chain_of parent). \<exists>st. dir_stat_of (lookup fs p) = Some st \<and> st_uid st \<in> {0, env_euid e}) \<and>
     (\<forall>(p, q) \<in> set (zip (butlast (chain_of parent)) (tl (chain_of parent))). ancestor_ok e (the (dir_stat_of (lookup fs p))) (the (dir_stat_of (lookup fs q)))) \<and>
     \<not> others_write (the (dir_stat_of (lookup fs parent)))"
proof -
  have l: "last (map (\<lambda>p. the (dir_stat_of (lookup fs p))) (chain_of parent)) = the (dir_stat_of (lookup fs parent))"
    by (simp add: chain_of_def last_map)
  have z: "zip (butlast (map g c)) (tl (map g c)) = map (\<lambda>(p, q). (g p, g q)) (zip (butlast c) (tl c))" for g :: "path \<Rightarrow> stat" and c
    by (simp add: map_butlast [symmetric] map_tl [symmetric] zip_map_map)
  show ?thesis
    unfolding check_parent_chain_def Let_def chain_of_def [symmetric] rbind_Inr_iff for_each_Inr_iff require_Inr_iff l z
    by (simp add: ancestor_ok_def case_prod_beta require_Inr_iff option_cond)
qed

lemma alike_dir_stat: "alike a b \<Longrightarrow> dir_stat_of a = Some st \<Longrightarrow> \<exists>st'. dir_stat_of b = Some st' \<and> core st' = core st"
  by (cases "(a, b)" rule: alike.cases) auto

lemma agree_parent_chain:
  assumes ag: "\<And>p. p \<in> set (chain_of parent) \<Longrightarrow> agree fs fs' p" and ok: "check_parent_chain e fs parent = Inr ()"
  shows "check_parent_chain e fs' parent = Inr ()"
proof -
  have same: "\<exists>st st'. dir_stat_of (lookup fs p) = Some st \<and> dir_stat_of (lookup fs' p) = Some st' \<and> core st' = core st \<and> st_uid st \<in> {0, env_euid e}"
    if "p \<in> set (chain_of parent)" for p
    using that ok alike_dir_stat [OF agree_at [OF ag [OF that]]] unfolding check_parent_chain_iff by blast
  have core: "core (the (dir_stat_of (lookup fs' p))) = core (the (dir_stat_of (lookup fs p)))" if "p \<in> set (chain_of parent)" for p
    using same [OF that] by auto
  have anc: "ancestor_ok e a b \<Longrightarrow> core a = core a' \<Longrightarrow> core b = core b' \<Longrightarrow> ancestor_ok e a' b'" for a b a' b'
    by (auto simp: ancestor_ok_def core_def others_write_def is_sticky_def)
  have "\<exists>st. dir_stat_of (lookup fs' p) = Some st \<and> st_uid st \<in> {0, env_euid e}" if "p \<in> set (chain_of parent)" for p
    using same [OF that] by (auto simp: core_def)
  moreover have "ancestor_ok e (the (dir_stat_of (lookup fs' p))) (the (dir_stat_of (lookup fs' q)))"
    if "(p, q) \<in> set (zip (butlast (chain_of parent)) (tl (chain_of parent)))" for p q
  proof -
    have "p \<in> set (chain_of parent)" "q \<in> set (chain_of parent)" using that
      by (meson in_set_butlastD set_zip_leftD) (metis that set_zip_rightD list.set_sel(2) chain_of_def list.distinct(1))
    then show ?thesis using that ok anc core unfolding check_parent_chain_iff by fastforce
  qed
  moreover have "parent \<in> set (chain_of parent)" by (simp add: chain_of_def)
  then have "\<not> others_write (the (dir_stat_of (lookup fs' parent)))"
    using ok core core_same(2) unfolding check_parent_chain_iff by blast
  ultimately show ?thesis unfolding check_parent_chain_iff by blast
qed

lemma chain_short: "p \<in> set (chain_of parent) \<Longrightarrow> length p \<le> length parent"
  by (auto simp: chain_of_def)

lemma writer_fits_disk:
  assumes fits: "writer_fits e True j" and ag: "\<And>p. length p \<le> length (j_task_dir j) \<Longrightarrow> agree (j_disk j) fs' p"
  shows "writer_fits e True (j\<lparr>j_disk := fs'\<rparr>)"
proof -
  have len: "length (j_root j) \<le> length (j_task_dir j)" "length (j_tasks j) \<le> length (j_task_dir j)" "length (j_lock_path j) \<le> length (j_task_dir j)"
    by (simp_all add: j_task_dir_def j_tasks_def j_lock_path_def)
  have "check_parent_chain e fs' (butlast (j_root j)) = Inr ()"
    by (rule agree_parent_chain [where fs = "j_disk j"]) (use fits ag chain_short len in \<open>fastforce simp: writer_fits_def\<close>)+
  moreover have "dir_fits e (j\<lparr>j_disk := fs'\<rparr>) kp" if kp: "kp \<in> set (j_dirs True j)" for kp
  proof -
    obtain k p where k: "kp = (k, p)" by (cases kp)
    from kp k have "k \<in> {''root'', ''tasks'', ''task'', ''evidence''}" "length p \<le> length (j_task_dir j)" using len by (auto simp: j_dirs_def)
    moreover from fits kp k obtain st where st: "private_stat e (j_disk j) p k = Inr st" "map_of (j_ids j) k \<in> {None, Some (node_id st)}"
      by (force simp: writer_fits_def list_all_iff dir_fits_def)
    ultimately obtain st' where "private_stat e fs' p k = Inr st'" "core st' = core st" using agree_private_dir ag by blast
    then show ?thesis using st k by (auto simp: dir_fits_def node_id_def core_def)
  qed
  moreover have "lock_fits e (j\<lparr>j_disk := fs'\<rparr>)"
  proof -
    from fits obtain opened current where l: "j_lock j = Some opened" "private_stat e (j_disk j) (j_lock_path j) ''lock'' = Inr current"
      "map_of (j_ids j) ''lock'' = Some (node_id opened)" "stat_identity opened = stat_identity current" by (auto simp: writer_fits_def lock_fits_def)
    from private_file [OF l(2)] obtain bs where f: "lookup (j_disk j) (j_lock_path j) = Some (FileN current bs)" by auto
    with agree_at [OF ag [OF len(3)]] have "lookup fs' (j_lock_path j) = lookup (j_disk j) (j_lock_path j)" by (simp add: alike_file)
    with l show ?thesis by (simp add: lock_fits_def private_stat_def)
  qed
  ultimately show ?thesis by (simp add: writer_fits_def list_all_iff)
qed

section \<open>Loading\<close>

definition state_fits :: "env \<Rightarrow> journal \<Rightarrow> json \<Rightarrow> bool" where
  "state_fits e j v \<longleftrightarrow> (\<exists>raw info. read_file e (j_disk j) (j_state_path j) (j_limit j) ''state'' = Inr (raw, info) \<and>
     decode_state (env_pf e) raw (j_limit j) = Inr v \<and> check_state j v = Inr () \<and> j_state_id j \<in> {None, Some (node_id info)})"

definition load_fits :: "env \<Rightarrow> journal \<Rightarrow> json \<Rightarrow> bool" where
  "load_fits e j v \<longleftrightarrow> writer_fits e True j \<and> (j_resume j \<or> j_created j) \<and> state_fits e j v"

lemma read_file_iff:
  "read_file e fs p maximum ''state'' = Inr (raw, info) \<longleftrightarrow>
     private_stat e fs p ''state'' = Inr info \<and> lookup fs p = Some (FileN info raw) \<and> st_size info = int (length raw) \<and> int (length raw) \<le> maximum"
proof -
  have "private_stat e fs p ''state'' = Inr st \<Longrightarrow> \<exists>bs. lookup fs p = Some (FileN st bs)" for st using private_file by simp
  then show ?thesis by (auto simp: read_file_def result_iff)
qed

lemma check_state_ids [simp]: "check_state (j\<lparr>j_ids := i\<rparr>) v = check_state j v" "check_state (j\<lparr>j_disk := f\<rparr>) v = check_state j v"
  "check_state (j\<lparr>j_state_id := s\<rparr>) v = check_state j v"
  by (simp_all add: check_state_def)

lemma records_state: "records e j j' \<Longrightarrow> state_fits e j' v = state_fits e j v"
  by (auto simp: records_def state_fits_def)

lemma records_load: "records e j j' \<Longrightarrow> load_fits e j' v = load_fits e j v"
  using records_fits [of e j j' True] records_state [of e j j' v] by (auto simp: load_fits_def records_def)

lemma writer_fits_less: "writer_fits e True j \<Longrightarrow> writer_fits e task j"
  by (cases task) (auto simp: writer_fits_def j_dirs_def)

lemma read_state_fits:
  assumes "read_state e j = (Inr v, j')"
  shows "\<exists>j1 i. j_require_writer e True False j = (Inr (), j1) \<and> records e j j1 \<and> writer_fits e True j1 \<and> state_fits e j1 v \<and>
    j' = j1\<lparr>j_state_id := Some i\<rparr> \<and> state_fits e j' v"
proof -
  from assms obtain j1 raw info where w: "j_require_writer e True False j = (Inr (), j1)"
    and r: "read_file e (j_disk j1) (j_state_path j1) (j_limit j1) ''state'' = Inr (raw, info)" "decode_state (env_pf e) raw (j_limit j1) = Inr v"
      "check_state j1 v = Inr ()" "(case j_state_id j1 of None \<Rightarrow> True | Some i \<Rightarrow> i = node_id info)" "j' = j1\<lparr>j_state_id := Some (node_id info)\<rparr>"
    by (auto simp: read_state_def io_iff require_Inr_iff)
  from writer_enter [OF w] r show ?thesis using w
    by (intro exI [of _ j1] exI [of _ "node_id info"]) (auto simp: state_fits_def split: option.splits)
qed

lemma state_can_read:
  assumes "writer_fits e True j" and "state_fits e j v"
  shows "\<exists>j'. read_state e j = (Inr v, j')"
proof -
  from writer_can_enter [OF assms(1)] obtain j1 where w: "j_require_writer e True False j = (Inr (), j1)" "records e j j1" by blast
  with assms(2) have "state_fits e j1 v" by (simp add: records_state)
  then obtain raw info where r: "read_file e (j_disk j1) (j_state_path j1) (j_limit j1) ''state'' = Inr (raw, info)" "decode_state (env_pf e) raw (j_limit j1) = Inr v"
    "check_state j1 v = Inr ()" "j_state_id j1 \<in> {None, Some (node_id info)}" by (auto simp: state_fits_def)
  then have "lookup (j_disk j1) (j_state_path j1) \<noteq> None" by (simp add: read_file_iff)
  with w r show ?thesis by (auto simp: read_state_def io_bind_def io_ask_def)
qed

lemma journal_load_fits:
  assumes "journal_load e j = (Inr v, j')"
  shows "load_fits e j v \<and> load_fits e j' v \<and> (\<exists>ids i. j' = j\<lparr>j_ids := ids, j_state_id := Some i\<rparr>)"
proof -
  from assms obtain j1 where w: "j_require_writer e False False j = (Inr (), j1)" and c: "j_resume j1 \<or> j_created j1" and r: "read_state e j1 = (Inr v, j')"
    by (auto simp: journal_load_def io_iff require_Inr_iff)
  from writer_enter [OF w] obtain i1 where j1: "j1 = j\<lparr>j_ids := i1\<rparr>" by (auto simp: records_def)
  from read_state_fits [OF r] obtain j2 i where s: "records e j1 j2" "writer_fits e True j2" "j' = j2\<lparr>j_state_id := Some i\<rparr>" "state_fits e j' v" "state_fits e j2 v" by blast
  then obtain i2 where j2: "j2 = j1\<lparr>j_ids := i2\<rparr>" by (auto simp: records_def)
  have "writer_fits e True j'" using s(2) by (simp add: s(3) writer_fits_def list_all_iff dir_fits_def lock_fits_def)
  moreover have "load_fits e j v"
  proof -
    have "load_fits e j2 v" using s(2,5) c by (auto simp: load_fits_def j2 j1)
    then show ?thesis using records_load [OF s(1)] records_load [of e j j1] writer_enter [OF w] by simp
  qed
  moreover have "j' = j\<lparr>j_ids := i2, j_state_id := Some i\<rparr>" by (simp add: s(3) j1 j2)
  ultimately show ?thesis using c s(4) j1 by (auto simp: load_fits_def simp del: split_paired_Ex)
qed

lemma load_can: "load_fits e j v \<Longrightarrow> \<exists>j'. journal_load e j = (Inr v, j')"
proof -
  assume l: "load_fits e j v"
  then have "writer_fits e False j" using writer_fits_less by (auto simp: load_fits_def)
  from writer_can_enter [OF this] obtain j1 where w: "j_require_writer e False False j = (Inr (), j1)" "records e j j1" by blast
  from records_load [OF w(2)] l have l1: "load_fits e j1 v" by simp
  then have "\<exists>st. private_stat e (j_disk j1) (j_task_dir j1) ''task'' = Inr st"
    by (auto simp: load_fits_def writer_fits_def j_dirs_def dir_fits_def)
  then have "lookup (j_disk j1) (j_task_dir j1) \<noteq> None" by (cases "lookup (j_disk j1) (j_task_dir j1)") (auto simp: private_stat_def)
  with w l1 state_can_read [of e j1 v] show ?thesis by (auto simp: journal_load_def io_bind_def io_ask_def load_fits_def)
qed

section \<open>Phase data and key order\<close>

lemma phase_data_sort:
  assumes wf: "wf_json data" and ok: "phase_data data previous False = Inr ()"
  shows "phase_data (sort_json data) None False = Inr ()"
proof -
  from ok have p: "is_obj data" "str_in (fld ''phase'' data) result_phases" "is_bool (fld ''published_ever'' data)" "is_bool (fld ''begin_attempted'' data)"
    "(case dget ''last_phase'' data of None \<Rightarrow> True | Some v \<Rightarrow> str_in v result_phases)"
    "fld ''channel'' data = JNull \<or> str_in (fld ''channel'' data) [''velo'', ''windows'']"
    "\<not> (truthy (fld ''begin_attempted'' data) \<and> fld ''channel'' data = JNull)"
    "fld ''phase'' data = JStr (u ''COMPLETE'') \<Longrightarrow> check_completion data = Inr ()"
    by (auto simp: phase_data_def result_iff Let_def split: if_splits option.splits)
  have comp: "check_completion (sort_json data) = Inr ()" if c: "check_completion data = Inr ()"
  proof -
    from c have "list_all (\<lambda>(k, v). v = JBool True) (items (fld ''completion'' data))" "has_keys (fld ''completion'' data) [''destination_verified'', ''guest_cleanup_complete'', ''host_cleanup_complete'']"
      "truthy (fld ''published_ever'' data)" "fld ''publication_receipt'' data \<noteq> JNull"
      by (simp_all add: check_completion_def result_iff Let_def)
    moreover have "list_all (\<lambda>(k, v). v = JBool True) (items (sort_json c))" if "list_all (\<lambda>(k, v). v = JBool True) (items c)" for c
      using that by (auto simp: list_all_iff items_sort_json)
    ultimately show ?thesis by (simp add: check_completion_def result_iff Let_def fld_sort_json [OF wf])
  qed
  show ?thesis
    using p comp
    by (auto simp: phase_data_def result_iff Let_def fld_sort_json [OF wf] dget_sort_json [OF wf] split: option.splits)
qed

section \<open>Saving\<close>

lemma install_parts:
  assumes "j_install e (j_task_dir j @ [t]) raw previous j = (Inr (), j')" and "t \<noteq> u ''state.json''"
  shows "\<exists>j1 fs2 st. records e j j1 \<and> writer_fits e True j1 \<and>
    move_node (env_world e) (previous \<noteq> None) (j_task_dir j) t (u ''state.json'') (j_disk j) = Some fs2 \<and>
    private_stat e fs2 (j_state_path j) ''state'' = Inr st \<and> j' = j1\<lparr>j_disk := fs2, j_state_id := Some (node_id st)\<rparr>"
proof -
  from assms(1) obtain j1 jm st where w: "j_require_writer e True False j = (Inr (), j1)"
    and mv: "(case env_fault e of Move_Fault x \<Rightarrow> (Inl x, j1)
       | _ \<Rightarrow> (case move_node (env_world e) (previous \<noteq> None) (j_task_dir j1) (last (j_task_dir j @ [t])) (u ''state.json'') (j_disk j1) of
           None \<Rightarrow> (Inl (if previous = None then Error ''destination_exists'' else PyError ''OSError''), j1)
         | Some fs1 \<Rightarrow> (Inr (), j1\<lparr>j_disk := fs1\<rparr>))) = (Inr (), jm)"
    and st: "private_stat e (j_disk jm) (j_state_path jm) ''state'' = Inr st"
    and fin: "(case env_fault e of Sync_Fault x \<Rightarrow> (Inl x, jm) | _ \<Rightarrow> (Inr (), jm\<lparr>j_state_id := Some (node_id st)\<rparr>)) = (Inr (), j')"
    by (auto simp: j_install_def io_iff on_disk_def require_Inr_iff)
  from mv obtain fs2 where "move_node (env_world e) (previous \<noteq> None) (j_task_dir j1) t (u ''state.json'') (j_disk j1) = Some fs2" "jm = j1\<lparr>j_disk := fs2\<rparr>"
    by (auto split: fault.splits option.splits)
  moreover have "j' = jm\<lparr>j_state_id := Some (node_id st)\<rparr>" using fin by (auto split: fault.splits)
  ultimately have rest: "\<exists>fs2 st. move_node (env_world e) (previous \<noteq> None) (j_task_dir j1) t (u ''state.json'') (j_disk j1) = Some fs2 \<and>
      private_stat e fs2 (j_state_path j1) ''state'' = Inr st \<and> j' = j1\<lparr>j_disk := fs2, j_state_id := Some (node_id st)\<rparr>" using st by auto
  from writer_enter [OF w] have r: "records e j j1" "writer_fits e True j1" by blast+
  then have "j_task_dir j1 = j_task_dir j" "j_disk j1 = j_disk j" "j_state_path j1 = j_state_path j" by (auto simp: records_def)
  with r rest show ?thesis by auto
qed

lemma j_commit_failed_Inl: "j_commit_failed e t own raw n x j \<noteq> (Inr (), j')"
  by (auto simp: j_commit_failed_def Let_def split: prod.splits sum.splits exn.splits if_splits)

lemma j_commit_parts:
  assumes "j_commit e raw n False j = (Inr (), j')"
  shows "\<exists>j1 fs1 fs2 st ids. put_node (env_world e) (j_task_dir j @ [temp_name e]) (new_file e (j_task_dir j @ [temp_name e]) raw) (j_disk j) = Some fs1 \<and>
    move_node (env_world e) True (j_task_dir j) (temp_name e) (u ''state.json'') fs1 = Some fs2 \<and>
    writer_fits e True j1 \<and> j1 = j\<lparr>j_disk := fs1, j_ids := ids\<rparr> \<and> private_stat e fs2 (j_state_path j) ''state'' = Inr st \<and>
    j' = j1\<lparr>j_disk := fs2, j_state_id := Some (node_id st)\<rparr>"
proof -
  from assms obtain j0 old where w: "j_require_writer e True False j = (Inr (), j0)"
    and b: "\<exists>fs1. put_node (env_world e) (j_task_dir j0 @ [temp_name e]) (new_file e (j_task_dir j0 @ [temp_name e]) raw) (j_disk j0) = Some fs1 \<and>
      j_install e (j_task_dir j0 @ [temp_name e]) raw (Some old) (j0\<lparr>j_disk := fs1\<rparr>) = (Inr (), j')"
    using j_commit_failed_Inl
    by (auto simp: j_commit_def io_iff Let_def temp_name_def [symmetric] rbind_Inr_iff require_Inr_iff
        split: fault.splits option.splits prod.splits sum.splits)
  from writer_enter [OF w] obtain i0 where j0: "j0 = j\<lparr>j_ids := i0\<rparr>" by (auto simp: records_def)
  from b obtain fs1 where put: "put_node (env_world e) (j_task_dir j @ [temp_name e]) (new_file e (j_task_dir j @ [temp_name e]) raw) (j_disk j) = Some fs1"
    and inst: "j_install e (j_task_dir (j0\<lparr>j_disk := fs1\<rparr>) @ [temp_name e]) raw (Some old) (j0\<lparr>j_disk := fs1\<rparr>) = (Inr (), j')" by (auto simp: j0)
  from install_parts [OF inst temp_name_state] obtain j1 fs2 st where
    "records e (j0\<lparr>j_disk := fs1\<rparr>) j1" "writer_fits e True j1"
    "move_node (env_world e) True (j_task_dir j) (temp_name e) (u ''state.json'') fs1 = Some fs2"
    "private_stat e fs2 (j_state_path j) ''state'' = Inr st" "j' = j1\<lparr>j_disk := fs2, j_state_id := Some (node_id st)\<rparr>"
    by (auto simp: j0)
  moreover from this(1) obtain ids where "j1 = j\<lparr>j_disk := fs1, j_ids := ids\<rparr>" by (auto simp: records_def j0)
  ultimately show ?thesis using put by blast
qed

section \<open>Saved states\<close>

definition j_fields :: "journal \<Rightarrow> int \<Rightarrow> json \<Rightarrow> json \<Rightarrow> (string \<times> json) list" where
  "j_fields j n deadline data = [(''schema'', journal_schema), (''transfer_id'', hr_transfer_id (j_request j)), (''binding'', j_binding j),
     (''deadline_monotonic'', deadline), (''revision'', JInt n), (''data'', data)]"

lemma j_encode_iff:
  "j_encode j n deadline data = Inr (v, raw) \<longleftrightarrow>
     validate_json (nat (j_limit j)) (obj (j_fields j n deadline data @ [(''sha256'', JStr (replicate 64 48))])) = Inr () \<and>
     (\<exists>h. digest_json (obj (j_fields j n deadline data)) = Inr h \<and> v = obj (j_fields j n deadline data @ [(''sha256'', JStr h)])) \<and>
     canonical_json v = Inr raw \<and> int (length raw) \<le> j_limit j"
  by (auto simp: j_encode_def j_fields_def result_iff Let_def)

lemma journal_save_parts:
  assumes "journal_save e r data j = (Inr v, j')"
  shows "\<exists>j2 old raw ids i. load_fits e j2 old \<and> load_fits e j old \<and> j2 = j\<lparr>j_ids := ids, j_state_id := Some i\<rparr> \<and> fld ''revision'' old = r \<and> is_count r \<and>
    phase_data data (Some (fld ''data'' old)) False = Inr () \<and>
    j_encode j2 (int_of r + 1) (fld ''deadline_monotonic'' old) data = Inr (v, raw) \<and> j_commit e raw (int_of r + 1) False j2 = (Inr (), j')"
proof -
  from assms obtain j1 old j2 raw where w: "j_require_writer e False False j = (Inr (), j1)" and l: "journal_load e j1 = (Inr old, j2)"
    and r: "fld ''revision'' old = r" "is_count r" "phase_data data (Some (fld ''data'' old)) False = Inr ()"
      "j_encode j2 (int_of r + 1) (fld ''deadline_monotonic'' old) data = Inr (v, raw)" "j_commit e raw (int_of r + 1) False j2 = (Inr (), j')"
    by (auto simp: journal_save_def io_iff require_Inr_iff)
  from writer_enter [OF w] obtain i1 where "j1 = j\<lparr>j_ids := i1\<rparr>" by (auto simp: records_def)
  moreover have "load_fits e j old" using journal_load_fits [OF l] records_load [of e j j1 old] writer_enter [OF w] by simp
  ultimately show ?thesis using journal_load_fits [OF l] r by (auto simp del: split_paired_Ex)
qed

lemma finite_deadline_leaf: "finite_deadline d \<Longrightarrow> sort_json d = d"
  by (cases d) (auto simp: finite_deadline_def)

lemma envelope_state_fits:
  assumes enc: "j_encode j n deadline data = Inr (v, raw)" and wf: "wf_json v" and fl: "floats_ok (env_pf e) v" and n: "0 \<le> n"
    and dl: "finite_deadline deadline" "positive_number deadline" and ph: "phase_data data previous False = Inr ()"
    and placed: "lookup (j_disk j) (j_state_path j) = Some (new_file e q raw)" and id: "j_state_id j = Some i" and tid: "hr_transfer_id (j_request j) = JStr tn"
    and stat: "\<And>st. private_stat e (j_disk j) (j_state_path j) ''state'' = Inr st \<Longrightarrow> i = node_id st"
  shows "state_fits e j (sort_json v)"
proof -
  let ?fs = "j_fields j n deadline data"
  from enc obtain h where h: "digest_json (obj ?fs) = Inr h" and v: "v = obj (?fs @ [(''sha256'', JStr h)])" and can: "canonical_json v = Inr raw"
    and len: "int (length raw) \<le> j_limit j" and acc: "validate_json (nat (j_limit j)) (obj (?fs @ [(''sha256'', JStr (replicate 64 48))])) = Inr ()"
    by (auto simp: j_encode_iff)
  have keys: "''sha256'' \<notin> fst ` set ?fs" by (simp add: j_fields_def)
  have hex: "is_hex64 h" using sha.dig_hex [OF h] .
  from canonical_json_reads_back [OF can wf fl] have "rbind (decode_utf8 raw) (loads (env_pf e) (unique_pairs (Error ''duplicate_state_key'')) (no_constant invalid_state)) = Inr (sort_json v)" .
  moreover have "validate_json (nat (j_limit j)) (sort_json v) = Inr ()"
    using validate_json_sorted [OF wf] sealed_accounted [OF acc hex] v by simp
  ultimately have dec: "decode_state (env_pf e) raw (j_limit j) = Inr (sort_json v)"
    using len can by (auto simp: decode_state_def rbind_Inr_iff)
  obtain st where st: "new_file e q raw = FileN st raw" "st_size st = int (length raw)" "st_mode st = 384" "st_nlink st = 1" "st_uid st = env_euid e"
    by (simp add: new_file_def)
  have priv: "private_stat e (j_disk j) (j_state_path j) ''state'' = Inr st" using placed st by (simp add: private_stat_def)
  then have read: "read_file e (j_disk j) (j_state_path j) (j_limit j) ''state'' = Inr (raw, st)" using placed st len by (simp add: read_file_iff)
  have f: "fld k v = (case map_of ?fs k of None \<Rightarrow> JNull | Some w \<Rightarrow> w)" if "k \<noteq> ''sha256''" for k
    using that by (simp add: v map_add_def split: option.splits)
  have fields: "fld ''schema'' v = journal_schema" "fld ''transfer_id'' v = hr_transfer_id (j_request j)" "fld ''binding'' v = j_binding j"
    "fld ''deadline_monotonic'' v = deadline" "fld ''revision'' v = JInt n" "fld ''data'' v = data"
    by (simp_all add: f j_fields_def)
  have wfd: "wf_json data" using wf by (simp add: v j_fields_def wf_json_obj)
  have sha: "fld ''sha256'' v = JStr h" unfolding v by (rule fld_sealed [OF keys])
  have hk: "has_keys v j_envelope_keys" by (simp add: v j_fields_def j_envelope_keys_def same_set_def)
  have wos: "digest_json (without [''sha256''] (sort_json v)) = Inr h" by (simp add: without_sort v without_sealed [OF keys] h)
  have "\<exists>bs. canonical_json (j_binding j) = Inr bs"
  proof -
    have "dumpable v" "list_all is_scalar (dumps (sort_json v))" using can by (simp_all add: canonical_json_Inr)
    then have "dumpable (j_binding j)" "text_ok v" using scalar_dumps [of "sort_json v"] wf
      by (simp_all add: v j_fields_def obj_def sort_json_invariants sort_json_measures del: sort_json.simps)
    moreover have "text_ok (j_binding j)" "wf_json (j_binding j)" using \<open>text_ok v\<close> wf by (simp_all add: v j_fields_def obj_def)
    ultimately show ?thesis using scalar_dumps [of "sort_json (j_binding j)"] by (simp add: canonical_json_Inr sort_json_invariants sort_json_measures)
  qed
  then obtain bb where bb: "canonical_json (j_binding j) = Inr bb" by blast
  have "check_state j (sort_json v) = Inr ()"
    using hk wos hex n dl bb tid phase_data_sort [OF wfd ph]
    by (simp add: check_state_def fld_sort_json [OF wf] fields sha finite_deadline_leaf journal_schema_def is_count_def)
  then show ?thesis unfolding state_fits_def using read dec id stat [OF priv] by blast
qed

lemma journal_save_loads:
  assumes calm: "calm (env_world e)" and save: "journal_save e r data j = (Inr v, j')"
    and wf: "wf_json v" and fl: "floats_ok (env_pf e) v" and tid: "hr_transfer_id (j_request j) = JStr tn"
  shows "load_fits e j' (sort_json v) \<and> fld ''revision'' v = JInt (int_of r + 1) \<and> fld ''data'' v = data"
proof -
  from journal_save_parts [OF save] obtain j2 old raw ids i where fits: "load_fits e j2 old" and j2: "j2 = j\<lparr>j_ids := ids, j_state_id := Some i\<rparr>"
    and r: "is_count r" and ph: "phase_data data (Some (fld ''data'' old)) False = Inr ()"
    and enc: "j_encode j2 (int_of r + 1) (fld ''deadline_monotonic'' old) data = Inr (v, raw)" and commit: "j_commit e raw (int_of r + 1) False j2 = (Inr (), j')"
    by blast
  from j_commit_parts [OF commit] obtain j3 fs1 fs2 st ids' where
    put: "put_node (env_world e) (j_task_dir j2 @ [temp_name e]) (new_file e (j_task_dir j2 @ [temp_name e]) raw) (j_disk j2) = Some fs1"
    and mv: "move_node (env_world e) True (j_task_dir j2) (temp_name e) (u ''state.json'') fs1 = Some fs2"
    and w3: "writer_fits e True j3" and j3: "j3 = j2\<lparr>j_disk := fs1, j_ids := ids'\<rparr>"
    and st: "private_stat e fs2 (j_state_path j2) ''state'' = Inr st" and j': "j' = j3\<lparr>j_disk := fs2, j_state_id := Some (node_id st)\<rparr>"
    by blast
  have "writer_fits e True (j3\<lparr>j_disk := fs2\<rparr>)"
  proof (rule writer_fits_disk [OF w3])
    fix p :: path assume "length p \<le> length (j_task_dir j3)"
    then show "agree (j_disk j3) fs2 p" using move_node_agree [OF calm mv] within_short by (simp add: j3)
  qed
  then have w: "writer_fits e True j'" by (simp add: j' writer_fits_def list_all_iff dir_fits_def lock_fits_def)
  have dl: "finite_deadline (fld ''deadline_monotonic'' old)" "positive_number (fld ''deadline_monotonic'' old)"
    using fits by (auto simp: load_fits_def state_fits_def check_state_def result_iff)
  have enc': "j_encode j' (int_of r + 1) (fld ''deadline_monotonic'' old) data = Inr (v, raw)" using enc by (simp add: j' j3 j_encode_def)
  have placed: "lookup (j_disk j') (j_state_path j') = Some (new_file e (j_task_dir j2 @ [temp_name e]) raw)"
    using move_node_lookup(1) [OF mv] put_node_lookup(1) [OF put] by (simp add: j' j3 j_state_path_def)
  have n: "0 \<le> int_of r + 1" using r by (cases r) (auto simp: is_count_def)
  have "state_fits e j' (sort_json v)"
    by (rule envelope_state_fits [OF enc' wf fl n dl ph placed, where i = "node_id st" and tn = tn]) (use st tid in \<open>auto simp: j' j3 j2\<close>)
  moreover have "j_resume j' \<or> j_created j'" using fits by (auto simp: load_fits_def j' j3)
  ultimately have "load_fits e j' (sort_json v)" using w by (simp add: load_fits_def)
  moreover have "fld ''revision'' v = JInt (int_of r + 1)" "fld ''data'' v = data" using enc by (auto simp: j_encode_iff j_fields_def)
  ultimately show ?thesis by blast
qed

end
