(* ===== verification/Revisions.thy ===== *)
theory Revisions
  imports Disk
begin

text \<open>
  Stores of one value under a revision, whatever they keep it in. A write names the revision that it
  expects; \<open>'l\<close> is what decides whether system calls fail.
\<close>

section \<open>The register\<close>

text \<open>
  The abstract store: a revision and a content. A write that takes effect has named the current
  revision, and leaves the next one.
\<close>

fun swaps :: "(bool \<times> int \<times> 'c) list \<Rightarrow> int \<times> 'c \<Rightarrow> int \<times> 'c" where
  "swaps [] reg = reg"
| "swaps ((effect, n, c) # ws) reg = swaps ws (if effect \<and> n = fst reg then (n + 1, c) else reg)"

fun attempts :: "('l \<Rightarrow> int \<Rightarrow> 'c \<Rightarrow> ('s, 'v) io) \<Rightarrow> ('l \<times> int \<times> 'c) list \<Rightarrow> ('s, 'v result list) io" where
  "attempts save [] s = (Inr [], s)"
| "attempts save ((l, n, c) # ws) s = (case save l n c s of (r, s1) \<Rightarrow>
     (case attempts save ws s1 of (Inr rs, s2) \<Rightarrow> (Inr (r # rs), s2) | (Inl x, s2) \<Rightarrow> (Inl x, s2)))"

text \<open>A run of writes that all succeed.\<close>

fun saves :: "('l \<Rightarrow> int \<Rightarrow> 'c \<Rightarrow> ('s, 'v) io) \<Rightarrow> ('l \<times> int \<times> 'c) list \<Rightarrow> ('s, unit) io" where
  "saves save [] = io_lift (Inr ())"
| "saves save ((l, n, c) # ws) = io_bind (save l n c) (\<lambda>_. saves save ws)"

text \<open>The writes of a run as the register sees them: with the content they leave.\<close>

definition register_writes :: "('c \<Rightarrow> 'd) \<Rightarrow> bool list \<Rightarrow> ('l \<times> int \<times> 'c) list \<Rightarrow> (bool \<times> int \<times> 'd) list" where
  "register_writes stored effects ws = zip effects (map (\<lambda>(l, n, c). (n, stored c)) ws)"

text \<open>
  What a run of attempts has to do with the register: it has gone through the writes that took
  effect, and those had named the revision that was current.
\<close>

definition register_run :: "('c \<Rightarrow> 'd) \<Rightarrow> bool list \<Rightarrow> ('l \<times> int \<times> 'c) list \<Rightarrow> int \<times> 'd \<Rightarrow> int \<times> 'd \<Rightarrow> bool" where
  "register_run stored effects ws reg reg' \<longleftrightarrow>
     length effects = length ws \<and> reg' = swaps (register_writes stored effects ws) reg \<and>
     (\<forall>i < length ws. effects ! i \<longrightarrow> fst (swaps (take i (register_writes stored effects ws)) reg) = fst (snd (ws ! i)))"

lemma register_run_Nil: "register_run stored [] [] reg reg"
  by (simp add: register_run_def register_writes_def)

lemma register_run_Cons:
  assumes "register_run stored effects ws mid reg'" and "if effect then fst reg = n \<and> mid = (n + 1, stored c) else mid = reg"
  shows "register_run stored (effect # effects) ((l, n, c) # ws) reg reg'"
proof -
  have cons: "register_writes stored (effect # effects) ((l, n, c) # ws) = (effect, n, stored c) # register_writes stored effects ws"
    by (simp add: register_writes_def)
  have one: "swaps ((effect, n, stored c) # xs) reg = swaps xs mid" for xs
    using assms(2) by (cases effect) simp_all
  note step = one [of "register_writes stored effects ws", folded cons]
    one [of "take i (register_writes stored effects ws)" for i, folded take_Suc_Cons, folded cons]
  have "fst (swaps (take i (register_writes stored (effect # effects) ((l, n, c) # ws))) reg) = fst (snd (((l, n, c) # ws) ! i))"
    if "i < length ((l, n, c) # ws)" "(effect # effects) ! i" for i
  proof (cases i)
    case 0
    then show ?thesis using that(2) assms(2) by simp
  next
    case (Suc k)
    then show ?thesis using that assms(1) step(2) [of k] by (simp add: register_run_def)
  qed
  with assms(1) step(1) show ?thesis by (simp add: register_run_def)
qed

lemma swaps_revision: "fst reg \<le> fst (swaps ws reg)"
proof (induction ws arbitrary: reg)
  case (Cons w ws)
  obtain b n c where "w = (b, n, c)" by (cases w)
  with Cons.IH [of "if b \<and> n = fst reg then (n + 1, c) else reg"] show ?case by (auto split: if_splits)
qed simp

lemma swaps_effect: "i < length ws \<Longrightarrow> ws ! i = (True, n, c) \<Longrightarrow> fst (swaps (take i ws) reg) = n \<Longrightarrow> n < fst (swaps ws reg)"
proof (induction ws arbitrary: i reg)
  case (Cons w ws)
  obtain b m d where w: "w = (b, m, d)" by (cases w)
  show ?case
  proof (cases i)
    case 0
    with Cons.prems w swaps_revision [of "(n + 1, c)" ws] show ?thesis by auto
  next
    case (Suc k)
    with Cons.prems Cons.IH [of k] w show ?thesis by auto
  qed
qed simp

section \<open>Interfaces\<close>

locale revision_store =
  fixes load :: "'s \<Rightarrow> 'v result" and save :: "'l \<Rightarrow> int \<Rightarrow> 'c \<Rightarrow> ('s, 'v) io"
    and rev_of :: "'v \<Rightarrow> int" and content :: "'v \<Rightarrow> 'd" and stored :: "'c \<Rightarrow> 'd" and good :: "'l \<Rightarrow> 'c \<Rightarrow> bool" and sane :: "'s \<Rightarrow> bool"
  assumes save_expects: "save l n c s = (Inr v, s') \<Longrightarrow> \<exists>old. load s = Inr old \<and> rev_of old = n"
    and save_loads: "sane s \<Longrightarrow> good l c \<Longrightarrow> save l n c s = (Inr v, s') \<Longrightarrow> \<exists>new. load s' = Inr new \<and> rev_of new = n + 1 \<and> content new = stored c"
    and sane_kept: "sane s \<Longrightarrow> good l c \<Longrightarrow> save l n c s = (Inr v, s') \<Longrightarrow> sane s'"
begin

text \<open>Writes that all succeed name consecutive revisions, and the last of them is what is read.\<close>

lemma saves_consecutive:
  "saves save ws s = (Inr (), s') \<Longrightarrow> \<forall>(l, n, c) \<in> set ws. good l c \<Longrightarrow> sane s \<Longrightarrow> load s = Inr old \<Longrightarrow>
     map (\<lambda>(l, n, c). n) ws = map (\<lambda>i. rev_of old + int i) [0..<length ws] \<and>
     (\<exists>new. load s' = Inr new \<and> rev_of new = rev_of old + int (length ws) \<and>
       content new = (if ws = [] then content old else stored (snd (snd (last ws)))))"
proof (induction ws arbitrary: s old)
  case (Cons w ws)
  obtain l n c where w: "w = (l, n, c)" by (cases w)
  from Cons.prems(1) w obtain v s1 where v: "save l n c s = (Inr v, s1)" "saves save ws s1 = (Inr (), s')" by (auto simp: io_iff)
  have g: "good l c" using Cons.prems(2) w by auto
  note sane = sane_kept [OF Cons.prems(3) g v(1)]
  from save_expects [OF v(1)] Cons.prems(4) have n: "rev_of old = n" by simp
  from save_loads [OF Cons.prems(3) g v(1)] obtain new where new: "load s1 = Inr new" "rev_of new = n + 1" "content new = stored c" by auto
  have tail: "map (\<lambda>(l, n, c). n) ws = map (\<lambda>i. rev_of new + int i) [0..<length ws]"
    "\<exists>last_v. load s' = Inr last_v \<and> rev_of last_v = rev_of new + int (length ws) \<and>
       content last_v = (if ws = [] then content new else stored (snd (snd (last ws))))"
    using Cons.IH [OF v(2) _ sane new(1)] Cons.prems(2) by auto
  have "map (\<lambda>i. rev_of old + int i) [0..<Suc (length ws)] = rev_of old # map (\<lambda>i. rev_of new + int i) [0..<length ws]"
    by (simp add: n new(2) upt_conv_Cons map_Suc_upt [symmetric] algebra_simps del: upt_Suc)
  with tail(1) n w have "map (\<lambda>(l, n, c). n) (w # ws) = map (\<lambda>i. rev_of old + int i) [0..<length (w # ws)]" by simp
  with tail(2) show ?case using new n w by auto
qed (auto simp: io_iff)

end

text \<open>A store that keeps facts: what one value says stays said.\<close>

locale fact_store = revision_store load save rev_of content stored good sane
  for load :: "'s \<Rightarrow> 'v result" and save :: "'l \<Rightarrow> int \<Rightarrow> 'c \<Rightarrow> ('s, 'v) io"
    and rev_of :: "'v \<Rightarrow> int" and content :: "'v \<Rightarrow> 'd" and stored :: "'c \<Rightarrow> 'd" and good :: "'l \<Rightarrow> 'c \<Rightarrow> bool" and sane :: "'s \<Rightarrow> bool" +
  fixes fact :: "'f \<Rightarrow> 'v \<Rightarrow> bool"
  assumes fact_kept: "sane s \<Longrightarrow> good l c \<Longrightarrow> save l n c s = (Inr v, s') \<Longrightarrow> load s = Inr old \<Longrightarrow> load s' = Inr new \<Longrightarrow> fact f old \<Longrightarrow> fact f new"
begin

lemma saves_keep_facts:
  "saves save ws s = (Inr (), s') \<Longrightarrow> \<forall>(l, n, c) \<in> set ws. good l c \<Longrightarrow> sane s \<Longrightarrow> load s = Inr old \<Longrightarrow> fact f old \<Longrightarrow>
     \<exists>new. load s' = Inr new \<and> fact f new"
proof (induction ws arbitrary: s old)
  case (Cons w ws)
  obtain l n c where w: "w = (l, n, c)" by (cases w)
  from Cons.prems(1) w obtain v s1 where v: "save l n c s = (Inr v, s1)" "saves save ws s1 = (Inr (), s')" by (auto simp: io_iff)
  have g: "good l c" using Cons.prems(2) w by auto
  note sane = sane_kept [OF Cons.prems(3) g v(1)]
  from save_loads [OF Cons.prems(3) g v(1)] obtain new where new: "load s1 = Inr new" by blast
  with fact_kept [OF Cons.prems(3) g v(1) Cons.prems(4) new Cons.prems(5)] Cons.IH [OF v(2) _ sane new] Cons.prems(2) show ?case by auto
qed (auto simp: io_iff)

end

text \<open>A store whose writes are atomic: they take effect or they do not, and the result \<open>says\<close> which.\<close>

locale atomic_store = revision_store load save rev_of content stored good sane
  for load :: "'s \<Rightarrow> 'v result" and save :: "'l \<Rightarrow> int \<Rightarrow> 'c \<Rightarrow> ('s, 'v) io"
    and rev_of :: "'v \<Rightarrow> int" and content :: "'v \<Rightarrow> 'd" and stored :: "'c \<Rightarrow> 'd" and good :: "'l \<Rightarrow> 'c \<Rightarrow> bool" and sane :: "'s \<Rightarrow> bool" +
  fixes says :: "'v result \<Rightarrow> bool \<Rightarrow> bool"
  assumes save_atomic: "sane s \<Longrightarrow> good l c \<Longrightarrow> load s = Inr old \<Longrightarrow> save l n c s = (r, s') \<Longrightarrow>
      \<exists>effect new. says r effect \<and> load s' = Inr new \<and>
        (if effect then rev_of old = n \<and> rev_of new = n + 1 \<and> content new = stored c else new = old) \<and> sane s'"
    and success_says: "says (Inr v) effect \<Longrightarrow> effect"
begin

text \<open>Any sequence of attempts, whatever fails, is a run of the register.\<close>

lemma attempts_refine:
  assumes "\<forall>(l, n, c) \<in> set ws. good l c" and "sane s" and "load s = Inr old" and "attempts save ws s = (out, s')"
  shows "\<exists>rs effects new. out = Inr rs \<and> list_all2 says rs effects \<and> load s' = Inr new \<and>
    register_run stored effects ws (rev_of old, content old) (rev_of new, content new)"
  using assms
proof (induction ws arbitrary: s old out)
  case Nil
  then show ?case using register_run_Nil by fastforce
next
  case (Cons w ws)
  obtain l n c where w: "w = (l, n, c)" by (cases w)
  obtain r s1 where r: "save l n c s = (r, s1)" by fastforce
  from save_atomic [OF Cons.prems(2) _ Cons.prems(3) r] Cons.prems(1) w obtain effect mid where mid: "says r effect" "load s1 = Inr mid"
    "if effect then rev_of old = n \<and> rev_of mid = n + 1 \<and> content mid = stored c else mid = old" "sane s1" by auto
  obtain out1 where rest: "attempts save ws s1 = (out1, s')"
    using Cons.prems(4) w r by (cases "attempts save ws s1") (auto split: sum.splits)
  from Cons.IH [OF _ mid(4,2) rest] Cons.prems(1) obtain rs effects new where ih: "out1 = Inr rs" "list_all2 says rs effects" "load s' = Inr new"
    "register_run stored effects ws (rev_of mid, content mid) (rev_of new, content new)" by auto
  have "register_run stored (effect # effects) (w # ws) (rev_of old, content old) (rev_of new, content new)"
    unfolding w by (rule register_run_Cons [OF ih(4)]) (use mid(3) in \<open>auto split: if_splits\<close>)
  moreover have "out = Inr (r # rs)" using Cons.prems(4) w r rest ih(1) by simp
  ultimately show ?case using ih(2,3) mid(1) by (intro exI [of _ "r # rs"] exI [of _ "effect # effects"] exI [of _ new]) simp
qed

text \<open>Two attempts that both succeed have named different revisions, the later one the greater.\<close>

lemma no_lost_update:
  assumes good: "\<forall>(l, n, c) \<in> set ws. good l c" and sane: "sane s" and load: "load s = Inr old" and run: "attempts save ws s = (Inr rs, s')"
    and i: "i < j" "j < length ws" and ok: "rs ! i = Inr v" "rs ! j = Inr w"
  shows "fst (snd (ws ! i)) < fst (snd (ws ! j))"
proof -
  from attempts_refine [OF good sane load run] obtain effects new where e: "list_all2 says rs effects"
    "register_run stored effects ws (rev_of old, content old) (rev_of new, content new)" by auto
  let ?zs = "register_writes stored effects ws" and ?reg = "(rev_of old, content old)"
  have len: "length effects = length ws" and at: "k < length ws \<Longrightarrow> effects ! k \<Longrightarrow> fst (swaps (take k ?zs) ?reg) = fst (snd (ws ! k))" for k
    using e(2) by (simp_all add: register_run_def)
  have "says (rs ! k) (effects ! k)" if "k < length ws" for k using e(1) that len by (simp add: list_all2_conv_all_nth)
  from this [of i] this [of j] have eff: "effects ! i" "effects ! j" using ok i success_says by auto
  obtain l n c where wi: "ws ! i = (l, n, c)" by (cases "ws ! i")
  have "n < fst (swaps (take j ?zs) ?reg)"
  proof (rule swaps_effect [of i _ n "stored c"])
    show "i < length (take j ?zs)" using i len by (simp add: register_writes_def)
    show "take j ?zs ! i = (True, n, stored c)" using i len eff(1) wi by (simp add: register_writes_def)
    show "fst (swaps (take i (take j ?zs)) ?reg) = n" using at [of i] i eff(1) wi by (simp add: min_absorb1)
  qed
  with at [of j] i(2) eff(2) wi show ?thesis by simp
qed

end

end
