(* ===== verification/Store_Updates.thy ===== *)
theory Store_Updates
  imports Store Revisions
begin

text \<open>
  Updates of one task in the task store: the store satisfies the interface of an atomic store of
  revisions, and what that gives for any sequence of updates.
\<close>

section \<open>The task store as a store of revisions\<close>

text \<open>What is left open when the rest of the environment is fixed: the faults and the fresh names.\<close>

type_synonym luck = "fault \<times> pystr \<times> bool"

definition lucky :: "env \<Rightarrow> luck \<Rightarrow> env" where
  "lucky e l = e\<lparr>env_fault := fst l, env_fresh := fst (snd l), env_unlink := snd (snd l)\<rparr>"

lemma lucky_fields [simp]: "env_ucd (lucky e l) = env_ucd e" "env_wide (lucky e l) = env_wide e" "env_pf (lucky e l) = env_pf e"
  "env_euid (lucky e l) = env_euid e" "env_now (lucky e l) = env_now e" "env_world (lucky e l) = env_world e"
  "env_fault (lucky e l) = fst l"
  by (simp_all add: lucky_def)

lemma lucky_store_check [simp]: "store_check (lucky e l) = store_check e"
  by (intro ext) (simp add: store_check_def)

lemma lucky_parse [simp]: "parse_envelope (lucky e l) = parse_envelope e" "make_dir (lucky e l) = make_dir e"
  by (intro ext, simp add: parse_envelope_def) (intro ext, simp add: make_dir_def private_dir_def)

lemma lucky_store_read [simp]: "store_read (lucky e l) = store_read e"
  by (intro ext) (simp add: store_read_def cong: node.case_cong)

lemma lucky_task_ready [simp]: "task_ready (lucky e l) = task_ready e"
  by (intro ext) (simp add: task_ready_def)

lemma lucky_state_path: "state_path (lucky e l) ts False = state_path e ts False"
  by (intro ext) (simp add: state_path_def task_dir_def ensure_dir_def cong: if_cong)

lemma lucky_store_load [simp]: "store_load (lucky e l) = store_load e"
  by (intro ext) (simp add: store_load_def lucky_state_path)

text \<open>The writes that are considered: an object store whose task, binding and new state can be encoded.\<close>

definition writes_ok :: "env \<Rightarrow> task_store \<Rightarrow> json \<Rightarrow> json \<Rightarrow> luck \<Rightarrow> json \<Rightarrow> bool" where
  "writes_ok e ts t b l s \<longleftrightarrow> calm (env_world e) \<and> os_fault (fst l) \<and> is_obj (store_owner ts) \<and>
     policy_path (store_policy ts) \<noteq> state_place ts (str_of t) \<and>
     wf_json (obj (envelope_fields ts t b 0 s)) \<and> floats_ok (env_pf e) (obj (envelope_fields ts t b 0 s))"

definition stored_load :: "env \<Rightarrow> task_store \<Rightarrow> json \<Rightarrow> json \<Rightarrow> node \<Rightarrow> json result" where
  "stored_load e ts t b fs = fst (store_load e ts t b fs)"

definition stored_save :: "env \<Rightarrow> task_store \<Rightarrow> json \<Rightarrow> json \<Rightarrow> luck \<Rightarrow> int \<Rightarrow> json \<Rightarrow> (node, json) io" where
  "stored_save e ts t b l n s = store_save (lucky e l) ts t b (JInt n) s"

definition envelope_revision :: "json \<Rightarrow> int" where
  "envelope_revision v = int_of (fld ''revision'' v)"

text \<open>Contents are compared by their canonical bytes: what is read back has sorted keys.\<close>

definition envelope_content :: "json \<Rightarrow> byte list result" where
  "envelope_content v = canonical_json (fld ''state'' v)"

definition save_says :: "json result \<Rightarrow> bool \<Rightarrow> bool" where
  "save_says r effect \<longleftrightarrow> (case r of Inr v \<Rightarrow> effect | Inl x \<Rightarrow>
     effect \<longrightarrow> x = interrupt \<or> x = Error ''storage_durability_unknown'')"

lemma stored_load_iff: "stored_load e ts t b fs = Inr v \<longleftrightarrow> store_load e ts t b fs = (Inr v, fs)"
  by (cases "store_load e ts t b fs") (auto simp: stored_load_def dest: store_load_keeps)

lemma envelope_any_revision:
  "wf_json (obj (envelope_fields ts t b 0 s)) \<Longrightarrow> wf_json (obj (envelope_fields ts t b n s))"
  "floats_ok pf (obj (envelope_fields ts t b 0 s)) \<Longrightarrow> floats_ok pf (obj (envelope_fields ts t b n s))"
  by (auto simp: envelope_fields_def wf_json_obj) (simp_all add: obj_def)

lemma encoded_wf:
  assumes "store_encode e ts t b n s fs = Inr (v, raw)" and "wf_json (obj (envelope_fields ts t b n s))"
  shows "wf_json v \<and> fld ''state'' v = s \<and> fld ''revision'' v = JInt n \<and> fld ''transfer_id'' v = t \<and> fld ''binding'' v = b"
proof -
  from assms(1) obtain bs where v: "v = obj (envelope_fields ts t b n s @ [(''sha256'', JStr (sha256_hex bs))])" by (auto simp: store_encode_iff)
  have "wf_json v" unfolding v by (rule wf_sealed [OF assms(2)]) (simp_all add: envelope_fields_def)
  then show ?thesis by (simp add: v envelope_fields_def)
qed

lemma stored_expects: "stored_save e ts t b l n s fs = (Inr v, fs') \<Longrightarrow> \<exists>old. stored_load e ts t b fs = Inr old \<and> envelope_revision old = n"
  using store_save_parts [of "lucky e l" ts t b "JInt n" s fs v fs']
  by (auto simp: stored_save_def stored_load_iff envelope_revision_def)

lemma stored_loads:
  assumes ok: "writes_ok e ts t b l s" and save: "stored_save e ts t b l n s fs = (Inr v, fs')"
  shows "wf_json v \<and> fld ''state'' v = s \<and> fld ''revision'' v = JInt (n + 1) \<and> fld ''transfer_id'' v = t \<and> fld ''binding'' v = b \<and>
    stored_load e ts t b fs' = Inr (sort_json v)"
proof -
  note save' = save [unfolded stored_save_def]
  from ok have w: "calm (env_world (lucky e l))" "wf_json (obj (envelope_fields ts t b (n + 1) s))" "floats_ok (env_pf (lucky e l)) (obj (envelope_fields ts t b (n + 1) s))"
    "is_obj (store_owner ts)" "\<And>name. t = JStr name \<Longrightarrow> policy_path (store_policy ts) \<noteq> state_place ts name"
    unfolding writes_ok_def using envelope_any_revision by auto
  from store_save_loads [OF w(1) save' w(5) w(2,3,4)]
  have l: "store_load e ts t b fs' = (Inr (sort_json v), fs')" by simp
  from store_save_parts [OF save'] obtain raw where "store_encode (lucky e l) ts t b (n + 1) s fs = Inr (v, raw)" by auto
  from encoded_wf [OF this w(2)] l show ?thesis by (simp add: stored_load_iff)
qed

text \<open>A write that fails before the commit has changed nothing; the commit itself is atomic.\<close>

lemma save_fails_where:
  assumes load: "store_load e ts t b fs = (Inr old, fs)" and save: "store_save e ts t b r s fs = (Inl x, fs')"
  shows "fs' = fs \<or> (\<exists>name v raw. t = JStr name \<and> fld ''revision'' old = r \<and> is_count r \<and> require_writer e ts fs = Inr () \<and>
    store_encode e ts t b (int_of r + 1) s fs = Inr (v, raw) \<and> store_commit e ts (state_place ts name) raw (int_of r + 1) fs = (Inl x, fs'))"
  using save
  apply (simp only: store_save_def io_iff Let_def)
  apply (elim disjE exE conjE)
  using load
  by (auto simp: io_iff result_iff store_binding_iff store_transfer_id_iff state_path_iff dest: store_load_keeps state_path_keeps)

lemma stored_outcome:
  assumes ok: "writes_ok e ts t b l s" and load: "stored_load e ts t b fs = Inr old" and save: "stored_save e ts t b l n s fs = (r, fs')"
  shows "\<exists>effect new. save_says r effect \<and> stored_load e ts t b fs' = Inr new \<and>
    (if effect then envelope_revision old = n \<and> envelope_revision new = n + 1 \<and> fld ''state'' new = sort_json s else new = old)"
proof (cases r)
  case (Inr v)
  with stored_expects [of e ts t b l n s fs v fs'] stored_loads [OF ok, of n fs v fs'] save load show ?thesis
    by (intro exI [of _ True]) (auto simp: save_says_def envelope_revision_def fld_sort_json)
next
  case (Inl x)
  let ?e = "lucky e l"
  have unchanged: ?thesis if "stored_load e ts t b fs' = Inr old"
    using that Inl by (intro exI [of _ False]) (simp add: save_says_def)
  from save_fails_where [of ?e ts t b fs old "JInt n" s x fs'] load save Inl
  consider "fs' = fs" | name v raw where "t = JStr name" "envelope_revision old = n" "0 \<le> n" "require_writer ?e ts fs = Inr ()"
      "store_encode ?e ts t b (n + 1) s fs = Inr (v, raw)" "store_commit ?e ts (state_place ts name) raw (n + 1) fs = (Inl x, fs')"
    by (auto simp: stored_load_iff stored_save_def envelope_revision_def is_count_def)
  then show ?thesis
  proof cases
    case 1
    with load unchanged show ?thesis by simp
  next
    case 2
    from load 2(1) have fits: "store_transfer_id (env_ucd e) t = Inr name" "binding_fits (store_policy ts) b" "task_ready ?e ts name fs"
      "store_read ?e ts (state_place ts name) fs = Inr old" "fld ''transfer_id'' old = t" "py_eq (fld ''binding'' old) b" "safe_name (env_ucd ?e) name"
      by (auto simp: stored_load_iff store_load_iff store_transfer_id_iff)
    from ok have w: "calm (env_world ?e)" "os_fault (env_fault ?e)" "wf_json (obj (envelope_fields ts t b (n + 1) s))"
      "floats_ok (env_pf ?e) (obj (envelope_fields ts t b (n + 1) s))" "is_obj (store_owner ts)" "policy_path (store_policy ts) \<noteq> state_place ts name"
      unfolding writes_ok_def using envelope_any_revision 2(1) by auto
    have rev: "int_of (fld ''revision'' old) < n + 1" "0 \<le> n + 1" using 2(2,3) by (simp_all add: envelope_revision_def)
    from encoded_wf [OF 2(5) w(3)] have v: "wf_json v" "fld ''state'' v = s" "fld ''revision'' v = JInt (n + 1)" "fld ''transfer_id'' v = t" "fld ''binding'' v = b" by simp_all
    from store_commit_outcome [OF w(1,2) fits(3,4) rev 2(4,5) fits(7) w(6,3,4,5) 2(6)]
    show ?thesis
    proof
      assume new: "commit_says (Inl x) True \<and> task_ready ?e ts name fs' \<and> store_read ?e ts (state_place ts name) fs' = Inr (sort_json v)"
      then have x: "x = interrupt \<or> x = Error ''storage_durability_unknown''" by (auto simp: commit_says_def)
      have "py_eq (sort_json b) b"
      proof (rule py_eq_sort)
        show "wf_json b" using w(3) by (simp add: envelope_fields_def wf_json_obj)
        have "dumpable v" using 2(5) by (auto simp: store_encode_iff canonical_json_Inr)
        then show "no_nan b" using 2(5) dumpable_no_nan by (auto simp: store_encode_iff envelope_fields_def obj_def)
      qed
      then have "store_load e ts t b fs' = (Inr (sort_json v), fs')"
        using new fits(1,2) 2(1) v by (auto simp: store_load_iff fld_sort_json store_read_iff)
      then show ?thesis
        using x Inl 2(2) v by (intro exI [of _ True] exI [of _ "sort_json v"])
          (simp add: save_says_def stored_load_iff envelope_revision_def fld_sort_json)
    next
      assume old: "commit_says (Inl x) False \<and> store_read ?e ts (state_place ts name) fs' = Inr old \<and> kept fs fs'"
      then have "task_ready e ts name fs'" using kept_ready [of fs fs' e ts name] fits(3) by simp
      then have "store_load e ts t b fs' = (Inr old, fs')"
        using old fits 2(1) by (auto simp: store_load_iff store_read_iff)
      then show ?thesis using unchanged by (simp add: stored_load_iff)
    qed
  qed
qed

lemma stored_atomic:
  assumes ok: "writes_ok e ts t b l s" and load: "stored_load e ts t b fs = Inr old" and save: "stored_save e ts t b l n s fs = (r, fs')"
  shows "\<exists>effect new. save_says r effect \<and> stored_load e ts t b fs' = Inr new \<and>
    (if effect then envelope_revision old = n \<and> envelope_revision new = n + 1 \<and> envelope_content new = canonical_json s else new = old)"
proof -
  have "wf_json s" using ok by (simp add: writes_ok_def envelope_fields_def wf_json_obj)
  with stored_outcome [OF assms] show ?thesis by (auto simp: envelope_content_def canonical_sort split: if_splits)
qed

interpretation stored: atomic_store "stored_load e ts t b" "stored_save e ts t b" envelope_revision envelope_content canonical_json "writes_ok e ts t b" "\<lambda>fs. True" save_says
  for e ts t b
proof unfold_locales
  show "\<exists>old. stored_load e ts t b s = Inr old \<and> envelope_revision old = n" if "stored_save e ts t b l n c s = (Inr v, s')" for l n c s v s'
    using stored_expects [OF that] .
  show "\<exists>new. stored_load e ts t b s' = Inr new \<and> envelope_revision new = n + 1 \<and> envelope_content new = canonical_json c"
    if "writes_ok e ts t b l c" "stored_save e ts t b l n c s = (Inr v, s')" for l c n s v s'
    using stored_loads [OF that] by (auto simp: envelope_revision_def envelope_content_def fld_sort_json canonical_sort)
  show "\<exists>effect new. save_says r effect \<and> stored_load e ts t b s' = Inr new \<and>
      (if effect then envelope_revision old = n \<and> envelope_revision new = n + 1 \<and> envelope_content new = canonical_json c else new = old) \<and> True"
    if "writes_ok e ts t b l c" "stored_load e ts t b s = Inr old" "stored_save e ts t b l n c s = (r, s')" for l c s old n r s'
    using stored_atomic [OF that] by simp
qed (simp_all add: save_says_def)

section \<open>When a save succeeds\<close>

lemma update_at_can: "linkless n d \<Longrightarrow> lookup n d = Some m \<Longrightarrow> f m = Some m' \<Longrightarrow> \<exists>n'. update_at f d n = Some n'"
proof (induction f d n rule: update_at.induct)
  case (2 f p ps st kids)
  then obtain k where k: "map_of kids p = Some k" "lookup k ps = Some m" "linkless k ps" by (auto split: option.splits)
  from "2.IH" [OF k(1) k(3) k(2) 2(4)] k(1) show ?case by auto
qed auto

lemma put_node_can:
  "linkless fs d \<Longrightarrow> lookup fs d = Some (DirN st kids) \<Longrightarrow> lookup fs (d @ [x]) = None \<Longrightarrow> \<exists>fs1. put_node w (d @ [x]) child fs = Some fs1"
  using update_at_can [of fs d "DirN st kids" "put_kid w x child"]
  by (auto simp: put_node_def put_kid_def lookup_snoc map_of_eq_None_iff)

lemma move_node_can:
  "linkless fs d \<Longrightarrow> lookup fs d = Some (DirN st kids) \<Longrightarrow> lookup fs (d @ [old]) = Some m \<Longrightarrow> lookup fs (d @ [new]) = Some (FileN st' bs) \<Longrightarrow>
     \<exists>fs1. move_node w True d old new fs = Some fs1"
  using update_at_can [of fs d "DirN st kids" "move_kid w True old new"]
  by (auto simp: move_node_def move_kid_def lookup_snoc)

lemma lookup_parent: "linkless fs d \<Longrightarrow> lookup fs (d @ [x]) = Some n \<Longrightarrow> \<exists>st kids. lookup fs d = Some (DirN st kids)"
proof -
  assume l: "linkless fs d" "lookup fs (d @ [x]) = Some n"
  then obtain m where "lookup fs d = Some m" "\<forall>t. m \<noteq> LinkN t" "lookup m [x] = Some n" using linkless_lookup [of fs d] by (auto simp: lookup_append)
  then show ?thesis by (cases m) auto
qed

lemma saves_when_calm:
  assumes calm: "calm (env_world e)" and quiet: "env_fault e = No_Fault"
    and load: "store_load e ts (JStr name) b fs = (Inr old, fs)" and r: "fld ''revision'' old = r"
    and writer: "require_writer e ts fs = Inr ()" and lock: "\<exists>st bs. lookup fs (lock_path ts) = Some (FileN st bs)"
    and enc: "store_encode e ts (JStr name) b (int_of r + 1) s fs = Inr (v, raw)"
    and fresh: "lookup fs (task_place ts name @ [temp_name e]) = None"
  shows "\<exists>fs'. store_save e ts (JStr name) b r s fs = (Inr v, fs')"
proof -
  let ?d = "task_place ts name" and ?t = "temp_name e"
  from load have fits: "store_transfer_id (env_ucd e) (JStr name) = Inr name" "binding_fits (store_policy ts) b" "task_ready e ts name fs"
    "store_read e ts (state_place ts name) fs = Inr old"
    by (auto simp: store_load_iff store_transfer_id_iff)
  from fits(4) obtain st bs x where f0: "lookup fs (?d @ [u ''state.json'']) = Some (FileN st bs)" and "check_envelope x bs = Inr old"
    by (auto simp: store_read_iff state_place_def)
  then have count: "is_count r" using r by (auto simp: check_envelope_def result_iff)
  have plain: "linkless fs ?d" using fits(3) by (auto simp: task_ready_def safe_chain_iff)
  from lookup_parent [OF plain f0] obtain dst kids where dir: "lookup fs ?d = Some (DirN dst kids)" by blast
  from put_node_can [OF plain dir fresh] obtain fs1 where put: "put_node (env_world e) (?d @ [?t]) (new_file e (?d @ [?t]) raw) fs = Some fs1" by blast
  have kept: "kept fs fs1" by (rule kept_put [OF calm put])
  have w1: "require_writer e ts fs1 = Inr ()" by (rule kept_writer [OF kept writer lock])
  have "agree fs fs1 (?d @ [u ''state.json''])" using kept f0 by (simp add: kept_def)
  from agree_at [OF this] f0 have f1: "lookup fs1 (?d @ [u ''state.json'']) = Some (FileN st bs)" by (simp add: alike_file)
  have new: "lookup fs1 (?d @ [?t]) = Some (new_file e (?d @ [?t]) raw)" by (rule put_node_lookup [OF put])
  have plain1: "linkless fs1 ?d" using agree_linkless [OF _ plain] kept dir by (simp add: kept_def)
  from lookup_parent [OF plain1 f1] obtain dst1 kids1 where dir1: "lookup fs1 ?d = Some (DirN dst1 kids1)" by blast
  from move_node_can [OF plain1 dir1 new f1] obtain fs2 where mv: "move_node (env_world e) True ?d ?t (u ''state.json'') fs1 = Some fs2" by blast
  have "store_commit e ts (state_place ts name) raw (int_of r + 1) fs = (Inr (), fs2)"
    using writer w1 put mv quiet
    by (simp add: store_commit_def io_bind_def io_ask_def state_place_def temp_name_def [symmetric] Let_def)
  moreover have "state_path e ts False (JStr name) fs = (Inr (state_place ts name), fs)" using fits(1,3) by (auto simp: state_path_iff)
  ultimately have "store_save e ts (JStr name) b r s fs = (Inr v, fs2)"
    using writer count load r fits(1,2) enc
    by (simp add: store_save_def io_bind_def io_ask_def io_lift_def store_binding_iff [THEN iffD2] Let_def)
  then show ?thesis by blast
qed

section \<open>A small store\<close>

definition store_policy_sample :: policy where
  "store_policy_sample = sample_policy\<lparr>expected_vm_uuid := u ''v'',
     limits := obj [(''max_duration_seconds'', JInt 100), (''max_state_bytes'', JInt 5000)]\<rparr>"

definition store_disk :: "byte list \<Rightarrow> node" where
  "store_disk raw = DirN (sample_stat 2 0)
     [(u ''s'', DirN (sample_stat 3 0) []),
      (u ''o'', DirN (sample_stat 5 0)
        [(u ''.transfer-writer.lock'', FileN (sample_stat 10 0) []),
         (u ''tasks'', DirN (sample_stat 11 0) [(u ''t1'', DirN (sample_stat 12 0)
           [(u ''state.json'', FileN (sample_stat 9 (int (length raw))\<lparr>st_mode := 384\<rparr>) raw)])])]),
      (u ''p'', DirN (sample_stat 7 0) [(u ''b'', FileN (sample_stat 8 22) sample_zip)])]"

definition sample_env :: env where
  "sample_env = \<lparr>env_ucd = sample_ucd, env_wide = (\<lambda>_. Inl (Error [])), env_pf = (\<lambda>_. FloatNan), env_euid = 0, env_now = 0,
     env_world = sample_world, env_fresh = u ''1'', env_fault = No_Fault, env_unlink = True\<rparr>"

definition sample_store :: task_store where
  "sample_store = \<lparr>store_policy = store_policy_sample, store_deadline = 50, lock_fd = Some (1, 10), lock_identity = Some (1, 10),
     store_owner = obj []\<rparr>"

definition sample_task_binding :: json where
  "sample_task_binding = obj [(''request_digest'', JStr (replicate 64 48)), (''policy_id'', JStr (u ''p1'')), (''vm_uuid'', JStr (u ''v'')),
     (''boot_identity'', JStr (u ''b'')), (''vm_epoch'', JStr (u ''e''))]"

abbreviation sample_task :: json where
  "sample_task \<equiv> JStr (u ''t1'')"

definition sample_state :: json where
  "sample_state = obj [(''n'', JInt 1)]"

lemma store_names: "safe_name sample_ucd (u ''tasks'')" "safe_name sample_ucd (u ''t1'')" "safe_name sample_ucd (u ''state.json'')"
  "safe_name sample_ucd (u ''o'')"
  by (simp_all add: name_defs sample_ucd_def)

lemma sample_calm: "calm sample_world"
  by (simp add: calm_def sample_world_def)

lemmas store_tree_defs = store_disk_def sample_fs_def sample_stat_def u_def core_def

lemma store_disk_agree: "p \<in> {[u ''p'', u ''b''], [u ''o''], [u ''s'']} \<Longrightarrow> agree sample_fs (store_disk raw) p"
  unfolding agree_def
proof (intro allI impI)
  fix i assume p: "p \<in> {[u ''p'', u ''b''], [u ''o''], [u ''s'']}" and i: "i \<le> length p"
  then have "i = 0 \<or> i = 1 \<or> i = 2" by auto
  with p i show "alike (lookup sample_fs (take i p)) (lookup (store_disk raw) (take i p))"
    by (elim disjE) (auto simp: store_tree_defs)
qed

lemma sample_policy_fields: "policy_path store_policy_sample = [u ''p'', u ''b'']" "work_root store_policy_sample = [u ''o'']"
  "map fst (root_identities store_policy_sample) = [[u ''s'']]" "policy_id store_policy_sample = u ''p1''"
  by (simp_all add: store_policy_sample_def sample_policy_def)

lemma sample_store_check [simp]: "store_check sample_env sample_store (store_disk raw) = Inr ()"
proof -
  have "revalidate sample_ucd sample_fs 0 store_policy_sample = Inr ()"
    using sample_revalidate by (simp add: revalidate_iff store_policy_sample_def)
  then have "revalidate sample_ucd (store_disk raw) 0 store_policy_sample = Inr ()"
    by (rule agree_revalidate) (use store_disk_agree in \<open>auto simp: sample_policy_fields\<close>)
  then show ?thesis
    by (simp add: store_check_def sample_env_def sample_store_def validate_deadline_def limit_of_def) (simp add: store_policy_sample_def)
qed

lemma sample_places: "store_root sample_store = [u ''o'']" "task_place sample_store (u ''t1'') = [u ''o'', u ''tasks'', u ''t1'']"
  "state_place sample_store (u ''t1'') = [u ''o'', u ''tasks'', u ''t1'', u ''state.json'']"
  by (simp_all add: store_root_def sample_store_def sample_policy_fields task_place_def state_place_def)

lemma sample_task_ready: "task_ready sample_env sample_store (u ''t1'') (store_disk raw)"
proof -
  have "safe_chain sample_ucd (store_disk raw) p [u ''o''] False = Inr () \<and> lookup (store_disk raw) p \<noteq> None \<and> store_private (store_disk raw) p = Inr ()"
    if "p \<in> {[u ''o'', u ''tasks''], [u ''o'', u ''tasks'', u ''t1'']}" for p
    using that store_names by (auto simp: safe_chain_iff is_prefix_def) (auto simp: store_tree_defs store_private_def stat_of_def no_link_def)
  then show ?thesis by (simp add: task_ready_def sample_places) (simp add: sample_env_def)
qed

lemma sample_writer: "require_writer sample_env sample_store (store_disk raw) = Inr ()"
  by (simp add: require_writer_def lock_path_def sample_places)
    (simp add: sample_store_def stat_of_def no_link_def store_disk_def u_def sample_stat_def node_id_def)

section \<open>A readable task\<close>

abbreviation sample_fields :: "int \<Rightarrow> (string \<times> json) list" where
  "sample_fields n \<equiv> envelope_fields sample_store sample_task sample_task_binding n sample_state"

lemma sample_fields_serial: "0 \<le> n \<Longrightarrow> n < 10 \<Longrightarrow> serial (obj (sample_fields n))"
  "0 \<le> n \<Longrightarrow> n < 10 \<Longrightarrow> is_hex64 h \<Longrightarrow> serial (obj (sample_fields n @ [(''sha256'', JStr h)]))"
  by (simp_all add: envelope_fields_def sample_task_binding_def sample_state_def sample_store_def state_schema_def serial_obj serial_digits serial_hex)

lemma sample_fields_floats: "floats_ok pf (obj (sample_fields n))"
  by (simp add: envelope_fields_def sample_task_binding_def sample_state_def sample_store_def state_schema_def obj_def)

lemma zeros_hex: "is_hex64 (replicate 64 48)"
  by simp

lemma sample_fields_cost: "0 \<le> n \<Longrightarrow> n < 10 \<Longrightarrow> is_hex64 h \<Longrightarrow> cost (obj (sample_fields n @ [(''sha256'', JStr h)])) \<le> 1000"
proof -
  assume n: "0 \<le> n" "n < 10" and h: "is_hex64 h"
  have "length (int_str n) = 1" using n by (simp add: int_str_def dec_digits.simps)
  moreover have "text_cost (replicate 64 48) = 66" "text_cost h = 66" using hex_cost(1) zeros_hex h by blast+
  ultimately show ?thesis
    by (simp add: envelope_fields_def sample_task_binding_def sample_state_def sample_store_def state_schema_def obj_def cost_simps cost_int)
      (simp add: text_cost_eq u_def char_cost_def int_str_def dec_digits.simps)
qed

lemma sample_max: "limit_of sample_store ''max_state_bytes'' = 5000"
  by (simp add: limit_of_def sample_store_def store_policy_sample_def)

lemma sample_prefix: "guest_prefix sample_state = Inr ()"
  by (simp add: guest_prefix_def sample_state_def)

lemma sample_encodes:
  assumes "0 \<le> n" "n < 10"
  shows "\<exists>v raw. store_encode sample_env sample_store sample_task sample_task_binding n sample_state (store_disk x) = Inr (v, raw)"
proof -
  let ?bs = "utf8_bytes (dumps (sort_json (obj (sample_fields n))))"
  let ?v = "obj (sample_fields n @ [(''sha256'', JStr (sha256_hex ?bs))])"
  have s: "serial ?v" using sample_fields_serial(2) [OF assms, of "sha256_hex ?bs"] by simp
  have can: "canonical_json ?v = Inr (utf8_bytes (dumps (sort_json ?v)))" using serial_canonical [OF s] .
  have "length (utf8_bytes (dumps (sort_json ?v))) \<le> 1000"
    using canonical_json_length [OF can] s sample_fields_cost [OF assms, of "sha256_hex ?bs"] by (simp add: serial_def)
  moreover have "validate_json 5000 (obj (sample_fields n @ [(''sha256'', JStr (replicate 64 48))])) = Inr ()"
  proof -
    have "serial (obj (sample_fields n @ [(''sha256'', JStr (replicate 64 48))]))" using sample_fields_serial(2) [OF assms zeros_hex] .
    moreover have "node_count (obj (sample_fields n @ [(''sha256'', JStr (replicate 64 48))])) \<le> 10000" "depth_ok 32 (obj (sample_fields n @ [(''sha256'', JStr (replicate 64 48))])) 0"
      by (simp_all add: envelope_fields_def sample_task_binding_def sample_state_def sample_store_def state_schema_def obj_def)
    ultimately show ?thesis using sample_fields_cost [OF assms zeros_hex] by (simp add: validate_json_accepts serial_def)
  qed
  ultimately have "store_encode sample_env sample_store sample_task sample_task_binding n sample_state (store_disk x) = Inr (?v, utf8_bytes (dumps (sort_json ?v)))"
    using serial_canonical [OF sample_fields_serial(1) [OF assms]] can sample_prefix
    by (simp add: store_encode_iff sample_max)
  then show ?thesis by blast
qed

definition sample_bytes :: "byte list" where
  "sample_bytes = (case store_encode sample_env sample_store sample_task sample_task_binding 0 sample_state (store_disk []) of
     Inr (v, raw) \<Rightarrow> raw | Inl x \<Rightarrow> [])"

definition sample_disk :: node where
  "sample_disk = store_disk sample_bytes"

lemma sample_binding_fits: "binding_fits store_policy_sample sample_task_binding"
  by (simp add: binding_fits_def sample_policy_fields sample_task_binding_def store_binding_keys_def same_set_def)
   (simp add: store_policy_sample_def u_def)

lemma sample_loads: "\<exists>old. store_load sample_env sample_store sample_task sample_task_binding sample_disk = (Inr old, sample_disk) \<and> fld ''revision'' old = JInt 0"
proof -
  from sample_encodes [of 0 "[]"] obtain v raw where enc: "store_encode sample_env sample_store sample_task sample_task_binding 0 sample_state (store_disk []) = Inr (v, raw)" by auto
  then have raw: "sample_bytes = raw" by (simp add: sample_bytes_def)
  have ser: "wf_json (obj (sample_fields 0))" using sample_fields_serial(1) [of 0] by (simp add: serial_def)
  have env: "env_ucd sample_env = sample_ucd" "store_policy sample_store = store_policy_sample" "is_obj (store_owner sample_store)"
    by (simp_all add: sample_env_def sample_store_def)
  have "lookup sample_disk (state_place sample_store (u ''t1'')) = Some (new_file sample_env [] raw)"
    by (simp add: sample_places sample_disk_def raw) (simp add: store_disk_def u_def new_file_def sample_env_def sample_world_def sample_stat_def)
  from store_read_written [OF sample_task_ready [of sample_bytes, folded sample_disk_def] this store_names(2,1,3) [folded env(1)] enc ser sample_fields_floats _ env(3)]
  have read: "store_read sample_env sample_store (state_place sample_store (u ''t1'')) sample_disk = Inr (sort_json v)"
    by (simp add: sample_disk_def)
  from encoded_wf [OF enc ser] have v: "wf_json v" "fld ''revision'' v = JInt 0" "fld ''transfer_id'' v = sample_task" "fld ''binding'' v = sample_task_binding" by simp_all
  have bind: "py_eq (sort_json sample_task_binding) sample_task_binding"
    by (rule py_eq_sort) (use ser in \<open>simp_all add: envelope_fields_def wf_json_obj\<close>, simp add: sample_task_binding_def obj_def)
  have name: "store_transfer_id sample_ucd sample_task = Inr (u ''t1'')"
    using store_names(2) by (simp add: store_transfer_id_iff) (simp add: u_def is_id_def text_simps)
  have "store_load sample_env sample_store sample_task sample_task_binding sample_disk = (Inr (sort_json v), sample_disk)"
    using read name sample_binding_fits sample_task_ready [of sample_bytes] v bind
    by (auto simp: store_load_iff env fld_sort_json sample_disk_def store_read_iff)
  with v show ?thesis by (simp add: fld_sort_json)
qed

section \<open>Properties of the task store\<close>


text \<open>
  No update is lost: of two attempts in one sequence that both succeed, the later one has named
  a greater revision, so two writers that start from the same revision cannot both succeed.
\<close>

theorem no_update_lost:
  assumes "\<forall>(l, n, s) \<in> set ws. writes_ok e ts t b l s" and "store_load e ts t b fs = (Inr old, fs)"
    and "attempts (stored_save e ts t b) ws fs = (Inr rs, fs')" and "i < j" and "j < length ws" and "rs ! i = Inr v" and "rs ! j = Inr w"
  shows "fst (snd (ws ! i)) < fst (snd (ws ! j))"
  using stored.no_lost_update [OF assms(1) TrueI _ assms(3-7)] assms(2) by (simp add: stored_load_iff)

text \<open>
  C29: an update of a readable task at its current revision succeeds when no call fails, the writer
  lock is held, the new state can be encoded within the budget and the temporary name is fresh; the
  new state is then read back with the next revision and the canonical bytes of what was saved.
\<close>

theorem save_succeeds_and_reads_back:
  assumes ok: "writes_ok e ts (JStr name) b (env_fault e, env_fresh e, env_unlink e) s" and "env_fault e = No_Fault"
    and "store_load e ts (JStr name) b fs = (Inr old, fs)"
    and "require_writer e ts fs = Inr ()" and "\<exists>st bs. lookup fs (lock_path ts) = Some (FileN st bs)"
    and "store_encode e ts (JStr name) b (envelope_revision old + 1) s fs = Inr (v, raw)"
    and "lookup fs (task_place ts name @ [temp_name e]) = None"
  shows "\<exists>fs' new. store_save e ts (JStr name) b (fld ''revision'' old) s fs = (Inr v, fs') \<and> store_load e ts (JStr name) b fs' = (Inr new, fs') \<and>
    envelope_revision new = envelope_revision old + 1 \<and> envelope_content new = canonical_json s"
proof -
  have calm: "calm (env_world e)" using ok by (simp add: writes_ok_def)
  from saves_when_calm [OF calm assms(2,3) refl assms(4,5) assms(6) [unfolded envelope_revision_def] assms(7)]
  obtain fs' where save: "store_save e ts (JStr name) b (fld ''revision'' old) s fs = (Inr v, fs')" by blast
  have e: "lucky e (env_fault e, env_fresh e, env_unlink e) = e" by (simp add: lucky_def)
  from store_save_parts [OF save] have "fld ''revision'' old = JInt (envelope_revision old)"
    by (cases "fld ''revision'' old") (use assms(3) in \<open>auto simp: envelope_revision_def is_count_def\<close>)
  then have "stored_save e ts (JStr name) b (env_fault e, env_fresh e, env_unlink e) (envelope_revision old) s fs = (Inr v, fs')"
    using save by (simp add: stored_save_def e)
  from stored.save_loads [OF TrueI ok this] save show ?thesis by (auto simp: stored_load_iff)
qed

text \<open>
  C30: an update that names another revision than the stored one is refused as stale and leaves the
  disk as it was.
\<close>

theorem stale_update_refused:
  assumes "store_load e ts t b fs = (Inr old, fs)" and "require_writer e ts fs = Inr ()" and "is_count r" and "r \<noteq> fld ''revision'' old"
  shows "store_save e ts t b r s fs = (Inl (Error ''stale_revision''), fs)"
  using assms by (simp add: store_save_def io_bind_def io_ask_def io_lift_def)

section \<open>Witnesses\<close>

lemma sample_lock: "\<exists>st bs. lookup sample_disk (lock_path sample_store) = Some (FileN st bs)"
  by (simp add: lock_path_def sample_places) (simp add: sample_disk_def store_disk_def u_def)

lemma sample_writes: "writes_ok sample_env sample_store sample_task sample_task_binding (No_Fault, u ''1'', True) sample_state"
  "writes_ok sample_env sample_store sample_task sample_task_binding (Sync_Fault interrupt, u ''1'', True) sample_state"
  using sample_fields_serial(1) [of 0] sample_fields_floats [of _ 0] sample_calm
  by (simp_all add: writes_ok_def sample_places serial_def) (simp_all add: sample_env_def sample_store_def sample_policy_fields)

lemma sample_fault: "env_fault sample_env = No_Fault" "(env_fault sample_env, env_fresh sample_env, env_unlink sample_env) = (No_Fault, u ''1'', True)"
  by (simp_all add: sample_env_def)

lemma sample_fresh: "lookup sample_disk (task_place sample_store (u ''t1'') @ [temp_name sample_env]) = None"
  by (simp add: sample_places temp_name_def) (simp add: sample_disk_def store_disk_def u_def sample_env_def)

theorem save_succeeds_and_reads_back_witness:
  "\<exists>v fs' new. store_save sample_env sample_store sample_task sample_task_binding (JInt 0) sample_state sample_disk = (Inr v, fs') \<and>
     store_load sample_env sample_store sample_task sample_task_binding fs' = (Inr new, fs') \<and> envelope_revision new = 1"
proof -
  from sample_loads obtain old where old: "store_load sample_env sample_store sample_task sample_task_binding sample_disk = (Inr old, sample_disk)"
    "fld ''revision'' old = JInt 0" by blast
  from sample_encodes [of 1 sample_bytes] old(2) obtain v raw where
    enc: "store_encode sample_env sample_store sample_task sample_task_binding (envelope_revision old + 1) sample_state sample_disk = Inr (v, raw)"
    by (auto simp: sample_disk_def envelope_revision_def)
  from save_succeeds_and_reads_back [OF sample_writes(1) [folded sample_fault(2)] sample_fault(1) old(1) sample_writer [of sample_bytes, folded sample_disk_def]
      sample_lock enc sample_fresh] old(2)
  show ?thesis by (auto simp: envelope_revision_def simp del: split_paired_Ex)
qed

theorem stale_update_refused_witness:
  "store_save sample_env sample_store sample_task sample_task_binding (JInt 3) sample_state sample_disk = (Inl (Error ''stale_revision''), sample_disk)"
proof -
  from sample_loads obtain old where old: "store_load sample_env sample_store sample_task sample_task_binding sample_disk = (Inr old, sample_disk)"
    "fld ''revision'' old = JInt 0" by blast
  show ?thesis
    by (rule stale_update_refused [OF old(1) sample_writer [of sample_bytes, folded sample_disk_def]]) (simp_all add: old(2) is_count_def)
qed

text \<open>Two attempts: the first is interrupted while it synchronises the directory, the second is a save from revision 1.\<close>

abbreviation sample_attempts :: "(luck \<times> int \<times> json) list" where
  "sample_attempts \<equiv> [((Sync_Fault interrupt, u ''1'', True), 0, sample_state), ((No_Fault, u ''1'', True), 1, sample_state)]"


lemma save_leaves_ready:
  assumes calm: "calm (env_world e)" and save: "store_save e ts (JStr name) b r s fs = (Inr v, fs')"
    and pol: "policy_path (store_policy ts) \<noteq> state_place ts name" and lock: "lookup fs (lock_path ts) = Some (FileN st bs)"
    and after: "store_check e ts fs' = Inr ()"
  shows "require_writer e ts fs' = Inr () \<and> lookup fs' (lock_path ts) = Some (FileN st bs) \<and> lookup fs' (task_place ts name @ [temp_name e]) = None"
proof -
  from store_save_parts [OF save] obtain existing raw fs1 where load: "store_load e ts (JStr name) b fs = (Inr existing, fs)"
    and w: "require_writer e ts fs = Inr ()" and put: "put_node (env_world e) (task_place ts name @ [temp_name e]) (new_file e (task_place ts name @ [temp_name e]) raw) fs = Some fs1"
    and mv: "move_node (env_world e) True (task_place ts name) (temp_name e) (u ''state.json'') fs1 = Some fs'" by auto
  from load obtain st' bs' where old: "lookup fs (state_place ts name) = Some (FileN st' bs')" by (auto simp: store_load_iff store_read_iff store_transfer_id_iff)
  have "lock_path ts \<noteq> state_place ts name" by (simp add: lock_path_def state_place_def task_place_def)
  then have "agree fs fs' (lock_path ts)"
    using install_agree [OF calm put mv] old lock by (auto simp: state_place_def)
  from agree_at [OF this] lock have l: "lookup fs' (lock_path ts) = Some (FileN st bs)" by (simp add: alike_file)
  moreover have "require_writer e ts fs' = Inr ()" using w lock l after by (auto simp: require_writer_def result_iff stat_of_iff)
  ultimately show ?thesis using move_node_lookup(2) [OF mv] by simp
qed

lemma sample_saves_twice:
  "\<exists>v w fs1 fs2. stored_save sample_env sample_store sample_task sample_task_binding (No_Fault, u ''1'', True) 0 sample_state sample_disk = (Inr v, fs1) \<and>
     stored_save sample_env sample_store sample_task sample_task_binding (No_Fault, u ''1'', True) 1 sample_state fs1 = (Inr w, fs2)"
proof -
  let ?e = sample_env and ?ts = sample_store and ?b = sample_task_binding and ?s = sample_state
  have luck: "lucky ?e (No_Fault, u ''1'', True) = ?e" by (simp add: lucky_def sample_env_def)
  have calm: "calm (env_world ?e)" using sample_calm by (simp add: sample_env_def)
  have pol: "policy_path (store_policy ?ts) \<noteq> state_place ?ts (u ''t1'')"
    unfolding sample_places by (simp add: sample_store_def sample_policy_fields)
  have enc: "store_encode ?e ?ts sample_task ?b n ?s fs = store_encode ?e ?ts sample_task ?b n ?s (store_disk [])" if "store_check ?e ?ts fs = Inr ()" for n fs
    using that by (simp add: store_encode_def Let_def)
  from sample_loads obtain old where old: "store_load ?e ?ts sample_task ?b sample_disk = (Inr old, sample_disk)" "fld ''revision'' old = JInt 0" by blast
  from sample_encodes [of 1 sample_bytes] obtain v raw where e1: "store_encode ?e ?ts sample_task ?b (int_of (JInt 0) + 1) ?s sample_disk = Inr (v, raw)"
    by (auto simp: sample_disk_def)
  from saves_when_calm [OF calm sample_fault(1) old sample_writer [of sample_bytes, folded sample_disk_def] sample_lock e1 sample_fresh]
  obtain fs1 where s1: "store_save ?e ?ts sample_task ?b (JInt 0) ?s sample_disk = (Inr v, fs1)" by blast
  with stored.save_loads [OF TrueI sample_writes(1), of 0 sample_disk v fs1] obtain new where
    new: "store_load ?e ?ts sample_task ?b fs1 = (Inr new, fs1)" "envelope_revision new = 1" by (auto simp: stored_load_iff stored_save_def luck)
  from new(1) have ready: "store_check ?e ?ts fs1 = Inr ()" and "is_count (fld ''revision'' new)"
    by (auto simp: store_load_iff task_ready_def store_read_iff check_envelope_def result_iff)
  with new(2) have rev: "fld ''revision'' new = JInt 1" by (cases "fld ''revision'' new") (auto simp: envelope_revision_def is_count_def)
  from sample_lock obtain st bs where lock: "lookup sample_disk (lock_path ?ts) = Some (FileN st bs)" by blast
  from save_leaves_ready [OF calm s1 pol lock ready] have w: "require_writer ?e ?ts fs1 = Inr ()"
    and l: "\<exists>st bs. lookup fs1 (lock_path ?ts) = Some (FileN st bs)" and f: "lookup fs1 (task_place ?ts (u ''t1'') @ [temp_name ?e]) = None" by blast+
  from sample_encodes [of 2 "[]"] obtain w2 raw2 where e2: "store_encode ?e ?ts sample_task ?b (int_of (JInt 1) + 1) ?s fs1 = Inr (w2, raw2)"
    by (auto simp: enc [OF ready])
  from saves_when_calm [OF calm sample_fault(1) new(1) rev w l e2 f] s1 show ?thesis
    by (auto simp: stored_save_def luck simp del: split_paired_Ex)
qed

theorem no_update_lost_witness:
  "\<exists>v w fs1 fs2. stored_save sample_env sample_store sample_task sample_task_binding (No_Fault, u ''1'', True) 0 sample_state sample_disk = (Inr v, fs1) \<and>
     stored_save sample_env sample_store sample_task sample_task_binding (No_Fault, u ''1'', True) 1 sample_state fs1 = (Inr w, fs2) \<and> (0::int) < 1"
proof -
  let ?ws = "[((No_Fault, u ''1'', True), 0 :: int, sample_state), ((No_Fault, u ''1'', True), 1, sample_state)]"
  from sample_saves_twice obtain v w fs1 fs2 where
    s: "stored_save sample_env sample_store sample_task sample_task_binding (No_Fault, u ''1'', True) 0 sample_state sample_disk = (Inr v, fs1)"
      "stored_save sample_env sample_store sample_task sample_task_binding (No_Fault, u ''1'', True) 1 sample_state fs1 = (Inr w, fs2)" by blast
  then have run: "attempts (stored_save sample_env sample_store sample_task sample_task_binding) ?ws sample_disk = (Inr [Inr v, Inr w], fs2)" by simp
  from sample_loads obtain old where old: "store_load sample_env sample_store sample_task sample_task_binding sample_disk = (Inr old, sample_disk)" by blast
  have ok: "\<forall>(l, n, c) \<in> set ?ws. writes_ok sample_env sample_store sample_task sample_task_binding l c" using sample_writes(1) by simp
  have "fst (snd (?ws ! 0)) < fst (snd (?ws ! 1))" using no_update_lost [OF ok old run, where i = 0 and j = 1 and v = v and w = w] by simp
  with s show ?thesis by auto
qed

end
