(* ===== verification/Journal_Notes.thy ===== *)
theory Journal_Notes
  imports Journal_Facts Store_Updates
begin

text \<open>
  Runs of notes in the journal: it satisfies the interface of a store of revisions that keeps facts.
\<close>

section \<open>The journal as a store of revisions that keeps facts\<close>

definition journal_look :: "env \<Rightarrow> journal \<Rightarrow> json result" where
  "journal_look e j = fst (journal_load e j)"

definition journal_note :: "env \<Rightarrow> luck \<Rightarrow> int \<Rightarrow> json \<Rightarrow> (journal, json) io" where
  "journal_note e l n data = journal_save (lucky e l) (JInt n) data"

definition journal_content :: "json \<Rightarrow> byte list result" where
  "journal_content v = canonical_json (fld ''data'' v)"

definition notes_ok :: "env \<Rightarrow> luck \<Rightarrow> json \<Rightarrow> bool" where
  "notes_ok e l data \<longleftrightarrow> calm (env_world e) \<and> wf_json data \<and> floats_ok (env_pf e) data"

definition journal_sane :: "env \<Rightarrow> journal \<Rightarrow> bool" where
  "journal_sane e j \<longleftrightarrow> is_str (hr_transfer_id (j_request j)) \<and> wf_json (hr_transfer_id (j_request j)) \<and> wf_json (j_binding j) \<and> floats_ok (env_pf e) (j_binding j) \<and>
     (case journal_look e j of Inr v \<Rightarrow> floats_ok (env_pf e) (fld ''deadline_monotonic'' v) | Inl x \<Rightarrow> True)"

text \<open>
  What a journal has settled: the immutable facts with their canonical bytes, that publication has
  happened, that the transfer has begun, and on which channel.
\<close>

definition settled :: "string \<times> byte list \<Rightarrow> json \<Rightarrow> bool" where
  "settled f v \<longleftrightarrow> (case f of (k, bs) \<Rightarrow> let data = fld ''data'' v in
     (k \<in> set immutable_facts \<and> canonical_json (fld k data) = Inr bs \<and> canonical_json JNull \<noteq> Inr bs) \<or>
     (k \<in> set [''published_ever'', ''begin_attempted''] \<and> truthy (fld k data) \<and> bs = []) \<or>
     (k = ''channel'' \<and> truthy (fld ''begin_attempted'' data) \<and> canonical_json (fld k data) = Inr bs))"

lemma lucky_load_fits [simp]: "load_fits (lucky e l) = load_fits e"
proof -
  have p: "private_stat (lucky e l) = private_stat e" by (intro ext) (simp add: private_stat_def cong: option.case_cong)
  have r: "read_file (lucky e l) = read_file e" by (intro ext) (simp add: read_file_def p)
  have c: "check_parent_chain (lucky e l) = check_parent_chain e" by (intro ext) (simp add: check_parent_chain_def)
  have d: "dir_fits (lucky e l) = dir_fits e" by (intro ext) (simp add: dir_fits_def p)
  have "writer_fits (lucky e l) = writer_fits e" by (intro ext) (simp add: writer_fits_def c d lock_fits_def p)
  then show ?thesis by (intro ext) (simp add: load_fits_def state_fits_def r)
qed

lemma journal_look_iff: "journal_look e j = Inr v \<longleftrightarrow> load_fits e j v"
proof
  assume "journal_look e j = Inr v"
  then obtain j' where "journal_load e j = (Inr v, j')" by (cases "journal_load e j") (auto simp: journal_look_def)
  with journal_load_fits show "load_fits e j v" by blast
qed (use load_can in \<open>force simp: journal_look_def\<close>)

lemma journal_save_again:
  assumes "journal_save e r data j = (Inr v, j')"
  shows "\<exists>old h. load_fits e j old \<and> fld ''revision'' old = r \<and> is_count r \<and> phase_data data (Some (fld ''data'' old)) False = Inr () \<and>
    v = obj (j_fields j (int_of r + 1) (fld ''deadline_monotonic'' old) data @ [(''sha256'', JStr h)]) \<and> is_hex64 h \<and>
    finite_deadline (fld ''deadline_monotonic'' old) \<and> j_request j' = j_request j \<and> j_binding j' = j_binding j"
proof -
  from journal_save_parts [OF assms] obtain j2 old raw ids i where p: "load_fits e j old" "j2 = j\<lparr>j_ids := ids, j_state_id := Some i\<rparr>"
    "fld ''revision'' old = r" "is_count r" "phase_data data (Some (fld ''data'' old)) False = Inr ()"
    "j_encode j2 (int_of r + 1) (fld ''deadline_monotonic'' old) data = Inr (v, raw)" "j_commit e raw (int_of r + 1) False j2 = (Inr (), j')" by blast
  from j_commit_parts [OF p(7)] have j': "j_request j' = j_request j \<and> j_binding j' = j_binding j" using p(2) by auto
  from p(6) obtain h where h: "digest_json (obj (j_fields j2 (int_of r + 1) (fld ''deadline_monotonic'' old) data)) = Inr h"
    "v = obj (j_fields j2 (int_of r + 1) (fld ''deadline_monotonic'' old) data @ [(''sha256'', JStr h)])" by (auto simp: j_encode_iff)
  have "j_fields j2 n d x = j_fields j n d x" for n d x by (simp add: j_fields_def p(2))
  moreover have "finite_deadline (fld ''deadline_monotonic'' old)" using p(1) by (auto simp: load_fits_def state_fits_def check_state_def result_iff)
  ultimately show ?thesis using p h j' sha.dig_hex [OF h(1)] by auto
qed

lemma deadline_wf: "finite_deadline d \<Longrightarrow> wf_json d"
  by (cases d) (auto simp: finite_deadline_def)

lemma journal_note_loads:
  assumes sane: "journal_sane e j" and ok: "notes_ok e l data" and save: "journal_note e l n data j = (Inr v, j')"
  shows "load_fits e j' (sort_json v) \<and> wf_json v \<and> fld ''revision'' v = JInt (n + 1) \<and> fld ''data'' v = data \<and> journal_sane e j' \<and>
    (\<exists>old. load_fits e j old \<and> envelope_revision old = n \<and> phase_data data (Some (fld ''data'' old)) False = Inr ())"
proof -
  note save' = save [unfolded journal_note_def]
  from journal_save_again [OF save'] obtain old h where s: "load_fits e j old" "fld ''revision'' old = JInt n"
    "phase_data data (Some (fld ''data'' old)) False = Inr ()" "v = obj (j_fields j (n + 1) (fld ''deadline_monotonic'' old) data @ [(''sha256'', JStr h)])"
    "is_hex64 h" "finite_deadline (fld ''deadline_monotonic'' old)" "j_request j' = j_request j" "j_binding j' = j_binding j" by auto
  from sane obtain tn where tid: "hr_transfer_id (j_request j) = JStr tn" by (cases "hr_transfer_id (j_request j)") (auto simp: journal_sane_def)
  have dl: "floats_ok (env_pf e) (fld ''deadline_monotonic'' old)" using sane s(1) by (simp add: journal_sane_def journal_look_iff [symmetric])
  have fields: "wf_json (obj (j_fields j (n + 1) (fld ''deadline_monotonic'' old) data))" "floats_ok (env_pf e) (obj (j_fields j (n + 1) (fld ''deadline_monotonic'' old) data))"
    using sane ok deadline_wf [OF s(6)] dl tid by (auto simp: journal_sane_def notes_ok_def j_fields_def wf_json_obj journal_schema_def) (simp_all add: obj_def)
  have wf: "wf_json v" unfolding s(4) by (rule wf_sealed [OF fields(1) _ s(5)]) (simp add: j_fields_def)
  have fl: "floats_ok (env_pf (lucky e l)) v" using fields(2) by (simp add: s(4) floats_sealed)
  have calm: "calm (env_world (lucky e l))" using ok by (simp add: notes_ok_def)
  from journal_save_loads [OF calm save' wf fl tid] have l: "load_fits e j' (sort_json v)" "fld ''revision'' v = JInt (n + 1)" "fld ''data'' v = data" by simp_all
  have "fld ''deadline_monotonic'' (sort_json v) = fld ''deadline_monotonic'' old"
    unfolding fld_sort_json [OF wf] by (simp add: s(4) j_fields_def finite_deadline_leaf [OF s(6)])
  then have "journal_sane e j'" using sane dl l(1) s(7,8) by (simp add: journal_sane_def journal_look_iff [THEN iffD2, OF l(1)])
  with l wf s(1,2,3) show ?thesis by (auto simp: envelope_revision_def)
qed

lemma note_settles:
  assumes ph: "phase_data data (Some (fld ''data'' old)) False = Inr ()" and fact: "settled f old"
  shows "settled f (obj [(''data'', data)])"
proof -
  obtain k bs where f: "f = (k, bs)" by (cases f)
  from ph have k: "keeps_facts (fld ''data'' old) data = Inr ()" and ch: "fld ''channel'' data = JNull \<or> str_in (fld ''channel'' data) [''velo'', ''windows'']"
    "\<not> (truthy (fld ''begin_attempted'' data) \<and> fld ''channel'' data = JNull)"
    by (auto simp: phase_data_def result_iff Let_def split: if_splits)
  from fact consider "k \<in> set immutable_facts" "canonical_json (fld k (fld ''data'' old)) = Inr bs" "canonical_json JNull \<noteq> Inr bs"
    | "k \<in> {''published_ever'', ''begin_attempted''}" "truthy (fld k (fld ''data'' old))" "bs = []"
    | "k = ''channel''" "truthy (fld ''begin_attempted'' (fld ''data'' old))" "canonical_json (fld k (fld ''data'' old)) = Inr bs"
    by (auto simp: settled_def f Let_def)
  then show ?thesis
  proof cases
    case 1
    from k 1(1) have "same_fact (fld ''data'' old) data k = Inr ()" by (auto simp: keeps_facts_def result_iff for_each_Inr_iff)
    moreover have "fld k (fld ''data'' old) \<noteq> JNull" using 1(2,3) by auto
    ultimately have "canonical_json (fld k data) = Inr bs" using 1(2) by (auto simp: same_fact_def result_iff)
    then show ?thesis using 1 by (simp add: settled_def f)
  next
    case 2
    with k have "truthy (fld k data)" by (auto simp: keeps_facts_def result_iff)
    with 2 show ?thesis by (auto simp: settled_def f)
  next
    case 3
    with k have b: "truthy (fld ''begin_attempted'' data)" "py_eq (fld ''channel'' (fld ''data'' old)) (fld ''channel'' data)"
      by (auto simp: keeps_facts_def result_iff)
    with ch obtain s where "fld ''channel'' data = JStr s" by (cases "fld ''channel'' data") (auto simp: str_in_def)
    with b(2) have "fld ''channel'' (fld ''data'' old) = fld ''channel'' data" by (cases "fld ''channel'' (fld ''data'' old)") auto
    with b 3 show ?thesis by (auto simp: settled_def f)
  qed
qed

lemma settled_data:
  assumes "wf_json v"
  shows "settled f (sort_json v) = settled f (obj [(''data'', fld ''data'' v)])"
proof -
  have w: "wf_json (fld ''data'' v)" using wf_fld [OF assms] .
  show ?thesis by (cases f) (simp add: settled_def Let_def fld_sort_json [OF assms] fld_sort_json [OF w])
qed

interpretation noted: fact_store "journal_look e" "journal_note e" envelope_revision journal_content canonical_json "notes_ok e" "journal_sane e" settled
  for e
proof unfold_locales
  show "\<exists>old. journal_look e s = Inr old \<and> envelope_revision old = n" if "journal_note e l n c s = (Inr v, s')" for l n c s v s'
    using journal_save_again [of "lucky e l" "JInt n" c s v s'] that by (auto simp: journal_note_def journal_look_iff envelope_revision_def)
next
  fix s l c n v s' assume done_note: "journal_sane e s" "notes_ok e l c" "journal_note e l n c s = (Inr v, s')"
  note loads = journal_note_loads [OF done_note]
  then show "\<exists>new. journal_look e s' = Inr new \<and> envelope_revision new = n + 1 \<and> journal_content new = canonical_json c"
    by (intro exI [of _ "sort_json v"]) (simp add: journal_look_iff envelope_revision_def journal_content_def fld_sort_json)
  show "journal_sane e s'" using loads by blast
  fix old new f assume look: "journal_look e s = Inr old" "journal_look e s' = Inr new" and fact: "settled f old"
  have "new = sort_json v" using loads look(2) journal_look_iff [of e s' "sort_json v"] by simp
  moreover from loads look(1) have "phase_data c (Some (fld ''data'' old)) False = Inr ()" by (auto simp: journal_look_iff [symmetric])
  ultimately show "settled f new" using note_settles [OF _ fact] settled_data loads by simp
qed

section \<open>When a note succeeds\<close>

lemma new_file_private: "lookup fs p = Some (new_file e q raw) \<Longrightarrow>
    \<exists>st. private_stat e fs p ''state'' = Inr st \<and> new_file e q raw = FileN st raw \<and> st_size st = int (length raw) \<and> st_nlink st = 1"
  by (auto simp: private_stat_def new_file_def)

lemma install_when_calm:
  assumes quiet: "env_fault e = No_Fault" and fits: "writer_fits e True j" and plain: "linkless (j_disk j) (j_task_dir j)"
    and old: "private_stat e (j_disk j) (j_state_path j) ''state'' = Inr info"
    and new: "lookup (j_disk j) (j_task_dir j @ [t]) = Some (new_file e q raw)" and t: "t \<noteq> u ''state.json''"
  shows "\<exists>j'. j_install e (j_task_dir j @ [t]) raw (Some info) j = (Inr (), j')"
proof -
  from writer_can_enter [OF fits] obtain j1 where w: "j_require_writer e True False j = (Inr (), j1)" and r: "records e j j1" by blast
  from r have same: "j_disk j1 = j_disk j" "j_task_dir j1 = j_task_dir j" "j_state_path j1 = j_state_path j" by (auto simp: records_def)
  from new_file_private [OF new] obtain st where st: "private_stat e (j_disk j) (j_task_dir j @ [t]) ''state'' = Inr st" "new_file e q raw = FileN st raw"
    "st_size st = int (length raw)" "st_nlink st = 1" by blast
  from private_file [OF old] obtain bs where f: "lookup (j_disk j) (j_task_dir j @ [u ''state.json'']) = Some (FileN info bs)"
    by (auto simp: j_state_path_def)
  from lookup_parent [OF plain f] obtain dst kids where dir: "lookup (j_disk j) (j_task_dir j) = Some (DirN dst kids)" by blast
  from move_node_can [OF plain dir new f] obtain fs2 where
    mv: "move_node (env_world e) True (j_task_dir j) t (u ''state.json'') (j_disk j) = Some fs2" by blast
  have "lookup fs2 (j_state_path j) = Some (FileN st raw)"
    using move_node_lookup(1) [OF mv t] new st(2) by (simp add: j_state_path_def)
  then have "private_stat e fs2 (j_state_path j) ''state'' = Inr st" using st(1,2) new by (simp add: private_stat_def)
  then show ?thesis
    using w same st(1,3,4) old mv quiet
    by (simp add: j_install_def io_bind_def io_ask_def io_lift_def on_disk_def checked_temporary_def)
qed

lemma commit_when_calm:
  assumes calm: "calm (env_world e)" and quiet: "env_fault e = No_Fault" and fits: "load_fits e j old"
    and plain: "linkless (j_disk j) (j_task_dir j)" and fresh: "lookup (j_disk j) (j_task_dir j @ [temp_name e]) = None"
  shows "\<exists>j'. j_commit e raw n False j = (Inr (), j')"
proof -
  have w: "writer_fits e True j" using fits by (simp add: load_fits_def)
  from writer_can_enter [OF w] obtain j0 where j0: "j_require_writer e True False j = (Inr (), j0)" "records e j j0" "writer_fits e True j0" by blast
  then obtain ids where ids: "j0 = j\<lparr>j_ids := ids\<rparr>" by (auto simp: records_def)
  from fits obtain info bs where info: "private_stat e (j_disk j) (j_state_path j) ''state'' = Inr info" "lookup (j_disk j) (j_state_path j) = Some (FileN info bs)"
    "j_state_id j \<in> {None, Some (node_id info)}"
    by (auto simp: load_fits_def state_fits_def read_file_iff)
  from lookup_parent [OF plain info(2) [unfolded j_state_path_def]] obtain dst kids where dir: "lookup (j_disk j) (j_task_dir j) = Some (DirN dst kids)" by blast
  let ?t = "j_task_dir j @ [temp_name e]"
  from put_node_can [OF plain dir fresh] obtain fs1 where put: "put_node (env_world e) ?t (new_file e ?t raw) (j_disk j) = Some fs1" by blast
  have ag: "agree (j_disk j) fs1 p" if "length p \<le> length (j_task_dir j)" for p using put_node_agree [OF calm put] within_short that by blast
  have w1: "writer_fits e True (j0\<lparr>j_disk := fs1\<rparr>)" by (rule writer_fits_disk [OF j0(3)]) (use ag in \<open>simp add: ids\<close>)
  have plain1: "linkless fs1 (j_task_dir j)" using agree_linkless [OF ag plain] by simp
  have "\<not> within [temp_name e] (j_task_dir j) (j_state_path j)" using temp_name_state [of e] by (simp add: j_state_path_def within_snoc del: temp_name_state)
  from agree_at [OF put_node_agree [OF calm put this]] info(2) have "lookup fs1 (j_state_path j) = Some (FileN info bs)" by (simp add: alike_file)
  then have old1: "private_stat e fs1 (j_state_path j) ''state'' = Inr info" using info(1,2) by (simp add: private_stat_def)
  have "\<exists>j'. j_install e (j_task_dir (j0\<lparr>j_disk := fs1\<rparr>) @ [temp_name e]) raw (Some info) (j0\<lparr>j_disk := fs1\<rparr>) = (Inr (), j')"
    by (rule install_when_calm [OF quiet w1]) (use plain1 old1 put_node_lookup(1) [OF put] in \<open>simp_all add: ids\<close>)
  then obtain j' where "j_install e ?t raw (Some info) (j0\<lparr>j_disk := fs1\<rparr>) = (Inr (), j')" by (auto simp: ids)
  then show ?thesis
    using j0(1) info(1,3) put quiet
    by (auto simp: j_commit_def io_bind_def io_ask_def ids temp_name_def [symmetric] Let_def)
qed

lemma note_when_calm:
  assumes calm: "calm (env_world e)" and quiet: "env_fault e = No_Fault" and fits: "load_fits e j old" and r: "fld ''revision'' old = r"
    and ph: "phase_data data (Some (fld ''data'' old)) False = Inr ()" and vj: "validate_json (nat (j_limit j)) data = Inr ()"
    and enc: "j_encode j (int_of r + 1) (fld ''deadline_monotonic'' old) data = Inr (v, raw)"
    and plain: "linkless (j_disk j) (j_task_dir j)" and fresh: "lookup (j_disk j) (j_task_dir j @ [temp_name e]) = None"
  shows "\<exists>j'. journal_save e r data j = (Inr v, j')"
proof -
  have "writer_fits e False j" using fits writer_fits_less by (auto simp: load_fits_def)
  from writer_can_enter [OF this] obtain j1 where j1: "j_require_writer e False False j = (Inr (), j1)" "records e j j1" by blast
  then obtain ids where ids: "j1 = j\<lparr>j_ids := ids\<rparr>" by (auto simp: records_def)
  from records_load [OF j1(2)] fits have "load_fits e j1 old" by simp
  from load_can [OF this] obtain j2 where j2: "journal_load e j1 = (Inr old, j2)" by blast
  from journal_load_fits [OF j2] obtain ids2 i where l2: "load_fits e j2 old" "j2 = j\<lparr>j_ids := ids2, j_state_id := Some i\<rparr>" by (auto simp: ids)
  have "is_count r" using fits r by (auto simp: load_fits_def state_fits_def check_state_def result_iff)
  moreover have "j_encode j2 (int_of r + 1) (fld ''deadline_monotonic'' old) data = Inr (v, raw)" using enc by (simp add: l2(2) j_encode_def)
  moreover have "\<exists>j'. j_commit e raw (int_of r + 1) False j2 = (Inr (), j')"
    by (rule commit_when_calm [OF calm quiet l2(1)]) (use plain fresh in \<open>simp_all add: l2(2)\<close>)
  moreover have "j_limit j2 = j_limit j" by (simp add: l2(2))
  ultimately show ?thesis
    using j1(1) j2 r ph vj by (auto simp: journal_save_def io_bind_def io_ask_def io_lift_def)
qed

section \<open>Properties of the journal\<close>

text \<open>
  C31: over any run of successful notes the journal keeps what it has settled: a recorded immutable
  fact keeps its canonical bytes, a publication that has happened is never taken back, and the
  channel of a begun transfer never changes.
\<close>

theorem settled_facts_persist:
  assumes "saves (journal_note e) ws j = (Inr (), j')" and "\<forall>(l, n, data) \<in> set ws. notes_ok e l data" and "journal_sane e j"
    and "journal_look e j = Inr old" and "settled f old"
  shows "\<exists>new. journal_look e j' = Inr new \<and> settled f new"
  using noted.saves_keep_facts [OF assms] .

text \<open>
  Notes that all succeed name consecutive revisions, starting at the one that is stored, and
  afterwards the journal reads the last of them.
\<close>

theorem notes_are_consecutive:
  assumes "saves (journal_note e) ws j = (Inr (), j')" and "\<forall>(l, n, data) \<in> set ws. notes_ok e l data" and "journal_sane e j"
    and "journal_look e j = Inr old"
  shows "map (\<lambda>(l, n, data). n) ws = map (\<lambda>i. envelope_revision old + int i) [0..<length ws] \<and>
    (\<exists>new. journal_look e j' = Inr new \<and> envelope_revision new = envelope_revision old + int (length ws) \<and>
      journal_content new = (if ws = [] then journal_content old else canonical_json (snd (snd (last ws)))))"
  using noted.saves_consecutive [OF assms] .

section \<open>A small journal\<close>

definition sample_data :: json where
  "sample_data = obj [(''phase'', JStr (u ''CREATED'')), (''published_ever'', JBool True), (''begin_attempted'', JBool False)]"

definition journal_disk :: "byte list \<Rightarrow> node" where
  "journal_disk raw = DirN (sample_stat 2 0)
     [(u ''.velo-transfer'', DirN (sample_stat 20 0)
        [(u ''.host-writer.lock'', FileN (sample_stat 21 0) []),
         (u ''tasks'', DirN (sample_stat 22 0) [(u ''t1'', DirN (sample_stat 23 0)
           [(u ''state.json'', FileN (sample_stat 9 (int (length raw))\<lparr>st_mode := 384\<rparr>) raw)])])])]"

definition sample_journal :: "node \<Rightarrow> journal" where
  "sample_journal fs = \<lparr>j_request = sample_request, j_limit = 5000, j_evidence_limit = 1000, j_max_evidence = 32, j_max_duration = 100,
     j_binding = obj [(''transfer_id'', sample_task)], j_lock = Some (sample_stat 21 0), j_ids = [(''lock'', (1, 21))], j_created = True,
     j_state_id = Some (1, 9), j_disk = fs\<rparr>"

abbreviation sample_notes :: "int \<Rightarrow> (string \<times> json) list" where
  "sample_notes n \<equiv> j_fields (sample_journal (journal_disk [])) n (JInt 7) sample_data"

lemma sample_notes_serial: "0 \<le> n \<Longrightarrow> n < 10 \<Longrightarrow> serial (obj (sample_notes n))"
  "0 \<le> n \<Longrightarrow> n < 10 \<Longrightarrow> is_hex64 h \<Longrightarrow> serial (obj (sample_notes n @ [(''sha256'', JStr h)]))"
  by (simp_all add: j_fields_def sample_data_def sample_journal_def journal_schema_def sample_request_def serial_obj serial_digits serial_hex)

lemma sample_notes_floats: "floats_ok pf (obj (sample_notes n @ [(''sha256'', JStr h)]))"
  by (simp add: j_fields_def sample_data_def sample_journal_def journal_schema_def sample_request_def obj_def)

lemma sample_notes_cost: "0 \<le> n \<Longrightarrow> n < 10 \<Longrightarrow> is_hex64 h \<Longrightarrow> cost (obj (sample_notes n @ [(''sha256'', JStr h)])) \<le> 1000"
proof -
  assume n: "0 \<le> n" "n < 10" and h: "is_hex64 h"
  have "length (int_str n) = 1" using n by (simp add: int_str_def dec_digits.simps)
  moreover have "text_cost h = 66" using hex_cost(1) h by blast
  ultimately show ?thesis
    by (simp add: j_fields_def sample_data_def sample_journal_def journal_schema_def sample_request_def obj_def cost_simps cost_int)
      (simp add: text_cost_eq u_def char_cost_def int_str_def dec_digits.simps)
qed

lemma sample_note_encodes:
  assumes "0 \<le> n" "n < 10"
  shows "\<exists>v raw. j_encode (sample_journal fs) n (JInt 7) sample_data = Inr (v, raw)"
proof -
  have same: "j_fields (sample_journal fs) n (JInt 7) sample_data = sample_notes n" "j_limit (sample_journal fs) = 5000" by (simp_all add: j_fields_def sample_journal_def)
  let ?h = "sha256_hex (utf8_bytes (dumps (sort_json (obj (sample_notes n)))))"
  let ?v = "obj (sample_notes n @ [(''sha256'', JStr ?h)])"
  have s: "serial ?v" using sample_notes_serial(2) [OF assms, of ?h] by simp
  have can: "canonical_json ?v = Inr (utf8_bytes (dumps (sort_json ?v)))" using serial_canonical [OF s] .
  have "length (utf8_bytes (dumps (sort_json ?v))) \<le> 1000"
    using canonical_json_length [OF can] s sample_notes_cost [OF assms, of ?h] by (simp add: serial_def)
  moreover have "validate_json 5000 (obj (sample_notes n @ [(''sha256'', JStr (replicate 64 48))])) = Inr ()"
  proof -
    have "serial (obj (sample_notes n @ [(''sha256'', JStr (replicate 64 48))]))" using sample_notes_serial(2) [OF assms zeros_hex] .
    moreover have "node_count (obj (sample_notes n @ [(''sha256'', JStr (replicate 64 48))])) \<le> 10000" "depth_ok 32 (obj (sample_notes n @ [(''sha256'', JStr (replicate 64 48))])) 0"
      by (simp_all add: j_fields_def sample_data_def sample_journal_def journal_schema_def sample_request_def obj_def)
    ultimately show ?thesis using sample_notes_cost [OF assms zeros_hex] by (simp add: validate_json_accepts serial_def)
  qed
  ultimately have "j_encode (sample_journal fs) n (JInt 7) sample_data = Inr (?v, utf8_bytes (dumps (sort_json ?v)))"
    using serial_digest [OF sample_notes_serial(1) [OF assms]] can by (simp add: j_encode_iff same)
  then show ?thesis by blast
qed

definition note_bytes :: "byte list" where
  "note_bytes = (case j_encode (sample_journal (journal_disk [])) 0 (JInt 7) sample_data of Inr (v, raw) \<Rightarrow> raw | Inl x \<Rightarrow> [])"

abbreviation start_journal :: journal where
  "start_journal \<equiv> sample_journal (journal_disk note_bytes)"

lemma journal_places: "j_root (sample_journal fs) = [u ''.velo-transfer'']" "j_tasks (sample_journal fs) = [u ''.velo-transfer'', u ''tasks'']"
  "j_task_dir (sample_journal fs) = [u ''.velo-transfer'', u ''tasks'', u ''t1'']"
  "j_state_path (sample_journal fs) = [u ''.velo-transfer'', u ''tasks'', u ''t1'', u ''state.json'']"
  "j_lock_path (sample_journal fs) = [u ''.velo-transfer'', u ''.host-writer.lock'']" "j_disk (sample_journal fs) = fs"
  by (simp_all add: j_root_def j_tasks_def j_task_dir_def j_state_path_def j_lock_path_def) (simp_all add: sample_journal_def sample_request_def)

lemma sample_writer_fits: "writer_fits sample_env True (sample_journal (journal_disk raw))"
proof -
  have chain: "check_parent_chain sample_env (journal_disk raw) [] = Inr ()"
    by (simp add: check_parent_chain_def journal_disk_def sample_stat_def sample_env_def others_write_def)
  have dir: "private_stat sample_env (journal_disk raw) [u ''.velo-transfer''] ''root'' = Inr (sample_stat 20 0)"
    "private_stat sample_env (journal_disk raw) [u ''.velo-transfer'', u ''tasks''] ''tasks'' = Inr (sample_stat 22 0)"
    "private_stat sample_env (journal_disk raw) [u ''.velo-transfer'', u ''tasks'', u ''t1''] ''task'' = Inr (sample_stat 23 0)"
    "private_stat sample_env (journal_disk raw) [u ''.velo-transfer'', u ''.host-writer.lock''] ''lock'' = Inr (sample_stat 21 0)"
    by (simp_all add: private_stat_def journal_disk_def sample_env_def u_def sample_stat_def)
  show ?thesis using chain dir
    by (simp add: writer_fits_def j_dirs_def dir_fits_def lock_fits_def journal_places) (simp add: sample_journal_def node_id_def sample_stat_def)
qed

lemma sample_data_fields: "is_obj sample_data" "fld ''phase'' sample_data = JStr (u ''CREATED'')" "fld ''published_ever'' sample_data = JBool True"
  "fld ''begin_attempted'' sample_data = JBool False" "k \<notin> {''phase'', ''published_ever'', ''begin_attempted''} \<Longrightarrow> dget k sample_data = None"
  by (simp_all add: sample_data_def)

lemma sample_data_absent: "k \<notin> {''phase'', ''published_ever'', ''begin_attempted''} \<Longrightarrow> fld k sample_data = JNull"
  using sample_data_fields(5) by (simp add: fld_def)

lemma sample_phase: "phase_data sample_data (Some (sort_json sample_data)) False = Inr ()" "phase_data sample_data None False = Inr ()"
proof -
  have sorted: "fld k (sort_json sample_data) = sort_json (fld k sample_data)" for k
    using sample_notes_serial(1) [of 0] by (intro fld_sort_json) (simp add: serial_def j_fields_def wf_json_obj)
  have facts: "keeps_facts (sort_json sample_data) sample_data = Inr ()"
    by (simp add: keeps_facts_def sorted same_fact_def immutable_facts_def sample_data_fields sample_data_absent)
  have phase: "str_in (JStr (u ''CREATED'')) result_phases" "u ''CREATED'' \<noteq> u ''COMPLETE''"
    by (simp_all add: str_in_def result_phases_def)
  show "phase_data sample_data (Some (sort_json sample_data)) False = Inr ()" "phase_data sample_data None False = Inr ()"
    using phase facts by (simp_all add: phase_data_def sample_data_fields sample_data_absent)
qed

lemma start_loads: "\<exists>old. load_fits sample_env start_journal old \<and> fld ''revision'' old = JInt 0 \<and> fld ''data'' old = sort_json sample_data \<and>
    fld ''deadline_monotonic'' old = JInt 7"
proof -
  from sample_note_encodes [of 0 "journal_disk []"] obtain v raw where enc: "j_encode (sample_journal (journal_disk [])) 0 (JInt 7) sample_data = Inr (v, raw)" by auto
  then have raw: "note_bytes = raw" by (simp add: note_bytes_def)
  from enc obtain h where v: "v = obj (sample_notes 0 @ [(''sha256'', JStr h)])" and h: "is_hex64 h" by (auto simp: j_encode_iff sha.dig_hex)
  have wf: "wf_json v" using sample_notes_serial(2) [of 0 h] h by (simp add: v serial_def)
  have enc': "j_encode start_journal 0 (JInt 7) sample_data = Inr (v, raw)" using enc by (simp add: j_encode_def sample_journal_def)
  have placed: "lookup (j_disk start_journal) (j_state_path start_journal) = Some (new_file sample_env [] raw)"
    by (simp add: journal_places raw) (simp add: journal_disk_def u_def new_file_def sample_env_def sample_world_def sample_stat_def)
  have stat: "(1, 9) = node_id st" if "private_stat sample_env (j_disk start_journal) (j_state_path start_journal) ''state'' = Inr st" for st
    using that placed by (simp add: private_stat_def new_file_def result_iff) (auto simp: sample_env_def sample_world_def sample_stat_def node_id_def)
  have "state_fits sample_env start_journal (sort_json v)"
    by (rule envelope_state_fits [OF enc' wf _ _ _ _ sample_phase(2) placed, where i = "(1, 9)" and tn = "u ''t1''"])
      (use stat in \<open>simp_all add: v sample_notes_floats finite_deadline_def bit_length_def nat_bits.simps positive_number_def\<close>, simp_all add: sample_journal_def sample_request_def)
  then have "load_fits sample_env start_journal (sort_json v)"
    using sample_writer_fits by (simp add: load_fits_def) (simp add: sample_journal_def)
  then show ?thesis by (intro exI [of _ "sort_json v"]) (simp add: fld_sort_json [OF wf], simp add: v j_fields_def)
qed

section \<open>Witnesses\<close>

lemma start_fresh: "linkless (j_disk start_journal) (j_task_dir start_journal)" "lookup (j_disk start_journal) (j_task_dir start_journal @ [temp_name sample_env]) = None"
  unfolding journal_places by (simp_all add: journal_disk_def temp_name_def) (simp_all add: u_def sample_env_def)

lemma start_notes: "\<exists>v j'. journal_note sample_env (No_Fault, u ''1'', True) 0 sample_data start_journal = (Inr v, j')"
proof -
  have luck: "lucky sample_env (No_Fault, u ''1'', True) = sample_env" by (simp add: lucky_def sample_env_def)
  from start_loads obtain old where old: "load_fits sample_env start_journal old" "fld ''revision'' old = JInt 0" "fld ''data'' old = sort_json sample_data"
    "fld ''deadline_monotonic'' old = JInt 7" by blast
  from sample_note_encodes [of 1 "journal_disk note_bytes"] obtain v raw where
    enc: "j_encode start_journal (int_of (JInt 0) + 1) (fld ''deadline_monotonic'' old) sample_data = Inr (v, raw)" by (auto simp: old(4))
  have vj: "validate_json (nat (j_limit start_journal)) sample_data = Inr ()"
    by (simp add: validate_json_accepts sample_journal_def) (simp add: sample_data_def obj_def cost_simps text_cost_eq u_def char_cost_def no_surrogate_def is_surrogate_def)
  have calm: "calm (env_world sample_env)" using sample_calm by (simp add: sample_env_def)
  from note_when_calm [OF calm sample_fault(1) old(1,2) sample_phase(1) [folded old(3)] vj enc start_fresh]
  show ?thesis by (auto simp: journal_note_def luck simp del: split_paired_Ex)
qed

lemma start_sane: "journal_sane sample_env start_journal" "notes_ok sample_env (No_Fault, u ''1'', True) sample_data"
proof -
  from start_loads obtain old where "journal_look sample_env start_journal = Inr old" "fld ''deadline_monotonic'' old = JInt 7" by (auto simp: journal_look_iff)
  moreover have "serial (hr_transfer_id (j_request start_journal)) \<and> serial (j_binding start_journal)"
    by (simp add: sample_journal_def sample_request_def serial_obj)
  ultimately show "journal_sane sample_env start_journal"
    by (simp add: journal_sane_def serial_def) (simp add: sample_journal_def sample_request_def obj_def)
  show "notes_ok sample_env (No_Fault, u ''1'', True) sample_data"
    using sample_notes_serial(1) [of 0] sample_calm by (simp add: notes_ok_def serial_def j_fields_def wf_json_obj) (simp add: sample_env_def sample_data_def obj_def)
qed

theorem settled_facts_persist_witness:
  "\<exists>j' new. saves (journal_note sample_env) [((No_Fault, u ''1'', True), 0, sample_data)] start_journal = (Inr (), j') \<and>
     journal_look sample_env j' = Inr new \<and> settled (''published_ever'', []) new"
proof -
  from start_notes obtain v j' where "journal_note sample_env (No_Fault, u ''1'', True) 0 sample_data start_journal = (Inr v, j')" by blast
  then have run: "saves (journal_note sample_env) [((No_Fault, u ''1'', True), 0, sample_data)] start_journal = (Inr (), j')" by (simp add: io_lift_def)
  from start_loads obtain old where old: "journal_look sample_env start_journal = Inr old" "fld ''data'' old = sort_json sample_data" by (auto simp: journal_look_iff)
  have "settled (''published_ever'', []) old"
    using sample_notes_serial(1) [of 0] by (simp add: settled_def old(2) fld_sort_json serial_def j_fields_def wf_json_obj) (simp add: sample_data_def)
  from settled_facts_persist [OF run _ start_sane(1) old(1) this] start_sane(2) run show ?thesis by auto
qed

theorem notes_are_consecutive_witness:
  "\<exists>j' new. saves (journal_note sample_env) [((No_Fault, u ''1'', True), 0, sample_data)] start_journal = (Inr (), j') \<and>
     journal_look sample_env j' = Inr new \<and> envelope_revision new = 1 \<and> journal_content new = canonical_json sample_data"
proof -
  from start_notes obtain v j' where "journal_note sample_env (No_Fault, u ''1'', True) 0 sample_data start_journal = (Inr v, j')" by blast
  then have run: "saves (journal_note sample_env) [((No_Fault, u ''1'', True), 0, sample_data)] start_journal = (Inr (), j')" by (simp add: io_lift_def)
  from start_loads obtain old where old: "journal_look sample_env start_journal = Inr old" "fld ''revision'' old = JInt 0" by (auto simp: journal_look_iff)
  from notes_are_consecutive [OF run _ start_sane(1) old(1)] start_sane(2) old(2) run show ?thesis by (auto simp: envelope_revision_def)
qed

end
