(* ===== verification/Publish.thy ===== *)
theory Publish
  imports Disk
begin

text \<open>
  Publication of a verified staging directory: \<open>src/velo_transfer/filesystem.py\<close> on POSIX. The
  paths are parsed; the staging directory and the destination lie in one parent, so that the rename
  is a move within it. An error that carries \<open>published=True\<close> is \<open>Failed_Published\<close>.
\<close>

section \<open>System calls\<close>

definition os_error :: exn where
  "os_error = PyError ''OSError''"

text \<open>\<open>renameat2\<close> with \<open>RENAME_NOREPLACE\<close>: a fault is what the error numbers other than \<open>EEXIST\<close> become.\<close>

definition rename_noreplace :: "env \<Rightarrow> path \<Rightarrow> path \<Rightarrow> (node, unit) io" where
  "rename_noreplace e source dest fs =
     (case env_fault e of
        Move_Fault x \<Rightarrow> (Inl x, fs)
      | _ \<Rightarrow>
          if lookup fs dest \<noteq> None then (Inl (Error ''destination_exists''), fs)
          else (case move_node (env_world e) False (butlast dest) (last source) (last dest) fs of
                  None \<Rightarrow> (Inl (Error ''atomic_publish_failed''), fs) | Some fs1 \<Rightarrow> (Inr (), fs1)))"

definition same_volume :: "node \<Rightarrow> path \<Rightarrow> path \<Rightarrow> bool result" where
  "same_volume fs source parent =
     rbind (stat_of fs source) (\<lambda>a. rbind (stat_of fs parent) (\<lambda>b. Inr (st_dev a = st_dev b)))"

fun sync_file :: "node \<Rightarrow> unit result" where
  "sync_file (LinkN t) = Inl (Error ''link_or_reparse'')"
| "sync_file (OtherN st) = Inl (Error ''tree_type_mismatch'')"
| "sync_file n = Inr ()"

fun is_walked :: "node \<Rightarrow> bool" where
  "is_walked (DirN st kids) = True"
| "is_walked (LinkN (Some t)) = is_walked t"
| "is_walked n = False"

text \<open>
  \<open>_fsync_tree\<close>: \<open>os.walk\<close> from the leaves up, where a link to a directory counts as a directory that
  is not entered.
\<close>

fun sync_tree :: "budget \<Rightarrow> int \<Rightarrow> node \<Rightarrow> unit result" where
  "sync_tree b now (DirN st kids) =
     rbind (for_each (\<lambda>r. r) (map (\<lambda>(k, n). sync_tree b now n) kids)) (\<lambda>_.
     rbind (budget_check b now) (\<lambda>_.
     for_each (\<lambda>(k, n). if is_walked n then Inr () else sync_file n) kids))"
| "sync_tree b now n = Inr ()"

definition fsync_tree :: "env \<Rightarrow> path \<Rightarrow> budget \<Rightarrow> node \<Rightarrow> unit result" where
  "fsync_tree e root b fs =
     rbind (case lookup fs root of None \<Rightarrow> Inr () | Some n \<Rightarrow> sync_tree b (env_now e) n) (\<lambda>_.
     case env_fault e of Write_Fault k x \<Rightarrow> Inl x | _ \<Rightarrow> Inr ())"

section \<open>Publication\<close>

fun is_transfer_error :: "exn \<Rightarrow> bool" where
  "is_transfer_error (Error c) = True"
| "is_transfer_error x = False"

datatype 'a publication = Failed exn | Failed_Published exn | Published 'a

definition expect_identity :: "node \<Rightarrow> path \<Rightarrow> json \<Rightarrow> string \<Rightarrow> unit result" where
  "expect_identity fs p expected code = rbind (dir_identity fs p) (\<lambda>i. require (py_eq i expected) (Error code))"

text \<open>Everything up to the rename.\<close>

definition publish_checks :: "env \<Rightarrow> path \<Rightarrow> path \<Rightarrow> path \<Rightarrow> json \<Rightarrow> budget \<Rightarrow> json \<Rightarrow> json \<Rightarrow> node \<Rightarrow> unit result" where
  "publish_checks e staging dest allowed_root manifest b staging_identity parent_identity fs =
     rbind (require (butlast staging = butlast dest) (Error ''cross_parent'')) (\<lambda>_.
     rbind (safe_chain (env_ucd e) fs staging allowed_root False) (\<lambda>_.
     rbind (safe_chain (env_ucd e) fs dest allowed_root True) (\<lambda>_.
     rbind (require (lookup fs dest = None) (Error ''destination_exists'')) (\<lambda>_.
     rbind (expect_identity fs staging staging_identity ''staging_changed'') (\<lambda>_.
     rbind (expect_identity fs (butlast dest) parent_identity ''destination_parent_changed'') (\<lambda>_.
     rbind (same_volume fs staging (butlast dest)) (\<lambda>same.
     rbind (require same (Error ''cross_volume'')) (\<lambda>_.
     rbind (stat_of fs staging) (\<lambda>st.
     rbind (require (st_mode st mod 64 = 0) (Error ''staging_not_private'')) (\<lambda>_.
     rbind (verify_tree (env_ucd e) fs staging manifest b (env_now e) (Some staging_identity)) (\<lambda>_.
     rbind (case fsync_tree e staging b fs of Inl x \<Rightarrow> Inl (if x = os_error then Error ''staging_sync_failed'' else x) | Inr _ \<Rightarrow> Inr ()) (\<lambda>_.
     rbind (expect_identity fs staging staging_identity ''staging_changed'') (\<lambda>_.
     expect_identity fs (butlast dest) parent_identity ''destination_parent_changed'')))))))))))))"

text \<open>Everything after it.\<close>

definition publish_confirm :: "env \<Rightarrow> path \<Rightarrow> json \<Rightarrow> budget \<Rightarrow> json \<Rightarrow> json \<Rightarrow> node \<Rightarrow> json result" where
  "publish_confirm e dest manifest b staging_identity parent_identity fs =
     rbind (case env_fault e of Sync_Fault x \<Rightarrow> Inl x | _ \<Rightarrow> Inr ()) (\<lambda>_.
     rbind (expect_identity fs (butlast dest) parent_identity ''destination_parent_changed'') (\<lambda>_.
     rbind (expect_identity fs dest staging_identity ''destination_changed'') (\<lambda>_.
     rbind (verify_tree (env_ucd e) fs dest manifest b (env_now e) (Some staging_identity)) (\<lambda>r.
     Inr (obj [(''destination_directory'', JStr (path_str dest)), (''identity'', fld ''identity'' r),
       (''manifest_sha256'', fld ''manifest_sha256'' r), (''files'', fld ''files'' r)])))))"

definition publish_directory :: "env \<Rightarrow> path \<Rightarrow> path \<Rightarrow> path \<Rightarrow> json \<Rightarrow> budget \<Rightarrow> json \<Rightarrow> json \<Rightarrow> node \<Rightarrow> json publication \<times> node" where
  "publish_directory e staging dest allowed_root manifest b staging_identity parent_identity fs =
     (case publish_checks e staging dest allowed_root manifest b staging_identity parent_identity fs of
        Inl x \<Rightarrow> (Failed x, fs)
      | Inr _ \<Rightarrow>
          (case rename_noreplace e staging dest fs of
             (Inl x, fs1) \<Rightarrow> (Failed x, fs1)
           | (Inr _, fs1) \<Rightarrow>
               (case publish_confirm e dest manifest b staging_identity parent_identity fs1 of
                  Inr r \<Rightarrow> (Published r, fs1)
                | Inl x \<Rightarrow> (if is_transfer_error x then Failed_Published x
                    else if x = os_error then Failed_Published (Error ''post_publish_io_failed'') else Failed x, fs1))))"

section \<open>What publication does\<close>

definition holds_manifest :: "json \<Rightarrow> node option \<Rightarrow> bool" where
  "holds_manifest manifest n \<longleftrightarrow> (\<exists>st kids. n = Some (DirN st kids) \<and>
     (\<lambda>(q, m). join_on 47 q) ` set (below [] (DirN st kids)) = entry_path ` set (elems (fld ''entries'' manifest)) \<and>
     (\<forall>(q, m) \<in> set (below [] (DirN st kids)). \<exists>entry \<in> set (elems (fld ''entries'' manifest)). entry_path entry = join_on 47 q \<and> matches entry m))"

lemma rename_noreplace_moves:
  assumes "rename_noreplace e (d @ [s]) (d @ [t]) fs = (r, fs')" and calm: "calm (env_world e)"
  shows "(is_ok r \<longrightarrow> lookup fs (d @ [t]) = None \<and> lookup fs' (d @ [t]) = lookup fs (d @ [s]) \<and> (s \<noteq> t \<longrightarrow> lookup fs' (d @ [s]) = None) \<and>
      (\<forall>p. \<not> within [s, t] d p \<longrightarrow> agree fs fs' p)) \<and> (\<not> is_ok r \<longrightarrow> fs' = fs)"
proof (cases r)
  case (Inr x)
  with assms(1) have none: "lookup fs (d @ [t]) = None" and mv: "move_node (env_world e) False d s t fs = Some fs'"
    by (auto simp: rename_noreplace_def split: fault.splits if_splits option.splits)
  have "s \<noteq> t"
  proof
    assume "s = t"
    from update_at_lookup [OF mv [unfolded move_node_def]] obtain m m' where "lookup fs d = Some m" "move_kid (env_world e) False s t m = Some m'" by blast
    then obtain st kids where "lookup fs d = Some (DirN st kids)" "map_of kids s \<noteq> None" by (auto simp: move_kid_def split: node.splits option.splits)
    with none \<open>s = t\<close> show False by (simp add: lookup_snoc)
  qed
  then show ?thesis using Inr none move_node_lookup(1,2) [OF mv] move_node_agree [OF calm mv] by (simp add: is_ok_def)
qed (use assms(1) in \<open>auto simp: rename_noreplace_def is_ok_def split: fault.splits if_splits option.splits\<close>)

lemma publish_cases:
  assumes "publish_directory e staging dest root manifest b sid pid fs = (r, fs')"
  shows "(\<exists>x. r = Failed x \<and> (publish_checks e staging dest root manifest b sid pid fs = Inl x \<and> fs' = fs \<or>
        publish_checks e staging dest root manifest b sid pid fs = Inr () \<and> rename_noreplace e staging dest fs = (Inl x, fs'))) \<or>
    publish_checks e staging dest root manifest b sid pid fs = Inr () \<and> rename_noreplace e staging dest fs = (Inr (), fs') \<and>
      (\<forall>c. r \<noteq> Failed (Error c)) \<and> (\<forall>v. r = Published v \<longrightarrow> publish_confirm e dest manifest b sid pid fs' = Inr v)"
  using assms by (auto simp: publish_directory_def split: sum.splits prod.splits if_splits)

lemma below_none: "lookup fs p = None \<Longrightarrow> p \<noteq> []"
  by auto

text \<open>
  C32: publication never overwrites and never half-happens. When \<open>publish_directory\<close> fails with a
  transfer error that does not say \<open>published\<close>, the file system is as it was. In every other
  outcome that it reports as published, success or failure, the destination did not exist before, it
  now holds exactly the staged tree, which has been verified against the manifest, the staging name
  is gone, and every path outside these two names is as before.
\<close>

theorem publish_all_or_nothing:
  assumes run: "publish_directory e staging dest root manifest b sid pid fs = (r, fs')" and calm: "calm (env_world e)" and tidy: "tidy fs"
    and proper: "staging \<noteq> []"
  shows "case r of Failed (Error c) \<Rightarrow> fs' = fs
    | Failed x \<Rightarrow> True
    | _ \<Rightarrow> lookup fs dest = None \<and> lookup fs' dest = lookup fs staging \<and> lookup fs' staging = None \<and>
        holds_manifest manifest (lookup fs' dest) \<and>
        (\<forall>p. \<not> is_prefix staging p \<and> \<not> is_prefix dest p \<longrightarrow> agree fs fs' p)"
proof -
  have published: "lookup fs dest = None \<and> lookup fs' dest = lookup fs staging \<and> lookup fs' staging = None \<and>
      holds_manifest manifest (lookup fs' dest) \<and> (\<forall>p. \<not> is_prefix staging p \<and> \<not> is_prefix dest p \<longrightarrow> agree fs fs' p)"
    if checks: "publish_checks e staging dest root manifest b sid pid fs = Inr ()" and ren: "rename_noreplace e staging dest fs = (Inr (), fs')"
  proof -
    from checks obtain v where parent: "butlast staging = butlast dest" and none: "lookup fs dest = None"
      and ver: "verify_tree (env_ucd e) fs staging manifest b (env_now e) (Some sid) = Inr v"
      by (auto simp: publish_checks_def result_iff)
    obtain d s where s: "staging = d @ [s]" using proper by (cases staging rule: rev_cases) auto
    obtain t where t: "dest = d @ [t]" using below_none [OF none] parent s by (cases dest rule: rev_cases) auto
    from verify_tree_sound [OF ver tidy] obtain st kids where look: "lookup fs staging = Some (DirN st kids)" and holds: "holds_manifest manifest (lookup fs staging)"
      by (auto simp: holds_manifest_def)
    have "s \<noteq> t" using none look s t by auto
    then show ?thesis using rename_noreplace_moves [OF ren [unfolded s t] calm] holds none
      by (auto simp: s t is_ok_def within_def)
  qed
  have failed: "fs' = fs" if "rename_noreplace e staging dest fs = (Inl x, fs')" for x
    using that by (auto simp: rename_noreplace_def split: fault.splits if_splits option.splits)
  from publish_cases [OF run] show ?thesis
    using published failed by (cases r) (auto split: exn.splits)
qed

section \<open>Witness\<close>

definition publish_env :: env where
  "publish_env = \<lparr>env_ucd = sample_ucd, env_wide = (\<lambda>_. Inl (Error [])), env_pf = (\<lambda>_. FloatNan), env_euid = 0, env_now = 0,
     env_world = sample_world, env_fresh = [], env_fault = No_Fault, env_unlink = True\<rparr>"

definition published_fs :: node where
  "published_fs = DirN (sample_stat 2 0)
     [(u ''s'', DirN (sample_stat 3 0) [(u ''a'', FileN (sample_stat 4 1) [97])]),
      (u ''o'', DirN (sample_stat 5 0) [(u ''x'', DirN (sample_stat 6 0) [(u ''a'', FileN (sample_stat 9 1) [97])])]),
      (u ''p'', DirN (sample_stat 7 0) [(u ''b'', FileN (sample_stat 8 22) sample_zip)])]"

abbreviation sample_id :: "int \<Rightarrow> json" where
  "sample_id i \<equiv> obj [(''device'', JInt 1), (''inode'', JInt i)]"

lemma sample_rename: "rename_noreplace publish_env [u ''o'', stage_name] [u ''o'', u ''x''] sample_after = (Inr (), published_fs)"
  by (simp add: rename_noreplace_def move_node_def move_kid_def publish_env_def sample_after_def published_fs_def sample_world_def u_def stage_name_def)

lemma published_fs_identity: "dir_identity published_fs [u ''o''] = Inr (sample_id 5)" "dir_identity published_fs [u ''o'', u ''x''] = Inr (sample_id 6)"
  by (simp_all add: published_fs_def dir_identity_def no_link_def sample_stat_def u_def)

lemma sample_id_eq: "py_eq (sample_id i) (sample_id i)"
  by (simp add: obj_def)

lemma sample_publish_checks:
  "publish_checks publish_env [u ''o'', stage_name] [u ''o'', u ''x''] [u ''o''] (sort_json sample_manifest) sample_budget (sample_id 6) (sample_id 5) sample_after = Inr ()"
proof -
  have env: "env_ucd publish_env = sample_ucd" "env_now publish_env = 0" "env_fault publish_env = No_Fault" by (simp_all add: publish_env_def)
  have chain: "safe_chain sample_ucd sample_after [u ''o'', stage_name] [u ''o''] False = Inr ()"
    using sample_after_lookup sample_names(4) by (simp add: safe_chain_iff is_prefix_def)
  have chain2: "safe_chain sample_ucd sample_after [u ''o'', u ''x''] [u ''o''] True = Inr ()"
  proof -
    have "check_relative sample_ucd (JStr (u ''x'')) = Inr (u ''x'')" using sample_names(5) by (simp add: check_relative_iff)
    then show ?thesis
      by (simp add: safe_chain_def is_prefix_def no_link_def) (simp add: sample_after_def u_def stage_name_def)
  qed
  have none: "lookup sample_after [u ''o'', u ''x''] = None" by (simp add: sample_after_def u_def stage_name_def)
  have st: "stat_of sample_after [u ''o'', stage_name] = Inr (sample_stat 6 0)" "stat_of sample_after [u ''o''] = Inr (sample_stat 5 0)"
    by (simp_all add: stat_of_iff sample_after_def u_def stage_name_def)
  have sync: "fsync_tree publish_env [u ''o'', stage_name] sample_budget sample_after = Inr ()"
  proof -
    have "lookup sample_after [u ''o'', stage_name] = Some (DirN (sample_stat 6 0) [(u ''a'', FileN (sample_stat 9 1) [97])])"
      using sample_after_lookup(1) by (simp add: no_link_iff)
    then show ?thesis using env by (simp add: fsync_tree_def)
  qed
  show ?thesis
    using chain chain2 none st sync sample_verify sample_after_lookup(5,6) sample_id_eq
    by (auto simp: publish_checks_def env expect_identity_def same_volume_def sample_stat_def simp del: py_eq.simps)
qed

theorem publish_all_or_nothing_witness:
  "\<exists>v. publish_directory publish_env [u ''o'', stage_name] [u ''o'', u ''x''] [u ''o''] (sort_json sample_manifest) sample_budget
      (sample_id 6) (sample_id 5) sample_after = (Published v, published_fs) \<and>
     holds_manifest (sort_json sample_manifest) (lookup published_fs [u ''o'', u ''x''])"
proof -
  have env: "env_ucd publish_env = sample_ucd" "env_now publish_env = 0" "env_fault publish_env = No_Fault" "env_world publish_env = sample_world"
    by (simp_all add: publish_env_def)
  have "lookup published_fs ([u ''o''] @ [u ''x'']) = Some (DirN (sample_stat 6 0) [(u ''a'', FileN (sample_stat 9 1) [97])])"
    "linkless published_fs ([u ''o''] @ [u ''x''])"
    by (simp_all add: published_fs_def u_def)
  from sample_verify_at [OF this] obtain w where ver: "verify_tree sample_ucd published_fs [u ''o'', u ''x''] (sort_json sample_manifest) sample_budget 0 (Some (sample_id 6)) = Inr w"
    by auto
  have "\<exists>v. publish_confirm publish_env [u ''o'', u ''x''] (sort_json sample_manifest) sample_budget (sample_id 6) (sample_id 5) published_fs = Inr v"
    using ver published_fs_identity sample_id_eq by (simp add: publish_confirm_def env expect_identity_def del: py_eq.simps)
  then obtain v where run: "publish_directory publish_env [u ''o'', stage_name] [u ''o'', u ''x''] [u ''o''] (sort_json sample_manifest) sample_budget
      (sample_id 6) (sample_id 5) sample_after = (Published v, published_fs)"
    using sample_publish_checks sample_rename by (auto simp: publish_directory_def)
  have calm: "calm (env_world publish_env)" by (simp add: env calm_def sample_world_def)
  have tidy: "tidy sample_after" by (simp add: sample_after_def u_def stage_name_def)
  from publish_all_or_nothing [OF run calm tidy] have "holds_manifest (sort_json sample_manifest) (lookup published_fs [u ''o'', u ''x''])"
    by (simp only: publication.case) blast
  with run show ?thesis by blast
qed

end
