(* ===== verification/Guest.thy ===== *)
theory Guest
  imports Store
begin

text \<open>
  The front of the guest service: \<open>src/velo_transfer/guest_service.py\<close> up to the loading and saving
  of a task. What \<open>observe_windows\<close> reports is an argument; the policy is the loaded one.
\<close>

section \<open>The service\<close>

record observation =
  obs_os :: pystr
  obs_vm :: pystr
  obs_boot :: pystr

record guest =
  g_policy :: "policy option"
  g_reason :: json
  g_observed :: observation
  g_mode :: string

definition bad_request :: exn where
  "bad_request = Error ''invalid_request''"

definition guest_identity :: "env \<Rightarrow> guest \<Rightarrow> observation \<Rightarrow> node \<Rightarrow> policy result" where
  "guest_identity e g current fs =
     rbind (require (obs_vm current = obs_vm (g_observed g) \<and> obs_boot current = obs_boot (g_observed g) \<and>
       obs_os current = obs_os (g_observed g)) (Error ''vm_identity_mismatch'')) (\<lambda>_.
     case g_policy g of
       None \<Rightarrow> Inl (Error ''transfer_disabled'')
     | Some pol \<Rightarrow> rbind (revalidate (env_ucd e) fs (env_euid e) pol) (\<lambda>_. Inr pol))"

definition guest_store :: "env \<Rightarrow> guest \<Rightarrow> observation \<Rightarrow> json \<Rightarrow> node \<Rightarrow> task_store result" where
  "guest_store e g current owner fs = rbind (guest_identity e g current fs) (\<lambda>pol. store_open e pol None owner fs)"

definition response_schema :: json where
  "response_schema = JStr (u ''velo.transfer.guest.response.v1'')"

definition root_ids :: "path list \<Rightarrow> json result" where
  "root_ids roots = rbind (fold_res (\<lambda>r ids. rbind (digest_json (JStr (path_str r))) (\<lambda>d. Inr (ids @ [JStr d]))) roots []) (\<lambda>ids. Inr (JList ids))"

definition transfer_capabilities :: "env \<Rightarrow> guest \<Rightarrow> observation \<Rightarrow> node \<Rightarrow> json result" where
  "transfer_capabilities e g current fs =
     (if g_policy g = None then Inr (obj [(''schema'', response_schema), (''enabled'', JBool False), (''reason'', g_reason g)])
      else
        rbind (guest_identity e g current fs) (\<lambda>pol.
        rbind (root_ids (read_roots pol)) (\<lambda>reads.
        rbind (root_ids (write_roots pol)) (\<lambda>writes.
        Inr (obj ([(''schema'', response_schema), (''enabled'', JBool True), (''protocol_version'', protocol_version),
          (''build'', JStr (u ''guest-engine-v1'')), (''vm_uuid'', JStr (obs_vm current)), (''boot_identity'', JStr (obs_boot current)),
          (''policy_id'', JStr (policy_id pol)), (''can_read'', JBool (read_roots pol \<noteq> [])), (''can_write'', JBool (write_roots pol \<noteq> [])),
          (''read_root_ids'', reads), (''write_root_ids'', writes),
          (''default_chunk_bytes'', JInt (min (2 ^ 20) (int_of (fld ''max_chunk_bytes'' (limits pol))))),
          (''limits'', limits pol), (''binary_wire'', JNull)] @
          (if g_mode g \<noteq> ''private'' then [(''output_access_mode'', JStr (u (g_mode g)))] else []) @
          (case dget ''max_batch_chunks'' (limits pol) of None \<Rightarrow> [] | Some v \<Rightarrow> [(''max_batch_chunks'', v)])))))))"

section \<open>Requests\<close>

definition guest_request_keys :: "string list" where
  "guest_request_keys = [''protocol_version'', ''transfer_id'', ''request_digest'', ''direction'', ''sources'', ''expected_destination'',
     ''expected_vm_identity'', ''evidence_context'', ''budget'']"

definition direction_is :: "string \<Rightarrow> json \<Rightarrow> bool" where
  "direction_is d request \<longleftrightarrow> fld ''direction'' request = JStr (u d)"

definition check_head :: "env \<Rightarrow> json \<Rightarrow> unit result" where
  "check_head e request =
     rbind (require (fld ''protocol_version'' request = protocol_version \<and> str_in (fld ''direction'' request) [''pull'', ''push'']) bad_request) (\<lambda>_.
     let transfer_id = fld ''transfer_id'' request in
     rbind (require (is_identifier transfer_id \<and> \<not> starts_with (u ''guest-internal-'') (str_of transfer_id)) (Error ''invalid_transfer_id'')) (\<lambda>_.
     rbind (check_relative (env_ucd e) transfer_id) (\<lambda>_.
     rbind (require (is_digest (fld ''request_digest'' request)) (Error ''request_digest_mismatch'')) (\<lambda>_.
     rbind (request_digest request) (\<lambda>d.
     rbind (require (fld ''request_digest'' request = JStr d) (Error ''request_digest_mismatch'')) (\<lambda>_.
     require (direction_is ''push'' request = (dget ''package'' request \<noteq> None)) bad_request))))))"

definition check_expected_identity :: "observation \<Rightarrow> json \<Rightarrow> unit result" where
  "check_expected_identity observed expected =
     rbind (require (fld ''vm_uuid'' expected = JStr (obs_vm observed) \<and> fld ''boot_identity'' expected = JStr (obs_boot observed))
       (Error ''vm_identity_mismatch'')) (\<lambda>_.
     require (case fld ''vm_epoch'' expected of JStr s \<Rightarrow> s \<noteq> [] \<and> length s \<le> 256 | _ \<Rightarrow> False) (Error ''invalid_vm_epoch''))"

definition evidence_text :: "json \<Rightarrow> bool" where
  "evidence_text v = (case v of JStr s \<Rightarrow> s \<noteq> [] \<and> length s \<le> 512 | _ \<Rightarrow> False)"

definition check_evidence_context :: "json \<Rightarrow> unit result" where
  "check_evidence_context evidence =
     rbind (require (has_keys evidence [''producer_complete'', ''producer_quiescent'', ''references'']) bad_request) (\<lambda>_.
     let references = fld ''references'' evidence in
     require (fld ''producer_complete'' evidence = JBool True \<and> fld ''producer_quiescent'' evidence = JBool True \<and>
       is_list references \<and> elems references \<noteq> [] \<and> list_all evidence_text (elems references)) (Error ''producer_evidence_missing''))"

text \<open>One source; for a pull its path has to be readable under the policy, and the deepest such root is collected.\<close>

definition check_request_source :: "env \<Rightarrow> policy \<Rightarrow> node \<Rightarrow> bool \<Rightarrow> json \<Rightarrow> path list \<Rightarrow> path list result" where
  "check_request_source e pol fs pull source roots =
     rbind (require (has_keys source [''absolute_path'', ''relative_path'']) bad_request) (\<lambda>_.
     rbind (require (is_str (fld ''absolute_path'' source)) (Error ''invalid_source_path'')) (\<lambda>_.
     rbind (check_relative (env_ucd e) (fld ''relative_path'' source)) (\<lambda>_.
     if pull then
       rbind (resolve_local (env_ucd e) fs (env_euid e) pol (fld ''absolute_path'' source) (JStr (u ''read'')) False) (\<lambda>p.
       case filter (\<lambda>r. is_prefix r p) (read_roots pol) of
         [] \<Rightarrow> Inl (PyError ''ValueError'')
       | r # rs \<Rightarrow> Inr (roots @ [longest rs r]))
     else Inr roots)))"

definition check_push_target :: "env \<Rightarrow> guest \<Rightarrow> policy \<Rightarrow> node \<Rightarrow> json \<Rightarrow> unit result" where
  "check_push_target e g pol fs request =
     rbind (resolve_local (env_ucd e) fs (env_euid e) pol (fld ''canonical_path'' (fld ''expected_destination'' request)) (JStr (u ''write'')) True) (\<lambda>p.
     rbind (resolve_local (env_ucd e) fs (env_euid e) pol (JStr (path_str (butlast p))) (JStr (u ''write'')) False) (\<lambda>_.
     rbind (require (\<not> (g_mode g = ''shared_modify'' \<and> (is_prefix (work_root pol) p \<or> is_prefix (butlast (policy_path pol)) p)))
       (Error ''private_output_target'')) (\<lambda>_.
     let package = fld ''package'' request in
     rbind (require (has_keys package [''size'', ''sha256'', ''manifest_sha256'']) bad_request) (\<lambda>_.
     require (is_count (fld ''size'' package) \<and> is_digest (fld ''sha256'' package) \<and> is_digest (fld ''manifest_sha256'' package))
       (Error ''invalid_package_identity'')))))"

definition limit_at :: "policy \<Rightarrow> pystr \<Rightarrow> int" where
  "limit_at pol k = int_of (case map_of (items (limits pol)) k of None \<Rightarrow> JNull | Some v \<Rightarrow> v)"

definition check_budget_item :: "policy \<Rightarrow> pystr \<times> json \<Rightarrow> unit result" where
  "check_budget_item pol kv = (case kv of (k, v) \<Rightarrow>
     rbind (require (if k \<in> set [u ''max_logical_bytes'', u ''min_free_bytes''] then is_count v else is_int v \<and> 0 < int_of v) (Error ''invalid_budget'')) (\<lambda>_.
     require (if k = u ''min_free_bytes'' then limit_at pol k \<le> int_of v else int_of v \<le> limit_at pol k) (Error ''budget_outside_policy'')))"

definition guest_validate_request :: "env \<Rightarrow> guest \<Rightarrow> observation \<Rightarrow> json \<Rightarrow> node \<Rightarrow> path list result" where
  "guest_validate_request e g current request fs =
     rbind (guest_identity e g current fs) (\<lambda>pol.
     rbind (require (has_keys request guest_request_keys \<or> has_keys request (guest_request_keys @ [''package''])) bad_request) (\<lambda>_.
     let half = int_of (fld ''max_state_bytes'' (limits pol)) div 2 in
     rbind (validate_json (nat half) request) (\<lambda>_.
     rbind (check_head e request) (\<lambda>_.
     rbind (require (has_keys (fld ''expected_vm_identity'' request) [''vm_uuid'', ''boot_identity'', ''vm_epoch'']) bad_request) (\<lambda>_.
     rbind (guest_identity e g current fs) (\<lambda>_.
     rbind (check_expected_identity current (fld ''expected_vm_identity'' request)) (\<lambda>_.
     rbind (validate_destination (fld ''expected_destination'' request) (fld ''direction'' request)) (\<lambda>_.
     rbind (check_evidence_context (fld ''evidence_context'' request)) (\<lambda>_.
     let sources = fld ''sources'' request in
     rbind (require (is_list sources \<and> elems sources \<noteq> []) (Error ''sources_required'')) (\<lambda>_.
     rbind (fold_res (check_request_source e pol fs (direction_is ''pull'' request)) (elems sources) []) (\<lambda>roots.
     rbind (if direction_is ''push'' request then check_push_target e g pol fs request else Inr ()) (\<lambda>_.
     rbind (require (has_keys (fld ''budget'' request) budget_keys) bad_request) (\<lambda>_.
     rbind (for_each (check_budget_item pol) (items (fld ''budget'' request))) (\<lambda>_.
     rbind (require (direction_is ''push'' request \<longrightarrow>
         int_of (fld ''size'' (fld ''package'' request)) \<le> int_of (fld ''max_package_bytes'' (fld ''budget'' request))) (Error ''package_budget_exceeded'')) (\<lambda>_.
     rbind (require (int (length (elems sources)) \<le> int_of (fld ''max_files'' (fld ''budget'' request))) (Error ''state_budget_exceeded'')) (\<lambda>_.
     rbind (canonical_json request) (\<lambda>bs.
     rbind (require (int (length bs) \<le> half) (Error ''state_budget_exceeded'')) (\<lambda>_.
     Inr (sort_key path_str (remdups roots))))))))))))))))))))"

definition task_binding :: "policy \<Rightarrow> json \<Rightarrow> json" where
  "task_binding pol request =
     (let i = fld ''expected_vm_identity'' request in
      obj [(''request_digest'', fld ''request_digest'' request), (''policy_id'', JStr (policy_id pol)), (''vm_uuid'', fld ''vm_uuid'' i),
        (''boot_identity'', fld ''boot_identity'' i), (''vm_epoch'', fld ''vm_epoch'' i)])"

definition protocol_binding :: "policy \<Rightarrow> json \<Rightarrow> json \<Rightarrow> json" where
  "protocol_binding pol request package =
     (let i = fld ''expected_vm_identity'' request in
      obj [(''protocol_version'', protocol_version), (''transfer_id'', fld ''transfer_id'' request), (''request_digest'', fld ''request_digest'' request),
        (''direction'', fld ''direction'' request), (''vm_uuid'', fld ''vm_uuid'' i), (''boot_identity'', fld ''boot_identity'' i),
        (''vm_epoch'', fld ''vm_epoch'' i), (''policy_id'', JStr (policy_id pol)), (''package_size'', fld ''size'' package),
        (''package_sha256'', fld ''sha256'' package), (''manifest_sha256'', fld ''manifest_sha256'' package)])"

section \<open>Tasks\<close>

text \<open>What \<open>_load\<close> asks of a stored state beyond the checks of the store.\<close>

definition check_task :: "guest \<Rightarrow> json \<Rightarrow> json \<Rightarrow> json \<Rightarrow> unit result" where
  "check_task g transfer_id digest state =
     rbind (item ''request'' state) (\<lambda>request.
     rbind (item ''request_digest'' request) (\<lambda>d.
     rbind (require (py_eq d digest) invalid_state) (\<lambda>_.
     rbind (item ''transfer_id'' request) (\<lambda>t.
     rbind (require (py_eq t transfer_id) invalid_state) (\<lambda>_.
     rbind (item ''expected_vm_identity'' request) (\<lambda>expected.
     rbind (item ''vm_uuid'' expected) (\<lambda>v.
     rbind (require (v = JStr (obs_vm (g_observed g))) (Error ''vm_identity_mismatch'')) (\<lambda>_.
     rbind (item ''boot_identity'' expected) (\<lambda>b.
     require (b = JStr (obs_boot (g_observed g))) (Error ''vm_identity_mismatch''))))))))))"

text \<open>
  \<open>_load\<close> of a task whose file does not change meanwhile, so that the first attempt is the only one.
\<close>

definition guest_load :: "env \<Rightarrow> guest \<Rightarrow> task_store \<Rightarrow> json \<Rightarrow> json \<Rightarrow> (node, json) io" where
  "guest_load e g ts transfer_id digest =
     io_bind (io_lift (require (is_identifier transfer_id \<and> \<not> starts_with (u ''guest-internal-'') (str_of transfer_id) \<and> is_digest digest)
       (Error ''invalid_transfer_id''))) (\<lambda>_.
     io_bind (state_path e ts False transfer_id) (\<lambda>p.
     io_bind (io_ask (store_read e ts p)) (\<lambda>raw.
     io_bind (io_lift (item ''request_digest'' (fld ''binding'' raw))) (\<lambda>d.
     io_bind (io_lift (require (py_eq d digest) (Error ''task_binding_conflict''))) (\<lambda>_.
     io_bind (store_load e ts transfer_id (fld ''binding'' raw)) (\<lambda>envelope.
     io_bind (io_lift (check_task g transfer_id digest (fld ''state'' envelope))) (\<lambda>_.
     io_lift (Inr (set_key ''state'' (set_default ''prefix_verification'' JNull (fld ''state'' envelope)) envelope)))))))))"

definition failed_state :: "json \<Rightarrow> bool result" where
  "failed_state state =
     rbind (item ''cancelled'' state) (\<lambda>c. if truthy c then Inr True else rbind (item ''error'' state) (\<lambda>x. Inr (x \<noteq> JNull)))"

definition guest_save :: "env \<Rightarrow> task_store \<Rightarrow> json \<Rightarrow> json \<Rightarrow> (node, json) io" where
  "guest_save e ts envelope state =
     io_bind (io_lift (failed_state state)) (\<lambda>failed.
     store_save e ts (fld ''transfer_id'' envelope) (fld ''binding'' envelope) (fld ''revision'' envelope)
       (if failed then set_key ''prefix_verification'' JNull state else state))"

section \<open>Accepted requests\<close>

lemma resolve_local_parts:
  assumes "resolve_local ucd fs euid pol v purpose allow = Inr p"
  shows "absolute_local ucd v = Inr p \<and> (\<exists>roots root. purpose_roots pol purpose = Some roots \<and> root \<in> set roots \<and> is_prefix root p \<and>
    safe_chain ucd fs p root allow = Inr ())"
proof -
  from assms obtain roots root where r: "purpose_roots pol purpose = Some roots" "absolute_local ucd v = Inr p" "find (\<lambda>r. is_prefix r p) roots = Some root"
    "safe_chain ucd fs p root allow = Inr ()" by (auto simp: resolve_local_def result_iff split: option.splits)
  from r(3) have "root \<in> set roots \<and> is_prefix root p" by (auto simp: find_Some_iff)
  with r show ?thesis by blast
qed

lemma longest_among: "longest rs r \<in> set (r # rs)" "\<forall>q \<in> set (r # rs). length q \<le> length (longest rs r)"
proof -
  have *: "longest rs r \<in> set (r # rs) \<and> (\<forall>q \<in> set (r # rs). length q \<le> length (longest rs r))"
  proof (induction rs arbitrary: r)
    case (Cons x rs)
    then show ?case using Cons.IH [of x] Cons.IH [of r] by fastforce
  qed simp
  then show "longest rs r \<in> set (r # rs)" "\<forall>q \<in> set (r # rs). length q \<le> length (longest rs r)" by blast+
qed

definition readable_under :: "env \<Rightarrow> policy \<Rightarrow> node \<Rightarrow> path list \<Rightarrow> json \<Rightarrow> bool" where
  "readable_under e pol fs roots source \<longleftrightarrow> (\<exists>p root. absolute_local (env_ucd e) (fld ''absolute_path'' source) = Inr p \<and>
     root \<in> set roots \<and> root \<in> set (read_roots pol) \<and> is_prefix root p \<and> linkless fs p)"

lemma check_request_sources:
  assumes "fold_res (check_request_source e pol fs True) sources acc = Inr roots"
  shows "set acc \<subseteq> set roots \<and> (\<forall>source \<in> set sources. readable_under e pol fs roots source)"
  using assms
proof (induction sources arbitrary: acc)
  case (Cons s ss)
  from Cons.prems obtain acc1 where one: "check_request_source e pol fs True s acc = Inr acc1" and rest: "fold_res (check_request_source e pol fs True) ss acc1 = Inr roots"
    by (auto simp: rbind_Inr_iff)
  from one obtain p where res: "resolve_local (env_ucd e) fs (env_euid e) pol (fld ''absolute_path'' s) (JStr (u ''read'')) False = Inr p"
    and c: "(case filter (\<lambda>r. is_prefix r p) (read_roots pol) of [] \<Rightarrow> Inl (PyError ''ValueError'') | r # rs \<Rightarrow> Inr (acc @ [longest rs r])) = Inr acc1"
    by (simp only: check_request_source_def rbind_Inr_iff if_True) blast
  from c obtain r rs where m: "filter (\<lambda>r. is_prefix r p) (read_roots pol) = r # rs" "acc1 = acc @ [longest rs r]"
    by (cases "filter (\<lambda>r. is_prefix r p) (read_roots pol)") auto
  from resolve_local_parts [OF res] have "absolute_local (env_ucd e) (fld ''absolute_path'' s) = Inr p" "linkless fs p" by (auto simp: safe_chain_iff)
  moreover have "longest rs r \<in> {x \<in> set (read_roots pol). is_prefix x p}" using longest_among(1) [of rs r] m(1) by (metis set_filter)
  moreover have "set acc1 \<subseteq> set roots" "\<forall>source \<in> set ss. readable_under e pol fs roots source" using Cons.IH [OF rest] by blast+
  ultimately show ?case using m(2) unfolding readable_under_def by auto
qed simp

lemma budget_item_of: "for_each (check_budget_item pol) (items v) = Inr () \<Longrightarrow> has_keys v ks \<Longrightarrow> k \<in> set ks \<Longrightarrow>
    is_int (fld k v) \<and> 0 \<le> int_of (fld k v) \<and>
    (if k = ''min_free_bytes'' then int_of (fld k (limits pol)) \<le> int_of (fld k v) else int_of (fld k v) \<le> int_of (fld k (limits pol)))"
proof -
  assume all: "for_each (check_budget_item pol) (items v) = Inr ()" and keys: "has_keys v ks" "k \<in> set ks"
  obtain kvs where v: "v = JObj kvs" using keys(1) by (cases v) (auto simp: has_keys_def)
  from keys v have "u k \<in> fst ` set kvs" by (auto simp: has_keys_def same_set_def list_all_iff)
  then obtain w where w: "map_of kvs (u k) = Some w" by (metis map_of_eq_None_iff not_None_eq)
  then have "check_budget_item pol (u k, w) = Inr ()" using all v by (auto simp: for_each_Inr_iff dest: map_of_SomeD)
  moreover have "fld k v = w" using w v by (simp add: fld_def)
  moreover have "limit_at pol (u k) = int_of (fld k (limits pol))"
    by (cases "limits pol") (simp_all add: limit_at_def fld_def split: option.splits)
  ultimately show ?thesis by (auto simp: check_budget_item_def result_iff is_count_def split: if_splits)
qed

text \<open>
  C33: a request that the guest accepts is exactly what its policy and identity allow: its digest is
  the digest of its content, it names the observed machine, every figure of its budget is within the
  policy's limits, the package fits the budget; every source of a pull is readable under one of the
  returned roots without a link on the way, and the destination of a push lies under a write root,
  is not shadowed by a link, and is no private directory when the output is shared.
\<close>

theorem accepted_request_within_policy:
  assumes acc: "guest_validate_request e g current request fs = Inr roots" and pol: "g_policy g = Some pol"
  shows "(\<exists>d. request_digest request = Inr d \<and> fld ''request_digest'' request = JStr d) \<and>
    fld ''vm_uuid'' (fld ''expected_vm_identity'' request) = JStr (obs_vm (g_observed g)) \<and>
    fld ''boot_identity'' (fld ''expected_vm_identity'' request) = JStr (obs_boot (g_observed g)) \<and>
    (\<forall>k \<in> set budget_keys. let v = fld k (fld ''budget'' request); l = int_of (fld k (limits pol)) in
       is_int v \<and> 0 \<le> int_of v \<and> (if k = ''min_free_bytes'' then l \<le> int_of v else int_of v \<le> l)) \<and>
    (direction_is ''pull'' request \<longrightarrow> (\<forall>source \<in> set (elems (fld ''sources'' request)). readable_under e pol fs roots source)) \<and>
    (direction_is ''push'' request \<longrightarrow> int_of (fld ''size'' (fld ''package'' request)) \<le> int_of (fld ''max_package_bytes'' (limits pol)) \<and>
      (\<exists>p root. absolute_local (env_ucd e) (fld ''canonical_path'' (fld ''expected_destination'' request)) = Inr p \<and> root \<in> set (write_roots pol) \<and>
        is_prefix root p \<and> safe_chain (env_ucd e) fs p root True = Inr () \<and>
        (g_mode g = ''shared_modify'' \<longrightarrow> \<not> is_prefix (work_root pol) p)))"
proof -
  from acc pol obtain rs where ident: "guest_identity e g current fs = Inr pol" and head: "check_head e request = Inr ()"
    and vm: "check_expected_identity current (fld ''expected_vm_identity'' request) = Inr ()"
    and src: "fold_res (check_request_source e pol fs (direction_is ''pull'' request)) (elems (fld ''sources'' request)) [] = Inr rs"
    and push: "direction_is ''push'' request \<Longrightarrow> check_push_target e g pol fs request = Inr ()"
    and keys: "has_keys (fld ''budget'' request) budget_keys" and bud: "for_each (check_budget_item pol) (items (fld ''budget'' request)) = Inr ()"
    and size: "direction_is ''push'' request \<Longrightarrow> int_of (fld ''size'' (fld ''package'' request)) \<le> int_of (fld ''max_package_bytes'' (fld ''budget'' request))"
    and roots: "roots = sort_key path_str (remdups rs)"
    by (auto simp: guest_validate_request_def guest_identity_def rbind_Inr_iff require_Inr_iff Let_def split: if_splits)
  have same: "obs_vm current = obs_vm (g_observed g)" "obs_boot current = obs_boot (g_observed g)"
    using ident by (auto simp: guest_identity_def result_iff)
  have digest: "\<exists>d. request_digest request = Inr d \<and> fld ''request_digest'' request = JStr d"
    using head by (auto simp: check_head_def rbind_Inr_iff require_Inr_iff Let_def)
  have budget: "let v = fld k (fld ''budget'' request); l = int_of (fld k (limits pol)) in
       is_int v \<and> 0 \<le> int_of v \<and> (if k = ''min_free_bytes'' then l \<le> int_of v else int_of v \<le> l)" if "k \<in> set budget_keys" for k
    using budget_item_of [OF bud keys that] unfolding Let_def .
  have pull: "\<forall>source \<in> set (elems (fld ''sources'' request)). readable_under e pol fs roots source" if "direction_is ''pull'' request"
    using check_request_sources [of e pol fs _ "[]" rs] src that by (auto simp: roots readable_under_def)
  have target: "\<exists>p root. absolute_local (env_ucd e) (fld ''canonical_path'' (fld ''expected_destination'' request)) = Inr p \<and> root \<in> set (write_roots pol) \<and>
        is_prefix root p \<and> safe_chain (env_ucd e) fs p root True = Inr () \<and>
        (g_mode g = ''shared_modify'' \<longrightarrow> \<not> is_prefix (work_root pol) p)" if "direction_is ''push'' request"
  proof -
    from push [OF that] obtain p where res: "resolve_local (env_ucd e) fs (env_euid e) pol (fld ''canonical_path'' (fld ''expected_destination'' request)) (JStr (u ''write'')) True = Inr p"
      and m: "\<not> (g_mode g = ''shared_modify'' \<and> (is_prefix (work_root pol) p \<or> is_prefix (butlast (policy_path pol)) p))"
      by (auto simp: check_push_target_def rbind_Inr_iff require_Inr_iff Let_def)
    have "purpose_roots pol (JStr (u ''write'')) = Some (write_roots pol)" by (simp add: purpose_roots_def)
    with resolve_local_parts [OF res] m show ?thesis by auto
  qed
  have "int_of (fld ''max_package_bytes'' (fld ''budget'' request)) \<le> int_of (fld ''max_package_bytes'' (limits pol))"
    using budget [of "''max_package_bytes''"] by (simp add: budget_keys_def Let_def)
  with size have fits: "int_of (fld ''size'' (fld ''package'' request)) \<le> int_of (fld ''max_package_bytes'' (limits pol))" if "direction_is ''push'' request"
    using that by fastforce
  show ?thesis using digest vm same budget pull target fits by (auto simp: check_expected_identity_def result_iff)
qed

section \<open>Witness\<close>

definition guest_policy_sample :: policy where
  "guest_policy_sample = sample_policy\<lparr>expected_vm_uuid := u ''v'', limits := obj ((''max_state_bytes'', JInt 6000) # map (\<lambda>k. (k, JInt 1)) budget_keys)\<rparr>"

definition guest_env :: env where
  "guest_env = \<lparr>env_ucd = sample_ucd, env_wide = (\<lambda>_. Inl (Error [])), env_pf = (\<lambda>_. FloatNan), env_euid = 0, env_now = 0,
     env_world = sample_world, env_fresh = [], env_fault = No_Fault, env_unlink = True\<rparr>"

definition sample_observation :: observation where
  "sample_observation = \<lparr>obs_os = u ''Windows'', obs_vm = u ''v'', obs_boot = u ''b''\<rparr>"

definition sample_guest :: guest where
  "sample_guest = \<lparr>g_policy = Some guest_policy_sample, g_reason = JNull, g_observed = sample_observation, g_mode = ''private''\<rparr>"

definition guest_fields :: "(string \<times> json) list" where
  "guest_fields = [(''protocol_version'', protocol_version), (''transfer_id'', JStr (u ''t1'')), (''direction'', JStr (u ''pull'')),
     (''sources'', JList [sample_source ''a'']),
     (''expected_destination'', obj [(''endpoint'', JStr (u ''host'')), (''identity'', obj [(''k'', JStr (u ''v''))]), (''canonical_path'', JStr (u ''/d''))]),
     (''expected_vm_identity'', obj [(''vm_uuid'', JStr (u ''v'')), (''boot_identity'', JStr (u ''b'')), (''vm_epoch'', JStr (u ''e''))]),
     (''evidence_context'', obj [(''producer_complete'', JBool True), (''producer_quiescent'', JBool True), (''references'', JList [JStr (u ''r'')])]),
     (''budget'', obj (map (\<lambda>k. (k, JInt 1)) budget_keys))]"

definition guest_request_sample :: json where
  "guest_request_sample = obj (guest_fields @ [(''request_digest'', JStr (sha256_hex (utf8_bytes (dumps (sort_json (obj guest_fields))))))])"

lemma guest_request_serial: "serial (obj guest_fields)" "serial guest_request_sample"
  by (simp_all add: guest_request_sample_def guest_fields_def serial_obj serial_list sample_source_def protocol_version_def budget_keys_def serial_hex)

lemma guest_request_field: "k \<noteq> ''request_digest'' \<Longrightarrow> fld k guest_request_sample = (case map_of guest_fields k of None \<Rightarrow> JNull | Some v \<Rightarrow> v)"
  by (simp add: guest_request_sample_def map_add_def split: option.splits)

lemma guest_request_cost: "cost guest_request_sample \<le> 3000"
proof -
  let ?h = "sha256_hex (utf8_bytes (dumps (sort_json (obj guest_fields))))"
  have "text_cost ?h = 66" using hex_cost(1) by simp
  then show ?thesis
    by (simp add: guest_request_sample_def guest_fields_def obj_def sample_source_def protocol_version_def budget_keys_def cost_simps cost_int)
      (simp add: text_cost_eq u_def char_cost_def int_str_def dec_digits.simps)
qed

lemma guest_request_valid: "validate_json 3000 guest_request_sample = Inr ()"
proof -
  have "node_count guest_request_sample \<le> 10000" "depth_ok 32 guest_request_sample 0"
    by (simp_all add: guest_request_sample_def guest_fields_def obj_def sample_source_def protocol_version_def budget_keys_def)
  then show ?thesis using guest_request_serial(2) guest_request_cost by (simp add: validate_json_accepts serial_def)
qed

lemma guest_sample_revalidate: "revalidate sample_ucd sample_fs 0 guest_policy_sample = Inr ()"
  using sample_revalidate by (simp add: revalidate_iff guest_policy_sample_def)

lemma guest_sample_identity: "guest_identity guest_env sample_guest sample_observation sample_fs = Inr guest_policy_sample"
  using guest_sample_revalidate by (simp add: guest_identity_def sample_guest_def guest_env_def)

lemma guest_sample_head: "check_head guest_env guest_request_sample = Inr ()"
proof -
  let ?h = "sha256_hex (utf8_bytes (dumps (sort_json (obj guest_fields))))"
  have keys: "''request_digest'' \<notin> fst ` set guest_fields" by (simp add: guest_fields_def)
  have "request_digest guest_request_sample = Inr ?h"
    using serial_digest [OF guest_request_serial(1)] by (simp add: request_digest_def guest_request_sample_def without_sealed [OF keys])
  moreover have "fld ''request_digest'' guest_request_sample = JStr ?h"
    unfolding guest_request_sample_def by (rule fld_sealed) (simp add: guest_fields_def)
  moreover have "check_relative sample_ucd (JStr (u ''t1'')) = Inr (u ''t1'')"
    by (simp add: check_relative_iff) (simp add: name_defs sample_ucd_def)
  moreover have "is_identifier (JStr (u ''t1''))" "\<not> starts_with (u ''guest-internal-'') (u ''t1'')"
    by (simp_all add: u_def is_id_def text_simps starts_with_def)
  moreover have "dget ''package'' guest_request_sample = None"
    by (simp add: guest_request_sample_def guest_fields_def)
  ultimately show ?thesis
    by (simp add: check_head_def guest_request_field direction_is_def guest_env_def) (simp add: guest_fields_def str_in_def)
qed

lemma guest_sample_sources:
  "fold_res (check_request_source guest_env guest_policy_sample sample_fs True) [sample_source ''a''] [] = Inr [[u ''s'']]"
proof -
  have "resolve_local sample_ucd sample_fs 0 guest_policy_sample (JStr (u ''/s/a'')) (JStr (u ''read'')) False = Inr [u ''s'', u ''a'']"
  proof -
    have "read_roots guest_policy_sample = read_roots sample_policy" by (simp add: guest_policy_sample_def)
    then show ?thesis using sample_resolve sample_revalidate guest_sample_revalidate by (simp add: resolve_local_def purpose_roots_def)
  qed
  moreover have "check_relative sample_ucd (JStr (u ''a'')) = Inr (u ''a'')" using sample_names(1) by (simp add: check_relative_iff)
  ultimately show ?thesis
    by (simp add: check_request_source_def sample_source_def guest_env_def same_set_def) (simp add: guest_policy_sample_def sample_policy_def is_prefix_def)
qed

theorem accepted_request_within_policy_witness:
  "guest_validate_request guest_env sample_guest sample_observation guest_request_sample sample_fs = Inr [[u ''s'']] \<and>
   readable_under guest_env guest_policy_sample sample_fs [[u ''s'']] (sample_source ''a'')"
proof -
  have f: "fld ''expected_vm_identity'' guest_request_sample = obj [(''vm_uuid'', JStr (u ''v'')), (''boot_identity'', JStr (u ''b'')), (''vm_epoch'', JStr (u ''e''))]"
    "fld ''expected_destination'' guest_request_sample = obj [(''endpoint'', JStr (u ''host'')), (''identity'', obj [(''k'', JStr (u ''v''))]), (''canonical_path'', JStr (u ''/d''))]"
    "fld ''direction'' guest_request_sample = JStr (u ''pull'')" "fld ''sources'' guest_request_sample = JList [sample_source ''a'']"
    "fld ''evidence_context'' guest_request_sample = obj [(''producer_complete'', JBool True), (''producer_quiescent'', JBool True), (''references'', JList [JStr (u ''r'')])]"
    "fld ''budget'' guest_request_sample = obj (map (\<lambda>k. (k, JInt 1)) budget_keys)"
    by (simp_all add: guest_request_field) (simp_all add: guest_fields_def)
  have keys: "has_keys guest_request_sample guest_request_keys"
    by (simp add: guest_request_sample_def guest_fields_def guest_request_keys_def same_set_def)
  have lim: "fld ''max_state_bytes'' (limits guest_policy_sample) = JInt 6000" by (simp add: guest_policy_sample_def)
  have dir: "direction_is ''pull'' guest_request_sample" "\<not> direction_is ''push'' guest_request_sample" by (simp_all add: direction_is_def f)
  have dest: "validate_destination (fld ''expected_destination'' guest_request_sample) (fld ''direction'' guest_request_sample) = Inr (fld ''expected_destination'' guest_request_sample)"
    by (simp add: f validate_destination_def check_object_def same_set_def check_text_def) (simp add: u_def obj_def)
  have ev: "check_evidence_context (fld ''evidence_context'' guest_request_sample) = Inr ()"
    by (simp add: f check_evidence_context_def same_set_def evidence_text_def)
  have bud: "for_each (check_budget_item guest_policy_sample) (items (fld ''budget'' guest_request_sample)) = Inr ()"
    by (simp add: f obj_def budget_keys_def check_budget_item_def limit_at_def guest_policy_sample_def is_count_def)
  have vm: "check_expected_identity sample_observation (fld ''expected_vm_identity'' guest_request_sample) = Inr ()"
    by (simp add: f check_expected_identity_def sample_observation_def)
  have can: "\<exists>bs. canonical_json guest_request_sample = Inr bs \<and> int (length bs) \<le> 3000"
    using serial_canonical [OF guest_request_serial(2)] canonical_json_length [OF serial_canonical [OF guest_request_serial(2)]] guest_request_serial(2) guest_request_cost
    by (simp add: serial_def)
  have acc: "guest_validate_request guest_env sample_guest sample_observation guest_request_sample sample_fs = Inr [[u ''s'']]"
    using guest_sample_identity keys guest_request_valid guest_sample_head vm dest ev dir guest_sample_sources bud can
    by (simp add: guest_validate_request_def lim) (auto simp: f require_def same_set_def budget_keys_def)
  moreover have "g_policy sample_guest = Some guest_policy_sample" by (simp add: sample_guest_def)
  ultimately show ?thesis using accepted_request_within_policy dir f by fastforce
qed

end
