(* ===== verification/Base64.thy ===== *)
theory Base64
  imports Wire
begin

text \<open>
  Base64 as the sources use it: \<open>base64.b64encode\<close>, and \<open>base64.b64decode(s, validate=True)\<close>, which is the
  strict mode of \<open>binascii.a2b_base64\<close>.
\<close>

section \<open>The alphabet\<close>

definition sextet_char :: "nat \<Rightarrow> nat" where
  "sextet_char v = (if v < 26 then 65 + v else if v < 52 then 71 + v else if v < 62 then v - 4 else if v = 62 then 43 else 47)"

definition char_sextet :: "nat \<Rightarrow> nat option" where
  "char_sextet c = (if 65 \<le> c \<and> c \<le> 90 then Some (c - 65) else if 97 \<le> c \<and> c \<le> 122 then Some (c - 71)
     else if 48 \<le> c \<and> c \<le> 57 then Some (c + 4) else if c = 43 then Some 62 else if c = 47 then Some 63 else None)"

fun b64encode :: "byte list \<Rightarrow> pystr" where
  "b64encode (a # b # c # bs) =
     (let x = unat a; y = unat b; z = unat c in
      [sextet_char (x div 4), sextet_char (x mod 4 * 16 + y div 16), sextet_char (y mod 16 * 4 + z div 64), sextet_char (z mod 64)] @ b64encode bs)"
| "b64encode [a, b] =
     (let x = unat a; y = unat b in [sextet_char (x div 4), sextet_char (x mod 4 * 16 + y div 16), sextet_char (y mod 16 * 4), 61])"
| "b64encode [a] = (let x = unat a in [sextet_char (x div 4), sextet_char (x mod 4 * 16), 61, 61])"
| "b64encode [] = []"

text \<open>
  The loop of the decoder: how many characters of the current group of four were read, the bits of
  the last one that wait for the next, the padding seen in a row, and whether padding was seen at all.
\<close>

fun a2b :: "pystr \<Rightarrow> nat \<Rightarrow> nat \<Rightarrow> nat \<Rightarrow> bool \<Rightarrow> byte list option" where
  "a2b [] quad left pads padded = (if quad = 0 then Some [] else None)"
| "a2b (c # cs) quad left pads padded =
     (if c = 61 then
        if 2 \<le> quad \<and> 4 \<le> quad + pads + 1 then (if cs = [] then Some [] else None)
        else a2b cs quad left (if 2 \<le> quad then pads + 1 else pads) True
      else case char_sextet c of
        None \<Rightarrow> None
      | Some v \<Rightarrow>
          if padded then None
          else if quad = 0 then a2b cs 1 v 0 padded
          else if quad = 1 then map_option ((#) (of_nat (left * 4 + v div 16))) (a2b cs 2 (v mod 16) 0 padded)
          else if quad = 2 then map_option ((#) (of_nat (left * 16 + v div 4))) (a2b cs 3 (v mod 4) 0 padded)
          else map_option ((#) (of_nat (left * 64 + v))) (a2b cs 0 0 0 padded))"

definition b64decode :: "pystr \<Rightarrow> byte list result" where
  "b64decode s =
     (if list_ex (\<lambda>c. 128 \<le> c) s then Inl value_error
      else if take 1 s = [61] then Inl (PyError ''binascii.Error'')
      else case a2b s 0 0 0 False of None \<Rightarrow> Inl (PyError ''binascii.Error'') | Some bs \<Rightarrow> Inr bs)"

section \<open>Decoding what was encoded\<close>

lemma char_sextet_char: "v < 64 \<Longrightarrow> char_sextet (sextet_char v) = Some v" "v < 64 \<Longrightarrow> sextet_char v \<noteq> 61 \<and> sextet_char v < 128"
  by (auto simp: char_sextet_def sextet_char_def)

lemma a2b_sextet:
  assumes "v < 64"
  shows "a2b (sextet_char v # cs) 0 left pads False = a2b cs 1 v 0 False"
    "a2b (sextet_char v # cs) (Suc 0) left pads False = map_option ((#) (of_nat (left * 4 + v div 16))) (a2b cs 2 (v mod 16) 0 False)"
    "a2b (sextet_char v # cs) 2 left pads False = map_option ((#) (of_nat (left * 16 + v div 4))) (a2b cs 3 (v mod 4) 0 False)"
    "a2b (sextet_char v # cs) 3 left pads False = map_option ((#) (of_nat (left * 64 + v))) (a2b cs 0 0 0 False)"
  using char_sextet_char [OF assms] by simp_all

lemma unat_byte: "unat (a :: byte) < 256"
  using unsigned_less [of a] by simp

lemma sextets:
  "unat (a :: byte) div 4 < 64" "unat a mod 4 * 16 + unat (b :: byte) div 16 < 64" "unat b mod 16 * 4 + unat (c :: byte) div 64 < 64"
  "unat c mod 64 < 64" "unat a mod 4 * 16 < 64" "unat b mod 16 * 4 < 64"
  using unat_byte [of a] unat_byte [of b] unat_byte [of c] by simp_all

lemma first_byte: "of_nat (unat a div 4 * 4 + (unat a mod 4 * 16 + unat (b :: byte) div 16) div 16) = (a :: byte)"
proof -
  have "(unat a mod 4 * 16 + unat b div 16) div 16 = unat a mod 4" using unat_byte [of b] by simp
  then show ?thesis by simp
qed

lemma second_byte: "of_nat ((unat (a :: byte) mod 4 * 16 + unat b div 16) mod 16 * 16 + (unat b mod 16 * 4 + unat (c :: byte) div 64) div 4) = (b :: byte)"
proof -
  have "(unat b mod 16 * 4 + unat c div 64) div 4 = unat b mod 16" "(unat a mod 4 * 16 + unat b div 16) mod 16 = unat b div 16"
    using unat_byte [of b] unat_byte [of c] by simp_all
  then show ?thesis by simp
qed

lemma third_byte: "of_nat ((unat (b :: byte) mod 16 * 4 + unat c div 64) mod 4 * 64 + unat c mod 64) = (c :: byte)"
proof -
  have "(unat b mod 16 * 4 + unat c div 64) mod 4 = unat c div 64" using unat_byte [of c] by simp
  then show ?thesis by simp
qed

lemma last_bytes: "of_nat (unat a div 4 * 4 + unat a mod 4 * 16 div 16) = (a :: byte)"
  "of_nat ((unat (a :: byte) mod 4 * 16 + unat b div 16) mod 16 * 16 + unat b mod 16 * 4 div 4) = (b :: byte)"
proof -
  have "(unat a mod 4 * 16 + unat b div 16) mod 16 = unat b div 16" using unat_byte [of b] by simp
  then show "of_nat (unat a div 4 * 4 + unat a mod 4 * 16 div 16) = a" 
    "of_nat ((unat a mod 4 * 16 + unat b div 16) mod 16 * 16 + unat b mod 16 * 4 div 4) = b" by simp_all
qed

lemma a2b_groups:
  "a2b ([sextet_char (unat a div 4), sextet_char (unat a mod 4 * 16 + unat b div 16), sextet_char (unat b mod 16 * 4 + unat c div 64), sextet_char (unat c mod 64)] @ cs)
     0 l p False = map_option (\<lambda>bs. a # b # c # bs) (a2b cs 0 0 0 False)"
  "a2b [sextet_char (unat a div 4), sextet_char (unat a mod 4 * 16 + unat b div 16), sextet_char (unat b mod 16 * 4), 61] 0 l p False = Some [a, b]"
  "a2b [sextet_char (unat a div 4), sextet_char (unat a mod 4 * 16), 61, 61] 0 l p False = Some [a]"
proof -
  note step = append.simps a2b_sextet [OF sextets(1)] a2b_sextet [OF sextets(2)] a2b_sextet [OF sextets(3)] a2b_sextet [OF sextets(4)]
    a2b_sextet [OF sextets(5)] a2b_sextet [OF sextets(6)] One_nat_def first_byte second_byte third_byte last_bytes option.map option.map_comp comp_def
  show "a2b ([sextet_char (unat a div 4), sextet_char (unat a mod 4 * 16 + unat b div 16), sextet_char (unat b mod 16 * 4 + unat c div 64), sextet_char (unat c mod 64)] @ cs)
     0 l p False = map_option (\<lambda>bs. a # b # c # bs) (a2b cs 0 0 0 False)"
    by (simp only: step)
  show "a2b [sextet_char (unat a div 4), sextet_char (unat a mod 4 * 16 + unat b div 16), sextet_char (unat b mod 16 * 4), 61] 0 l p False = Some [a, b]"
    by (simp only: step) (simp only: a2b.simps, simp)
  show "a2b [sextet_char (unat a div 4), sextet_char (unat a mod 4 * 16), 61, 61] 0 l p False = Some [a]"
    by (simp only: step) (simp only: a2b.simps, simp)
qed

lemma a2b_encode: "a2b (b64encode bs) 0 0 0 False = Some bs"
  by (induction bs rule: b64encode.induct) (simp_all only: b64encode.simps Let_def a2b_groups, simp_all)

lemma b64encode_chars: "c \<in> set (b64encode bs) \<Longrightarrow> c < 128" and b64encode_hd: "bs \<noteq> [] \<Longrightarrow> hd (b64encode bs) \<noteq> 61"
  by (induction bs rule: b64encode.induct) (auto simp: Let_def sextets char_sextet_char)

lemma b64decode_encode [simp]: "b64decode (b64encode bs) = Inr bs"
proof -
  have "take 1 (b64encode bs) \<noteq> [61]" using b64encode_hd [of bs] by (cases "b64encode bs"; cases bs) auto
  then show ?thesis using b64encode_chars [of _ bs] by (auto simp: b64decode_def a2b_encode list_ex_iff not_le)
qed

lemma length_b64encode: "length (b64encode bs) = 4 * ((length bs + 2) div 3)"
proof (induction bs rule: b64encode.induct)
  case (1 a b c bs)
  have "(length (a # b # c # bs) + 2) div 3 = (length bs + 2) div 3 + 1" by simp
  then show ?case using 1 by (simp add: Let_def)
qed (simp_all add: Let_def)

end
