(* ===== verification/Receive.thy ===== *)
theory Receive
  imports Store_Updates Guest Base64
begin

text \<open>
  The receiving side of a push: the ledger of acknowledged chunks beside the partial file, its
  verification after an interruption, and single chunks, in \<open>src/velo_transfer/guest_service.py\<close>. A
  stored state is one that \<open>transfer_begin\<close> made, so its keys are present; no other process changes
  the files of the task meanwhile, so a second look at an unchanged file gives the same stat. \<open>ls i\<close> is
  the luck of the \<open>i\<close>-th file that an operation writes.
\<close>

section \<open>Writing into a file\<close>

definition rewritten :: "world \<Rightarrow> path \<Rightarrow> stat \<Rightarrow> byte list \<Rightarrow> stat" where
  "rewritten w p st bs = st\<lparr>st_size := int (length bs), st_mtime_ns := st_mtime_ns (file_stat w p bs), st_ctime_ns := st_ctime_ns (file_stat w p bs)\<rparr>"

definition rewrite_kid :: "world \<Rightarrow> path \<Rightarrow> byte list \<Rightarrow> node \<Rightarrow> node option" where
  "rewrite_kid w p bs n = (case n of
     DirN st kids \<Rightarrow> (case map_of kids (last p) of
       Some (FileN fs_st old) \<Rightarrow> Some (DirN st (AList.update (last p) (FileN (rewritten w p fs_st bs) bs) kids))
     | _ \<Rightarrow> None)
   | _ \<Rightarrow> None)"

definition rewrite_node :: "world \<Rightarrow> path \<Rightarrow> byte list \<Rightarrow> node \<Rightarrow> node option" where
  "rewrite_node w p bs fs = update_at (rewrite_kid w p bs) (butlast p) fs"

text \<open>
  Opening a file, changing its bytes and synchronising it: a fault leaves the file as it was, changed in
  part, or changed in full. \<open>change k\<close> is what the file holds after \<open>k\<close> bytes have been written.
\<close>

definition edit_file :: "env \<Rightarrow> path \<Rightarrow> (nat \<Rightarrow> byte list \<Rightarrow> byte list) \<Rightarrow> nat \<Rightarrow> (node, unit) io" where
  "edit_file e p change amount fs =
     (case lookup fs p of
        Some (FileN st old) \<Rightarrow>
          (case env_fault e of
             Open_Fault x \<Rightarrow> (Inl x, fs)
           | Write_Fault k x \<Rightarrow>
               (case rewrite_node (env_world e) p (change (min k amount) old) fs of None \<Rightarrow> (Inl (PyError ''OSError''), fs) | Some fs1 \<Rightarrow> (Inl x, fs1))
           | Sync_Fault x \<Rightarrow>
               (case rewrite_node (env_world e) p (change amount old) fs of None \<Rightarrow> (Inl (PyError ''OSError''), fs) | Some fs1 \<Rightarrow> (Inl x, fs1))
           | _ \<Rightarrow> (case rewrite_node (env_world e) p (change amount old) fs of None \<Rightarrow> (Inl (PyError ''OSError''), fs) | Some fs1 \<Rightarrow> (Inr (), fs1)))
      | _ \<Rightarrow> (Inl (PyError ''OSError''), fs))"

definition truncate_file :: "env \<Rightarrow> path \<Rightarrow> nat \<Rightarrow> (node, unit) io" where
  "truncate_file e p n = edit_file e p (\<lambda>k old. if k = 0 then old else take n old) 1"

definition write_at :: "env \<Rightarrow> path \<Rightarrow> nat \<Rightarrow> byte list \<Rightarrow> (node, unit) io" where
  "write_at e p offset bs = edit_file e p (\<lambda>k old. take offset old @ take k bs @ drop (offset + k) old) (length bs)"

definition append_file :: "env \<Rightarrow> path \<Rightarrow> byte list \<Rightarrow> (node, unit) io" where
  "append_file e p bs = edit_file e p (\<lambda>k old. old @ take k bs) (length bs)"

definition atomic_sidecar :: "env \<Rightarrow> policy \<Rightarrow> path \<Rightarrow> byte list \<Rightarrow> int \<Rightarrow> (node, unit) io" where
  "atomic_sidecar e pol p raw maximum =
     io_bind (io_lift (require (int (length raw) \<le> maximum) (Error ''metadata_budget_exceeded''))) (\<lambda>_.
     io_bind (io_ask (\<lambda>fs. safe_chain (env_ucd e) fs p (work_root pol) True)) (\<lambda>_.
     (\<lambda>fs. if lookup fs p \<noteq> None then (Inl (PyError ''OSError''), fs)
       else case env_fault e of
         Open_Fault x \<Rightarrow> (Inl x, fs)
       | Write_Fault k x \<Rightarrow>
           (case put_node (env_world e) p (new_file e p (take k raw)) fs of None \<Rightarrow> (Inl (PyError ''OSError''), fs) | Some fs1 \<Rightarrow> (Inl x, fs1))
       | _ \<Rightarrow> (case put_node (env_world e) p (new_file e p raw) fs of None \<Rightarrow> (Inl (PyError ''OSError''), fs) | Some fs1 \<Rightarrow> (Inr (), fs1)))))"

section \<open>The ledger\<close>

definition guest_strict_json :: "env \<Rightarrow> byte list \<Rightarrow> int \<Rightarrow> json result" where
  "guest_strict_json e raw maximum =
     rbind (require (int (length raw) \<le> maximum) (Error ''metadata_budget_exceeded'')) (\<lambda>_.
     case loads_with (env_wide e) (env_pf e) (unique_pairs (Error ''duplicate_json_key'')) (no_constant (Error ''invalid_json'')) raw of
       Inr v \<Rightarrow> Inr v | Inl (Error c) \<Rightarrow> Inl (Error c) | Inl x \<Rightarrow> Inl (Error ''invalid_json''))"

definition request_budget :: "json \<Rightarrow> string \<Rightarrow> int" where
  "request_budget state k = int_of (fld k (fld ''budget'' (fld ''request'' state)))"

definition state_budget :: "json \<Rightarrow> budget" where
  "state_budget state = \<lparr>max_files = request_budget state ''max_files'', max_metadata_bytes = request_budget state ''max_metadata_bytes'',
     max_logical_bytes = request_budget state ''max_logical_bytes'', max_package_bytes = request_budget state ''max_package_bytes'',
     min_free_bytes = request_budget state ''min_free_bytes'', deadline_monotonic = int_of (fld ''deadline_monotonic'' state),
     max_expansion_ratio = 1000000, check_cancel = None\<rparr>"

definition guest_task_path :: "env \<Rightarrow> guest \<Rightarrow> observation \<Rightarrow> json \<Rightarrow> json \<Rightarrow> (node, path) io" where
  "guest_task_path e g current owner transfer_id =
     io_bind (io_ask (guest_store e g current owner)) (\<lambda>ts. task_dir e ts False transfer_id)"

definition ledger_paths :: "env \<Rightarrow> guest \<Rightarrow> observation \<Rightarrow> json \<Rightarrow> json \<Rightarrow> (node, path \<times> path) io" where
  "ledger_paths e g current owner state =
     io_bind (guest_task_path e g current owner (fld ''transfer_id'' (fld ''request'' state))) (\<lambda>task.
     io_lift (Inr (task @ [u ''received.part''], task @ [u ''chunks.jsonl''])))"

definition identity_list :: "stat \<Rightarrow> json" where
  "identity_list st = JList [JInt (st_dev st), JInt (st_ino st), JInt (st_size st), JInt (st_mtime_ns st), JInt (st_ctime_ns st)]"

definition partial_fingerprint :: "json \<Rightarrow> stat \<Rightarrow> stat \<Rightarrow> json" where
  "partial_fingerprint state pst lst =
     obj [(''offset'', fld ''offset'' state), (''chunk_count'', fld ''chunk_count'' state), (''partial'', identity_list pst), (''ledger'', identity_list lst)]"

definition readline :: "nat \<Rightarrow> byte list \<Rightarrow> byte list" where
  "readline n bs = (let l = takeWhile (\<lambda>b. b \<noteq> 10) bs in take n (l @ take 1 (drop (length l) bs)))"

definition check_record :: "env \<Rightarrow> int \<Rightarrow> int \<Rightarrow> byte list \<Rightarrow> json result" where
  "check_record e max_chunk position line =
     rbind (guest_strict_json e line 255) (\<lambda>r.
     rbind (require (has_keys r [''offset'', ''count'', ''sha256'']) (Error ''partial_corrupt'')) (\<lambda>_.
     rbind (require (py_eq (fld ''offset'' r) (JInt position) \<and> is_int (fld ''count'' r) \<and> 0 < int_of (fld ''count'' r) \<and>
       int_of (fld ''count'' r) \<le> max_chunk \<and> is_digest (fld ''sha256'' r)) (Error ''partial_corrupt'')) (\<lambda>_.
     Inr r)))"

text \<open>The loop over the records: the data and the ledger still unread, the position, and the ledger read so far.\<close>

fun replay_records :: "env \<Rightarrow> budget \<Rightarrow> int \<Rightarrow> nat \<Rightarrow> byte list \<Rightarrow> byte list \<Rightarrow> int \<Rightarrow> byte list \<Rightarrow> (int \<times> byte list) result" where
  "replay_records e b max_chunk 0 data records position consumed = Inr (position, consumed)"
| "replay_records e b max_chunk (Suc k) data records position consumed =
     rbind (budget_check b (env_now e)) (\<lambda>_.
     let line = readline 256 records in
     rbind (check_record e max_chunk position line) (\<lambda>r.
     let count = nat (int_of (fld ''count'' r)); chunk = take count data in
     rbind (require (length chunk = count \<and> JStr (sha256_hex chunk) = fld ''sha256'' r) (Error ''partial_corrupt'')) (\<lambda>_.
     replay_records e b max_chunk k (drop count data) (drop (length line) records) (position + int count) (consumed @ line))))"

definition regular_stat :: "node \<Rightarrow> path \<Rightarrow> stat option" where
  "regular_stat fs p = (case lookup fs p of Some (FileN st bs) \<Rightarrow> Some st | _ \<Rightarrow> None)"

definition bytes_at :: "node \<Rightarrow> path \<Rightarrow> byte list" where
  "bytes_at fs p = (case lookup fs p of Some (FileN st bs) \<Rightarrow> bs | _ \<Rightarrow> [])"

definition owned_file :: "json \<Rightarrow> string \<Rightarrow> stat \<Rightarrow> bool" where
  "owned_file owned k st \<longleftrightarrow> take 2 (elems (fld k owned)) = [JInt (st_dev st), JInt (st_ino st)]"

text \<open>The two files as the checks before the replay want them.\<close>

definition check_partial :: "env \<Rightarrow> policy \<Rightarrow> json \<Rightarrow> path \<Rightarrow> path \<Rightarrow> node \<Rightarrow> (stat \<times> stat) result" where
  "check_partial e pol state partial ledger fs =
     rbind (safe_chain (env_ucd e) fs partial (work_root pol) False) (\<lambda>_.
     rbind (safe_chain (env_ucd e) fs ledger (work_root pol) False) (\<lambda>_.
     rbind (no_link fs partial) (\<lambda>_.
     rbind (no_link fs ledger) (\<lambda>_.
     case (regular_stat fs partial, regular_stat fs ledger) of
       (Some pst, Some lst) \<Rightarrow>
         rbind (require (int_of (fld ''offset'' state) \<le> st_size pst) (Error ''partial_corrupt'')) (\<lambda>_.
         rbind (require (st_nlink pst = 1 \<and> st_nlink lst = 1) (Error ''partial_corrupt'')) (\<lambda>_.
         let owned = fld ''partial_identity'' state in
         rbind (require (is_obj owned \<and> owned_file owned ''partial'' pst \<and> owned_file owned ''ledger'' lst) (Error ''partial_changed'')) (\<lambda>_.
         Inr (pst, lst))))
     | _ \<Rightarrow> Inl (Error ''partial_corrupt'')))))"

definition no_partial :: "json \<Rightarrow> path \<Rightarrow> path \<Rightarrow> node \<Rightarrow> bool" where
  "no_partial state partial ledger fs \<longleftrightarrow> lookup fs partial = None \<and> lookup fs ledger = None \<and> fld ''offset'' state = JInt 0 \<and>
     fld ''chunk_count'' state = JInt 0 \<and> fld ''partial_identity'' state = JNull"

text \<open>The replay of the ledger against the data, and the removal of what is not acknowledged.\<close>

definition trim_partial :: "env \<Rightarrow> (nat \<Rightarrow> luck) \<Rightarrow> budget \<Rightarrow> bool \<Rightarrow> json \<Rightarrow> path \<Rightarrow> path \<Rightarrow> stat \<Rightarrow> stat \<Rightarrow> (node, json \<times> json) io" where
  "trim_partial e ls b short_call state partial ledger pst lst =
     (let offset = int_of (fld ''offset'' state) in
      io_bind (io_lift (require (\<not> (short_call \<and> (2 ^ 20 < offset \<or> 1024 < int_of (fld ''chunk_count'' state)))) (Error ''partial_verification_required''))) (\<lambda>_.
      io_bind (io_lift (require (st_size lst \<le> request_budget state ''max_metadata_bytes'') (Error ''metadata_budget_exceeded''))) (\<lambda>_.
      io_bind (io_ask (\<lambda>fs. replay_records e b (request_budget state ''max_chunk_bytes'') (nat (int_of (fld ''chunk_count'' state)))
        (bytes_at fs partial) (bytes_at fs ledger) 0 [])) (\<lambda>(position, consumed).
      io_bind (io_lift (require (position = offset) (Error ''partial_corrupt''))) (\<lambda>_.
      io_bind (io_lift (budget_check b (env_now e))) (\<lambda>_.
      io_bind (if offset < st_size pst then truncate_file (lucky e (ls 0)) partial (nat offset) else io_lift (Inr ())) (\<lambda>_.
      io_bind (if int (length consumed) < st_size lst then truncate_file (lucky e (ls 1)) ledger (length consumed) else io_lift (Inr ())) (\<lambda>_.
      io_ask (\<lambda>fs. case (regular_stat fs partial, regular_stat fs ledger) of
          (Some pst', Some lst') \<Rightarrow> Inr (JStr (sha256_hex consumed), set_key ''partial_identity'' (partial_fingerprint state pst' lst') state)
        | _ \<Rightarrow> Inl source_unavailable)))))))))"

definition restore_partial :: "env \<Rightarrow> (nat \<Rightarrow> luck) \<Rightarrow> policy \<Rightarrow> budget \<Rightarrow> bool \<Rightarrow> bool \<Rightarrow> json \<Rightarrow> path \<Rightarrow> path \<Rightarrow> (node, json \<times> json) io" where
  "restore_partial e ls pol b force short_call state partial ledger =
     io_bind (io_ask (check_partial e pol state partial ledger)) (\<lambda>(pst, lst).
     if \<not> force \<and> py_eq (fld ''partial_identity'' state) (partial_fingerprint state pst lst) then io_lift (Inr (JNull, state))
     else trim_partial e ls b short_call state partial ledger pst lst)"

definition verified_partial :: "env \<Rightarrow> (nat \<Rightarrow> luck) \<Rightarrow> guest \<Rightarrow> policy \<Rightarrow> observation \<Rightarrow> json \<Rightarrow> budget \<Rightarrow> bool \<Rightarrow> bool \<Rightarrow> json \<Rightarrow> (node, json \<times> json) io" where
  "verified_partial e ls g pol current owner b force short_call state =
     io_bind (io_lift (budget_check b (env_now e))) (\<lambda>_.
     io_bind (ledger_paths e g current owner state) (\<lambda>(partial, ledger).
     (\<lambda>fs. if no_partial state partial ledger fs then (Inr (JStr (sha256_hex []), state), fs)
       else restore_partial e ls pol b force short_call state partial ledger fs)))"

section \<open>Who is working\<close>

text \<open>
  What reading \<open>/proc/<pid>/stat\<close> gives: \<open>None\<close> when there is no such file, and otherwise its text or
  a failure. A process is known by its number and its start time.
\<close>

type_synonym process_table = "int \<Rightarrow> pystr result option"

definition py_space :: "nat \<Rightarrow> bool" where
  "py_space c \<longleftrightarrow> (9 \<le> c \<and> c \<le> 13) \<or> (28 \<le> c \<and> c \<le> 32) \<or> c \<in> {133, 160, 5760, 8232, 8233, 8239, 8287, 12288} \<or> (8192 \<le> c \<and> c \<le> 8202)"

fun split_space :: "pystr \<Rightarrow> pystr \<Rightarrow> pystr list" where
  "split_space word [] = (if word = [] then [] else [word])"
| "split_space word (c # cs) =
     (if py_space c then (if word = [] then [] else [word]) @ split_space [] cs else split_space (word @ [c]) cs)"

text \<open>\<open>raw.rsplit(") ", 1)[1]\<close>: what follows the last closing parenthesis before a blank.\<close>

fun after_last :: "pystr \<Rightarrow> pystr \<Rightarrow> pystr option" where
  "after_last sep [] = None"
| "after_last sep (c # cs) =
     (case after_last sep cs of Some rest \<Rightarrow> Some rest
      | None \<Rightarrow> if take (length sep) (c # cs) = sep then Some (drop (length sep) (c # cs)) else None)"

definition unavailable_identity :: exn where
  "unavailable_identity = Error ''worker_identity_unavailable''"

definition same_process :: "process_table \<Rightarrow> json \<Rightarrow> json \<Rightarrow> bool result" where
  "same_process procs pid birth =
     rbind (require (is_int pid \<and> 0 < int_of pid \<and> is_str birth) unavailable_identity) (\<lambda>_.
     case procs (int_of pid) of
       None \<Rightarrow> Inr False
     | Some (Inl x) \<Rightarrow> Inl unavailable_identity
     | Some (Inr raw) \<Rightarrow>
         (case after_last (u '') '') raw of None \<Rightarrow> Inl unavailable_identity
          | Some rest \<Rightarrow>
              let vs = split_space [] rest in
              if 20 \<le> length vs then Inr (JStr (u ''linux-'' @ vs ! 19) = birth \<and> vs ! 0 \<noteq> u ''Z'') else Inl unavailable_identity))"

text \<open>The lock of the work root: the operating system says whether another process holds it.\<close>

definition worker_lock_path :: "path \<Rightarrow> path" where
  "worker_lock_path root = root @ [u ''.guest-worker.lock'']"

definition root_acquire :: "env \<Rightarrow> bool \<Rightarrow> path \<Rightarrow> (node, int \<times> int) io" where
  "root_acquire e held root =
     (let p = worker_lock_path root in
     io_bind (\<lambda>fs. case lookup fs p of
         None \<Rightarrow> (case put_node (env_world e) p (new_file e p []) fs of None \<Rightarrow> (Inl (PyError ''OSError''), fs) | Some fs1 \<Rightarrow> (Inr (), fs1))
       | Some (FileN st bs) \<Rightarrow> (Inr (), fs)
       | Some n \<Rightarrow> (Inl (PyError ''OSError''), fs)) (\<lambda>_.
     io_bind (io_lift (require (\<not> held) (Error ''worker_busy''))) (\<lambda>_.
     io_bind (io_ask (\<lambda>fs. stat_of fs p)) (\<lambda>st.
     io_lift (Inr (node_id st))))))"

definition check_lease_lock :: "path \<Rightarrow> int \<times> int \<Rightarrow> node \<Rightarrow> unit result" where
  "check_lease_lock root own fs =
     rbind (stat_of fs (worker_lock_path root)) (\<lambda>st.
     rbind (require (st_nlink st = 1 \<and> node_id st = own) (Error ''worker_lock_unavailable'')) (\<lambda>_.
     require (st_mode st mod 64 = 0) (Error ''insecure_permissions'')))"

section \<open>The lease\<close>

definition lease_id :: json where
  "lease_id = JStr (u ''guest-internal-lease'')"

definition lease_binding :: "guest \<Rightarrow> policy \<Rightarrow> json" where
  "lease_binding g pol = obj [(''request_digest'', JStr (replicate 64 48)), (''policy_id'', JStr (policy_id pol)),
     (''vm_uuid'', JStr (obs_vm (g_observed g))), (''boot_identity'', JStr (obs_boot (g_observed g))), (''vm_epoch'', JStr (u ''internal''))]"

definition no_worker :: json where
  "no_worker = obj [(''active'', JNull)]"

definition sync_dir :: "env \<Rightarrow> (node, unit) io" where
  "sync_dir e = io_lift (case env_fault e of Sync_Fault x \<Rightarrow> Inl x | _ \<Rightarrow> Inr ())"

text \<open>The lease of an earlier boot of the same machine is kept beside the new one.\<close>

definition archive_lease :: "env \<Rightarrow> (nat \<Rightarrow> luck) \<Rightarrow> task_store \<Rightarrow> path \<Rightarrow> json \<Rightarrow> (node, unit) io" where
  "archive_lease e ls ts archive previous =
     io_bind (io_ask (\<lambda>fs. Inr (lookup fs archive \<noteq> None))) (\<lambda>present.
     if present then
       io_bind (io_ask (store_read e ts archive)) (\<lambda>v. io_lift (require (py_eq v previous) (Error ''task_binding_conflict'')))
     else io_bind (io_lift (canonical_json previous)) (\<lambda>raw.
       atomic_sidecar (lucky e (ls 0)) (store_policy ts) archive raw (limit_of ts ''max_state_bytes'')))"

definition renew_lease :: "env \<Rightarrow> (nat \<Rightarrow> luck) \<Rightarrow> task_store \<Rightarrow> json \<Rightarrow> int \<times> int \<Rightarrow> json \<Rightarrow> (node, json) io" where
  "renew_lease e ls ts bound own previous =
     io_bind (state_path e ts False lease_id) (\<lambda>p.
     let name = u ''previous-'' @ int_str (int_of (fld ''revision'' previous)) @ u ''-'' @ str_of (fld ''sha256'' previous) @ u ''.json'' in
     io_bind (archive_lease e ls ts (butlast p @ [name]) previous) (\<lambda>_.
     io_bind (sync_dir (lucky e (ls 1))) (\<lambda>_.
     io_bind (io_ask (store_encode e ts lease_id bound (int_of (fld ''revision'' previous) + 1) no_worker)) (\<lambda>(envelope, raw).
     io_bind (io_ask (check_lease_lock (store_root ts) own)) (\<lambda>_.
     io_bind (store_commit (lucky e (ls 2)) ts p raw (int_of (fld ''revision'' envelope))) (\<lambda>_.
     store_load e ts lease_id bound))))))"

definition earlier_lease :: "env \<Rightarrow> (nat \<Rightarrow> luck) \<Rightarrow> task_store \<Rightarrow> json \<Rightarrow> int \<times> int \<Rightarrow> json \<Rightarrow> (node, json) io" where
  "earlier_lease e ls ts bound own raw =
     io_bind (store_load e ts lease_id (fld ''binding'' raw)) (\<lambda>previous.
     let old = fld ''binding'' previous in
     io_bind (io_lift (require (py_eq old (set_key ''boot_identity'' (fld ''boot_identity'' old) bound)) (Error ''task_binding_conflict''))) (\<lambda>_.
     io_bind (io_lift (require (has_keys (fld ''state'' previous) [''active'']) invalid_state)) (\<lambda>_.
     if py_eq old bound then io_lift (Inr previous)
     else
       io_bind (io_lift (require (fld ''active'' (fld ''state'' previous) = JNull) (Error ''worker_result_unknown''))) (\<lambda>_.
       renew_lease e ls ts bound own previous))))"

definition take_lease :: "env \<Rightarrow> (nat \<Rightarrow> luck) \<Rightarrow> guest \<Rightarrow> observation \<Rightarrow> task_store \<Rightarrow> json \<Rightarrow> int \<times> int \<Rightarrow> (node, json) io" where
  "take_lease e ls g current ts bound own =
     io_bind (io_ask (check_lease_lock (store_root ts) own)) (\<lambda>_.
     io_bind (io_ask (guest_identity e g current)) (\<lambda>_.
     io_bind (io_ask (require_writer e ts)) (\<lambda>_.
     (\<lambda>fs. case io_bind (state_path e ts False lease_id) (\<lambda>p. io_ask (store_read e ts p)) fs of
        (Inr raw, fs1) \<Rightarrow> earlier_lease e ls ts bound own raw fs1
      | (Inl x, fs1) \<Rightarrow>
          if x = Error ''task_not_found'' then
            io_bind (io_ask (check_lease_lock (store_root ts) own)) (\<lambda>_. store_create (lucky e (ls 2)) ts lease_id bound no_worker) fs1
          else (Inl x, fs1)))))"

text \<open>\<open>_lease\<close>; \<open>guard\<close> is the lock that the caller already holds.\<close>

definition guest_lease :: "env \<Rightarrow> (nat \<Rightarrow> luck) \<Rightarrow> bool \<Rightarrow> guest \<Rightarrow> observation \<Rightarrow> policy \<Rightarrow> task_store \<Rightarrow> (int \<times> int) option \<Rightarrow> (node, json) io" where
  "guest_lease e ls held g current pol ts guard =
     io_bind (io_ask (require_writer e ts)) (\<lambda>_.
     (\<lambda>fs. case store_load e ts lease_id (lease_binding g pol) fs of
        (Inr v, fs1) \<Rightarrow> (Inr v, fs1)
      | (Inl x, fs1) \<Rightarrow>
          if x \<in> {Error ''task_not_found'', Error ''task_binding_conflict''} then
            io_bind (case guard of None \<Rightarrow> root_acquire e held (work_root pol) | Some own \<Rightarrow> io_lift (Inr own)) (\<lambda>own.
            take_lease e ls g current ts (lease_binding g pol) own) fs1
          else (Inl x, fs1)))"

definition check_idle :: "env \<Rightarrow> (nat \<Rightarrow> luck) \<Rightarrow> process_table \<Rightarrow> bool \<Rightarrow> guest \<Rightarrow> observation \<Rightarrow> policy \<Rightarrow> task_store \<Rightarrow> (node, json) io" where
  "check_idle e ls procs held g current pol ts =
     io_bind (guest_lease e ls held g current pol ts None) (\<lambda>lease.
     io_bind (io_lift (item ''active'' (fld ''state'' lease))) (\<lambda>active.
     if active = JNull then io_lift (Inr lease)
     else
       io_bind (io_lift (rbind (item ''pid'' active) (\<lambda>pid. rbind (item ''birth'' active) (\<lambda>birth. same_process procs pid birth)))) (\<lambda>alive.
       io_bind (io_lift (require (\<not> alive) (Error ''worker_busy''))) (\<lambda>_.
       io_bind (root_acquire e held (work_root pol)) (\<lambda>_.
       store_save (lucky e (ls 3)) ts lease_id (fld ''binding'' lease) (fld ''revision'' lease) no_worker)))))"

section \<open>One chunk\<close>

definition bad_range :: exn where
  "bad_range = Error ''invalid_chunk_range''"

definition chunk_maximum :: "policy \<Rightarrow> json \<Rightarrow> int" where
  "chunk_maximum pol state = min (2 ^ 20) (min (request_budget state ''max_chunk_bytes'') (int_of (fld ''max_chunk_bytes'' (limits pol))))"

definition request_of :: "json \<Rightarrow> json" where
  "request_of state = fld ''request'' state"

definition package_size :: "json \<Rightarrow> int" where
  "package_size state = int_of (fld ''size'' (fld ''package'' state))"

definition in_phase :: "string list \<Rightarrow> json \<Rightarrow> bool" where
  "in_phase phases state \<longleftrightarrow> str_in (fld ''phase'' state) phases"

definition package_file :: "env \<Rightarrow> guest \<Rightarrow> policy \<Rightarrow> observation \<Rightarrow> json \<Rightarrow> json \<Rightarrow> (node, path) io" where
  "package_file e g pol current owner state =
     io_bind (guest_task_path e g current owner (fld ''transfer_id'' (request_of state))) (\<lambda>task.
     let p = task @ [if direction_is ''pull'' (request_of state) then u ''bundle.zip'' else u ''received.part''] in
     io_bind (io_ask (\<lambda>fs. safe_chain (env_ucd e) fs p (work_root pol) False)) (\<lambda>_.
     io_lift (Inr p)))"

definition read_at :: "nat \<Rightarrow> nat \<Rightarrow> byte list \<Rightarrow> byte list" where
  "read_at offset amount bs = take amount (drop offset bs)"

definition read_chunk :: "env \<Rightarrow> guest \<Rightarrow> policy \<Rightarrow> observation \<Rightarrow> json \<Rightarrow> json \<Rightarrow> int \<Rightarrow> int \<Rightarrow> json \<Rightarrow> json \<Rightarrow> (node, json) io" where
  "read_chunk e g pol current owner state offset amount data_base64 chunk_sha256 =
     io_bind (io_lift (require (data_base64 = JNull \<and> chunk_sha256 = JNull \<and> in_phase [''SOURCE_READY'', ''SOURCE_PREPARED''] state)
       (Error ''chunk_precondition_failed''))) (\<lambda>_.
     io_bind (io_lift (require (offset + amount \<le> package_size state) bad_range)) (\<lambda>_.
     io_bind (package_file e g pol current owner state) (\<lambda>p.
     io_bind (io_ask (\<lambda>fs. stat_of fs p)) (\<lambda>st.
     io_bind (io_lift (require (st_size st = package_size state) (Error ''package_changed''))) (\<lambda>_.
     io_bind (io_ask (\<lambda>fs. case lookup fs p of Some (FileN st' bs) \<Rightarrow> Inr (read_at (nat offset) (nat amount) bs) | _ \<Rightarrow> Inl (PyError ''OSError''))) (\<lambda>data.
     io_bind (io_lift (require (int (length data) = amount) (Error ''package_changed''))) (\<lambda>_.
     io_lift (Inr (obj [(''schema'', response_schema), (''offset'', JInt offset), (''count'', JInt amount),
       (''data_base64'', JStr (b64encode data)), (''chunk_sha256'', JStr (sha256_hex data))])))))))))"

definition chunk_data :: "int \<Rightarrow> int \<Rightarrow> json \<Rightarrow> json \<Rightarrow> byte list result" where
  "chunk_data maximum amount data_base64 chunk_sha256 =
     rbind (require (is_str data_base64 \<and> int (length (str_of data_base64)) \<le> 4 * ((maximum + 2) div 3) \<and> is_digest chunk_sha256)
       (Error ''invalid_chunk'')) (\<lambda>_.
     rbind (case b64decode (str_of data_base64) of Inr data \<Rightarrow> Inr data | Inl x \<Rightarrow> Inl (Error ''invalid_chunk'')) (\<lambda>data.
     rbind (require (int (length data) = amount \<and> JStr (sha256_hex data) = chunk_sha256) (Error ''chunk_hash_mismatch'')) (\<lambda>_.
     Inr data)))"

definition chunk_record :: "int \<Rightarrow> int \<Rightarrow> json \<Rightarrow> byte list result" where
  "chunk_record offset amount sha =
     rbind (canonical_json (obj [(''offset'', JInt offset), (''count'', JInt amount), (''sha256'', sha)])) (\<lambda>bs. Inr (bs @ [10]))"

definition fingerprint_now :: "json \<Rightarrow> path \<Rightarrow> path \<Rightarrow> node \<Rightarrow> json result" where
  "fingerprint_now state partial ledger fs =
     rbind (stat_of fs partial) (\<lambda>pst. rbind (stat_of fs ledger) (\<lambda>lst. Inr (partial_fingerprint state pst lst)))"

text \<open>The state after a chunk; with the last one the terminal protocol of the task begins.\<close>

definition chunk_accepted :: "policy \<Rightarrow> json \<Rightarrow> int \<Rightarrow> json result" where
  "chunk_accepted pol state amount =
     (let s1 = set_key ''offset'' (JInt (int_of (fld ''offset'' state) + amount)) state;
          s2 = set_key ''chunk_count'' (JInt (int_of (fld ''chunk_count'' state) + 1)) s1 in
      if int_of (fld ''offset'' s2) = package_size s2 then
        rbind (guest_terminal (protocol_binding pol (request_of s2) (fld ''package'' s2)) (fld ''expected_destination'' (request_of s2))) (\<lambda>t.
        Inr (set_key ''terminal'' (snapshot t) (set_key ''phase'' (JStr (u ''DEST_RECEIVED'')) s2)))
      else Inr s2)"

definition make_sidecars :: "env \<Rightarrow> (nat \<Rightarrow> luck) \<Rightarrow> policy \<Rightarrow> json \<Rightarrow> path \<Rightarrow> path \<Rightarrow> (node, unit) io" where
  "make_sidecars e ls pol state partial ledger =
     io_bind (io_ask (\<lambda>fs. Inr (path_exists fs partial))) (\<lambda>present.
     if present then io_lift (Inr ())
     else
       io_bind (atomic_sidecar (lucky e (ls 2)) pol partial [] (request_budget state ''max_package_bytes'')) (\<lambda>_.
       atomic_sidecar (lucky e (ls 3)) pol ledger [] (request_budget state ''max_metadata_bytes'')))"

text \<open>
  The files are there and the state names them; the chunk and its record are written, and the state acknowledges them.
\<close>

definition commit_chunk :: "env \<Rightarrow> (nat \<Rightarrow> luck) \<Rightarrow> policy \<Rightarrow> task_store \<Rightarrow> json \<Rightarrow> json \<Rightarrow> path \<Rightarrow> path \<Rightarrow> int \<Rightarrow> byte list \<Rightarrow> byte list \<Rightarrow> (node, json) io" where
  "commit_chunk e ls pol ts fresh state partial ledger offset data line =
     io_bind (write_at (lucky e (ls 5)) partial (nat offset) data) (\<lambda>_.
     io_bind (append_file (lucky e (ls 6)) ledger line) (\<lambda>_.
     io_bind (io_lift (chunk_accepted pol state (int (length data)))) (\<lambda>s2.
     io_bind (io_ask (fingerprint_now s2 partial ledger)) (\<lambda>key.
     let s3 = set_key ''partial_identity'' key s2 in
     io_bind (guest_save (lucky e (ls 7)) ts fresh s3) (\<lambda>_.
     io_lift (Inr (obj [(''schema'', response_schema), (''verified_offset'', fld ''offset'' s3), (''replayed'', JBool False)])))))))"

definition store_chunk :: "env \<Rightarrow> (nat \<Rightarrow> luck) \<Rightarrow> policy \<Rightarrow> task_store \<Rightarrow> json \<Rightarrow> json \<Rightarrow> path \<Rightarrow> path \<Rightarrow> int \<Rightarrow> byte list \<Rightarrow> byte list \<Rightarrow> (node, json) io" where
  "store_chunk e ls pol ts fresh state partial ledger offset data line =
     io_bind (make_sidecars e ls pol state partial ledger) (\<lambda>_.
     io_bind (io_ask (fingerprint_now state partial ledger)) (\<lambda>key.
     let s1 = set_key ''partial_identity'' key (set_key ''prefix_verification'' JNull state) in
     io_bind (guest_save (lucky e (ls 4)) ts fresh s1) (\<lambda>fresh1.
     commit_chunk e ls pol ts fresh1 s1 partial ledger offset data line)))"

text \<open>A chunk that was received before is compared with the file; a new one has to come next.\<close>

definition replay_chunk :: "json \<Rightarrow> path \<Rightarrow> int \<Rightarrow> byte list \<Rightarrow> (node, json) io" where
  "replay_chunk state partial offset data =
     io_bind (io_lift (require (offset + int (length data) \<le> int_of (fld ''offset'' state)) (Error ''chunk_offset_conflict''))) (\<lambda>_.
     io_bind (io_ask (\<lambda>fs. case lookup fs partial of Some (FileN st bs) \<Rightarrow> Inr (read_at (nat offset) (length data) bs) | _ \<Rightarrow> Inl (PyError ''OSError''))) (\<lambda>previous.
     io_bind (io_lift (require (previous = data) (Error ''chunk_conflict''))) (\<lambda>_.
     io_lift (Inr (obj [(''schema'', response_schema), (''verified_offset'', fld ''offset'' state), (''replayed'', JBool True)])))))"

definition new_chunk :: "env \<Rightarrow> (nat \<Rightarrow> luck) \<Rightarrow> policy \<Rightarrow> task_store \<Rightarrow> json \<Rightarrow> json \<Rightarrow> path \<Rightarrow> path \<Rightarrow> int \<Rightarrow> byte list \<Rightarrow> json \<Rightarrow> (node, json) io" where
  "new_chunk e ls pol ts fresh state partial ledger offset data chunk_sha256 =
     (let len = int (length data) in
      io_bind (io_lift (require (offset = int_of (fld ''offset'' state) \<and> in_phase [''DEST_RECEIVING''] state) (Error ''chunk_offset_conflict''))) (\<lambda>_.
      io_bind (io_lift (chunk_record offset len chunk_sha256)) (\<lambda>line.
      io_bind (io_ask (\<lambda>fs. require ((case regular_stat fs ledger of None \<Rightarrow> 0 | Some st \<Rightarrow> st_size st) + int (length line) \<le>
        request_budget state ''max_metadata_bytes'') (Error ''metadata_budget_exceeded''))) (\<lambda>_.
      io_bind (io_lift (budget_space (state_budget state) (env_now e) (free_space (env_world e)) (len + int (length line)))) (\<lambda>_.
      store_chunk e ls pol ts fresh state partial ledger offset data line)))))"

definition receive_chunk :: "env \<Rightarrow> (nat \<Rightarrow> luck) \<Rightarrow> guest \<Rightarrow> policy \<Rightarrow> observation \<Rightarrow> json \<Rightarrow> task_store \<Rightarrow> json \<Rightarrow> int \<Rightarrow> byte list \<Rightarrow> json \<Rightarrow> (node, json) io" where
  "receive_chunk e ls g pol current owner ts fresh offset data chunk_sha256 =
     (let loaded = fld ''state'' fresh in
     io_bind (io_lift (require (in_phase [''DEST_RECEIVING'', ''DEST_RECEIVED''] loaded) (Error ''chunk_precondition_failed''))) (\<lambda>_.
     io_bind (io_lift (require (offset + int (length data) \<le> package_size loaded) bad_range)) (\<lambda>_.
     io_bind (verified_partial e ls g pol current owner (state_budget loaded) False True loaded) (\<lambda>(digest, state).
     io_bind (ledger_paths e g current owner state) (\<lambda>(partial, ledger).
     if offset < int_of (fld ''offset'' state) then replay_chunk state partial offset data
     else new_chunk e ls pol ts fresh state partial ledger offset data chunk_sha256)))))"

text \<open>
  \<open>transfer_chunk\<close> of the guest service. What holds the writer lock and the worker lock at the moment is an argument.
\<close>

definition transfer_chunk :: "env \<Rightarrow> (nat \<Rightarrow> luck) \<Rightarrow> process_table \<Rightarrow> bool \<Rightarrow> bool \<Rightarrow> guest \<Rightarrow> observation \<Rightarrow> json \<Rightarrow> json \<Rightarrow> json \<Rightarrow> json \<Rightarrow> json \<Rightarrow> json \<Rightarrow> json \<Rightarrow> (node, json) io" where
  "transfer_chunk e ls procs busy held g current owner transfer_id digest offset amount data_base64 chunk_sha256 =
     io_bind (io_lift (require (is_int amount \<and> 0 < int_of amount \<and> is_count offset) bad_range)) (\<lambda>_.
     io_bind (io_ask (guest_identity e g current)) (\<lambda>pol.
     io_bind (io_ask (guest_store e g current owner)) (\<lambda>first.
     io_bind (guest_load e g first transfer_id digest) (\<lambda>envelope.
     let state = fld ''state'' envelope; maximum = chunk_maximum pol state in
     io_bind (io_lift (require (int_of amount \<le> maximum \<and> env_now e < int_of (fld ''deadline_monotonic'' state)) (Error ''chunk_budget_or_deadline''))) (\<lambda>_.
     io_bind (io_lift (require (\<not> truthy (fld ''cancelled'' state)) (Error ''transfer_cancelled''))) (\<lambda>_.
     if direction_is ''pull'' (request_of state) then read_chunk e g pol current owner state (int_of offset) (int_of amount) data_base64 chunk_sha256
     else
       io_bind (io_lift (chunk_data maximum (int_of amount) data_base64 chunk_sha256)) (\<lambda>data.
       io_bind (io_ask (guest_store e g current owner)) (\<lambda>ts.
       io_bind (store_acquire e busy ts) (\<lambda>writer.
       io_bind (guest_load e g writer transfer_id digest) (\<lambda>fresh.
       io_bind (io_lift (require (\<not> truthy (fld ''cancelled'' (fld ''state'' fresh))) (Error ''transfer_cancelled''))) (\<lambda>_.
       io_bind (check_idle e (\<lambda>i. ls (i + 8)) procs held g current pol writer) (\<lambda>_.
       receive_chunk e ls g pol current owner writer fresh (int_of offset) data chunk_sha256))))))))))))"

end
