(* ===== verification/Receive_Facts.thy ===== *)
theory Receive_Facts
  imports Receive
begin

text \<open>
  The files of a push: what writing into them does, the record of a chunk, the replay of a ledger, and
  the verification that brings the two files back to what the state acknowledges. An operation is
  described by triples, with one postcondition for its return and one for its exceptions.
\<close>

section \<open>Triples\<close>

text \<open>
  From every state with \<open>P\<close>, a normal return is in \<open>Q\<close> and an exception leaves a state with \<open>E\<close>.
\<close>

definition triple :: "('s \<Rightarrow> bool) \<Rightarrow> ('s, 'a) io \<Rightarrow> ('a \<Rightarrow> 's \<Rightarrow> bool) \<Rightarrow> ('s \<Rightarrow> bool) \<Rightarrow> bool" where
  "triple P m Q E \<longleftrightarrow> (\<forall>s r s'. P s \<longrightarrow> m s = (r, s') \<longrightarrow> (case r of Inr x \<Rightarrow> Q x s' | Inl x \<Rightarrow> E s'))"

lemma tripleI: "(\<And>s x s'. P s \<Longrightarrow> m s = (Inr x, s') \<Longrightarrow> Q x s') \<Longrightarrow> (\<And>s x s'. P s \<Longrightarrow> m s = (Inl x, s') \<Longrightarrow> E s') \<Longrightarrow> triple P m Q E"
  unfolding triple_def by (metis old.sum.exhaust sum.case)

lemma triple_Inr: "triple P m Q E \<Longrightarrow> P s \<Longrightarrow> m s = (Inr x, s') \<Longrightarrow> Q x s'"
  unfolding triple_def by fastforce

lemma triple_Inl: "triple P m Q E \<Longrightarrow> P s \<Longrightarrow> m s = (Inl x, s') \<Longrightarrow> E s'"
  unfolding triple_def by fastforce

lemma triple_bind: "triple P m R E \<Longrightarrow> (\<And>x. triple (R x) (f x) Q E) \<Longrightarrow> triple P (io_bind m f) Q E"
  by (rule tripleI) (auto simp: io_iff dest: triple_Inr triple_Inl)

lemma triple_lift: "(\<And>s. P s \<Longrightarrow> E s) \<Longrightarrow> triple P (io_lift m) (\<lambda>x s. P s \<and> m = Inr x) E"
  by (rule tripleI) (auto simp: io_iff)

lemma triple_ask: "(\<And>s. P s \<Longrightarrow> E s) \<Longrightarrow> triple P (io_ask f) (\<lambda>x s. P s \<and> f s = Inr x) E"
  by (rule tripleI) (auto simp: io_iff)

lemma triple_weaken: "triple P m Q E \<Longrightarrow> (\<And>s. P' s \<Longrightarrow> P s) \<Longrightarrow> (\<And>x s. Q x s \<Longrightarrow> Q' x s) \<Longrightarrow> (\<And>s. E s \<Longrightarrow> E' s) \<Longrightarrow> triple P' m Q' E'"
  unfolding triple_def by (fastforce split: sum.splits)

lemma triple_error: "triple P m Q E \<Longrightarrow> (\<And>s. E s \<Longrightarrow> E' s) \<Longrightarrow> triple P m Q E'"
  unfolding triple_def by (fastforce split: sum.splits)

lemma triple_pure: "(F \<Longrightarrow> triple P m Q E) \<Longrightarrow> triple (\<lambda>s. F \<and> P s) m Q E"
  unfolding triple_def by blast

lemma triple_ex: "(\<And>a. triple (P a) m Q E) \<Longrightarrow> triple (\<lambda>s. \<exists>a. P a s) m Q E"
  unfolding triple_def by blast

lemma triple_use: "triple P' m Q E \<Longrightarrow> (\<And>s. P s \<Longrightarrow> P' s) \<Longrightarrow> triple P m Q E"
  unfolding triple_def by blast

lemma triple_if: "(c \<Longrightarrow> triple P m Q E) \<Longrightarrow> (\<not> c \<Longrightarrow> triple P n Q E) \<Longrightarrow> triple P (if c then m else n) Q E"
  by simp

lemma triple_check: "(\<And>s. P s \<Longrightarrow> E s) \<Longrightarrow> (\<And>x. m = Inr x \<Longrightarrow> triple P (f x) Q E) \<Longrightarrow> triple P (io_bind (io_lift m) f) Q E"
  unfolding triple_def by (cases m) (auto simp: io_bind_def io_lift_def)

lemma triple_return: "(\<And>s. P s \<Longrightarrow> Q x s) \<Longrightarrow> triple P (io_lift (Inr x)) Q E"
  by (rule tripleI) (auto simp: io_iff)

section \<open>What writing into a file does\<close>

lemma changes_rewrite: "rewrite_kid w p bs m = Some m' \<Longrightarrow> changes [last p] m m'"
  by (auto simp: rewrite_kid_def changes_def map_of_update_other split: node.splits option.splits)

lemma rewrite_node_agree: "rewrite_node w (d @ [x]) bs fs = Some fs' \<Longrightarrow> \<not> within [x] d q \<Longrightarrow> agree fs fs' q"
  unfolding rewrite_node_def by (rule agreeI [where d = d and xs = "[x]"]) (auto dest: changes_rewrite)

lemma rewrite_node_lookup:
  assumes "rewrite_node w (d @ [x]) bs fs = Some fs'"
  shows "\<exists>st old. lookup fs (d @ [x]) = Some (FileN st old) \<and> lookup fs' (d @ [x]) = Some (FileN (rewritten w (d @ [x]) st bs) bs)"
proof -
  from update_at_lookup [OF assms [unfolded rewrite_node_def]] obtain m m' where
    m: "lookup fs d = Some m" "rewrite_kid w (d @ [x]) bs m = Some m'" "lookup fs' d = Some m'" by auto
  then obtain dst kids st old where k: "m = DirN dst kids" "map_of kids x = Some (FileN st old)"
    "m' = DirN dst (AList.update x (FileN (rewritten w (d @ [x]) st bs) bs) kids)"
    by (auto simp: rewrite_kid_def split: node.splits option.splits)
  with m(1,3) have "lookup fs (d @ [x]) = Some (FileN st old)" "lookup fs' (d @ [x]) = Some (FileN (rewritten w (d @ [x]) st bs) bs)"
    by (simp_all add: lookup_snoc update_conv')
  then show ?thesis by blast
qed

text \<open>The outcome of an edit: the file is as before, or holds what some of the bytes make of it; all else stays.\<close>

lemma edit_file_outcome:
  assumes "edit_file e (d @ [x]) change n fs = (r, fs')"
  shows "(\<forall>q. \<not> within [x] d q \<longrightarrow> agree fs fs' q) \<and>
    ((fs' = fs \<and> r \<noteq> Inr ()) \<or> (\<exists>st old k. k \<le> n \<and> (r = Inr () \<longrightarrow> k = n) \<and> lookup fs (d @ [x]) = Some (FileN st old) \<and>
       lookup fs' (d @ [x]) = Some (FileN (rewritten (env_world e) (d @ [x]) st (change k old)) (change k old))))"
proof (cases "fs' = fs \<and> r \<noteq> Inr ()")
  case False
  then obtain st old k where f: "lookup fs (d @ [x]) = Some (FileN st old)" "k \<le> n" "r = Inr () \<longrightarrow> k = n"
      "rewrite_node (env_world e) (d @ [x]) (change k old) fs = Some fs'"
    using assms by (fastforce simp: edit_file_def split: option.splits node.splits fault.splits)
  from rewrite_node_lookup [OF f(4)] rewrite_node_agree [OF f(4)] f(1-3) show ?thesis by auto
qed auto

lemma edit_file_Inr:
  assumes "edit_file e (d @ [x]) change n fs = (Inr (), fs')"
  shows "\<exists>st old. lookup fs (d @ [x]) = Some (FileN st old) \<and> lookup fs' (d @ [x]) = Some (FileN (rewritten (env_world e) (d @ [x]) st (change n old)) (change n old))"
    "\<not> within [x] d q \<Longrightarrow> agree fs fs' q"
  using edit_file_outcome [OF assms] by auto

section \<open>The record of a chunk\<close>

lemma dec_digits_at_most: "n < 10 ^ k \<Longrightarrow> 0 < k \<Longrightarrow> length (dec_digits n) \<le> k"
proof (induction k arbitrary: n)
  case (Suc k)
  show ?case
  proof (cases "n < 10")
    case True
    then show ?thesis by (subst dec_digits.simps) simp
  next
    case False
    then have "n div 10 < 10 ^ k" "0 < k" using Suc.prems(1) by (auto simp: less_mult_imp_div_less mult.commute intro: gr0I)
    with Suc.IH [of "n div 10"] False show ?thesis by (subst dec_digits.simps) simp
  qed
qed simp

abbreviation record_json :: "nat \<Rightarrow> byte list \<Rightarrow> json" where
  "record_json position chunk \<equiv> obj [(''offset'', JInt (int position)), (''count'', JInt (int (length chunk))), (''sha256'', JStr (sha256_hex chunk))]"

definition record_line :: "nat \<Rightarrow> byte list \<Rightarrow> byte list" where
  "record_line position chunk = utf8_bytes (dumps (sort_json (record_json position chunk))) @ [10]"

definition small :: "nat \<Rightarrow> bool" where
  "small n \<longleftrightarrow> n < 10 ^ 40"

lemma small_digits: "small n \<Longrightarrow> length (int_str (int n)) \<le> 40"
  using dec_digits_at_most [of n 40] by (simp add: small_def int_str_def)

lemma small_serial: "small n \<Longrightarrow> serial (JInt (int n))"
  using dec_digits_at_most [of n 40] by (simp add: small_def serial_def int_printable_def int_max_str_digits_def)

lemma record_serial: "small position \<Longrightarrow> small (length chunk) \<Longrightarrow> serial (record_json position chunk)"
  by (simp add: serial_obj small_serial serial_hex)

lemma chunk_record_line: "small position \<Longrightarrow> small (length chunk) \<Longrightarrow>
    chunk_record (int position) (int (length chunk)) (JStr (sha256_hex chunk)) = Inr (record_line position chunk)"
  using serial_canonical [OF record_serial [of position chunk]] by (simp add: chunk_record_def record_line_def)

lemma json_string_plain: "list_all (\<lambda>c. 32 \<le> c \<and> c < 127 \<and> c \<noteq> 34 \<and> c \<noteq> 92) s \<Longrightarrow> json_string s = 34 # s @ [34]"
proof -
  have "list_all (\<lambda>c. 32 \<le> c \<and> c < 127 \<and> c \<noteq> 34 \<and> c \<noteq> 92) s \<Longrightarrow> concat (map esc_char s) = s"
    by (induction s) (auto simp: esc_char_def)
  then show "list_all (\<lambda>c. 32 \<le> c \<and> c < 127 \<and> c \<noteq> 34 \<and> c \<noteq> 92) s \<Longrightarrow> json_string s = 34 # s @ [34]" by (simp add: json_string_def)
qed

lemma hex_plain: "is_hex64 h \<Longrightarrow> list_all (\<lambda>c. 32 \<le> c \<and> c < 127 \<and> c \<noteq> 34 \<and> c \<noteq> 92) h"
  by (auto simp: is_hex64_def list_all_iff text_simps)

lemma record_text: "dumps (sort_json (record_json position chunk)) =
    [123, 34, 99, 111, 117, 110, 116, 34, 58] @ int_str (int (length chunk)) @ [44, 34, 111, 102, 102, 115, 101, 116, 34, 58] @ int_str (int position) @
    [44, 34, 115, 104, 97, 50, 53, 54, 34, 58, 34] @ sha256_hex chunk @ [34, 125]"
  by (simp add: obj_def u_def json_string_plain hex_plain)

definition printable :: "pystr \<Rightarrow> bool" where
  "printable s \<longleftrightarrow> list_all (\<lambda>c. 32 \<le> c \<and> c < 127) s"

lemma printable_parts: "printable (int_str (int n))" "printable (sha256_hex m)" "printable (s @ t) \<longleftrightarrow> printable s \<and> printable t"
    "printable (c # s) \<longleftrightarrow> 32 \<le> c \<and> c < 127 \<and> printable s" "printable []"
  using dec_digits_all [of n] hex_plain [OF sha256_hex_is_hex64, of m]
  by (auto simp: printable_def int_str_def list_all_iff is_digit_def)

lemma record_printable: "printable (dumps (sort_json (record_json position chunk)))"
  unfolding record_text by (simp only: printable_parts) simp

lemma record_text_chars: "c \<in> set (dumps (sort_json (record_json position chunk))) \<Longrightarrow> 32 \<le> c \<and> c < 127"
  using record_printable [of position chunk] unfolding printable_def list_all_iff by blast

lemma record_bytes: "utf8_bytes (dumps (sort_json (record_json position chunk))) = map of_nat (dumps (sort_json (record_json position chunk)))"
proof -
  have "list_all (\<lambda>c. c < 128) s \<Longrightarrow> utf8_bytes s = map of_nat s" for s
    by (induction s) (auto simp: utf8_bytes_def utf8_char_def)
  moreover have "list_all (\<lambda>c. c < 128) (dumps (sort_json (record_json position chunk)))"
    unfolding list_all_iff using record_text_chars by fastforce
  ultimately show ?thesis by blast
qed

lemma record_line_length: "small position \<Longrightarrow> small (length chunk) \<Longrightarrow> length (record_line position chunk) \<le> 255"
  using small_digits [of position] small_digits [of "length chunk"] by (simp add: record_line_def record_bytes) (simp add: record_text)

lemma record_line_newline: "\<exists>body. record_line position chunk = body @ [10] \<and> 10 \<notin> set body"
proof -
  have "of_nat c \<noteq> (10 :: byte)" if "c \<in> set (dumps (sort_json (record_json position chunk)))" for c
  proof
    assume "of_nat c = (10 :: byte)"
    then have "unat (of_nat c :: byte) = unat (10 :: byte)" by simp
    then show False using record_text_chars [OF that] by (simp add: unat_of_nat)
  qed
  then show ?thesis unfolding record_line_def record_bytes by auto
qed

lemma readline_record: "small position \<Longrightarrow> small (length chunk) \<Longrightarrow> readline 256 (record_line position chunk @ rest) = record_line position chunk"
proof -
  assume "small position" "small (length chunk)"
  from record_line_length [OF this] have short: "length (record_line position chunk) \<le> 256" by simp
  obtain body where b: "record_line position chunk = body @ [10]" "10 \<notin> set body" using record_line_newline by blast
  then have "takeWhile (\<lambda>b. b \<noteq> 10) (body @ [10] @ rest) = body" by (subst takeWhile_append2) auto
  with short b(1) show ?thesis by (simp add: readline_def Let_def)
qed

lemma loads_line:
  assumes "canonical_json v = Inr raw" and "wf_json v" and "floats_ok pf v" and "is_obj v"
  shows "loads_with wide pf (unique_pairs dup) const (raw @ [10]) = Inr (sort_json v)"
proof -
  from assms have raw: "raw = utf8_bytes (dumps (sort_json v))" "list_all is_scalar (dumps (sort_json v))" "dumpable (sort_json v)"
    by (simp_all add: canonical_json_Inr sort_json_invariants)
  from assms(4) obtain kvs where kvs: "sort_json v = JObj kvs" by (cases v) auto
  obtain c r where d: "dumps (sort_json v) = 123 # c # r" and c: "c = 34 \<or> c = 125" unfolding kvs using dumps_object_head by blast
  from c have "raw @ [10] = 123 # of_nat c # utf8_bytes r @ [10]" unfolding raw(1) d by (auto simp: utf8_bytes_def utf8_char_def)
  with c have plain: "plain_utf8 (raw @ [10])" by (auto simp: plain_utf8_def)
  have "utf8_bytes (dumps (sort_json v) @ [10]) = raw @ [10]" by (simp add: raw(1) utf8_bytes_append) (simp add: utf8_bytes_def utf8_char_def)
  then have "decode_utf8 (raw @ [10]) = Inr (dumps (sort_json v) @ [10])"
    using raw(2) by (intro decode_encode_utf8) (simp add: encode_utf8_def is_scalar_def is_surrogate_def)
  then have t: "decode_utf8_pass (raw @ [10]) = Inr (dumps (sort_json v) @ [10])" by (rule decode_utf8_pass_strict)
  have "scan_value pf (unique_pairs dup) const (2 * length (dumps (sort_json v) @ [10]) + 2) (dumps (sort_json v) @ [10]) = Inr (sort_json v, [10])"
    using assms raw(3) by (intro scan_value_dumps) (auto simp: unique_pairs_def sort_json_invariants ends_number_def is_digit_def)
  then have "loads pf (unique_pairs dup) const (dumps (sort_json v) @ [10]) = Inr (sort_json v)"
    unfolding d by (simp add: loads_def skip_ws_def is_ws_def)
  with plain t show ?thesis by (simp add: loads_with_def)
qed

lemma record_line_reads:
  assumes "small position" "small (length chunk)" "chunk \<noteq> []" "int (length chunk) \<le> m"
  shows "\<exists>r. check_record e m (int position) (record_line position chunk) = Inr r \<and> fld ''count'' r = JInt (int (length chunk)) \<and>
    fld ''sha256'' r = JStr (sha256_hex chunk)"
proof -
  let ?v = "record_json position chunk"
  have can: "canonical_json ?v = Inr (utf8_bytes (dumps (sort_json ?v)))" and wf: "wf_json ?v"
    using record_serial [OF assms(1,2)] serial_canonical by (auto simp: serial_def)
  have "loads_with (env_wide e) (env_pf e) (unique_pairs (Error ''duplicate_json_key'')) (no_constant (Error ''invalid_json'')) (record_line position chunk) =
      Inr (sort_json ?v)"
    unfolding record_line_def by (rule loads_line [OF can wf]) (simp_all add: obj_def)
  then have "guest_strict_json e (record_line position chunk) 255 = Inr (sort_json ?v)"
    using record_line_length [OF assms(1,2)] by (simp add: guest_strict_json_def)
  moreover have "fld k (sort_json ?v) = sort_json (fld k ?v)" for k using wf by (rule fld_sort_json)
  ultimately show ?thesis using assms(3,4) by (simp add: check_record_def has_keys_obj same_set_map_u same_set_iff insert_commute)
qed

section \<open>Replaying the ledger\<close>

text \<open>The ledger of a sequence of chunks.\<close>

primrec ledger_lines :: "nat \<Rightarrow> byte list list \<Rightarrow> byte list" where
  "ledger_lines position [] = []"
| "ledger_lines position (c # cs) = record_line position c @ ledger_lines (position + length c) cs"

definition good_chunks :: "int \<Rightarrow> byte list list \<Rightarrow> bool" where
  "good_chunks m cs \<longleftrightarrow> (\<forall>c \<in> set cs. c \<noteq> [] \<and> int (length c) \<le> m) \<and> small (length (concat cs))"

lemma ledger_lines_append: "ledger_lines p (cs @ ds) = ledger_lines p cs @ ledger_lines (p + length (concat cs)) ds"
  by (induction cs arbitrary: p) (simp_all add: add.assoc)

lemma small_less: "small n \<Longrightarrow> m \<le> n \<Longrightarrow> small m"
  by (simp add: small_def)

lemma replay_ledger:
  assumes budget: "budget_check b (env_now e) = Inr ()" and good: "\<forall>c \<in> set cs. c \<noteq> [] \<and> int (length c) \<le> m"
    and bound: "small (position + length (concat cs))"
  shows "replay_records e b m (length cs) (concat cs @ rest) (ledger_lines position cs @ tail) (int position) consumed =
    Inr (int (position + length (concat cs)), consumed @ ledger_lines position cs)"
  using good bound
proof (induction cs arbitrary: position consumed)
  case (Cons c cs)
  have sm: "small position" "small (length c)" using Cons.prems(2) by (auto intro: small_less)
  have line: "readline 256 (ledger_lines position (c # cs) @ tail) = record_line position c"
    using readline_record [OF sm, of "ledger_lines (position + length c) cs @ tail"] by simp
  from record_line_reads [OF sm, of m e] Cons.prems(1) obtain r where r: "check_record e m (int position) (record_line position c) = Inr r"
    "fld ''count'' r = JInt (int (length c))" "fld ''sha256'' r = JStr (sha256_hex c)" by auto
  have "replay_records e b m (length cs) (concat cs @ rest) (ledger_lines (position + length c) cs @ tail) (int (position + length c)) (consumed @ record_line position c) =
      Inr (int (position + length c + length (concat cs)), (consumed @ record_line position c) @ ledger_lines (position + length c) cs)"
    using Cons.prems by (intro Cons.IH) (auto simp: add.assoc)
  then show ?case using budget r line by (simp add: Let_def add.assoc)
qed simp

section \<open>What the disk holds\<close>

definition partial_path :: "path \<Rightarrow> path" where
  "partial_path d = d @ [u ''received.part'']"

definition ledger_path :: "path \<Rightarrow> path" where
  "ledger_path d = d @ [u ''chunks.jsonl'']"

definition held :: "path \<Rightarrow> byte list list \<Rightarrow> node \<Rightarrow> bool" where
  "held d cs fs \<longleftrightarrow> (\<exists>rest tail. bytes_at fs (partial_path d) = concat cs @ rest \<and> bytes_at fs (ledger_path d) = ledger_lines 0 cs @ tail)"

definition plain_file :: "path \<Rightarrow> node \<Rightarrow> bool" where
  "plain_file p fs \<longleftrightarrow> lookup fs p = None \<or> (\<exists>st bs. lookup fs p = Some (FileN st bs) \<and> st_size st = int (length bs))"

definition exactly :: "path \<Rightarrow> byte list \<Rightarrow> byte list \<Rightarrow> node \<Rightarrow> bool" where
  "exactly d data records fs \<longleftrightarrow> plain_file (partial_path d) fs \<and> plain_file (ledger_path d) fs \<and>
     bytes_at fs (partial_path d) = data \<and> bytes_at fs (ledger_path d) = records"

definition sized :: "path \<Rightarrow> node \<Rightarrow> bool" where
  "sized d fs \<longleftrightarrow> (\<forall>p \<in> {partial_path d, ledger_path d}. \<forall>st bs. lookup fs p = Some (FileN st bs) \<longrightarrow> st_size st = int (length bs))"

text \<open>What a state says of the chunks, and how it names the two files.\<close>

definition counted :: "json \<Rightarrow> byte list list \<Rightarrow> bool" where
  "counted state cs \<longleftrightarrow> fld ''offset'' state = JInt (int (length (concat cs))) \<and> fld ''chunk_count'' state = JInt (int (length cs)) \<and>
     good_chunks (request_budget state ''max_chunk_bytes'') cs"

definition named_size :: "json \<Rightarrow> string \<Rightarrow> nat \<Rightarrow> bool" where
  "named_size owned k n \<longleftrightarrow> take 1 (drop 2 (elems (fld k owned))) = [JInt (int n)]"

definition named :: "json \<Rightarrow> byte list list \<Rightarrow> bool" where
  "named state cs \<longleftrightarrow> fld ''partial_identity'' state = JNull \<or>
     (named_size (fld ''partial_identity'' state) ''partial'' (length (concat cs)) \<and>
      named_size (fld ''partial_identity'' state) ''ledger'' (length (ledger_lines 0 cs)))"

definition acknowledges :: "json \<Rightarrow> byte list list \<Rightarrow> bool" where
  "acknowledges state cs \<longleftrightarrow> wf_json state \<and> counted state cs \<and> named state cs"

lemma exactly_held: "exactly d (concat cs @ rest) (ledger_lines 0 cs @ tail) fs \<Longrightarrow> held d cs fs \<and> sized d fs"
  by (auto simp: exactly_def held_def sized_def plain_file_def)

section \<open>What a step leaves alone\<close>

definition spares :: "pystr list \<Rightarrow> path \<Rightarrow> node \<Rightarrow> node \<Rightarrow> bool" where
  "spares xs d fs fs' \<longleftrightarrow> (\<forall>q. \<not> within xs d q \<longrightarrow> agree fs fs' q)"

abbreviation part_names :: "pystr list" where
  "part_names \<equiv> [u ''received.part'', u ''chunks.jsonl'']"

lemma spares_refl [simp]: "spares xs d fs fs"
  by (simp add: spares_def)

lemma spares_trans: "spares xs d a b \<Longrightarrow> spares xs d b c \<Longrightarrow> spares xs d a c"
  unfolding spares_def using agree_trans by blast

lemma spares_more: "spares xs d a b \<Longrightarrow> set xs \<subseteq> set ys \<Longrightarrow> spares ys d a b"
  unfolding spares_def within_def by blast

lemma within_sibling: "within xs d (d @ [y]) \<longleftrightarrow> y \<in> set xs"
  by (auto simp: within_def is_prefix_def)

lemma spares_sibling:
  assumes "spares xs d fs fs'" and "y \<notin> set xs"
  shows "bytes_at fs' (d @ [y]) = bytes_at fs (d @ [y])" "plain_file (d @ [y]) fs \<Longrightarrow> plain_file (d @ [y]) fs'"
    "lookup fs' (d @ [y]) = Some (FileN st bs) \<longleftrightarrow> lookup fs (d @ [y]) = Some (FileN st bs)"
proof -
  have a: "alike (lookup fs (d @ [y])) (lookup fs' (d @ [y]))" using assms agree_at within_sibling unfolding spares_def by blast
  then show "bytes_at fs' (d @ [y]) = bytes_at fs (d @ [y])" "plain_file (d @ [y]) fs \<Longrightarrow> plain_file (d @ [y]) fs'"
    "lookup fs' (d @ [y]) = Some (FileN st bs) \<longleftrightarrow> lookup fs (d @ [y]) = Some (FileN st bs)"
    by (cases "(lookup fs (d @ [y]), lookup fs' (d @ [y]))" rule: alike.cases; auto simp: bytes_at_def plain_file_def)+
qed

lemma part_names_differ [simp]: "u ''received.part'' \<noteq> u ''chunks.jsonl''" "u ''chunks.jsonl'' \<noteq> u ''received.part''"
    "u ''state.json'' \<noteq> u ''chunks.jsonl''" "u ''state.json'' \<noteq> u ''received.part''"
    "temp_name e \<noteq> u ''chunks.jsonl''" "temp_name e \<noteq> u ''received.part''"
  by (simp_all add: u_def temp_name_def)

lemma part_names_differ' [simp]: "u ''chunks.jsonl'' \<noteq> temp_name e" "u ''received.part'' \<noteq> temp_name e"
  "u ''chunks.jsonl'' \<noteq> u ''state.json''" "u ''received.part'' \<noteq> u ''state.json''"
  by (simp_all add: u_def temp_name_def)

text \<open>The task stays readable when only the two files change.\<close>

lemma load_spares:
  assumes load: "stored_load e ts (JStr name) b fs = Inr v" and sp: "spares part_names (task_place ts name) fs fs'"
    and out: "\<forall>p \<in> watched (store_policy ts). \<not> within part_names (task_place ts name) p"
  shows "stored_load e ts (JStr name) b fs' = Inr v"
proof -
  let ?d = "task_place ts name" and ?p = "state_place ts name"
  from load have l: "task_ready e ts name fs" "store_read e ts ?p fs = Inr v" "store_transfer_id (env_ucd e) (JStr name) = Inr name"
    "binding_fits (store_policy ts) b" "fld ''transfer_id'' v = JStr name" "py_eq (fld ''binding'' v) b"
    by (auto simp: stored_load_iff store_load_iff store_transfer_id_iff)
  have ag: "agree fs fs' q" if "\<not> within part_names ?d q" for q using sp that by (simp add: spares_def)
  have check: "store_check e ts fs' = Inr ()"
    by (rule agree_store_check [of ts fs fs']) (use ag out l(1) in \<open>auto simp: task_ready_def\<close>)
  have places: "lookup fs' p \<noteq> None \<and> safe_chain (env_ucd e) fs' p (store_root ts) False = Inr () \<and> store_private fs' p = Inr ()"
    if p: "p \<in> {store_root ts @ [u ''tasks''], ?d}" for p
  proof -
    from p l(1) have r: "lookup fs p \<noteq> None" "safe_chain (env_ucd e) fs p (store_root ts) False = Inr ()" "store_private fs p = Inr ()"
      unfolding task_ready_def by blast+
    have a: "agree fs fs' p" using p by (intro ag within_short) (auto simp: task_place_def)
    show ?thesis using alike_exists [OF agree_at [OF a] r(1)] agree_safe_chain [OF a r(2)] agree_private [OF a r(3)] by blast
  qed
  from check places have ready: "task_ready e ts name fs'" unfolding task_ready_def by blast
  have a: "agree fs fs' ?p" by (rule ag) (simp add: state_place_def within_sibling)
  from l(2) obtain st bs x where r: "safe_chain (env_ucd e) fs ?p (store_root ts) False = Inr ()" "store_private fs ?p = Inr ()"
    "lookup fs ?p = Some (FileN st bs)" "st_size st = int (length bs)" "int (length bs) \<le> limit_of ts ''max_state_bytes''" "parse_envelope e bs = Inr x"
    "validate_json (nat (limit_of ts ''max_state_bytes'')) x = Inr ()" "check_envelope x bs = Inr v" by (auto simp: store_read_iff)
  have "lookup fs' ?p = Some (FileN st bs)" using agree_at [OF a] r(3) by (simp add: alike_file)
  then have "store_read e ts ?p fs' = Inr v"
    using check agree_safe_chain [OF a r(1)] agree_private [OF a r(2)] r(4-8) by (auto simp: store_read_iff)
  then show ?thesis using l(3-6) ready by (auto simp: stored_load_iff store_load_iff store_read_iff)
qed

text \<open>Saving a task changes its state file and a temporary file beside it.\<close>

lemma commit_spares:
  assumes "calm (env_world e)" and "store_commit e ts (d @ [x]) raw n fs = (r, fs')"
  shows "spares [temp_name e, x] d fs fs'"
proof -
  have put: "spares [temp_name e, x] d fs fs1" if "put_node (env_world e) (d @ [temp_name e]) c fs = Some fs1" for c fs1
    by (rule spares_more [of "[temp_name e]"]) (use put_node_agree [OF assms(1) that] in \<open>auto simp: spares_def\<close>)
  have mv: "spares [temp_name e, x] d fs1 fs2" if "move_node (env_world e) True d (temp_name e) x fs1 = Some fs2" for fs1 fs2
    using move_node_agree [OF assms(1) that] by (auto simp: spares_def)
  have fail: "spares [temp_name e, x] d fs1 fs2" if "commit_failed e ts p (d @ [temp_name e]) raw n exn fs1 = (r, fs2)" for p exn fs1 fs2 r
  proof -
    from that have "fs2 = fs1 \<or> fs2 = drop_temp e (d @ [temp_name e]) fs1" by (auto simp: commit_failed_def Let_def split: if_splits sum.splits exn.splits)
    moreover have "spares [temp_name e] d fs1 (drop_temp e (d @ [temp_name e]) fs1)"
      using remove_node_agree [OF assms(1)] by (auto simp: drop_temp_def spares_def split: option.splits)
    ultimately show ?thesis using spares_more [of "[temp_name e]" d fs1 fs2 "[temp_name e, x]"] by auto
  qed
  have pf: "spares [temp_name e, x] d fs fs2" if "put_node (env_world e) (d @ [temp_name e]) c fs = Some fs1" "commit_failed e ts p (d @ [temp_name e]) raw n exn fs1 = (r, fs2)"
    for c p exn fs1 fs2 r using put [OF that(1)] fail [OF that(2)] by (rule spares_trans)
  have pm: "spares [temp_name e, x] d fs fs2" if "put_node (env_world e) (d @ [temp_name e]) c fs = Some fs1" "move_node (env_world e) True d (temp_name e) x fs1 = Some fs2"
    for c fs1 fs2 using put [OF that(1)] mv [OF that(2)] by (rule spares_trans)
  have pmf: "spares [temp_name e, x] d fs fs3" if "put_node (env_world e) (d @ [temp_name e]) c fs = Some fs1" "move_node (env_world e) True d (temp_name e) x fs1 = Some fs2"
      "commit_failed e ts p (d @ [temp_name e]) raw n exn fs2 = (r, fs3)"
    for c p exn fs1 fs2 fs3 r using pm [OF that(1,2)] fail [OF that(3)] by (rule spares_trans)
  show ?thesis
  proof (cases "require_writer e ts fs")
    case (Inl y)
    with assms(2) have "fs' = fs" by (simp add: store_commit_def io_bind_def io_ask_def)
    then show ?thesis by simp
  next
    case (Inr y)
    note run = assms(2) [unfolded store_commit_def Let_def temp_name_def [symmetric] io_bind_def io_ask_def butlast_snoc last_snoc Inr, simplified]
    show ?thesis
      using run by (cases "env_fault e") (auto split: option.splits sum.splits intro: pf pm pmf)
  qed
qed

lemma save_spares:
  assumes calm: "calm (env_world e)" and save: "store_save e ts (JStr name) b n s fs = (r, fs')"
  shows "spares [temp_name e, u ''state.json''] (task_place ts name) fs fs'"
proof (cases "fs' = fs")
  case False
  from save False obtain x raw m r' where c: "store_commit e ts (state_place ts x) raw m fs = (r', fs')" "store_transfer_id (env_ucd e) (JStr name) = Inr x"
    unfolding store_save_def Let_def
    by (cases r) (auto simp: io_iff state_path_iff dest: store_load_keeps state_path_keeps)
  then show ?thesis using commit_spares [OF calm] by (auto simp: store_transfer_id_iff state_place_def)
qed simp

section \<open>Edits of the two files\<close>

definition steady_for :: "pystr list \<Rightarrow> path \<Rightarrow> (node \<Rightarrow> bool) \<Rightarrow> bool" where
  "steady_for xs d X \<longleftrightarrow> (\<forall>fs fs'. X fs \<longrightarrow> spares xs d fs fs' \<longrightarrow> X fs')"

abbreviation steady :: "path \<Rightarrow> (node \<Rightarrow> bool) \<Rightarrow> bool" where
  "steady \<equiv> steady_for part_names"

definition file_is :: "path \<Rightarrow> byte list \<Rightarrow> node \<Rightarrow> bool" where
  "file_is p data fs \<longleftrightarrow> plain_file p fs \<and> bytes_at fs p = data"

lemma exactly_iff: "exactly d data records fs \<longleftrightarrow> file_is (partial_path d) data fs \<and> file_is (ledger_path d) records fs"
  by (auto simp: exactly_def file_is_def)

lemma steady_beside: "steady_for xs d X \<Longrightarrow> set ys \<subseteq> set xs \<Longrightarrow> x \<notin> set ys \<Longrightarrow> steady_for ys d (\<lambda>fs. X fs \<and> file_is (d @ [x]) data fs)"
  unfolding steady_for_def file_is_def by (metis spares_more spares_sibling(1,2))

lemma edit_effect:
  assumes "edit_file e (d @ [x]) change n fs = (r, fs')"
  shows "spares [x] d fs fs'"
    "(fs' = fs \<and> r \<noteq> Inr ()) \<or> (\<exists>st st' old k. k \<le> n \<and> (r = Inr () \<longrightarrow> k = n) \<and> lookup fs (d @ [x]) = Some (FileN st old) \<and>
       lookup fs' (d @ [x]) = Some (FileN st' (change k old)) \<and> st_size st' = int (length (change k old)))"
proof -
  note o = edit_file_outcome [OF assms]
  from o show "spares [x] d fs fs'" by (simp add: spares_def)
  from o [THEN conjunct2] show "(fs' = fs \<and> r \<noteq> Inr ()) \<or> (\<exists>st st' old k. k \<le> n \<and> (r = Inr () \<longrightarrow> k = n) \<and> lookup fs (d @ [x]) = Some (FileN st old) \<and>
       lookup fs' (d @ [x]) = Some (FileN st' (change k old)) \<and> st_size st' = int (length (change k old)))"
  proof
    assume "\<exists>st old k. k \<le> n \<and> (r = Inr () \<longrightarrow> k = n) \<and> lookup fs (d @ [x]) = Some (FileN st old) \<and>
       lookup fs' (d @ [x]) = Some (FileN (rewritten (env_world e) (d @ [x]) st (change k old)) (change k old))"
    then obtain st old k where "k \<le> n" "r = Inr () \<longrightarrow> k = n" "lookup fs (d @ [x]) = Some (FileN st old)"
       "lookup fs' (d @ [x]) = Some (FileN (rewritten (env_world e) (d @ [x]) st (change k old)) (change k old))" by blast
    moreover have "st_size (rewritten (env_world e) (d @ [x]) st (change k old)) = int (length (change k old))" by (simp add: rewritten_def)
    ultimately show ?thesis by blast
  qed blast
qed

lemma edit_triple:
  assumes "steady_for [x] d X"
  shows "triple (\<lambda>fs. X fs \<and> file_is (d @ [x]) data fs) (edit_file e (d @ [x]) change n)
    (\<lambda>_ fs. X fs \<and> file_is (d @ [x]) (change n data) fs)
    (\<lambda>fs. X fs \<and> (file_is (d @ [x]) data fs \<or> (\<exists>k. file_is (d @ [x]) (change k data) fs)))"
proof -
  let ?p = "d @ [x]"
  have step: "X fs' \<and> ((fs' = fs \<and> r \<noteq> Inr ()) \<or> (\<exists>k. (r = Inr () \<longrightarrow> k = n) \<and> file_is ?p (change k data) fs'))"
    if pre: "X fs" "file_is ?p data fs" and run: "edit_file e ?p change n fs = (r, fs')" for fs r fs'
  proof -
    note eff = edit_effect [OF run]
    have X: "X fs'" using pre(1) assms eff(1) unfolding steady_for_def by blast
    from eff(2) show ?thesis
    proof
      assume "\<exists>st st' old k. k \<le> n \<and> (r = Inr () \<longrightarrow> k = n) \<and> lookup fs ?p = Some (FileN st old) \<and>
        lookup fs' ?p = Some (FileN st' (change k old)) \<and> st_size st' = int (length (change k old))"
      then obtain st st' old k where k: "r = Inr () \<longrightarrow> k = n" "lookup fs ?p = Some (FileN st old)"
        "lookup fs' ?p = Some (FileN st' (change k old))" "st_size st' = int (length (change k old))" by blast
      then have "old = data" using pre(2) by (simp add: file_is_def bytes_at_def)
      then have "file_is ?p (change k data) fs'" using k by (simp add: file_is_def plain_file_def bytes_at_def)
      with X k(1) show ?thesis by blast
    qed (use X in blast)
  qed
  show ?thesis
  proof (rule tripleI)
    fix fs y fs' assume "X fs \<and> file_is ?p data fs" "edit_file e ?p change n fs = (Inr y, fs')"
    then have "X fs' \<and> (\<exists>k. k = n \<and> file_is ?p (change k data) fs')" using step [of fs "Inr y" fs'] by simp
    then show "X fs' \<and> file_is ?p (change n data) fs'" by blast
  next
    fix fs y fs' assume "X fs \<and> file_is ?p data fs" "edit_file e ?p change n fs = (Inl y, fs')"
    then have "X fs' \<and> (fs' = fs \<or> (\<exists>k. file_is ?p (change k data) fs')) \<and> file_is ?p data fs" using step [of fs "Inl y" fs'] by simp
    then show "X fs' \<and> (file_is ?p data fs' \<or> (\<exists>k. file_is ?p (change k data) fs'))" by metis
  qed
qed

lemma edit_partial:
  assumes "steady d X"
  shows "triple (\<lambda>fs. X fs \<and> exactly d data records fs) (edit_file e (partial_path d) change n)
    (\<lambda>_ fs. X fs \<and> exactly d (change n data) records fs)
    (\<lambda>fs. X fs \<and> (exactly d data records fs \<or> (\<exists>k. exactly d (change k data) records fs)))"
proof -
  have "steady_for [u ''received.part''] d (\<lambda>fs. X fs \<and> file_is (d @ [u ''chunks.jsonl'']) records fs)" by (rule steady_beside [OF assms]) simp_all
  from edit_triple [OF this, of data e change n] show ?thesis
    unfolding partial_path_def [symmetric] ledger_path_def [symmetric] by (rule triple_weaken) (auto simp: exactly_iff)
qed

lemma edit_ledger:
  assumes "steady d X"
  shows "triple (\<lambda>fs. X fs \<and> exactly d data records fs) (edit_file e (ledger_path d) change n)
    (\<lambda>_ fs. X fs \<and> exactly d data (change n records) fs)
    (\<lambda>fs. X fs \<and> (exactly d data records fs \<or> (\<exists>k. exactly d data (change k records) fs)))"
proof -
  have "steady_for [u ''chunks.jsonl''] d (\<lambda>fs. X fs \<and> file_is (d @ [u ''received.part'']) data fs)" by (rule steady_beside [OF assms]) simp_all
  from edit_triple [OF this, of records e change n] show ?thesis
    unfolding partial_path_def [symmetric] ledger_path_def [symmetric] by (rule triple_weaken) (auto simp: exactly_iff)
qed

text \<open>Whatever happens to the tails, the acknowledged chunks are still there.\<close>

definition safe :: "path \<Rightarrow> (node \<Rightarrow> bool) \<Rightarrow> byte list list \<Rightarrow> node \<Rightarrow> bool" where
  "safe d X cs fs \<longleftrightarrow> X fs \<and> held d cs fs \<and> sized d fs"

lemma safe_exactly: "X fs \<Longrightarrow> exactly d (concat cs @ rest) (ledger_lines 0 cs @ tail) fs \<Longrightarrow> safe d X cs fs"
  using exactly_held by (simp add: safe_def)

lemma truncate_partial:
  assumes "steady d X"
  shows "triple (\<lambda>fs. X fs \<and> exactly d (concat cs @ rest) (ledger_lines 0 cs @ tail) fs) (truncate_file e (partial_path d) (length (concat cs)))
    (\<lambda>_ fs. X fs \<and> exactly d (concat cs) (ledger_lines 0 cs @ tail) fs) (safe d X cs)"
  unfolding truncate_file_def
proof (rule triple_weaken [OF edit_partial [OF assms]])
  fix fs assume a: "X fs \<and> (exactly d (concat cs @ rest) (ledger_lines 0 cs @ tail) fs \<or>
      (\<exists>k. exactly d (if k = 0 then concat cs @ rest else take (length (concat cs)) (concat cs @ rest)) (ledger_lines 0 cs @ tail) fs))"
  then have "exactly d (concat cs @ rest) (ledger_lines 0 cs @ tail) fs \<or> exactly d (concat cs @ []) (ledger_lines 0 cs @ tail) fs"
    by (auto split: if_splits)
  with a show "safe d X cs fs" using safe_exactly [of X fs d cs] by blast
qed simp_all

lemma truncate_ledger:
  assumes "steady d X"
  shows "triple (\<lambda>fs. X fs \<and> exactly d (concat cs) (ledger_lines 0 cs @ tail) fs) (truncate_file e (ledger_path d) (length (ledger_lines 0 cs)))
    (\<lambda>_ fs. X fs \<and> exactly d (concat cs) (ledger_lines 0 cs) fs) (safe d X cs)"
  unfolding truncate_file_def
proof (rule triple_weaken [OF edit_ledger [OF assms]])
  fix fs assume a: "X fs \<and> (exactly d (concat cs) (ledger_lines 0 cs @ tail) fs \<or>
      (\<exists>k. exactly d (concat cs) (if k = 0 then ledger_lines 0 cs @ tail else take (length (ledger_lines 0 cs)) (ledger_lines 0 cs @ tail)) fs))"
  then have "exactly d (concat cs @ []) (ledger_lines 0 cs @ tail) fs \<or> exactly d (concat cs @ []) (ledger_lines 0 cs @ []) fs"
    by (auto split: if_splits)
  with a show "safe d X cs fs" using safe_exactly [of X fs d cs] by blast
qed simp_all

section \<open>Verification of the partial file\<close>

lemma ledger_paths_place:
  assumes "ledger_paths e g current owner state fs = (r, fs')" and pol: "g_policy g = Some pol"
  shows "fs' = fs \<and> (\<forall>p l. r = Inr (p, l) \<longrightarrow> (\<exists>name. fld ''transfer_id'' (fld ''request'' state) = JStr name \<and>
    p = partial_path (work_root pol @ [u ''tasks'', name]) \<and> l = ledger_path (work_root pol @ [u ''tasks'', name])))"
proof -
  have keeps: "task_dir e ts False t fs1 = (q, fs2) \<Longrightarrow> fs2 = fs1" for ts t fs1 fs2 q
    by (auto simp: task_dir_def io_bind_def io_ask_def io_lift_def Let_def dest: ensure_dir_keeps split: prod.splits sum.splits)
  have place: "task_dir e ts False t fs1 = (Inr p, fs2) \<Longrightarrow> fs2 = fs1 \<and> (\<exists>name. t = JStr name \<and> p = store_root ts @ [u ''tasks'', name])" for ts t fs1 fs2 p
    using keeps [of ts t fs1 "Inr p" fs2] by (auto simp: task_dir_def io_iff Let_def store_transfer_id_iff)
  have root: "guest_store e g current owner fs1 = Inr ts \<Longrightarrow> store_root ts = work_root pol" for ts fs1
    using pol by (auto simp: guest_store_def guest_identity_def store_open_def result_iff Let_def store_root_def)
  show ?thesis
  proof (cases r)
    case (Inl x)
    then show ?thesis using assms(1) unfolding ledger_paths_def guest_task_path_def by (auto simp: io_iff dest: keeps)
  next
    case (Inr pl)
    then obtain task ts where t: "guest_store e g current owner fs = Inr ts" "task_dir e ts False (fld ''transfer_id'' (fld ''request'' state)) fs = (Inr task, fs')"
      "pl = (task @ [u ''received.part''], task @ [u ''chunks.jsonl''])"
      using assms(1) unfolding ledger_paths_def guest_task_path_def by (auto simp: io_iff)
    from place [OF t(2)] root [OF t(1)] t(3) Inr show ?thesis by (auto simp: partial_path_def ledger_path_def)
  qed
qed

lemma named_size_equal:
  assumes "py_eq owned (partial_fingerprint state pst lst)" and "is_obj owned"
  shows "named_size owned ''partial'' n \<Longrightarrow> st_size pst = int n" "named_size owned ''ledger'' n \<Longrightarrow> st_size lst = int n"
proof -
  have third: "v = int n" if eq: "py_eq xs (JList [a, b, JInt v, c, d])" and n: "take 1 (drop 2 (elems xs)) = [JInt (int n)]" for xs a b c d v
  proof -
    obtain l where l: "xs = JList l" using n by (cases xs) auto
    with eq obtain l0 l1 l2 l3 l4 where "l = [l0, l1, l2, l3, l4]" "py_eq l2 (JInt v)" by (auto simp: list_all2_Cons2)
    then show ?thesis using n l by simp
  qed
  obtain kvs where owned: "owned = JObj kvs" using assms(2) by (cases owned) auto
  have field: "py_eq (fld k owned) (identity_list st)"
    if k: "elems (fld k owned) \<noteq> []" "k = ''partial'' \<and> st = pst \<or> k = ''ledger'' \<and> st = lst" for k st
  proof -
    from k(1) obtain v where v: "map_of kvs (u k) = Some v" by (auto simp: fld_def owned split: option.splits)
    then have "(u k, v) \<in> set kvs" by (rule map_of_SomeD)
    moreover obtain ys where ys: "partial_fingerprint state pst lst = JObj ys" "map_of ys (u k) = Some (identity_list st)"
      using k(2) by (auto simp: partial_fingerprint_def obj_def)
    moreover from assms(1) have "list_all (\<lambda>(k, v). case map_of ys k of None \<Rightarrow> False | Some w \<Rightarrow> py_eq v w) kvs"
      unfolding owned ys(1) py_eq.simps by blast
    ultimately show ?thesis using v by (auto simp: fld_def owned list_all_iff)
  qed
  show "st_size pst = int n" if "named_size owned ''partial'' n"
  proof (rule third)
    from that show third: "take 1 (drop 2 (elems (fld ''partial'' owned))) = [JInt (int n)]" by (simp only: named_size_def)
    then have "elems (fld ''partial'' owned) \<noteq> []" by auto
    from field [OF this, of pst] show "py_eq (fld ''partial'' owned) (JList [JInt (st_dev pst), JInt (st_ino pst), JInt (st_size pst), JInt (st_mtime_ns pst), JInt (st_ctime_ns pst)])"
      by (simp add: identity_list_def)
  qed
  show "st_size lst = int n" if "named_size owned ''ledger'' n"
  proof (rule third)
    from that show third: "take 1 (drop 2 (elems (fld ''ledger'' owned))) = [JInt (int n)]" by (simp only: named_size_def)
    then have "elems (fld ''ledger'' owned) \<noteq> []" by auto
    from field [OF this, of lst] show "py_eq (fld ''ledger'' owned) (JList [JInt (st_dev lst), JInt (st_ino lst), JInt (st_size lst), JInt (st_mtime_ns lst), JInt (st_ctime_ns lst)])"
      by (simp add: identity_list_def)
  qed
qed

lemma exactly_stats: "exactly d data records fs \<Longrightarrow> regular_stat fs (partial_path d) = Some pst \<Longrightarrow> st_size pst = int (length data)"
  "exactly d data records fs \<Longrightarrow> regular_stat fs (ledger_path d) = Some lst \<Longrightarrow> st_size lst = int (length records)"
  by (auto simp: exactly_def plain_file_def regular_stat_def bytes_at_def split: option.splits node.splits)

definition identity_only :: "json \<Rightarrow> json \<Rightarrow> bool" where
  "identity_only state state' \<longleftrightarrow> state' = state \<or> (\<exists>pst lst. state' = set_key ''partial_identity'' (partial_fingerprint state pst lst) state)"

lemma identity_only_intros [simp]: "identity_only state state" "identity_only state (set_key ''partial_identity'' (partial_fingerprint state pst lst) state)"
  unfolding identity_only_def by blast+

lemma trim_triple:
  assumes X: "steady d X" and ack: "counted state cs" and budget: "budget_check b (env_now e) = Inr ()"
    and sizes: "st_size pst = int (length (concat cs @ rest))" "st_size lst = int (length (ledger_lines 0 cs @ tail))"
  shows "triple (\<lambda>fs. X fs \<and> exactly d (concat cs @ rest) (ledger_lines 0 cs @ tail) fs)
    (trim_partial e ls b short_call state (partial_path d) (ledger_path d) pst lst)
    (\<lambda>x fs. X fs \<and> exactly d (concat cs) (ledger_lines 0 cs) fs \<and> identity_only state (snd x)) (safe d X cs)"
proof -
  let ?P = "\<lambda>fs. X fs \<and> exactly d (concat cs @ rest) (ledger_lines 0 cs @ tail) fs"
  let ?replayed = "(int (length (concat cs)), ledger_lines 0 cs)"
  have off: "int_of (fld ''offset'' state) = int (length (concat cs))" "nat (int_of (fld ''chunk_count'' state)) = length cs"
    and good: "good_chunks (request_budget state ''max_chunk_bytes'') cs"
    using ack by (simp_all add: counted_def)
  have fail: "?P fs \<Longrightarrow> safe d X cs fs" "X fs \<and> exactly d (concat cs) (ledger_lines 0 cs @ tail) fs \<Longrightarrow> safe d X cs fs"
    "X fs \<and> exactly d (concat cs) (ledger_lines 0 cs) fs \<Longrightarrow> safe d X cs fs" for fs
    using safe_exactly [of X fs d cs rest tail] safe_exactly [of X fs d cs "[]" tail] safe_exactly [of X fs d cs "[]" "[]"] by simp_all
  have rep: "triple ?P (io_ask (\<lambda>fs. replay_records e b (request_budget state ''max_chunk_bytes'') (length cs) (bytes_at fs (partial_path d)) (bytes_at fs (ledger_path d)) 0 []))
      (\<lambda>x fs. x = ?replayed \<and> ?P fs) (safe d X cs)"
  proof (rule tripleI)
    have r: "replay_records e b (request_budget state ''max_chunk_bytes'') (length cs) (concat cs @ rest) (ledger_lines 0 cs @ tail) 0 [] = Inr ?replayed"
      using replay_ledger [OF budget, of cs "request_budget state ''max_chunk_bytes''" 0 rest tail "[]"] good by (simp add: good_chunks_def)
    show "x = ?replayed \<and> ?P fs'" if "?P fs" "io_ask (\<lambda>fs. replay_records e b (request_budget state ''max_chunk_bytes'') (length cs) (bytes_at fs (partial_path d))
        (bytes_at fs (ledger_path d)) 0 []) fs = (Inr x, fs')" for fs x fs' using that r by (auto simp: io_iff exactly_def)
  qed (auto simp: io_iff intro: fail(1))
  have cut1: "triple ?P (if int (length (concat cs)) < st_size pst then truncate_file (lucky e (ls 0)) (partial_path d) (length (concat cs)) else io_lift (Inr ()))
      (\<lambda>_ fs. X fs \<and> exactly d (concat cs) (ledger_lines 0 cs @ tail) fs) (safe d X cs)"
    using sizes(1) by (intro triple_if truncate_partial [OF X]) (auto intro: triple_return)
  have cut2: "triple (\<lambda>fs. X fs \<and> exactly d (concat cs) (ledger_lines 0 cs @ tail) fs)
      (if int (length (ledger_lines 0 cs)) < st_size lst then truncate_file (lucky e (ls 1)) (ledger_path d) (length (ledger_lines 0 cs)) else io_lift (Inr ()))
      (\<lambda>_ fs. X fs \<and> exactly d (concat cs) (ledger_lines 0 cs) fs) (safe d X cs)"
    using sizes(2) by (intro triple_if truncate_ledger [OF X]) (auto intro: triple_return)
  have last_step: "triple (\<lambda>fs. X fs \<and> exactly d (concat cs) (ledger_lines 0 cs) fs)
      (io_ask (\<lambda>fs. case (regular_stat fs (partial_path d), regular_stat fs (ledger_path d)) of
          (Some pst', Some lst') \<Rightarrow> Inr (JStr (sha256_hex (ledger_lines 0 cs)), set_key ''partial_identity'' (partial_fingerprint state pst' lst') state)
        | _ \<Rightarrow> Inl source_unavailable))
      (\<lambda>x fs. X fs \<and> exactly d (concat cs) (ledger_lines 0 cs) fs \<and> identity_only state (snd x)) (safe d X cs)"
    by (rule tripleI) (auto simp: io_iff split: option.splits intro: fail(3))
  show ?thesis
    unfolding trim_partial_def off Let_def
    apply (rule triple_check, erule fail(1))+
    apply (rule triple_bind [OF rep])
    apply (clarsimp simp only: split_paired_all prod.case)
    apply (rule triple_pure)
    apply (clarsimp simp only: prod.inject nat_int)
    apply (rule triple_check, erule fail(1))+
    apply (rule triple_bind [OF cut1])
    apply (rule triple_bind [OF cut2])
    apply (rule last_step [unfolded prod.case])
    done
qed

text \<open>The files before the replay: the ones that the state owns.\<close>

lemma check_partial_files:
  assumes "check_partial e pol state (partial_path d) (ledger_path d) fs = Inr (pst, lst)" and "safe d X cs fs"
  shows "\<exists>rest tail. X fs \<and> exactly d (concat cs @ rest) (ledger_lines 0 cs @ tail) fs \<and> st_size pst = int (length (concat cs @ rest)) \<and>
    st_size lst = int (length (ledger_lines 0 cs @ tail)) \<and> is_obj (fld ''partial_identity'' state)"
proof -
  from assms(1) have f: "regular_stat fs (partial_path d) = Some pst" "regular_stat fs (ledger_path d) = Some lst" "is_obj (fld ''partial_identity'' state)"
    by (auto simp: check_partial_def result_iff Let_def split: option.splits)
  then obtain bs bs' where l: "lookup fs (partial_path d) = Some (FileN pst bs)" "lookup fs (ledger_path d) = Some (FileN lst bs')"
    by (auto simp: regular_stat_def split: option.splits node.splits)
  from assms(2) obtain rest tail where h: "X fs" "bytes_at fs (partial_path d) = concat cs @ rest" "bytes_at fs (ledger_path d) = ledger_lines 0 cs @ tail"
    and sz: "sized d fs" by (auto simp: safe_def held_def)
  with l f(3) show ?thesis by (auto simp: exactly_def plain_file_def sized_def bytes_at_def)
qed

lemma restore_triple:
  assumes X: "steady d X" and ack: "counted state cs" "named state cs" and budget: "budget_check b (env_now e) = Inr ()"
  shows "triple (safe d X cs) (restore_partial e ls pol b force short_call state (partial_path d) (ledger_path d))
    (\<lambda>x fs. X fs \<and> exactly d (concat cs) (ledger_lines 0 cs) fs \<and> identity_only state (snd x)) (safe d X cs)"
proof -
  have step: "triple (\<lambda>fs. safe d X cs fs \<and> check_partial e pol state (partial_path d) (ledger_path d) fs = Inr (pst, lst))
     (if \<not> force \<and> py_eq (fld ''partial_identity'' state) (partial_fingerprint state pst lst) then io_lift (Inr (JNull, state))
      else trim_partial e ls b short_call state (partial_path d) (ledger_path d) pst lst)
     (\<lambda>x fs. X fs \<and> exactly d (concat cs) (ledger_lines 0 cs) fs \<and> identity_only state (snd x)) (safe d X cs)" for pst lst
  proof (rule triple_use [OF triple_ex [OF triple_ex [OF triple_pure]]])
    fix s assume "safe d X cs s \<and> check_partial e pol state (partial_path d) (ledger_path d) s = Inr (pst, lst)"
    then show "\<exists>rest tail. (st_size pst = int (length (concat cs @ rest)) \<and> st_size lst = int (length (ledger_lines 0 cs @ tail)) \<and> is_obj (fld ''partial_identity'' state)) \<and>
        X s \<and> exactly d (concat cs @ rest) (ledger_lines 0 cs @ tail) s" using check_partial_files by blast
  next
    fix rest tail
    assume s: "st_size pst = int (length (concat cs @ rest)) \<and> st_size lst = int (length (ledger_lines 0 cs @ tail)) \<and> is_obj (fld ''partial_identity'' state)"
    show "triple (\<lambda>fs. X fs \<and> exactly d (concat cs @ rest) (ledger_lines 0 cs @ tail) fs)
      (if \<not> force \<and> py_eq (fld ''partial_identity'' state) (partial_fingerprint state pst lst) then io_lift (Inr (JNull, state))
       else trim_partial e ls b short_call state (partial_path d) (ledger_path d) pst lst)
      (\<lambda>x fs. X fs \<and> exactly d (concat cs) (ledger_lines 0 cs) fs \<and> identity_only state (snd x)) (safe d X cs)"
    proof (rule triple_if)
      assume eq: "\<not> force \<and> py_eq (fld ''partial_identity'' state) (partial_fingerprint state pst lst)"
      from s ack(2) have "named_size (fld ''partial_identity'' state) ''partial'' (length (concat cs))" "named_size (fld ''partial_identity'' state) ''ledger'' (length (ledger_lines 0 cs))"
        by (auto simp: named_def)
      then have "st_size pst = int (length (concat cs))" "st_size lst = int (length (ledger_lines 0 cs))"
        using named_size_equal [OF conjunct2 [OF eq]] s by blast+
      with s have "rest = []" "tail = []" by simp_all
      then show "triple (\<lambda>fs. X fs \<and> exactly d (concat cs @ rest) (ledger_lines 0 cs @ tail) fs) (io_lift (Inr (JNull, state)))
        (\<lambda>x fs. X fs \<and> exactly d (concat cs) (ledger_lines 0 cs) fs \<and> identity_only state (snd x)) (safe d X cs)"
        by (auto intro: triple_return)
    qed (use trim_triple [OF X ack(1) budget] s in blast)
  qed
  show ?thesis
    unfolding restore_partial_def
    by (rule triple_bind [OF triple_ask]) (use step in \<open>auto simp: split_paired_all\<close>)
qed

lemma verified_triple:
  assumes X: "steady d X" and ack: "counted state cs" "named state cs" and pol: "g_policy g = Some pol"
    and d: "d = work_root pol @ [u ''tasks'', name]" and name: "fld ''transfer_id'' (fld ''request'' state) = JStr name"
  shows "triple (safe d X cs) (verified_partial e ls g pol current owner b force short_call state)
    (\<lambda>x fs. X fs \<and> exactly d (concat cs) (ledger_lines 0 cs) fs \<and> identity_only state (snd x)) (safe d X cs)"
  unfolding verified_partial_def
proof (rule triple_check)
  fix x assume budget: "budget_check b (env_now e) = Inr x"
  have paths: "triple (safe d X cs) (ledger_paths e g current owner state) (\<lambda>pl fs. pl = (partial_path d, ledger_path d) \<and> safe d X cs fs) (safe d X cs)"
  proof (rule tripleI)
    fix fs x fs' assume "safe d X cs fs" "ledger_paths e g current owner state fs = (Inr x, fs')"
    then show "x = (partial_path d, ledger_path d) \<and> safe d X cs fs'" using ledger_paths_place [OF _ pol, of e current owner state fs "Inr x" fs'] name d by (cases x) auto
  next
    fix fs x fs' assume "safe d X cs fs" "ledger_paths e g current owner state fs = (Inl x, fs')"
    then show "safe d X cs fs'" using ledger_paths_place [OF _ pol, of e current owner state fs "Inl x" fs'] by auto
  qed
  have body: "triple (safe d X cs) (\<lambda>fs. if no_partial state (partial_path d) (ledger_path d) fs then (Inr (JStr (sha256_hex []), state), fs)
       else restore_partial e ls pol b force short_call state (partial_path d) (ledger_path d) fs)
     (\<lambda>x fs. X fs \<and> exactly d (concat cs) (ledger_lines 0 cs) fs \<and> identity_only state (snd x)) (safe d X cs)"
  proof -
    have none: "X fs \<and> exactly d (concat cs) (ledger_lines 0 cs) fs" if "safe d X cs fs" "no_partial state (partial_path d) (ledger_path d) fs" for fs
    proof -
      have "cs = []" using that(2) ack(1) by (simp add: no_partial_def counted_def)
      with that show ?thesis by (simp add: safe_def no_partial_def exactly_def plain_file_def bytes_at_def)
    qed
    show ?thesis
    proof (rule tripleI)
      fix fs x fs' assume s: "safe d X cs fs" and r: "(if no_partial state (partial_path d) (ledger_path d) fs then (Inr (JStr (sha256_hex []), state), fs)
        else restore_partial e ls pol b force short_call state (partial_path d) (ledger_path d) fs) = (Inr x, fs')"
      show "X fs' \<and> exactly d (concat cs) (ledger_lines 0 cs) fs' \<and> identity_only state (snd x)"
        using r none [OF s] triple_Inr [OF restore_triple [OF X ack] s] budget by (auto split: if_splits)
    next
      fix fs x fs' assume s: "safe d X cs fs" and r: "(if no_partial state (partial_path d) (ledger_path d) fs then (Inr (JStr (sha256_hex []), state), fs)
        else restore_partial e ls pol b force short_call state (partial_path d) (ledger_path d) fs) = (Inl x, fs')"
      then show "safe d X cs fs'"
        using triple_Inl [OF restore_triple [OF X ack] s] budget by (auto split: if_splits)
    qed
  qed
  show "triple (safe d X cs)
     (io_bind (ledger_paths e g current owner state) (\<lambda>(partial, ledger) fs. if no_partial state partial ledger fs then (Inr (JStr (sha256_hex []), state), fs)
       else restore_partial e ls pol b force short_call state partial ledger fs))
     (\<lambda>x fs. X fs \<and> exactly d (concat cs) (ledger_lines 0 cs) fs \<and> identity_only state (snd x)) (safe d X cs)"
    by (rule triple_bind [OF paths], rule triple_pure) (use body in simp)
qed

end
