(* ===== verification/Receive_Safety.thy ===== *)
theory Receive_Safety
  imports Receive_Facts
begin

text \<open>
  Receiving a chunk with a failure at any system call: no chunk that a stored state acknowledges is lost.
\<close>

section \<open>Values that can be written\<close>

definition clean :: "(pystr \<Rightarrow> pyfloat) \<Rightarrow> json \<Rightarrow> bool" where
  "clean pf v \<longleftrightarrow> wf_json v \<and> floats_ok pf v"

lemma clean_leaf [simp]: "clean pf JNull" "clean pf (JInt i)" "clean pf (JBool t)" "clean pf (JStr (u k))" "clean pf (JStr s) \<longleftrightarrow> wf_str s"
  "clean pf (JList vs) \<longleftrightarrow> list_all (clean pf) vs"
  by (auto simp: clean_def list_all_iff)

lemma clean_obj: "clean pf (obj kvs) \<longleftrightarrow> distinct (map fst kvs) \<and> list_all (\<lambda>(k, v). clean pf v) kvs"
  unfolding clean_def wf_json_obj by (auto simp: obj_def list_all_iff)

lemma clean_fld: "clean pf v \<Longrightarrow> clean pf (fld k v)"
  by (cases v) (auto simp: clean_def fld_def list_all_iff dest: map_of_SomeD split: option.splits)

lemma clean_set_key: "clean pf v \<Longrightarrow> clean pf s \<Longrightarrow> clean pf (set_key k v s)"
proof (cases s)
  case (JObj kvs)
  have "(x, y) \<in> set (AList.update a v kvs) \<Longrightarrow> y = v \<and> x = a \<or> (x, y) \<in> set kvs" for x y a
    by (induction kvs) (auto split: if_splits)
  then show "clean pf v \<Longrightarrow> clean pf s \<Longrightarrow> clean pf (set_key k v s)"
    unfolding JObj by (fastforce simp: clean_def list_all_iff distinct_update)
qed simp_all

lemma clean_set_default: "clean pf v \<Longrightarrow> clean pf s \<Longrightarrow> clean pf (set_default k v s)"
  by (auto simp: set_default_def clean_set_key split: option.splits)

lemma is_obj_set_key [simp]: "is_obj (set_key k v s) = is_obj s"
  by (cases s) auto

lemma fld_set_key: "is_obj s \<Longrightarrow> fld k (set_key j v s) = (if k = j then v else fld k s)"
  by (cases s) (auto simp: fld_def update_conv')

lemma fld_set_default: "k \<noteq> j \<Longrightarrow> fld k (set_default j v s) = fld k s"
  by (cases s) (auto simp: set_default_def fld_def update_conv' split: option.splits)

lemma clean_writes: "writes_ok e ts t b l s \<Longrightarrow> clean (env_pf e) s' \<Longrightarrow> writes_ok e ts t b l s'"
proof -
  assume ok: "writes_ok e ts t b l s" and s': "clean (env_pf e) s'"
  have split_fields: "clean (env_pf e) (obj (envelope_fields ts t b 0 x)) \<longleftrightarrow> clean (env_pf e) (obj (envelope_fields ts t b 0 JNull)) \<and> clean (env_pf e) x" for x
    by (auto simp: clean_obj envelope_fields_def)
  from ok have "clean (env_pf e) (obj (envelope_fields ts t b 0 s))" by (simp add: writes_ok_def clean_def)
  with s' split_fields [of s] split_fields [of s'] have "clean (env_pf e) (obj (envelope_fields ts t b 0 s'))" by blast
  with ok show ?thesis by (simp add: writes_ok_def clean_def)
qed

lemma writes_clean: "writes_ok e ts t b l s \<Longrightarrow> clean (env_pf e) s \<and> clean (env_pf e) b"
proof -
  assume "writes_ok e ts t b l s"
  then have "clean (env_pf e) (obj (envelope_fields ts t b 0 s))" by (simp add: writes_ok_def clean_def)
  then show ?thesis by (simp add: clean_obj envelope_fields_def)
qed

section \<open>States after a chunk\<close>

lemma fingerprint_sizes:
  assumes "exactly d data records fs" and "fingerprint_now state (partial_path d) (ledger_path d) fs = Inr key" and "clean pf state"
  shows "named_size key ''partial'' (length data) \<and> named_size key ''ledger'' (length records) \<and> clean pf key"
proof -
  from assms(2) obtain pst lst where st: "stat_of fs (partial_path d) = Inr pst" "stat_of fs (ledger_path d) = Inr lst"
    and key: "key = partial_fingerprint state pst lst" by (auto simp: fingerprint_now_def rbind_Inr_iff)
  from assms(1) st have "st_size pst = int (length data)" "st_size lst = int (length records)"
    by (auto simp: exactly_def plain_file_def stat_of_def no_link_def bytes_at_def)
  then show ?thesis using clean_fld [OF assms(3)]
    by (simp add: key partial_fingerprint_def named_size_def identity_list_def clean_obj)
qed

lemma acknowledges_sort: "acknowledges s cs \<Longrightarrow> acknowledges (sort_json s) cs"
proof -
  assume a: "acknowledges s cs"
  then have wf: "wf_json s" "wf_json (fld k s)" "wf_json (fld k (fld j s))" for k j by (simp_all add: acknowledges_def wf_fld)
  have fs: "fld k (sort_json s) = sort_json (fld k s)" "fld k (sort_json (fld j s)) = sort_json (fld k (fld j s))"
    "fld k (sort_json (fld j (fld i s))) = sort_json (fld k (fld j (fld i s)))" for k j i
    using wf by (simp_all add: fld_sort_json)
  have iv: "int_of (sort_json v) = int_of v" for v by (cases v) auto
  have ns: "named_size (fld ''partial_identity'' s) k n \<Longrightarrow> named_size (sort_json (fld ''partial_identity'' s)) k n" for k n
    by (auto simp: named_size_def fs elems_sort_json drop_map take_map)
  have "sort_json v = JNull \<longleftrightarrow> v = JNull" for v by (cases v) auto
  with a ns show ?thesis
    by (auto simp: acknowledges_def counted_def named_def request_budget_def fs iv sort_json_invariants)
qed

text \<open>The fields that a state must keep for its chunks.\<close>

lemma acknowledges_renamed:
  assumes "counted state cs" "is_obj state" "clean pf state" "clean pf key" "named_size key ''partial'' (length (concat cs))" "named_size key ''ledger'' (length (ledger_lines 0 cs))"
  shows "acknowledges (set_key ''partial_identity'' key (set_key ''prefix_verification'' JNull state)) cs"
    "acknowledges (set_key ''partial_identity'' key state) cs"
  using assms clean_set_key [of pf key state] clean_set_key [of pf key "set_key ''prefix_verification'' JNull state"] clean_set_key [of pf JNull state]
  by (simp_all add: acknowledges_def counted_def named_def request_budget_def fld_set_key clean_def)

lemma acknowledges_unproven: "acknowledges s cs \<Longrightarrow> is_obj s \<Longrightarrow> acknowledges (set_key ''prefix_verification'' JNull s) cs"
  using clean_set_key [of "\<lambda>_. FloatNan" JNull s]
proof -
  assume a: "acknowledges s cs" "is_obj s"
  have "wf_json (set_key k JNull s)" for k
  proof (cases s)
    case (JObj kvs)
    have "(x, y) \<in> set (AList.update c JNull kvs) \<Longrightarrow> y = JNull \<and> x = c \<or> (x, y) \<in> set kvs" for x y c
      by (induction kvs) (auto split: if_splits)
    then show ?thesis using a(1) unfolding JObj by (fastforce simp: acknowledges_def list_all_iff distinct_update)
  qed (use a in \<open>simp_all add: acknowledges_def\<close>)
  then show ?thesis using a by (simp add: acknowledges_def counted_def named_def request_budget_def fld_set_key)
qed

lemma counted_next:
  assumes "counted state cs" "is_obj state" "data \<noteq> []" "int (length data) \<le> request_budget state ''max_chunk_bytes''" "small (length (concat cs) + length data)"
    and acc: "chunk_accepted pol state (int (length data)) = Inr s2"
  shows "counted s2 (cs @ [data]) \<and> is_obj s2 \<and> fld ''offset'' s2 = JInt (int (length (concat (cs @ [data]))))"
proof -
  let ?s1 = "set_key ''chunk_count'' (JInt (int_of (fld ''chunk_count'' state) + 1)) (set_key ''offset'' (JInt (int_of (fld ''offset'' state) + int (length data))) state)"
  have keep: "fld ''offset'' s2 = fld ''offset'' ?s1 \<and> fld ''chunk_count'' s2 = fld ''chunk_count'' ?s1 \<and> fld ''request'' s2 = fld ''request'' ?s1 \<and> is_obj s2"
    using acc assms(2) by (auto simp: chunk_accepted_def Let_def rbind_Inr_iff fld_set_key split: if_splits)
  then show ?thesis using assms(1-5)
    by (auto simp: counted_def request_budget_def good_chunks_def fld_set_key)
qed

lemma clean_next:
  assumes "clean pf state" "is_obj state" "wf_str (policy_id pol)" "chunk_accepted pol state n = Inr s2"
  shows "clean pf s2"
proof -
  have snap: "clean pf (snapshot t)" if "guest_terminal b dest = Inr t" "clean pf b" "clean pf dest" for b dest t
    using that by (auto simp: guest_terminal_def rbind_Inr_iff result_iff snapshot_def clean_obj auth_json_def Let_def)
  have bind: "clean pf (protocol_binding pol q p)" if "clean pf q" "clean pf p" for q p
    using that assms(3) by (simp add: protocol_binding_def Let_def clean_obj clean_fld protocol_version_def)
  let ?s1 = "set_key ''chunk_count'' (JInt (int_of (fld ''chunk_count'' state) + 1)) (set_key ''offset'' (JInt (int_of (fld ''offset'' state) + n)) state)"
  have s1: "clean pf ?s1" using assms(1) by (simp add: clean_set_key)
  have parts: "fld ''chunk_count'' (set_key ''offset'' v state) = fld ''chunk_count'' state" for v using assms(2) by (simp add: fld_set_key)
  show ?thesis
    using assms(4) s1 snap bind by (auto simp: chunk_accepted_def Let_def rbind_Inr_iff parts clean_set_key clean_fld request_of_def split: if_splits)
qed

section \<open>Saving the state of a task\<close>

definition stored_as :: "env \<Rightarrow> task_store \<Rightarrow> pystr \<Rightarrow> json \<Rightarrow> json \<Rightarrow> node \<Rightarrow> bool" where
  "stored_as e ts name b s fs \<longleftrightarrow> (\<exists>S. stored_load e ts (JStr name) b fs = Inr S \<and> fld ''state'' S = s)"

lemma stored_as_steady:
  assumes "\<forall>p \<in> watched (store_policy ts). \<not> within part_names (task_place ts name) p"
  shows "steady (task_place ts name) (stored_as e ts name b s)"
  unfolding steady_for_def stored_as_def using load_spares [OF _ _ assms] by blast

definition saved_form :: "json \<Rightarrow> json" where
  "saved_form s = (if failed_state s = Inr True then set_key ''prefix_verification'' JNull s else s)"

definition names_task :: "json \<Rightarrow> pystr \<Rightarrow> json \<Rightarrow> bool" where
  "names_task envelope name b \<longleftrightarrow> fld ''transfer_id'' envelope = JStr name \<and> fld ''binding'' envelope = b \<and> (\<exists>n. fld ''revision'' envelope = JInt n)"

lemma save_triple:
  assumes ok: "writes_ok e ts (JStr name) b l s" and obj: "is_obj s" and fresh: "names_task fresh name b"
  shows "triple (\<lambda>fs. stored_as e ts name b old fs \<and> exactly (task_place ts name) data records fs) (guest_save (lucky e l) ts fresh s)
    (\<lambda>v fs. names_task v name b \<and> stored_as e ts name b (sort_json (saved_form s)) fs \<and> exactly (task_place ts name) data records fs)
    (\<lambda>fs. (stored_as e ts name b old fs \<or> stored_as e ts name b (sort_json (saved_form s)) fs) \<and> exactly (task_place ts name) data records fs)"
proof -
  let ?d = "task_place ts name"
  have calm: "calm (env_world (lucky e l))" using ok by (simp add: writes_ok_def)
  from fresh obtain n where n: "fld ''transfer_id'' fresh = JStr name" "fld ''binding'' fresh = b" "fld ''revision'' fresh = JInt n"
    by (auto simp: names_task_def)
  have ok': "writes_ok e ts (JStr name) b l (saved_form s)"
    using clean_writes [OF ok] writes_clean [OF ok] clean_set_key [of "env_pf e" JNull s] by (auto simp: saved_form_def)
  have save: "guest_save (lucky e l) ts fresh s fs = (r, fs') \<Longrightarrow> (r, fs') = (r, fs) \<and> (\<exists>x. r = Inl x) \<or> stored_save e ts (JStr name) b l n (saved_form s) fs = (r, fs')" for fs r fs'
    by (cases "failed_state s") (auto simp: guest_save_def io_bind_def io_lift_def n stored_save_def saved_form_def)
  have files: "exactly ?d data records fs'" if "exactly ?d data records fs" "stored_save e ts (JStr name) b l n (saved_form s) fs = (r, fs')" for fs r fs'
  proof -
    note sp = save_spares [OF calm that(2) [unfolded stored_save_def]]
    show ?thesis
      using that(1) spares_sibling(1,2) [OF sp, of "u ''received.part''"] spares_sibling(1,2) [OF sp, of "u ''chunks.jsonl''"]
      by (simp add: exactly_def partial_path_def ledger_path_def)
  qed
  have outcome: "stored_as e ts name b (sort_json (saved_form s)) fs' \<or> stored_as e ts name b old fs'"
    if st: "stored_as e ts name b old fs" and run: "stored_save e ts (JStr name) b l n (saved_form s) fs = (r, fs')" for fs r fs'
  proof -
    from st obtain S where S: "stored_load e ts (JStr name) b fs = Inr S" "fld ''state'' S = old" by (auto simp: stored_as_def)
    from stored_outcome [OF ok' S(1) run] obtain eff new where "stored_load e ts (JStr name) b fs' = Inr new"
      "if eff then envelope_revision S = n \<and> envelope_revision new = n + 1 \<and> fld ''state'' new = sort_json (saved_form s) else new = S" by blast
    then show ?thesis using S(2) by (auto simp: stored_as_def split: if_splits)
  qed
  show ?thesis
  proof (rule tripleI)
    fix fs v fs' assume pre: "stored_as e ts name b old fs \<and> exactly ?d data records fs" and run: "guest_save (lucky e l) ts fresh s fs = (Inr v, fs')"
    from save [OF run] have st: "stored_save e ts (JStr name) b l n (saved_form s) fs = (Inr v, fs')" by simp
    from stored_loads [OF ok' st] have v: "wf_json v" "fld ''state'' v = saved_form s" "fld ''revision'' v = JInt (n + 1)" "fld ''transfer_id'' v = JStr name"
      "fld ''binding'' v = b" "stored_load e ts (JStr name) b fs' = Inr (sort_json v)" by simp_all
    then have "stored_as e ts name b (sort_json (saved_form s)) fs'" by (auto simp: stored_as_def fld_sort_json)
    with v files [OF _ st] pre show "names_task v name b \<and> stored_as e ts name b (sort_json (saved_form s)) fs' \<and> exactly ?d data records fs'"
      by (simp add: names_task_def)
  next
    fix fs x fs' assume pre: "stored_as e ts name b old fs \<and> exactly ?d data records fs" and run: "guest_save (lucky e l) ts fresh s fs = (Inl x, fs')"
    from save [OF run] show "(stored_as e ts name b old fs' \<or> stored_as e ts name b (sort_json (saved_form s)) fs') \<and> exactly ?d data records fs'"
      using pre outcome files by blast
  qed
qed

section \<open>The files of a new task\<close>

lemma sidecar_triple:
  assumes calm: "calm (env_world e)" and X: "steady_for [x] d X"
  shows "triple (\<lambda>fs. X fs \<and> file_is (d @ [x]) [] fs) (atomic_sidecar e pol (d @ [x]) [] maximum)
    (\<lambda>_ fs. X fs \<and> file_is (d @ [x]) [] fs) (\<lambda>fs. X fs \<and> file_is (d @ [x]) [] fs)"
proof -
  have made: "X fs1 \<and> file_is (d @ [x]) [] fs1" if "X fs" "put_node (env_world e) (d @ [x]) (new_file e (d @ [x]) []) fs = Some fs1" for fs fs1
  proof -
    have "spares [x] d fs fs1" using put_node_agree [OF calm that(2)] by (simp add: spares_def)
    then have "X fs1" using X that(1) unfolding steady_for_def by blast
    then show ?thesis using put_node_lookup(1) [OF that(2)] by (simp add: file_is_def plain_file_def bytes_at_def new_file_def)
  qed
  have step: "X fs' \<and> file_is (d @ [x]) [] fs'" if "X fs" "file_is (d @ [x]) [] fs" "atomic_sidecar e pol (d @ [x]) [] maximum fs = (r, fs')" for fs r fs'
    using that made
    by (auto simp: atomic_sidecar_def io_bind_def io_lift_def io_ask_def split: sum.splits prod.splits if_splits fault.splits option.splits)
  show ?thesis by (rule tripleI) (use step in blast)+
qed

lemma make_sidecars_triple:
  assumes calm: "calm (env_world e)" and X: "steady d X" and good: "\<forall>c \<in> set cs. c \<noteq> []"
  shows "triple (\<lambda>fs. X fs \<and> exactly d (concat cs) (ledger_lines 0 cs) fs) (make_sidecars e ls pol state (partial_path d) (ledger_path d))
    (\<lambda>_ fs. X fs \<and> exactly d (concat cs) (ledger_lines 0 cs) fs) (\<lambda>fs. X fs \<and> exactly d (concat cs) (ledger_lines 0 cs) fs)"
proof -
  let ?P = "\<lambda>fs. X fs \<and> exactly d (concat cs) (ledger_lines 0 cs) fs"
  have empty: "concat cs = [] \<Longrightarrow> cs = []" using good by (cases cs) auto
  have new: "triple (\<lambda>fs. X fs \<and> exactly d [] [] fs) (io_bind (atomic_sidecar (lucky e (ls 2)) pol (partial_path d) [] m1) (\<lambda>_.
      atomic_sidecar (lucky e (ls 3)) pol (ledger_path d) [] m2)) (\<lambda>_ fs. X fs \<and> exactly d [] [] fs) (\<lambda>fs. X fs \<and> exactly d [] [] fs)" for m1 m2
  proof (rule triple_bind)
    have a: "steady_for [u ''received.part''] d (\<lambda>fs. X fs \<and> file_is (d @ [u ''chunks.jsonl'']) [] fs)" by (rule steady_beside [OF X]) simp_all
    have b: "steady_for [u ''chunks.jsonl''] d (\<lambda>fs. X fs \<and> file_is (d @ [u ''received.part'']) [] fs)" by (rule steady_beside [OF X]) simp_all
    show "triple (\<lambda>fs. X fs \<and> exactly d [] [] fs) (atomic_sidecar (lucky e (ls 2)) pol (partial_path d) [] m1) (\<lambda>_ fs. X fs \<and> exactly d [] [] fs) (\<lambda>fs. X fs \<and> exactly d [] [] fs)"
      by (rule triple_weaken [OF sidecar_triple [OF _ a, of "lucky e (ls 2)" pol m1, folded partial_path_def ledger_path_def]])
        (auto simp: exactly_iff calm partial_path_def ledger_path_def)
    show "triple (\<lambda>fs. X fs \<and> exactly d [] [] fs) (atomic_sidecar (lucky e (ls 3)) pol (ledger_path d) [] m2) (\<lambda>_ fs. X fs \<and> exactly d [] [] fs) (\<lambda>fs. X fs \<and> exactly d [] [] fs)"
      by (rule triple_weaken [OF sidecar_triple [OF _ b, of "lucky e (ls 3)" pol m2, folded partial_path_def ledger_path_def]])
        (auto simp: exactly_iff calm partial_path_def ledger_path_def)
  qed
  show ?thesis
    unfolding make_sidecars_def
  proof (rule triple_bind [OF triple_ask])
    fix present
    show "triple (\<lambda>fs. ?P fs \<and> Inr (path_exists fs (partial_path d)) = Inr present)
      (if present then io_lift (Inr ()) else io_bind (atomic_sidecar (lucky e (ls 2)) pol (partial_path d) [] (request_budget state ''max_package_bytes''))
        (\<lambda>_. atomic_sidecar (lucky e (ls 3)) pol (ledger_path d) [] (request_budget state ''max_metadata_bytes''))) (\<lambda>_. ?P) ?P"
    proof (rule triple_if)
      show "triple (\<lambda>fs. ?P fs \<and> Inr (path_exists fs (partial_path d)) = Inr present) (io_lift (Inr ())) (\<lambda>_. ?P) ?P"
        by (rule triple_return) simp
    next
      assume np: "\<not> present"
      have none: "cs = []" if "?P fs \<and> Inr (path_exists fs (partial_path d)) = Inr present" for fs
        using np that empty by (auto simp: exactly_def plain_file_def bytes_at_def path_exists_def)
      show "triple (\<lambda>fs. ?P fs \<and> Inr (path_exists fs (partial_path d)) = Inr present)
        (io_bind (atomic_sidecar (lucky e (ls 2)) pol (partial_path d) [] (request_budget state ''max_package_bytes''))
        (\<lambda>_. atomic_sidecar (lucky e (ls 3)) pol (ledger_path d) [] (request_budget state ''max_metadata_bytes''))) (\<lambda>_. ?P) ?P"
      proof (cases "cs = []")
        case True
        show ?thesis by (rule triple_weaken [OF new]) (simp_all add: True)
      qed (use none in \<open>unfold triple_def, blast\<close>)
    qed
  qed simp
qed

section \<open>No acknowledged chunk is lost\<close>

text \<open>The task is stored with a state that acknowledges the chunks, and the files hold them.\<close>

definition keeps_chunks :: "env \<Rightarrow> task_store \<Rightarrow> pystr \<Rightarrow> json \<Rightarrow> byte list list \<Rightarrow> node \<Rightarrow> bool" where
  "keeps_chunks e ts name b cs fs \<longleftrightarrow> (\<exists>s. stored_as e ts name b s fs \<and> acknowledges s cs) \<and>
     held (task_place ts name) cs fs \<and> sized (task_place ts name) fs"

lemma keeps_exactly: "stored_as e ts name b s fs \<Longrightarrow> acknowledges s cs \<Longrightarrow>
    exactly (task_place ts name) (concat cs @ rest) (ledger_lines 0 cs @ tail) fs \<Longrightarrow> keeps_chunks e ts name b cs fs"
  using exactly_held unfolding keeps_chunks_def by blast

lemma saved_form_acknowledges: "acknowledges s cs \<Longrightarrow> is_obj s \<Longrightarrow> acknowledges (sort_json (saved_form s)) cs"
  by (simp add: saved_form_def acknowledges_sort acknowledges_unproven)

lemma write_at_end:
  assumes "steady d X" and "offset = length A"
  shows "triple (\<lambda>fs. X fs \<and> exactly d A R fs) (write_at e (partial_path d) offset data)
    (\<lambda>_ fs. X fs \<and> exactly d (A @ data) R fs) (\<lambda>fs. X fs \<and> (\<exists>k. exactly d (A @ take k data) R fs))"
  unfolding write_at_def by (rule triple_weaken [OF edit_partial [OF assms(1)]]) (auto simp: assms(2) intro: exI [of _ 0])

lemma append_at_end:
  assumes "steady d X"
  shows "triple (\<lambda>fs. X fs \<and> exactly d A R fs) (append_file e (ledger_path d) line)
    (\<lambda>_ fs. X fs \<and> exactly d A (R @ line) fs) (\<lambda>fs. X fs \<and> (\<exists>k. exactly d A (R @ take k line) fs))"
  unfolding append_file_def by (rule triple_weaken [OF edit_ledger [OF assms]]) (auto intro: exI [of _ 0])

lemma fingerprint_triple:
  assumes "clean pf state" and "\<And>fs. X fs \<and> exactly d A R fs \<Longrightarrow> E fs"
  shows "triple (\<lambda>fs. X fs \<and> exactly d A R fs) (io_ask (fingerprint_now state (partial_path d) (ledger_path d)))
    (\<lambda>key fs. (named_size key ''partial'' (length A) \<and> named_size key ''ledger'' (length R) \<and> clean pf key) \<and> X fs \<and> exactly d A R fs) E"
  by (rule tripleI) (use fingerprint_sizes [OF _ _ assms(1)] assms(2) in \<open>auto simp: io_iff\<close>)

lemma commit_chunk_triple:
  assumes writes: "\<And>i. writes_ok e ts (JStr name) b (ls i) state" and obj: "is_obj state" and fresh: "names_task fresh name b"
    and ack: "acknowledges state cs"
    and out: "\<forall>p \<in> watched (store_policy ts). \<not> within part_names (task_place ts name) p"
    and data: "data \<noteq> []" "int (length data) \<le> request_budget state ''max_chunk_bytes''" "small (length (concat cs) + length data)"
    and line: "line = record_line (length (concat cs)) data" and offset: "offset = int (length (concat cs))" and pid: "wf_str (policy_id pol)"
    and d: "d = task_place ts name" and s1: "acknowledges old cs"
  shows "triple (\<lambda>fs. stored_as e ts name b old fs \<and> exactly d (concat cs) (ledger_lines 0 cs) fs)
    (commit_chunk e ls pol ts fresh state (partial_path d) (ledger_path d) offset data line)
    (\<lambda>v fs. fld ''verified_offset'' v = JInt (int (length (concat (cs @ [data])))) \<and> keeps_chunks e ts name b (cs @ [data]) fs)
    (\<lambda>fs. keeps_chunks e ts name b cs fs \<or> keeps_chunks e ts name b (cs @ [data]) fs)"
    (is "triple _ _ ?Q ?E")
proof -
  let ?at = "stored_as e ts name b" and ?A = "concat (cs @ [data])" and ?R = "ledger_lines 0 (cs @ [data])"
  have steady: "steady d (?at old)" unfolding d by (rule stored_as_steady [OF out])
  have cl: "clean (env_pf e) state" using writes_clean [OF writes [of 0]] by simp
  have counted: "counted state cs" using ack by (simp add: acknowledges_def)
  have fail: "?E fs" if "?at old fs" "exactly d (concat cs @ rest) (ledger_lines 0 cs @ tail) fs" for rest tail fs
    using keeps_exactly [OF that(1) s1] that(2) d by blast
  have new: "ledger_lines 0 cs @ line = ?R" "concat cs @ data = ?A" by (simp_all add: ledger_lines_append line)
  have offset': "nat offset = length (concat cs)" using offset by simp
  have fail_new: "?E fs" if "?at old fs" "exactly d ?A ?R fs" for fs
  proof -
    have "exactly d (concat cs @ data) (ledger_lines 0 cs @ line) fs" using that(2) by (simp only: new)
    then show ?thesis using fail that(1) by blast
  qed
  have s3: "clean (env_pf e) (set_key ''partial_identity'' key s2) \<and> acknowledges (set_key ''partial_identity'' key s2) (cs @ [data]) \<and>
      is_obj (set_key ''partial_identity'' key s2) \<and> fld ''offset'' (set_key ''partial_identity'' key s2) = JInt (int (length ?A)) \<and> clean (env_pf e) s2"
    if "chunk_accepted pol state (int (length data)) = Inr s2"
      "clean (env_pf e) s2 \<Longrightarrow> named_size key ''partial'' (length ?A) \<and> named_size key ''ledger'' (length ?R) \<and> clean (env_pf e) key" for s2 key
    using counted_next [OF counted obj data that(1)] clean_next [OF cl obj pid that(1)] acknowledges_renamed(2) [of s2 "cs @ [data]" "env_pf e" key] that(2)
    by (auto simp: clean_set_key fld_set_key)
  show ?thesis
    unfolding commit_chunk_def Let_def
  proof (rule triple_bind [OF triple_error [OF write_at_end [OF steady offset']]])
    show "?at old fs \<and> (\<exists>k. exactly d (concat cs @ take k data) (ledger_lines 0 cs) fs) \<Longrightarrow> ?E fs" for fs using fail [of fs _ "[]"] by auto
  next
    fix x
    show "triple (\<lambda>fs. ?at old fs \<and> exactly d (concat cs @ data) (ledger_lines 0 cs) fs)
     (io_bind (append_file (lucky e (ls 6)) (ledger_path d) line) (\<lambda>_.
     io_bind (io_lift (chunk_accepted pol state (int (length data)))) (\<lambda>s2.
     io_bind (io_ask (fingerprint_now s2 (partial_path d) (ledger_path d))) (\<lambda>key.
     io_bind (guest_save (lucky e (ls 7)) ts fresh (set_key ''partial_identity'' key s2)) (\<lambda>_.
     io_lift (Inr (obj [(''schema'', response_schema), (''verified_offset'', fld ''offset'' (set_key ''partial_identity'' key s2)), (''replayed'', JBool False)]))))))) ?Q ?E"
    proof (rule triple_bind [OF triple_error [OF append_at_end [OF steady]]])
      show "?at old fs \<and> (\<exists>k. exactly d (concat cs @ data) (ledger_lines 0 cs @ take k line) fs) \<Longrightarrow> ?E fs" for fs using fail by blast
    next
      fix x
      show "triple (\<lambda>fs. ?at old fs \<and> exactly d (concat cs @ data) (ledger_lines 0 cs @ line) fs)
       (io_bind (io_lift (chunk_accepted pol state (int (length data)))) (\<lambda>s2.
       io_bind (io_ask (fingerprint_now s2 (partial_path d) (ledger_path d))) (\<lambda>key.
       io_bind (guest_save (lucky e (ls 7)) ts fresh (set_key ''partial_identity'' key s2)) (\<lambda>_.
       io_lift (Inr (obj [(''schema'', response_schema), (''verified_offset'', fld ''offset'' (set_key ''partial_identity'' key s2)), (''replayed'', JBool False)])))))) ?Q ?E"
        unfolding new
      proof (rule triple_check)
        show "?at old fs \<and> exactly d ?A ?R fs \<Longrightarrow> ?E fs" for fs using fail_new by blast
      next
        fix s2 assume acc: "chunk_accepted pol state (int (length data)) = Inr s2"
        have c2: "clean (env_pf e) s2" by (rule clean_next [OF cl obj pid acc])
        show "triple (\<lambda>fs. ?at old fs \<and> exactly d ?A ?R fs)
         (io_bind (io_ask (fingerprint_now s2 (partial_path d) (ledger_path d))) (\<lambda>key.
         io_bind (guest_save (lucky e (ls 7)) ts fresh (set_key ''partial_identity'' key s2)) (\<lambda>_.
         io_lift (Inr (obj [(''schema'', response_schema), (''verified_offset'', fld ''offset'' (set_key ''partial_identity'' key s2)), (''replayed'', JBool False)]))))) ?Q ?E"
        proof (rule triple_bind [OF fingerprint_triple [OF c2]], goal_cases)
          case (1 fs)
          then show ?case using fail_new by blast
        next
          case (2 key)
          show ?case
          proof (rule triple_pure)
            assume key: "named_size key ''partial'' (length ?A) \<and> named_size key ''ledger'' (length ?R) \<and> clean (env_pf e) key"
            let ?s3 = "set_key ''partial_identity'' key s2"
            from s3 [OF acc key] have g: "clean (env_pf e) ?s3" "acknowledges ?s3 (cs @ [data])" "is_obj ?s3" "fld ''offset'' ?s3 = JInt (int (length ?A))" by blast+
            have kept: "keeps_chunks e ts name b (cs @ [data]) fs" if "?at (sort_json (saved_form ?s3)) fs" "exactly d ?A ?R fs" for fs
              using keeps_exactly [OF that(1) saved_form_acknowledges [OF g(2,3)], of "[]" "[]"] that(2) d by simp
            show "triple (\<lambda>fs. ?at old fs \<and> exactly d ?A ?R fs)
              (io_bind (guest_save (lucky e (ls 7)) ts fresh ?s3) (\<lambda>_.
               io_lift (Inr (obj [(''schema'', response_schema), (''verified_offset'', fld ''offset'' ?s3), (''replayed'', JBool False)])))) ?Q ?E"
            proof (rule triple_bind [OF triple_error [OF save_triple [OF clean_writes [OF writes g(1)] g(3) fresh, of old ?A ?R, folded d]]], goal_cases)
              case (1 fs)
              then show ?case using fail_new kept by blast
            next
              case (2 v)
              show ?case by (rule triple_return) (use kept g(4) in \<open>simp add: fld_obj\<close>)
            qed
          qed
        qed
      qed
    qed
  qed
qed

lemma store_chunk_triple:
  assumes writes: "\<And>i. writes_ok e ts (JStr name) b (ls i) state" and obj: "is_obj state" and fresh: "names_task fresh name b"
    and ack: "counted state cs" and old: "acknowledges old cs"
    and out: "\<forall>p \<in> watched (store_policy ts). \<not> within part_names (task_place ts name) p"
    and data: "data \<noteq> []" "int (length data) \<le> request_budget state ''max_chunk_bytes''" "small (length (concat cs) + length data)"
    and line: "line = record_line (length (concat cs)) data" and offset: "offset = int (length (concat cs))" and pid: "wf_str (policy_id pol)"
    and d: "d = task_place ts name"
  shows "triple (\<lambda>fs. stored_as e ts name b old fs \<and> exactly d (concat cs) (ledger_lines 0 cs) fs)
    (store_chunk e ls pol ts fresh state (partial_path d) (ledger_path d) offset data line)
    (\<lambda>v fs. fld ''verified_offset'' v = JInt (int (length (concat (cs @ [data])))) \<and> keeps_chunks e ts name b (cs @ [data]) fs)
    (\<lambda>fs. keeps_chunks e ts name b cs fs \<or> keeps_chunks e ts name b (cs @ [data]) fs)"
    (is "triple _ _ ?Q ?E")
proof -
  let ?at = "stored_as e ts name b"
  have calm: "calm (env_world e)" using writes [of 0] by (simp add: writes_ok_def)
  have cl: "clean (env_pf e) state" using writes_clean [OF writes [of 0]] by simp
  have steady: "steady d (?at s)" for s unfolding d by (rule stored_as_steady [OF out])
  have good: "\<forall>c \<in> set cs. c \<noteq> []" using ack by (simp add: counted_def good_chunks_def)
  have fail: "?E fs" if "?at s fs" "acknowledges s cs" "exactly d (concat cs @ rest) (ledger_lines 0 cs @ tail) fs" for s rest tail fs
    using keeps_exactly [OF that(1,2)] that(3) d by blast
  have whole: "ledger_lines 0 cs @ line = ledger_lines 0 (cs @ [data])" "concat cs @ data = concat (cs @ [data])"
    by (simp_all add: ledger_lines_append line)
  show ?thesis
    unfolding store_chunk_def Let_def
  proof (rule triple_bind [OF triple_error [OF make_sidecars_triple [OF calm steady good]]])
    show "?E fs" if "?at old fs \<and> exactly d (concat cs) (ledger_lines 0 cs) fs" for fs using fail [of old fs "[]" "[]"] old that by simp
  next
    fix x
    show "triple (\<lambda>fs. ?at old fs \<and> exactly d (concat cs) (ledger_lines 0 cs) fs)
     (io_bind (io_ask (fingerprint_now state (partial_path d) (ledger_path d))) (\<lambda>key.
     io_bind (guest_save (lucky e (ls 4)) ts fresh (set_key ''partial_identity'' key (set_key ''prefix_verification'' JNull state))) (\<lambda>fresh1.
     commit_chunk e ls pol ts fresh1 (set_key ''partial_identity'' key (set_key ''prefix_verification'' JNull state)) (partial_path d) (ledger_path d) offset data line)))
     ?Q ?E"
    proof (rule triple_bind [OF fingerprint_triple [OF cl]], goal_cases)
      case (1 fs)
      then show ?case using fail [of old fs "[]" "[]"] old by simp
    next
      case (2 key)
      show ?case
      proof (rule triple_pure)
        assume key: "named_size key ''partial'' (length (concat cs)) \<and> named_size key ''ledger'' (length (ledger_lines 0 cs)) \<and> clean (env_pf e) key"
        let ?s1 = "set_key ''partial_identity'' key (set_key ''prefix_verification'' JNull state)"
        have s1: "acknowledges ?s1 cs" "is_obj ?s1" "clean (env_pf e) ?s1"
          using acknowledges_renamed(1) [OF ack obj cl] key obj cl by (simp_all add: clean_set_key)
        let ?S1 = "sort_json (saved_form ?s1)"
        have S1: "acknowledges ?S1 cs" by (rule saved_form_acknowledges [OF s1(1,2)])
        have w1: "writes_ok e ts (JStr name) b l s'" if "clean (env_pf e) s'" "l \<in> range ls" for l s' using clean_writes [OF writes that(1)] that(2) by auto
        have cls: "clean (env_pf e) (saved_form ?s1)" using s1(3) clean_set_key [of "env_pf e" JNull ?s1] by (auto simp: saved_form_def)
        have m: "int (length data) \<le> request_budget ?s1 ''max_chunk_bytes''" using data(2) obj by (simp add: request_budget_def fld_set_key)
        show "triple (\<lambda>fs. ?at old fs \<and> exactly d (concat cs) (ledger_lines 0 cs) fs)
         (io_bind (guest_save (lucky e (ls 4)) ts fresh ?s1) (\<lambda>fresh1. commit_chunk e ls pol ts fresh1 ?s1 (partial_path d) (ledger_path d) offset data line)) ?Q ?E"
        proof (rule triple_bind)
          show "triple (\<lambda>fs. ?at old fs \<and> exactly d (concat cs) (ledger_lines 0 cs) fs) (guest_save (lucky e (ls 4)) ts fresh ?s1)
            (\<lambda>v fs. names_task v name b \<and> ?at ?S1 fs \<and> exactly d (concat cs) (ledger_lines 0 cs) fs) ?E"
          proof (rule triple_error [OF save_triple [OF clean_writes [OF writes s1(3)] s1(2) fresh, of old "concat cs" "ledger_lines 0 cs", folded d]])
            fix fs assume "(?at old fs \<or> ?at ?S1 fs) \<and> exactly d (concat cs) (ledger_lines 0 cs) fs"
            then show "?E fs" using fail [of old fs "[]" "[]"] fail [of ?S1 fs "[]" "[]"] S1 old by auto
          qed
        next
          fix fresh1
          show "triple (\<lambda>fs. names_task fresh1 name b \<and> ?at ?S1 fs \<and> exactly d (concat cs) (ledger_lines 0 cs) fs)
            (commit_chunk e ls pol ts fresh1 ?s1 (partial_path d) (ledger_path d) offset data line) ?Q ?E"
            by (rule triple_pure, rule commit_chunk_triple [OF clean_writes [OF writes s1(3)] s1(2) _ s1(1) out data(1) m data(3) line offset pid d S1])
        qed
      qed
    qed
  qed
qed

section \<open>Receiving\<close>

lemma loaded_task:
  assumes "guest_load e g ts (JStr name) digest fs = (Inr fresh, fs')"
  shows "\<exists>S. stored_load e ts (JStr name) (fld ''binding'' fresh) fs = Inr S \<and> fld ''state'' fresh = set_default ''prefix_verification'' JNull (fld ''state'' S) \<and>
    names_task fresh name (fld ''binding'' fresh) \<and> fld ''transfer_id'' (fld ''request'' (fld ''state'' S)) = JStr name \<and>
    fld ''policy_id'' (fld ''binding'' fresh) = JStr (policy_id (store_policy ts))"
proof -
  from assms obtain p raw S where st: "state_path e ts False (JStr name) fs = (Inr p, fs)" and raw: "store_read e ts p fs = Inr raw"
    and load: "store_load e ts (JStr name) (fld ''binding'' raw) fs = (Inr S, fs)" and chk: "check_task g (JStr name) digest (fld ''state'' S) = Inr ()"
    and fresh: "fresh = set_key ''state'' (set_default ''prefix_verification'' JNull (fld ''state'' S)) S"
    by (auto simp: guest_load_def io_iff result_iff state_path_iff dest: store_load_keeps)
  from load obtain nm where l: "store_transfer_id (env_ucd e) (JStr name) = Inr nm" "store_read e ts (state_place ts nm) fs = Inr S" "fld ''transfer_id'' S = JStr nm"
    "binding_fits (store_policy ts) (fld ''binding'' raw)" by (auto simp: store_load_iff)
  from st l(1) have "p = state_place ts nm" "nm = name" by (auto simp: state_path_iff store_transfer_id_iff)
  with raw l have same: "raw = S" and t: "fld ''transfer_id'' S = JStr name" by simp_all
  from l(2) have "\<exists>x raw'. check_envelope x raw' = Inr S" by (auto simp: store_read_iff)
  then have env: "has_keys S envelope_keys" "is_count (fld ''revision'' S)" by (auto simp: check_envelope_def result_iff)
  then have obj: "is_obj S" by (auto simp: has_keys_def)
  from chk have "fld ''transfer_id'' (fld ''request'' (fld ''state'' S)) = JStr name"
    by (auto simp: check_task_def result_iff item_def fld_def split: option.splits)
  moreover have "\<exists>n. fld ''revision'' S = JInt n" using env(2) by (cases "fld ''revision'' S") (auto simp: is_count_def)
  ultimately show ?thesis using load l(4) t obj unfolding same
    by (intro exI [of _ S]) (auto simp: fresh fld_set_key stored_load_iff names_task_def binding_fits_def)
qed

lemma identity_only_facts:
  assumes "identity_only state state'" and "is_obj state" and "clean pf state" and "counted state cs"
  shows "is_obj state'" "clean pf state'" "counted state' cs" "fld ''request'' state' = fld ''request'' state"
proof -
  have "clean pf (partial_fingerprint state pst lst)" for pst lst
    using clean_fld [OF assms(3)] by (simp add: partial_fingerprint_def identity_list_def clean_obj)
  with assms show "is_obj state'" "clean pf state'" "counted state' cs" "fld ''request'' state' = fld ''request'' state"
    by (auto simp: identity_only_def clean_set_key counted_def request_budget_def fld_set_key)
qed

text \<open>What the answer to a chunk says.\<close>

definition chunk_answer :: "byte list list \<Rightarrow> byte list list \<Rightarrow> int \<Rightarrow> byte list \<Rightarrow> json \<Rightarrow> bool" where
  "chunk_answer cs cs' offset data v \<longleftrightarrow> fld ''verified_offset'' v = JInt (int (length (concat cs'))) \<and>
     (cs' = cs \<longrightarrow> read_at (nat offset) (length data) (concat cs) = data)"

lemma replay_triple:
  assumes ack: "counted state cs" and old: "acknowledges old cs" and d: "d = task_place ts name" and offset: "0 \<le> offset"
  shows "triple (\<lambda>fs. stored_as e ts name b old fs \<and> exactly d (concat cs) (ledger_lines 0 cs) fs) (replay_chunk state (partial_path d) offset data)
    (\<lambda>v fs. keeps_chunks e ts name b cs fs \<and> chunk_answer cs cs offset data v) (keeps_chunks e ts name b cs)"
proof (rule tripleI)
  fix fs v fs' assume pre: "stored_as e ts name b old fs \<and> exactly d (concat cs) (ledger_lines 0 cs) fs" and run: "replay_chunk state (partial_path d) offset data fs = (Inr v, fs')"
  from run obtain st bs where r: "lookup fs (partial_path d) = Some (FileN st bs)" "read_at (nat offset) (length data) bs = data" "fs' = fs"
    "v = obj [(''schema'', response_schema), (''verified_offset'', fld ''offset'' state), (''replayed'', JBool True)]"
    by (auto simp: replay_chunk_def io_iff require_Inr_iff split: option.splits node.splits)
  have "keeps_chunks e ts name b cs fs" using pre keeps_exactly [OF _ old, of e ts name b fs "[]" "[]"] d by simp
  then show "keeps_chunks e ts name b cs fs' \<and> chunk_answer cs cs offset data v"
    using pre r ack by (simp add: chunk_answer_def exactly_def bytes_at_def fld_obj counted_def)
next
  fix fs x fs' assume pre: "stored_as e ts name b old fs \<and> exactly d (concat cs) (ledger_lines 0 cs) fs" and run: "replay_chunk state (partial_path d) offset data fs = (Inl x, fs')"
  then have "fs' = fs" by (auto simp: replay_chunk_def io_iff)
  then show "keeps_chunks e ts name b cs fs'" using pre keeps_exactly [OF _ old, of e ts name b fs "[]" "[]"] d by simp
qed

lemma new_triple:
  assumes writes: "\<And>i. writes_ok e ts (JStr name) b (ls i) state" and obj: "is_obj state" and fresh: "names_task fresh name b"
    and ack: "counted state cs" and old: "acknowledges old cs"
    and out: "\<forall>p \<in> watched (store_policy ts). \<not> within part_names (task_place ts name) p"
    and data: "data \<noteq> []" "int (length data) \<le> request_budget state ''max_chunk_bytes''"
    and bound: "offset + int (length data) < 10 ^ 40" and pid: "wf_str (policy_id pol)" and d: "d = task_place ts name"
  shows "triple (\<lambda>fs. stored_as e ts name b old fs \<and> exactly d (concat cs) (ledger_lines 0 cs) fs)
    (new_chunk e ls pol ts fresh state (partial_path d) (ledger_path d) offset data (JStr (sha256_hex data)))
    (\<lambda>v fs. fld ''verified_offset'' v = JInt (int (length (concat (cs @ [data])))) \<and> keeps_chunks e ts name b (cs @ [data]) fs)
    (\<lambda>fs. keeps_chunks e ts name b cs fs \<or> keeps_chunks e ts name b (cs @ [data]) fs)"
    (is "triple ?V _ ?Q ?E")
proof -
  have errV: "?V fs \<Longrightarrow> ?E fs" for fs using keeps_exactly [OF _ old, of e ts name b fs "[]" "[]"] d by auto
  show ?thesis
    unfolding new_chunk_def Let_def
  proof (rule triple_check, erule errV)
    fix x assume "require (offset = int_of (fld ''offset'' state) \<and> in_phase [''DEST_RECEIVING''] state) (Error ''chunk_offset_conflict'') = Inr x"
    then have offset: "offset = int (length (concat cs))" using ack by (simp add: require_Inr_iff counted_def)
    then have sm: "small (length (concat cs) + length data)" using bound by (simp add: small_def)
    then have line: "chunk_record offset (int (length data)) (JStr (sha256_hex data)) = Inr (record_line (length (concat cs)) data)"
      unfolding offset by (intro chunk_record_line) (auto intro: small_less)
    show "triple ?V (io_bind (io_lift (chunk_record offset (int (length data)) (JStr (sha256_hex data)))) (\<lambda>line.
      io_bind (io_ask (\<lambda>fs. require ((case regular_stat fs (ledger_path d) of None \<Rightarrow> 0 | Some st \<Rightarrow> st_size st) + int (length line) \<le>
        request_budget state ''max_metadata_bytes'') (Error ''metadata_budget_exceeded''))) (\<lambda>_.
      io_bind (io_lift (budget_space (state_budget state) (env_now e) (free_space (env_world e)) (int (length data) + int (length line)))) (\<lambda>_.
      store_chunk e ls pol ts fresh state (partial_path d) (ledger_path d) offset data line)))) ?Q ?E"
    proof (rule triple_check, erule errV, rule triple_bind [OF triple_ask], erule errV, rule triple_check)
      fix l x y
      assume "chunk_record offset (int (length data)) (JStr (sha256_hex data)) = Inr l"
      then have l: "l = record_line (length (concat cs)) data" using line by simp
      show "triple (\<lambda>fs. ?V fs \<and> require ((case regular_stat fs (ledger_path d) of None \<Rightarrow> 0 | Some st \<Rightarrow> st_size st) + int (length l) \<le>
        request_budget state ''max_metadata_bytes'') (Error ''metadata_budget_exceeded'') = Inr x)
        (store_chunk e ls pol ts fresh state (partial_path d) (ledger_path d) offset data l) ?Q ?E"
        by (rule triple_use [OF store_chunk_triple [OF writes obj fresh ack old out data sm l offset pid d]]) simp
    qed (use errV in blast)
  qed
qed

lemma receive_triple:
  assumes pol: "g_policy g = Some pol" "store_policy ts = pol"
    and writes: "\<And>i. writes_ok e ts (JStr name) b (ls i) (fld ''state'' fresh)" and fresh: "names_task fresh name b"
    and name: "fld ''transfer_id'' (fld ''request'' (fld ''state'' fresh)) = JStr name" and pid: "wf_str (policy_id pol)"
    and obj: "is_obj (fld ''state'' fresh)" and ack: "counted (fld ''state'' fresh) cs" "named (fld ''state'' fresh) cs" and old: "acknowledges old cs"
    and out: "\<forall>p \<in> watched (store_policy ts). \<not> within part_names (task_place ts name) p"
    and data: "data \<noteq> []" "int (length data) \<le> request_budget (fld ''state'' fresh) ''max_chunk_bytes''"
    and bound: "package_size (fld ''state'' fresh) < 10 ^ 40" and offset: "0 \<le> offset" and d: "d = task_place ts name"
  shows "triple (safe d (stored_as e ts name b old) cs)
    (receive_chunk e ls g pol current owner ts fresh offset data (JStr (sha256_hex data)))
    (\<lambda>v fs. \<exists>cs' \<in> {cs, cs @ [data]}. keeps_chunks e ts name b cs' fs \<and> chunk_answer cs cs' offset data v)
    (\<lambda>fs. \<exists>cs' \<in> {cs, cs @ [data]}. keeps_chunks e ts name b cs' fs)"
    (is "triple ?P _ ?Q ?E")
proof -
  let ?at = "stored_as e ts name b" and ?s = "fld ''state'' fresh"
  have steady: "steady d (?at old)" unfolding d by (rule stored_as_steady [OF out])
  have place: "d = work_root pol @ [u ''tasks'', name]" by (simp add: d task_place_def store_root_def pol(2))
  have err: "?P fs \<Longrightarrow> ?E fs" for fs using old d by (auto simp: safe_def keeps_chunks_def)
  let ?V = "\<lambda>fs. ?at old fs \<and> exactly d (concat cs) (ledger_lines 0 cs) fs"
  have errV: "?E fs" if "?V fs" for fs using keeps_exactly [OF _ old, of e ts name b fs "[]" "[]"] that d by auto
  have off: "counted s cs \<Longrightarrow> int_of (fld ''offset'' s) = int (length (concat cs))" for s by (simp add: counted_def)
  show ?thesis
    unfolding receive_chunk_def Let_def
  proof (rule triple_check, erule err, rule triple_check, erule err)
    fix x y assume fits: "require (offset + int (length data) \<le> package_size ?s) bad_range = Inr y"
    show "triple ?P (io_bind (verified_partial e ls g pol current owner (state_budget ?s) False True ?s) (\<lambda>(digest, state).
     io_bind (ledger_paths e g current owner state) (\<lambda>(partial, ledger).
     if offset < int_of (fld ''offset'' state) then replay_chunk state partial offset data
     else new_chunk e ls pol ts fresh state partial ledger offset data (JStr (sha256_hex data))))) ?Q ?E"
    proof (rule triple_bind [OF triple_error [OF verified_triple [OF steady ack pol(1) place name]]], erule err, goal_cases)
      case (1 x)
      obtain digest state where x: "x = (digest, state)" by (cases x)
      show ?case
        unfolding x prod.case snd_conv conj_assoc [symmetric]
      proof (subst conj_commute, rule triple_pure)
        assume io: "identity_only ?s state"
        have cl: "clean (env_pf e) ?s" using writes_clean [OF writes [of 0]] by simp
        note st = identity_only_facts [OF io obj cl ack(1)]
        have w: "writes_ok e ts (JStr name) b (ls i) state" for i by (rule clean_writes [OF writes st(2)])
        have paths: "triple ?V (ledger_paths e g current owner state) (\<lambda>pl fs. pl = (partial_path d, ledger_path d) \<and> ?V fs) ?E"
        proof (rule tripleI)
          fix fs pl fs' assume "?V fs" "ledger_paths e g current owner state fs = (Inr pl, fs')"
          then show "pl = (partial_path d, ledger_path d) \<and> ?V fs'"
            using ledger_paths_place [OF _ pol(1), of e current owner state fs "Inr pl" fs'] name place st(4) by (cases pl) auto
        next
          fix fs x fs' assume "?V fs" "ledger_paths e g current owner state fs = (Inl x, fs')"
          then show "?E fs'" using ledger_paths_place [OF _ pol(1), of e current owner state fs "Inl x" fs'] errV by auto
        qed
        have m: "int (length data) \<le> request_budget state ''max_chunk_bytes''" using data(2) st(4) by (simp add: request_budget_def)
        have le: "offset + int (length data) < 10 ^ 40" using fits bound by (simp add: require_Inr_iff)
        have longer: "cs @ [data] \<noteq> cs" by simp
        have cases: "triple ?V (if offset < int_of (fld ''offset'' state) then replay_chunk state (partial_path d) offset data
            else new_chunk e ls pol ts fresh state (partial_path d) (ledger_path d) offset data (JStr (sha256_hex data))) ?Q ?E"
          by (intro triple_if; rule triple_weaken [OF replay_triple [OF st(3) old d offset]] triple_weaken [OF new_triple [OF w st(1) fresh st(3) old out data(1) m le pid d]])
            (auto simp: chunk_answer_def)
        show "triple ?V (io_bind (ledger_paths e g current owner state) (\<lambda>(partial, ledger).
          if offset < int_of (fld ''offset'' state) then replay_chunk state partial offset data
          else new_chunk e ls pol ts fresh state partial ledger offset data (JStr (sha256_hex data)))) ?Q ?E"
          by (rule triple_bind [OF paths], rule triple_pure) (use cases in simp)
      qed
    qed
  qed
qed


section \<open>A file that no state names\<close>

text \<open>
  The files of a task are made before its state names them. When the process stops in between, the
  file is there and the state has no identity for it; no later call accepts it.
\<close>

lemma unnamed_partial_refused:
  assumes "g_policy g = Some pol" and "fld ''transfer_id'' (fld ''request'' state) = JStr name"
    and "lookup fs (partial_path (work_root pol @ [u ''tasks'', name])) \<noteq> None" and "fld ''partial_identity'' state = JNull"
    and run: "verified_partial e ls g pol' current owner b force short_call state fs = (r, fs')"
  shows "(\<exists>x. r = Inl x) \<and> fs' = fs"
proof (cases "budget_check b (env_now e)")
  case (Inl x)
  with run show ?thesis by (auto simp: verified_partial_def io_bind_def io_lift_def)
next
  case (Inr x)
  obtain q fs1 where p: "ledger_paths e g current owner state fs = (q, fs1)" by fastforce
  from ledger_paths_place [OF p assms(1)] have fs1: "fs1 = fs" by blast
  show ?thesis
  proof (cases q)
    case (Inl y)
    with run Inr p fs1 show ?thesis by (auto simp: verified_partial_def io_bind_def io_lift_def)
  next
    case (Inr pl)
    obtain p0 l0 where pl: "pl = (p0, l0)" by (cases pl)
    from ledger_paths_place [OF p assms(1)] Inr pl assms(2) have p0: "p0 = partial_path (work_root pol @ [u ''tasks'', name])" by auto
    have "\<exists>z. check_partial e pol' state p0 l0 fs = Inl z"
      using assms(4) by (cases "check_partial e pol' state p0 l0 fs") (auto simp: check_partial_def result_iff Let_def split: option.splits)
    then have "\<exists>z. restore_partial e ls pol' b force short_call state p0 l0 fs = (Inl z, fs)"
      by (auto simp: restore_partial_def io_bind_def io_ask_def)
    then show ?thesis using run \<open>budget_check b (env_now e) = Inr x\<close> p fs1 Inr pl p0 assms(3)
      by (auto simp: verified_partial_def io_bind_def io_lift_def no_partial_def)
  qed
qed

section \<open>Witness\<close>

definition chunk_request_sample :: json where
  "chunk_request_sample = obj [(''transfer_id'', sample_task), (''request_digest'', JStr (replicate 64 48)), (''direction'', JStr (u ''push'')),
     (''expected_vm_identity'', obj [(''vm_uuid'', JStr (u ''v'')), (''boot_identity'', JStr (u ''b''))]), (''budget'', obj [(''max_chunk_bytes'', JInt 5)])]"

definition chunk_state_sample :: json where
  "chunk_state_sample = obj [(''request'', chunk_request_sample), (''offset'', JInt 0), (''chunk_count'', JInt 0), (''partial_identity'', JNull),
     (''phase'', JStr (u ''DEST_RECEIVING'')), (''package'', obj [(''size'', JInt 1)]), (''cancelled'', JBool False), (''error'', JNull)]"

abbreviation chunk_fields :: "int \<Rightarrow> (string \<times> json) list" where
  "chunk_fields n \<equiv> envelope_fields sample_store sample_task sample_task_binding n chunk_state_sample"

lemmas chunk_sample_defs = envelope_fields_def sample_task_binding_def chunk_state_sample_def chunk_request_sample_def sample_store_def state_schema_def

lemma chunk_fields_serial: "serial (obj (chunk_fields 0))" "is_hex64 h \<Longrightarrow> serial (obj (chunk_fields 0 @ [(''sha256'', JStr h)]))"
  by (simp_all add: chunk_sample_defs serial_obj serial_digits serial_hex)

lemma chunk_fields_floats: "floats_ok pf (obj (chunk_fields 0))"
  by (simp add: chunk_sample_defs obj_def)

lemma chunk_fields_cost: "is_hex64 h \<Longrightarrow> cost (obj (chunk_fields 0 @ [(''sha256'', JStr h)])) \<le> 2000"
proof -
  assume h: "is_hex64 h"
  have "text_cost (replicate 64 48) = 66" "text_cost h = 66" using hex_cost(1) zeros_hex h by blast+
  then show ?thesis
    by (simp add: chunk_sample_defs obj_def cost_simps cost_int) (simp add: text_cost_eq u_def char_cost_def int_str_def dec_digits.simps)
qed

lemma chunk_encodes: "\<exists>v raw. store_encode sample_env sample_store sample_task sample_task_binding 0 chunk_state_sample (store_disk x) = Inr (v, raw)"
proof -
  let ?bs = "utf8_bytes (dumps (sort_json (obj (chunk_fields 0))))"
  let ?v = "obj (chunk_fields 0 @ [(''sha256'', JStr (sha256_hex ?bs))])"
  have s: "serial ?v" using chunk_fields_serial(2) [of "sha256_hex ?bs"] by simp
  have can: "canonical_json ?v = Inr (utf8_bytes (dumps (sort_json ?v)))" using serial_canonical [OF s] .
  have len: "length (utf8_bytes (dumps (sort_json ?v))) \<le> 2000"
    using canonical_json_length [OF can] s chunk_fields_cost [of "sha256_hex ?bs"] by (simp add: serial_def)
  have val: "validate_json 5000 (obj (chunk_fields 0 @ [(''sha256'', JStr (replicate 64 48))])) = Inr ()"
  proof -
    have "serial (obj (chunk_fields 0 @ [(''sha256'', JStr (replicate 64 48))]))" using chunk_fields_serial(2) [OF zeros_hex] .
    moreover have "node_count (obj (chunk_fields 0 @ [(''sha256'', JStr (replicate 64 48))])) \<le> 10000" "depth_ok 32 (obj (chunk_fields 0 @ [(''sha256'', JStr (replicate 64 48))])) 0"
      by (simp_all add: chunk_sample_defs obj_def)
    ultimately show ?thesis using chunk_fields_cost [OF zeros_hex] by (simp add: validate_json_accepts serial_def)
  qed
  have "guest_prefix chunk_state_sample = Inr ()"
    by (simp add: guest_prefix_def chunk_state_sample_def chunk_request_sample_def item_def validate_prefix_verification_def)
  then have "store_encode sample_env sample_store sample_task sample_task_binding 0 chunk_state_sample (store_disk x) = Inr (?v, utf8_bytes (dumps (sort_json ?v)))"
    using serial_canonical [OF chunk_fields_serial(1)] can len val by (simp add: store_encode_iff sample_max)
  then show ?thesis by blast
qed

lemma disk_loads:
  assumes enc: "store_encode sample_env sample_store sample_task sample_task_binding 0 s (store_disk []) = Inr (v, raw)"
    and ser: "wf_json (obj (envelope_fields sample_store sample_task sample_task_binding 0 s))" "\<And>pf. floats_ok pf (obj (envelope_fields sample_store sample_task sample_task_binding 0 s))"
  shows "store_read sample_env sample_store (state_place sample_store (u ''t1'')) (store_disk raw) = Inr (sort_json v) \<and>
    store_load sample_env sample_store sample_task sample_task_binding (store_disk raw) = (Inr (sort_json v), store_disk raw) \<and> wf_json v \<and> fld ''state'' v = s \<and>
    fld ''revision'' v = JInt 0 \<and> fld ''transfer_id'' v = sample_task \<and> fld ''binding'' v = sample_task_binding"
proof -
  have env: "env_ucd sample_env = sample_ucd" "store_policy sample_store = store_policy_sample" "is_obj (store_owner sample_store)"
    by (simp_all add: sample_env_def sample_store_def)
  have "lookup (store_disk raw) (state_place sample_store (u ''t1'')) = Some (new_file sample_env [] raw)"
    by (simp add: sample_places) (simp add: store_disk_def u_def new_file_def sample_env_def sample_world_def sample_stat_def)
  from store_read_written [OF sample_task_ready [of raw] this store_names(2,1,3) [folded env(1)] enc ser _ env(3)]
  have read: "store_read sample_env sample_store (state_place sample_store (u ''t1'')) (store_disk raw) = Inr (sort_json v)" by simp
  from encoded_wf [OF enc ser(1)] have v: "wf_json v" "fld ''state'' v = s" "fld ''revision'' v = JInt 0" "fld ''transfer_id'' v = sample_task" "fld ''binding'' v = sample_task_binding" by simp_all
  have bind: "py_eq (sort_json sample_task_binding) sample_task_binding"
    by (rule py_eq_sort) (use ser in \<open>simp_all add: envelope_fields_def wf_json_obj\<close>, simp add: sample_task_binding_def obj_def)
  have name: "store_transfer_id sample_ucd sample_task = Inr (u ''t1'')"
    using store_names(2) by (simp add: store_transfer_id_iff) (simp add: u_def is_id_def text_simps)
  have "store_load sample_env sample_store sample_task sample_task_binding (store_disk raw) = (Inr (sort_json v), store_disk raw)"
    using read name sample_binding_fits sample_task_ready [of raw] v bind
    by (auto simp: store_load_iff env fld_sort_json store_read_iff)
  with v read show ?thesis by blast
qed

definition chunk_guest :: guest where
  "chunk_guest = \<lparr>g_policy = Some store_policy_sample, g_reason = JNull, g_observed = \<lparr>obs_os = u ''o'', obs_vm = u ''v'', obs_boot = u ''b''\<rparr>, g_mode = ''private''\<rparr>"

lemma binding_fits_sort: "wf_json b \<Longrightarrow> binding_fits pol (sort_json b) = binding_fits pol b"
proof -
  have leaf: "sort_json v = JStr s \<longleftrightarrow> v = JStr s" "is_digest (sort_json v) = is_digest v" "is_text n (sort_json v) = is_text n v" for v s n
    by (cases v; simp)+
  show "wf_json b \<Longrightarrow> binding_fits pol (sort_json b) = binding_fits pol b" by (simp add: binding_fits_def fld_sort_json leaf)
qed

lemma sample_binding_sorted: "binding_fits store_policy_sample (sort_json sample_task_binding)" "py_eq (sort_json sample_task_binding) (sort_json sample_task_binding)"
    "item ''request_digest'' (sort_json sample_task_binding) = Inr (JStr (replicate 64 48))"
proof -
  have wf: "wf_json sample_task_binding" by (simp add: sample_task_binding_def wf_json_obj) (simp add: wf_str_def list_all_iff)
  show "binding_fits store_policy_sample (sort_json sample_task_binding)" using sample_binding_fits by (simp add: binding_fits_sort [OF wf])
  show "py_eq (sort_json sample_task_binding) (sort_json sample_task_binding)"
    by (rule py_eq_refl) (use wf in \<open>simp_all add: sort_json_invariants\<close>, simp add: sample_task_binding_def obj_def)
  show "item ''request_digest'' (sort_json sample_task_binding) = Inr (JStr (replicate 64 48))"
    by (simp add: item_def dget_sort_json [OF wf]) (simp add: sample_task_binding_def)
qed

lemma chunk_task_checks: "check_task chunk_guest sample_task (JStr (replicate 64 48)) (sort_json chunk_state_sample) = Inr ()"
proof -
  have wf: "wf_json chunk_state_sample" "wf_json chunk_request_sample"
    using chunk_fields_serial(1) by (simp_all add: serial_def envelope_fields_def wf_json_obj) (simp add: chunk_state_sample_def wf_json_obj)
  have r: "item ''request'' (sort_json chunk_state_sample) = Inr (sort_json chunk_request_sample)"
    by (simp add: item_def dget_sort_json [OF wf(1)]) (simp add: chunk_state_sample_def)
  have i: "item ''request_digest'' (sort_json chunk_request_sample) = Inr (JStr (replicate 64 48))" "item ''transfer_id'' (sort_json chunk_request_sample) = Inr sample_task"
    "item ''expected_vm_identity'' (sort_json chunk_request_sample) = Inr (sort_json (obj [(''vm_uuid'', JStr (u ''v'')), (''boot_identity'', JStr (u ''b''))]))"
    by (simp_all add: item_def dget_sort_json [OF wf(2)]) (simp_all add: chunk_request_sample_def)
  have e: "item ''vm_uuid'' (sort_json (obj [(''vm_uuid'', JStr (u ''v'')), (''boot_identity'', JStr (u ''b''))])) = Inr (JStr (u ''v''))"
    "item ''boot_identity'' (sort_json (obj [(''vm_uuid'', JStr (u ''v'')), (''boot_identity'', JStr (u ''b''))])) = Inr (JStr (u ''b''))"
    by (simp_all add: item_def dget_sort_json wf_json_obj)
  show ?thesis by (simp add: check_task_def r i e chunk_guest_def)
qed

definition chunk_bytes :: "byte list" where
  "chunk_bytes = (case store_encode sample_env sample_store sample_task sample_task_binding 0 chunk_state_sample (store_disk []) of
     Inr (v, raw) \<Rightarrow> raw | Inl x \<Rightarrow> [])"

lemma chunk_guest_loads: "\<exists>fresh. guest_load sample_env chunk_guest sample_store sample_task (JStr (replicate 64 48)) (store_disk chunk_bytes) = (Inr fresh, store_disk chunk_bytes) \<and>
    fld ''state'' fresh = set_default ''prefix_verification'' JNull (sort_json chunk_state_sample) \<and> fld ''binding'' fresh = sort_json sample_task_binding \<and>
    stored_as sample_env sample_store (u ''t1'') (sort_json sample_task_binding) (sort_json chunk_state_sample) (store_disk chunk_bytes)"
proof -
  from chunk_encodes [of "[]"] obtain v raw where enc: "store_encode sample_env sample_store sample_task sample_task_binding 0 chunk_state_sample (store_disk []) = Inr (v, raw)" by auto
  then have raw: "chunk_bytes = raw" by (simp add: chunk_bytes_def)
  have wf: "wf_json (obj (chunk_fields 0))" using chunk_fields_serial(1) by (simp add: serial_def)
  from disk_loads [OF enc wf chunk_fields_floats]
  have read: "store_read sample_env sample_store (state_place sample_store (u ''t1'')) (store_disk raw) = Inr (sort_json v)"
    and v: "wf_json v" "fld ''state'' v = chunk_state_sample" "fld ''transfer_id'' v = sample_task" "fld ''binding'' v = sample_task_binding" by blast+
  note fs = fld_sort_json [OF v(1)]
  have name: "store_transfer_id sample_ucd sample_task = Inr (u ''t1'')" "is_identifier sample_task"
    using store_names(2) by (simp_all add: store_transfer_id_iff) (simp_all add: u_def is_id_def text_simps)
  have env: "env_ucd sample_env = sample_ucd" "store_policy sample_store = store_policy_sample" by (simp_all add: sample_env_def sample_store_def)
  have path: "state_path sample_env sample_store False sample_task (store_disk raw) = (Inr (state_place sample_store (u ''t1'')), store_disk raw)"
    using name(1) sample_task_ready [of raw] by (simp add: state_path_iff env)
  have load: "store_load sample_env sample_store sample_task (sort_json sample_task_binding) (store_disk raw) = (Inr (sort_json v), store_disk raw)"
    using read name(1) sample_binding_sorted sample_task_ready [of raw] v by (auto simp: store_load_iff env fs store_read_iff)
  have start: "\<not> starts_with (u ''guest-internal-'') (str_of sample_task)" by (simp add: u_def starts_with_def)
  have "guest_load sample_env chunk_guest sample_store sample_task (JStr (replicate 64 48)) (store_disk raw) =
      (Inr (set_key ''state'' (set_default ''prefix_verification'' JNull (sort_json chunk_state_sample)) (sort_json v)), store_disk raw)"
    using name(2) start path read load chunk_task_checks sample_binding_sorted(3) v
    by (simp add: guest_load_def io_bind_def io_lift_def io_ask_def fs)
  moreover have "is_obj (sort_json v)"
  proof -
    have "v \<noteq> JNull" "fld ''state'' v \<noteq> JNull" using v(2) by (auto simp: chunk_state_sample_def fld_def obj_def)
    then show ?thesis by (cases v) (auto simp: fld_def)
  qed
  moreover have "stored_as sample_env sample_store (u ''t1'') (sort_json sample_task_binding) (sort_json chunk_state_sample) (store_disk raw)"
    using load v by (auto simp: stored_as_def stored_load_iff fs)
  ultimately show ?thesis using v by (auto simp: raw fld_set_key fs)
qed

lemma chunk_state_acknowledges: "acknowledges chunk_state_sample []" "clean pf chunk_state_sample" "clean pf sample_task_binding"
proof -
  have ser: "serial (obj (chunk_fields 0))" by (rule chunk_fields_serial)
  then show "clean pf chunk_state_sample" "clean pf sample_task_binding"
    using chunk_fields_floats [of pf] by (simp_all add: clean_def serial_def envelope_fields_def wf_json_obj) (simp_all add: obj_def)
  then show "acknowledges chunk_state_sample []"
    by (simp add: acknowledges_def clean_def counted_def named_def good_chunks_def small_def) (simp add: chunk_state_sample_def)
qed

lemma clean_sort: "clean pf v \<Longrightarrow> clean pf (sort_json v)"
  by (simp add: clean_def sort_json_invariants)

lemma chunk_writes: "writes_ok sample_env sample_store sample_task (sort_json sample_task_binding) (Write_Fault i interrupt, u ''1'', True)
    (set_default ''prefix_verification'' JNull (sort_json chunk_state_sample))"
proof -
  have "clean pf (obj (envelope_fields sample_store sample_task (sort_json sample_task_binding) 0 (set_default ''prefix_verification'' JNull (sort_json chunk_state_sample))))" for pf
    using clean_set_default [OF clean_leaf(1) clean_sort [OF chunk_state_acknowledges(2)]] clean_sort [OF chunk_state_acknowledges(3)]
    by (simp add: clean_obj envelope_fields_def state_schema_def sample_store_def)
  then show ?thesis
    using sample_calm by (simp add: writes_ok_def clean_def sample_places) (simp add: sample_env_def sample_store_def sample_policy_fields)
qed


end
