(* ===== verification/Acl.thy ===== *)
theory Acl
  imports Disk
begin

unbundle bit_operations_syntax

text \<open>
  Access control of the Windows guest: the pure part of \<open>src/velo_transfer/windows_platform.py\<close>, the
  decoding and the evaluation of access control lists and the verifier built on them, and the
  evaluation of shared outputs in \<open>src/velo_transfer/output_access.py\<close>. The native calls that read a
  security descriptor and an identity of a file are arguments.
\<close>

section \<open>Entries\<close>

record ace =
  ace_type :: int
  ace_flags :: int
  ace_mask :: int
  ace_sid :: pystr

record acl_snapshot =
  owner_sid :: pystr
  acl_aces :: "ace list"
  dacl_present :: bool

definition sid_system :: pystr where
  "sid_system = u ''S-1-5-18''"

definition sid_admins :: pystr where
  "sid_admins = u ''S-1-5-32-544''"

definition sid_owner_rights :: pystr where
  "sid_owner_rights = u ''S-1-3-4''"

definition mask_write :: int where
  "mask_write = 0x0002 OR 0x0004 OR 0x0010 OR 0x0040 OR 0x0100 OR 0x00010000 OR 0x00040000 OR 0x00080000 OR 0x40000000 OR 0x10000000"

definition mask_read :: int where
  "mask_read = 0x0001 OR 0x0008 OR 0x0080 OR 0x00020000 OR 0x80000000 OR 0x10000000"

definition mask_known :: int where
  "mask_known = 0x001F01FF OR 0xF0000000"

definition private_kinds :: "string list" where
  "private_kinds = [''work'', ''tasks'', ''task'', ''lock'', ''state'', ''stage'', ''parent'']"

definition public_kinds :: "string list" where
  "public_kinds = [''policy'', ''read_root'', ''write_root'']"

definition mask_drive_root :: int where
  "mask_drive_root = 0x0040 OR 0x00040000 OR 0x00080000 OR 0x10000000"

definition shared_content_parents :: "string list" where
  "shared_content_parents = [''shared_content_parent'', ''shared_content_ancestor'']"

text \<open>\<open>S-1-(0|[1-9][0-9]*)(?:-(?:0|[1-9][0-9]*)){1,15}\<close>, read as the fields between the hyphens.\<close>

definition is_numeral :: "pystr \<Rightarrow> bool" where
  "is_numeral s \<longleftrightarrow> s \<noteq> [] \<and> list_all is_digit s \<and> (s = [48] \<or> hd s \<noteq> 48)"

definition is_sid :: "pystr \<Rightarrow> bool" where
  "is_sid s = (case split_on 45 s of
     a # b # numbers \<Rightarrow> a = u ''S'' \<and> b = u ''1'' \<and> 2 \<le> length numbers \<and> length numbers \<le> 16 \<and> list_all is_numeral numbers
   | _ \<Rightarrow> False)"

definition canonical_sid :: "json \<Rightarrow> pystr result" where
  "canonical_sid v = (case v of
     JStr s \<Rightarrow>
       rbind (require (length s \<le> 184 \<and> is_sid s) (Error ''invalid_trusted_sid'')) (\<lambda>_.
       let numbers = map digits_val (drop 2 (split_on 45 s)) in
       rbind (require (hd numbers < 2 ^ 48 \<and> list_all (\<lambda>n. n < 2 ^ 32) (tl numbers)) (Error ''invalid_trusted_sid'')) (\<lambda>_.
       Inr s))
   | _ \<Rightarrow> Inl (Error ''invalid_trusted_sid''))"

definition sid_text :: "nat \<Rightarrow> nat list \<Rightarrow> pystr" where
  "sid_text authority subs = u ''S-1-'' @ dec_digits authority @ concat (map (\<lambda>n. 45 # dec_digits n) subs)"

text \<open>One entry in its binary form: type, flags, size, mask, and the identifier it speaks of.\<close>

definition decode_ace :: "byte list \<Rightarrow> ace result" where
  "decode_ace raw =
     rbind (require (16 \<le> length raw) (Error ''windows_acl_malformed'')) (\<lambda>_.
     let typ = int (le_at raw 0 1); fl = int (le_at raw 1 1); size = le_at raw 2 2 in
     rbind (require (size = length raw \<and> 16 \<le> size \<and> size mod 4 = 0 \<and> typ \<in> set [0, 1]) (Error ''windows_acl_unsupported'')) (\<lambda>_.
     rbind (require (fl AND NOT 0x1F = 0 \<and> \<not> (fl AND 0x08 \<noteq> 0 \<and> fl AND 0x03 = 0)) (Error ''windows_acl_unsupported'')) (\<lambda>_.
     let mask = int (le_at raw 4 4); sid_bytes = drop 8 raw; subs = le_at sid_bytes 1 1 in
     rbind (require (8 \<le> length sid_bytes \<and> le_at sid_bytes 0 1 = 1 \<and> subs \<le> 15) (Error ''windows_acl_malformed'')) (\<lambda>_.
     rbind (require (8 + 4 * subs = length sid_bytes) (Error ''windows_acl_malformed'')) (\<lambda>_.
     let authority = le_nat (rev (take 6 (drop 2 sid_bytes)));
         subauth = map (\<lambda>i. le_at sid_bytes (8 + 4 * i) 4) [0..<subs] in
     rbind (canonical_sid (JStr (sid_text authority subauth))) (\<lambda>sid.
     Inr \<lparr>ace_type = typ, ace_flags = fl, ace_mask = mask, ace_sid = sid\<rparr>))))))"

section \<open>Evaluation\<close>

definition check_ace :: "string \<Rightarrow> pystr list \<Rightarrow> ace \<Rightarrow> unit result" where
  "check_ace kind sids a =
     rbind (require (ace_type a \<in> set [0, 1] \<and> ace_flags a AND NOT 0x1F = 0) (Error ''windows_acl_unsupported'')) (\<lambda>_.
     rbind (require (0 \<le> ace_mask a \<and> ace_mask a AND NOT mask_known = 0) (Error ''windows_acl_unsupported'')) (\<lambda>_.
     if kind \<in> set shared_content_parents then Inr ()
     else if ace_sid a \<in> set sids \<or> ace_sid a = sid_owner_rights \<or> ace_type a = 1 then Inr ()
     else if kind = ''content_drive_root'' then
       if ace_flags a AND 0x08 \<noteq> 0 then Inr ()
       else require (ace_mask a AND mask_drive_root = 0) (Error ''windows_acl_untrusted_write'')
     else
       rbind (require (ace_mask a AND mask_write = 0) (Error ''windows_acl_untrusted_write'')) (\<lambda>_.
       require (\<not> (kind \<in> set private_kinds \<and> ace_mask a AND mask_read \<noteq> 0)) (Error ''windows_acl_untrusted_read''))))"

definition evaluate :: "acl_snapshot \<Rightarrow> string \<Rightarrow> pystr list \<Rightarrow> unit result" where
  "evaluate s kind sids =
     rbind (require (kind \<in> set (private_kinds @ public_kinds @ shared_content_parents @ [''ancestor'', ''content_drive_root''])) (Error ''windows_acl_kind_invalid'')) (\<lambda>_.
     rbind (require (dacl_present s \<and> acl_aces s \<noteq> []) (Error ''windows_acl_unprotected'')) (\<lambda>_.
     rbind (require (owner_sid s \<in> set sids \<or> kind \<in> set shared_content_parents) (Error ''windows_acl_untrusted_owner'')) (\<lambda>_.
     for_each (check_ace kind sids) (acl_aces s))))"

text \<open>The evaluation of a shared output: the grants of the handoff are left out of the private rest.\<close>

definition shared_sids :: "pystr list" where
  "shared_sids = [u ''S-1-5-32-545'', u ''S-1-5-11'', u ''S-1-5-6'']"

definition mask_modify :: int where
  "mask_modify = 0x001301BF"

definition configured_mode :: "pystr option \<Rightarrow> pystr result" where
  "configured_mode setting =
     (let mode = (case setting of None \<Rightarrow> u ''private'' | Some s \<Rightarrow> s) in
      rbind (require (mode \<in> set [u ''private'', u ''shared_modify'']) (Error ''invalid_output_access_mode'')) (\<lambda>_. Inr mode))"

definition private_ace :: "ace \<Rightarrow> ace list \<Rightarrow> ace list result" where
  "private_ace a rest =
     rbind (require (\<not> (ace_type a = 1 \<and> ace_mask a AND mask_modify \<noteq> 0)) (Error ''output_acl_deny'')) (\<lambda>_.
     if ace_type a = 0 \<and> ace_sid a \<in> set shared_sids \<and> ace_mask a AND NOT mask_modify = 0 then
       rbind (require (ace_flags a AND NOT 0x1F = 0) (Error ''windows_acl_unsupported'')) (\<lambda>_. Inr rest)
     else Inr (rest @ [a]))"

definition validate_output_security :: "acl_snapshot \<Rightarrow> pystr list \<Rightarrow> unit result" where
  "validate_output_security s sids =
     rbind (fold_res private_ace (acl_aces s) []) (\<lambda>rest.
     evaluate \<lparr>owner_sid = owner_sid s, acl_aces = rest, dacl_present = dacl_present s\<rparr> ''stage'' sids)"

section \<open>The verifier\<close>

text \<open>\<open>PureWindowsPath\<close>: drive, root and the names below them, with \<open>/\<close> read as a backslash.\<close>

definition find_from :: "nat \<Rightarrow> pystr \<Rightarrow> nat \<Rightarrow> nat option" where
  "find_from c s start = (let i = start + length (takeWhile (\<lambda>x. x \<noteq> c) (drop start s)) in if i < length s then Some i else None)"

definition upper_ascii :: "nat \<Rightarrow> nat" where
  "upper_ascii c = (if 97 \<le> c \<and> c \<le> 122 then c - 32 else c)"

definition win_splitroot :: "pystr \<Rightarrow> pystr \<times> pystr \<times> pystr" where
  "win_splitroot p =
     (if take 1 p = [92] then
        if take 1 (drop 1 p) = [92] then
          (let start = (if map upper_ascii (take 8 p) = [92, 92, 63, 92] @ u ''UNC'' @ [92] then 8 else 2) in
           case find_from 92 p start of
             None \<Rightarrow> (p, [], [])
           | Some i \<Rightarrow>
               (case find_from 92 p (i + 1) of
                  None \<Rightarrow> (p, [], [])
                | Some j \<Rightarrow> (take j p, take 1 (drop j p), drop (j + 1) p)))
        else ([], take 1 p, drop 1 p)
      else if take 1 (drop 1 p) = [58] then
        if take 1 (drop 2 p) = [92] then (take 2 p, take 1 (drop 2 p), drop 3 p) else (take 2 p, [], drop 2 p)
      else ([], [], p))"

text \<open>An absolute path: its anchor (drive and root) and the names below; the drive is kept beside for \<open>is_absolute\<close>.\<close>

type_synonym winpath = "pystr \<times> pystr list"

definition win_parse :: "pystr \<Rightarrow> bool \<times> winpath" where
  "win_parse raw =
     (case win_splitroot (map (\<lambda>c. if c = 47 then 92 else c) raw) of (drive, root, rel) \<Rightarrow>
        let parts = split_on 92 drive;
            root' = (if root = [] \<and> take 1 drive = [92] \<and> last drive \<noteq> 92 \<and>
                (length parts = 4 \<and> parts ! 2 \<notin> set [[], u ''?'', u ''.'', u ''?.''] \<or> length parts = 6) then [92] else root) in
        (drive \<noteq> [] \<and> root' \<noteq> [], drive @ root', filter (\<lambda>x. x \<noteq> [] \<and> x \<noteq> [46]) (split_on 92 rel)))"

definition win_chain :: "winpath \<Rightarrow> winpath list" where
  "win_chain p = map (\<lambda>i. (fst p, take i (snd p))) [0..<Suc (length (snd p))]"

definition is_drive_root :: "winpath \<Rightarrow> bool" where
  "is_drive_root p \<longleftrightarrow> snd p = [] \<and> length (fst p) = 3 \<and> (is_lower (fst p ! 0) \<or> is_upper (fst p ! 0)) \<and> drop 1 (fst p) = [58, 92]"

text \<open>
  What the system answers about a path: identity and attributes, security descriptor, and whether a
  drive root is that of a fixed volume. The flag tells the second look of the verifier from the first.
\<close>

record win_stat =
  w_dev :: int
  w_ino :: int
  w_mode :: int
  w_link :: bool
  w_attributes :: int

record win_view =
  v_stat :: "bool \<Rightarrow> winpath \<Rightarrow> win_stat option"
  v_acl :: "bool \<Rightarrow> winpath \<Rightarrow> acl_snapshot result"
  v_fixed :: "winpath \<Rightarrow> bool"

definition fingerprint :: "win_view \<Rightarrow> bool \<Rightarrow> winpath \<Rightarrow> win_stat result" where
  "fingerprint v again p = (case v_stat v again p of
     None \<Rightarrow> Inl (Error ''windows_acl_path_unavailable'')
   | Some st \<Rightarrow> rbind (require (\<not> (w_link st \<or> w_attributes st AND 0x400 \<noteq> 0)) (Error ''link_or_reparse'')) (\<lambda>_. Inr st))"

definition verifier_sids :: "json list \<Rightarrow> pystr \<Rightarrow> pystr list result" where
  "verifier_sids granted current =
     rbind (fold_res (\<lambda>v sids. rbind (canonical_sid v) (\<lambda>s. Inr (sids @ [s]))) granted []) (\<lambda>extras.
     rbind (require (length extras \<le> 32 \<and> distinct extras) (Error ''invalid_trusted_sid'')) (\<lambda>_.
     rbind (canonical_sid (JStr current)) (\<lambda>s. Inr ([sid_system, sid_admins, s] @ extras))))"

definition evaluated_kind :: "win_view \<Rightarrow> string \<Rightarrow> bool \<Rightarrow> winpath \<Rightarrow> winpath \<Rightarrow> string" where
  "evaluated_kind v kind shared candidate p =
     (if shared \<and> p \<noteq> candidate then ''shared_content_ancestor''
      else if shared \<and> kind = ''parent'' then ''shared_content_parent''
      else if p \<noteq> candidate \<and> kind \<in> set [''stage'', ''parent''] \<and> is_drive_root p \<and> v_fixed v p then ''content_drive_root''
      else if p = candidate then kind else ''ancestor'')"

definition first_look :: "win_view \<Rightarrow> pystr list \<Rightarrow> string \<Rightarrow> bool \<Rightarrow> winpath \<Rightarrow> winpath \<Rightarrow> (win_stat \<times> acl_snapshot) list \<Rightarrow> (win_stat \<times> acl_snapshot) list result" where
  "first_look v sids kind shared candidate p seen =
     rbind (fingerprint v False p) (\<lambda>st.
     rbind (v_acl v False p) (\<lambda>s.
     rbind (evaluate s (evaluated_kind v kind shared candidate p) sids) (\<lambda>_. Inr (seen @ [(st, s)]))))"

definition second_look :: "win_view \<Rightarrow> winpath \<times> win_stat \<times> acl_snapshot \<Rightarrow> unit result" where
  "second_look v seen = (case seen of (p, st, s) \<Rightarrow>
     rbind (fingerprint v True p) (\<lambda>st'.
     rbind (require (st' = st) (Error ''windows_acl_path_changed'')) (\<lambda>_.
     rbind (v_acl v True p) (\<lambda>s'.
     require (s' = s) (Error ''windows_acl_changed'')))))"

definition verify_acl :: "win_view \<Rightarrow> pystr list \<Rightarrow> pystr \<Rightarrow> string \<Rightarrow> bool \<Rightarrow> unit result" where
  "verify_acl v sids raw kind shared =
     rbind (require (kind \<in> set (private_kinds @ public_kinds)) (Error ''windows_acl_kind_invalid'')) (\<lambda>_.
     rbind (require (\<not> (shared \<and> kind \<notin> set [''stage'', ''parent''])) (Error ''windows_acl_kind_invalid'')) (\<lambda>_.
     case win_parse raw of (absolute, candidate) \<Rightarrow>
     rbind (require (absolute \<and> 0 \<notin> set raw \<and> length raw \<le> 32767 \<and> list_all (\<lambda>part. part \<notin> set [u ''.'', u ''..'']) (fst candidate # snd candidate) \<and>
       \<not> starts_with [92, 92, 63, 92] raw \<and> \<not> starts_with [92, 92, 46, 92] raw) (Error ''windows_acl_path_invalid'')) (\<lambda>_.
     let chain = win_chain candidate in
     rbind (require (length chain \<le> 64) (Error ''windows_acl_path_invalid'')) (\<lambda>_.
     rbind (fold_res (first_look v sids kind shared candidate) chain []) (\<lambda>seen.
     for_each (second_look v) (zip chain seen))))))"

text \<open>
  \<open>content_callback\<close>: the one-argument verifier of a staging directory, its parent and its destination.
  Windows paths are compared in lower case, for which \<open>lower\<close> is \<open>str.lower\<close>.
\<close>

definition win_str :: "winpath \<Rightarrow> pystr" where
  "win_str p = fst p @ join_on 92 (snd p)"

definition win_parent :: "winpath \<Rightarrow> winpath" where
  "win_parent p = (fst p, butlast (snd p))"

definition content_callback :: "(pystr \<Rightarrow> pystr) \<Rightarrow> win_view \<Rightarrow> pystr list \<Rightarrow> pystr \<Rightarrow> pystr \<Rightarrow> pystr option \<Rightarrow> bool \<Rightarrow> pystr \<Rightarrow> unit result" where
  "content_callback lower v sids stage parent dest shared raw =
     (let at = (\<lambda>s. snd (win_parse s)); same = (\<lambda>p q. lower (win_str p) = lower (win_str q));
          verify = (\<lambda>kind. verify_acl v sids (win_str (at raw)) kind shared); invalid = Error ''windows_acl_path_invalid'' in
      rbind (require (same (win_parent (at stage)) (at parent) \<and> (case dest of None \<Rightarrow> True | Some d \<Rightarrow> same (win_parent (at d)) (at parent))) invalid) (\<lambda>_.
      if same (at raw) (at stage) then verify ''stage''
      else if same (at raw) (at parent) then verify ''parent''
      else case dest of
        Some d \<Rightarrow> if same (at raw) (at d) then verify ''stage'' else Inl invalid
      | None \<Rightarrow> Inl invalid))"

section \<open>What acceptance means\<close>

text \<open>
  The rights that the system grants to a token with the identifiers \<open>token\<close>: the entries in their
  order, where what is already denied is not granted any more and what is granted stays so. An
  inherit-only entry does not count for the object itself.
\<close>

fun effective :: "pystr set \<Rightarrow> ace list \<Rightarrow> int \<Rightarrow> int \<Rightarrow> int" where
  "effective token [] granted denied = granted"
| "effective token (a # as) granted denied =
     (if ace_sid a \<notin> token \<or> ace_flags a AND 0x08 \<noteq> 0 then effective token as granted denied
      else if ace_type a = 0 then effective token as (granted OR (ace_mask a AND NOT denied)) denied
      else effective token as granted (denied OR (ace_mask a AND NOT granted)))"

definition stranger :: "pystr set \<Rightarrow> pystr list \<Rightarrow> bool" where
  "stranger token sids \<longleftrightarrow> token \<inter> set (sid_owner_rights # sids) = {}"

lemma effective_within:
  assumes "\<And>a. a \<in> set as \<Longrightarrow> ace_sid a \<in> token \<Longrightarrow> ace_type a = 0 \<Longrightarrow> ace_flags a AND 0x08 = 0 \<Longrightarrow> ace_mask a AND m = 0"
    and "granted AND m = 0"
  shows "effective token as granted denied AND m = 0"
  using assms
proof (induction as arbitrary: granted denied)
  case (Cons a as)
  have "(granted OR (ace_mask a AND NOT denied)) AND m = 0" if "ace_sid a \<in> token" "ace_type a = 0" "ace_flags a AND 0x08 = 0"
  proof -
    have "ace_mask a AND m = 0" using Cons.prems(1) that by simp
    then have "(ace_mask a AND NOT denied) AND m = 0" by (metis and.assoc and.commute and_zero_eq)
    then show ?thesis using Cons.prems(2) by (simp add: bit.conj_disj_distrib2)
  qed
  with Cons show ?case by simp
qed simp

lemma evaluate_iff:
  "evaluate s kind sids = Inr () \<longleftrightarrow> kind \<in> set (private_kinds @ public_kinds @ shared_content_parents @ [''ancestor'', ''content_drive_root'']) \<and>
     dacl_present s \<and> acl_aces s \<noteq> [] \<and> (owner_sid s \<in> set sids \<or> kind \<in> set shared_content_parents) \<and>
     (\<forall>a \<in> set (acl_aces s). check_ace kind sids a = Inr ())"
  by (auto simp: evaluate_def result_iff for_each_Inr_iff)

lemma kinds_apart:
  "kind \<in> set private_kinds \<Longrightarrow> kind \<notin> set shared_content_parents \<and> kind \<noteq> ''content_drive_root''"
  "kind \<in> set public_kinds \<Longrightarrow> kind \<notin> set shared_content_parents \<and> kind \<noteq> ''content_drive_root''"
  by (auto simp: private_kinds_def public_kinds_def shared_content_parents_def)

lemma evaluate_private:
  assumes "evaluate s kind sids = Inr ()" and "stranger token sids" and "kind \<in> set private_kinds"
  shows "effective token (acl_aces s) 0 0 AND mask_write = 0" "effective token (acl_aces s) 0 0 AND mask_read = 0" "owner_sid s \<in> set sids"
proof -
  have *: "ace_mask a AND mask_write = 0 \<and> ace_mask a AND mask_read = 0" if "a \<in> set (acl_aces s)" "ace_sid a \<in> token" "ace_type a = 0" for a
    using assms that kinds_apart(1) [OF assms(3)]
    by (auto simp: evaluate_iff check_ace_def result_iff stranger_def split: if_splits)
  then show "effective token (acl_aces s) 0 0 AND mask_write = 0" "effective token (acl_aces s) 0 0 AND mask_read = 0"
    by (auto intro!: effective_within)
  show "owner_sid s \<in> set sids" using assms kinds_apart(1) [OF assms(3)] by (simp add: evaluate_iff)
qed

lemma evaluate_guarded:
  assumes "evaluate s kind sids = Inr ()" and "stranger token sids" and "kind \<notin> set shared_content_parents" and "kind \<noteq> ''content_drive_root''"
  shows "effective token (acl_aces s) 0 0 AND mask_write = 0" "owner_sid s \<in> set sids"
proof -
  have "ace_mask a AND mask_write = 0" if "a \<in> set (acl_aces s)" "ace_sid a \<in> token" "ace_type a = 0" for a
    using assms that by (auto simp: evaluate_iff check_ace_def result_iff stranger_def split: if_splits)
  then show "effective token (acl_aces s) 0 0 AND mask_write = 0" by (auto intro!: effective_within)
  show "owner_sid s \<in> set sids" using assms by (simp add: evaluate_iff)
qed

lemma evaluate_drive_root:
  assumes "evaluate s ''content_drive_root'' sids = Inr ()" and "stranger token sids"
  shows "effective token (acl_aces s) 0 0 AND mask_drive_root = 0" "owner_sid s \<in> set sids"
proof -
  have n: "''content_drive_root'' \<notin> set shared_content_parents" by (simp add: shared_content_parents_def)
  have "ace_mask a AND mask_drive_root = 0" if "a \<in> set (acl_aces s)" "ace_sid a \<in> token" "ace_type a = 0" "ace_flags a AND 0x08 = 0" for a
    using assms that n by (auto simp: evaluate_iff check_ace_def result_iff stranger_def split: if_splits)
  then show "effective token (acl_aces s) 0 0 AND mask_drive_root = 0" by (auto intro!: effective_within)
  show "owner_sid s \<in> set sids" using assms n by (simp add: evaluate_iff)
qed

text \<open>Writing with the bits of the mask: the drive root keeps the rights to replace and to secure the directory below.\<close>

lemma drive_root_weaker: "m AND mask_write = 0 \<Longrightarrow> m AND mask_drive_root = 0"
proof -
  have "mask_write AND mask_drive_root = mask_drive_root" by (simp add: mask_write_def mask_drive_root_def)
  then show "m AND mask_write = 0 \<Longrightarrow> m AND mask_drive_root = 0" by (metis and.assoc and_zero_eq and.commute)
qed

lemma first_look_iff:
  "first_look v sids kind shared candidate p seen = Inr r \<longleftrightarrow> (\<exists>st s. fingerprint v False p = Inr st \<and> v_acl v False p = Inr s \<and>
     evaluate s (evaluated_kind v kind shared candidate p) sids = Inr () \<and> r = seen @ [(st, s)])"
  by (auto simp: first_look_def rbind_Inr_iff)

lemma first_looks:
  assumes "fold_res (first_look v sids kind shared candidate) ps acc = Inr seen"
  shows "\<exists>new. seen = acc @ new \<and> length new = length ps \<and>
    (\<forall>i < length ps. fingerprint v False (ps ! i) = Inr (fst (new ! i)) \<and> v_acl v False (ps ! i) = Inr (snd (new ! i)) \<and>
       evaluate (snd (new ! i)) (evaluated_kind v kind shared candidate (ps ! i)) sids = Inr ())"
  using assms
proof (induction ps arbitrary: acc)
  case (Cons p ps)
  from Cons.prems obtain st s where one: "fingerprint v False p = Inr st" "v_acl v False p = Inr s"
    "evaluate s (evaluated_kind v kind shared candidate p) sids = Inr ()"
    and rest: "fold_res (first_look v sids kind shared candidate) ps (acc @ [(st, s)]) = Inr seen"
    by (auto simp: rbind_Inr_iff first_look_iff)
  from Cons.IH [OF rest] obtain new where new: "seen = acc @ (st, s) # new" "length new = length ps"
    "\<forall>i < length ps. fingerprint v False (ps ! i) = Inr (fst (new ! i)) \<and> v_acl v False (ps ! i) = Inr (snd (new ! i)) \<and>
       evaluate (snd (new ! i)) (evaluated_kind v kind shared candidate (ps ! i)) sids = Inr ()"
    by auto
  show ?case
    by (rule exI [of _ "(st, s) # new"]) (use one new in \<open>auto simp: nth_Cons less_Suc_eq_0_disj split: nat.splits\<close>)
qed simp

text \<open>Accepted looks agree: the object, its attributes and its descriptor are the same at the second look.\<close>

lemma verify_acl_looks:
  assumes "verify_acl v sids raw kind shared = Inr ()"
  shows "kind \<in> set (private_kinds @ public_kinds) \<and> (shared \<longrightarrow> kind \<in> set [''stage'', ''parent'']) \<and>
    (\<forall>p \<in> set (win_chain (snd (win_parse raw))). \<exists>st s. \<forall>again. fingerprint v again p = Inr st \<and> v_acl v again p = Inr s \<and>
       evaluate s (evaluated_kind v kind shared (snd (win_parse raw)) p) sids = Inr ())"
proof -
  obtain absolute candidate where parse: "win_parse raw = (absolute, candidate)" by (cases "win_parse raw")
  let ?chain = "win_chain candidate"
  from assms parse obtain seen where k: "kind \<in> set (private_kinds @ public_kinds)" "shared \<longrightarrow> kind \<in> set [''stage'', ''parent'']"
    and first: "fold_res (first_look v sids kind shared candidate) ?chain [] = Inr seen"
    and second: "for_each (second_look v) (zip ?chain seen) = Inr ()"
    by (auto simp: verify_acl_def rbind_Inr_iff require_Inr_iff Let_def)
  from first_looks [OF first] have new: "length seen = length ?chain"
    "\<forall>i < length ?chain. fingerprint v False (?chain ! i) = Inr (fst (seen ! i)) \<and> v_acl v False (?chain ! i) = Inr (snd (seen ! i)) \<and>
       evaluate (snd (seen ! i)) (evaluated_kind v kind shared candidate (?chain ! i)) sids = Inr ()"
    by auto
  have "\<exists>st s. \<forall>again. fingerprint v again p = Inr st \<and> v_acl v again p = Inr s \<and> evaluate s (evaluated_kind v kind shared candidate p) sids = Inr ()"
    if "p \<in> set ?chain" for p
  proof -
    from that obtain i where i: "i < length ?chain" "p = ?chain ! i" by (metis in_set_conv_nth)
    have "(p, seen ! i) \<in> set (zip ?chain seen)" using i new(1) by (auto simp: set_zip)
    with second have "second_look v (p, seen ! i) = Inr ()" by (simp add: for_each_Inr_iff)
    then have "fingerprint v True p = Inr (fst (seen ! i))" "v_acl v True p = Inr (snd (seen ! i))"
      by (cases "seen ! i"; auto simp: second_look_def result_iff)+
    with new(2) i have "\<forall>again. fingerprint v again p = Inr (fst (seen ! i)) \<and> v_acl v again p = Inr (snd (seen ! i)) \<and>
        evaluate (snd (seen ! i)) (evaluated_kind v kind shared candidate p) sids = Inr ()"
      by (metis (full_types))
    then show ?thesis by blast
  qed
  with k parse show ?thesis by simp
qed


section \<open>Binary entries\<close>

text \<open>The layout that \<open>decode_ace\<close> reads.\<close>

definition ace_bytes :: "nat \<Rightarrow> nat \<Rightarrow> nat \<Rightarrow> nat \<Rightarrow> nat list \<Rightarrow> byte list" where
  "ace_bytes typ fl rights authority subs =
     le_bytes 1 typ @ le_bytes 1 fl @ le_bytes 2 (16 + 4 * length subs) @ le_bytes 4 rights @
     le_bytes 1 1 @ le_bytes 1 (length subs) @ rev (le_bytes 6 authority) @ concat (map (le_bytes 4) subs)"

lemma le_at_first: "n < 256 ^ k \<Longrightarrow> le_at (le_bytes k n @ bs) 0 k = n"
  by (simp add: le_at_def le_nat_bytes)

lemma le_at_skip: "le_at (as @ bs) (length as + i) k = le_at bs i k"
  by (simp add: le_at_def)

lemma le_at_next: "length as = j \<Longrightarrow> le_at (as @ bs) j k = le_at bs 0 k"
  using le_at_skip [of as bs 0 k] by simp

lemma le_at_mid: "n < 256 ^ k \<Longrightarrow> length as = j \<Longrightarrow> le_at (as @ le_bytes k n @ bs) j k = n"
  by (simp add: le_at_next le_at_first)

lemma length_words: "length (concat (map (le_bytes k) ns)) = k * length ns"
  by (induction ns) simp_all

lemma le_at_word: "i < length ns \<Longrightarrow> \<forall>n \<in> set ns. n < 256 ^ k \<Longrightarrow> le_at (concat (map (le_bytes k) ns)) (k * i) k = ns ! i"
proof (induction ns arbitrary: i)
  case (Cons n ns)
  then show ?case
    by (cases i) (simp_all add: le_at_first le_at_skip [of "le_bytes k n" _ "k * j" k for j, simplified])
qed simp

lemma dec_digits_short: "n < 10 ^ k \<Longrightarrow> 0 < k \<Longrightarrow> length (dec_digits n) \<le> k"
proof (induction k arbitrary: n)
  case (Suc k)
  show ?case
  proof (cases "n < 10")
    case True
    then show ?thesis by (subst dec_digits.simps) simp
  next
    case False
    then have "n div 10 < 10 ^ k" "0 < k" using Suc.prems(1) by (auto simp: less_mult_imp_div_less mult.commute intro: gr0I)
    with Suc.IH [of "n div 10"] False show ?thesis by (subst dec_digits.simps) simp
  qed
qed simp

lemma dec_digits_numeral: "is_numeral (dec_digits n)"
  using dec_digits_all [of n] dec_digits_hd [of n] dec_digits_0 by (cases "n = 0") (auto simp: is_numeral_def)

lemma dec_digits_no_hyphen: "45 \<notin> set (dec_digits n)"
  using dec_digits_all [of n] by (auto simp: list_all_iff is_digit_def)

lemma join_tail: "join_on c (p # ps) = p @ concat (map (\<lambda>q. c # q) ps)"
proof (induction ps arbitrary: p)
  case (Cons q ps)
  then show ?case by simp
qed simp

lemma sid_text_join: "sid_text authority subs = join_on 45 (u ''S'' # u ''1'' # map dec_digits (authority # subs))"
  by (simp add: sid_text_def join_tail u_def comp_def)

lemma split_sid_text: "split_on 45 (sid_text authority subs) = u ''S'' # u ''1'' # map dec_digits (authority # subs)"
  unfolding sid_text_join by (rule split_join) (use dec_digits_no_hyphen in \<open>auto simp: u_def\<close>)

lemma sid_text_canonical:
  assumes "authority < 2 ^ 48" and "subs \<noteq> []" and "length subs \<le> 15" and "\<forall>n \<in> set subs. n < 2 ^ 32"
  shows "canonical_sid (JStr (sid_text authority subs)) = Inr (sid_text authority subs)"
proof -
  have a: "length (dec_digits authority) \<le> 15" using assms(1) by (intro dec_digits_short) simp_all
  have s: "length (concat (map (\<lambda>n. 45 # dec_digits n) ns)) \<le> 11 * length ns" if "\<forall>n \<in> set ns. n < 2 ^ 32" for ns
    using that
  proof (induction ns)
    case (Cons n ns)
    then have "length (dec_digits n) \<le> 10" by (intro dec_digits_short) simp_all
    with Cons show ?case by simp
  qed simp
  have len: "length (sid_text authority subs) \<le> 184"
    using a s [OF assms(4)] assms(3) by (simp add: sid_text_def)
  have sid: "is_sid (sid_text authority subs)"
    using assms(2,3) dec_digits_numeral by (cases subs) (auto simp: is_sid_def split_sid_text list_all_iff)
  show ?thesis
    using len sid assms(1,4) by (simp add: canonical_sid_def split_sid_text digits_val_dec list_all_iff comp_def)
qed

lemma flags_within: "fl < 32 \<Longrightarrow> int fl AND NOT 0x1F = 0"
proof -
  assume "fl < 32"
  then have "take_bit 5 (int fl) = int fl" by (intro take_bit_int_eq_self) simp_all
  moreover have "take_bit 5 (int fl) AND NOT (mask 5) = 0" by (simp add: take_bit_eq_mask and.assoc)
  ultimately show ?thesis by (simp add: mask_eq_exp_minus_1)
qed

lemma decode_ace_bytes:
  assumes "typ \<in> {0, 1}" and fl: "fl < 32" "fl AND 0x08 \<noteq> 0 \<longrightarrow> fl AND 0x03 \<noteq> 0" and rights: "rights < 2 ^ 32"
    and sid: "authority < 2 ^ 48" "subs \<noteq> []" "length subs \<le> 15" "\<forall>n \<in> set subs. n < 2 ^ 32"
  shows "decode_ace (ace_bytes typ fl rights authority subs) =
    Inr \<lparr>ace_type = int typ, ace_flags = int fl, ace_mask = int rights, ace_sid = sid_text authority subs\<rparr>"
proof -
  let ?raw = "ace_bytes typ fl rights authority subs" and ?tail = "le_bytes 1 1 @ le_bytes 1 (length subs) @ rev (le_bytes 6 authority) @ concat (map (le_bytes 4) subs)"
  have len: "length ?raw = 16 + 4 * length subs" by (simp add: ace_bytes_def length_words)
  have ty: "le_at ?raw 0 1 = typ" using assms(1) unfolding ace_bytes_def by (intro le_at_first) auto
  have f: "le_at ?raw 1 1 = fl" and size: "le_at ?raw 2 2 = 16 + 4 * length subs" and m: "le_at ?raw 4 4 = rights"
    using le_at_mid [of fl 1 "le_bytes 1 typ" 1] le_at_mid [of "16 + 4 * length subs" 2 "le_bytes 1 typ @ le_bytes 1 fl" 2]
      le_at_mid [of rights 4 "le_bytes 1 typ @ le_bytes 1 fl @ le_bytes 2 (16 + 4 * length subs)" 4] fl(1) sid(3) rights
    by (simp_all add: ace_bytes_def del: le_bytes.simps)
  have tail: "drop 8 ?raw = ?tail" by (simp add: ace_bytes_def)
  have one: "le_at ?tail 0 1 = 1" "le_at ?tail 1 1 = length subs"
    using le_at_mid [of 1 1 "[]" 0] le_at_mid [of "length subs" 1 "le_bytes 1 1" 1] sid(3) by (simp_all del: le_bytes.simps)
  have auth: "le_nat (rev (take 6 (drop 2 ?tail))) = authority" using sid(1) by (simp add: le_nat_bytes)
  have sub: "map (\<lambda>i. le_at ?tail (8 + 4 * i) 4) [0..<length subs] = subs"
  proof (rule nth_equalityI)
    fix i assume i: "i < length (map (\<lambda>i. le_at ?tail (8 + 4 * i) 4) [0..<length subs])"
    have "le_at ?tail (8 + 4 * i) 4 = le_at (concat (map (le_bytes 4) subs)) (4 * i) 4"
      using le_at_skip [of "le_bytes 1 1 @ le_bytes 1 (length subs) @ rev (le_bytes 6 authority)" _ "4 * i" 4] by simp
    also have "\<dots> = subs ! i" using i sid(4) by (intro le_at_word) simp_all
    finally show "map (\<lambda>i. le_at ?tail (8 + 4 * i) 4) [0..<length subs] ! i = subs ! i" using i by simp
  qed simp
  have inherit: "\<not> (int fl AND 0x08 \<noteq> 0 \<and> int fl AND 0x03 = 0)"
  proof -
    have "int fl AND 0x08 = int (fl AND 0x08)" "int fl AND 0x03 = int (fl AND 0x03)" by (simp_all add: of_nat_and_eq)
    with fl(2) show ?thesis by auto
  qed
  define t where "t = ?tail"
  note facts = tail [folded t_def] one [folded t_def] auth [folded t_def] sub [folded t_def]
  have lt: "length t = 8 + 4 * length subs" by (simp add: t_def length_words)
  have div: "(16 + 4 * length subs) mod 4 = 0" by presburger
  show ?thesis
    unfolding decode_ace_def Let_def len ty f size m facts lt sid_text_canonical [OF sid]
    using flags_within [OF fl(1)] inherit assms(1) sid(3) div by auto
qed

section \<open>Witness\<close>

definition sample_sids :: "pystr list" where
  "sample_sids = [sid_system, sid_admins]"

definition sample_users :: pystr where
  "sample_users = u ''S-1-5-32-545''"

text \<open>A drive root that users may read, and a directory on it for the system alone.\<close>

definition sample_view :: win_view where
  "sample_view = \<lparr>
     v_stat = (\<lambda>again p. Some \<lparr>w_dev = 1, w_ino = int (length (snd p)), w_mode = 16384, w_link = False, w_attributes = 16\<rparr>),
     v_acl = (\<lambda>again p. Inr \<lparr>owner_sid = sid_system,
       acl_aces = \<lparr>ace_type = 0, ace_flags = 3, ace_mask = 0x001F01FF, ace_sid = sid_system\<rparr> #
         (if snd p = [] then [\<lparr>ace_type = 0, ace_flags = 0, ace_mask = 0x001200A9, ace_sid = sample_users\<rparr>] else []),
       dacl_present = True\<rparr>),
     v_fixed = (\<lambda>p. True)\<rparr>"

definition sample_raw_path :: pystr where
  "sample_raw_path = u ''C:'' @ [92] @ u ''work''"

lemma sample_path_parsed: "win_parse sample_raw_path = (True, u ''C:'' @ [92], [u ''work''])"
  by (simp add: win_parse_def win_splitroot_def sample_raw_path_def u_def)

lemma sample_path_verified: "verify_acl sample_view sample_sids sample_raw_path ''work'' False = Inr ()"
proof -
  let ?c = "(u ''C:'' @ [92], [u ''work''])"
  have chain: "win_chain ?c = [(u ''C:'' @ [92], []), ?c]" by (simp add: win_chain_def)
  have print: "fingerprint sample_view again p = Inr \<lparr>w_dev = 1, w_ino = int (length (snd p)), w_mode = 16384, w_link = False, w_attributes = 16\<rparr>" for again p
    by (simp add: fingerprint_def sample_view_def)
  have acl: "v_acl sample_view again p = v_acl sample_view True p" for again p by (simp add: sample_view_def)
  have full: "check_ace k sample_sids \<lparr>ace_type = 0, ace_flags = 3, ace_mask = 0x001F01FF, ace_sid = sid_system\<rparr> = Inr ()" for k
    by (simp add: check_ace_def mask_known_def sample_sids_def)
  have users: "check_ace ''ancestor'' sample_sids \<lparr>ace_type = 0, ace_flags = 0, ace_mask = 0x001200A9, ace_sid = sample_users\<rparr> = Inr ()"
    by (simp add: check_ace_def mask_known_def mask_write_def shared_content_parents_def private_kinds_def)
  have "\<exists>s. v_acl sample_view False (u ''C:'' @ [92], []) = Inr s \<and> evaluate s ''ancestor'' sample_sids = Inr ()"
    using full users by (simp add: sample_view_def evaluate_iff private_kinds_def public_kinds_def sample_sids_def)
  then obtain s0 where s0: "v_acl sample_view False (u ''C:'' @ [92], []) = Inr s0" "evaluate s0 ''ancestor'' sample_sids = Inr ()" by blast
  have "\<exists>s. v_acl sample_view False ?c = Inr s \<and> evaluate s ''work'' sample_sids = Inr ()"
    using full by (simp add: sample_view_def evaluate_iff private_kinds_def public_kinds_def sample_sids_def)
  then obtain s1 where s1: "v_acl sample_view False ?c = Inr s1" "evaluate s1 ''work'' sample_sids = Inr ()" by blast
  note s = s0 s1
  have kinds: "evaluated_kind sample_view ''work'' False ?c (u ''C:'' @ [92], []) = ''ancestor''" "evaluated_kind sample_view ''work'' False ?c ?c = ''work''"
    by (simp_all add: evaluated_kind_def)
  have s': "v_acl sample_view True (u ''C:'' @ [92], []) = Inr s0" "v_acl sample_view True ?c = Inr s1"
    using s(1) s(3) by (simp_all only: acl [of False])
  have step: "first_look sample_view sample_sids ''work'' False ?c p seen = Inr (seen @ [(\<lparr>w_dev = 1, w_ino = int (length (snd p)), w_mode = 16384, w_link = False, w_attributes = 16\<rparr>, s)])"
    if "v_acl sample_view False p = Inr s" "evaluate s (evaluated_kind sample_view ''work'' False ?c p) sample_sids = Inr ()" for p s seen
    unfolding first_look_iff using that print by blast
  have first: "first_look sample_view sample_sids ''work'' False ?c (u ''C:'' @ [92], []) seen = Inr (seen @ [(\<lparr>w_dev = 1, w_ino = 0, w_mode = 16384, w_link = False, w_attributes = 16\<rparr>, s0)])" for seen
    using step [OF s(1)] s(2) unfolding kinds by simp
  have leaf: "first_look sample_view sample_sids ''work'' False ?c ?c seen = Inr (seen @ [(\<lparr>w_dev = 1, w_ino = 1, w_mode = 16384, w_link = False, w_attributes = 16\<rparr>, s1)])" for seen
    using step [OF s(3)] s(4) unfolding kinds by simp
  have looks: "fold_res (first_look sample_view sample_sids ''work'' False ?c) (win_chain ?c) [] =
      Inr [(\<lparr>w_dev = 1, w_ino = 0, w_mode = 16384, w_link = False, w_attributes = 16\<rparr>, s0), (\<lparr>w_dev = 1, w_ino = 1, w_mode = 16384, w_link = False, w_attributes = 16\<rparr>, s1)]"
    unfolding chain fold_res.simps first rbind_simps leaf by simp
  have pre: "''work'' \<in> set (private_kinds @ public_kinds)" "0 \<notin> set sample_raw_path" "length sample_raw_path \<le> 32767"
    "\<not> starts_with [92, 92, 63, 92] sample_raw_path" "\<not> starts_with [92, 92, 46, 92] sample_raw_path"
    "list_all (\<lambda>part. part \<notin> set [u ''.'', u ''..'']) [u ''C:'' @ [92], u ''work'']"
    by (simp_all add: private_kinds_def sample_raw_path_def u_def starts_with_def)
  show ?thesis
    unfolding verify_acl_def sample_path_parsed using pre looks s' by (simp add: chain second_look_def print)
qed


end
