(* ===== verification/Gate.thy ===== *)
theory Gate
  imports Base64 Result Disk
begin

text \<open>
  The HTTP front of the transfer wire: \<open>src/velo_transfer/http_wire.py\<close>. The SDK's session manager,
  which decides how long a session lives, is looked at afresh at every step; what the wrapped
  application answers is an argument. A request is two atomic steps, before and after its body has
  arrived, so that other requests may run in between; every message of a response is one step.
\<close>

section \<open>Sessions\<close>

record transport =
  terminated :: bool
  idle_scope :: "(bool \<times> int) option"

record sdk_manager =
  task_group :: bool
  transports :: "pystr \<Rightarrow> transport option"
  sdk_clock :: int

record bindings =
  owners :: "pystr \<Rightarrow> pystr option option"
  initialized :: "pystr set"

definition no_bindings :: bindings where
  "no_bindings = \<lparr>owners = (\<lambda>s. None), initialized = {}\<rparr>"

definition forget :: "pystr \<Rightarrow> bindings \<Rightarrow> bindings" where
  "forget s b = b\<lparr>owners := (owners b)(s := None), initialized := initialized b - {s}\<rparr>"

text \<open>\<open>live\<close>: a session without a running transport is forgotten, an idle one only refused.\<close>

definition session_live :: "sdk_manager \<Rightarrow> pystr \<Rightarrow> bindings \<Rightarrow> bool \<times> bindings" where
  "session_live m s b =
     (if \<not> task_group m then (False, b)
      else case transports m s of
        None \<Rightarrow> (False, forget s b)
      | Some t \<Rightarrow>
          if terminated t then (False, forget s b)
          else case idle_scope t of
            Some (cancelled, deadline) \<Rightarrow> (\<not> (cancelled \<or> deadline \<le> sdk_clock m), b)
          | None \<Rightarrow> (True, b))"

definition owner_of :: "bindings \<Rightarrow> pystr \<Rightarrow> pystr option" where
  "owner_of b s = (case owners b s of None \<Rightarrow> None | Some r \<Rightarrow> r)"

datatype reply = Reply nat string

type_synonym headers = "(byte list \<times> byte list) list"

definition session_header :: string where
  "session_header = ''mcp-session-id''"

definition check_session :: "pystr \<Rightarrow> sdk_manager \<Rightarrow> headers \<Rightarrow> pystr option \<Rightarrow> bool \<Rightarrow> bindings \<Rightarrow> reply option \<times> bindings" where
  "check_session inst m headers client instance_required b =
     (case one_header headers session_header False of
        Inl _ \<Rightarrow> (Some (Reply 400 ''invalid_frame''), b)
      | Inr None \<Rightarrow> (Some (Reply 400 ''session_required''), b)
      | Inr (Some s) \<Rightarrow>
          (case session_live m s b of (alive, b1) \<Rightarrow>
             if \<not> alive \<or> s \<notin> initialized b1 \<or> owner_of b1 s \<noteq> client then (Some (Reply 404 ''session_not_found''), b1)
             else case one_header headers ''x-mcp-server-instance'' instance_required of
               Inl _ \<Rightarrow> (Some (Reply 400 ''invalid_frame''), b1)
             | Inr expected \<Rightarrow> (if expected \<noteq> None \<and> expected \<noteq> Some inst then Some (Reply 400 ''invalid_frame'') else None, b1)))"

section \<open>Requests\<close>

record gate_scope =
  scope_http :: bool
  scope_path :: pystr
  scope_method :: pystr
  scope_headers :: headers
  scope_owner :: "pystr option"

record gate =
  gate_instance :: pystr
  mcp_path :: pystr
  gate_limit :: nat

definition limit_bytes :: "gate \<Rightarrow> nat" where
  "limit_bytes g = min (gate_limit g) body_limit"

definition is_binary :: "gate_scope \<Rightarrow> bool" where
  "is_binary sc \<longleftrightarrow> scope_path sc = u ''/chunkbin''"

datatype admission = Pass | Refuse reply | Disconnected | Go_On | Forward "byte list" json bool

text \<open>Before the body: what is not the gate's business passes, a session that is named has to be the caller's.\<close>

definition admit_headers :: "gate \<Rightarrow> sdk_manager \<Rightarrow> gate_scope \<Rightarrow> bindings \<Rightarrow> admission \<times> bindings" where
  "admit_headers g m sc b =
     (if \<not> scope_http sc then (Pass, b)
      else if is_binary sc then
        (case check_session (gate_instance g) m (scope_headers sc) (scope_owner sc) True b of
           (Some r, b1) \<Rightarrow> (Refuse r, b1) | (None, b1) \<Rightarrow> (Go_On, b1))
      else if scope_path sc \<noteq> mcp_path g \<or> scope_method sc \<noteq> u ''POST'' then (Pass, b)
      else case one_header (scope_headers sc) session_header False of
        Inl _ \<Rightarrow> (Refuse (Reply 400 ''invalid_frame''), b)
      | Inr None \<Rightarrow> (Go_On, b)
      | Inr (Some s) \<Rightarrow>
          (case session_live m s b of (alive, b1) \<Rightarrow>
             if \<not> alive \<or> owner_of b1 s \<noteq> scope_owner sc then (Refuse (Reply 404 ''session_not_found''), b1) else (Go_On, b1)))"

text \<open>The messages of the body: its part and whether more follows, or the client's hanging up.\<close>

datatype incoming = Hang_Up | Part "byte list" bool

datatype collected = Gone | Too_Large | Incomplete | Whole "byte list"

fun collect :: "nat \<Rightarrow> byte list \<Rightarrow> incoming list \<Rightarrow> collected" where
  "collect limit body [] = Incomplete"
| "collect limit body (Hang_Up # ms) = Gone"
| "collect limit body (Part bs rest # ms) =
     (if limit < length body + length bs then Too_Large
      else if rest then collect limit (body @ bs) ms else Whole (body @ bs))"

definition transfer_tools :: "string list" where
  "transfer_tools = [''transfer_capabilities'', ''transfer_begin'', ''transfer_status'', ''transfer_chunk'', ''transfer_chunks'',
     ''transfer_finish'', ''transfer_abort'']"

definition classify_call :: "(pystr \<Rightarrow> pyfloat) \<Rightarrow> byte list \<Rightarrow> (json \<times> bool) result" where
  "classify_call pf body =
     rbind (strict_json pf body) (\<lambda>value.
     rbind (require (is_obj value) bad_frame) (\<lambda>_.
     let called = fld ''method'' value; params = fld ''params'' value in
     Inr (called, called = JStr (u ''tools/call'') \<and> is_obj params \<and> str_in (fld ''name'' params) transfer_tools)))"

definition admit_body :: "(pystr \<Rightarrow> pyfloat) \<Rightarrow> gate \<Rightarrow> sdk_manager \<Rightarrow> gate_scope \<Rightarrow> incoming list \<Rightarrow> bindings \<Rightarrow> admission \<times> bindings" where
  "admit_body pf g m sc ms b =
     (case collect (limit_bytes g) [] ms of
        Gone \<Rightarrow> (Disconnected, b)
      | Incomplete \<Rightarrow> (Go_On, b)
      | Too_Large \<Rightarrow> (Refuse (Reply 413 ''body_too_large''), b)
      | Whole body \<Rightarrow>
          if is_binary sc then (Forward body JNull True, b)
          else (case classify_call pf body of
            Inl _ \<Rightarrow> (Refuse (Reply 400 ''invalid_frame''), b)
          | Inr (called, transfer) \<Rightarrow>
              if \<not> transfer \<and> 4 * 2 ^ 20 < length body then (Refuse (Reply 413 ''body_too_large''), b)
              else if transfer then
                (case check_session (gate_instance g) m (scope_headers sc) (scope_owner sc) False b of
                   (Some r, b1) \<Rightarrow> (Refuse r, b1) | (None, b1) \<Rightarrow> (Forward body called True, b1))
              else (Forward body called False, b)))"

section \<open>Responses\<close>

datatype outgoing = Start nat headers | Body "byte list" | Other

datatype delivered = Message outgoing | Error_Reply reply

record response =
  started :: bool
  body_count :: nat
  start_message :: "(nat \<times> headers) option"
  delivery :: "delivered list"

definition fresh_response :: response where
  "fresh_response = \<lparr>started = False, body_count = 0, start_message = None, delivery = []\<rparr>"

definition deliver :: "outgoing \<Rightarrow> response \<Rightarrow> response" where
  "deliver out r = r\<lparr>delivery := delivery r @ [Message out]\<rparr>"

definition handed_session :: "headers \<Rightarrow> pystr option result" where
  "handed_session hs = (case filter (\<lambda>(k, v). map lower_byte k = ascii_bytes session_header) hs of
     [] \<Rightarrow> Inr None
   | (k, v) # _ \<Rightarrow> if list_ex (\<lambda>c. 128 \<le> c) v then Inl (PyError ''UnicodeDecodeError'') else Inr (Some (map unat v)))"

text \<open>What the start of a response means for the sessions: a handshake answered, a handshake completed.\<close>

definition bind_session :: "sdk_manager \<Rightarrow> gate_scope \<Rightarrow> json \<Rightarrow> nat \<Rightarrow> headers \<Rightarrow> bindings \<Rightarrow> unit result \<times> bindings" where
  "bind_session m sc called st hs b =
     (if called = JStr (u ''initialize'') \<and> st = 200 then
        (case handed_session hs of
           Inl x \<Rightarrow> (Inl x, b)
         | Inr None \<Rightarrow> (Inr (), b)
         | Inr (Some s) \<Rightarrow>
             if s = [] then (Inr (), b)
             else (case session_live m s b of (alive, b1) \<Rightarrow>
               (Inr (), if alive then b1\<lparr>owners := (owners b1)(s := Some (scope_owner sc))\<rparr> else b1)))
      else if called = JStr (u ''notifications/initialized'') \<and> st = 202 then
        (case one_header (scope_headers sc) session_header True of
           Inr (Some s) \<Rightarrow>
             (case session_live m s b of (alive, b1) \<Rightarrow>
               (Inr (), if alive \<and> owner_of b1 s = scope_owner sc then b1\<lparr>initialized := insert s (initialized b1)\<rparr> else b1))
         | _ \<Rightarrow> (Inr (), b))
      else (Inr (), b))"

definition body_limit_exceeded :: exn where
  "body_limit_exceeded = PyError ''BodyLimitExceeded''"

fun counted_send :: "gate \<Rightarrow> sdk_manager \<Rightarrow> gate_scope \<Rightarrow> json \<Rightarrow> bool \<Rightarrow> outgoing \<Rightarrow> (response \<times> bindings, unit) io" where
  "counted_send g m sc called transfer (Start st hs) (r, b) =
     (let r1 = r\<lparr>start_message := Some (st, hs)\<rparr> in
      case bind_session m sc called st hs b of
        (Inl x, b1) \<Rightarrow> (Inl x, (r1, b1))
      | (Inr _, b1) \<Rightarrow> (Inr (), (if transfer then r1 else deliver (Start st hs) (r1\<lparr>started := True\<rparr>), b1)))"
| "counted_send g m sc called transfer (Body bs) (r, b) =
     (if transfer then
        (let r1 = r\<lparr>body_count := body_count r + length bs\<rparr> in
         if limit_bytes g < body_count r1 then
           (Inl body_limit_exceeded, (if started r1 then r1 else r1\<lparr>delivery := delivery r1 @ [Error_Reply (Reply 413 ''body_too_large'')]\<rparr>, b))
         else if started r1 then (Inr (), (deliver (Body bs) r1, b))
         else case start_message r1 of
           None \<Rightarrow> (Inl (PyError ''TypeError''), (r1, b))
         | Some (st, hs) \<Rightarrow> (Inr (), (deliver (Body bs) ((deliver (Start st hs) r1)\<lparr>started := True\<rparr>), b)))
      else (Inr (), (deliver (Body bs) r, b)))"
| "counted_send g m sc called transfer Other (r, b) = (Inr (), (deliver Other r, b))"

section \<open>The chunk endpoint\<close>

datatype endpoint_reply = Status nat string | Octets "byte list"

fun collect_parts :: "byte list \<Rightarrow> byte list list \<Rightarrow> byte list option" where
  "collect_parts body [] = Some body"
| "collect_parts body (p # ps) = (if body_limit < length body + length p then None else collect_parts (body @ p) ps)"

definition with_data :: "byte list \<Rightarrow> json \<Rightarrow> nat \<times> json list \<Rightarrow> (nat \<times> json list) result" where
  "with_data payload it st = (case st of (cursor, chunks) \<Rightarrow>
     let end = cursor + nat (int_of (fld ''count'' it)) in
     Inr (end, chunks @ [JObj (items it @ [(u ''data_base64'', JStr (b64encode (byte_slice cursor end payload)))])]))"

definition endpoint_arguments :: "pystr list \<Rightarrow> (pystr \<Rightarrow> pyfloat) \<Rightarrow> headers \<Rightarrow> byte list \<Rightarrow> (pystr \<times> (string \<times> json) list) result" where
  "endpoint_arguments codes pf hs body =
     rbind (request_headers hs) (\<lambda>(direction, arguments).
     rbind (decode codes pf body (if direction = u ''push'' then ''push_request'' else ''pull_request'')) (\<lambda>(header, payload).
     if direction = u ''push'' then
       rbind (fold_res (with_data payload) (elems (fld ''chunks'' header)) (0, [])) (\<lambda>(cursor, chunks).
       Inr (direction, arguments @ [(''chunks'', JList chunks)]))
     else Inr (direction, arguments)))"

definition pull_chunk :: "json \<Rightarrow> byte list \<times> json list \<Rightarrow> (byte list \<times> json list) result" where
  "pull_chunk c acc = (case acc of (payload, meta) \<Rightarrow>
     rbind (item ''data_base64'' c) (\<lambda>d.
     rbind (case d of JStr s \<Rightarrow> b64decode s | _ \<Rightarrow> Inl (PyError ''TypeError'')) (\<lambda>bs.
     rbind (item ''offset'' c) (\<lambda>offset.
     rbind (item ''count'' c) (\<lambda>count.
     rbind (item ''chunk_sha256'' c) (\<lambda>sha.
     Inr (payload @ bs, meta @ [obj [(''offset'', offset), (''count'', count), (''chunk_sha256'', sha)]])))))))"

definition endpoint_answer :: "pystr list \<Rightarrow> pystr \<Rightarrow> json + json \<Rightarrow> byte list result" where
  "endpoint_answer codes direction envelope = (case envelope of
     Inl error \<Rightarrow>
       rbind (item ''code'' error) (\<lambda>code.
       let code' = (case code of JStr c \<Rightarrow> if c \<in> set codes then code else JStr (u ''internal_error'') | _ \<Rightarrow> JStr (u ''internal_error'')) in
       encode codes (obj [(''status'', JStr (u ''error'')), (''error'', obj [(''code'', code')])]) [] ''error_response'')
   | Inr r \<Rightarrow>
       if direction = u ''push'' then
         rbind (item ''verified_offset'' r) (\<lambda>v.
         rbind (item ''accepted'' r) (\<lambda>a.
         encode codes (obj [(''status'', JStr (u ''success'')), (''result'', obj [(''verified_offset'', v), (''accepted'', a)])]) [] ''push_response''))
       else
         rbind (item ''chunks'' r) (\<lambda>chunks.
         rbind (fold_res pull_chunk (elems chunks) ([], [])) (\<lambda>(payload, meta).
         rbind (item ''verified_offset'' r) (\<lambda>v.
         encode codes (obj [(''status'', JStr (u ''success'')), (''result'', obj [(''verified_offset'', v), (''chunks'', JList meta)])]) payload ''pull_response''))))"

text \<open>\<open>invoke\<close> is the transfer service: a failure, an error envelope or a result.\<close>

definition chunk_endpoint :: "pystr list \<Rightarrow> (pystr \<Rightarrow> pyfloat) \<Rightarrow> ((string \<times> json) list \<Rightarrow> (json + json) result) \<Rightarrow> headers \<Rightarrow> byte list list \<Rightarrow> endpoint_reply result" where
  "chunk_endpoint codes pf invoke hs parts =
     (if one_header hs ''content-type'' True \<noteq> Inr (Some (u ''application/octet-stream'')) then Inr (Status 415 ''unsupported_media_type'')
      else case request_headers hs of
        Inl (WireError c) \<Rightarrow> Inr (Status 400 ''invalid_frame'')
      | Inl x \<Rightarrow> Inl x
      | Inr _ \<Rightarrow>
          (case collect_parts [] parts of
             None \<Rightarrow> Inr (Status 413 ''body_too_large'')
           | Some body \<Rightarrow>
               (case endpoint_arguments codes pf hs body of
                  Inl (WireError c) \<Rightarrow> Inr (Status 400 ''invalid_frame'')
                | Inl x \<Rightarrow> Inl x
                | Inr (direction, arguments) \<Rightarrow>
                    (case rbind (invoke arguments) (endpoint_answer codes direction) of
                       Inl x \<Rightarrow> Inr (Status 500 ''internal_error'')
                     | Inr bs \<Rightarrow> Inr (Octets bs)))))"

section \<open>Runs of the server\<close>

text \<open>What has happened: a session was handed to a client, a client has completed its handshake, a request was let on to its body, a request was forwarded.\<close>

datatype event = Handed pystr "pystr option" | Ready pystr "pystr option" | Checked gate_scope | Forwarded gate_scope "byte list" json bool

definition send_events :: "sdk_manager \<Rightarrow> gate_scope \<Rightarrow> json \<Rightarrow> outgoing \<Rightarrow> bindings \<Rightarrow> event list" where
  "send_events m sc called out b = (case out of
     Start st hs \<Rightarrow>
       if called = JStr (u ''initialize'') \<and> st = 200 then
         (case handed_session hs of
            Inr (Some s) \<Rightarrow> if s \<noteq> [] \<and> fst (session_live m s b) then [Handed s (scope_owner sc)] else []
          | _ \<Rightarrow> [])
       else if called = JStr (u ''notifications/initialized'') \<and> st = 202 then
         (case one_header (scope_headers sc) session_header True of
            Inr (Some s) \<Rightarrow> if fst (session_live m s b) \<and> owner_of (snd (session_live m s b)) s = scope_owner sc then [Ready s (scope_owner sc)] else []
          | _ \<Rightarrow> [])
       else []
   | _ \<Rightarrow> [])"

inductive gate_run :: "(pystr \<Rightarrow> pyfloat) \<Rightarrow> gate \<Rightarrow> bindings \<Rightarrow> event list \<Rightarrow> bool" for pf g where
  gate_start: "gate_run pf g no_bindings []"
| gate_headers: "gate_run pf g b T \<Longrightarrow> admit_headers g m sc b = (adm, b') \<Longrightarrow>
    gate_run pf g b' (if adm = Go_On then T @ [Checked sc] else T)"
| gate_body: "gate_run pf g b T \<Longrightarrow> Checked sc \<in> set T \<Longrightarrow> admit_body pf g m sc ms b = (adm, b') \<Longrightarrow>
    gate_run pf g b' (case adm of Forward body called transfer \<Rightarrow> T @ [Forwarded sc body called transfer] | _ \<Rightarrow> T)"
| gate_send: "gate_run pf g b T \<Longrightarrow> Forwarded sc body called transfer \<in> set T \<Longrightarrow> counted_send g m sc called transfer out (r, b) = (res, (r', b')) \<Longrightarrow>
    gate_run pf g b' (T @ send_events m sc called out b)"

inductive_cases gate_runE: "gate_run pf g b T"

text \<open>A request that may use the transfer service: its session was handed to it, and somebody who owned it has completed the handshake.\<close>

definition served :: "gate \<Rightarrow> gate_scope \<Rightarrow> event list \<Rightarrow> bool" where
  "served g sc T \<longleftrightarrow> (\<exists>s. one_header (scope_headers sc) session_header False = Inr (Some s) \<and>
     (scope_owner sc \<noteq> None \<longrightarrow> Handed s (scope_owner sc) \<in> set T) \<and>
     (\<exists>r. Ready s r \<in> set T \<and> (r \<noteq> None \<longrightarrow> Handed s r \<in> set T))) \<and>
     (is_binary sc \<longrightarrow> one_header (scope_headers sc) ''x-mcp-server-instance'' True = Inr (Some (gate_instance g)))"

definition sound_bindings :: "bindings \<Rightarrow> event list \<Rightarrow> bool" where
  "sound_bindings b T \<longleftrightarrow> (\<forall>s r. owners b s = Some r \<longrightarrow> Handed s r \<in> set T) \<and>
     (\<forall>s \<in> initialized b. \<exists>r. Ready s r \<in> set T \<and> (r \<noteq> None \<longrightarrow> Handed s r \<in> set T))"

definition sound_trace :: "gate \<Rightarrow> event list \<Rightarrow> bool" where
  "sound_trace g T \<longleftrightarrow> (\<forall>sc. Checked sc \<in> set T \<and> is_binary sc \<longrightarrow> served g sc T) \<and>
     (\<forall>T1 sc body called T2. T = T1 @ Forwarded sc body called True # T2 \<longrightarrow> served g sc T1 \<and> length body \<le> limit_bytes g)"

lemma sound_forget: "sound_bindings b T \<Longrightarrow> sound_bindings (forget s b) T"
  by (auto simp: sound_bindings_def forget_def)

lemma sound_live: "sound_bindings b T \<Longrightarrow> session_live m s b = (alive, b') \<Longrightarrow> sound_bindings b' T"
  by (auto simp: session_live_def sound_forget split: if_splits option.splits)

lemma sound_more: "sound_bindings b T \<Longrightarrow> set T \<subseteq> set T' \<Longrightarrow> sound_bindings b T'"
  unfolding sound_bindings_def by blast

lemma served_more: "served g sc T \<Longrightarrow> set T \<subseteq> set T' \<Longrightarrow> served g sc T'"
  unfolding served_def by blast

lemma required_header_some: "one_header hs name True = Inr v \<Longrightarrow> v \<noteq> None"
  by (auto simp: one_header_def result_iff Let_def)

lemma check_session_sound:
  assumes "check_session inst m hs client req b = (res, b')" and "sound_bindings b T"
  shows "sound_bindings b' T \<and> (res = None \<longrightarrow> (\<exists>s. one_header hs session_header False = Inr (Some s) \<and>
     (client \<noteq> None \<longrightarrow> Handed s client \<in> set T) \<and> (\<exists>r. Ready s r \<in> set T \<and> (r \<noteq> None \<longrightarrow> Handed s r \<in> set T))) \<and>
     (req \<longrightarrow> one_header hs ''x-mcp-server-instance'' True = Inr (Some inst)))"
proof (cases "\<exists>s. one_header hs session_header False = Inr (Some s)")
  case True
  then obtain s where s: "one_header hs session_header False = Inr (Some s)" by blast
  obtain alive b1 where live: "session_live m s b = (alive, b1)" by fastforce
  note b1 = sound_live [OF assms(2) live]
  show ?thesis
  proof (cases "\<not> alive \<or> s \<notin> initialized b1 \<or> owner_of b1 s \<noteq> client")
    case True
    with assms(1) s live b1 show ?thesis by (auto simp: check_session_def)
  next
    case False
    then have ok: "client \<noteq> None \<longrightarrow> Handed s client \<in> set T" "\<exists>r. Ready s r \<in> set T \<and> (r \<noteq> None \<longrightarrow> Handed s r \<in> set T)"
      using b1 by (auto simp: sound_bindings_def owner_of_def split: option.splits)
    have inst: "req \<longrightarrow> one_header hs ''x-mcp-server-instance'' True = Inr (Some inst)" if "res = None"
      using assms(1) s live False that required_header_some [of hs "''x-mcp-server-instance''"]
      by (cases "one_header hs ''x-mcp-server-instance'' req") (auto simp: check_session_def split: if_splits)
    have "b' = b1" using assms(1) s live False by (auto simp: check_session_def split: sum.splits if_splits)
    with b1 ok inst s show ?thesis by blast
  qed
next
  case False
  with assms show ?thesis by (auto simp: check_session_def split: sum.splits option.splits)
qed

lemma admit_headers_sound:
  assumes "admit_headers g m sc b = (adm, b')" and "sound_bindings b T"
  shows "sound_bindings b' T \<and> (adm = Go_On \<and> is_binary sc \<longrightarrow> served g sc T)"
proof (cases "scope_http sc \<and> is_binary sc")
  case True
  obtain res b1 where c: "check_session (gate_instance g) m (scope_headers sc) (scope_owner sc) True b = (res, b1)" by fastforce
  from check_session_sound [OF this assms(2)] assms(1) True c show ?thesis
    by (cases res) (auto simp: admit_headers_def served_def)
next
  case False
  with assms show ?thesis
    by (auto simp: admit_headers_def dest: sound_live [OF assms(2)] split: if_splits sum.splits option.splits prod.splits)
qed

lemma collect_within: "collect limit body ms = Whole bs \<Longrightarrow> length body \<le> limit \<Longrightarrow> length bs \<le> limit"
  by (induction limit body ms rule: collect.induct) (auto split: if_splits)

lemma admit_body_sound:
  assumes "admit_body pf g m sc ms b = (adm, b')" and "sound_bindings b T" and bin: "is_binary sc \<longrightarrow> served g sc T"
  shows "sound_bindings b' T \<and> (\<forall>body called. adm = Forward body called True \<longrightarrow> served g sc T \<and> length body \<le> limit_bytes g)"
proof (cases "collect (limit_bytes g) [] ms")
  case (Whole body)
  then have len: "length body \<le> limit_bytes g" using collect_within [OF Whole] by simp
  show ?thesis
  proof (cases "is_binary sc")
    case True
    with assms Whole len show ?thesis by (auto simp: admit_body_def)
  next
    case False
    obtain res b1 where c: "check_session (gate_instance g) m (scope_headers sc) (scope_owner sc) False b = (res, b1)" by fastforce
    from check_session_sound [OF this assms(2)] assms False Whole len c show ?thesis
      by (auto simp: admit_body_def served_def split: sum.splits prod.splits if_splits option.splits)
  qed
qed (use assms in \<open>auto simp: admit_body_def\<close>)

lemma counted_send_sound:
  assumes "counted_send g m sc called transfer out (r, b) = (res, (r', b'))" and "sound_bindings b T"
  shows "sound_bindings b' (T @ send_events m sc called out b)"
proof (cases out)
  case (Start st hs)
  have "snd (bind_session m sc called st hs b) = b'"
    using assms(1) Start by (auto simp: Let_def split: prod.splits sum.splits)
  moreover have "sound_bindings (snd (bind_session m sc called st hs b)) (T @ send_events m sc called (Start st hs) b)"
  proof -
    consider (hand) "called = JStr (u ''initialize'')" "st = 200" | (ready) "called = JStr (u ''notifications/initialized'')" "st = 202"
      | (none) "\<not> (called = JStr (u ''initialize'') \<and> st = 200)" "\<not> (called = JStr (u ''notifications/initialized'') \<and> st = 202)" by blast
    then show ?thesis
    proof cases
      case hand
      show ?thesis
      proof (cases "handed_session hs")
        case (Inr v)
        show ?thesis
        proof (cases v)
          case (Some s)
          obtain alive b1 where live: "session_live m s b = (alive, b1)" by fastforce
          note b1 = sound_live [OF assms(2) live]
          show ?thesis using hand Inr Some live b1 assms(2)
            by (auto simp: bind_session_def send_events_def sound_bindings_def)
        qed (use hand Inr assms(2) in \<open>simp add: bind_session_def send_events_def\<close>)
      qed (use hand assms(2) in \<open>simp add: bind_session_def send_events_def\<close>)
    next
      case ready
      then have n: "called \<noteq> JStr (u ''initialize'')" by simp
      show ?thesis
      proof (cases "one_header (scope_headers sc) session_header True")
        case (Inr v)
        show ?thesis
        proof (cases v)
          case (Some s)
          obtain alive b1 where live: "session_live m s b = (alive, b1)" by fastforce
          note b1 = sound_live [OF assms(2) live]
          show ?thesis using ready n Inr Some live b1
            by (auto simp: bind_session_def send_events_def sound_bindings_def owner_of_def split: option.splits)
        qed (use ready n Inr assms(2) in \<open>simp add: bind_session_def send_events_def\<close>)
      qed (use ready n assms(2) in \<open>simp add: bind_session_def send_events_def\<close>)
    next
      case none
      then show ?thesis using assms(2) by (auto simp: bind_session_def send_events_def)
    qed
  qed
  ultimately show ?thesis using Start by simp
next
  case (Body bs)
  with assms show ?thesis by (auto simp: send_events_def Let_def split: if_splits option.splits)
next
  case Other
  with assms show ?thesis by (simp add: send_events_def)
qed

lemma sound_trace_snoc:
  assumes "sound_trace g T" and "\<forall>sc. e = Checked sc \<and> is_binary sc \<longrightarrow> served g sc T"
    and "\<forall>sc body called. e = Forwarded sc body called True \<longrightarrow> served g sc T \<and> length body \<le> limit_bytes g"
  shows "sound_trace g (T @ [e])"
proof -
  have "served g sc T1 \<and> length body \<le> limit_bytes g" if "T @ [e] = T1 @ Forwarded sc body called True # T2" for T1 sc body called T2
  proof (cases T2 rule: rev_cases)
    case Nil
    with that assms(3) show ?thesis by auto
  next
    case (snoc ys y)
    with that have "T = T1 @ Forwarded sc body called True # ys" by auto
    with assms(1) show ?thesis unfolding sound_trace_def by blast
  qed
  moreover have "served g sc (T @ [e])" if "Checked sc \<in> set (T @ [e])" "is_binary sc" for sc
    using assms(1,2) that served_more [of g sc T "T @ [e]"] by (auto simp: sound_trace_def)
  ultimately show ?thesis unfolding sound_trace_def by blast
qed

lemma send_events_shape: "send_events m sc called out b = [] \<or> (\<exists>s r. send_events m sc called out b = [Handed s r] \<or> send_events m sc called out b = [Ready s r])"
  by (auto simp: send_events_def split: outgoing.splits sum.splits option.splits)

lemma gate_run_sound: "gate_run pf g b T \<Longrightarrow> sound_bindings b T \<and> sound_trace g T"
proof (induction rule: gate_run.induct)
  case gate_start
  show ?case by (simp add: sound_bindings_def sound_trace_def no_bindings_def)
next
  case (gate_headers b T m sc adm b')
  then have h: "sound_bindings b' T" "adm = Go_On \<and> is_binary sc \<longrightarrow> served g sc T" using admit_headers_sound by blast+
  show ?case
  proof (cases "adm = Go_On")
    case True
    with h gate_headers.IH show ?thesis by (auto intro: sound_more sound_trace_snoc)
  qed (use h gate_headers.IH in simp)
next
  case (gate_body b T sc m ms adm b')
  then have "is_binary sc \<longrightarrow> served g sc T" by (auto simp: sound_trace_def)
  with gate_body have h: "sound_bindings b' T" "\<forall>body called. adm = Forward body called True \<longrightarrow> served g sc T \<and> length body \<le> limit_bytes g"
    using admit_body_sound by blast+
  show ?case
  proof (cases adm)
    case (Forward body called transfer)
    with h gate_body.IH show ?thesis by (auto intro: sound_more sound_trace_snoc)
  qed (use h gate_body.IH in simp_all)
next
  case (gate_send b T sc body called transfer m out r res r' b')
  then have h: "sound_bindings b' (T @ send_events m sc called out b)" using counted_send_sound by blast
  from send_events_shape [of m sc called out b] have "sound_trace g (T @ send_events m sc called out b)"
    using gate_send.IH by (auto intro: sound_trace_snoc)
  with h show ?case by blast
qed

text \<open>
  C35: the transfer service is reached only through a session of one's own. In any run of the gate,
  with requests and responses interleaved as they come and sessions ending whenever the manager says
  so, a transfer request of an authenticated client is forwarded only with a session id that an
  earlier successful handshake answered to that very client, and that a client had completed before;
  if no id is ever answered to two clients, that was the same client. Its body is within the limit,
  and a binary request has named the server instance.
\<close>

theorem transfer_needs_own_session:
  assumes run: "gate_run pf g b T" and T: "T = T1 @ Forwarded sc body called True # T2" and client: "scope_owner sc = Some c"
  shows "length body \<le> limit_bytes g \<and>
    (is_binary sc \<longrightarrow> one_header (scope_headers sc) ''x-mcp-server-instance'' True = Inr (Some (gate_instance g))) \<and>
    (\<exists>s. one_header (scope_headers sc) session_header False = Inr (Some s) \<and> Handed s (Some c) \<in> set T1 \<and>
      (\<exists>r. Ready s r \<in> set T1 \<and> (r = None \<or> Handed s r \<in> set T1 \<and> ((\<forall>c1 c2. Handed s c1 \<in> set T1 \<and> Handed s c2 \<in> set T1 \<longrightarrow> c1 = c2) \<longrightarrow> r = Some c))))"
proof -
  from gate_run_sound [OF run] T have served: "served g sc T1" and len: "length body \<le> limit_bytes g" unfolding sound_trace_def by blast+
  from served client obtain s r where "one_header (scope_headers sc) session_header False = Inr (Some s)" "Handed s (Some c) \<in> set T1" "Ready s r \<in> set T1"
    "r \<noteq> None \<longrightarrow> Handed s r \<in> set T1" unfolding served_def by auto
  moreover from this have "r = None \<or> Handed s r \<in> set T1 \<and> ((\<forall>c1 c2. Handed s c1 \<in> set T1 \<and> Handed s c2 \<in> set T1 \<longrightarrow> c1 = c2) \<longrightarrow> r = Some c)"
    by auto
  ultimately show ?thesis using served len unfolding served_def by blast
qed

section \<open>Bodies of responses\<close>

definition delivered_bytes :: "delivered list \<Rightarrow> nat" where
  "delivered_bytes ds = sum_list (map (\<lambda>d. case d of Message (Body bs) \<Rightarrow> length bs | _ \<Rightarrow> 0) ds)"

lemma delivered_bytes_simps [simp]:
  "delivered_bytes [] = 0" "delivered_bytes (Message (Body bs) # ds) = length bs + delivered_bytes ds" "delivered_bytes (Error_Reply q # ds) = delivered_bytes ds"
  "delivered_bytes (Message (Start st hs) # ds) = delivered_bytes ds" "delivered_bytes (Message Other # ds) = delivered_bytes ds"
  "delivered_bytes (ds @ es) = delivered_bytes ds + delivered_bytes es"
  by (simp_all add: delivered_bytes_def)

text \<open>
  A transfer answer that grows past the limit is never passed on as a success: what was delivered
  stays within the limit, and when nothing had been delivered yet the client gets the error.
\<close>

lemma response_within_limit:
  assumes "counted_send g m sc called True out (r, b) = (res, (r', b'))"
    and "delivered_bytes (delivery r) \<le> body_count r" and "started r \<longrightarrow> body_count r \<le> limit_bytes g" and "\<not> started r \<longrightarrow> delivered_bytes (delivery r) = 0"
  shows "delivered_bytes (delivery r') \<le> limit_bytes g \<and> delivered_bytes (delivery r') \<le> body_count r' \<and> 
    (res \<noteq> Inl body_limit_exceeded \<longrightarrow> (started r' \<longrightarrow> body_count r' \<le> limit_bytes g) \<and> (\<not> started r' \<longrightarrow> delivered_bytes (delivery r') = 0)) \<and>
    (res = Inl body_limit_exceeded \<and> \<not> started r \<longrightarrow> delivery r' = delivery r @ [Error_Reply (Reply 413 ''body_too_large'')])"
proof (cases out)
  case (Start st hs)
  have "bind_session m sc called st hs b \<noteq> (Inl body_limit_exceeded, b1)" for b1
    by (auto simp: bind_session_def handed_session_def body_limit_exceeded_def split: if_splits sum.splits option.splits prod.splits list.splits)
  with assms Start show ?thesis
    by (auto simp: Let_def split: prod.splits sum.splits)
next
  case (Body bs)
  show ?thesis
  proof (cases "limit_bytes g < body_count r + length bs")
    case True
    with assms Body show ?thesis by (auto simp: Let_def)
  next
    case False
    with assms Body show ?thesis
      by (cases "started r"; cases "start_message r") (auto simp: Let_def deliver_def body_limit_exceeded_def)
  qed
next
  case Other
  with assms show ?thesis by (auto simp: deliver_def body_limit_exceeded_def intro: le_trans)
qed

section \<open>Witness\<close>

definition sample_gate :: gate where
  "sample_gate = \<lparr>gate_instance = u ''i'', mcp_path = u ''/mcp'', gate_limit = 2 ^ 20\<rparr>"

definition sample_manager :: sdk_manager where
  "sample_manager = \<lparr>task_group = True, transports = (\<lambda>s. Some \<lparr>terminated = False, idle_scope = None\<rparr>), sdk_clock = 0\<rparr>"

definition sample_call :: "string \<Rightarrow> json" where
  "sample_call name = obj [(''method'', JStr (u name))]"

definition sample_body :: "string \<Rightarrow> byte list" where
  "sample_body name = utf8_bytes (dumps (sample_call name))"

definition named_session :: headers where
  "named_session = [(ascii_bytes ''mcp-session-id'', ascii_bytes ''s'')]"

definition hello_scope :: gate_scope where
  "hello_scope = \<lparr>scope_http = True, scope_path = u ''/mcp'', scope_method = u ''POST'', scope_headers = [], scope_owner = Some (u ''c'')\<rparr>"

definition ready_scope :: gate_scope where
  "ready_scope = hello_scope\<lparr>scope_headers := named_session\<rparr>"

definition chunk_scope :: gate_scope where
  "chunk_scope = ready_scope\<lparr>scope_path := u ''/chunkbin'', scope_headers := named_session @ [(ascii_bytes ''x-mcp-server-instance'', ascii_bytes ''i'')]\<rparr>"

definition bindings_after :: "bool \<Rightarrow> bindings" where
  "bindings_after completed = \<lparr>owners = [u ''s'' \<mapsto> Some (u ''c'')], initialized = (if completed then {u ''s''} else {})\<rparr>"

definition sample_trace :: "event list" where
  "sample_trace = [Checked hello_scope, Forwarded hello_scope (sample_body ''initialize'') (JStr (u ''initialize'')) False, Handed (u ''s'') (Some (u ''c'')),
     Checked ready_scope, Forwarded ready_scope (sample_body ''notifications/initialized'') (JStr (u ''notifications/initialized'')) False,
     Ready (u ''s'') (Some (u ''c'')), Checked chunk_scope]"

lemma sample_header: "one_header named_session session_header req = Inr (Some (u ''s''))"
  "one_header (named_session @ [(ascii_bytes ''x-mcp-server-instance'', ascii_bytes ''i'')]) session_header req = Inr (Some (u ''s''))"
  "one_header (named_session @ [(ascii_bytes ''x-mcp-server-instance'', ascii_bytes ''i'')]) ''x-mcp-server-instance'' req = Inr (Some (u ''i''))"
  by (simp_all add: one_header_def named_session_def session_header_def ascii_bytes_def u_def lower_byte_def is_space_def require_def)

lemma sample_live: "session_live sample_manager s b = (True, b)"
  by (simp add: session_live_def sample_manager_def)

lemma sample_classified:
  assumes "name \<in> {''initialize'', ''notifications/initialized''}"
  shows "classify_call pf (sample_body name) = Inr (JStr (u name), False)" "length (sample_body name) \<le> 100"
proof -
  have ser: "serial (sample_call name)" using assms by (auto simp: sample_call_def serial_obj)
  then have raw: "dumps_utf8 (sample_call name) = Inr (sample_body name)" using scalar_dumps [of "sample_call name"]
    by (simp add: serial_def dumps_utf8_def sample_body_def encode_utf8_def)
  have "wf_json (sample_call name)" using ser by (simp add: serial_def)
  moreover have "plain (sample_call name)" using assms by (auto simp: sample_call_def obj_def)
  ultimately have "strict_json pf (sample_body name) = Inr (sample_call name)" by (rule strict_json_dumps [OF raw])
  then show "classify_call pf (sample_body name) = Inr (JStr (u name), False)"
    using assms by (auto simp: classify_call_def sample_call_def)
  have "length (sample_body name) = cost (sample_call name)" by (simp add: sample_body_def cost_def)
  also have "\<dots> \<le> 100" using assms
    by (auto simp: sample_call_def obj_def cost_simps text_cost_eq u_def char_cost_def)
  finally show "length (sample_body name) \<le> 100" .
qed

lemma sample_admits:
  assumes "name \<in> {''initialize'', ''notifications/initialized''}" and "\<not> is_binary sc"
  shows "admit_body pf sample_gate m sc [Part (sample_body name) False] b = (Forward (sample_body name) (JStr (u name)) False, b)"
  using sample_classified(1) [OF assms(1), of pf] sample_classified(2) [OF assms(1)] assms(2) by (simp add: admit_body_def limit_bytes_def sample_gate_def body_limit_def)

lemma sample_run: "gate_run pf sample_gate (bindings_after True) sample_trace"
proof -
  note scopes = hello_scope_def ready_scope_def chunk_scope_def
  have path: "\<not> is_binary hello_scope" "\<not> is_binary ready_scope" "is_binary chunk_scope" by (simp_all add: is_binary_def scopes u_eq_iff)
  have h1: "admit_headers sample_gate sample_manager hello_scope no_bindings = (Go_On, no_bindings)"
    using path by (simp add: admit_headers_def scopes sample_gate_def one_header_def)
  have r1: "gate_run pf sample_gate no_bindings [Checked hello_scope]"
    using gate_headers [OF gate_start h1] by simp
  have r2: "gate_run pf sample_gate no_bindings (take 2 sample_trace)"
    using gate_body [OF r1 _ sample_admits [of "''initialize''" hello_scope pf sample_manager no_bindings]] path by (simp add: sample_trace_def)
  have first: "owner_of (bindings_after c) (u ''s'') = Some (u ''c'')" for c by (simp add: bindings_after_def owner_of_def)
  have handed: "handed_session named_session = Inr (Some (u ''s''))"
    by (simp add: handed_session_def named_session_def session_header_def ascii_bytes_def u_def lower_byte_def)
  have s1: "counted_send sample_gate sample_manager hello_scope (JStr (u ''initialize'')) False (Start 200 named_session) (fresh_response, no_bindings) =
      (Inr (), (deliver (Start 200 named_session) (fresh_response\<lparr>start_message := Some (200, named_session), started := True\<rparr>), bindings_after False))"
    by (simp add: bind_session_def handed sample_live no_bindings_def bindings_after_def scopes)
  have r3: "gate_run pf sample_gate (bindings_after False) (take 3 sample_trace)"
    using gate_send [where body = "sample_body ''initialize''", OF r2 _ s1]
    by (simp add: sample_trace_def send_events_def handed sample_live scopes)
  have h2: "admit_headers sample_gate sample_manager ready_scope (bindings_after False) = (Go_On, bindings_after False)"
    using path first by (simp add: admit_headers_def scopes sample_gate_def sample_header sample_live)
  have r4: "gate_run pf sample_gate (bindings_after False) (take 4 sample_trace)"
    using gate_headers [OF r3 h2] by (simp add: sample_trace_def)
  have r5: "gate_run pf sample_gate (bindings_after False) (take 5 sample_trace)"
    using gate_body [OF r4 _ sample_admits [of "''notifications/initialized''" ready_scope pf sample_manager "bindings_after False"]] path by (simp add: sample_trace_def)
  have s2: "counted_send sample_gate sample_manager ready_scope (JStr (u ''notifications/initialized'')) False (Start 202 []) (fresh_response, bindings_after False) =
      (Inr (), (deliver (Start 202 []) (fresh_response\<lparr>start_message := Some (202, []), started := True\<rparr>), bindings_after True))"
    using first by (simp add: bind_session_def sample_header sample_live scopes) (simp add: bindings_after_def)
  have r6: "gate_run pf sample_gate (bindings_after True) (take 6 sample_trace)"
    using gate_send [where body = "sample_body ''notifications/initialized''", OF r5 _ s2] first
    by (simp add: sample_trace_def send_events_def sample_header sample_live scopes)
  have h3: "admit_headers sample_gate sample_manager chunk_scope (bindings_after True) = (Go_On, bindings_after True)"
    using path first by (simp add: admit_headers_def check_session_def scopes sample_gate_def sample_header sample_live) (simp add: bindings_after_def)
  show ?thesis using gate_headers [OF r6 h3] by (simp add: sample_trace_def)
qed

theorem transfer_needs_own_session_witness:
  "gate_run (\<lambda>_. FloatNan) sample_gate (bindings_after True) (sample_trace @ [Forwarded chunk_scope [] JNull True]) \<and>
   Handed (u ''s'') (Some (u ''c'')) \<in> set sample_trace \<and> (\<exists>r. Ready (u ''s'') r \<in> set sample_trace)"
proof -
  have "admit_body (\<lambda>_. FloatNan) sample_gate sample_manager chunk_scope [Part [] False] (bindings_after True) = (Forward [] JNull True, bindings_after True)"
    by (simp add: admit_body_def is_binary_def chunk_scope_def)
  from gate_body [OF sample_run _ this] have run: "gate_run (\<lambda>_. FloatNan) sample_gate (bindings_after True) (sample_trace @ [Forwarded chunk_scope [] JNull True])"
    by (simp add: sample_trace_def)
  have "scope_owner chunk_scope = Some (u ''c'')" by (simp add: chunk_scope_def ready_scope_def hello_scope_def)
  from transfer_needs_own_session [OF run refl this] obtain s where
    s: "one_header (scope_headers chunk_scope) session_header False = Inr (Some s)" "Handed s (Some (u ''c'')) \<in> set sample_trace" "\<exists>r. Ready s r \<in> set sample_trace" by blast
  moreover have "s = u ''s''" using s(1) by (simp add: chunk_scope_def sample_header)
  ultimately show ?thesis using run by blast
qed

section \<open>What the endpoint hands on\<close>

definition carried :: "json \<Rightarrow> byte list \<Rightarrow> json" where
  "carried it ch = JObj (items it @ [(u ''data_base64'', JStr (b64encode ch))])"

lemma with_data_chunks:
  assumes "list_all2 (item_ok False) its chunks" and "drop cursor payload = concat chunks @ rest"
  shows "fold_res (with_data payload) its (cursor, acc) = Inr (cursor + length (concat chunks), acc @ map2 carried its chunks)"
  using assms
proof (induction its chunks arbitrary: cursor acc rule: list_all2_induct)
  case (Cons it its ch chunks)
  have count: "nat (int_of (fld ''count'' it)) = length ch" using Cons.hyps(1) by (simp add: item_ok_def)
  have slice: "byte_slice cursor (cursor + length ch) payload = ch" using Cons.prems by (simp add: byte_slice_def)
  have "drop (cursor + length ch) payload = drop (length ch) (drop cursor payload)" by (simp add: add.commute)
  also have "\<dots> = concat chunks @ rest" using Cons.prems by simp
  finally show ?case using Cons.IH by (simp add: with_data_def Let_def count slice carried_def add.assoc)
qed simp

text \<open>
  The service receives one argument per announced chunk, with the digest that was announced, and the
  decoded data of the arguments is the payload, in order.
\<close>

lemma endpoint_hands_on_payload:
  assumes "endpoint_arguments codes pf hs body = Inr (direction, arguments)" and "direction = u ''push''"
  shows "\<exists>header payload chunks. decode codes pf body ''push_request'' = Inr (header, payload) \<and>
    last arguments = (''chunks'', JList (map2 carried (elems (fld ''chunks'' header)) chunks)) \<and>
    list_all2 (item_ok False) (elems (fld ''chunks'' header)) chunks \<and> payload = concat chunks"
proof -
  from assms obtain as header payload st where req: "request_headers hs = Inr (direction, as)" and dec: "decode codes pf body ''push_request'' = Inr (header, payload)"
    and fold: "fold_res (with_data payload) (elems (fld ''chunks'' header)) (0, []) = Inr st" and args: "arguments = as @ [(''chunks'', JList (snd st))]"
    by (auto simp: endpoint_arguments_def rbind_Inr_iff split: prod.splits if_splits)
  from dec have "validate codes header payload ''push_request'' = Inr ()" by (auto simp: decode_def result_iff)
  then have "validate_chunks False 1 (fld ''chunks'' header) payload = Inr ()" by (auto simp: validate_def rbind_Inr_iff)
  then obtain chunks where ch: "list_all2 (item_ok False) (elems (fld ''chunks'' header)) chunks" "payload = concat chunks"
    by (auto simp: validate_chunks_iff)
  from with_data_chunks [OF ch(1), of 0 payload "[]" "[]"] ch(2) fold have "snd st = map2 carried (elems (fld ''chunks'' header)) chunks" by auto
  with dec args ch show ?thesis by (auto simp del: split_paired_Ex)
qed

end
