(* ===== verification/Flow_Spec.thy ===== *)
theory Flow_Spec
  imports Disk Complex_Main
begin

text \<open>
  The request of the flow host: \<open>src/velo_flow/spec.py\<close>. An \<open>Error code\<close> is here a
  \<open>SpecError(code)\<close>, a \<open>PyError\<close> any other exception, which its callers do not expect. Numbers of
  seconds are rationals. A \<open>Path\<close> is its spelling with its parts.
\<close>

section \<open>Fields\<close>

definition spec_max_bytes :: nat where
  "spec_max_bytes = 65536"

definition text_id :: "json \<Rightarrow> string \<Rightarrow> pystr result" where
  "text_id v field =
     rbind (require (is_str v \<and> str_of v \<noteq> [] \<and> length (str_of v) \<le> 256 \<and> \<not> list_ex (\<lambda>c. c < 32 \<or> c = 127) (str_of v))
       (Error (''invalid_'' @ field))) (\<lambda>_.
     Inr (str_of v))"

type_synonym pure_path = "pystr \<times> path"

definition pure_absolute :: "json \<Rightarrow> string \<Rightarrow> pure_path result" where
  "pure_absolute v field =
     (let bad = Error (''invalid_'' @ field); raw = str_of v in
      rbind (require (is_str v \<and> raw \<noteq> [] \<and> length raw \<le> 4096) bad) (\<lambda>_.
      case absolute_path raw of
        None \<Rightarrow> Inl bad
      | Some p \<Rightarrow> rbind (require (u ''..'' \<notin> set p) bad) (\<lambda>_. Inr (path_spelling raw p, p))))"

definition invalid_budget :: exn where
  "invalid_budget = Error ''invalid_budget''"

definition budget_integer :: "json \<Rightarrow> int \<Rightarrow> int \<Rightarrow> int result" where
  "budget_integer v minimum maximum =
     rbind (require (is_int v \<and> minimum \<le> int_of v \<and> int_of v \<le> maximum) invalid_budget) (\<lambda>_. Inr (int_of v))"

text \<open>
  \<open>math.isfinite\<close> converts an integer to a float first, which raises for what rounds beyond the largest one.
\<close>

definition is_finite :: "json \<Rightarrow> bool result" where
  "is_finite v = (case v of
     JInt i \<Rightarrow> if 2 ^ 1024 - 2 ^ 970 \<le> \<bar>i\<bar> then Inl (PyError ''OverflowError'') else Inr True
   | JFloat f \<Rightarrow> Inr (isfinite f)
   | _ \<Rightarrow> Inl (PyError ''TypeError''))"

definition dec_rat :: "int \<times> int \<Rightarrow> rat" where
  "dec_rat x = (if 0 \<le> snd x then of_int (fst x * 10 ^ nat (snd x)) else of_int (fst x) / of_int (10 ^ nat (- snd x)))"

fun is_number :: "json \<Rightarrow> bool" where
  "is_number (JInt i) = True"
| "is_number (JFloat f) = True"
| "is_number v = False"

definition budget_number :: "json \<Rightarrow> int \<times> int \<Rightarrow> int \<times> int \<Rightarrow> rat result" where
  "budget_number v minimum maximum =
     rbind (require (is_number v) invalid_budget) (\<lambda>_.
     rbind (is_finite v) (\<lambda>finite.
     case (if finite then num_val v else None) of
       None \<Rightarrow> Inl invalid_budget
     | Some x \<Rightarrow> rbind (require (dec_le minimum x \<and> dec_le x maximum) invalid_budget) (\<lambda>_. Inr (dec_rat x))))"

section \<open>The whole request\<close>

record flow_spec =
  flow_id :: pystr
  profile_path :: pure_path
  output_dir :: pure_path
  flow_source :: "pystr option"
  page_size :: int
  sample_fields :: "pystr list"
  sample_limit :: int
  deadline_seconds :: rat
  request_timeout :: rat
  max_status_calls :: int
  max_pages :: int
  max_result_bytes :: int
  max_log_bytes :: int

definition required_fields :: "string list" where
  "required_fields = [''schema'', ''flow_id'', ''connection_profile'', ''output_dir'', ''budget'']"

definition optional_fields :: "string list" where
  "optional_fields = [''source'', ''page_size'', ''sample_fields'', ''sample_rows'']"

definition budget_fields :: "string list" where
  "budget_fields = [''deadline_seconds'', ''request_timeout_seconds'', ''max_status_calls'', ''max_pages'', ''max_result_bytes'', ''max_log_bytes'']"

definition get_or :: "string \<Rightarrow> json \<Rightarrow> json \<Rightarrow> json" where
  "get_or k v d = (case dget k v of None \<Rightarrow> d | Some w \<Rightarrow> w)"

definition keys_within :: "json \<Rightarrow> string list \<Rightarrow> bool" where
  "keys_within v ks \<longleftrightarrow> list_all (\<lambda>k. k \<in> set (map u ks)) (jkeys v)"

text \<open>The six figures of the budget, each with its default and its range.\<close>

definition parse_budget :: "json \<Rightarrow> (rat \<times> rat \<times> int \<times> int \<times> int \<times> int) result" where
  "parse_budget v =
     rbind (require (is_obj v \<and> keys_within v budget_fields) invalid_budget) (\<lambda>_.
     rbind (budget_number (get_or ''deadline_seconds'' v (JFloat (FloatNum False 12 1))) (1, - 1) (3600, 0)) (\<lambda>deadline.
     rbind (budget_number (get_or ''request_timeout_seconds'' v (JFloat (FloatNum False 3 1))) (1, - 2) (120, 0)) (\<lambda>timeout.
     rbind (budget_integer (get_or ''max_status_calls'' v (JInt 64)) 1 512) (\<lambda>calls.
     rbind (budget_integer (get_or ''max_pages'' v (JInt 100)) 1 1000) (\<lambda>pages.
     rbind (budget_integer (get_or ''max_result_bytes'' v (JInt 67108864)) 1 268435456) (\<lambda>rows.
     rbind (budget_integer (get_or ''max_log_bytes'' v (JInt 67108864)) 1048576 268435456) (\<lambda>logged.
     Inr (deadline, timeout, calls, pages, rows, logged))))))))"

definition spec_source :: "json \<Rightarrow> pystr option result" where
  "spec_source v = (if v = JNull then Inr None else rbind (text_id v ''source'') (\<lambda>s. Inr (Some s)))"

definition small_int :: "json \<Rightarrow> int \<Rightarrow> int \<Rightarrow> string \<Rightarrow> int result" where
  "small_int v minimum maximum code =
     rbind (require (is_int v \<and> minimum \<le> int_of v \<and> int_of v \<le> maximum) (Error code)) (\<lambda>_. Inr (int_of v))"

definition spec_samples :: "json \<Rightarrow> pystr list result" where
  "spec_samples v = (case v of
     JList xs \<Rightarrow> rbind (require (length xs \<le> 32 \<and> list_all (\<lambda>x. is_str x \<and> str_of x \<noteq> [] \<and> length (str_of x) \<le> 128) xs)
       (Error ''invalid_sample_fields'')) (\<lambda>_. Inr (map str_of xs))
   | _ \<Rightarrow> Inl (Error ''invalid_sample_fields''))"

text \<open>The encoding of the directory's name is not guarded: a name with a lone surrogate raises.\<close>

definition spec_directory :: "json \<Rightarrow> pure_path result" where
  "spec_directory v =
     rbind (pure_absolute v ''output_dir'') (\<lambda>p.
     rbind (encode_utf8 (fst p)) (\<lambda>raw.
     rbind (require (length raw \<le> 512) (Error ''invalid_output_dir'')) (\<lambda>_.
     Inr p)))"

definition spec_data :: "json \<Rightarrow> flow_spec result" where
  "spec_data data =
     rbind (require (is_obj data) (Error ''invalid_spec'')) (\<lambda>_.
     rbind (require (keys_within data (required_fields @ optional_fields) \<and> list_all (\<lambda>k. u k \<in> set (jkeys data)) required_fields)
       (Error ''invalid_spec'')) (\<lambda>_.
     rbind (require (fld ''schema'' data = JStr (u ''velo.flow.request.v1'')) (Error ''invalid_schema'')) (\<lambda>_.
     rbind (parse_budget (fld ''budget'' data)) (\<lambda>(deadline, timeout, calls, pages, rows, logged).
     rbind (spec_source (get_or ''source'' data JNull)) (\<lambda>source.
     rbind (small_int (get_or ''page_size'' data (JInt 250)) 1 250 ''invalid_page_size'') (\<lambda>size_of_page.
     rbind (spec_samples (get_or ''sample_fields'' data (JList []))) (\<lambda>fields.
     rbind (small_int (get_or ''sample_rows'' data (JInt 10)) 0 10 ''invalid_sample_rows'') (\<lambda>samples.
     rbind (spec_directory (fld ''output_dir'' data)) (\<lambda>directory.
     rbind (text_id (fld ''flow_id'' data) ''flow_id'') (\<lambda>flow.
     rbind (pure_absolute (fld ''connection_profile'' data) ''connection_profile'') (\<lambda>profile.
     Inr \<lparr>flow_id = flow, profile_path = profile, output_dir = directory, flow_source = source, page_size = size_of_page,
       sample_fields = fields, sample_limit = samples, deadline_seconds = deadline, request_timeout = timeout,
       max_status_calls = calls, max_pages = pages, max_result_bytes = rows, max_log_bytes = logged\<rparr>)))))))))))"

definition spec_json :: "(pystr \<Rightarrow> pyfloat) \<Rightarrow> byte list \<Rightarrow> json result" where
  "spec_json pf raw =
     (case rbind (decode_utf8 raw) (loads pf (unique_pairs (Error ''duplicate_key'')) (no_constant (Error ''invalid_number''))) of
        Inl (PyError x) \<Rightarrow> Inl (Error ''invalid_json'')
      | r \<Rightarrow> r)"

definition parse_spec :: "(pystr \<Rightarrow> pyfloat) \<Rightarrow> byte list \<Rightarrow> flow_spec result" where
  "parse_spec pf raw =
     rbind (require (raw \<noteq> [] \<and> length raw \<le> spec_max_bytes) (Error ''spec_too_large'')) (\<lambda>_.
     rbind (spec_json pf raw) spec_data)"

text \<open>Opening a file follows a link at its end, which \<open>lookup\<close> does not.\<close>

fun opened :: "node option \<Rightarrow> byte list result" where
  "opened (Some (FileN st bs)) = Inr bs"
| "opened (Some (LinkN t)) = opened t"
| "opened n = Inl (PyError ''OSError'')"

definition load_spec :: "(pystr \<Rightarrow> pyfloat) \<Rightarrow> node \<Rightarrow> path \<Rightarrow> flow_spec result" where
  "load_spec pf fs p = (case opened (lookup fs p) of
     Inl x \<Rightarrow> Inl (Error ''spec_unreadable'')
   | Inr bs \<Rightarrow> parse_spec pf (take (spec_max_bytes + 1) bs))"

section \<open>The output directory\<close>

text \<open>
  A path with a null character has no file; \<open>lexists\<close> and \<open>is_dir\<close> say so, but \<open>lstat\<close> raises for it.
\<close>

definition has_null :: "path \<Rightarrow> bool" where
  "has_null p \<longleftrightarrow> list_ex (\<lambda>part. 0 \<in> set part) p"

definition check_output_ancestor :: "node \<Rightarrow> path \<Rightarrow> path \<Rightarrow> unit result" where
  "check_output_ancestor fs p q =
     (if has_null q then Inl (PyError ''ValueError'')
      else case lookup fs q of
        None \<Rightarrow> Inr ()
      | Some (LinkN t) \<Rightarrow> Inl (Error ''output_dir_symlink'')
      | Some n \<Rightarrow> require (q = p \<or> is_dir n) (Error ''output_dir_symlink''))"

definition ancestors_of :: "path \<Rightarrow> path list" where
  "ancestors_of p = rev (map (\<lambda>i. take i p) [0..<Suc (length p)])"

definition create_output_dir :: "env \<Rightarrow> path \<Rightarrow> (node, path) io" where
  "create_output_dir e p =
     io_bind (io_lift (require (u ''..'' \<notin> set p \<and> [] \<notin> set p \<and> u ''.'' \<notin> set p) (Error ''invalid_output_dir''))) (\<lambda>_.
     io_bind (io_ask (\<lambda>fs. require (has_null p \<or> lookup fs p = None) (Error ''output_dir_exists''))) (\<lambda>_.
     io_bind (io_ask (\<lambda>fs. require (\<not> has_null (butlast p) \<and> path_is_dir fs (butlast p)) (Error ''output_parent_missing''))) (\<lambda>_.
     io_bind (io_ask (\<lambda>fs. for_each (check_output_ancestor fs p) (ancestors_of p))) (\<lambda>_.
     (\<lambda>fs. case (if env_fault e = No_Fault then put_node (env_world e) p (private_dir e p) fs else None) of
        None \<Rightarrow> (Inl (Error ''output_dir_create_failed''), fs)
      | Some fs1 \<Rightarrow> (Inr p, fs1))))))"

text \<open>\<open>open(path, "xb")\<close>: a file that exists is never opened.\<close>

definition open_exclusive :: "env \<Rightarrow> path \<Rightarrow> (node, unit) io" where
  "open_exclusive e p fs = (case (if env_fault e = No_Fault then put_node (env_world e) p (new_file e p []) fs else None) of
     None \<Rightarrow> (Inl (Error ''output_file_conflict''), fs)
   | Some fs1 \<Rightarrow> (Inr (), fs1))"

end
