(* ===== verification/Flow.thy ===== *)
theory Flow
  imports Flow_Spec
begin

text \<open>
  One run of the flow host: \<open>src/velo_flow/coordinator.py\<close> and the part of \<open>execute\<close> in
  \<open>src/velo_flow/__main__.py\<close> that starts when the output directory is open. The session is an
  argument: for every call it says how long the answer takes and what it is, and the schema validator is
  another. The clock moves only while a call is awaited or the run sleeps. What a stream of the output
  directory holds is what its writes accepted; a write may accept a part and fail.
\<close>

section \<open>How a run stops\<close>

text \<open>
  \<open>Stop outcome reason\<close> is a \<open>RunStop\<close>; \<open>Broken\<close> is any other exception, which \<open>run\<close> does not catch.
\<close>

datatype stop = Stop string pystr | Broken exn

definition failed :: "string \<Rightarrow> stop" where
  "failed reason = Stop ''failed'' (u reason)"

definition partial_stop :: "string \<Rightarrow> stop" where
  "partial_stop reason = Stop ''partial'' (u reason)"

record flow_run =
  clock :: rat
  asked :: nat
  listed :: nat
  written :: nat
  contract_file :: "byte list option"
  calls_file :: "byte list"
  rows_file :: "byte list"
  calls_bytes :: nat
  rows_bytes :: nat
  calls_complete :: bool
  call_counts :: "string \<Rightarrow> nat"
  validators :: "string \<Rightarrow> json \<times> json"
  warnings_count :: nat
  pages_fetched :: nat
  pages_saved :: nat
  rows_fetched :: nat
  rows_saved :: nat
  next_unread :: json
  files_count :: "nat option"
  files_complete :: "bool option"
  samples :: "json list"
  last_state :: json
  downgrade :: "(string \<times> pystr) option"

type_synonym 'a act = "flow_run \<Rightarrow> (stop + 'a) \<times> flow_run"

definition act_bind :: "'a act \<Rightarrow> ('a \<Rightarrow> 'b act) \<Rightarrow> 'b act" where
  "act_bind m f s = (case m s of (Inl x, s1) \<Rightarrow> (Inl x, s1) | (Inr v, s1) \<Rightarrow> f v s1)"

definition act_return :: "'a \<Rightarrow> 'a act" where
  "act_return v s = (Inr v, s)"

definition act_stop :: "stop \<Rightarrow> 'a act" where
  "act_stop x s = (Inl x, s)"

definition act_get :: "(flow_run \<Rightarrow> 'a) \<Rightarrow> 'a act" where
  "act_get f s = (Inr (f s), s)"

definition act_put :: "(flow_run \<Rightarrow> flow_run) \<Rightarrow> unit act" where
  "act_put f s = (Inr (), f s)"

definition act_check :: "bool \<Rightarrow> stop \<Rightarrow> unit act" where
  "act_check b x s = (if b then Inr () else Inl x, s)"

text \<open>A computation of the language whose exception nobody expects, and one whose exception becomes a stop.\<close>

definition act_lift :: "'a result \<Rightarrow> 'a act" where
  "act_lift r s = (case r of Inl x \<Rightarrow> Inl (Broken x) | Inr v \<Rightarrow> Inr v, s)"

definition act_guard :: "'a result \<Rightarrow> stop \<Rightarrow> 'a act" where
  "act_guard r x s = (case r of Inl y \<Rightarrow> Inl x | Inr v \<Rightarrow> Inr v, s)"

section \<open>The world of a run\<close>

record tool =
  tool_name :: pystr
  input_schema :: json
  output_schema :: json

record tool_page =
  page_tools :: "tool list"
  page_cursor :: "pystr option"

text \<open>\<open>dumped\<close> is what \<open>model_dump\<close> makes of the whole answer.\<close>

record call_result =
  is_error :: bool
  structured :: json
  dumped :: json

text \<open>What awaiting a call gives: its answer, a \<open>TimeoutError\<close> of its own, or any other exception.\<close>

datatype 'a awaited = Answer 'a | Timed_Out | Raised

text \<open>
  \<open>conforms\<close> is \<open>Draft202012Validator(schema).is_valid\<close>,
  which may raise, \<open>schema_ok\<close> whether \<open>check_schema\<close> returns. \<open>write_fault n\<close> is how many bytes the
  \<open>n\<close>th write accepts before it fails.
\<close>

record session =
  tools_answer :: "nat \<Rightarrow> pystr option \<Rightarrow> rat \<times> tool_page awaited"
  call_answer :: "nat \<Rightarrow> string \<Rightarrow> json \<Rightarrow> rat \<times> call_result awaited"
  schema_ok :: "json \<Rightarrow> bool"
  conforms :: "json \<Rightarrow> json \<Rightarrow> bool result"
  oversleep :: "nat \<Rightarrow> rat"
  write_fault :: "nat \<Rightarrow> nat option"
  contract_open :: bool

definition remaining :: "rat \<Rightarrow> flow_run \<Rightarrow> rat" where
  "remaining deadline s = deadline - clock s"

text \<open>
  \<open>_bounded\<close>: an answer that takes longer than the binding limit is a time-out, and the limit that was in
  force when the call started says which. Past the deadline the call is not started.
\<close>

definition bounded :: "flow_spec \<Rightarrow> rat \<Rightarrow> (nat \<Rightarrow> rat \<times> 'a awaited) \<Rightarrow> 'a act" where
  "bounded sp deadline start =
     act_bind (act_get (remaining deadline)) (\<lambda>before.
     if before \<le> 0 then act_stop (partial_stop ''deadline_exceeded'')
     else
       act_bind (act_get asked) (\<lambda>n.
       let timeout = min before (request_timeout sp); elapsed = max 0 (fst (start n)) in
       act_bind (act_put (\<lambda>s. s\<lparr>asked := n + 1, clock := clock s + min elapsed timeout\<rparr>)) (\<lambda>_.
       case (if timeout < elapsed then Timed_Out else snd (start n)) of
         Answer a \<Rightarrow> act_return a
       | Timed_Out \<Rightarrow> act_stop (if before \<le> request_timeout sp then partial_stop ''deadline_exceeded'' else failed ''request_timeout'')
       | Raised \<Rightarrow> act_stop (failed ''call_failed''))))"

section \<open>The output\<close>

definition log_limit :: nat where
  "log_limit = 1048576"

text \<open>One write to a stream: what it accepts is kept by \<open>keep\<close>.\<close>

definition write_out :: "session \<Rightarrow> (byte list \<Rightarrow> flow_run \<Rightarrow> flow_run) \<Rightarrow> byte list \<Rightarrow> unit act" where
  "write_out w keep raw s =
     (let s1 = s\<lparr>written := written s + 1\<rparr> in
      case write_fault w (written s) of
        None \<Rightarrow> (Inr (), keep raw s1)
      | Some k \<Rightarrow> (Inl (failed ''io_error''), keep (take k raw) s1))"

definition keep_call :: "byte list \<Rightarrow> flow_run \<Rightarrow> flow_run" where
  "keep_call raw s = s\<lparr>calls_file := calls_file s @ raw\<rparr>"

definition keep_row :: "byte list \<Rightarrow> flow_run \<Rightarrow> flow_run" where
  "keep_row raw s = s\<lparr>rows_file := rows_file s @ raw\<rparr>"

definition json_line :: "json \<Rightarrow> byte list result" where
  "json_line v = rbind (dumps_utf8 v) (\<lambda>raw. Inr (raw @ [10]))"

definition call_record :: "string \<Rightarrow> json \<Rightarrow> json \<Rightarrow> json" where
  "call_record name args response = obj [(''name'', JStr (u name)), (''args'', args), (''response'', response)]"

definition call_marker :: "string \<Rightarrow> json \<Rightarrow> json" where
  "call_marker name args = obj [(''name'', JStr (u name)), (''args'', args), (''response_omitted'', JBool True),
     (''raw_completeness'', JStr (u ''unknown'')), (''reason'', JStr (u ''raw_record_too_large''))]"

definition append_call :: "session \<Rightarrow> string \<Rightarrow> json \<Rightarrow> call_result \<Rightarrow> unit act" where
  "append_call w name args r =
     act_bind (act_lift (json_line (call_record name args (dumped r)))) (\<lambda>full.
     let oversized = log_limit < length full in
     act_bind (if oversized then act_lift (json_line (call_marker name args)) else act_return full) (\<lambda>raw.
     act_bind (write_out w keep_call raw) (\<lambda>_.
     act_bind (act_put (\<lambda>s. s\<lparr>calls_bytes := calls_bytes s + length raw\<rparr>)) (\<lambda>_.
     if oversized then
       act_bind (act_put (\<lambda>s. s\<lparr>calls_complete := False\<rparr>)) (\<lambda>_. act_stop (failed ''raw_record_too_large''))
     else act_return ()))))"

fun append_rows :: "session \<Rightarrow> byte list list \<Rightarrow> unit act" where
  "append_rows w [] = write_out w (\<lambda>raw s. s) []"
| "append_rows w (line # lines) =
     act_bind (write_out w keep_row line) (\<lambda>_.
     act_bind (act_put (\<lambda>s. s\<lparr>rows_bytes := rows_bytes s + length line\<rparr>)) (\<lambda>_.
     append_rows w lines))"

text \<open>\<open>json.dumps(value, ensure_ascii=False, indent=1)\<close>, which writes infinities and NaN.\<close>

fun pretty_float :: "pyfloat \<Rightarrow> pystr" where
  "pretty_float (FloatNum neg m e) = float_text neg m e"
| "pretty_float (FloatInf neg) = (if neg then u ''-Infinity'' else u ''Infinity'')"
| "pretty_float FloatNan = u ''NaN''"

definition new_line :: "nat \<Rightarrow> pystr" where
  "new_line n = 10 # replicate n 32"

fun commas :: "pystr \<Rightarrow> pystr list \<Rightarrow> pystr" where
  "commas sep [] = []"
| "commas sep [x] = x"
| "commas sep (x # y # xs) = x @ 44 # sep @ commas sep (y # xs)"

fun pretty :: "nat \<Rightarrow> json \<Rightarrow> pystr" where
  "pretty n (JFloat f) = pretty_float f"
| "pretty n (JList xs) = (if xs = [] then [91, 93]
     else 91 # new_line (n + 1) @ commas (new_line (n + 1)) (map (pretty (n + 1)) xs) @ new_line n @ [93])"
| "pretty n (JObj kvs) = (if kvs = [] then [123, 125]
     else 123 # new_line (n + 1) @ commas (new_line (n + 1)) (map (\<lambda>(k, v). json_string k @ [58, 32] @ pretty (n + 1) v) kvs) @ new_line n @ [125])"
| "pretty n v = dumps v"

fun indentable :: "json \<Rightarrow> bool" where
  "indentable (JInt i) = int_printable i"
| "indentable (JList xs) = list_all indentable xs"
| "indentable (JObj kvs) = list_all (\<lambda>(k, v). indentable v) kvs"
| "indentable v = True"

definition write_contract :: "session \<Rightarrow> json \<Rightarrow> unit act" where
  "write_contract w v =
     act_bind (act_lift (require (contract_open w) (Error ''output_file_conflict''))) (\<lambda>_.
     act_bind (act_lift (rbind (require (indentable v) (PyError ''ValueError'')) (\<lambda>_. encode_utf8 (pretty 0 v)))) (\<lambda>raw.
     write_out w (\<lambda>bs s. s\<lparr>contract_file := Some bs\<rparr>) raw))"

section \<open>One call of a tool\<close>

definition status_tool :: string where
  "status_tool = ''get_flow_status''"

definition results_tool :: string where
  "results_tool = ''get_flow_results''"

definition files_tool :: string where
  "files_tool = ''list_flow_files''"

definition required_tools :: "string list" where
  "required_tools = [status_tool, results_tool, files_tool]"

definition error_code :: "json \<Rightarrow> pystr act" where
  "error_code payload = (case fld ''code'' payload of
     JStr s \<Rightarrow> if s = [] then act_return (u ''tool_error'')
       else act_bind (act_lift (encode_utf8 s)) (\<lambda>raw. act_return (if length raw \<le> 128 then s else u ''tool_error''))
   | _ \<Rightarrow> act_return (u ''tool_error''))"

definition checked :: "session \<Rightarrow> string \<Rightarrow> call_result \<Rightarrow> json act" where
  "checked w name r =
     (let payload = structured r in
      if is_error r then act_bind (error_code payload) (\<lambda>code. act_stop (Stop ''failed'' code))
      else
        act_bind (act_check (is_obj payload) (failed ''protocol_error'')) (\<lambda>_.
        act_bind (act_check (fld ''operation'' payload = JStr (u name) \<and> fld ''status'' payload = JStr (u ''success'')) (failed ''protocol_error'')) (\<lambda>_.
        act_bind (act_get (\<lambda>s. snd (validators s name))) (\<lambda>schema.
        act_bind (act_lift (conforms w schema payload)) (\<lambda>ok.
        act_bind (act_check ok (failed ''schema_mismatch'')) (\<lambda>_.
        act_return payload))))))"

definition call_tool :: "session \<Rightarrow> flow_spec \<Rightarrow> rat \<Rightarrow> string \<Rightarrow> json \<Rightarrow> json act" where
  "call_tool w sp deadline name args =
     act_bind (act_get (\<lambda>s. int (calls_bytes s + log_limit) \<le> max_log_bytes sp)) (\<lambda>room.
     act_bind (act_check room (partial_stop ''log_budget'')) (\<lambda>_.
     act_bind (act_get (\<lambda>s. fst (validators s name))) (\<lambda>schema.
     act_bind (act_lift (conforms w schema args)) (\<lambda>ok.
     act_bind (act_check ok (failed ''invalid_arguments'')) (\<lambda>_.
     act_bind (act_put (\<lambda>s. s\<lparr>call_counts := (call_counts s)(name := call_counts s name + 1)\<rparr>)) (\<lambda>_.
     act_bind (bounded sp deadline (\<lambda>n. call_answer w n name args)) (\<lambda>r.
     act_bind (append_call w name args r) (\<lambda>_.
     checked w name r))))))))"

section \<open>The contract\<close>

text \<open>\<open>found\<close> is kept in the order of discovery.\<close>

fun add_tools :: "tool list \<Rightarrow> (pystr \<times> tool) list \<Rightarrow> (pystr \<times> tool) list act" where
  "add_tools [] found = act_return found"
| "add_tools (t # ts) found =
     (if tool_name t \<in> set (map fst found) then act_stop (failed ''duplicate_tool'')
      else add_tools ts (found @ [(tool_name t, t)]))"

definition all_found :: "(pystr \<times> tool) list \<Rightarrow> bool" where
  "all_found found \<longleftrightarrow> list_all (\<lambda>name. u name \<in> set (map fst found)) required_tools"

definition list_limit :: nat where
  "list_limit = 16"

fun find_tools :: "session \<Rightarrow> flow_spec \<Rightarrow> rat \<Rightarrow> nat \<Rightarrow> pystr option \<Rightarrow> pystr list \<Rightarrow> (pystr \<times> tool) list \<Rightarrow> (pystr \<times> tool) list act" where
  "find_tools w sp deadline 0 cursor seen found = act_stop (failed ''tools_missing'')"
| "find_tools w sp deadline (Suc k) cursor seen found =
     act_bind (bounded sp deadline (\<lambda>n. tools_answer w n cursor)) (\<lambda>page.
     act_bind (act_put (\<lambda>s. s\<lparr>listed := listed s + 1\<rparr>)) (\<lambda>_.
     act_bind (add_tools (page_tools page) found) (\<lambda>found1.
     if all_found found1 then act_return found1
     else case page_cursor page of
       None \<Rightarrow> act_stop (failed ''tools_missing'')
     | Some c \<Rightarrow>
         if c \<in> set seen then act_stop (failed ''protocol_error'')
         else find_tools w sp deadline k (Some c) (c # seen) found1)))"

definition found_tool :: "(pystr \<times> tool) list \<Rightarrow> string \<Rightarrow> tool" where
  "found_tool found name = (case map_of found (u name) of Some t \<Rightarrow> t | None \<Rightarrow> \<lparr>tool_name = [], input_schema = JNull, output_schema = JNull\<rparr>)"

fun adopt_tools :: "session \<Rightarrow> (pystr \<times> tool) list \<Rightarrow> string list \<Rightarrow> unit act" where
  "adopt_tools w found [] = act_return ()"
| "adopt_tools w found (name # rest) =
     (let t = found_tool found name in
      act_bind (act_check (schema_ok w (input_schema t) \<and> schema_ok w (output_schema t)) (failed ''schema_invalid'')) (\<lambda>_.
      act_bind (act_put (\<lambda>s. s\<lparr>validators := (validators s)(name := (input_schema t, output_schema t))\<rparr>)) (\<lambda>_.
      adopt_tools w found rest)))"

definition contract_of :: "(pystr \<times> tool) list \<Rightarrow> json" where
  "contract_of found = obj (map (\<lambda>name. let t = found_tool found name in
     (name, obj [(''inputSchema'', input_schema t), (''outputSchema'', output_schema t)])) required_tools)"

definition load_contract :: "session \<Rightarrow> flow_spec \<Rightarrow> rat \<Rightarrow> unit act" where
  "load_contract w sp deadline =
     act_bind (find_tools w sp deadline list_limit None [] []) (\<lambda>found.
     act_bind (adopt_tools w found required_tools) (\<lambda>_.
     write_contract w (contract_of found)))"

section \<open>Waiting for the end of the flow\<close>

fun py_len :: "json \<Rightarrow> nat result" where
  "py_len (JList xs) = Inr (length xs)"
| "py_len (JStr s) = Inr (length s)"
| "py_len (JObj kvs) = Inr (length kvs)"
| "py_len v = Inl (PyError ''TypeError'')"

definition count_warnings :: "json \<Rightarrow> unit act" where
  "count_warnings payload =
     act_bind (act_lift (py_len (get_or ''warnings'' payload (JList [])))) (\<lambda>n.
     act_put (\<lambda>s. s\<lparr>warnings_count := warnings_count s + n\<rparr>))"

definition backoff :: "nat \<Rightarrow> rat" where
  "backoff i = [1, 2, 4, 8, 10] ! min i 4"

definition status_args :: "flow_spec \<Rightarrow> json" where
  "status_args sp = obj [(''flow_id'', JStr (flow_id sp))]"

text \<open>One look at the status: whether the flow is finished.\<close>

definition look_status :: "session \<Rightarrow> flow_spec \<Rightarrow> rat \<Rightarrow> bool act" where
  "look_status w sp deadline =
     act_bind (call_tool w sp deadline status_tool (status_args sp)) (\<lambda>payload.
     act_bind (act_lift (item ''state'' payload)) (\<lambda>state.
     act_bind (act_put (\<lambda>s. s\<lparr>last_state := state\<rparr>)) (\<lambda>_.
     act_bind (count_warnings payload) (\<lambda>_.
     act_bind (act_lift (item ''flow_id'' payload)) (\<lambda>flow.
     act_bind (act_check (flow = JStr (flow_id sp)) (failed ''protocol_error'')) (\<lambda>_.
     if state = JStr (u ''FINISHED'') then act_return True
     else act_bind (act_check (state \<noteq> JStr (u ''ERROR'')) (failed ''flow_error'')) (\<lambda>_. act_return False)))))))"

definition sleep :: "session \<Rightarrow> rat \<Rightarrow> nat \<Rightarrow> unit act" where
  "sleep w deadline i =
     act_bind (act_get (\<lambda>s. min (backoff i) (remaining deadline s))) (\<lambda>delay.
     act_bind (act_check (0 < delay) (partial_stop ''deadline_exceeded'')) (\<lambda>_.
     act_put (\<lambda>s. s\<lparr>clock := clock s + delay + max 0 (oversleep w i)\<rparr>)))"

function wait_finished :: "session \<Rightarrow> flow_spec \<Rightarrow> rat \<Rightarrow> nat \<Rightarrow> unit act" where
  "wait_finished w sp deadline calls s =
     (if max_status_calls sp \<le> int calls then (Inl (partial_stop ''status_budget''), s)
      else case look_status w sp deadline s of
        (Inl x, s1) \<Rightarrow> (Inl x, s1)
      | (Inr True, s1) \<Rightarrow> (Inr (), s1)
      | (Inr False, s1) \<Rightarrow>
          (case sleep w deadline calls s1 of
             (Inl x, s2) \<Rightarrow> (Inl x, s2)
           | (Inr v, s2) \<Rightarrow> wait_finished w sp deadline (calls + 1) s2))"
  by pat_completeness auto
termination
  by (relation "measure (\<lambda>(w, sp, deadline, calls, s). nat (max_status_calls sp) - calls)") auto

declare wait_finished.simps [simp del]

section \<open>The pages of the result\<close>

text \<open>What a loop over a value of the language goes through.\<close>

fun py_iter :: "json \<Rightarrow> json list result" where
  "py_iter (JList xs) = Inr xs"
| "py_iter (JStr s) = Inr (map (\<lambda>c. JStr [c]) s)"
| "py_iter (JObj kvs) = Inr (map (JStr \<circ> fst) kvs)"
| "py_iter v = Inl (PyError ''TypeError'')"

definition contains :: "pystr \<Rightarrow> pystr \<Rightarrow> bool" where
  "contains part s \<longleftrightarrow> list_ex (\<lambda>i. starts_with part (drop i s)) [0..<Suc (length s)]"

definition member_of :: "json \<Rightarrow> pystr \<Rightarrow> bool result" where
  "member_of row name = (case row of
     JObj kvs \<Rightarrow> Inr (name \<in> set (map fst kvs))
   | JList xs \<Rightarrow> Inr (JStr name \<in> set xs)
   | JStr s \<Rightarrow> Inr (contains name s)
   | _ \<Rightarrow> Inl (PyError ''TypeError''))"

text \<open>\<open>{name: row[name] for name in sample_fields if name in row}\<close>; a repeated name is one key.\<close>

fun project_row :: "json \<Rightarrow> pystr list \<Rightarrow> (pystr \<times> json) list \<Rightarrow> json result" where
  "project_row row [] acc = Inr (JObj acc)"
| "project_row row (name # others) acc =
     rbind (member_of row name) (\<lambda>there.
     if \<not> there then project_row row others acc
     else case row of
       JObj kvs \<Rightarrow> project_row row others (AList.update name (the (map_of kvs name)) acc)
     | _ \<Rightarrow> Inl (PyError ''TypeError''))"

definition sample_row_limit :: nat where
  "sample_row_limit = 4096"

fun extend_sample :: "flow_spec \<Rightarrow> json list \<Rightarrow> unit act" where
  "extend_sample sp [] = act_return ()"
| "extend_sample sp (row # rows) =
     act_bind (act_get (\<lambda>s. int (length (samples s)) < sample_limit sp)) (\<lambda>room.
     if \<not> room then act_return ()
     else
       act_bind (act_lift (if sample_fields sp = [] then Inr row else project_row row (sample_fields sp) [])) (\<lambda>projected.
       if \<not> dumpable projected then extend_sample sp rows
       else
         act_bind (act_lift (encode_utf8 (dumps projected))) (\<lambda>raw.
         if sample_row_limit < length raw then extend_sample sp rows
         else
           act_bind (act_put (\<lambda>s. s\<lparr>samples := samples s @ [projected]\<rparr>)) (\<lambda>_.
           extend_sample sp rows))))"

definition option_json :: "pystr option \<Rightarrow> json" where
  "option_json v = (case v of None \<Rightarrow> JNull | Some s \<Rightarrow> JStr s)"

definition page_args :: "flow_spec \<Rightarrow> json \<Rightarrow> json" where
  "page_args sp cursor = obj [(''flow_id'', JStr (flow_id sp)), (''source'', option_json (flow_source sp)), (''cursor'', cursor),
     (''page_size'', JInt (page_size sp))]"

definition expected_cursor :: "json \<Rightarrow> json" where
  "expected_cursor cursor = (if cursor = JNull then JStr (u ''v1:0'') else cursor)"

definition protocol_error :: stop where
  "protocol_error = failed ''protocol_error''"

text \<open>What a page says of itself: whether more follows, its rows, and the next cursor.\<close>

definition check_page :: "flow_spec \<Rightarrow> json \<Rightarrow> json \<Rightarrow> (bool \<times> nat \<times> json \<times> json) act" where
  "check_page sp cursor payload =
     act_bind (act_lift (item ''pagination'' payload)) (\<lambda>p.
     act_bind (act_lift (item ''data'' payload)) (\<lambda>data.
     act_bind (act_lift (item ''cursor'' p)) (\<lambda>echo.
     act_bind (act_check (py_eq echo (expected_cursor cursor)) protocol_error) (\<lambda>_.
     act_bind (act_lift (item ''returned'' p)) (\<lambda>returned.
     act_bind (act_lift (py_len data)) (\<lambda>n.
     act_bind (act_check (py_eq returned (JInt (int n))) protocol_error) (\<lambda>_.
     act_bind (act_lift (item ''page_size'' p)) (\<lambda>size_of_page.
     act_bind (act_check (py_eq size_of_page (JInt (page_size sp))) protocol_error) (\<lambda>_.
     act_bind (act_lift (item ''truncated'' p)) (\<lambda>further.
     act_bind (act_lift (item ''next_cursor'' p)) (\<lambda>nxt.
     act_bind (act_check (if truthy further then is_str nxt \<and> truthy nxt \<and> truthy data else nxt = JNull) protocol_error) (\<lambda>_.
     act_return (truthy further, n, data, nxt)))))))))))))"

definition save_page :: "session \<Rightarrow> flow_spec \<Rightarrow> json \<Rightarrow> nat \<Rightarrow> json \<Rightarrow> unit act" where
  "save_page w sp echo n data =
     act_bind (act_guard (py_iter data) protocol_error) (\<lambda>rows.
     act_bind (act_guard (fold_res (\<lambda>row lines. rbind (json_line row) (\<lambda>line. Inr (lines @ [line]))) rows []) protocol_error) (\<lambda>lines.
     act_bind (act_get (\<lambda>s. int (rows_bytes s + length (concat lines)) \<le> max_result_bytes sp)) (\<lambda>room.
     if \<not> room then
       act_bind (act_put (\<lambda>s. s\<lparr>next_unread := echo\<rparr>)) (\<lambda>_. act_stop (partial_stop ''result_budget''))
     else
       act_bind (append_rows w lines) (\<lambda>_.
       act_bind (act_put (\<lambda>s. s\<lparr>pages_saved := pages_saved s + 1, rows_saved := rows_saved s + n\<rparr>)) (\<lambda>_.
       extend_sample sp rows)))))"

text \<open>The pages from \<open>cursor\<close> on, at most \<open>k\<close> of them; \<open>JNull\<close> is the cursor of the first.\<close>

fun collect_pages :: "session \<Rightarrow> flow_spec \<Rightarrow> rat \<Rightarrow> nat \<Rightarrow> json \<Rightarrow> json list \<Rightarrow> unit act" where
  "collect_pages w sp deadline 0 cursor visited = act_return ()"
| "collect_pages w sp deadline (Suc k) cursor visited =
     act_bind (call_tool w sp deadline results_tool (page_args sp cursor)) (\<lambda>payload.
     act_bind (check_page sp cursor payload) (\<lambda>(further, n, data, nxt).
     let echo = expected_cursor cursor in
     act_bind (act_put (\<lambda>s. s\<lparr>pages_fetched := pages_fetched s + 1, rows_fetched := rows_fetched s + n\<rparr>)) (\<lambda>_.
     act_bind (count_warnings payload) (\<lambda>_.
     act_bind (save_page w sp echo n data) (\<lambda>_.
     if \<not> further then act_put (\<lambda>s. s\<lparr>next_unread := JNull\<rparr>)
     else if nxt \<in> set (echo # visited) then act_stop protocol_error
     else if k = 0 then
       act_bind (act_put (\<lambda>s. s\<lparr>next_unread := nxt\<rparr>)) (\<lambda>_. act_stop (partial_stop ''page_budget''))
     else collect_pages w sp deadline k nxt (echo # visited))))))"

definition list_files :: "session \<Rightarrow> flow_spec \<Rightarrow> rat \<Rightarrow> unit act" where
  "list_files w sp deadline =
     act_bind (call_tool w sp deadline files_tool (status_args sp)) (\<lambda>payload.
     act_bind (count_warnings payload) (\<lambda>_.
     act_bind (act_lift (rbind (item ''data'' payload) py_len)) (\<lambda>n.
     act_bind (act_put (\<lambda>s. s\<lparr>files_count := Some n\<rparr>)) (\<lambda>_.
     act_bind (act_lift (item ''truncated'' payload)) (\<lambda>cut.
     act_put (\<lambda>s. s\<lparr>files_complete := Some (\<not> truthy cut),
       downgrade := if truthy cut then Some (''partial'', u ''filelist_truncated'') else downgrade s\<rparr>))))))"

section \<open>The whole run\<close>

record run_result =
  rr_outcome :: string
  rr_reason :: pystr
  rr_complete :: bool
  rr_error :: "pystr option"
  rr_secondary :: "string option"

definition stopped :: "string \<Rightarrow> pystr \<Rightarrow> run_result" where
  "stopped outcome reason = \<lparr>rr_outcome = outcome, rr_reason = reason, rr_complete = False, rr_error = Some reason, rr_secondary = None\<rparr>"

definition phases :: "session \<Rightarrow> flow_spec \<Rightarrow> rat \<Rightarrow> unit act" where
  "phases w sp deadline =
     act_bind (load_contract w sp deadline) (\<lambda>_.
     act_bind (wait_finished w sp deadline 0) (\<lambda>_.
     act_bind (collect_pages w sp deadline (nat (max_pages sp)) JNull []) (\<lambda>_.
     list_files w sp deadline)))"

definition flow_outcome :: "flow_run \<Rightarrow> run_result" where
  "flow_outcome s = (case downgrade s of
     None \<Rightarrow> \<lparr>rr_outcome = ''complete'', rr_reason = u ''finished'', rr_complete = True, rr_error = None, rr_secondary = None\<rparr>
   | Some (outcome, reason) \<Rightarrow>
       \<lparr>rr_outcome = outcome, rr_reason = reason, rr_complete = outcome = ''complete'', rr_error = None, rr_secondary = None\<rparr>)"

definition run :: "session \<Rightarrow> flow_spec \<Rightarrow> rat \<Rightarrow> flow_run \<Rightarrow> run_result result \<times> flow_run" where
  "run w sp deadline s = (case phases w sp deadline s of
     (Inl (Stop outcome reason), s1) \<Rightarrow> (Inr (stopped outcome reason), s1)
   | (Inl (Broken x), s1) \<Rightarrow> (Inl x, s1)
   | (Inr v, s1) \<Rightarrow> (Inr (flow_outcome s1), s1))"

definition fresh_run :: "rat \<Rightarrow> flow_run" where
  "fresh_run now = \<lparr>clock = now, asked = 0, listed = 0, written = 0, contract_file = None, calls_file = [], rows_file = [], calls_bytes = 0,
     rows_bytes = 0, calls_complete = True, call_counts = (\<lambda>_. 0), validators = (\<lambda>_. (JNull, JNull)), warnings_count = 0,
     pages_fetched = 0, pages_saved = 0, rows_fetched = 0, rows_saved = 0, next_unread = JNull, files_count = None,
     files_complete = None, samples = [], last_state = JNull, downgrade = None\<rparr>"

section \<open>The summary\<close>

definition summary_limit :: nat where
  "summary_limit = 16384"

definition stdout_limit :: nat where
  "stdout_limit = 4096"

text \<open>\<open>str(directory / name)\<close>.\<close>

definition child_text :: "pystr \<Rightarrow> string \<Rightarrow> pystr" where
  "child_text dir name = (if dir \<noteq> [] \<and> last dir = 47 then dir @ u name else dir @ 47 # u name)"

definition output_file :: "flow_spec \<Rightarrow> string \<Rightarrow> json" where
  "output_file sp name = JStr (child_text (fst (output_dir sp)) name)"

text \<open>The facts about the files; the digests are there once the streams are closed, and are
  over what the writes that returned have written.\<close>

definition file_facts :: "flow_spec \<Rightarrow> bool \<Rightarrow> flow_run \<Rightarrow> (string \<times> json) list" where
  "file_facts sp kept s = [(''contract_path'', output_file sp ''contract.json''), (''calls_path'', output_file sp ''calls.jsonl''),
     (''calls_bytes'', JInt (int (calls_bytes s))), (''calls_sha256'', if kept then JStr (sha256_hex (take (calls_bytes s) (calls_file s))) else JNull),
     (''rows_path'', output_file sp ''rows.jsonl''), (''rows_bytes'', JInt (int (rows_bytes s))),
     (''rows_sha256'', if kept then JStr (sha256_hex (take (rows_bytes s) (rows_file s))) else JNull)]"

definition counts_json :: "flow_run \<Rightarrow> json" where
  "counts_json s = obj (map (\<lambda>name. (name, JInt (int (call_counts s name)))) required_tools)"

definition error_json :: "run_result \<Rightarrow> json" where
  "error_json r = (if rr_error r = None \<and> rr_secondary r = None then JNull
     else obj [(''code'', option_json (rr_error r)), (''secondary_code'', option_json (map_option u (rr_secondary r)))])"

definition count_json :: "nat option \<Rightarrow> json" where
  "count_json v = (case v of None \<Rightarrow> JNull | Some n \<Rightarrow> JInt (int n))"

definition flag_json :: "bool option \<Rightarrow> json" where
  "flag_json v = (case v of None \<Rightarrow> JNull | Some b \<Rightarrow> JBool b)"

definition flow_result_schema :: json where
  "flow_result_schema = JStr (u ''velo.flow.result.v1'')"

definition summary_json :: "flow_spec \<Rightarrow> flow_run \<Rightarrow> run_result \<Rightarrow> (string \<times> json) list \<Rightarrow> json list \<Rightarrow> json" where
  "summary_json sp s r facts shown = obj ([
     (''schema'', flow_result_schema), (''outcome'', JStr (u (rr_outcome r))), (''reason'', JStr (rr_reason r)),
     (''flow_id'', JStr (flow_id sp)), (''source'', option_json (flow_source sp)), (''last_state'', last_state s),
     (''result_pages_fetched'', JInt (int (pages_fetched s))), (''result_pages_saved'', JInt (int (pages_saved s))),
     (''rows_fetched'', JInt (int (rows_fetched s))), (''rows_saved'', JInt (int (rows_saved s))),
     (''next_unread_cursor'', next_unread s), (''files_count'', count_json (files_count s)),
     (''files_complete'', flag_json (files_complete s)), (''call_counts'', counts_json s), (''complete'', JBool (rr_complete r)),
     (''sample_rows'', JList shown), (''warnings_count'', JInt (int (warnings_count s))),
     (''warnings_source'', output_file sp ''calls.jsonl''), (''calls_complete'', JBool (calls_complete s)), (''error'', error_json r)]
     @ facts @ [(''sample_omitted_count'', JInt (int (rows_saved s) - int (length shown)))])"

text \<open>The loop that drops samples from the end until the summary fits.\<close>

function fit_summary :: "flow_spec \<Rightarrow> flow_run \<Rightarrow> run_result \<Rightarrow> (string \<times> json) list \<Rightarrow> json list \<Rightarrow> stop + json" where
  "fit_summary sp s r facts shown =
     (let v = summary_json sp s r facts shown in
      case dumps_utf8 v of
        Inl x \<Rightarrow> Inl (Broken x)
      | Inr raw \<Rightarrow>
          if length raw \<le> summary_limit then Inr v
          else if shown = [] then Inl (failed ''summary_overflow'')
          else fit_summary sp s r facts (butlast shown))"
  by pat_completeness auto
termination
  by (relation "measure (\<lambda>(sp, s, r, facts, shown). length shown)") auto

declare fit_summary.simps [simp del]

definition build_summary :: "flow_spec \<Rightarrow> flow_run \<Rightarrow> run_result \<Rightarrow> (string \<times> json) list \<Rightarrow> stop + json" where
  "build_summary sp s r facts = fit_summary sp s r facts (samples s)"

definition stdout_summary :: "json \<Rightarrow> int \<Rightarrow> json \<Rightarrow> stop + json" where
  "stdout_summary summary code result_path =
     (let get = (\<lambda>k f. case item k summary of Inl x \<Rightarrow> Inl (Broken x) | Inr v \<Rightarrow> f v) in
      get ''schema'' (\<lambda>schema. get ''outcome'' (\<lambda>outcome. get ''reason'' (\<lambda>reason. get ''flow_id'' (\<lambda>flow.
      get ''rows_saved'' (\<lambda>saved. get ''complete'' (\<lambda>finished. get ''call_counts'' (\<lambda>counts.
      let payload = obj [(''schema'', schema), (''outcome'', outcome), (''reason'', reason), (''flow_id'', flow), (''rows_saved'', saved),
        (''complete'', finished), (''result_path'', result_path), (''call_counts'', counts), (''exit_code'', JInt code)] in
      case dumps_utf8 payload of
        Inl x \<Rightarrow> Inl (Broken x)
      | Inr raw \<Rightarrow> if length raw \<le> stdout_limit then Inr payload else Inl (failed ''stdout_overflow'')))))))))"

section \<open>From the open directory to the exit code\<close>

text \<open>
  How the connection is entered (after how long, and how that ends), whether closing it raises, whether
  the streams close, and how many bytes \<open>result.json\<close> accepts when its writing fails (\<open>Some None\<close>: it cannot be opened).
\<close>

record link =
  entry :: "rat \<times> unit awaited"
  close_fails :: bool
  streams_close :: bool
  result_fault :: "nat option option"

definition connect :: "flow_spec \<Rightarrow> link \<Rightarrow> run_result option" where
  "connect sp l =
     (let timeout = min (deadline_seconds sp) (request_timeout sp) in
      case (if timeout < max 0 (fst (entry l)) then Timed_Out else snd (entry l)) of
        Answer _ \<Rightarrow> None
      | Timed_Out \<Rightarrow> Some (if deadline_seconds sp \<le> request_timeout sp then stopped ''partial'' (u ''deadline_exceeded'')
          else stopped ''failed'' (u ''request_timeout''))
      | Raised \<Rightarrow> Some (stopped ''failed'' (u ''connect_failed'')))"

definition after_close :: "link \<Rightarrow> run_result \<Rightarrow> run_result" where
  "after_close l r =
     (if \<not> close_fails l then r
      else if rr_complete r then stopped ''partial'' (u ''close_failed'')
      else r\<lparr>rr_secondary := Some ''close_failed''\<rparr>)"

definition session_phase :: "session \<Rightarrow> flow_spec \<Rightarrow> link \<Rightarrow> rat \<Rightarrow> run_result result \<times> flow_run" where
  "session_phase w sp l now =
     (let s0 = fresh_run (now + min (max 0 (fst (entry l))) (min (deadline_seconds sp) (request_timeout sp))) in
      case connect sp l of
        Some r \<Rightarrow> (Inr r, s0)
      | None \<Rightarrow> (case run w sp (now + deadline_seconds sp) s0 of
          (Inl x, s) \<Rightarrow> (Inl x, s)
        | (Inr r, s) \<Rightarrow> (Inr (after_close l r), s)))"

text \<open>What is left of \<open>result.json\<close>, the result that counts, and the summary.\<close>

definition write_result :: "link \<Rightarrow> byte list \<Rightarrow> bool \<times> byte list option" where
  "write_result l raw = (case result_fault l of
     None \<Rightarrow> (True, Some raw) | Some None \<Rightarrow> (False, None) | Some (Some k) \<Rightarrow> (False, Some (take k raw)))"

definition least_summary :: "flow_spec \<Rightarrow> pystr \<Rightarrow> json" where
  "least_summary sp reason = obj [(''schema'', flow_result_schema), (''outcome'', JStr (u ''failed'')), (''reason'', JStr reason),
     (''flow_id'', JStr (flow_id sp)), (''complete'', JBool False)]"

definition short_summary :: "flow_spec \<Rightarrow> flow_run \<Rightarrow> pystr \<Rightarrow> json" where
  "short_summary sp s reason = obj [(''schema'', flow_result_schema), (''outcome'', JStr (u ''failed'')), (''reason'', JStr reason),
     (''flow_id'', JStr (flow_id sp)), (''rows_saved'', JInt (int (rows_saved s))), (''complete'', JBool False),
     (''calls_complete'', JBool (calls_complete s)), (''call_counts'', counts_json s),
     (''calls_path'', output_file sp ''calls.jsonl''), (''rows_path'', output_file sp ''rows.jsonl'')]"

record ending =
  exit_code :: int
  printed :: json
  result_json :: "byte list option"

text \<open>The result, the summary, the content of \<open>result.json\<close> and its path for the caller.\<close>

definition store_result :: "flow_spec \<Rightarrow> link \<Rightarrow> flow_run \<Rightarrow> run_result \<Rightarrow> (string \<times> json) list \<Rightarrow>
    (run_result \<times> json \<times> byte list option \<times> json) result" where
  "store_result sp l s r facts =
     (let path = output_file sp ''result.json'' in
      case build_summary sp s r facts of
        Inr v \<Rightarrow>
          rbind (dumps_utf8 v) (\<lambda>raw.
          case write_result l raw of
            (True, stored) \<Rightarrow> Inr (r, v, stored, path)
          | (False, stored) \<Rightarrow>
              let r1 = stopped ''failed'' (u ''io_error'') in
              (case build_summary sp s r1 facts of
                 Inr v1 \<Rightarrow> Inr (r1, v1, stored, JNull)
               | Inl (Stop outcome reason) \<Rightarrow> Inr (r1, least_summary sp (u ''io_error''), stored, JNull)
               | Inl (Broken x) \<Rightarrow> Inl x))
      | Inl (Stop outcome reason) \<Rightarrow>
          let r1 = stopped ''failed'' reason in
          rbind (dumps_utf8 (short_summary sp s reason)) (\<lambda>raw.
          let v = (if summary_limit < length raw then least_summary sp reason else short_summary sp s reason) in
          rbind (dumps_utf8 v) (\<lambda>raw1.
          case write_result l raw1 of (ok, stored) \<Rightarrow> Inr (r1, v, stored, if ok then path else JNull)))
      | Inl (Broken x) \<Rightarrow> Inl x)"

definition overflow_notice :: "flow_spec \<Rightarrow> json \<Rightarrow> json" where
  "overflow_notice sp path = obj [(''schema'', flow_result_schema), (''outcome'', JStr (u ''failed'')), (''reason'', JStr (u ''stdout_overflow'')),
     (''flow_id'', JStr (flow_id sp)), (''complete'', JBool False), (''result_path'', path), (''exit_code'', JInt 2)]"

definition emit :: "json \<Rightarrow> 'a \<Rightarrow> 'a result" where
  "emit v x = rbind (dumps_utf8 v) (\<lambda>_. Inr x)"

definition finish :: "flow_spec \<Rightarrow> link \<Rightarrow> flow_run \<Rightarrow> run_result \<Rightarrow> ending result" where
  "finish sp l s r0 =
     (let r = (if streams_close l then r0 else stopped ''failed'' (u ''io_error'')); facts = file_facts sp (streams_close l) s in
      rbind (store_result sp l s r facts) (\<lambda>(r1, v, stored, path).
      let code = (if rr_complete r1 then 0 else 2) in
      case stdout_summary v code path of
        Inr payload \<Rightarrow> emit payload \<lparr>exit_code = code, printed = payload, result_json = stored\<rparr>
      | Inl (Broken (PyError x)) \<Rightarrow>
          if x \<in> {''TypeError'', ''ValueError''} then
            emit (overflow_notice sp path) \<lparr>exit_code = 2, printed = overflow_notice sp path, result_json = stored\<rparr>
          else Inl (PyError x)
      | Inl (Broken x) \<Rightarrow> Inl x
      | Inl (Stop outcome reason) \<Rightarrow>
          emit (overflow_notice sp path) \<lparr>exit_code = 2, printed = overflow_notice sp path, result_json = stored\<rparr>))"

definition execute :: "session \<Rightarrow> flow_spec \<Rightarrow> link \<Rightarrow> rat \<Rightarrow> ending result \<times> flow_run" where
  "execute w sp l now = (case session_phase w sp l now of
     (Inl x, s) \<Rightarrow> (Inl x, s)
   | (Inr r, s) \<Rightarrow> (finish sp l s r, s))"

end
