(* ===== verification/Flow_Facts.thy ===== *)
theory Flow_Facts
  imports Flow
begin

text \<open>
  What the steps of a flow run do, on success and when they stop: the number of calls and the time they
  take (\<open>costs\<close>), the bytes they write (\<open>in_limits\<close>), and, for a step that succeeds, what it has added to
  \<open>calls.jsonl\<close> and \<open>rows.jsonl\<close>.
\<close>

named_theorems act_iff
named_theorems act_defs

lemmas act_basics [act_defs] = act_return_def act_stop_def act_get_def act_put_def act_check_def act_lift_def act_guard_def

lemma act_bind_Inr [act_iff]: "act_bind m f s = (Inr y, s') \<longleftrightarrow> (\<exists>x s1. m s = (Inr x, s1) \<and> f x s1 = (Inr y, s'))"
  by (auto simp: act_bind_def split: prod.splits sum.splits)

lemma act_return_iff [act_iff]: "act_return v s = (Inr y, s') \<longleftrightarrow> y = v \<and> s' = s"
  by (auto simp: act_defs)

lemma act_stop_iff [act_iff]: "act_stop x s = (Inr y, s') \<longleftrightarrow> False"
  by (auto simp: act_defs)

lemma act_get_iff [act_iff]: "act_get f s = (Inr y, s') \<longleftrightarrow> y = f s \<and> s' = s"
  by (auto simp: act_defs)

lemma act_put_iff [act_iff]: "act_put f s = (Inr y, s') \<longleftrightarrow> s' = f s"
  by (auto simp: act_defs)

lemma act_check_iff [act_iff]: "act_check b x s = (Inr y, s') \<longleftrightarrow> b \<and> s' = s"
  by (auto simp: act_defs)

lemma act_lift_iff [act_iff]: "act_lift r s = (Inr y, s') \<longleftrightarrow> r = Inr y \<and> s' = s"
  by (auto simp: act_defs split: sum.splits)

lemma act_guard_iff [act_iff]: "act_guard r x s = (Inr y, s') \<longleftrightarrow> r = Inr y \<and> s' = s"
  by (auto simp: act_defs split: sum.splits)

section \<open>Relations that every outcome of a step keeps\<close>

definition leads :: "(flow_run \<Rightarrow> flow_run \<Rightarrow> bool) \<Rightarrow> 'a act \<Rightarrow> bool" where
  "leads R m \<longleftrightarrow> (\<forall>s r s'. m s = (r, s') \<longrightarrow> R s s')"

named_theorems leads_intros

lemma leadsI: "(\<And>s r s'. m s = (r, s') \<Longrightarrow> R s s') \<Longrightarrow> leads R m"
  by (simp add: leads_def)

lemma leadsD: "leads R m \<Longrightarrow> m s = (r, s') \<Longrightarrow> R s s'"
  by (simp add: leads_def)

lemma leads_mono: "leads R m \<Longrightarrow> (\<And>s s'. R s s' \<Longrightarrow> R' s s') \<Longrightarrow> leads R' m"
  by (auto simp: leads_def)

lemma leads_bind:
  assumes m: "leads R m" and f: "\<And>x. leads S (f x)" and one: "\<And>a b. R a b \<Longrightarrow> T a b"
    and two: "\<And>a b c. R a b \<Longrightarrow> S b c \<Longrightarrow> T a c"
  shows "leads T (act_bind m f)"
proof (rule leadsI)
  fix s r s' assume run: "act_bind m f s = (r, s')"
  obtain q s1 where q: "m s = (q, s1)" by fastforce
  note R = leadsD [OF m q]
  show "T s s'"
  proof (cases q)
    case (Inl x)
    with run q one [OF R] show ?thesis by (simp add: act_bind_def)
  next
    case (Inr v)
    with run q have "f v s1 = (r, s')" by (simp add: act_bind_def)
    from two [OF R leadsD [OF f this]] show ?thesis .
  qed
qed

text \<open>A preorder is kept along a sequence.\<close>

locale kept_relation =
  fixes R :: "flow_run \<Rightarrow> flow_run \<Rightarrow> bool"
  assumes refl: "R s s" and trans: "R a b \<Longrightarrow> R b c \<Longrightarrow> R a c"
begin

lemma bind: "leads R m \<Longrightarrow> (\<And>x. leads R (f x)) \<Longrightarrow> leads R (act_bind m f)"
  by (erule leads_bind [where S = R]) (auto intro: trans)

lemma pure: "leads R (act_return v)" "leads R (act_stop x)" "leads R (act_get f)" "leads R (act_check b x)"
    "leads R (act_lift q)" "leads R (act_guard q x)"
  by (auto simp: leads_def act_defs refl)

lemma put: "(\<And>s. R s (f s)) \<Longrightarrow> leads R (act_put f)"
  by (auto simp: leads_def act_defs)

lemma cond: "(b \<Longrightarrow> leads R m) \<Longrightarrow> (\<not> b \<Longrightarrow> leads R n) \<Longrightarrow> leads R (if b then m else n)"
  by simp

lemma pairs: "(\<And>a b. leads R (f a b)) \<Longrightarrow> leads R (case x of (a, b) \<Rightarrow> f a b)"
  by (cases x) simp

lemma awaits: "(\<And>a. leads R (f a)) \<Longrightarrow> leads R m \<Longrightarrow> leads R n \<Longrightarrow> leads R (case x of Answer a \<Rightarrow> f a | Timed_Out \<Rightarrow> m | Raised \<Rightarrow> n)"
  by (cases x) simp_all

lemma opts: "leads R m \<Longrightarrow> (\<And>a. leads R (f a)) \<Longrightarrow> leads R (case x of None \<Rightarrow> m | Some a \<Rightarrow> f a)"
  by (cases x) simp_all

lemmas rules = bind pure put cond pairs opts awaits

end

definition counters :: "flow_run \<Rightarrow> nat \<times> rat \<times> (string \<Rightarrow> nat) \<times> nat \<times> nat \<times> bool" where
  "counters s = (asked s, clock s, call_counts s, calls_bytes s, rows_bytes s, calls_complete s)"

definition still :: "flow_run \<Rightarrow> flow_run \<Rightarrow> bool" where
  "still s s' \<longleftrightarrow> counters s' = counters s"

interpretation still: kept_relation still
  by unfold_locales (auto simp: still_def)

lemma write_still:
  assumes "\<And>raw s. still s (keep raw s)"
  shows "leads still (write_out w keep raw)"
proof (rule leadsI)
  fix s r s' assume "write_out w keep raw s = (r, s')"
  then have "\<exists>bs. s' = keep bs (s\<lparr>written := written s + 1\<rparr>)"
    by (auto simp: write_out_def Let_def split: option.splits)
  then obtain bs where "s' = keep bs (s\<lparr>written := written s + 1\<rparr>)" by blast
  moreover have "still s (s\<lparr>written := written s + 1\<rparr>)" by (simp add: still_def counters_def)
  ultimately show "still s s'" using assms still.trans by metis
qed

lemma still_puts:
  "still s (s\<lparr>last_state := v\<rparr>)" "still s (s\<lparr>warnings_count := n\<rparr>)" "still s (s\<lparr>next_unread := c\<rparr>)" "still s (s\<lparr>samples := xs\<rparr>)"
  "still s (s\<lparr>listed := n\<rparr>)" "still s (s\<lparr>validators := vs\<rparr>)" "still s (s\<lparr>contract_file := f\<rparr>)" "still s (s\<lparr>files_count := fc\<rparr>)"
  "still s (s\<lparr>pages_fetched := n, rows_fetched := m\<rparr>)" "still s (s\<lparr>pages_saved := n, rows_saved := m\<rparr>)"
  "still s (s\<lparr>files_complete := b, downgrade := d\<rparr>)" "still s (keep_call raw s)" "still s (keep_row raw s)"
  by (simp_all add: still_def counters_def keep_call_def keep_row_def)

lemma still_warnings: "leads still (count_warnings payload)"
  unfolding count_warnings_def by (intro still.rules still_puts)

lemma still_error_code: "leads still (error_code payload)"
proof (cases "fld ''code'' payload")
  case (JStr s)
  then show ?thesis by (auto simp: error_code_def intro!: still.rules)
qed (simp_all add: error_code_def still.pure)

lemma still_checked: "leads still (checked w name r)"
  unfolding checked_def Let_def by (intro still.rules still_error_code)

lemma still_page: "leads still (check_page sp cursor payload)"
  unfolding check_page_def by (intro still.rules)

lemma still_sample: "leads still (extend_sample sp rows)"
proof (induction rows)
  case Nil
  then show ?case by (simp add: still.pure)
next
  case (Cons row rows)
  then show ?case unfolding extend_sample.simps by (intro still.rules still_puts)
qed

lemma still_add_tools: "leads still (add_tools ts found)"
  by (induction ts arbitrary: found) (auto intro!: still.pure)

lemma still_adopt: "leads still (adopt_tools w found wanted)"
  by (induction wanted) (auto simp: Let_def intro!: still.rules still_puts)

lemma still_contract: "leads still (write_contract w v)"
  unfolding write_contract_def by (intro still.rules write_still still_puts)

section \<open>Calls and time\<close>

text \<open>
  \<open>costs D n c m\<close>: a step makes at most \<open>n\<close> calls of the session, at most \<open>c name\<close> attempts of a tool,
  and does not run beyond the time \<open>D\<close>.
\<close>

definition costs :: "rat \<Rightarrow> nat \<Rightarrow> (string \<Rightarrow> nat) \<Rightarrow> 'a act \<Rightarrow> bool" where
  "costs D n c m \<longleftrightarrow> leads (\<lambda>s s'. asked s' \<le> asked s + n \<and> (\<forall>x. call_counts s' x \<le> call_counts s x + c x) \<and>
     (clock s \<le> D \<longrightarrow> clock s' \<le> D)) m"

definition no_calls :: "string \<Rightarrow> nat" where
  "no_calls = (\<lambda>_. 0)"

lemma costsD: "costs D n c m \<Longrightarrow> m s = (r, s') \<Longrightarrow>
    asked s' \<le> asked s + n \<and> (\<forall>x. call_counts s' x \<le> call_counts s x + c x) \<and> (clock s \<le> D \<longrightarrow> clock s' \<le> D)"
  unfolding costs_def by (drule leadsD)

lemma costsI: "(\<And>s r s'. m s = (r, s') \<Longrightarrow> asked s' \<le> asked s + n) \<Longrightarrow>
    (\<And>s r s' x. m s = (r, s') \<Longrightarrow> call_counts s' x \<le> call_counts s x + c x) \<Longrightarrow>
    (\<And>s r s'. m s = (r, s') \<Longrightarrow> clock s \<le> D \<Longrightarrow> clock s' \<le> D) \<Longrightarrow> costs D n c m"
  unfolding costs_def leads_def by blast

lemma costs_still: "leads still m \<Longrightarrow> costs D n c m"
  unfolding costs_def by (erule leads_mono) (simp add: still_def counters_def)

lemma costs_bind:
  assumes m: "costs D a c m" and f: "\<And>x. costs D b d (f x)"
  shows "costs D (a + b) (\<lambda>x. c x + d x) (act_bind m f)"
  unfolding costs_def
proof (rule leads_bind [OF m [unfolded costs_def] f [unfolded costs_def]])
qed (auto simp: add.assoc [symmetric] intro: order_trans [OF _ add_right_mono] trans_le_add1)

lemma costs_more: "costs D a c m \<Longrightarrow> a \<le> b \<Longrightarrow> (\<And>x. c x \<le> d x) \<Longrightarrow> costs D b d m"
  unfolding costs_def by (erule leads_mono) (meson add_left_mono le_trans)

lemma costs_then: "costs D n c m \<Longrightarrow> (\<And>x. leads still (f x)) \<Longrightarrow> costs D n c (act_bind m f)"
  using costs_bind [of D n c m 0 no_calls f] by (simp add: costs_still no_calls_def)

lemma costs_after: "leads still m \<Longrightarrow> (\<And>x. costs D n c (f x)) \<Longrightarrow> costs D n c (act_bind m f)"
  using costs_bind [of D 0 no_calls m n c f] by (simp add: costs_still no_calls_def)

lemma costs_bounded:
  assumes "deadline \<le> D"
  shows "costs D 1 no_calls (bounded sp deadline start)"
proof -
  have *: "asked s' \<le> asked s + 1 \<and> call_counts s' = call_counts s \<and> (clock s \<le> D \<longrightarrow> clock s' \<le> D)"
    if "bounded sp deadline start s = (r, s')" for s r s'
  proof (cases "remaining deadline s \<le> 0")
    case True
    with that show ?thesis by (simp add: bounded_def act_bind_def act_defs)
  next
    case False
    let ?t = "min (remaining deadline s) (request_timeout sp)"
    from False that have s': "s' = s\<lparr>asked := asked s + 1, clock := clock s + min (max 0 (fst (start (asked s)))) ?t\<rparr>"
      by (auto simp: bounded_def act_bind_def act_defs Let_def split: if_splits awaited.splits)
    have "clock s + ?t \<le> deadline" by (simp add: remaining_def min_def)
    moreover have "min (max 0 (fst (start (asked s)))) ?t \<le> ?t" by (rule min.cobounded2)
    ultimately have "clock s + min (max 0 (fst (start (asked s)))) ?t \<le> D" using assms by linarith
    with s' show ?thesis by simp
  qed
  show ?thesis by (rule costsI) (use * in \<open>auto simp: no_calls_def\<close>)
qed

lemma bytes_put_costs: "costs D 0 no_calls (act_put (\<lambda>s. s\<lparr>calls_bytes := f s\<rparr>))" "costs D 0 no_calls (act_put (\<lambda>s. s\<lparr>rows_bytes := f s\<rparr>))"
    "costs D 0 no_calls (act_put (\<lambda>s. s\<lparr>calls_complete := b\<rparr>))"
  by (rule costsI; simp add: act_defs no_calls_def; blast?)+

lemma costs_none: "costs D a no_calls m \<Longrightarrow> (\<And>x. costs D b no_calls (f x)) \<Longrightarrow> costs D (a + b) no_calls (act_bind m f)"
  using costs_bind [of D a no_calls m b no_calls f] by (simp add: no_calls_def)

lemma costs_zero: "costs D 0 no_calls m \<Longrightarrow> (\<And>x. costs D 0 no_calls (f x)) \<Longrightarrow> costs D 0 no_calls (act_bind m f)"
  using costs_none [of D 0 m 0 f] by simp

lemma costs_if: "(b \<Longrightarrow> costs D n c m) \<Longrightarrow> (\<not> b \<Longrightarrow> costs D n c m') \<Longrightarrow> costs D n c (if b then m else m')"
  by simp

lemma costs_page: "(\<And>a b c d. costs D n e (f a b c d)) \<Longrightarrow> costs D n e (case x of (a, b, c, d) \<Rightarrow> f a b c d)"
  by (simp split: prod.split)

lemma costs_append_call: "costs D 0 no_calls (append_call w name args r)"
  unfolding append_call_def Let_def
  by (intro costs_zero costs_if bytes_put_costs costs_still [OF write_still] still_puts costs_still [OF still.pure(1)]
      costs_still [OF still.pure(2)] costs_still [OF still.pure(5)])

lemma costs_append_rows: "costs D 0 no_calls (append_rows w lines)"
proof (induction lines)
  case Nil
  then show ?case by (simp add: costs_still write_still still.refl)
next
  case (Cons line lines)
  then show ?case unfolding append_rows.simps by (intro costs_zero bytes_put_costs costs_still [OF write_still] still_puts)
qed

definition once :: "string \<Rightarrow> string \<Rightarrow> nat" where
  "once name = (\<lambda>x. if x = name then 1 else 0)"

lemma costs_call:
  assumes "deadline \<le> D"
  shows "costs D 1 (once name) (call_tool w sp deadline name args)"
proof -
  have count: "costs D 0 (once name) (act_put (\<lambda>s. s\<lparr>call_counts := (call_counts s)(name := call_counts s name + 1)\<rparr>))"
    by (rule costsI) (auto simp: act_defs once_def)
  have rest: "costs D 1 no_calls (act_bind (bounded sp deadline (\<lambda>n. call_answer w n name args)) (\<lambda>r.
      act_bind (append_call w name args r) (\<lambda>_. checked w name r)))"
    using costs_none [OF costs_bounded [OF assms] costs_zero [OF costs_append_call costs_still [OF still_checked]]] by simp
  have "costs D 1 (once name) (act_bind (act_put (\<lambda>s. s\<lparr>call_counts := (call_counts s)(name := call_counts s name + 1)\<rparr>)) (\<lambda>_.
      act_bind (bounded sp deadline (\<lambda>n. call_answer w n name args)) (\<lambda>r. act_bind (append_call w name args r) (\<lambda>_. checked w name r))))"
    using costs_bind [OF count rest] by (simp add: no_calls_def once_def)
  then show ?thesis unfolding call_tool_def by - ((rule costs_after, rule still.pure)+)
qed


lemma costs_find_tools:
  assumes "deadline \<le> D"
  shows "costs D k no_calls (find_tools w sp deadline k cursor seen found)"
proof (induction k arbitrary: cursor seen found)
  case 0
  then show ?case by (simp add: costs_still still.pure)
next
  case (Suc k)
  have rest: "costs D k no_calls (act_bind (act_put (\<lambda>s. s\<lparr>listed := listed s + 1\<rparr>)) (\<lambda>_. act_bind (add_tools (page_tools page) found)
      (\<lambda>found1. if all_found found1 then act_return found1
        else case page_cursor page of None \<Rightarrow> act_stop (failed ''tools_missing'')
        | Some c \<Rightarrow> if c \<in> set seen then act_stop (failed ''protocol_error'')
            else find_tools w sp deadline k (Some c) (c # seen) found1)))" for page
    by (intro costs_after still.put still_puts still_add_tools)
      (auto intro!: costs_if Suc.IH costs_still still.pure split: option.split)
  show ?case using costs_none [OF costs_bounded [OF assms] rest] by simp
qed

lemma costs_load_contract: "deadline \<le> D \<Longrightarrow> costs D list_limit no_calls (load_contract w sp deadline)"
  unfolding load_contract_def by (intro costs_then costs_find_tools still.bind still_adopt still_contract)

lemma costs_look_status:
  assumes "deadline \<le> D"
  shows "costs D 1 (once status_tool) (look_status w sp deadline)"
  unfolding look_status_def
  by (intro costs_then costs_call assms still.rules still_puts still_warnings)

lemma costs_sleep:
  assumes "\<And>i. deadline + oversleep w i \<le> D" and "deadline \<le> D"
  shows "costs D 0 no_calls (sleep w deadline i)"
proof -
  have "clock s' \<le> D" if "sleep w deadline i s = (r, s')" "clock s \<le> D" for s r s'
  proof (cases "0 < min (backoff i) (remaining deadline s)")
    case True
    then have s': "s' = s\<lparr>clock := clock s + min (backoff i) (remaining deadline s) + max 0 (oversleep w i)\<rparr>"
      using that by (simp add: sleep_def act_bind_def act_defs)
    have "min (backoff i) (remaining deadline s) \<le> deadline - clock s" by (simp add: remaining_def)
    then have "clock s + min (backoff i) (remaining deadline s) + max 0 (oversleep w i) \<le> D"
      using assms(1) [of i] assms(2) by (cases "0 \<le> oversleep w i") linarith+
    with s' show ?thesis by simp
  qed (use that in \<open>auto simp: sleep_def act_bind_def act_defs\<close>)
  moreover have "asked s' = asked s \<and> call_counts s' = call_counts s" if "sleep w deadline i s = (r, s')" for s r s'
    using that by (auto simp: sleep_def act_bind_def act_defs split: if_splits)
  ultimately show ?thesis by (intro costsI) (auto simp: no_calls_def)
qed

definition repeats :: "nat \<Rightarrow> string \<Rightarrow> string \<Rightarrow> nat" where
  "repeats n name = (\<lambda>x. if x = name then n else 0)"

lemma wait_finished_bind:
  "wait_finished w sp deadline calls =
     (if max_status_calls sp \<le> int calls then act_stop (partial_stop ''status_budget'')
      else act_bind (look_status w sp deadline) (\<lambda>finished.
        if finished then act_return ()
        else act_bind (sleep w deadline calls) (\<lambda>_. wait_finished w sp deadline (calls + 1))))"
  by (rule ext, subst wait_finished.simps)
    (auto simp: act_bind_def act_stop_def act_return_def split: prod.splits sum.splits bool.splits)

lemma costs_wait:
  assumes "deadline \<le> D" and lag: "\<And>i. deadline + oversleep w i \<le> D"
  shows "nat (max_status_calls sp) - calls = k \<Longrightarrow> costs D k (repeats k status_tool) (wait_finished w sp deadline calls)"
proof (induction k arbitrary: calls)
  case 0
  then show ?case by (subst wait_finished_bind) (simp add: costs_still still.pure)
next
  case (Suc k)
  then have "costs D k (repeats k status_tool) (wait_finished w sp deadline (calls + 1))" by simp
  then have "costs D k (repeats k status_tool) (act_bind (sleep w deadline calls) (\<lambda>_. wait_finished w sp deadline (calls + 1)))"
    using costs_bind [OF costs_sleep [OF lag assms(1)], of k "repeats k status_tool"] by (simp add: no_calls_def)
  then have "costs D k (repeats k status_tool) (if b then act_return () else
      act_bind (sleep w deadline calls) (\<lambda>_. wait_finished w sp deadline (calls + 1)))" for b
    by (simp add: costs_still still.pure)
  from costs_bind [OF costs_look_status [OF assms(1)] this]
  have "costs D (Suc k) (repeats (Suc k) status_tool) (act_bind (look_status w sp deadline) (\<lambda>b. if b then act_return () else
      act_bind (sleep w deadline calls) (\<lambda>_. wait_finished w sp deadline (calls + 1))))"
    by (rule costs_more) (simp_all add: once_def repeats_def)
  then show ?case using Suc.prems by (subst wait_finished_bind) (simp add: costs_still still.pure)
qed

lemma costs_save_page: "costs D 0 no_calls (save_page w sp echo n data)"
  unfolding save_page_def
  by (intro costs_zero costs_if costs_append_rows costs_still [OF still_sample] costs_still [OF still.put] still_puts
      costs_still [OF still.pure(2)] costs_still [OF still.pure(3)] costs_still [OF still.pure(6)])

lemma costs_collect:
  assumes "deadline \<le> D"
  shows "costs D k (repeats k results_tool) (collect_pages w sp deadline k cursor visited)"
proof (induction k arbitrary: cursor visited)
  case 0
  then show ?case by (simp add: costs_still still.pure)
next
  case (Suc k)
  let ?after = "\<lambda>further nxt. if \<not> further then act_put (\<lambda>s. s\<lparr>next_unread := JNull\<rparr>)
    else if nxt \<in> set (expected_cursor cursor # visited) then act_stop protocol_error
    else if k = 0 then act_bind (act_put (\<lambda>s. s\<lparr>next_unread := nxt\<rparr>)) (\<lambda>_. act_stop (partial_stop ''page_budget''))
    else collect_pages w sp deadline k nxt (expected_cursor cursor # visited)"
  have after: "costs D k (repeats k results_tool) (?after further nxt)" for further nxt
    by (intro costs_if Suc.IH costs_still still.rules still_puts)
  have save: "costs D k (repeats k results_tool) (act_bind (save_page w sp (expected_cursor cursor) n data) (\<lambda>_. ?after further nxt))" for n data further nxt
  proof -
    have "costs D (0 + k) (\<lambda>x. no_calls x + repeats k results_tool x) (act_bind (save_page w sp (expected_cursor cursor) n data) (\<lambda>_. ?after further nxt))"
      by (rule costs_bind [OF costs_save_page]) (rule after)
    then show ?thesis unfolding no_calls_def by simp
  qed
  have page: "costs D k (repeats k results_tool) (act_bind (check_page sp cursor payload) (\<lambda>(further, n, data, nxt).
      act_bind (act_put (\<lambda>s. s\<lparr>pages_fetched := pages_fetched s + 1, rows_fetched := rows_fetched s + n\<rparr>)) (\<lambda>_.
      act_bind (count_warnings payload) (\<lambda>_. act_bind (save_page w sp (expected_cursor cursor) n data) (\<lambda>_. ?after further nxt)))))" for payload
    by (intro costs_after still_page costs_page still.put still_puts still_warnings save)
  from costs_bind [OF costs_call [OF assms] page]
  show ?case unfolding collect_pages.simps Let_def by (rule costs_more) (simp_all add: once_def repeats_def)
qed

lemma costs_files:
  assumes "deadline \<le> D"
  shows "costs D 1 (once files_tool) (list_files w sp deadline)"
  unfolding list_files_def
  by (intro costs_then costs_call assms still.rules still_puts still_warnings)

definition call_attempts :: "flow_spec \<Rightarrow> string \<Rightarrow> nat" where
  "call_attempts sp name = (if name = status_tool then nat (max_status_calls sp) else if name = results_tool then nat (max_pages sp)
     else if name = files_tool then 1 else 0)"

definition call_bound :: "flow_spec \<Rightarrow> nat" where
  "call_bound sp = list_limit + nat (max_status_calls sp) + nat (max_pages sp) + 1"

lemma costs_phases:
  assumes "deadline \<le> D" and "\<And>i. deadline + oversleep w i \<le> D"
  shows "costs D (call_bound sp) (call_attempts sp) (phases w sp deadline)"
proof -
  note files = costs_files [OF assms(1), of w sp]
  note pages = costs_bind [OF costs_collect [OF assms(1), of "nat (max_pages sp)" w sp JNull "[]"] files]
  have wait: "costs D (nat (max_status_calls sp)) (repeats (nat (max_status_calls sp)) status_tool) (wait_finished w sp deadline 0)"
    by (rule costs_wait [OF assms]) simp
  note waited = costs_bind [OF wait pages]
  from costs_bind [OF costs_load_contract [OF assms(1), of w sp] waited]
  show ?thesis unfolding phases_def
    by (rule costs_more) (simp_all add: call_bound_def call_attempts_def no_calls_def repeats_def once_def status_tool_def results_tool_def files_tool_def)
qed

section \<open>Bytes\<close>

text \<open>The streams stay within the limits of the request.\<close>

definition in_limits :: "flow_spec \<Rightarrow> flow_run \<Rightarrow> bool" where
  "in_limits sp s \<longleftrightarrow> int (rows_bytes s) \<le> max_result_bytes sp \<and> (calls_complete s \<longrightarrow> int (calls_bytes s) \<le> max_log_bytes sp)"

definition stays :: "flow_spec \<Rightarrow> flow_run \<Rightarrow> flow_run \<Rightarrow> bool" where
  "stays sp s s' \<longleftrightarrow> (in_limits sp s \<longrightarrow> in_limits sp s')"

interpretation stays: kept_relation "stays sp" for sp
  by unfold_locales (auto simp: stays_def)

lemma stays_still: "leads still m \<Longrightarrow> leads (stays sp) m"
  by (erule leads_mono) (auto simp: still_def counters_def stays_def in_limits_def)

lemma stays_bounded: "leads (stays sp') (bounded sp deadline start)"
  by (rule leadsI) (auto simp: bounded_def act_bind_def act_defs Let_def stays_def in_limits_def split: if_splits awaited.splits)

lemma write_out_cases:
  assumes "write_out w keep raw s = (r, s')" and "\<And>raw s. still s (keep raw s)"
  shows "still s s'"
  using leadsD [OF write_still [OF assms(2)] assms(1)] .

lemma append_call_limits:
  assumes "append_call w name args a s = (r, s')" and "int (calls_bytes s + log_limit) \<le> max_log_bytes sp" and "in_limits sp s"
  shows "in_limits sp s'"
proof (cases "json_line (call_record name args (dumped a))")
  case (Inl x)
  with assms show ?thesis by (auto simp: append_call_def act_bind_def act_defs)
next
  case full: (Inr full)
  show ?thesis
  proof (cases "if log_limit < length full then json_line (call_marker name args) else Inr full")
    case (Inl x)
    with assms full show ?thesis by (auto simp: append_call_def act_bind_def act_defs split: if_splits)
  next
    case (Inr line)
    obtain q s1 where out: "write_out w keep_call line s = (q, s1)" by fastforce
    from write_out_cases [OF out still_puts(12)] have s1: "counters s1 = counters s" by (simp add: still_def)
    show ?thesis using assms out s1 full Inr
      by (cases q) (auto simp: append_call_def act_bind_def act_defs in_limits_def counters_def Let_def split: if_splits)
  qed
qed

definition unwritten :: "flow_run \<Rightarrow> flow_run \<Rightarrow> bool" where
  "unwritten s s' \<longleftrightarrow> calls_bytes s' = calls_bytes s \<and> rows_bytes s' = rows_bytes s \<and> calls_complete s' = calls_complete s"

interpretation unwritten: kept_relation unwritten
  by unfold_locales (auto simp: unwritten_def)

lemma unwritten_bounded: "leads unwritten (bounded sp deadline start)"
  by (rule leadsI) (auto simp: bounded_def act_bind_def act_defs Let_def unwritten_def split: if_splits awaited.splits)

lemma unwritten_stays: "leads unwritten m \<Longrightarrow> leads (stays sp) m"
  by (erule leads_mono) (simp add: unwritten_def stays_def in_limits_def)

lemma unwritten_sleep: "leads unwritten (sleep w deadline i)"
  unfolding sleep_def by (intro unwritten.rules) (simp add: unwritten_def)

text \<open>A step that starts with room for one more record of the log.\<close>

definition roomy :: "flow_spec \<Rightarrow> flow_run \<Rightarrow> flow_run \<Rightarrow> bool" where
  "roomy sp s s' \<longleftrightarrow> (int (calls_bytes s + log_limit) \<le> max_log_bytes sp \<longrightarrow> in_limits sp s \<longrightarrow> in_limits sp s')"

lemma roomy_after: "leads unwritten m \<Longrightarrow> (\<And>x. leads (roomy sp) (f x)) \<Longrightarrow> leads (roomy sp) (act_bind m f)"
  by (erule leads_bind [where S = "roomy sp"]) (auto simp: unwritten_def roomy_def in_limits_def)

lemma roomy_then: "leads (roomy sp) m \<Longrightarrow> (\<And>x. leads (stays sp) (f x)) \<Longrightarrow> leads (roomy sp) (act_bind m f)"
  by (erule leads_bind [where S = "stays sp"]) (auto simp: stays_def roomy_def)

lemma stays_call: "leads (stays sp) (call_tool w sp deadline name args)"
proof (rule leadsI)
  fix s r s' assume run: "call_tool w sp deadline name args s = (r, s')"
  let ?rest = "act_bind (act_get (\<lambda>s. fst (validators s name))) (\<lambda>schema. act_bind (act_lift (conforms w schema args)) (\<lambda>ok.
     act_bind (act_check ok (failed ''invalid_arguments'')) (\<lambda>_.
     act_bind (act_put (\<lambda>s. s\<lparr>call_counts := (call_counts s)(name := call_counts s name + 1)\<rparr>)) (\<lambda>_.
     act_bind (bounded sp deadline (\<lambda>n. call_answer w n name args)) (\<lambda>r.
     act_bind (append_call w name args r) (\<lambda>_. checked w name r))))))"
  have app: "leads (roomy sp) (append_call w name args a)" for a
    by (rule leadsI) (auto simp: roomy_def dest: append_call_limits)
  have put: "leads unwritten (act_put (\<lambda>s. s\<lparr>call_counts := (call_counts s)(name := call_counts s name + 1)\<rparr>))"
    by (rule unwritten.put) (simp add: unwritten_def)
  have "leads (roomy sp) ?rest"
    by (rule roomy_after unwritten.pure put unwritten_bounded roomy_then app stays_still still_checked)+
  then have "roomy sp s s'" if "int (calls_bytes s + log_limit) \<le> max_log_bytes sp" "?rest s = (r, s')"
    using that by (blast dest: leadsD)
  moreover have "s' = s" if "\<not> int (calls_bytes s + log_limit) \<le> max_log_bytes sp"
    using run that by (simp add: call_tool_def act_bind_def act_defs)
  moreover have "?rest s = (r, s')" if "int (calls_bytes s + log_limit) \<le> max_log_bytes sp"
  proof -
    have "call_tool w sp deadline name args s = ?rest s"
      unfolding call_tool_def using that by (simp only: act_bind_def [of "act_get _"] act_bind_def [of "act_check _ _"] act_get_def act_check_def) simp
    with run show ?thesis by simp
  qed
  ultimately show "stays sp s s'" by (cases "int (calls_bytes s + log_limit) \<le> max_log_bytes sp") (auto simp: stays_def roomy_def)
qed

lemma append_rows_bytes:
  "append_rows w lines s = (r, s') \<Longrightarrow> rows_bytes s' \<le> rows_bytes s + length (concat lines) \<and>
     calls_bytes s' = calls_bytes s \<and> calls_complete s' = calls_complete s"
proof (induction lines arbitrary: s)
  case Nil
  then have "write_out w (\<lambda>raw s. s) [] s = (r, s')" by simp
  from write_out_cases [OF this still.refl] show ?case by (simp add: still_def counters_def)
next
  case (Cons line lines)
  obtain q s1 where out: "write_out w keep_row line s = (q, s1)" by fastforce
  from write_out_cases [OF out still_puts(13)] have s1: "counters s1 = counters s" by (simp add: still_def)
  show ?case
  proof (cases q)
    case (Inl x)
    with Cons.prems out s1 show ?thesis by (simp add: act_bind_def counters_def)
  next
    case (Inr v)
    with Cons.prems out have "append_rows w lines (s1\<lparr>rows_bytes := rows_bytes s1 + length line\<rparr>) = (r, s')" by (simp add: act_bind_def act_defs)
    from Cons.IH [OF this] s1 show ?thesis by (simp add: counters_def)
  qed
qed

lemma stays_rows:
  "leads (\<lambda>s s'. int (rows_bytes s + length (concat lines)) \<le> max_result_bytes sp \<longrightarrow> stays sp s s') (append_rows w lines)"
  by (rule leadsI) (drule append_rows_bytes, auto simp: stays_def in_limits_def)

lemma stays_save: "leads (stays sp) (save_page w sp echo n data)"
proof -
  have "leads (stays sp) (act_bind (act_get (\<lambda>s. int (rows_bytes s + length (concat lines)) \<le> max_result_bytes sp)) (\<lambda>room.
     if \<not> room then act_bind (act_put (\<lambda>s. s\<lparr>next_unread := echo\<rparr>)) (\<lambda>_. act_stop (partial_stop ''result_budget''))
     else act_bind (append_rows w lines) (\<lambda>_.
       act_bind (act_put (\<lambda>s. s\<lparr>pages_saved := pages_saved s + 1, rows_saved := rows_saved s + n\<rparr>)) (\<lambda>_. extend_sample sp rows))))"
    (is "leads _ (act_bind (act_get ?room) (\<lambda>room. if \<not> room then ?stop else act_bind (append_rows w lines) ?rest))") for lines rows
  proof (rule leadsI)
    fix s r s' assume run: "act_bind (act_get ?room) (\<lambda>room. if \<not> room then ?stop else act_bind (append_rows w lines) ?rest) s = (r, s')"
    have stop: "leads (stays sp) ?stop" by (intro stays_still still.rules still_puts)
    have rest: "leads (stays sp) (?rest x)" for x by (intro stays_still still.rules still_puts still_sample)
    show "stays sp s s'"
    proof (cases "?room s")
      case False
      with run have "?stop s = (r, s')" by (simp add: act_bind_def act_get_def)
      then show ?thesis by (rule leadsD [OF stop])
    next
      case True
      obtain q s1 where out: "append_rows w lines s = (q, s1)" by fastforce
      from leadsD [OF stays_rows out] True have s1: "stays sp s s1" by blast
      show ?thesis
      proof (cases q)
        case (Inl x)
        with run out True s1 show ?thesis by (simp add: act_bind_def act_get_def)
      next
        case (Inr v)
        with run out True have "?rest v s1 = (r, s')" by (simp add: act_bind_def act_get_def)
        from stays.trans [OF s1 leadsD [OF rest this]] show ?thesis .
      qed
    qed
  qed
  then show ?thesis unfolding save_page_def by - (rule stays.bind, rule stays.pure, rule stays.bind, rule stays.pure)
qed

lemma stays_find_tools: "leads (stays sp') (find_tools w sp deadline k cursor seen found)"
proof (induction k arbitrary: cursor seen found)
  case (Suc k)
  show ?case unfolding find_tools.simps
    by (intro stays.rules stays_bounded Suc.IH stays_still [OF still_add_tools] stays_still [OF still.put] still_puts)
qed (simp add: stays.pure)

lemma stays_look: "leads (stays sp) (look_status w sp deadline)"
  unfolding look_status_def
  by (intro stays.bind stays_call stays_still still.rules still_puts still_warnings)

lemma stays_wait: "nat (max_status_calls sp) - calls = k \<Longrightarrow> leads (stays sp) (wait_finished w sp deadline calls)"
proof (induction k arbitrary: calls)
  case 0
  then show ?case by (subst wait_finished_bind) (simp add: stays.pure nat_le_iff)
next
  case (Suc k)
  then have "leads (stays sp) (wait_finished w sp deadline (calls + 1))" by simp
  then show ?case by (subst wait_finished_bind) (intro stays.rules stays_look unwritten_stays [OF unwritten_sleep])
qed

lemma stays_collect: "leads (stays sp) (collect_pages w sp deadline k cursor visited)"
proof (induction k arbitrary: cursor visited)
  case (Suc k)
  show ?case unfolding collect_pages.simps Let_def
    by (intro stays.rules stays_call Suc.IH stays_save stays_still [OF still_page] stays_still [OF still.put] still_puts stays_still [OF still_warnings])
qed (simp add: stays.pure)

lemma stays_files: "leads (stays sp) (list_files w sp deadline)"
  unfolding list_files_def
  by (intro stays.bind stays_call stays_still still.rules still_puts still_warnings)

lemma stays_phases: "leads (stays sp) (phases w sp deadline)"
  unfolding phases_def load_contract_def
  by (intro stays.bind stays_find_tools stays_wait [OF HOL.refl] stays_collect stays_files stays_still [OF still_adopt] stays_still [OF still_contract])

end
