(* ===== verification/Flow_Exit.thy ===== *)
theory Flow_Exit
  imports Flow_Facts
begin

text \<open>
  What a run that succeeds has done, step by step, and the properties of the flow host: exit code 0 is
  earned by what was received and written, a run ends within its budget whatever the session answers, and the
  output stays within its limits.
\<close>

section \<open>Steps that write nothing\<close>

definition deposits :: "flow_run \<Rightarrow> byte list \<times> nat \<times> byte list \<times> nat \<times> nat \<times> (string \<times> pystr) option" where
  "deposits s = (calls_file s, calls_bytes s, rows_file s, rows_bytes s, rows_saved s, downgrade s)"

definition quiet :: "flow_run \<Rightarrow> flow_run \<Rightarrow> bool" where
  "quiet s s' \<longleftrightarrow> deposits s' = deposits s"

interpretation quiet: kept_relation quiet
  by unfold_locales (auto simp: quiet_def)

lemma quiet_puts:
  "quiet s (s\<lparr>last_state := v\<rparr>)" "quiet s (s\<lparr>warnings_count := n\<rparr>)" "quiet s (s\<lparr>next_unread := c\<rparr>)" "quiet s (s\<lparr>samples := xs\<rparr>)"
  "quiet s (s\<lparr>listed := n\<rparr>)" "quiet s (s\<lparr>validators := vs\<rparr>)" "quiet s (s\<lparr>contract_file := f\<rparr>)" "quiet s (s\<lparr>files_count := fc\<rparr>)"
  "quiet s (s\<lparr>pages_fetched := n, rows_fetched := m\<rparr>)" "quiet s (s\<lparr>asked := n, clock := t\<rparr>)" "quiet s (s\<lparr>clock := t\<rparr>)"
  "quiet s (s\<lparr>written := n\<rparr>)"
  by (simp_all add: quiet_def deposits_def)

lemma quiet_write:
  assumes "\<And>raw s. quiet s (keep raw s)"
  shows "leads quiet (write_out w keep raw)"
  by (rule leadsI) (auto simp: write_out_def Let_def split: option.splits intro!: quiet.trans [OF quiet_puts(12) assms])

lemma quiet_warnings: "leads quiet (count_warnings payload)"
  unfolding count_warnings_def by (intro quiet.rules quiet_puts)

lemma quiet_checked: "leads quiet (checked w name r)"
proof -
  have "leads quiet (error_code payload)" for payload
    by (cases "fld ''code'' payload") (auto simp: error_code_def intro!: quiet.rules)
  then show ?thesis unfolding checked_def Let_def by (intro quiet.rules)
qed

lemma quiet_page: "leads quiet (check_page sp cursor payload)"
  unfolding check_page_def by (intro quiet.rules)

lemma quiet_sample: "leads quiet (extend_sample sp rows)"
proof (induction rows)
  case Nil
  then show ?case by (simp add: quiet.pure)
next
  case (Cons row rows)
  then show ?case unfolding extend_sample.simps by (intro quiet.rules quiet_puts)
qed

lemma quiet_bounded: "leads quiet (bounded sp deadline start)"
  unfolding bounded_def Let_def by (intro quiet.rules quiet_puts)

lemma quiet_find: "leads quiet (find_tools w sp deadline k cursor seen found)"
proof (induction k arbitrary: cursor seen found)
  case (Suc k)
  have "leads quiet (add_tools ts found)" for ts found
    by (induction ts arbitrary: found) (auto intro!: quiet.pure)
  then show ?case unfolding find_tools.simps by (intro quiet.rules quiet_puts quiet_bounded Suc.IH)
qed (simp add: quiet.pure)

lemma quiet_load: "leads quiet (load_contract w sp deadline)"
proof -
  have "leads quiet (adopt_tools w found wanted)" for found wanted
    by (induction wanted) (auto simp: Let_def intro!: quiet.rules quiet_puts)
  then show ?thesis unfolding load_contract_def write_contract_def
    by (intro quiet.rules quiet_find quiet_write quiet_puts)
qed

section \<open>What a call adds to the log\<close>

definition log_line :: "string \<times> json \<times> call_result \<Rightarrow> byte list" where
  "log_line c = (case c of (name, args, r) \<Rightarrow> (case json_line (call_record name args (dumped r)) of Inr l \<Rightarrow> l | Inl x \<Rightarrow> []))"

text \<open>The answer came from the session, to this call.\<close>

definition answered :: "session \<Rightarrow> string \<times> json \<times> call_result \<Rightarrow> bool" where
  "answered w c = (case c of (name, args, r) \<Rightarrow> \<exists>n. snd (call_answer w n name args) = Answer r)"

definition logs :: "session \<Rightarrow> (string \<times> json \<times> call_result) list \<Rightarrow> flow_run \<Rightarrow> flow_run \<Rightarrow> bool" where
  "logs w cs s s' \<longleftrightarrow> (\<forall>c \<in> set cs. answered w c) \<and> calls_file s' = calls_file s @ concat (map log_line cs) \<and>
     calls_bytes s' = calls_bytes s + length (concat (map log_line cs))"

lemma logs_quiet: "quiet s s' \<Longrightarrow> logs w [] s s'"
  by (simp add: logs_def quiet_def deposits_def)

lemma logs_append: "logs w cs a b \<Longrightarrow> logs w ds b c \<Longrightarrow> logs w (cs @ ds) a c"
  by (auto simp: logs_def)

lemma logs_then: "logs w cs a b \<Longrightarrow> quiet b c \<Longrightarrow> logs w cs a c"
  using logs_append [OF _ logs_quiet] by fastforce

lemma logs_after: "quiet a b \<Longrightarrow> logs w cs b c \<Longrightarrow> logs w cs a c"
  using logs_append [OF logs_quiet] by fastforce

text \<open>All but the log is as it was.\<close>

definition same_rows :: "flow_run \<Rightarrow> flow_run \<Rightarrow> bool" where
  "same_rows s s' \<longleftrightarrow> rows_file s' = rows_file s \<and> rows_bytes s' = rows_bytes s \<and> rows_saved s' = rows_saved s \<and> downgrade s' = downgrade s"

lemma same_rows_quiet: "quiet s s' \<Longrightarrow> same_rows s s'"
  by (simp add: same_rows_def quiet_def deposits_def)

lemma same_rows_trans: "same_rows a b \<Longrightarrow> same_rows b c \<Longrightarrow> same_rows a c"
  by (simp add: same_rows_def)

lemma append_call_success:
  assumes "append_call w name args r s = (Inr v, s')" and "answered w (name, args, r)"
  shows "logs w [(name, args, r)] s s' \<and> same_rows s s'"
  using assms
  by (auto simp: append_call_def act_iff Let_def write_out_def keep_call_def logs_def log_line_def same_rows_def
      split: if_splits option.splits)

lemma bounded_success: "bounded sp deadline start s = (Inr a, s') \<Longrightarrow> quiet s s' \<and> (\<exists>n. snd (start n) = Answer a)"
  by (auto simp: bounded_def act_iff Let_def quiet_puts split: if_splits awaited.splits)

lemma checked_success: "checked w name r s = (Inr payload, s') \<Longrightarrow> payload = structured r \<and> is_obj payload \<and> \<not> is_error r \<and> s' = s"
  by (auto simp: checked_def act_iff Let_def split: if_splits)

lemma call_success:
  assumes "call_tool w sp deadline name args s = (Inr payload, s')"
  shows "\<exists>r. payload = structured r \<and> \<not> is_error r \<and> is_obj payload \<and> logs w [(name, args, r)] s s' \<and> same_rows s s'"
proof -
  let ?s1 = "s\<lparr>call_counts := (call_counts s)(name := call_counts s name + 1)\<rparr>"
  have "quiet s ?s1" by (simp add: quiet_def deposits_def)
  from assms obtain r s2 where got: "bounded sp deadline (\<lambda>n. call_answer w n name args) ?s1 = (Inr r, s2)"
      and rest: "act_bind (append_call w name args r) (\<lambda>_. checked w name r) s2 = (Inr payload, s')"
    by (auto simp: call_tool_def act_iff)
  from bounded_success [OF got] have s2: "quiet ?s1 s2" "answered w (name, args, r)" by (auto simp: answered_def)
  from rest obtain v s3 where app: "append_call w name args r s2 = (Inr v, s3)" and chk: "checked w name r s3 = (Inr payload, s')"
    by (auto simp: act_iff)
  from \<open>quiet s ?s1\<close> s2(1) have q: "quiet s s2" by (rule quiet.trans)
  from append_call_success [OF app s2(2)] checked_success [OF chk]
  show ?thesis using logs_after [OF q] same_rows_trans [OF same_rows_quiet [OF q]] by blast
qed

section \<open>The status calls\<close>

definition status_call :: "flow_spec \<Rightarrow> call_result \<Rightarrow> string \<times> json \<times> call_result" where
  "status_call sp r = (status_tool, status_args sp, r)"

definition reports :: "flow_spec \<Rightarrow> pystr \<Rightarrow> call_result \<Rightarrow> bool" where
  "reports sp state r \<longleftrightarrow> \<not> is_error r \<and> fld ''flow_id'' (structured r) = JStr (flow_id sp) \<and> fld ''state'' (structured r) = JStr state"

lemma item_fld: "item k v = Inr x \<Longrightarrow> fld k v = x"
  by (auto simp: item_def fld_def split: option.splits)

lemma look_success:
  assumes "look_status w sp deadline s = (Inr finished, s')"
  shows "\<exists>r. logs w [status_call sp r] s s' \<and> same_rows s s' \<and> (finished \<longrightarrow> reports sp (u ''FINISHED'') r)"
proof -
  from assms obtain payload s1 state s2 where call: "call_tool w sp deadline status_tool (status_args sp) s = (Inr payload, s1)"
      and state: "item ''state'' payload = Inr state" and warn: "count_warnings payload (s1\<lparr>last_state := state\<rparr>) = (Inr (), s2)"
      and flow: "item ''flow_id'' payload = Inr (JStr (flow_id sp))" and fin: "finished \<longrightarrow> state = JStr (u ''FINISHED'')" and "s' = s2"
    by (auto simp: look_status_def act_iff split: if_splits)
  from leadsD [OF quiet_warnings warn] have q: "quiet s1 s'" using \<open>s' = s2\<close> quiet.trans [OF quiet_puts(1)] by blast
  from call_success [OF call] obtain r where "payload = structured r" "\<not> is_error r" "logs w [status_call sp r] s s1" "same_rows s s1"
    by (auto simp: status_call_def)
  moreover from this(2) have "finished \<longrightarrow> reports sp (u ''FINISHED'') r"
    using fin item_fld [OF state] item_fld [OF flow] \<open>payload = structured r\<close> by (simp add: reports_def)
  ultimately show ?thesis using logs_then [OF _ q] same_rows_trans [OF _ same_rows_quiet [OF q]] by blast
qed

lemma sleep_success: "sleep w deadline i s = (Inr v, s') \<Longrightarrow> quiet s s'"
  by (auto simp: sleep_def act_iff quiet_puts)

lemma wait_success:
  "wait_finished w sp deadline calls s = (Inr (), s') \<Longrightarrow> nat (max_status_calls sp) - calls = k \<Longrightarrow>
    \<exists>rs r. logs w (map (status_call sp) (rs @ [r])) s s' \<and> same_rows s s' \<and> reports sp (u ''FINISHED'') r"
proof (induction k arbitrary: calls s)
  case 0
  then show ?case by (subst (asm) wait_finished_bind) (simp add: act_iff nat_le_iff)
next
  case (Suc k)
  from Suc.prems(1) [unfolded wait_finished_bind [of w sp deadline calls]] obtain finished s1 where look: "look_status w sp deadline s = (Inr finished, s1)"
      and rest: "(if finished then act_return () else act_bind (sleep w deadline calls)
        (\<lambda>_. wait_finished w sp deadline (calls + 1))) s1 = (Inr (), s')"
    by (cases "max_status_calls sp \<le> int calls") (auto simp only: act_stop_iff act_bind_Inr if_True if_False)
  from look_success [OF look] obtain r where r: "logs w [status_call sp r] s s1" "same_rows s s1" "finished \<longrightarrow> reports sp (u ''FINISHED'') r" by blast
  show ?case
  proof (cases finished)
    case True
    with rest have "s' = s1" by (simp add: act_iff)
    with r True show ?thesis by (intro exI [of _ "[]"] exI [of _ r]) simp
  next
    case False
    with rest obtain v s2 where nap: "sleep w deadline calls s1 = (Inr v, s2)"
        and again: "wait_finished w sp deadline (calls + 1) s2 = (Inr (), s')"
      by (auto simp: act_iff)
    have "nat (max_status_calls sp) - (calls + 1) = k" using Suc.prems(2) by simp
    from Suc.IH [OF again this]
    obtain rs r' where rs: "logs w (map (status_call sp) (rs @ [r'])) s2 s'" "same_rows s2 s'" "reports sp (u ''FINISHED'') r'" by blast
    note q = sleep_success [OF nap]
    have "logs w (map (status_call sp) ((r # rs) @ [r'])) s s'" using logs_append [OF logs_then [OF r(1) q] rs(1)] by simp
    moreover have "same_rows s s'" using r(2) same_rows_quiet [OF q] rs(2) by (blast intro: same_rows_trans)
    ultimately show ?thesis using rs(3) by blast
  qed
qed

section \<open>The pages\<close>

definition pagination :: "call_result \<Rightarrow> json" where
  "pagination r = fld ''pagination'' (structured r)"

definition next_of :: "call_result \<Rightarrow> json" where
  "next_of r = fld ''next_cursor'' (pagination r)"

definition rows_of :: "call_result \<Rightarrow> json list" where
  "rows_of r = (case py_iter (fld ''data'' (structured r)) of Inr rows \<Rightarrow> rows | Inl x \<Rightarrow> [])"

definition row_line :: "json \<Rightarrow> byte list" where
  "row_line row = (case json_line row of Inr l \<Rightarrow> l | Inl x \<Rightarrow> [])"

text \<open>One page answers for the cursor it was asked for and counts its own rows, each of which has a line.\<close>

definition page_for :: "flow_spec \<Rightarrow> json \<Rightarrow> call_result \<Rightarrow> bool" where
  "page_for sp c r \<longleftrightarrow> \<not> is_error r \<and> fld ''cursor'' (pagination r) = expected_cursor c \<and>
     py_eq (fld ''returned'' (pagination r)) (JInt (int (length (rows_of r)))) \<and>
     py_eq (fld ''page_size'' (pagination r)) (JInt (page_size sp)) \<and> (\<forall>row \<in> set (rows_of r). is_ok (json_line row))"

text \<open>The pages from a cursor to the last: each names the next, and only the last says that nothing follows.\<close>

fun chained :: "flow_spec \<Rightarrow> json \<Rightarrow> call_result list \<Rightarrow> bool" where
  "chained sp c [] = False"
| "chained sp c (r # rs) = (page_for sp c r \<and>
     (if rs = [] then \<not> truthy (fld ''truncated'' (pagination r)) \<and> next_of r = JNull
      else truthy (fld ''truncated'' (pagination r)) \<and> is_str (next_of r) \<and> chained sp (next_of r) rs))"

fun page_calls :: "flow_spec \<Rightarrow> json \<Rightarrow> call_result list \<Rightarrow> (string \<times> json \<times> call_result) list" where
  "page_calls sp c [] = []"
| "page_calls sp c (r # rs) = (results_tool, page_args sp c, r) # page_calls sp (next_of r) rs"

definition gains :: "json list \<Rightarrow> flow_run \<Rightarrow> flow_run \<Rightarrow> bool" where
  "gains rows s s' \<longleftrightarrow> rows_file s' = rows_file s @ concat (map row_line rows) \<and>
     rows_bytes s' = rows_bytes s + length (concat (map row_line rows)) \<and> rows_saved s' = rows_saved s + length rows \<and> downgrade s' = downgrade s"

lemma gains_same: "same_rows s s' \<Longrightarrow> gains [] s s'"
  by (simp add: gains_def same_rows_def)

lemma gains_append: "gains xs a b \<Longrightarrow> gains ys b c \<Longrightarrow> gains (xs @ ys) a c"
  by (simp add: gains_def)

lemma gains_quiet: "quiet s s' \<Longrightarrow> gains [] s s'"
  by (simp add: gains_same same_rows_quiet)

lemma py_iter_len: "py_iter v = Inr rows \<Longrightarrow> py_len v = Inr n \<Longrightarrow> n = length rows"
  by (cases v) auto

lemma check_page_success:
  assumes "check_page sp cursor (structured r) s = (Inr (further, n, data, nxt), s')" and "cursor = JNull \<or> is_str cursor"
  shows "s' = s \<and> data = fld ''data'' (structured r) \<and> nxt = next_of r \<and> further = truthy (fld ''truncated'' (pagination r)) \<and>
    fld ''cursor'' (pagination r) = expected_cursor cursor \<and> py_len data = Inr n \<and> py_eq (fld ''returned'' (pagination r)) (JInt (int n)) \<and>
    py_eq (fld ''page_size'' (pagination r)) (JInt (page_size sp)) \<and> (if further then is_str nxt else nxt = JNull)"
proof -
  have e: "py_eq v (expected_cursor cursor) \<longleftrightarrow> v = expected_cursor cursor" for v
    using assms(2) by (cases cursor) (auto simp: expected_cursor_def)
  from assms(1) show ?thesis
    by (auto simp: e check_page_def act_iff pagination_def next_of_def dest!: item_fld split: if_splits)
qed

lemma append_rows_success:
  "append_rows w lines s = (Inr v, s') \<Longrightarrow>
    rows_file s' = rows_file s @ concat lines \<and> rows_bytes s' = rows_bytes s + length (concat lines) \<and> rows_saved s' = rows_saved s \<and>
    downgrade s' = downgrade s \<and> calls_file s' = calls_file s \<and> calls_bytes s' = calls_bytes s"
proof (induction lines arbitrary: s)
  case Nil
  then show ?case by (auto simp: write_out_def Let_def split: option.splits)
next
  case (Cons line lines)
  then obtain s1 x where "write_out w keep_row line s = (Inr x, s1)" and "append_rows w lines (s1\<lparr>rows_bytes := rows_bytes s1 + length line\<rparr>) = (Inr v, s')"
    by (auto simp: act_iff)
  with Cons.IH show ?case by (fastforce simp: write_out_def Let_def keep_row_def split: option.splits)
qed

lemma lines_of_rows:
  "fold_res (\<lambda>row ls. rbind (json_line row) (\<lambda>line. Inr (ls @ [line]))) rows acc = Inr lines \<Longrightarrow>
    lines = acc @ map row_line rows \<and> (\<forall>row \<in> set rows. is_ok (json_line row))"
  by (induction rows arbitrary: acc) (fastforce simp: rbind_Inr_iff row_line_def is_ok_iff)+

lemma save_page_success:
  assumes "save_page w sp echo n (fld ''data'' (structured r)) s = (Inr v, s')" and "py_len (fld ''data'' (structured r)) = Inr n"
  shows "gains (rows_of r) s s' \<and> logs w [] s s' \<and> n = length (rows_of r) \<and> (\<forall>row \<in> set (rows_of r). is_ok (json_line row))"
proof -
  from assms(1) obtain rows lines s1 x where rows: "py_iter (fld ''data'' (structured r)) = Inr rows"
      and lines: "fold_res (\<lambda>row ls. rbind (json_line row) (\<lambda>line. Inr (ls @ [line]))) rows [] = Inr lines"
      and app: "append_rows w lines s = (Inr x, s1)"
      and ext: "extend_sample sp rows (s1\<lparr>pages_saved := pages_saved s1 + 1, rows_saved := rows_saved s1 + n\<rparr>) = (Inr v, s')"
    by (auto simp: save_page_def act_iff split: if_splits)
  have r: "rows_of r = rows" by (simp add: rows_of_def rows)
  from leadsD [OF quiet_sample ext] append_rows_success [OF app] lines_of_rows [OF lines] py_iter_len [OF rows assms(2)] r
  show ?thesis by (auto simp: gains_def logs_def quiet_def deposits_def)
qed

lemma collect_success:
  "collect_pages w sp deadline k cursor visited s = (Inr (), s') \<Longrightarrow> 0 < k \<Longrightarrow> cursor = JNull \<or> is_str cursor \<Longrightarrow>
    \<exists>rs. chained sp cursor rs \<and> logs w (page_calls sp cursor rs) s s' \<and> gains (concat (map rows_of rs)) s s'"
proof (induction k arbitrary: cursor visited s)
  case (Suc k)
  let ?echo = "expected_cursor cursor"
  from Suc.prems(1) obtain payload s1 further n data nxt s2 s3 s4 where
      call: "call_tool w sp deadline results_tool (page_args sp cursor) s = (Inr payload, s1)"
      and page: "check_page sp cursor payload s1 = (Inr (further, n, data, nxt), s2)"
      and warn: "count_warnings payload (s2\<lparr>pages_fetched := pages_fetched s2 + 1, rows_fetched := rows_fetched s2 + n\<rparr>) = (Inr (), s3)"
      and save: "save_page w sp ?echo n data s3 = (Inr (), s4)"
      and rest: "(if \<not> further then act_put (\<lambda>s. s\<lparr>next_unread := JNull\<rparr>)
         else if nxt \<in> set (?echo # visited) then act_stop protocol_error
         else if k = 0 then act_bind (act_put (\<lambda>s. s\<lparr>next_unread := nxt\<rparr>)) (\<lambda>_. act_stop (partial_stop ''page_budget''))
         else collect_pages w sp deadline k nxt (?echo # visited)) s4 = (Inr (), s')"
    by (auto simp only: collect_pages.simps Let_def act_bind_Inr act_put_iff split: prod.splits) auto
  from call_success [OF call] obtain r where payload: "payload = structured r" and r: "\<not> is_error r"
      "logs w [(results_tool, page_args sp cursor, r)] s s1" "same_rows s s1" by blast
  note chk = check_page_success [OF page [unfolded payload] Suc.prems(3)]
  then have data: "data = fld ''data'' (structured r)" "py_len (fld ''data'' (structured r)) = Inr n" by auto
  from save_page_success [OF save [unfolded data(1)] data(2)] have saved: "gains (rows_of r) s3 s4" "logs w [] s3 s4"
      "n = length (rows_of r)" "\<forall>row \<in> set (rows_of r). is_ok (json_line row)" by auto
  have "quiet s1 s3" using quiet.trans [OF quiet_puts(9) leadsD [OF quiet_warnings warn]] chk by metis
  then have s4: "gains (rows_of r) s s4" "logs w [(results_tool, page_args sp cursor, r)] s s4"
    using gains_append [OF gains_same [OF r(3)] gains_append [OF gains_quiet saved(1)]] logs_append [OF logs_then [OF r(2)] saved(2)] by simp_all
  have this_page: "page_for sp cursor r" using chk saved(3, 4) r(1) by (simp add: page_for_def)
  show ?case
  proof (cases further)
    case False
    with rest have "s' = s4\<lparr>next_unread := JNull\<rparr>" by (simp add: act_iff)
    then have "quiet s4 s'" by (simp add: quiet_puts)
    with s4 have "gains (rows_of r) s s'" "logs w [(results_tool, page_args sp cursor, r)] s s'"
      using gains_append [OF s4(1) gains_quiet] logs_then by fastforce+
    then show ?thesis using this_page chk False by (intro exI [of _ "[r]"]) auto
  next
    case True
    with rest have "0 < k" and again: "collect_pages w sp deadline k nxt (?echo # visited) s4 = (Inr (), s')"
      by (auto simp: act_iff split: if_splits)
    from Suc.IH [OF again \<open>0 < k\<close>] chk True obtain rs where rs: "chained sp nxt rs" "logs w (page_calls sp nxt rs) s4 s'"
        "gains (concat (map rows_of rs)) s4 s'" by auto
    then have "rs \<noteq> []" by auto
    with rs this_page chk True have "chained sp cursor (r # rs)" by auto
    moreover have "logs w (page_calls sp cursor (r # rs)) s s'" using logs_append [OF s4(2) rs(2)] chk by simp
    moreover have "gains (concat (map rows_of (r # rs))) s s'" using gains_append [OF s4(1) rs(3)] by simp
    ultimately show ?thesis by blast
  qed
qed simp

section \<open>The files and the whole run\<close>

definition files_call :: "flow_spec \<Rightarrow> call_result \<Rightarrow> string \<times> json \<times> call_result" where
  "files_call sp r = (files_tool, status_args sp, r)"

lemma files_success:
  assumes "list_files w sp deadline s = (Inr v, s')"
  shows "\<exists>r. \<not> is_error r \<and> logs w [files_call sp r] s s' \<and> rows_file s' = rows_file s \<and> rows_bytes s' = rows_bytes s \<and> rows_saved s' = rows_saved s \<and>
    downgrade s' = (if truthy (fld ''truncated'' (structured r)) then Some (''partial'', u ''filelist_truncated'') else downgrade s)"
proof -
  from assms obtain payload s1 s2 n cut where call: "call_tool w sp deadline files_tool (status_args sp) s = (Inr payload, s1)"
      and warn: "count_warnings payload s1 = (Inr (), s2)" and cut: "item ''truncated'' payload = Inr cut"
      and s': "s' = s2\<lparr>files_count := Some n, files_complete := Some (\<not> truthy cut),
        downgrade := if truthy cut then Some (''partial'', u ''filelist_truncated'') else downgrade s2\<rparr>"
    by (auto simp: list_files_def act_iff cong: if_cong)
  note q = leadsD [OF quiet_warnings warn]
  from call_success [OF call] obtain r where "payload = structured r" "\<not> is_error r" "logs w [files_call sp r] s s1" "same_rows s s1"
    by (auto simp: files_call_def)
  then show ?thesis using q s' item_fld [OF cut] by (intro exI [of _ r]) (auto simp: quiet_def deposits_def logs_def same_rows_def)
qed

lemma phases_success:
  assumes "phases w sp deadline s = (Inr v, s')" and "0 < max_pages sp"
  shows "\<exists>rs r ps f. reports sp (u ''FINISHED'') r \<and> chained sp JNull ps \<and> \<not> is_error f \<and>
    logs w (map (status_call sp) (rs @ [r]) @ page_calls sp JNull ps @ [files_call sp f]) s s' \<and>
    rows_file s' = rows_file s @ concat (map row_line (concat (map rows_of ps))) \<and>
    rows_bytes s' = rows_bytes s + length (concat (map row_line (concat (map rows_of ps)))) \<and>
    rows_saved s' = rows_saved s + length (concat (map rows_of ps)) \<and>
    downgrade s' = (if truthy (fld ''truncated'' (structured f)) then Some (''partial'', u ''filelist_truncated'') else downgrade s)"
proof -
  from assms(1) obtain s1 s2 s3 where load: "load_contract w sp deadline s = (Inr (), s1)"
      and wait: "wait_finished w sp deadline 0 s1 = (Inr (), s2)"
      and pages: "collect_pages w sp deadline (nat (max_pages sp)) JNull [] s2 = (Inr (), s3)"
      and files: "list_files w sp deadline s3 = (Inr v, s')"
    by (auto simp: phases_def act_iff)
  note q = leadsD [OF quiet_load load]
  from wait_success [OF wait HOL.refl] obtain rs r where r: "logs w (map (status_call sp) (rs @ [r])) s1 s2" "same_rows s1 s2"
      "reports sp (u ''FINISHED'') r" by blast
  from collect_success [OF pages] assms(2) obtain ps where ps: "chained sp JNull ps" "logs w (page_calls sp JNull ps) s2 s3"
      "gains (concat (map rows_of ps)) s2 s3" by auto
  from files_success [OF files] obtain f where f: "\<not> is_error f" "logs w [files_call sp f] s3 s'" "rows_file s' = rows_file s3"
      "rows_bytes s' = rows_bytes s3" "rows_saved s' = rows_saved s3"
      "downgrade s' = (if truthy (fld ''truncated'' (structured f)) then Some (''partial'', u ''filelist_truncated'') else downgrade s3)" by blast
  have "logs w (map (status_call sp) (rs @ [r]) @ page_calls sp JNull ps @ [files_call sp f]) s s'"
    using logs_append [OF logs_after [OF q r(1)] logs_append [OF ps(2) f(2)]] .
  moreover have "gains (concat (map rows_of ps)) s s3"
    using gains_append [OF gains_same [OF same_rows_trans [OF same_rows_quiet [OF q] r(2)]] ps(3)] by simp
  ultimately show ?thesis using r(3) ps(1) f by (intro exI [of _ rs] exI [of _ r] exI [of _ ps] exI [of _ f]) (simp add: gains_def)
qed

section \<open>The summary\<close>

lemma fit_success:
  "fit_summary sp s r facts shown = Inr v \<Longrightarrow>
    \<exists>k raw. v = summary_json sp s r facts (take k shown) \<and> dumps_utf8 v = Inr raw \<and> length raw \<le> summary_limit"
proof (induction sp s r facts shown rule: fit_summary.induct)
  case (1 sp s r facts shown)
  show ?case
  proof (cases "dumps_utf8 (summary_json sp s r facts shown)")
    case (Inl x)
    with "1.prems" show ?thesis by (simp add: fit_summary.simps [of sp s r facts shown] Let_def)
  next
    case (Inr raw)
    show ?thesis
    proof (cases "length raw \<le> summary_limit")
      case True
      with "1.prems" Inr show ?thesis
        by (intro exI [of _ "length shown"]) (simp add: fit_summary.simps [of sp s r facts shown] Let_def)
    next
      case False
      with "1.prems" Inr have ne: "shown \<noteq> []" and again: "fit_summary sp s r facts (butlast shown) = Inr v"
        by (auto simp: fit_summary.simps [of sp s r facts shown] Let_def split: if_splits)
      from "1.IH" [OF HOL.refl Inr False ne again] obtain k where "v = summary_json sp s r facts (take k (butlast shown))"
          "\<exists>raw. dumps_utf8 v = Inr raw \<and> length raw \<le> summary_limit" by blast
      then show ?thesis by (intro exI [of _ "min k (length shown - 1)"]) (simp add: butlast_conv_take)
    qed
  qed
qed

lemma fit_stops: "fit_summary sp s r facts shown = Inl (Stop outcome reason) \<Longrightarrow> reason = u ''summary_overflow''"
  by (induction sp s r facts shown rule: fit_summary.induct)
    (subst (asm) (2) fit_summary.simps, auto simp: Let_def failed_def split: sum.splits if_splits)

lemma stopped_incomplete [simp]: "\<not> rr_complete (stopped outcome reason)"
  by (simp add: stopped_def)

lemma write_result_True: "write_result l raw = (True, stored) \<Longrightarrow> stored = Some raw"
  by (auto simp: write_result_def split: option.splits)

lemma write_result_Some: "write_result l raw = (ok, Some bs) \<Longrightarrow> length bs \<le> length raw"
  by (auto simp: write_result_def split: option.splits)

text \<open>The three ways to \<open>result.json\<close>: it was written, its writing failed, or the summary did not fit.\<close>

lemma store_result_cases:
  assumes "store_result sp l s r facts = Inr (r1, v, stored, path)"
  obtains (whole) raw where "build_summary sp s r facts = Inr v" "dumps_utf8 v = Inr raw" "write_result l raw = (True, stored)" "r1 = r"
    | (broken) v0 raw where "build_summary sp s r facts = Inr v0" "dumps_utf8 v0 = Inr raw" "write_result l raw = (False, stored)"
        "r1 = stopped ''failed'' (u ''io_error'')"
    | (large) outcome reason raw ok where "build_summary sp s r facts = Inl (Stop outcome reason)" "r1 = stopped ''failed'' reason"
        "write_result l raw = (ok, stored)" "dumps_utf8 v = Inr raw" "length raw \<le> summary_limit \<or> v = least_summary sp reason"
proof (cases "build_summary sp s r facts")
  case (Inr v0)
  with assms obtain raw where raw: "dumps_utf8 v0 = Inr raw" by (auto simp: store_result_def Let_def rbind_Inr_iff)
  obtain ok stored0 where w: "write_result l raw = (ok, stored0)" by fastforce
  show ?thesis
  proof (cases ok)
    case True
    have "store_result sp l s r facts = Inr (r, v0, stored0, output_file sp ''result.json'')"
      using Inr raw w True by (simp add: store_result_def Let_def)
    with assms have "r1 = r" "v = v0" "stored = stored0" by simp_all
    with whole Inr raw w True show ?thesis by simp
  next
    case False
    let ?r1 = "stopped ''failed'' (u ''io_error'')"
    have "store_result sp l s r facts = (case build_summary sp s ?r1 facts of Inr v1 \<Rightarrow> Inr (?r1, v1, stored0, JNull)
        | Inl (Stop outcome reason) \<Rightarrow> Inr (?r1, least_summary sp (u ''io_error''), stored0, JNull) | Inl (Broken x) \<Rightarrow> Inl x)"
      using Inr raw w False by (simp add: store_result_def Let_def)
    from this assms have shape: "(case build_summary sp s ?r1 facts of Inr v1 \<Rightarrow> Inr (?r1, v1, stored0, JNull)
        | Inl (Stop outcome reason) \<Rightarrow> Inr (?r1, least_summary sp (u ''io_error''), stored0, JNull) | Inl (Broken x) \<Rightarrow> Inl x) = Inr (r1, v, stored, path)"
      by (rule trans [OF sym])
    have "r1 = ?r1 \<and> stored = stored0"
    proof (cases "build_summary sp s ?r1 facts")
      case (Inl x)
      with shape show ?thesis by (cases x) simp_all
    next
      case (Inr v1)
      with shape show ?thesis by simp
    qed
    then have "r1 = ?r1" "stored = stored0" by simp_all
    with broken Inr raw w False show ?thesis by simp
  qed
next
  case (Inl x)
  with assms obtain outcome reason where x: "x = Stop outcome reason" by (cases x) (auto simp: store_result_def)
  with Inl assms obtain raw0 where raw0: "dumps_utf8 (short_summary sp s reason) = Inr raw0" by (auto simp: store_result_def Let_def rbind_Inr_iff)
  let ?v = "if summary_limit < length raw0 then least_summary sp reason else short_summary sp s reason"
  from Inl x assms raw0 obtain raw where raw: "dumps_utf8 ?v = Inr raw" by (auto simp: store_result_def Let_def rbind_Inr_iff)
  obtain ok stored0 where w: "write_result l raw = (ok, stored0)" by fastforce
  from assms Inl x raw0 raw w have "r1 = stopped ''failed'' reason" "stored = stored0" "v = ?v"
    by (simp_all add: store_result_def Let_def split: if_splits)
  with large Inl x raw w raw0 show ?thesis by (cases "summary_limit < length raw0") auto
qed

lemma store_complete:
  assumes "store_result sp l s r facts = Inr (r1, v, stored, path)" and "rr_complete r1"
  shows "rr_complete r \<and> (\<exists>k raw. v = summary_json sp s r facts (take k (samples s)) \<and> dumps_utf8 v = Inr raw \<and> stored = Some raw)"
  using assms(1)
proof (cases rule: store_result_cases)
  case (whole raw)
  with assms(2) fit_success [of sp s r facts "samples s" v] write_result_True [of l raw stored] show ?thesis by (auto simp: build_summary_def)
qed (use assms(2) in simp_all)

lemma store_stored:
  assumes "store_result sp l s r facts = Inr (r1, v, Some raw, path)" and "length (flow_id sp) \<le> 256"
  shows "length raw \<le> summary_limit"
proof -
  have least: "length raw \<le> summary_limit" if "dumps_utf8 (least_summary sp (u ''summary_overflow'')) = Inr raw" for raw
  proof -
    have "char_cost c \<le> 6" for c by (simp add: char_cost_def)
    then have "sum_list (map char_cost xs) \<le> 6 * length xs" for xs
      by (induction xs) (simp, metis add_le_mono length_Cons list.simps(9) mult_Suc_right sum_list.Cons)
    from this [of "flow_id sp"] assms(2) have flow: "text_cost (flow_id sp) \<le> 1538" by (simp add: text_cost_eq)
    from that have "length raw = cost (least_summary sp (u ''summary_overflow''))"
      by (auto simp: dumps_utf8_def encode_utf8_def cost_def result_iff split: if_splits)
    then show ?thesis using flow
      by (simp add: least_summary_def flow_result_schema_def obj_def cost_simps summary_limit_def)
        (simp add: text_cost_eq u_def char_cost_def)
  qed
  from assms(1) show ?thesis
  proof (cases rule: store_result_cases)
    case (whole raw')
    then show ?thesis using write_result_Some fit_success unfolding build_summary_def by fastforce
  next
    case (broken v0 raw')
    then show ?thesis using write_result_Some fit_success unfolding build_summary_def by fastforce
  next
    case (large outcome reason raw' ok)
    then have "reason = u ''summary_overflow''" unfolding build_summary_def by (auto dest: fit_stops)
    with large least [of raw'] have "length raw' \<le> summary_limit" by auto
    with large(3) show ?thesis using write_result_Some by fastforce
  qed
qed

lemma finish_parts:
  assumes "finish sp l s r0 = Inr en"
  obtains r r1 v stored path where "r = (if streams_close l then r0 else stopped ''failed'' (u ''io_error''))"
    "store_result sp l s r (file_facts sp (streams_close l) s) = Inr (r1, v, stored, path)" "result_json en = stored"
    "exit_code en = 0 \<longrightarrow> rr_complete r1"
proof -
  let ?r = "if streams_close l then r0 else stopped ''failed'' (u ''io_error'')"
  from assms obtain x where store: "store_result sp l s ?r (file_facts sp (streams_close l) s) = Inr x"
    by (auto simp: finish_def Let_def rbind_Inr_iff)
  obtain r1 v stored path where x: "x = (r1, v, stored, path)" by (cases x)
  from assms store x have "result_json en = stored \<and> (exit_code en = 0 \<longrightarrow> rr_complete r1)"
    by (auto simp: finish_def Let_def rbind_Inr_iff emit_def split: sum.splits stop.splits exn.splits if_splits)
  with that [OF HOL.refl store [unfolded x]] show ?thesis by blast
qed

lemma finish_zero:
  assumes "finish sp l s r0 = Inr en" and "exit_code en = 0"
  shows "rr_complete r0 \<and> (\<exists>k raw v. v = summary_json sp s r0 (file_facts sp True s) (take k (samples s)) \<and> dumps_utf8 v = Inr raw \<and> result_json en = Some raw)"
proof -
  from assms(1) obtain r r1 v stored path where r: "r = (if streams_close l then r0 else stopped ''failed'' (u ''io_error''))"
      and store: "store_result sp l s r (file_facts sp (streams_close l) s) = Inr (r1, v, stored, path)" and "result_json en = stored"
      and "exit_code en = 0 \<longrightarrow> rr_complete r1"
    by (rule finish_parts)
  with assms(2) store_complete [OF store] have *: "rr_complete r" "\<exists>k raw. v = summary_json sp s r (file_facts sp (streams_close l) s) (take k (samples s)) \<and> dumps_utf8 v = Inr raw \<and> stored = Some raw"
    by auto
  then have "streams_close l" using r by (simp split: if_splits)
  with * r \<open>result_json en = stored\<close> show ?thesis by auto
qed

lemma session_complete:
  assumes "session_phase w sp l now = (Inr r, s)" and "rr_complete r"
  shows "\<exists>s0 v. phases w sp (now + deadline_seconds sp) s0 = (Inr v, s) \<and> calls_file s0 = [] \<and> calls_bytes s0 = 0 \<and> rows_file s0 = [] \<and>
    rows_bytes s0 = 0 \<and> rows_saved s0 = 0 \<and> downgrade s0 = None \<and> r = flow_outcome s"
proof -
  let ?s0 = "fresh_run (now + min (max 0 (fst (entry l))) (min (deadline_seconds sp) (request_timeout sp)))"
  from assms have none: "connect sp l = None"
    by (auto simp: session_phase_def connect_def Let_def split: if_splits awaited.splits option.splits)
  with assms obtain r0 where run: "run w sp (now + deadline_seconds sp) ?s0 = (Inr r0, s)" and r: "r = after_close l r0"
    by (auto simp: session_phase_def Let_def split: prod.splits sum.splits)
  from r assms(2) have "r = r0" by (auto simp: after_close_def split: if_splits)
  with run assms(2) obtain v where "phases w sp (now + deadline_seconds sp) ?s0 = (Inr v, s)" "r = flow_outcome s"
    by (auto simp: run_def split: prod.splits sum.splits stop.splits)
  then show ?thesis by (intro exI [of _ ?s0] exI [of _ v]) (simp add: fresh_run_def)
qed

lemma complete_not_cut: "rr_complete (flow_outcome s) \<Longrightarrow> downgrade s \<noteq> Some (''partial'', reason)"
  by (auto simp: flow_outcome_def)

lemma summary_fields:
  "fld ''complete'' (summary_json sp s r (file_facts sp True s) shown) = JBool (rr_complete r)"
  "fld ''rows_saved'' (summary_json sp s r (file_facts sp True s) shown) = JInt (int (rows_saved s))"
  "fld ''rows_sha256'' (summary_json sp s r (file_facts sp True s) shown) = JStr (sha256_hex (take (rows_bytes s) (rows_file s)))"
  "fld ''calls_sha256'' (summary_json sp s r (file_facts sp True s) shown) = JStr (sha256_hex (take (calls_bytes s) (calls_file s)))"
  by (simp_all add: summary_json_def file_facts_def)

lemma parsed_ranges:
  assumes "parse_spec pf raw = Inr sp"
  shows "0 < max_pages sp" "max_pages sp \<le> 1000" "0 < max_status_calls sp" "max_status_calls sp \<le> 512" "length (flow_id sp) \<le> 256"
    "0 \<le> max_result_bytes sp" "0 \<le> max_log_bytes sp"
  using assms by (auto simp: parse_spec_def spec_data_def parse_budget_def budget_integer_def text_id_def result_iff)

text \<open>
  C37: exit code 0 is earned: the flow was reported finished, its pages were chained from the first cursor to
  the last with every row of every page in \<open>rows.jsonl\<close>, the list of files was complete, \<open>calls.jsonl\<close> is the
  record of exactly these calls and what the session answered to them, and \<open>result.json\<close> says so, with the
  number of rows and the digests of both files.
\<close>

theorem flow_exit_zero_earned:
  assumes "parse_spec pf raw = Inr sp" and "execute w sp l now = (Inr en, s)" and "exit_code en = 0"
  shows "\<exists>rs r ps f v summary. reports sp (u ''FINISHED'') r \<and> chained sp JNull ps \<and> \<not> is_error f \<and> \<not> truthy (fld ''truncated'' (structured f)) \<and>
    (let calls = map (status_call sp) (rs @ [r]) @ page_calls sp JNull ps @ [files_call sp f]; rows = concat (map rows_of ps) in
     (\<forall>c \<in> set calls. answered w c) \<and> calls_file s = concat (map log_line calls) \<and> rows_file s = concat (map row_line rows) \<and>
     dumps_utf8 v = Inr summary \<and> result_json en = Some summary \<and> fld ''complete'' v = JBool True \<and>
     fld ''rows_saved'' v = JInt (int (length rows)) \<and> fld ''rows_sha256'' v = JStr (sha256_hex (rows_file s)) \<and>
     fld ''calls_sha256'' v = JStr (sha256_hex (calls_file s)))"
proof -
  from assms(2) obtain r0 where phase: "session_phase w sp l now = (Inr r0, s)" and fin: "finish sp l s r0 = Inr en"
    by (auto simp: execute_def split: prod.splits sum.splits)
  from finish_zero [OF fin assms(3)] obtain k summary v where r0: "rr_complete r0"
      and v: "v = summary_json sp s r0 (file_facts sp True s) (take k (samples s))" "dumps_utf8 v = Inr summary" "result_json en = Some summary" by blast
  from session_complete [OF phase r0] obtain s0 x where run: "phases w sp (now + deadline_seconds sp) s0 = (Inr x, s)"
      and s0: "calls_file s0 = []" "calls_bytes s0 = 0" "rows_file s0 = []" "rows_bytes s0 = 0" "rows_saved s0 = 0" "downgrade s0 = None"
      and out: "r0 = flow_outcome s" by blast
  from phases_success [OF run parsed_ranges(1) [OF assms(1)]] obtain rs r ps f where
      parts: "reports sp (u ''FINISHED'') r" "chained sp JNull ps" "\<not> is_error f"
        "logs w (map (status_call sp) (rs @ [r]) @ page_calls sp JNull ps @ [files_call sp f]) s0 s"
        "rows_file s = rows_file s0 @ concat (map row_line (concat (map rows_of ps)))"
        "rows_bytes s = rows_bytes s0 + length (concat (map row_line (concat (map rows_of ps))))"
        "rows_saved s = rows_saved s0 + length (concat (map rows_of ps))"
        "downgrade s = (if truthy (fld ''truncated'' (structured f)) then Some (''partial'', u ''filelist_truncated'') else downgrade s0)" by blast
  have "\<not> truthy (fld ''truncated'' (structured f))" using parts(8) complete_not_cut r0 out by (auto split: if_splits)
  moreover have "take (calls_bytes s) (calls_file s) = calls_file s" "take (rows_bytes s) (rows_file s) = rows_file s"
    using parts(4-6) s0 by (simp_all add: logs_def)
  ultimately show ?thesis using parts v r0 s0 summary_fields [of sp s r0 "take k (samples s)"]
    by (intro exI [of _ rs] exI [of _ r] exI [of _ ps] exI [of _ f] exI [of _ v] exI [of _ summary]) (simp add: Let_def logs_def)
qed

text \<open>
  C38: whatever the session answers and however long it takes, a run ends after at most \<open>16\<close> listings, as many
  status calls and pages as the request allows, and one list of files, and not later than its deadline and the
  time by which the longest sleep overran.
\<close>

theorem flow_run_ends:
  assumes "parse_spec pf raw = Inr sp" and "execute w sp l now = (q, s)" and "0 \<le> L" and "\<And>i. oversleep w i \<le> L"
  shows "asked s \<le> 16 + nat (max_status_calls sp) + nat (max_pages sp) + 1 \<and> asked s \<le> 1529 \<and>
    (\<forall>name. call_counts s name \<le> call_attempts sp name) \<and> clock s \<le> now + deadline_seconds sp + L"
proof -
  let ?t = "min (max 0 (fst (entry l))) (min (deadline_seconds sp) (request_timeout sp))"
  let ?D = "now + deadline_seconds sp + L"
  have start: "?t \<le> deadline_seconds sp" by simp
  from assms(2) have "s = fresh_run (now + ?t) \<or> (\<exists>q'. phases w sp (now + deadline_seconds sp) (fresh_run (now + ?t)) = (q', s))"
    by (auto simp: execute_def session_phase_def run_def Let_def split: prod.splits sum.splits option.splits stop.splits)
  moreover have cost: "costs ?D (call_bound sp) (call_attempts sp) (phases w sp (now + deadline_seconds sp))"
    using assms(3, 4) by (intro costs_phases) simp_all
  moreover have "clock (fresh_run (now + ?t)) \<le> ?D" using start assms(3) unfolding fresh_run_def by (simp add: add_increasing2)
  moreover have "asked (fresh_run (now + ?t)) = 0" "call_counts (fresh_run (now + ?t)) = (\<lambda>_. 0)" by (simp_all add: fresh_run_def)
  ultimately have "asked s \<le> call_bound sp \<and> (\<forall>name. call_counts s name \<le> call_attempts sp name) \<and> clock s \<le> ?D"
    using costsD [OF cost, of "fresh_run (now + ?t)" _ s] by fastforce
  moreover have "call_bound sp \<le> 1529" using parsed_ranges(1-4) [OF assms(1)] by (simp add: call_bound_def list_limit_def)
  ultimately show ?thesis by (simp add: call_bound_def list_limit_def)
qed


section \<open>Names that cannot be written\<close>

lemma join_set: "part \<in> set parts \<Longrightarrow> set part \<subseteq> set (join_on c parts)"
  by (induction c parts rule: join_on.induct) auto

lemma surrogate_in_string: "c \<in> set t \<Longrightarrow> is_surrogate c \<Longrightarrow> c \<in> set (json_string t)"
  by (force simp: json_string_def esc_char_def is_surrogate_def)

lemma surrogate_in_object: "(k, JStr t) \<in> set kvs \<Longrightarrow> c \<in> set t \<Longrightarrow> is_surrogate c \<Longrightarrow> c \<in> set (dumps (obj kvs))"
proof -
  assume kv: "(k, JStr t) \<in> set kvs" and c: "c \<in> set t" "is_surrogate c"
  let ?part = "json_string (u k) @ 58 # dumps (JStr t)"
  from kv have "?part \<in> set (map (\<lambda>(k, v). json_string k @ 58 # dumps v) (map (\<lambda>(k, v). (u k, v)) kvs))" by force
  from join_set [OF this, of 44] surrogate_in_string [OF c] show ?thesis by (auto simp: obj_def)
qed

lemma surrogate_object_fails:
  assumes "(k, JStr t) \<in> set kvs" and "c \<in> set t" "is_surrogate c"
  shows "dumps_utf8 (obj kvs) = Inl (PyError ''ValueError'')"
proof -
  from surrogate_in_object [OF assms] assms(3) have "\<not> list_all is_scalar (dumps (obj kvs))"
    by (auto simp: list_all_iff is_scalar_def)
  then show ?thesis by (cases "dumpable (obj kvs)") (simp_all add: dumps_utf8_def encode_utf8_def)
qed

text \<open>
  C40: an accepted flow identifier with an unpaired surrogate makes every run end in an exception: no answer of
  the session leads to an exit code, a summary or a \<open>result.json\<close>.
\<close>

theorem flow_surrogate_escapes:
  assumes "text_id v ''flow_id'' = Inr (flow_id sp)" and "list_ex is_surrogate (str_of v)"
  shows "\<exists>x s. execute w sp l now = (Inl x, s)"
proof -
  from assms obtain c where c: "c \<in> set (flow_id sp)" "is_surrogate c" by (auto simp: text_id_def result_iff list_ex_iff)
  have summary: "build_summary sp s r facts = Inl (Broken (PyError ''ValueError''))" for s r facts
  proof -
    have "dumps_utf8 (summary_json sp s r facts (samples s)) = Inl (PyError ''ValueError'')"
      unfolding summary_json_def by (rule surrogate_object_fails [OF _ c, of "''flow_id''"]) simp
    then show ?thesis by (subst build_summary_def, subst fit_summary.simps) (simp add: Let_def)
  qed
  have "finish sp l s r = Inl (PyError ''ValueError'')" for s r
    by (simp add: finish_def store_result_def summary Let_def)
  then show ?thesis by (cases "session_phase w sp l now"; cases "fst (session_phase w sp l now)") (auto simp: execute_def)
qed

end
