(* ===== verification/Flow_Sample.thy ===== *)
theory Flow_Sample
  imports Flow_Exit
begin

text \<open>
  A run of the flow host at a concrete input: a request, a session that reports a finished flow with one page
  of one row and no files, and a connection that opens and closes. Each property of \<open>Flow_Exit\<close> is applied to it.
\<close>

section \<open>The request\<close>

definition flow_sample_json :: json where
  "flow_sample_json = obj [(''schema'', JStr (u ''velo.flow.request.v1'')), (''flow_id'', JStr (u ''F'')), (''connection_profile'', JStr (u ''/p'')),
     (''output_dir'', JStr (u ''/o'')), (''budget'', obj [])]"

definition flow_sample_bytes :: "byte list" where
  "flow_sample_bytes = utf8_bytes (dumps flow_sample_json)"

definition flow_sample_spec :: flow_spec where
  "flow_sample_spec = \<lparr>flow_id = u ''F'', profile_path = (u ''/p'', [u ''p'']), output_dir = (u ''/o'', [u ''o'']), flow_source = None, page_size = 250,
     sample_fields = [], sample_limit = 10, deadline_seconds = 120, request_timeout = 30, max_status_calls = 64, max_pages = 100,
     max_result_bytes = 67108864, max_log_bytes = 67108864\<rparr>"

lemma serial_dumps: "serial v \<Longrightarrow> dumps_utf8 v = Inr (utf8_bytes (dumps v)) \<and> length (utf8_bytes (dumps v)) = cost v"
  using scalar_dumps [of v] by (simp add: serial_def dumps_utf8_def encode_utf8_def cost_def)

lemma sample_path: "absolute_path (u ''/p'') = Some [u ''p'']" "absolute_path (u ''/o'') = Some [u ''o'']"
  "path_spelling (u ''/p'') [u ''p''] = u ''/p''" "path_spelling (u ''/o'') [u ''o''] = u ''/o''"
  by (simp_all add: absolute_path_def path_spelling_def path_str_def starts_with_def u_def)

lemma flow_sample_parsed: "parse_spec pf flow_sample_bytes = Inr flow_sample_spec"
proof -
  have ser: "serial flow_sample_json" by (simp add: flow_sample_json_def serial_obj)
  then have wf: "wf_json flow_sample_json" "dumpable flow_sample_json" by (simp_all add: serial_def)
  have floats: "floats_ok pf flow_sample_json" by (simp add: flow_sample_json_def obj_def)
  have "encode_utf8 (dumps flow_sample_json) = Inr flow_sample_bytes"
    using serial_dumps [OF ser] wf by (simp add: dumps_utf8_def flow_sample_bytes_def)
  then have "decode_utf8 flow_sample_bytes = Inr (dumps flow_sample_json)" by (rule decode_encode_utf8)
  moreover have "loads pf (unique_pairs e) c (dumps flow_sample_json) = Inr flow_sample_json" for e c
    by (rule loads_dumps) (use wf floats in \<open>auto simp: unique_pairs_def\<close>)
  ultimately have parsed: "spec_json pf flow_sample_bytes = Inr flow_sample_json" by (simp add: spec_json_def)
  have "0 < cost flow_sample_json \<and> cost flow_sample_json \<le> 200"
    by (simp add: flow_sample_json_def obj_def cost_simps) (simp add: text_cost_eq u_def char_cost_def)
  moreover have "length flow_sample_bytes = cost flow_sample_json" by (simp add: flow_sample_bytes_def cost_def)
  ultimately have len: "length flow_sample_bytes \<le> spec_max_bytes" "flow_sample_bytes \<noteq> []" by (auto simp: spec_max_bytes_def)
  have ids: "text_id (JStr (u ''F'')) ''flow_id'' = Inr (u ''F'')" by (simp add: text_id_def u_def)
  have enc: "encode_utf8 (u ''/o'') = Inr [47, 111]"
    by (simp add: encode_utf8_def utf8_bytes_def u_def is_scalar_def is_surrogate_def utf8_char_def)
  have dir: "spec_directory (JStr (u ''/o'')) = Inr (u ''/o'', [u ''o''])"
    by (simp add: spec_directory_def pure_absolute_def sample_path u_eq_iff enc)
  have prof: "pure_absolute (JStr (u ''/p'')) ''connection_profile'' = Inr (u ''/p'', [u ''p''])"
    by (simp add: pure_absolute_def sample_path u_eq_iff)
  have budget: "parse_budget (obj []) = Inr (120, 30, 64, 100, 67108864, 67108864)"
    by (simp add: parse_budget_def keys_within_def get_or_def budget_number_def is_finite_def dec_le_def dec_rat_def budget_integer_def del: isfinite_iff)
  show ?thesis
    using len parsed by (simp add: parse_spec_def) (simp add: spec_data_def flow_sample_json_def keys_within_def required_fields_def optional_fields_def budget
        get_or_def spec_source_def small_int_def spec_samples_def dir prof ids flow_sample_spec_def)
qed

section \<open>The session\<close>

definition sample_tool :: "string \<Rightarrow> tool" where
  "sample_tool name = \<lparr>tool_name = u name, input_schema = obj [], output_schema = obj []\<rparr>"

definition flow_success :: "string \<Rightarrow> (string \<times> json) list \<Rightarrow> call_result" where
  "flow_success name kvs = \<lparr>is_error = False,
     structured = obj ([(''operation'', JStr (u name)), (''status'', JStr (u ''success''))] @ kvs), dumped = JNull\<rparr>"

definition sample_status :: call_result where
  "sample_status = flow_success status_tool [(''flow_id'', JStr (u ''F'')), (''state'', JStr (u ''FINISHED''))]"

definition sample_page :: call_result where
  "sample_page = flow_success results_tool [(''pagination'', obj [(''cursor'', JStr (u ''v1:0'')), (''returned'', JInt 1), (''page_size'', JInt 250),
     (''truncated'', JBool False), (''next_cursor'', JNull)]), (''data'', JList [JNull])]"

definition sample_files :: call_result where
  "sample_files = flow_success files_tool [(''data'', JList []), (''truncated'', JBool False)]"

definition flow_sample_session :: session where
  "flow_sample_session = \<lparr>
     tools_answer = (\<lambda>n c. (0, Answer \<lparr>page_tools = map sample_tool required_tools, page_cursor = None\<rparr>)),
     call_answer = (\<lambda>n name args. (0, Answer (if name = status_tool then sample_status else if name = results_tool then sample_page else sample_files))),
     schema_ok = (\<lambda>_. True), conforms = (\<lambda>schema v. Inr True), oversleep = (\<lambda>_. 0), write_fault = (\<lambda>_. None), contract_open = True\<rparr>"

definition flow_sample_link :: link where
  "flow_sample_link = \<lparr>entry = (0, Answer ()), close_fails = False, streams_close = True, result_fault = None\<rparr>"

text \<open>The three lines of the log and the contract exist and are short.\<close>

lemma flow_sample_lines:
  "\<exists>l. json_line (call_record status_tool (status_args flow_sample_spec) JNull) = Inr l \<and> length l = 66"
  "\<exists>l. json_line (call_record results_tool (page_args flow_sample_spec JNull) JNull) = Inr l \<and> length l = 111"
  "\<exists>l. json_line (call_record files_tool (status_args flow_sample_spec) JNull) = Inr l \<and> length l = 66"
  "json_line JNull = Inr [110, 117, 108, 108, 10]"
proof -
  note defs = call_record_def status_args_def page_args_def flow_sample_spec_def status_tool_def results_tool_def files_tool_def option_json_def
  have int: "serial (JInt 250)" by (simp add: serial_def int_printable_def int_max_str_digits_def dec_digits.simps)
  have line: "json_line v = Inr (utf8_bytes (dumps v) @ [10])" "length (utf8_bytes (dumps v) @ [10]) = cost v + 1" if "serial v" for v
    using serial_dumps [OF that] by (simp_all add: json_line_def)
  show "\<exists>l. json_line (call_record status_tool (status_args flow_sample_spec) JNull) = Inr l \<and> length l = 66"
    by (intro exI conjI, rule line, simp add: defs serial_obj, subst line, simp add: defs serial_obj, simp add: defs obj_def cost_simps)
      (simp add: text_cost_eq u_def char_cost_def)
  show "\<exists>l. json_line (call_record results_tool (page_args flow_sample_spec JNull) JNull) = Inr l \<and> length l = 111"
    by (intro exI conjI, rule line, simp add: defs serial_obj int, subst line, simp add: defs serial_obj int, simp add: defs obj_def cost_simps cost_int int_str_def)
      (simp add: text_cost_eq u_def char_cost_def dec_digits.simps)
  show "\<exists>l. json_line (call_record files_tool (status_args flow_sample_spec) JNull) = Inr l \<and> length l = 66"
    by (intro exI conjI, rule line, simp add: defs serial_obj, subst line, simp add: defs serial_obj, simp add: defs obj_def cost_simps)
      (simp add: text_cost_eq u_def char_cost_def)
  show "json_line JNull = Inr [110, 117, 108, 108, 10]"
    by (simp add: json_line_def dumps_utf8_def encode_utf8_def utf8_bytes_def u_def is_scalar_def is_surrogate_def utf8_char_def)
qed

section \<open>The run\<close>

lemma flow_sample_contract:
  "\<exists>bs. rbind (require (indentable (contract_of (map (\<lambda>name. (u name, sample_tool name)) required_tools))) (PyError ''ValueError''))
     (\<lambda>_. encode_utf8 (pretty 0 (contract_of (map (\<lambda>name. (u name, sample_tool name)) required_tools)))) = Inr bs"
proof -
  let ?c = "contract_of (map (\<lambda>name. (u name, sample_tool name)) required_tools)"
  have c: "?c = obj (map (\<lambda>name. (name, obj [(''inputSchema'', obj []), (''outputSchema'', obj [])])) required_tools)"
    by (simp add: contract_of_def found_tool_def required_tools_def status_tool_def results_tool_def files_tool_def sample_tool_def)
  have "indentable ?c" unfolding c by (simp add: obj_def required_tools_def)
  moreover have "list_all is_scalar (pretty 0 ?c)"
    unfolding c by (simp add: obj_def required_tools_def status_tool_def results_tool_def files_tool_def new_line_def json_string_def esc_char_def
        u_def is_scalar_def is_surrogate_def)
  ultimately show ?thesis by (simp add: encode_utf8_def)
qed

lemma sample_bounded:
  assumes "clock s = 0" and "\<And>n. start n = (0, Answer a)"
  shows "bounded flow_sample_spec 120 start s = (Inr a, s\<lparr>asked := asked s + 1\<rparr>)"
  using assms by (simp add: bounded_def act_bind_def act_defs remaining_def flow_sample_spec_def)

definition sample_contract :: "byte list" where
  "sample_contract = utf8_bytes (pretty 0 (contract_of (map (\<lambda>name. (u name, sample_tool name)) required_tools)))"

lemma sample_load:
  "load_contract flow_sample_session flow_sample_spec 120 (fresh_run 0) = (Inr (), (fresh_run 0)\<lparr>asked := 1, listed := 1, written := 1,
     contract_file := Some sample_contract,
     validators := (\<lambda>x. if x \<in> set required_tools then (obj [], obj []) else (JNull, JNull))\<rparr>)"
proof -
  note tools = required_tools_def status_tool_def results_tool_def files_tool_def
  let ?found = "map (\<lambda>name. (u name, sample_tool name)) required_tools"
  have add: "add_tools (map sample_tool required_tools) [] s = (Inr ?found, s)" for s
    by (simp add: tools sample_tool_def act_defs)
  have all: "all_found ?found" by (simp add: all_found_def tools)
  have page: "bounded flow_sample_spec 120 (\<lambda>n. tools_answer flow_sample_session n None) (fresh_run 0) =
      (Inr \<lparr>page_tools = map sample_tool required_tools, page_cursor = None\<rparr>, (fresh_run 0)\<lparr>asked := 1\<rparr>)"
    by (subst sample_bounded) (simp_all add: fresh_run_def flow_sample_session_def)
  have limit: "list_limit = Suc 15" by (simp add: list_limit_def)
  have find: "find_tools flow_sample_session flow_sample_spec 120 list_limit None [] [] (fresh_run 0) =
      (Inr ?found, (fresh_run 0)\<lparr>asked := 1, listed := 1\<rparr>)"
    unfolding limit find_tools.simps by (simp add: act_bind_def page add all act_defs) (simp add: fresh_run_def)
  have adopt: "adopt_tools flow_sample_session ?found required_tools s =
      (Inr (), s\<lparr>validators := (\<lambda>x. if x \<in> set required_tools then (obj [], obj []) else validators s x)\<rparr>)" for s
    by (auto simp: tools found_tool_def sample_tool_def act_bind_def act_defs flow_sample_session_def fun_eq_iff intro!: flow_run.equality)
  obtain bs where "rbind (require (indentable (contract_of ?found)) (PyError ''ValueError'')) (\<lambda>_. encode_utf8 (pretty 0 (contract_of ?found))) = Inr bs"
    using flow_sample_contract by blast
  moreover from this have "bs = sample_contract" by (auto simp: rbind_Inr_iff encode_utf8_def sample_contract_def)
  ultimately have contract: "write_contract flow_sample_session (contract_of ?found) s = (Inr (), s\<lparr>written := written s + 1, contract_file := Some sample_contract\<rparr>)" for s
    by (simp add: write_contract_def act_bind_def act_defs write_out_def flow_sample_session_def Let_def)
  show ?thesis by (simp add: load_contract_def act_bind_def find adopt contract) (simp add: fresh_run_def cong: if_cong)
qed

lemma sample_call:
  assumes "clock s = 0" and "calls_bytes s \<le> 1000" and "json_line (call_record name args JNull) = Inr l" and "length l \<le> 1000"
    and "snd (call_answer flow_sample_session 0 name args) = Answer (flow_success name kvs)"
  shows "call_tool flow_sample_session flow_sample_spec 120 name args s =
    (Inr (structured (flow_success name kvs)), s\<lparr>call_counts := (call_counts s)(name := call_counts s name + 1), asked := asked s + 1, written := written s + 1,
      calls_file := calls_file s @ l, calls_bytes := calls_bytes s + length l\<rparr>)"
proof -
  let ?s = "s\<lparr>call_counts := (call_counts s)(name := call_counts s name + 1)\<rparr>"
  have ans: "call_answer flow_sample_session n name args = (0, Answer (flow_success name kvs))" for n
    using assms(5) by (simp add: flow_sample_session_def)
  have bounded: "bounded flow_sample_spec 120 (\<lambda>n. call_answer flow_sample_session n name args) ?s =
      (Inr (flow_success name kvs), ?s\<lparr>asked := asked s + 1\<rparr>)"
    using sample_bounded [of ?s "\<lambda>n. call_answer flow_sample_session n name args"] ans assms(1) by simp
  have app: "append_call flow_sample_session name args (flow_success name kvs) t =
      (Inr (), t\<lparr>written := written t + 1, calls_file := calls_file t @ l, calls_bytes := calls_bytes t + length l\<rparr>)" for t
    using assms(3, 4) by (simp add: append_call_def act_bind_def act_defs flow_success_def write_out_def flow_sample_session_def keep_call_def Let_def log_limit_def)
  have check: "checked flow_sample_session name (flow_success name kvs) t = (Inr (structured (flow_success name kvs)), t)" for t
    by (simp add: checked_def flow_success_def act_bind_def act_defs flow_sample_session_def Let_def)
  have conf: "conforms flow_sample_session schema v = Inr True" for schema v by (simp add: flow_sample_session_def)
  show ?thesis using assms(2) bounded
    by (simp add: call_tool_def act_bind_def act_defs conf app check log_limit_def) (simp add: flow_sample_spec_def)
qed

definition counted_call :: "string \<Rightarrow> byte list \<Rightarrow> flow_run \<Rightarrow> flow_run" where
  "counted_call name l s = s\<lparr>call_counts := (call_counts s)(name := call_counts s name + 1), asked := asked s + 1, written := written s + 1,
      calls_file := calls_file s @ l, calls_bytes := calls_bytes s + length l\<rparr>"

lemma sample_warnings: "count_warnings (structured (flow_success name kvs)) s =
    (if map_of kvs ''warnings'' = None then (Inr (), s) else count_warnings (structured (flow_success name kvs)) s)"
  by (simp add: count_warnings_def flow_success_def get_or_def act_bind_def act_defs map_of_append)

lemma sample_wait:
  assumes "clock s = 0" and "calls_bytes s \<le> 1000"
  shows "\<exists>l. length l = 66 \<and> wait_finished flow_sample_session flow_sample_spec 120 0 s =
    (Inr (), (counted_call status_tool l s)\<lparr>last_state := JStr (u ''FINISHED'')\<rparr>)"
proof -
  from flow_sample_lines(1) obtain l where l: "json_line (call_record status_tool (status_args flow_sample_spec) JNull) = Inr l" "length l = 66" by blast
  have call: "call_tool flow_sample_session flow_sample_spec 120 status_tool (status_args flow_sample_spec) s =
      (Inr (structured sample_status), counted_call status_tool l s)"
    unfolding sample_status_def counted_call_def
    by (rule sample_call [OF assms l(1)]) (simp_all add: l flow_sample_session_def sample_status_def)
  have item: "item ''state'' (structured sample_status) = Inr (JStr (u ''FINISHED''))" "item ''flow_id'' (structured sample_status) = Inr (JStr (u ''F''))"
    by (simp_all add: item_def sample_status_def flow_success_def)
  have warn: "count_warnings (structured sample_status) t = (Inr (), t)" for t
    by (simp add: sample_status_def sample_warnings)
  have "look_status flow_sample_session flow_sample_spec 120 s = (Inr True, (counted_call status_tool l s)\<lparr>last_state := JStr (u ''FINISHED'')\<rparr>)"
    by (simp add: look_status_def act_bind_def call item act_defs warn) (simp add: flow_sample_spec_def)
  then have "wait_finished flow_sample_session flow_sample_spec 120 0 s = (Inr (), (counted_call status_tool l s)\<lparr>last_state := JStr (u ''FINISHED'')\<rparr>)"
    by (subst wait_finished.simps) (simp add: flow_sample_spec_def)
  with l(2) show ?thesis by blast
qed

lemma sample_collect:
  assumes "clock s = 0" and "calls_bytes s \<le> 1000" and "rows_bytes s = 0" and "samples s = []"
  shows "\<exists>l. length l = 111 \<and> collect_pages flow_sample_session flow_sample_spec 120 100 JNull [] s =
    (Inr (), (counted_call results_tool l s)\<lparr>pages_fetched := pages_fetched s + 1, rows_fetched := rows_fetched s + 1, written := written s + 3,
       rows_file := rows_file s @ [110, 117, 108, 108, 10], rows_bytes := 5, pages_saved := pages_saved s + 1, rows_saved := rows_saved s + 1,
       samples := [JNull], next_unread := JNull\<rparr>)"
proof -
  from flow_sample_lines(2) obtain l where l: "json_line (call_record results_tool (page_args flow_sample_spec JNull) JNull) = Inr l" "length l = 111" by blast
  have call: "call_tool flow_sample_session flow_sample_spec 120 results_tool (page_args flow_sample_spec JNull) s =
      (Inr (structured sample_page), counted_call results_tool l s)"
    unfolding sample_page_def counted_call_def
    by (rule sample_call [OF assms(1, 2) l(1)]) (simp_all add: l flow_sample_session_def sample_page_def status_tool_def results_tool_def)
  have page: "check_page flow_sample_spec JNull (structured sample_page) t = (Inr (False, 1, JList [JNull], JNull), t)" for t
    by (simp add: check_page_def act_bind_def act_defs item_def sample_page_def flow_success_def expected_cursor_def) (simp add: flow_sample_spec_def)
  have warn: "count_warnings (structured sample_page) t = (Inr (), t)" for t
    by (simp add: sample_page_def sample_warnings)
  have rows: "append_rows flow_sample_session [[110, 117, 108, 108, 10]] t = (Inr (), t\<lparr>written := written t + 2,
      rows_file := rows_file t @ [110, 117, 108, 108, 10], rows_bytes := rows_bytes t + 5\<rparr>)" for t
    by (simp add: act_bind_def act_defs write_out_def flow_sample_session_def Let_def keep_row_def)
  have enc: "encode_utf8 (u ''null'') = Inr [110, 117, 108, 108]"
    by (simp add: encode_utf8_def utf8_bytes_def u_def is_scalar_def is_surrogate_def utf8_char_def)
  have sample: "extend_sample flow_sample_spec [JNull] t = (Inr (), t\<lparr>samples := samples t @ [JNull]\<rparr>)" if "samples t = []" for t
    using that by (simp add: act_bind_def act_defs enc sample_row_limit_def) (simp add: flow_sample_spec_def)
  have save: "save_page flow_sample_session flow_sample_spec echo (Suc 0) (JList [JNull]) t = (Inr (), t\<lparr>written := written t + 2,
      rows_file := rows_file t @ [110, 117, 108, 108, 10], rows_bytes := rows_bytes t + 5, pages_saved := pages_saved t + 1, rows_saved := rows_saved t + 1,
      samples := samples t @ [JNull]\<rparr>)" if "rows_bytes t = 0" "samples t = []" for t echo
    using that by (simp add: save_page_def act_bind_def act_defs flow_sample_lines(4) rows sample del: append_rows.simps extend_sample.simps)
      (simp add: flow_sample_spec_def)
  have "(100 :: nat) = Suc 99" by simp
  then show ?thesis using l(2) assms(3, 4)
    by (intro exI [of _ l]) (simp only: collect_pages.simps, simp add: act_bind_def call page warn save act_defs counted_call_def)
qed

lemma sample_list:
  assumes "clock s = 0" and "calls_bytes s \<le> 1000" and "downgrade s = None"
  shows "\<exists>l. length l = 66 \<and> list_files flow_sample_session flow_sample_spec 120 s =
    (Inr (), (counted_call files_tool l s)\<lparr>files_count := Some 0, files_complete := Some True, downgrade := None\<rparr>)"
proof -
  from flow_sample_lines(3) obtain l where l: "json_line (call_record files_tool (status_args flow_sample_spec) JNull) = Inr l" "length l = 66" by blast
  have call: "call_tool flow_sample_session flow_sample_spec 120 files_tool (status_args flow_sample_spec) s =
      (Inr (structured sample_files), counted_call files_tool l s)"
    unfolding sample_files_def counted_call_def
    by (rule sample_call [OF assms(1, 2) l(1)]) (simp_all add: l flow_sample_session_def sample_files_def status_tool_def results_tool_def files_tool_def)
  have warn: "count_warnings (structured sample_files) t = (Inr (), t)" for t
    by (simp add: sample_files_def sample_warnings)
  have "list_files flow_sample_session flow_sample_spec 120 s =
      (Inr (), (counted_call files_tool l s)\<lparr>files_count := Some 0, files_complete := Some True, downgrade := None\<rparr>)"
    by (simp add: list_files_def act_bind_def call warn act_defs) (simp add: item_def sample_files_def flow_success_def act_bind_def act_defs counted_call_def assms(3))
  with l(2) show ?thesis by blast
qed

lemma sample_phases:
  "\<exists>s. phases flow_sample_session flow_sample_spec 120 (fresh_run 0) = (Inr (), s) \<and> downgrade s = None \<and> calls_bytes s = 243 \<and> rows_bytes s = 5 \<and>
     (\<forall>name \<in> set required_tools. call_counts s name = 1) \<and> pages_fetched s = 1 \<and> pages_saved s = 1 \<and> rows_fetched s = 1 \<and> rows_saved s = 1 \<and>
     warnings_count s = 0 \<and> calls_complete s \<and> next_unread s = JNull \<and> files_count s = Some 0 \<and> files_complete s = Some True \<and>
     samples s = [JNull] \<and> last_state s = JStr (u ''FINISHED'')"
proof -
  let ?s1 = "(fresh_run 0)\<lparr>asked := 1, listed := 1, written := 1, contract_file := Some sample_contract,
     validators := (\<lambda>x. if x \<in> set required_tools then (obj [], obj []) else (JNull, JNull))\<rparr>"
  have s1: "clock ?s1 = 0" "calls_bytes ?s1 \<le> 1000" by (simp_all add: fresh_run_def)
  from sample_wait [OF s1] obtain l1 where l1: "length l1 = 66" and wait: "wait_finished flow_sample_session flow_sample_spec 120 0 ?s1 =
      (Inr (), (counted_call status_tool l1 ?s1)\<lparr>last_state := JStr (u ''FINISHED'')\<rparr>)" (is "_ = (_, ?s2)") by blast
  have s2: "clock ?s2 = 0" "calls_bytes ?s2 \<le> 1000" "rows_bytes ?s2 = 0" "samples ?s2 = []"
    using l1 by (simp_all add: fresh_run_def counted_call_def)
  from sample_collect [OF s2] obtain l2 s3 where l2: "length l2 = 111" and pages: "collect_pages flow_sample_session flow_sample_spec 120 100 JNull [] ?s2 = (Inr (), s3)"
      and s3: "s3 = (counted_call results_tool l2 ?s2)\<lparr>pages_fetched := pages_fetched ?s2 + 1, rows_fetched := rows_fetched ?s2 + 1, written := written ?s2 + 3,
       rows_file := rows_file ?s2 @ [110, 117, 108, 108, 10], rows_bytes := 5, pages_saved := pages_saved ?s2 + 1, rows_saved := rows_saved ?s2 + 1,
       samples := [JNull], next_unread := JNull\<rparr>" by blast
  have "clock s3 = 0" "calls_bytes s3 \<le> 1000" "downgrade s3 = None"
    using l1 l2 by (simp_all add: s3 fresh_run_def counted_call_def)
  from sample_list [OF this] obtain l3 where l3: "length l3 = 66" and files: "list_files flow_sample_session flow_sample_spec 120 s3 =
    (Inr (), (counted_call files_tool l3 s3)\<lparr>files_count := Some 0, files_complete := Some True, downgrade := None\<rparr>)" (is "_ = (_, ?s4)") by blast
  have "nat (max_pages flow_sample_spec) = 100" by (simp add: flow_sample_spec_def)
  then have "phases flow_sample_session flow_sample_spec 120 (fresh_run 0) = (Inr (), ?s4)"
    by (simp only: phases_def act_bind_def sample_load prod.case sum.case wait pages files)
  then show ?thesis
    by (intro exI [of _ ?s4]) (simp add: s3 fresh_run_def counted_call_def l1 l2 l3 required_tools_def status_tool_def results_tool_def files_tool_def)
qed

lemma flow_sample_session_phase:
  "\<exists>s. session_phase flow_sample_session flow_sample_spec flow_sample_link 0 = (Inr (flow_outcome s), s) \<and> downgrade s = None \<and> calls_bytes s = 243 \<and> rows_bytes s = 5 \<and>
     (\<forall>name \<in> set required_tools. call_counts s name = 1) \<and> pages_fetched s = 1 \<and> pages_saved s = 1 \<and> rows_fetched s = 1 \<and> rows_saved s = 1 \<and>
     warnings_count s = 0 \<and> calls_complete s \<and> next_unread s = JNull \<and> files_count s = Some 0 \<and> files_complete s = Some True \<and>
     samples s = [JNull] \<and> last_state s = JStr (u ''FINISHED'')"
proof -
  have conn: "connect flow_sample_spec flow_sample_link = None" "deadline_seconds flow_sample_spec = 120" "request_timeout flow_sample_spec = 30"
      "fst (entry flow_sample_link) = 0"
    by (simp_all add: connect_def flow_sample_spec_def flow_sample_link_def)
  have "after_close flow_sample_link r = r" for r by (simp add: after_close_def flow_sample_link_def)
  with sample_phases conn show ?thesis by (auto simp: session_phase_def run_def)
qed

lemma flow_sample_finish:
  assumes "downgrade s = None" "calls_bytes s = 243" "rows_bytes s = 5"
     "\<forall>name \<in> set required_tools. call_counts s name = 1" "pages_fetched s = 1" "pages_saved s = 1" "rows_fetched s = 1" "rows_saved s = 1"
     "warnings_count s = 0" "calls_complete s" "next_unread s = JNull" "files_count s = Some 0" "files_complete s = Some True"
     "samples s = [JNull]" "last_state s = JStr (u ''FINISHED'')"
  shows "\<exists>en. finish flow_sample_spec flow_sample_link s (flow_outcome s) = Inr en \<and> exit_code en = 0"
proof -
  let ?facts = "file_facts flow_sample_spec True s"
  let ?v = "summary_json flow_sample_spec s (flow_outcome s) ?facts [JNull]"
  note ints = serial_digits [of 0] serial_digits [of 1] serial_digits [of 5]
  have big: "serial (JInt 243)" by (simp add: serial_def int_printable_def int_max_str_digits_def dec_digits.simps)
  have paths: "output_file flow_sample_spec name = JStr (u (''/o/'' @ name))" for name
    by (simp add: output_file_def flow_sample_spec_def child_text_def u_def)
  have counts: "counts_json s = obj [(status_tool, JInt 1), (results_tool, JInt 1), (files_tool, JInt 1)]"
    using assms(4) by (simp add: counts_json_def required_tools_def)
  have spec: "flow_id flow_sample_spec = u ''F''" "flow_source flow_sample_spec = None" by (simp_all add: flow_sample_spec_def)
  note defs = summary_json_def file_facts_def flow_outcome_def error_json_def count_json_def flag_json_def option_json_def flow_result_schema_def
    status_tool_def results_tool_def files_tool_def
  have ser: "serial ?v"
    using assms ints big by (simp add: defs counts paths spec serial_obj serial_list serial_hex)
  have cost: "cost ?v \<le> 2000"
    using assms by (simp add: defs counts paths spec obj_def cost_simps cost_int int_str_def)
      (simp add: text_cost_eq u_def char_cost_def dec_digits.simps)
  have fit: "build_summary flow_sample_spec s (flow_outcome s) ?facts = Inr ?v"
    using serial_dumps [OF ser] cost assms(14) by (simp add: build_summary_def fit_summary.simps summary_limit_def Let_def)
  let ?p = "obj [(''schema'', flow_result_schema), (''outcome'', JStr (u ''complete'')), (''reason'', JStr (u ''finished'')), (''flow_id'', JStr (u ''F'')),
    (''rows_saved'', JInt 1), (''complete'', JBool True), (''result_path'', JStr (u ''/o/result.json'')), (''call_counts'', counts_json s), (''exit_code'', JInt 0)]"
  have serp: "serial ?p" using ints by (simp add: counts serial_obj defs)
  have costp: "cost ?p \<le> 2000"
    by (simp add: defs counts obj_def cost_simps cost_int int_str_def) (simp add: text_cost_eq u_def char_cost_def dec_digits.simps)
  have out: "stdout_summary ?v 0 (JStr (u ''/o/result.json'')) = Inr ?p"
    using serial_dumps [OF serp] costp assms by (simp add: stdout_summary_def Let_def item_def defs spec stdout_limit_def)
  have "store_result flow_sample_spec flow_sample_link s (flow_outcome s) ?facts =
      Inr (flow_outcome s, ?v, Some (utf8_bytes (dumps ?v)), JStr (u ''/o/result.json''))"
    using fit serial_dumps [OF ser] by (simp add: store_result_def Let_def write_result_def flow_sample_link_def paths)
  moreover have "rr_complete (flow_outcome s)" using assms(1) by (simp add: flow_outcome_def)
  ultimately show ?thesis using out serial_dumps [OF serp]
    by (simp add: finish_def flow_sample_link_def emit_def Let_def)
qed

lemma flow_sample_runs:
  "\<exists>en s. execute flow_sample_session flow_sample_spec flow_sample_link 0 = (Inr en, s) \<and> exit_code en = 0"
  using flow_sample_session_phase flow_sample_finish by (fastforce simp: execute_def)

section \<open>The properties at this input\<close>

theorem flow_exit_zero_earned_witness:
  "\<exists>en s rs r ps f. execute flow_sample_session flow_sample_spec flow_sample_link 0 = (Inr en, s) \<and> exit_code en = 0 \<and>
     reports flow_sample_spec (u ''FINISHED'') r \<and> chained flow_sample_spec JNull ps \<and> \<not> truthy (fld ''truncated'' (structured f)) \<and>
     calls_file s = concat (map log_line (map (status_call flow_sample_spec) (rs @ [r]) @ page_calls flow_sample_spec JNull ps @ [files_call flow_sample_spec f])) \<and>
     rows_file s = concat (map row_line (concat (map rows_of ps)))"
proof -
  from flow_sample_runs obtain en s where run: "execute flow_sample_session flow_sample_spec flow_sample_link 0 = (Inr en, s)" "exit_code en = 0" by blast
  from flow_exit_zero_earned [OF flow_sample_parsed [of "\<lambda>_. FloatNan"] run] run show ?thesis unfolding Let_def by blast
qed

theorem flow_run_ends_witness:
  "asked (snd (execute flow_sample_session flow_sample_spec flow_sample_link 0)) \<le> 181 \<and>
   clock (snd (execute flow_sample_session flow_sample_spec flow_sample_link 0)) \<le> 120"
  using flow_run_ends [OF flow_sample_parsed [of "\<lambda>_. FloatNan"], of flow_sample_session flow_sample_link 0
      "fst (execute flow_sample_session flow_sample_spec flow_sample_link 0)" "snd (execute flow_sample_session flow_sample_spec flow_sample_link 0)" 0]
  by (simp add: flow_sample_spec_def) (simp add: flow_sample_session_def)


theorem flow_surrogate_escapes_witness:
  "\<exists>x s. execute flow_sample_session (flow_sample_spec\<lparr>flow_id := [55296]\<rparr>) flow_sample_link 0 = (Inl x, s)"
  by (rule flow_surrogate_escapes [of "JStr [55296]"]) (simp_all add: text_id_def is_surrogate_def)

end
