(* ===== verification/Spec2Isabelle.thy ===== *)
theory Spec2Isabelle
  imports Journal_Notes Publish Receive_Safety Acl Gate Flow_Sample
begin

text \<open>
  A verification development for the Velociraptor MCP server: its transfer service, the Python package
  \<open>src/velo_transfer\<close>, which moves file trees between a host and a Windows guest with proofs of what
  was moved. Host and guest exchange JSON requests and binary chunk frames; each side keeps its state in
  files that survive a crash, and a transfer ends with receipts that bind a request, a package, a manifest
  and a destination by SHA-256 digests. And its flow host, the package \<open>src/velo_flow\<close>, which waits for the end of
  a collection, reads its result page by page and files what it received.

  Parts of the program and their theories.

  Values. \<open>Prelude\<close> has exceptions as the left side of a sum, strings as lists of code points, JSON-shaped
  values with Python's equality, and the automation the proofs share. \<open>Utf8\<close>, \<open>Json_Text\<close>, \<open>Sha256\<close> and
  \<open>Base64\<close> model what the sources use of the language's library: strict UTF-8, \<open>json.dumps\<close> and
  \<open>json.loads\<close>, SHA-256 and base64, all executable. \<open>Canonical\<close> is \<open>canonical_json\<close>, \<open>digest_json\<close>
  (\<open>manifest.py\<close>) and the incremental size accounting \<open>_validate_json\<close> (\<open>storage.py\<close>).

  Protocol. \<open>Protocol\<close> has the receipts of \<open>protocol.py\<close> and their validators, \<open>Terminal\<close> the class
  \<open>GuestTerminal\<close> with its snapshots, as a step relation. \<open>Wire\<close> is the binary frame of \<open>wire.py\<close>, \<open>Gate\<close>
  the HTTP front of \<open>http_wire.py\<close> as a relation over interleaved requests and responses.

  Files. \<open>Paths\<close> and \<open>Manifest\<close> are the path checks, the budget and the capture of sources in
  \<open>manifest.py\<close>; \<open>Bundle\<close> and \<open>Unpack\<close> the receiving half of \<open>bundle.py\<close>, the directory of a package, the
  manifest, the verification of a tree and the extraction; \<open>Captured\<close> joins sender and receiver. \<open>Disk\<close>
  has operations that write, faults included, and what they leave alone. \<open>Publish\<close> is \<open>filesystem.py\<close>,
  the rename that makes a verified tree visible.

  State. \<open>Revisions\<close> states the contracts of a durable store as locales: \<open>revision_store\<close> (a save is for the
  current revision and is what a load then gives), \<open>fact_store\<close> (settled facts stay) and \<open>atomic_store\<close> (a
  save that fails leaves the old value or the whole new one, and says which when it can). \<open>Store\<close> and
  \<open>Store_Updates\<close> are \<open>TaskStore\<close> of \<open>storage.py\<close> and its interpretation as an \<open>atomic_store\<close>; \<open>Journal\<close>,
  \<open>Journal_Facts\<close> and \<open>Journal_Notes\<close> are \<open>host_journal.py\<close> and its interpretation as a \<open>fact_store\<close>.

  Ends. \<open>Policy\<close> is \<open>policy.py\<close>, \<open>Request\<close> and \<open>Result\<close> are \<open>request.py\<close> and \<open>result.py\<close> on the host, \<open>Guest\<close> the
  front of \<open>guest_service.py\<close>: identity, capabilities, validation of a request, loading and saving of a
  task. \<open>Receive\<close> is the chunk transport of the same file with the lease of a transfer and the root lock
  and process check of \<open>guest_worker.py\<close>: a chunk of a push goes to \<open>received.part\<close> and its record to
  \<open>chunks.jsonl\<close> before the state acknowledges it, and what an interrupted call left is trimmed by the
  next. \<open>Receive_Facts\<close> has the triples of the file edits and of the recovery, \<open>Receive_Safety\<close> those of
  a whole call. \<open>Acl\<close> is the pure part of \<open>windows_platform.py\<close> and \<open>output_access.py\<close>: access control lists
  and their verifier.

  Flow host. \<open>Flow_Spec\<close> is \<open>spec.py\<close>, the request and the output directory; \<open>Flow\<close> is \<open>coordinator.py\<close> and the part
  of \<open>__main__.py\<close> from the open directory to the exit code, a state passed through steps that may stop; \<open>Flow_Facts\<close>
  has what every outcome of a step keeps (calls, time, bytes) by a locale of kept relations, \<open>Flow_Exit\<close> what a step
  that succeeds has written and the properties, \<open>Flow_Sample\<close> a run at a concrete input.

  How the code is modelled. A function that raises returns a sum; one that writes returns a result and the
  file system it leaves, also when it fails. A file system is a tree of directories, files, links and
  other nodes with their stats; it stands still during an operation except for what the operation itself
  does, and a fault of the environment (\<open>fault\<close>) stops one sequence of system calls at its creation, after
  some bytes, at the move, or at the synchronisation. The clock is an integer that stands still during an
  operation. Paths are POSIX except in \<open>Acl\<close>. Diagnostic context of an error is left out, its code is kept.
  Parameters stand for what the code takes from elsewhere: the Unicode database, the conversion of
  float literals (\<open>pf\<close>), other encodings than UTF-8 (\<open>wide\<close>), the codes of the JSON contract, fresh
  identifiers, \<open>zipfile\<close>, the stats of new nodes, the Windows calls, the SDK's session manager and the
  service behind the chunk endpoint. Floats are their shortest decimal.

  Flow runs. The session is a function from the number of a call and its arguments to the time it takes and what
  it answers, so any behaviour of the server is some session; the schema validator, faults of writes and overruns
  of sleeps are arguments too. Seconds are rationals, rounding of sums of floats is left out. The loops end by
  measures on the calls and samples that are left.

  Fuel. \<open>json.loads\<close> and the walks over trees and package directories are recursions with a measure or
  with a bound that the lemmas \<open>loads_fuel\<close> (\<open>Json_Text\<close>) and \<open>verify_child_load\<close> (\<open>Bundle\<close>) show to be enough.

  Reception of chunks. The state is one that \<open>transfer_begin\<close> made (its keys are there), no other process
  changes the files of the task while a call runs, each written file has its own environment (\<open>ls i\<close>),
  the table of processes and the locks others hold are arguments, and offsets stay below \<open>10 ^ 40\<close>.

  What the properties show. Encodings: canonical bytes determine a value, decoding gives it back, and the
  accounting accepts exactly what fits. Protocol: every reachable state of the terminal is restored exactly,
  and nothing else is accepted; an authorised release is final; receipts bind their inputs. Wire: frames
  round-trip, accepted batches are the announced chunks. Content: a captured manifest is accepted by the
  receiver, an accepted tree is exactly the manifest, extraction stays inside its stage, publication happens
  entirely or not at all. State: updates through the store behave as a compare-and-swap register whatever
  fails, settled facts are never taken back, and whatever fails while a chunk is received, the data file
  and the ledger hold what the state acknowledges. Ends: exit code 0 is earned, accepted requests lie within the
  policy, a verified Windows path is private, the transfer service is reached only through a session of
  the caller's own. Flow host: exit code 0 is earned by the calls and files of the run, every run ends within its
  calls, time and bytes, and one kind of accepted request ends in an uncaught exception.

  Not modelled. \<open>create_bundle\<close> writes through \<open>zipfile\<close>; the rest of \<open>guest_service.py\<close> (worker
  processes, the begin and the end of a transfer, its terminal operations) and the host's coordinator, publication, partial and cleanup
  modules, which drive the parts above over the network; the native halves of \<open>windows_platform.py\<close> and
  \<open>output_access.py\<close>; the adapters, tools and connections around them. The start of the flow host's
  \<open>execute\<close> and its transport. Outside both packages: the
  Velociraptor API client and the MCP tools, the Linux and Windows observation collectors, deployment
  scripts and the agent demo, which are mostly input and output against live systems.
\<close>

end
